(* ===== verification/Prelude.thy ===== *)
theory Prelude
  imports Complex_Main "HOL-Library.AList" "HOL-Library.Char_ord" "HOL-Library.List_Lexorder"
    "HOL-Library.Sublist"
begin

text \<open>
  Shared vocabulary of the development: the Python values, errors and results that every
  component uses, string routines of the Python standard library, and the generic lemmas that the
  component proofs rest on.

  Strings are HOL strings (lists of bytes of the UTF-8 encoding); letter case and white space are
  those of ASCII.  Floats are exact reals with the two infinities and NaN added.  An exception is
  a value: its class and its text.  An operation that can raise returns a sum, an operation that
  also has an effect returns the sum together with the new state, so what was written before a
  raise is kept.
\<close>

named_theorems store_simps \<open>what each store operation leaves in which table\<close>
named_theorems inv_intros \<open>preservation of the store invariants, one rule per operation\<close>

section \<open>Errors and results\<close>

datatype exn_kind = KeyError | ValueError | TypeError | RuntimeError | IntegrityError
  | InvalidTransition | MissingParameter | QueryRejected | ReviewConflict | ValidationError
  | HTTPException nat | ConnectionError | TimeoutError | OSError | OtherExn string

datatype pyexn = Exn exn_kind string

fun exn_kind_of :: "pyexn \<Rightarrow> exn_kind" where
  "exn_kind_of (Exn k _) = k"

fun exn_text :: "pyexn \<Rightarrow> string" where
  "exn_text (Exn _ t) = t"

text \<open>\<open>type(exc).__name__\<close>\<close>

fun exn_name :: "exn_kind \<Rightarrow> string" where
  "exn_name KeyError = ''KeyError''"
| "exn_name ValueError = ''ValueError''"
| "exn_name TypeError = ''TypeError''"
| "exn_name RuntimeError = ''RuntimeError''"
| "exn_name IntegrityError = ''IntegrityError''"
| "exn_name InvalidTransition = ''InvalidTransition''"
| "exn_name MissingParameter = ''MissingParameter''"
| "exn_name QueryRejected = ''QueryRejected''"
| "exn_name ReviewConflict = ''ReviewConflict''"
| "exn_name ValidationError = ''ValidationError''"
| "exn_name (HTTPException _) = ''HTTPException''"
| "exn_name ConnectionError = ''ConnectionError''"
| "exn_name TimeoutError = ''TimeoutError''"
| "exn_name OSError = ''OSError''"
| "exn_name (OtherExn n) = n"

type_synonym ('a, 's) out = "(pyexn + 'a) \<times> 's"

text \<open>Sequencing of two effectful steps: an exception skips the second, the state is kept.\<close>

fun seq :: "('a, 's) out \<Rightarrow> ('a \<Rightarrow> 's \<Rightarrow> ('b, 's) out) \<Rightarrow> ('b, 's) out" where
  "seq (Inl e, s) k = (Inl e, s)"
| "seq (Inr a, s) k = k a s"

fun and_then :: "pyexn + 'a \<Rightarrow> ('a \<Rightarrow> pyexn + 'b) \<Rightarrow> pyexn + 'b" where
  "and_then (Inl e) k = Inl e"
| "and_then (Inr a) k = k a"

lemma seq_Inr_conv:
  "seq r k = (Inr b, s') \<longleftrightarrow> (\<exists>a s. r = (Inr a, s) \<and> k a s = (Inr b, s'))"
proof (cases r)
  case (Pair x s)
  then show ?thesis by (cases x) auto
qed

lemma seq_assoc: "seq (seq r k) h = seq r (\<lambda>a s. seq (k a s) h)"
proof (cases r)
  case (Pair x s)
  then show ?thesis by (cases x) auto
qed

lemma seq_inv:
  assumes "I (snd r)" "\<And>a s. r = (Inr a, s) \<Longrightarrow> I s \<Longrightarrow> I (snd (k a s))"
  shows "I (snd (seq r k))"
proof (cases r)
  case (Pair x s)
  then show ?thesis using assms by (cases x) auto
qed

lemma and_then_Inr_conv [simp]:
  "and_then r k = Inr b \<longleftrightarrow> (\<exists>a. r = Inr a \<and> k a = Inr b)"
  by (cases r) auto

definition is_ok :: "pyexn + 'a \<Rightarrow> bool" where
  "is_ok r = (case r of Inl _ \<Rightarrow> False | Inr _ \<Rightarrow> True)"

lemma is_ok_simps [simp]: "\<not> is_ok (Inl e)" "is_ok (Inr a)"
  by (simp_all add: is_ok_def)

lemma is_ok_conv: "is_ok r \<longleftrightarrow> (\<exists>a. r = Inr a)"
  by (cases r) auto

section \<open>Python values\<close>

datatype pyfloat = Fin real | PInf | NInf | NaN

datatype pyval = PNone | PBool bool | PInt int | PFloat pyfloat | PStr string
  | PList "pyval list" | PDict "(string \<times> pyval) list"

type_synonym pydict = "(string \<times> pyval) list"

text \<open>Comparison of floats: NaN is ordered with nothing and equal to nothing.\<close>

fun fl_le :: "pyfloat \<Rightarrow> pyfloat \<Rightarrow> bool" where
  "fl_le NaN _ = False"
| "fl_le _ NaN = False"
| "fl_le NInf _ = True"
| "fl_le _ PInf = True"
| "fl_le (Fin a) (Fin b) = (a \<le> b)"
| "fl_le _ _ = False"

fun fl_eq :: "pyfloat \<Rightarrow> pyfloat \<Rightarrow> bool" where
  "fl_eq NaN _ = False"
| "fl_eq _ NaN = False"
| "fl_eq a b = (a = b)"

definition fl_lt :: "pyfloat \<Rightarrow> pyfloat \<Rightarrow> bool" where
  "fl_lt a b = (fl_le a b \<and> \<not> fl_eq a b)"

lemma fl_Fin [simp]:
  "fl_le (Fin a) (Fin b) = (a \<le> b)" "fl_lt (Fin a) (Fin b) = (a < b)"
  "fl_eq (Fin a) (Fin b) = (a = b)"
  by (auto simp: fl_lt_def)

text \<open>\<open>bool(v)\<close>\<close>

fun truthy :: "pyval \<Rightarrow> bool" where
  "truthy PNone = False"
| "truthy (PBool b) = b"
| "truthy (PInt i) = (i \<noteq> 0)"
| "truthy (PFloat f) = (f \<noteq> Fin 0)"
| "truthy (PStr s) = (s \<noteq> [])"
| "truthy (PList l) = (l \<noteq> [])"
| "truthy (PDict d) = (d \<noteq> [])"

fun opt_val :: "string option \<Rightarrow> pyval" where
  "opt_val None = PNone"
| "opt_val (Some s) = PStr s"

text \<open>A new key goes to the end of an association list.\<close>

lemma update_new: "k \<notin> fst ` set al \<Longrightarrow> AList.update k v al = al @ [(k, v)]"
  by (induction al) auto

end
