(* ===== verification/Py_Strings.thy ===== *)
theory Py_Strings
  imports Prelude
begin

text \<open>
  The string routines of the Python standard library that the components use: \<open>strip\<close>, \<open>lower\<close>,
  \<open>upper\<close>, \<open>split\<close>, \<open>join\<close>, \<open>replace\<close>, \<open>in\<close>, \<open>str(int)\<close>, \<open>int(str)\<close>, and the zero-padded
  numbers of f-strings.  The lemmas give the round trip of decimal numbers and the character set
  of a printed number.
\<close>

section \<open>Characters\<close>

definition code :: "char \<Rightarrow> nat" where
  "code c = of_char c"

definition is_space :: "char \<Rightarrow> bool" where
  "is_space c = (9 \<le> code c \<and> code c \<le> 13 \<or> 28 \<le> code c \<and> code c \<le> 32)"

definition is_digit :: "char \<Rightarrow> bool" where
  "is_digit c = (48 \<le> code c \<and> code c \<le> 57)"

definition is_alpha_us :: "char \<Rightarrow> bool" where
  "is_alpha_us c = (65 \<le> code c \<and> code c \<le> 90 \<or> 97 \<le> code c \<and> code c \<le> 122 \<or> code c = 95)"

definition is_word :: "char \<Rightarrow> bool" where
  "is_word c = (is_alpha_us c \<or> is_digit c)"

definition lower_char :: "char \<Rightarrow> char" where
  "lower_char c = (if 65 \<le> code c \<and> code c \<le> 90 then char_of (code c + 32) else c)"

definition upper_char :: "char \<Rightarrow> char" where
  "upper_char c = (if 97 \<le> code c \<and> code c \<le> 122 then char_of (code c - 32) else c)"

definition lower :: "string \<Rightarrow> string" where
  "lower = map lower_char"

definition upper :: "string \<Rightarrow> string" where
  "upper = map upper_char"

lemma length_lower [simp]: "length (lower s) = length s"
  by (simp add: lower_def)

lemma length_upper [simp]: "length (upper s) = length s"
  by (simp add: upper_def)

lemma lower_Nil [simp]: "lower s = [] \<longleftrightarrow> s = []" "lower [] = []"
  by (simp_all add: lower_def)

lemma upper_Nil [simp]: "upper s = [] \<longleftrightarrow> s = []" "upper [] = []"
  by (simp_all add: upper_def)

section \<open>White space\<close>

definition lstrip :: "string \<Rightarrow> string" where
  "lstrip = dropWhile is_space"

definition rstrip :: "string \<Rightarrow> string" where
  "rstrip s = rev (dropWhile is_space (rev s))"

definition strip :: "string \<Rightarrow> string" where
  "strip s = rstrip (lstrip s)"

text \<open>\<open>s.split()\<close>: the maximal runs of characters that are not white space.\<close>

fun split_ws_aux :: "string \<Rightarrow> string \<Rightarrow> string list" where
  "split_ws_aux [] w = (if w = [] then [] else [rev w])"
| "split_ws_aux (c # cs) w =
    (if is_space c then (if w = [] then split_ws_aux cs [] else rev w # split_ws_aux cs [])
     else split_ws_aux cs (c # w))"

definition split_ws :: "string \<Rightarrow> string list" where
  "split_ws s = split_ws_aux s []"

definition ws_word :: "string \<Rightarrow> bool" where
  "ws_word w = (w \<noteq> [] \<and> list_all (\<lambda>c. \<not> is_space c) w)"

lemma split_ws_aux_words:
  "list_all (\<lambda>c. \<not> is_space c) w \<Longrightarrow> list_all ws_word (split_ws_aux s w)"
proof (induction s w rule: split_ws_aux.induct)
  case (1 w)
  then show ?case by (simp add: ws_word_def)
next
  case (2 c cs w)
  then show ?case by (cases "is_space c"; cases "w = []") (simp_all add: ws_word_def)
qed

lemma split_ws_words: "list_all ws_word (split_ws s)"
  unfolding split_ws_def by (rule split_ws_aux_words) simp

section \<open>Substrings\<close>

text \<open>\<open>t in s\<close>\<close>

fun contains :: "string \<Rightarrow> string \<Rightarrow> bool" where
  "contains [] t = (t = [])"
| "contains (c # cs) t = (prefix t (c # cs) \<or> contains cs t)"

lemma contains_iff_sublist: "contains s t \<longleftrightarrow> sublist t s"
  by (induction s) (auto simp: sublist_Cons_right)

text \<open>\<open>s.replace(t, r)\<close> for a non-empty \<open>t\<close>: left to right, occurrences do not overlap.\<close>

function replace_all :: "string \<Rightarrow> string \<Rightarrow> string \<Rightarrow> string" where
  "replace_all t r [] = []"
| "replace_all t r (c # cs) =
    (if t \<noteq> [] \<and> prefix t (c # cs) then r @ replace_all t r (drop (length t) (c # cs))
     else c # replace_all t r cs)"
  by pat_completeness auto
termination
  by (relation "measure (\<lambda>(t, r, s). length s)") auto

lemma replace_all_absent: "\<not> contains s t \<Longrightarrow> replace_all t r s = s"
  by (induction s) auto

text \<open>\<open>sep.join(xs)\<close>\<close>

fun join :: "string \<Rightarrow> string list \<Rightarrow> string" where
  "join sep [] = []"
| "join sep [x] = x"
| "join sep (x # y # xs) = x @ sep @ join sep (y # xs)"

text \<open>\<open>s.split(c)\<close> for a single separator character\<close>

fun split_on :: "char \<Rightarrow> string \<Rightarrow> string list" where
  "split_on d [] = [[]]"
| "split_on d (c # cs) =
    (if c = d then [] # split_on d cs
     else (case split_on d cs of [] \<Rightarrow> [[c]] | w # ws \<Rightarrow> (c # w) # ws))"

lemma split_on_not_Nil [simp]: "split_on d s \<noteq> []"
  by (induction s) (auto split: list.splits)

section \<open>Decimal numbers\<close>

definition digit :: "nat \<Rightarrow> char" where
  "digit n = char_of (48 + n)"

fun str_nat :: "nat \<Rightarrow> string" where
  "str_nat n = (if n < 10 then [digit n] else str_nat (n div 10) @ [digit (n mod 10)])"

declare str_nat.simps [simp del]

definition str_int :: "int \<Rightarrow> string" where
  "str_int i = (if i < 0 then CHR ''-'' # str_nat (nat (- i)) else str_nat (nat i))"

definition digit_val :: "char \<Rightarrow> nat" where
  "digit_val c = code c - 48"

definition nat_of_digits :: "string \<Rightarrow> nat" where
  "nat_of_digits = foldl (\<lambda>n c. 10 * n + digit_val c) 0"

text \<open>\<open>f"{n:02d}"\<close> and its wider relatives, for \<open>n\<close> not negative\<close>

definition pad :: "nat \<Rightarrow> nat \<Rightarrow> string" where
  "pad w n = replicate (w - length (str_nat n)) (CHR ''0'') @ str_nat n"

lemma code_digit [simp]: "n < 10 \<Longrightarrow> code (digit n) = 48 + n"
  by (simp add: code_def digit_def)

lemma digit_facts [simp]: "n < 10 \<Longrightarrow> is_digit (digit n)" "n < 10 \<Longrightarrow> digit_val (digit n) = n"
  by (simp_all add: is_digit_def digit_val_def)

lemma digit_not_space: "is_digit c \<Longrightarrow> \<not> is_space c"
  by (auto simp: is_digit_def is_space_def)

lemma str_nat_digits: "c \<in> set (str_nat n) \<Longrightarrow> is_digit c"
  by (induction n rule: str_nat.induct) (subst (asm) str_nat.simps, auto split: if_splits)

lemma str_nat_not_Nil [simp]: "str_nat n \<noteq> []"
  by (subst str_nat.simps) simp

lemma nat_of_digits_snoc:
  "nat_of_digits (s @ [c]) = 10 * nat_of_digits s + digit_val c"
  by (simp add: nat_of_digits_def)

lemma nat_of_digits_str_nat [simp]: "nat_of_digits (str_nat n) = n"
proof (induction n rule: str_nat.induct)
  case (1 n)
  show ?case
  proof (cases "n < 10")
    case True
    then show ?thesis by (subst str_nat.simps) (simp add: nat_of_digits_def)
  next
    case False
    then show ?thesis using 1 by (subst str_nat.simps) (simp add: nat_of_digits_snoc)
  qed
qed

lemma str_nat_inj: "str_nat m = str_nat n \<longleftrightarrow> m = n"
  by (metis nat_of_digits_str_nat)

lemma nat_of_digits_zeros:
  "nat_of_digits (replicate k (CHR ''0'') @ s) = nat_of_digits s"
proof -
  have "foldl (\<lambda>n c. 10 * n + digit_val c) 0 (replicate k (CHR ''0'')) = 0"
    by (induction k) (auto simp: digit_val_def code_def)
  then show ?thesis by (simp add: nat_of_digits_def)
qed

lemma nat_of_digits_pad [simp]: "nat_of_digits (pad w n) = n"
  by (simp add: pad_def nat_of_digits_zeros)

lemma pad_digits: "c \<in> set (pad w n) \<Longrightarrow> is_digit c"
  by (auto simp: pad_def is_digit_def code_def dest: str_nat_digits)

lemma str_nat_length: "0 < k \<Longrightarrow> n < 10 ^ k \<Longrightarrow> length (str_nat n) \<le> k"
proof (induction n arbitrary: k rule: str_nat.induct)
  case (1 n)
  show ?case
  proof (cases "n < 10")
    case True
    then show ?thesis using 1 by (subst str_nat.simps) simp
  next
    case False
    with 1(3) obtain j where j: "k = Suc j" "0 < j"
      by (cases k; cases "k - 1") auto
    with 1(3) have "n div 10 < 10 ^ j"
      by (simp add: less_mult_imp_div_less mult.commute)
    then have "length (str_nat (n div 10)) \<le> j"
      using 1(1) [OF False j(2)] by simp
    then show ?thesis using False j by (subst str_nat.simps) simp
  qed
qed

lemma length_pad: "0 < w \<Longrightarrow> n < 10 ^ w \<Longrightarrow> length (pad w n) = w"
  using str_nat_length by (simp add: pad_def)

text \<open>
  \<open>int(s)\<close> on a stripped string: an optional sign, then digits with single underscores between
  them.
\<close>

fun digits_us :: "string \<Rightarrow> string option" where
  "digits_us [] = None"
| "digits_us [c] = (if is_digit c then Some [c] else None)"
| "digits_us (c # d # cs) =
    (if \<not> is_digit c then None
     else if d = CHR ''_'' then map_option (Cons c) (digits_us cs)
     else map_option (Cons c) (digits_us (d # cs)))"

definition parse_int :: "string \<Rightarrow> int option" where
  "parse_int s =
    (case strip s of
       [] \<Rightarrow> None
     | c # cs \<Rightarrow>
        if c = CHR ''-'' then map_option (\<lambda>d. - int (nat_of_digits d)) (digits_us cs)
        else if c = CHR ''+'' then map_option (\<lambda>d. int (nat_of_digits d)) (digits_us cs)
        else map_option (\<lambda>d. int (nat_of_digits d)) (digits_us (c # cs)))"

lemma digits_us_all: "\<forall>c\<in>set s. is_digit c \<Longrightarrow> s \<noteq> [] \<Longrightarrow> digits_us s = Some s"
  by (induction s rule: digits_us.induct) (auto simp: is_digit_def code_def)

lemma strip_no_space:
  assumes "\<forall>c\<in>set s. \<not> is_space c"
  shows "strip s = s"
proof -
  have id: "dropWhile is_space t = t" if "\<forall>c\<in>set t. \<not> is_space c" for t
    using that by (cases t) auto
  show ?thesis using assms by (simp add: strip_def lstrip_def rstrip_def id)
qed

lemma parse_int_str_int [simp]: "parse_int (str_int i) = Some i"
proof -
  have sp: "strip (str_nat n) = str_nat n" "strip (CHR ''-'' # str_nat n) = CHR ''-'' # str_nat n" for n
    using str_nat_digits digit_not_space
    by (auto intro!: strip_no_space simp: is_space_def code_def)
  have du: "digits_us (str_nat n) = Some (str_nat n)" for n
    by (rule digits_us_all) (auto dest: str_nat_digits)
  have hd: "str_nat n = c # cs \<Longrightarrow> c \<noteq> CHR ''-'' \<and> c \<noteq> CHR ''+''" for n c cs
    using str_nat_digits [of c n] by (auto simp: is_digit_def code_def)
  show ?thesis
  proof (cases "i < 0")
    case True
    then show ?thesis by (simp add: parse_int_def str_int_def sp du)
  next
    case False
    obtain c cs where c: "str_nat (nat i) = c # cs" by (cases "str_nat (nat i)") auto
    then show ?thesis using False hd [OF c] sp(1) [of "nat i"] du [of "nat i"]
      nat_of_digits_str_nat [of "nat i"]
      by (simp add: parse_int_def str_int_def)
  qed
qed

text \<open>\<open>f"{i:,}"\<close>: thousands separators\<close>

function group3 :: "string \<Rightarrow> string" where
  "group3 s = (if length s \<le> 3 then s
    else group3 (take (length s - 3) s) @ '','' @ drop (length s - 3) s)"
  by auto
termination
  by (relation "measure length") auto

declare group3.simps [simp del]

definition str_commas :: "int \<Rightarrow> string" where
  "str_commas i = (if i < 0 then CHR ''-'' # group3 (str_nat (nat (- i))) else group3 (str_nat (nat i)))"

lemma group3_digits: "CHR '','' \<notin> set s \<Longrightarrow> filter (\<lambda>c. c \<noteq> CHR '','') (group3 s) = s"
proof (induction s rule: group3.induct)
  case (1 s)
  have eq: "filter (\<lambda>c. c \<noteq> CHR '','') t = t" if "CHR '','' \<notin> set t" for t :: string
    using that by (induction t) auto
  show ?case
  proof (cases "length s \<le> 3")
    case True
    then show ?thesis using 1 eq by (subst group3.simps) simp
  next
    case False
    have "CHR '','' \<notin> set (take (length s - 3) s)" "CHR '','' \<notin> set (drop (length s - 3) s)"
      using 1(2) by (auto dest: in_set_takeD in_set_dropD)
    then show ?thesis using False 1(1) eq by (subst group3.simps) simp
  qed
qed

lemma evalp_str_nat: "n < 10 \<Longrightarrow> str_nat n = [digit n]"
  by (subst str_nat.simps) simp

lemma sep_unique:
  assumes "a @ c # b = a' @ c # b'" "c \<notin> set a" "c \<notin> set a'"
  shows "a = a' \<and> b = b'"
  using assms
proof (induction a arbitrary: a')
  case Nil
  then show ?case by (cases a') auto
next
  case (Cons x a)
  then show ?case by (cases a') auto
qed

lemma str_int_inj: "str_int a = str_int b \<longleftrightarrow> a = b"
proof
  assume e: "str_int a = str_int b"
  have "Some a = parse_int (str_int a)" by simp
  also have "\<dots> = parse_int (str_int b)" unfolding e ..
  also have "\<dots> = Some b" by simp
  finally show "a = b" by simp
qed simp

lemma digit_chars:
  "(char_of (48 :: nat) :: char) = CHR ''0''"
  "(char_of (49 :: nat) :: char) = CHR ''1''"
  "(char_of (50 :: nat) :: char) = CHR ''2''"
  "(char_of (51 :: nat) :: char) = CHR ''3''"
  "(char_of (52 :: nat) :: char) = CHR ''4''"
  "(char_of (53 :: nat) :: char) = CHR ''5''"
  "(char_of (54 :: nat) :: char) = CHR ''6''"
  "(char_of (55 :: nat) :: char) = CHR ''7''"
  "(char_of (56 :: nat) :: char) = CHR ''8''"
  "(char_of (57 :: nat) :: char) = CHR ''9''"
  by code_simp+

end
