(* ===== verification/Conditions.thy ===== *)
theory Conditions
  imports Py_Strings
begin

text \<open>
  \<open>workflow_engine/conditions.py\<close> and the reference syntax it shares with
  \<open>workflow_engine/feasibility.py\<close>: the guard grammar \<open>$ref OP literal\<close>, its matcher, the coercion of
  the literal and the comparison.

  The regular expressions are written out as matchers that try the alternatives in the order the
  expression has them; \<open>\s\<close>, \<open>\d\<close> and \<open>\S\<close> range over ASCII.
\<close>

section \<open>References\<close>

datatype ref_base = StepRef nat | TriggerRef

record ref =
  ref_base :: ref_base
  ref_field :: "string option"

text \<open>\<open>(\.[A-Za-z_][A-Za-z0-9_]*)?\<close>, greedy\<close>

definition match_field :: "string \<Rightarrow> string option \<times> string" where
  "match_field s =
    (case s of
       d # c # cs \<Rightarrow>
        if d = CHR ''.'' \<and> is_alpha_us c
        then (Some (c # takeWhile is_word cs), dropWhile is_word cs)
        else (None, s)
     | _ \<Rightarrow> (None, s))"

text \<open>\<open>\$(step_(\d+)|trigger)(\.[A-Za-z_][A-Za-z0-9_]*)?\<close> at the start of \<open>s\<close>, and what is left\<close>

definition match_ref :: "string \<Rightarrow> (ref \<times> string) option" where
  "match_ref s =
    (if prefix ''$step_'' s
     then (let ds = takeWhile is_digit (drop 6 s)
           in if ds = [] then None
              else (case match_field (dropWhile is_digit (drop 6 s)) of (f, rest) \<Rightarrow>
                Some (\<lparr>ref_base = StepRef (nat_of_digits ds), ref_field = f\<rparr>, rest)))
     else if prefix ''$trigger'' s
     then (case match_field (drop 8 s) of (f, rest) \<Rightarrow>
            Some (\<lparr>ref_base = TriggerRef, ref_field = f\<rparr>, rest))
     else None)"

text \<open>\<open>_REF_RE.match(s)\<close>; \<open>$\<close> also matches before a final newline.\<close>

definition match_REF_RE :: "string \<Rightarrow> ref option" where
  "match_REF_RE s =
    (case match_ref s of
       None \<Rightarrow> None
     | Some (r, rest) \<Rightarrow> if rest = [] \<or> rest = [CHR 0x0A] then Some r else None)"

section \<open>Conditions\<close>

datatype cmp_op = Ge | Le | Eq | Ne | Gt | Lt

fun op_text :: "cmp_op \<Rightarrow> string" where
  "op_text Ge = ''>=''"
| "op_text Le = ''<=''"
| "op_text Eq = ''==''"
| "op_text Ne = ''!=''"
| "op_text Gt = ''>''"
| "op_text Lt = ''<''"

record condition =
  c_ref :: string
  c_op :: cmp_op
  c_literal :: pyval

text \<open>\<open>\S+\s*$\<close>\<close>

definition match_token :: "string \<Rightarrow> string option" where
  "match_token s =
    (let w = takeWhile (\<lambda>c. \<not> is_space c) s
     in if w \<noteq> [] \<and> list_all is_space (dropWhile (\<lambda>c. \<not> is_space c) s) then Some w else None)"

text \<open>\<open>('[^']*'|"[^"]*"|\S+)\s*$\<close>\<close>

definition match_literal :: "string \<Rightarrow> string option" where
  "match_literal s =
    (case s of
       [] \<Rightarrow> None
     | q # cs \<Rightarrow>
        if q = CHR 0x27 \<or> q = CHR 0x22
        then (case dropWhile (\<lambda>c. c \<noteq> q) cs of
                [] \<Rightarrow> match_token s
              | _ # rest \<Rightarrow>
                 if list_all is_space rest then Some (q # takeWhile (\<lambda>c. c \<noteq> q) cs @ [q])
                 else match_token s)
        else match_token s)"

fun match_ops :: "cmp_op list \<Rightarrow> string \<Rightarrow> (cmp_op \<times> string) option" where
  "match_ops [] s = None"
| "match_ops (op # ops) s =
    (if prefix (op_text op) s
     then (case match_literal (lstrip (drop (length (op_text op)) s)) of
             Some l \<Rightarrow> Some (op, l)
           | None \<Rightarrow> match_ops ops s)
     else match_ops ops s)"

text \<open>\<open>_COND_RE.match(when)\<close>: reference, operator and literal.\<close>

definition match_COND_RE :: "string \<Rightarrow> (string \<times> cmp_op \<times> string) option" where
  "match_COND_RE s =
    (let t = lstrip s
     in case match_ref t of
          None \<Rightarrow> None
        | Some (_, rest) \<Rightarrow>
           (case match_ops [Ge, Le, Eq, Ne, Gt, Lt] (lstrip rest) of
              None \<Rightarrow> None
            | Some (op, l) \<Rightarrow> Some (take (length t - length rest) t, op, l)))"

section \<open>Numbers\<close>

text \<open>\<open>float(s)\<close>: sign, \<open>inf\<close>, \<open>infinity\<close>, \<open>nan\<close>, or a decimal with an optional exponent.  A value
  that rounds beyond the largest double is an infinity.\<close>

definition digits_or_empty :: "string \<Rightarrow> string option" where
  "digits_or_empty s = (if s = [] then Some [] else digits_us s)"

definition parse_exp :: "string \<Rightarrow> int option" where
  "parse_exp s =
    (case s of
       [] \<Rightarrow> None
     | c # cs \<Rightarrow>
        if c = CHR ''-'' then map_option (\<lambda>d. - int (nat_of_digits d)) (digits_us cs)
        else if c = CHR ''+'' then map_option (\<lambda>d. int (nat_of_digits d)) (digits_us cs)
        else map_option (\<lambda>d. int (nat_of_digits d)) (digits_us s))"

definition scale10 :: "nat \<Rightarrow> int \<Rightarrow> real" where
  "scale10 m e = (if 0 \<le> e then real (m * 10 ^ nat e) else real m / 10 ^ nat (- e))"

definition max_double_bound :: real where
  "max_double_bound = 2 ^ 1024 - 2 ^ 970"

definition parse_decimal :: "string \<Rightarrow> pyfloat option" where
  "parse_decimal u =
    (let m = takeWhile (\<lambda>c. c \<noteq> CHR ''e'') u; er = dropWhile (\<lambda>c. c \<noteq> CHR ''e'') u;
         ip = takeWhile (\<lambda>c. c \<noteq> CHR ''.'') m; fr = dropWhile (\<lambda>c. c \<noteq> CHR ''.'') m
     in case (digits_or_empty ip, digits_or_empty (drop 1 fr),
              if er = [] then Some 0 else parse_exp (drop 1 er)) of
          (Some i, Some f, Some e) \<Rightarrow>
            if i = [] \<and> f = [] then None
            else (let v = scale10 (nat_of_digits (i @ f)) (e - int (length f))
                  in Some (if v < max_double_bound then Fin v else PInf))
        | _ \<Rightarrow> None)"

definition parse_unsigned :: "string \<Rightarrow> pyfloat option" where
  "parse_unsigned u =
    (if u = ''inf'' \<or> u = ''infinity'' then Some PInf
     else if u = ''nan'' then Some NaN
     else parse_decimal u)"

fun fl_neg :: "pyfloat \<Rightarrow> pyfloat" where
  "fl_neg (Fin r) = Fin (- r)"
| "fl_neg PInf = NInf"
| "fl_neg NInf = PInf"
| "fl_neg NaN = NaN"

definition parse_float :: "string \<Rightarrow> pyfloat option" where
  "parse_float s =
    (case lower (strip s) of
       [] \<Rightarrow> None
     | c # cs \<Rightarrow>
        if c = CHR ''-'' then map_option fl_neg (parse_unsigned cs)
        else if c = CHR ''+'' then parse_unsigned cs
        else parse_unsigned (c # cs))"

text \<open>\<open>float(v)\<close>\<close>

fun to_float :: "pyval \<Rightarrow> pyexn + pyfloat" where
  "to_float (PBool b) = Inr (Fin (if b then 1 else 0))"
| "to_float (PInt i) =
    (if \<bar>real_of_int i\<bar> < max_double_bound then Inr (Fin (real_of_int i))
     else Inl (Exn (OtherExn ''OverflowError'') ''int too large to convert to float''))"
| "to_float (PFloat f) = Inr f"
| "to_float (PStr s) =
    (case parse_float s of
       Some f \<Rightarrow> Inr f
     | None \<Rightarrow> Inl (Exn ValueError ''could not convert string to float''))"
| "to_float _ = Inl (Exn TypeError ''float() argument must be a string or a real number'')"

section \<open>Literals and comparison\<close>

definition coerce :: "string \<Rightarrow> pyval" where
  "coerce raw =
    (let low = lower raw
     in if low = ''true'' \<or> low = ''false'' then PBool (low = ''true'')
        else if 2 \<le> length raw \<and> (hd raw = CHR 0x22 \<or> hd raw = CHR 0x27) \<and> last raw = hd raw
        then PStr (butlast (tl raw))
        else (case parse_int raw of
                Some i \<Rightarrow> PInt i
              | None \<Rightarrow> (case parse_float raw of Some f \<Rightarrow> PFloat f | None \<Rightarrow> PStr raw)))"

definition parse_condition :: "string \<Rightarrow> pyexn + condition" where
  "parse_condition w =
    (case match_COND_RE w of
       None \<Rightarrow> Inl (Exn ValueError (''malformed condition '' @ w))
     | Some (r, op, l) \<Rightarrow> Inr \<lparr>c_ref = r, c_op = op, c_literal = coerce (strip l)\<rparr>)"

fun num_of :: "pyval \<Rightarrow> pyfloat option" where
  "num_of (PBool b) = Some (Fin (if b then 1 else 0))"
| "num_of (PInt i) = Some (Fin (real_of_int i))"
| "num_of (PFloat f) = Some f"
| "num_of _ = None"

fun fl_cmp :: "cmp_op \<Rightarrow> pyfloat \<Rightarrow> pyfloat \<Rightarrow> bool" where
  "fl_cmp Ge a b = fl_le b a"
| "fl_cmp Le a b = fl_le a b"
| "fl_cmp Eq a b = fl_eq a b"
| "fl_cmp Ne a b = (\<not> fl_eq a b)"
| "fl_cmp Gt a b = fl_lt b a"
| "fl_cmp Lt a b = fl_lt a b"

fun str_cmp :: "cmp_op \<Rightarrow> string \<Rightarrow> string \<Rightarrow> bool" where
  "str_cmp Ge a b = (b \<le> a)"
| "str_cmp Le a b = (a \<le> b)"
| "str_cmp Eq a b = (a = b)"
| "str_cmp Ne a b = (a \<noteq> b)"
| "str_cmp Gt a b = (b < a)"
| "str_cmp Lt a b = (a < b)"

text \<open>\<open>_OPS[op](left, literal)\<close> for a literal that is a number or a string\<close>

definition py_op :: "cmp_op \<Rightarrow> pyval \<Rightarrow> pyval \<Rightarrow> pyexn + bool" where
  "py_op op l r =
    (case (num_of l, num_of r) of
       (Some a, Some b) \<Rightarrow> Inr (fl_cmp op a b)
     | _ \<Rightarrow>
       (case (l, r) of
          (PStr a, PStr b) \<Rightarrow> Inr (str_cmp op a b)
        | _ \<Rightarrow>
          (case op of
             Eq \<Rightarrow> Inr False
           | Ne \<Rightarrow> Inr True
           | _ \<Rightarrow> Inl (Exn TypeError ''comparison not supported between the two types''))))"

fun is_bool :: "pyval \<Rightarrow> bool" where
  "is_bool (PBool _) = True"
| "is_bool _ = False"

definition compare :: "pyval \<Rightarrow> cmp_op \<Rightarrow> pyval \<Rightarrow> pyexn + bool" where
  "compare left op literal =
    (if num_of literal \<noteq> None \<and> \<not> is_bool left
     then (case to_float left of
             Inr f \<Rightarrow> py_op op (PFloat f) literal
           | Inl (Exn k t) \<Rightarrow>
              if k = TypeError \<or> k = ValueError
              then Inl (Exn ValueError ''cannot compare non-numeric'') else Inl (Exn k t))
     else py_op op left literal)"

section \<open>The matchers consume what they report\<close>

lemma takeWhile_dropWhile_stop:
  assumes "\<forall>c\<in>set a. P c" "b = [] \<or> \<not> P (hd b)"
  shows "takeWhile P (a @ b) = a \<and> dropWhile P (a @ b) = b"
  using assms by (induction a) (cases b, auto)+

lemma takeWhile_all: "\<forall>c\<in>set (takeWhile P s). P c"
  by (auto dest: set_takeWhileD)

lemma dropWhile_stop: "dropWhile P s = [] \<or> \<not> P (hd (dropWhile P s))"
  using hd_dropWhile by blast

lemma match_field_append:
  assumes "match_field p = (f, [])" "t = [] \<or> (\<not> is_word (hd t) \<and> hd t \<noteq> CHR ''.'')"
  shows "match_field (p @ t) = (f, t)"
proof (cases "p = []")
  case True
  with assms show ?thesis
    by (auto simp: match_field_def split: list.splits)
next
  case False
  with assms(1) obtain d c cs where p: "p = d # c # cs" "d = CHR ''.''" "is_alpha_us c"
    "f = Some (c # takeWhile is_word cs)" "dropWhile is_word cs = []"
    by (auto simp: match_field_def split: list.splits if_splits)
  have "\<forall>x\<in>set cs. is_word x" using p(5) by (simp add: dropWhile_eq_Nil_conv)
  then have "takeWhile is_word (cs @ t) = cs \<and> dropWhile is_word (cs @ t) = t"
    "takeWhile is_word cs = cs"
    using takeWhile_dropWhile_stop [of cs is_word t] assms(2)
    by (auto simp: takeWhile_eq_all_conv)
  with p show ?thesis by (simp add: match_field_def)
qed

lemma match_field_split:
  assumes "match_field s = (f, rest)"
  obtains p where "s = p @ rest" "match_field p = (f, [])" "p = [] \<or> hd p = CHR ''.''"
proof (cases "\<exists>c cs. s = CHR ''.'' # c # cs \<and> is_alpha_us c")
  case True
  then obtain c cs where s: "s = CHR ''.'' # c # cs" "is_alpha_us c" by blast
  with assms have "f = Some (c # takeWhile is_word cs)" "rest = dropWhile is_word cs"
    by (simp_all add: match_field_def)
  moreover have "takeWhile is_word (takeWhile is_word cs) = takeWhile is_word cs"
    "dropWhile is_word (takeWhile is_word cs) = []"
    using takeWhile_all [of is_word cs] by (auto simp: takeWhile_eq_all_conv dropWhile_eq_Nil_conv)
  ultimately show ?thesis
    using that [of "CHR ''.'' # c # takeWhile is_word cs"] s by (simp add: match_field_def)
next
  case False
  then have "match_field s = (None, s)"
    by (auto simp: match_field_def split: list.splits)
  with assms show ?thesis using that [of "[]"] by (simp add: match_field_def)
qed

lemma match_ref_append:
  assumes "match_ref p = Some (r, [])" "t = [] \<or> (\<not> is_word (hd t) \<and> hd t \<noteq> CHR ''.'')"
  shows "match_ref (p @ t) = Some (r, t)"
proof (cases "prefix ''$step_'' p")
  case True
  then obtain u where u: "p = ''$step_'' @ u" by (auto simp: prefix_def)
  let ?ds = "takeWhile is_digit u" and ?m = "dropWhile is_digit u"
  from assms(1) u have a: "?ds \<noteq> []" "match_field ?m = (ref_field r, [])"
    "ref_base r = StepRef (nat_of_digits ?ds)"
    by (auto simp: match_ref_def Let_def split: if_splits prod.splits)
  have "?m @ t = [] \<or> \<not> is_digit (hd (?m @ t))"
  proof (cases "?m = []")
    case True
    then have "?m @ t = t" by (simp only: append_Nil)
    then show ?thesis using assms(2) unfolding is_word_def by presburger
  next
    case False
    then have "hd (?m @ t) = hd ?m" by (rule hd_append2)
    then show ?thesis using dropWhile_stop [of is_digit u] False by (simp only: disj_not1 simp_thms)
  qed
  from takeWhile_dropWhile_stop [OF takeWhile_all [of is_digit u] this]
  have "takeWhile is_digit (u @ t) = ?ds" "dropWhile is_digit (u @ t) = ?m @ t"
    by (metis append.assoc takeWhile_dropWhile_id)+
  then show ?thesis
    using a match_field_append [OF a(2) assms(2)] u by (simp add: match_ref_def Let_def)
next
  case False
  with assms(1) have tr: "prefix ''$trigger'' p"
    by (auto simp: match_ref_def split: if_splits)
  then obtain u where u: "p = ''$trigger'' @ u" by (auto simp: prefix_def)
  with assms(1) have a: "match_field u = (ref_field r, [])" "ref_base r = TriggerRef"
    by (auto simp: match_ref_def split: prod.splits)
  then show ?thesis using match_field_append [OF a(1) assms(2)] u by (simp add: match_ref_def)
qed

lemma match_ref_split:
  assumes "match_ref s = Some (r, rest)"
  obtains p where "s = p @ rest" "match_ref p = Some (r, [])" "p \<noteq> []" "hd p = CHR ''$''"
proof (cases "prefix ''$step_'' s")
  case True
  then obtain u where u: "s = ''$step_'' @ u" by (auto simp: prefix_def)
  let ?ds = "takeWhile is_digit u" and ?m = "dropWhile is_digit u"
  from assms u have a: "?ds \<noteq> []" "match_field ?m = (ref_field r, rest)"
    "ref_base r = StepRef (nat_of_digits ?ds)"
    by (auto simp: match_ref_def Let_def split: if_splits prod.splits)
  obtain p where p: "?m = p @ rest" "match_field p = (ref_field r, [])" "p = [] \<or> hd p = CHR ''.''"
    using match_field_split [OF a(2)] .
  have "p = [] \<or> \<not> is_digit (hd p)" using p(3) by (auto simp: is_digit_def code_def)
  from takeWhile_dropWhile_stop [OF takeWhile_all [of is_digit u] this]
  have "match_ref (''$step_'' @ ?ds @ p) = Some (r, [])"
    using a p(2) by (simp add: match_ref_def Let_def)
  moreover have "s = (''$step_'' @ ?ds @ p) @ rest" using u p(1) by (simp flip: p(1))
  ultimately show ?thesis using that by fastforce
next
  case False
  with assms have tr: "prefix ''$trigger'' s"
    by (auto simp: match_ref_def split: if_splits)
  then obtain u where u: "s = ''$trigger'' @ u" by (auto simp: prefix_def)
  with assms have a: "match_field u = (ref_field r, rest)" "ref_base r = TriggerRef"
    by (auto simp: match_ref_def split: prod.splits)
  obtain p where p: "u = p @ rest" "match_field p = (ref_field r, [])"
    using match_field_split [OF a(1)] by metis
  have "match_ref (''$trigger'' @ p) = Some (r, [])"
    using a p(2) by (simp add: match_ref_def)
  then show ?thesis using that [of "''$trigger'' @ p"] u p(1) by simp
qed

definition spaces :: "string \<Rightarrow> bool" where
  "spaces s = list_all is_space s"

text \<open>One value: a quoted string, or a run of characters without white space.\<close>

definition single_value :: "string \<Rightarrow> bool" where
  "single_value l = (l \<noteq> [] \<and> list_all (\<lambda>c. \<not> is_space c) l \<or>
     (\<exists>q body. l = q # body @ [q] \<and> (q = CHR 0x27 \<or> q = CHR 0x22) \<and> q \<notin> set body))"

lemma match_token_split:
  assumes "match_token s = Some w"
  obtains u where "s = w @ u" "spaces u" "single_value w"
proof -
  from assms have w: "w = takeWhile (\<lambda>c. \<not> is_space c) s" "w \<noteq> []"
    "list_all is_space (dropWhile (\<lambda>c. \<not> is_space c) s)"
    by (auto simp: match_token_def Let_def split: if_splits)
  moreover have "list_all (\<lambda>c. \<not> is_space c) w"
    using w(1) by (auto simp: list_all_iff dest: set_takeWhileD)
  ultimately show ?thesis
    using that [of "dropWhile (\<lambda>c. \<not> is_space c) s"] by (simp add: spaces_def single_value_def)
qed

lemma match_literal_split:
  assumes "match_literal s = Some l"
  obtains u where "s = l @ u" "spaces u" "single_value l"
proof (cases "match_token s = Some l")
  case True
  then show ?thesis using match_token_split that by blast
next
  case False
  with assms obtain q cs rest where q: "s = q # cs" "q = CHR 0x27 \<or> q = CHR 0x22"
    "dropWhile (\<lambda>c. c \<noteq> q) cs = q # rest" "list_all is_space rest"
    "l = q # takeWhile (\<lambda>c. c \<noteq> q) cs @ [q]"
    by (cases s) (auto simp: match_literal_def dropWhile_eq_Cons_conv split: if_splits list.splits)
  have "cs = takeWhile (\<lambda>c. c \<noteq> q) cs @ q # rest"
    using takeWhile_dropWhile_id [of "\<lambda>c. c \<noteq> q" cs] q(3) by simp
  moreover have "q \<notin> set (takeWhile (\<lambda>c. c \<noteq> q) cs)" by (auto dest: set_takeWhileD)
  ultimately show ?thesis
    using that [of rest] q by (auto simp: spaces_def single_value_def)
qed

lemma lstrip_split: obtains u where "s = u @ lstrip s" "spaces u"
  using that [of "takeWhile is_space s"]
  by (auto simp: lstrip_def spaces_def list_all_iff dest: set_takeWhileD)

lemma match_ops_split:
  assumes "match_ops ops s = Some (op, l)"
  obtains u v where "s = op_text op @ u @ l @ v" "spaces u" "spaces v" "single_value l"
  using assms
proof (induction ops s arbitrary: thesis rule: match_ops.induct)
  case (2 o' ops s)
  show ?case
  proof (cases "prefix (op_text o') s \<and> match_literal (lstrip (drop (length (op_text o')) s)) \<noteq> None")
    case True
    then obtain t where t: "s = op_text o' @ t" by (auto simp: prefix_def)
    with True 2(4) have m: "op = o'" "match_literal (lstrip t) = Some l" by auto
    obtain u where u: "t = u @ lstrip t" "spaces u" by (rule lstrip_split)
    obtain v where "lstrip t = l @ v" "spaces v" "single_value l"
      using match_literal_split [OF m(2)] .
    then show ?thesis using 2(3) [of u v] t u m(1) by metis
  next
    case False
    with 2 show ?thesis by (auto split: if_splits)
  qed
qed simp

lemma match_COND_RE_split:
  assumes "match_COND_RE w = Some (r, op, l)"
  obtains a b c d x where "w = a @ r @ b @ op_text op @ c @ l @ d"
    "spaces a" "spaces b" "spaces c" "spaces d" "match_ref r = Some (x, [])" "single_value l"
proof -
  let ?t = "lstrip w"
  from assms obtain x rest where m: "match_ref ?t = Some (x, rest)"
    "match_ops [Ge, Le, Eq, Ne, Gt, Lt] (lstrip rest) = Some (op, l)"
    "r = take (length ?t - length rest) ?t"
    by (auto simp: match_COND_RE_def Let_def split: option.splits prod.splits)
  obtain p where p: "?t = p @ rest" "match_ref p = Some (x, [])"
    using match_ref_split [OF m(1)] by metis
  with m(3) have "r = p" by simp
  obtain a where a: "w = a @ ?t" "spaces a" by (rule lstrip_split)
  obtain b where b: "rest = b @ lstrip rest" "spaces b" by (rule lstrip_split)
  obtain c d where c: "lstrip rest = op_text op @ c @ l @ d" "spaces c" "spaces d" "single_value l"
    using match_ops_split [OF m(2)] .
  have "w = a @ r @ b @ op_text op @ c @ l @ d"
    using a(1) p(1) b(1) c(1) \<open>r = p\<close> by metis
  then show ?thesis using that a(2) b(2) c p(2) \<open>r = p\<close> by blast
qed

lemma match_token_word:
  assumes "l \<noteq> []" "list_all (\<lambda>c. \<not> is_space c) l"
  shows "match_token l = Some l"
proof -
  have "takeWhile (\<lambda>c. \<not> is_space c) l = l" "dropWhile (\<lambda>c. \<not> is_space c) l = []"
    using assms by (simp_all add: takeWhile_eq_all_conv dropWhile_eq_Nil_conv list_all_iff)
  then show ?thesis using assms(1) unfolding match_token_def Let_def by (simp only: list.pred_inject if_True simp_thms)
qed

lemma match_literal_word:
  assumes "l \<noteq> []" "list_all (\<lambda>c. \<not> is_space c) l"
  shows "match_literal l = Some l"
proof -
  obtain q cs where l: "l = q # cs" using assms(1) by (cases l) auto
  have t: "match_token l = Some l" using match_token_word [OF assms] .
  show ?thesis
  proof (cases "dropWhile (\<lambda>c. c \<noteq> q) cs")
    case Nil
    then show ?thesis using t l unfolding match_literal_def list.case by (simp only: list.case if_cancel)
  next
    case (Cons q' rest)
    then have "q' = q" by (metis (mono_tags, lifting) hd_dropWhile list.discI list.sel(1))
    then have "cs = takeWhile (\<lambda>c. c \<noteq> q) cs @ q # rest"
      using Cons takeWhile_dropWhile_id [of "\<lambda>c. c \<noteq> q" cs] by simp
    moreover have "list_all is_space rest \<Longrightarrow> rest = []"
      using assms(2) l calculation
      by (metis in_set_conv_decomp list_all_append list.pred_inject(2) list.exhaust)
    ultimately show ?thesis using t l Cons by (auto simp: match_literal_def)
  qed
qed

lemma spaces_strip:
  assumes "single_value l"
  shows "strip l = l"
proof (cases "list_all (\<lambda>c. \<not> is_space c) l")
  case True
  then show ?thesis by (intro strip_no_space) (simp add: list_all_iff)
next
  case False
  with assms obtain q body where l: "l = q # body @ [q]" "q = CHR 0x27 \<or> q = CHR 0x22"
    by (auto simp: single_value_def)
  then have "\<not> is_space q" by (auto simp: is_space_def code_def)
  then show ?thesis using l(1) by (simp add: strip_def lstrip_def rstrip_def)
qed

lemma lstrip_Cons: "lstrip (c # s) = (if is_space c then lstrip s else c # s)"
  by (simp add: lstrip_def)

section \<open>Properties\<close>

text \<open>Whatever text a guard has, parsing it either fails with a ValueError or yields exactly one
  reference, one operator and one literal: up to white space the text is their concatenation, the
  reference is a whole reference of the grammar, and the literal is one quoted string or one run of
  characters without white space.  So nothing with a second comparison behind white space, a
  conjunction or a call chain is accepted.\<close>

theorem parse_condition_shape:
  "case parse_condition w of
     Inl e \<Rightarrow> exn_kind_of e = ValueError
   | Inr c \<Rightarrow> \<exists>a b d f r l. w = a @ c_ref c @ b @ op_text (c_op c) @ d @ l @ f \<and>
       spaces a \<and> spaces b \<and> spaces d \<and> spaces f \<and> match_REF_RE (c_ref c) = Some r \<and>
       single_value l \<and> c_literal c = coerce l"
proof (cases "match_COND_RE w")
  case None
  then show ?thesis by (simp add: parse_condition_def)
next
  case (Some m)
  obtain r op l where m: "m = (r, op, l)" by (cases m)
  obtain a b c d x where s: "w = a @ r @ b @ op_text op @ c @ l @ d"
    "spaces a" "spaces b" "spaces c" "spaces d" "match_ref r = Some (x, [])" "single_value l"
    using match_COND_RE_split [OF Some [unfolded m]] .
  have "match_REF_RE r = Some x" using s(6) by (simp add: match_REF_RE_def)
  then show ?thesis
    using Some m s spaces_strip [OF s(7)] by (simp add: parse_condition_def) metis
qed

text \<open>A guard printed as reference, operator and one token is read back as just that reference,
  operator and the coerced token.\<close>

theorem parse_condition_print:
  assumes "match_ref r = Some (x, [])" "l \<noteq> []" "list_all (\<lambda>c. \<not> is_space c) l"
  shows "parse_condition (r @ '' '' @ op_text op @ '' '' @ l) =
    Inr \<lparr>c_ref = r, c_op = op, c_literal = coerce l\<rparr>"
proof -
  obtain p where "r = p @ []" "p \<noteq> []" "hd p = CHR ''$''"
    using match_ref_split [OF assms(1)] by metis
  then obtain t where t: "r = CHR ''$'' # t" by (cases r) auto
  have sp: "is_space (CHR '' '')" by (simp add: is_space_def code_def)
  have d: "\<not> is_space (CHR ''$'')" by (simp add: is_space_def code_def)
  have ls: "lstrip (CHR '' '' # l) = l" "lstrip l = l"
    using assms(2,3) sp by (cases l; simp add: lstrip_def)+
  have lo: "lstrip (CHR '' '' # op_text op @ u) = op_text op @ u" for u
    by (cases op) (simp_all add: lstrip_def is_space_def code_def)
  have ops: "match_ops [Ge, Le, Eq, Ne, Gt, Lt] (op_text op @ CHR '' '' # l) = Some (op, l)"
    by (cases op) (simp_all add: ls match_literal_word [OF assms(2,3)])
  have ref: "match_ref (r @ '' '' @ u) = Some (x, '' '' @ u)" for u
    by (rule match_ref_append [OF assms(1)]) (simp add: is_word_def is_alpha_us_def is_digit_def code_def)
  have "match_COND_RE (r @ '' '' @ op_text op @ '' '' @ l) = Some (r, op, l)"
  proof -
    let ?u = "op_text op @ CHR '' '' # l"
    have 1: "lstrip (r @ CHR '' '' # ?u) = r @ CHR '' '' # ?u" using t d by (simp add: lstrip_def)
    have 2: "match_ref (r @ CHR '' '' # ?u) = Some (x, CHR '' '' # ?u)" using ref [of ?u] by simp
    show ?thesis
      by (simp add: match_COND_RE_def 1 2 lo ops del: match_ops.simps)
  qed
  moreover have "strip l = l" using assms(3) by (intro strip_no_space) (simp add: list_all_iff)
  ultimately show ?thesis by (simp add: parse_condition_def)
qed

theorem parse_condition_print_witness:
  "parse_condition ''$step_1.count >= 2'' =
     Inr \<lparr>c_ref = ''$step_1.count'', c_op = Ge, c_literal = PInt 2\<rparr>"
proof -
  have "match_ref ''$step_1.count'' =
      Some (\<lparr>ref_base = StepRef 1, ref_field = Some ''count''\<rparr>, [])"
    by code_simp
  from parse_condition_print [OF this, of "''2''" Ge]
  have "parse_condition ''$step_1.count >= 2'' =
     Inr \<lparr>c_ref = ''$step_1.count'', c_op = Ge, c_literal = coerce ''2''\<rparr>"
    by (simp add: is_space_def code_def)
  moreover have "coerce ''2'' = PInt 2" by code_simp
  ultimately show ?thesis by simp
qed

text \<open>A comparison with a numeric literal is numeric: a left side that is a number or a text that
  reads as one is compared by value, and a left side that is neither raises, it is never a guard
  that is silently false.\<close>

theorem compare_numeric:
  "compare left op (PInt k) =
    (case left of
       PBool b \<Rightarrow> Inr (fl_cmp op (Fin (of_bool b)) (Fin (real_of_int k)))
     | PInt i \<Rightarrow>
        if \<bar>real_of_int i\<bar> < max_double_bound then Inr (fl_cmp op (Fin (real_of_int i)) (Fin (real_of_int k)))
        else Inl (Exn (OtherExn ''OverflowError'') ''int too large to convert to float'')
     | PFloat f \<Rightarrow> Inr (fl_cmp op f (Fin (real_of_int k)))
     | PStr s \<Rightarrow>
        (case parse_float s of
           Some f \<Rightarrow> Inr (fl_cmp op f (Fin (real_of_int k)))
         | None \<Rightarrow> Inl (Exn ValueError ''cannot compare non-numeric''))
     | _ \<Rightarrow> Inl (Exn ValueError ''cannot compare non-numeric''))"
  by (cases left) (auto simp: compare_def py_op_def split: option.split)

end
