(* ===== verification/Registry.thy ===== *)
theory Registry
  imports Py_Strings
begin

text \<open>
  \<open>workflow_engine/registry.py\<close>: the tool catalogue and its one dispatch path.

  A tool is a record; the state \<open>'st\<close> is what its body may change.  The argument schema of a tool is
  the list of its declared fields.  Validating a keyword dictionary against a schema is pydantic's
  work, so it is the parameter \<open>validate\<close> of the operations that use it: the validated dictionary
  (\<open>args_schema(**args).model_dump()\<close>) or a ValidationError.
\<close>

section \<open>Tools\<close>

datatype annotation = TStr | TInt | TFloat | TBool | TDict | TList | TOptStr

record field_spec =
  f_name :: string
  f_annotation :: annotation
  f_default :: "pyval option"
  f_ge :: "int option"
  f_le :: "int option"

type_synonym schema = "field_spec list"
type_synonym validator = "schema \<Rightarrow> pydict \<Rightarrow> pyexn + pydict"

definition READ_DATA :: string where "READ_DATA = ''READ_DATA''"
definition ANALYZE :: string where "ANALYZE = ''ANALYZE''"
definition NOTIFY :: string where "NOTIFY = ''NOTIFY''"

record 'st tool_spec =
  t_name :: string
  t_description :: string
  t_schema :: schema
  t_category :: string
  t_execute :: "pydict \<Rightarrow> 'st \<Rightarrow> (pyval, 'st) out"
  t_read_only :: bool
  t_requires_approval :: bool

text \<open>The dictionary of tools, in the order of registration.\<close>

type_synonym 'st registry = "(string \<times> 'st tool_spec) list"

section \<open>Operations\<close>

definition register :: "'st tool_spec \<Rightarrow> 'st registry \<Rightarrow> pyexn + 'st registry" where
  "register spec reg =
    (if t_name spec \<in> fst ` set reg
     then Inl (Exn ValueError (''tool '' @ t_name spec @ '' is already registered''))
     else Inr (reg @ [(t_name spec, spec)]))"

definition get_tool :: "'st registry \<Rightarrow> string \<Rightarrow> 'st tool_spec option" where
  "get_tool reg name = map_of reg name"

definition all_tools :: "'st registry \<Rightarrow> 'st tool_spec list" where
  "all_tools reg = map snd reg"

definition tool_names :: "'st registry \<Rightarrow> string set" where
  "tool_names reg = fst ` set reg"

definition score :: "string list \<Rightarrow> 'st tool_spec \<Rightarrow> nat" where
  "score terms spec = length (filter (contains (lower (t_name spec @ '' '' @ t_description spec))) terms)"

text \<open>Sorted by the pair (minus score, name): a stable sort by score of the list sorted by name.\<close>

definition search :: "'st registry \<Rightarrow> string \<Rightarrow> 'st tool_spec list" where
  "search reg query =
    (let terms = split_ws (lower query)
     in if terms = [] then all_tools reg
        else sort_key (\<lambda>s. - int (score terms s))
               (sort_key t_name (filter (\<lambda>s. score terms s \<noteq> 0) (all_tools reg))))"

definition execute_tool :: "validator \<Rightarrow> 'st registry \<Rightarrow> string \<Rightarrow> pydict \<Rightarrow> 'st \<Rightarrow> (pyval, 'st) out" where
  "execute_tool validate reg name args st =
    (case get_tool reg name of
       None \<Rightarrow> (Inl (Exn KeyError (''unknown tool '' @ name)), st)
     | Some spec \<Rightarrow>
        (case validate (t_schema spec) args of
           Inl e \<Rightarrow> (Inl e, st)
         | Inr validated \<Rightarrow> t_execute spec validated st))"

definition em_dash :: string where
  "em_dash = [CHR 0xE2, CHR 0x80, CHR 0x94]"

definition listing_for_prompt :: "'st registry \<Rightarrow> string" where
  "listing_for_prompt reg =
    join [CHR 0x0A]
      (map (\<lambda>s. ''- '' @ t_name s @ ''('' @ join '', '' (map f_name (t_schema s)) @ '') ['' @
                t_category s @ ''] '' @ em_dash @ '' '' @ t_description s)
        (sort_key t_name (all_tools reg)))"

section \<open>Well-formed registries\<close>

text \<open>Every tool is filed under its own name, once.\<close>

definition registry_wf :: "'st registry \<Rightarrow> bool" where
  "registry_wf reg = (distinct (map fst reg) \<and> (\<forall>(n, s)\<in>set reg. t_name s = n))"

lemma registry_wf_Nil [simp]: "registry_wf []"
  by (simp add: registry_wf_def)

lemma register_wf: "register spec reg = Inr reg' \<Longrightarrow> registry_wf reg \<Longrightarrow> registry_wf reg'"
  by (auto simp: register_def registry_wf_def split: if_splits)

lemma get_tool_None: "get_tool reg n = None \<longleftrightarrow> n \<notin> tool_names reg"
  unfolding get_tool_def tool_names_def by (rule map_of_eq_None_iff)

lemma register_get:
  assumes "register spec reg = Inr reg'"
  shows "get_tool reg' n = (if n = t_name spec then Some spec else get_tool reg n)"
proof -
  from assms have r: "t_name spec \<notin> fst ` set reg" "reg' = reg @ [(t_name spec, spec)]"
    by (cases "t_name spec \<in> fst ` set reg"; simp add: register_def)+
  have "map_of reg (t_name spec) = None" by (rule map_of_eq_None_iff [THEN iffD2, OF r(1)])
  then show ?thesis by (simp add: r(2) get_tool_def map_add_def split: option.split)
qed

lemma get_tool_name: "registry_wf reg \<Longrightarrow> get_tool reg n = Some s \<Longrightarrow> t_name s = n"
  by (auto simp: registry_wf_def get_tool_def dest!: map_of_SomeD)

lemma all_tools_get:
  assumes "registry_wf reg"
  shows "set (all_tools reg) = {s. get_tool reg (t_name s) = Some s}"
proof (rule set_eqI)
  fix s
  have "s \<in> set (all_tools reg) \<longleftrightarrow> (\<exists>n. (n, s) \<in> set reg)" by (force simp: all_tools_def)
  also have "\<dots> \<longleftrightarrow> (t_name s, s) \<in> set reg" using assms by (auto simp: registry_wf_def)
  also have "\<dots> \<longleftrightarrow> map_of reg (t_name s) = Some s"
    using assms by (simp add: registry_wf_def)
  finally show "s \<in> set (all_tools reg) \<longleftrightarrow> s \<in> {s. get_tool reg (t_name s) = Some s}"
    by (simp add: get_tool_def)
qed

text \<open>Dispatch depends on the registry only through the tool asked for.\<close>

lemma execute_tool_unknown:
  "n \<notin> tool_names reg \<Longrightarrow> execute_tool v reg n a st = (Inl (Exn KeyError (''unknown tool '' @ n)), st)"
  by (simp add: execute_tool_def flip: get_tool_None)

lemma execute_tool_frame:
  assumes "\<And>s a st. get_tool reg n = Some s \<Longrightarrow> P (snd (t_execute s a st)) = P st"
  shows "P (snd (execute_tool v reg n a st)) = P st"
  using assms by (simp add: execute_tool_def split: option.split sum.split)

section \<open>Properties\<close>

text \<open>Discovery is exact and ranked: for a query with at least one word the tools returned are
  the registered ones that match some word, each once, and of two of them the one listed first has
  the higher score, or the same score and the smaller name.\<close>

theorem search_ranked:
  assumes "registry_wf reg" "split_ws (lower q) \<noteq> []"
  shows "distinct (search reg q) \<and>
    set (search reg q) = {s. get_tool reg (t_name s) = Some s \<and> score (split_ws (lower q)) s \<noteq> 0} \<and>
    sorted_wrt (\<lambda>a b. score (split_ws (lower q)) a > score (split_ws (lower q)) b \<or>
      score (split_ws (lower q)) a = score (split_ws (lower q)) b \<and> t_name a \<le> t_name b) (search reg q)"
proof (intro conjI)
  let ?sc = "score (split_ws (lower q))"
  let ?m = "filter (\<lambda>s. ?sc s \<noteq> 0) (all_tools reg)"
  have s: "search reg q = sort_key (\<lambda>s. - int (?sc s)) (sort_key t_name ?m)"
    using assms(2) by (simp add: search_def Let_def)
  have "distinct (map t_name (all_tools reg))"
    using assms(1) unfolding registry_wf_def all_tools_def
    by (simp add: comp_def case_prod_unfold cong: map_cong)
  then have "distinct (all_tools reg)" by (rule distinct_map [THEN iffD1, THEN conjunct1])
  then show "distinct (search reg q)" by (simp add: s)
  show "set (search reg q) = {s. get_tool reg (t_name s) = Some s \<and> ?sc s \<noteq> 0}"
    using all_tools_get [OF assms(1)] by (auto simp: s)
  show "sorted_wrt (\<lambda>a b. ?sc a > ?sc b \<or> ?sc a = ?sc b \<and> t_name a \<le> t_name b) (search reg q)"
  proof (rule sorted_wrt_iff_nth_less [THEN iffD2], intro allI impI)
    fix i j assume ij: "i < j" "j < length (search reg q)"
    let ?L = "search reg q"
    have so: "sorted (map (\<lambda>s. - int (?sc s)) ?L)" by (simp add: s)
    have le: "?sc (?L ! j) \<le> ?sc (?L ! i)"
      using sorted_nth_mono [OF so, of i j] ij by simp
    show "?sc (?L ! i) > ?sc (?L ! j) \<or> ?sc (?L ! i) = ?sc (?L ! j) \<and> t_name (?L ! i) \<le> t_name (?L ! j)"
    proof (cases "?sc (?L ! i) = ?sc (?L ! j)")
      case True
      let ?P = "\<lambda>s. ?sc s = ?sc (?L ! i)"
      have st: "filter ?P ?L = filter ?P (sort_key t_name ?m)"
        using sort_key_stable [of "\<lambda>s. - int (?sc s)" "- int (?sc (?L ! i))" "sort_key t_name ?m"]
        unfolding s by simp
      have srt: "sorted (map t_name (filter ?P ?L))"
        unfolding st by (rule sorted_filter) simp
      have L: "?L = take j ?L @ ?L ! j # drop (Suc j) ?L" using ij(2) by (rule id_take_nth_drop)
      have mem: "?L ! i \<in> set (filter ?P (take j ?L))" using ij by (auto simp: in_set_conv_nth)
      have "map t_name (filter ?P ?L) = map t_name (filter ?P (take j ?L)) @
          t_name (?L ! j) # map t_name (filter ?P (drop (Suc j) ?L))"
        by (subst L) (simp add: True)
      with srt have "\<forall>x\<in>set (map t_name (filter ?P (take j ?L))). x \<le> t_name (?L ! j)"
        by (simp add: sorted_append)
      with mem have "t_name (?L ! i) \<le> t_name (?L ! j)" by simp
      with True show ?thesis by simp
    next
      case False
      then show ?thesis using le by simp
    qed
  qed
qed

definition demo_tool :: "string \<Rightarrow> string \<Rightarrow> 'st tool_spec" where
  "demo_tool n d = \<lparr>t_name = n, t_description = d, t_schema = [], t_category = READ_DATA,
     t_execute = (\<lambda>_ st. (Inr PNone, st)), t_read_only = True, t_requires_approval = False\<rparr>"

definition demo_registry :: "unit registry" where
  "demo_registry = [(''a'', demo_tool ''a'' ''user x''), (''b'', demo_tool ''b'' ''user y'')]"

theorem search_ranked_witness: "distinct (search demo_registry ''y user'')"
proof -
  have "registry_wf demo_registry" by (simp add: registry_wf_def demo_registry_def demo_tool_def)
  moreover have "split_ws (lower ''y user'') \<noteq> []" by code_simp
  ultimately show ?thesis using search_ranked by blast
qed

end
