(* ===== verification/Workflow_State.thy ===== *)
theory Workflow_State
  imports Py_Strings
begin

text \<open>
  \<open>workflow_engine/state.py\<close>: the workflow state machine and the store that persists it.

  A row of an SQLite table is a record, a table a list of rows in insertion order, the store the
  record of the five tables.  \<open>uuid.uuid4\<close> and the wall clock are supplies carried by the store:
  the next identifier and the next time stamp are read from \<open>ids\<close> and \<open>clock\<close> at a counter.  The
  counters only grow; that the supply of identifiers never repeats is the hypothesis
  \<open>inj (ids st)\<close> of the lemmas that need it.  A JSON column is the value that was dumped into it.
  An INTEGER column is an unbounded integer: SQLite holds 64 bits and its driver raises
  \<open>OverflowError\<close> beyond them, so the model is of plans whose step numbers are below \<open>2 ^ 63\<close>.  The
  messages of the errors carry their text without the quotes that \<open>repr\<close> puts around a value and
  without the list of the alternatives.
\<close>

section \<open>The state machine\<close>

datatype workflow_state = SUBMITTED | PLANNED | FEASIBLE | REJECTED | AWAITING_APPROVAL | READY
  | RUNNING | COMPLETED | FAILED | PAUSED

fun state_value :: "workflow_state \<Rightarrow> string" where
  "state_value SUBMITTED = ''SUBMITTED''"
| "state_value PLANNED = ''PLANNED''"
| "state_value FEASIBLE = ''FEASIBLE''"
| "state_value REJECTED = ''REJECTED''"
| "state_value AWAITING_APPROVAL = ''AWAITING_APPROVAL''"
| "state_value READY = ''READY''"
| "state_value RUNNING = ''RUNNING''"
| "state_value COMPLETED = ''COMPLETED''"
| "state_value FAILED = ''FAILED''"
| "state_value PAUSED = ''PAUSED''"

fun allowed_transitions :: "workflow_state \<Rightarrow> workflow_state list" where
  "allowed_transitions SUBMITTED = [PLANNED]"
| "allowed_transitions PLANNED = [FEASIBLE, REJECTED]"
| "allowed_transitions FEASIBLE = [AWAITING_APPROVAL, READY]"
| "allowed_transitions AWAITING_APPROVAL = [READY, REJECTED]"
| "allowed_transitions READY = [RUNNING]"
| "allowed_transitions RUNNING = [COMPLETED, FAILED, PAUSED]"
| "allowed_transitions PAUSED = [RUNNING, FAILED]"
| "allowed_transitions COMPLETED = [READY]"
| "allowed_transitions FAILED = [READY]"
| "allowed_transitions REJECTED = []"

definition can_transition :: "workflow_state \<Rightarrow> workflow_state \<Rightarrow> bool" where
  "can_transition frm to = (to \<in> set (allowed_transitions frm))"

definition assert_transition :: "workflow_state \<Rightarrow> workflow_state \<Rightarrow> pyexn + unit" where
  "assert_transition frm to =
    (if can_transition frm to then Inr ()
     else Inl (Exn InvalidTransition
       (''illegal transition '' @ state_value frm @ '' -> '' @ state_value to)))"

section \<open>Tables\<close>

text \<open>A value bound to an SQL parameter.\<close>

datatype sqlval = SNull | SText string | SInt int

fun sql_truthy :: "sqlval \<Rightarrow> bool" where
  "sql_truthy SNull = False"
| "sql_truthy (SText s) = (s \<noteq> [])"
| "sql_truthy (SInt i) = (i \<noteq> 0)"

fun sql_opt :: "string option \<Rightarrow> sqlval" where
  "sql_opt None = SNull"
| "sql_opt (Some s) = SText s"

record wf_row =
  w_id :: string
  w_user_id :: "string option"
  w_instruction :: string
  w_trigger :: "string option"
  w_plan_json :: "string option"
  w_state :: workflow_state
  w_created_at :: string
  w_updated_at :: string
  w_trigger_type :: string
  w_schedule_json :: "string option"
  w_destination_json :: "string option"
  w_template_id :: "string option"
  w_schedule_paused :: sqlval
  w_last_run_at :: "string option"
  w_next_run_at :: "string option"
  w_last_report_json :: "string option"

record run_row =
  r_run_id :: string
  r_workflow_id :: string
  r_started_at :: string
  r_finished_at :: "string option"
  r_status :: string
  r_key :: "string option"

record step_row =
  s_run_id :: string
  s_step_number :: int
  s_tool_name :: string
  s_args :: pyval
  s_result :: pyval
  s_status :: string
  s_ts :: string

record outbox_row =
  o_id :: string
  o_connector :: string
  o_payload :: pyval
  o_ts :: string

record template_row =
  t_id :: string
  t_workflow_id :: "string option"
  t_title :: "string option"
  t_sql :: string
  t_created_at :: string

record store =
  workflows :: "wf_row list"
  runs :: "run_row list"
  step_results :: "step_row list"
  outbox_tbl :: "outbox_row list"
  templates :: "template_row list"
  ids :: "nat \<Rightarrow> string"
  next_id :: nat
  clock :: "nat \<Rightarrow> string"
  tick :: nat

definition new_id :: "store \<Rightarrow> string \<times> store" where
  "new_id st = (ids st (next_id st), st\<lparr>next_id := Suc (next_id st)\<rparr>)"

definition now_iso :: "store \<Rightarrow> string \<times> store" where
  "now_iso st = (clock st (tick st), st\<lparr>tick := Suc (tick st)\<rparr>)"

section \<open>Workflows\<close>

text \<open>\<open>UPDATE workflows SET ..., updated_at = now WHERE id = wid\<close>\<close>

definition update_wf :: "string \<Rightarrow> (wf_row \<Rightarrow> wf_row) \<Rightarrow> store \<Rightarrow> store" where
  "update_wf wid f st = (case now_iso st of (now, st) \<Rightarrow>
     st\<lparr>workflows := map (\<lambda>r. if w_id r = wid then (f r)\<lparr>w_updated_at := now\<rparr> else r)
        (workflows st)\<rparr>)"

definition fresh_row :: "string \<Rightarrow> string option \<Rightarrow> string \<Rightarrow> string option \<Rightarrow> string option
    \<Rightarrow> workflow_state \<Rightarrow> string \<Rightarrow> wf_row" where
  "fresh_row wid uid instr trig plan s now =
    \<lparr>w_id = wid, w_user_id = uid, w_instruction = instr, w_trigger = trig, w_plan_json = plan,
     w_state = s, w_created_at = now, w_updated_at = now, w_trigger_type = ''manual'',
     w_schedule_json = None, w_destination_json = None, w_template_id = None,
     w_schedule_paused = SInt 0, w_last_run_at = None, w_next_run_at = None,
     w_last_report_json = None\<rparr>"

definition create_workflow :: "string option \<Rightarrow> string \<Rightarrow> string option \<Rightarrow> string option
    \<Rightarrow> workflow_state \<Rightarrow> store \<Rightarrow> (string, store) out" where
  "create_workflow uid instr trig plan s st =
    (case new_id st of (wid, st) \<Rightarrow> case now_iso st of (now, st) \<Rightarrow>
       if wid \<in> w_id ` set (workflows st)
       then (Inl (Exn IntegrityError ''UNIQUE constraint failed: workflows.id''), st)
       else (Inr wid, st\<lparr>workflows := workflows st @ [fresh_row wid uid instr trig plan s now]\<rparr>))"

definition get_workflow :: "string \<Rightarrow> store \<Rightarrow> wf_row option" where
  "get_workflow wid st = find (\<lambda>r. w_id r = wid) (workflows st)"

definition set_plan :: "string \<Rightarrow> string \<Rightarrow> store \<Rightarrow> store" where
  "set_plan wid p = update_wf wid (\<lambda>r. r\<lparr>w_plan_json := Some p\<rparr>)"

definition set_trigger :: "string \<Rightarrow> string option \<Rightarrow> store \<Rightarrow> store" where
  "set_trigger wid t = update_wf wid (\<lambda>r. r\<lparr>w_trigger := t\<rparr>)"

definition set_allowed :: "string list" where
  "set_allowed = [''trigger_type'', ''schedule_json'', ''destination_json'', ''template_id'',
    ''schedule_paused'', ''last_run_at'', ''next_run_at'', ''last_report_json'']"

text \<open>Column affinities of SQLite: an integer given to a TEXT column is stored as its text, a text
  that reads as an integer given to an INTEGER column as that integer.\<close>

fun col_text :: "sqlval \<Rightarrow> string option" where
  "col_text SNull = None"
| "col_text (SText s) = Some s"
| "col_text (SInt i) = Some (str_int i)"

fun col_int :: "sqlval \<Rightarrow> sqlval" where
  "col_int (SText s) = (case parse_int s of Some i \<Rightarrow> SInt i | None \<Rightarrow> SText s)"
| "col_int v = v"

definition set_col :: "string \<Rightarrow> sqlval \<Rightarrow> wf_row \<Rightarrow> wf_row" where
  "set_col c v r =
    (if c = ''trigger_type'' then (case col_text v of Some t \<Rightarrow> r\<lparr>w_trigger_type := t\<rparr> | None \<Rightarrow> r)
     else if c = ''schedule_json'' then r\<lparr>w_schedule_json := col_text v\<rparr>
     else if c = ''destination_json'' then r\<lparr>w_destination_json := col_text v\<rparr>
     else if c = ''template_id'' then r\<lparr>w_template_id := col_text v\<rparr>
     else if c = ''schedule_paused'' then r\<lparr>w_schedule_paused := col_int v\<rparr>
     else if c = ''last_run_at'' then r\<lparr>w_last_run_at := col_text v\<rparr>
     else if c = ''next_run_at'' then r\<lparr>w_next_run_at := col_text v\<rparr>
     else if c = ''last_report_json'' then r\<lparr>w_last_report_json := col_text v\<rparr>
     else r)"

definition not_null :: "string \<Rightarrow> bool" where
  "not_null c = (c \<in> {''trigger_type'', ''schedule_paused''})"

definition set_field :: "string \<Rightarrow> string \<Rightarrow> sqlval \<Rightarrow> store \<Rightarrow> (unit, store) out" where
  "set_field wid c v st =
    (if c \<notin> set set_allowed
     then (Inl (Exn ValueError (''refusing to set unknown column '' @ c)), st)
     else if not_null c \<and> v = SNull \<and> wid \<in> w_id ` set (workflows st)
     then (Inl (Exn IntegrityError (''NOT NULL constraint failed: workflows.'' @ c)),
           snd (now_iso st))
     else (Inr (), update_wf wid (set_col c v) st))"

definition set_schedule :: "string \<Rightarrow> string \<Rightarrow> string option \<Rightarrow> string option \<Rightarrow> store
    \<Rightarrow> (unit, store) out" where
  "set_schedule wid sj dj tid st =
    seq (set_field wid ''trigger_type'' (SText ''schedule'') st) (\<lambda>_ st.
    seq (set_field wid ''schedule_json'' (SText sj) st) (\<lambda>_ st.
    seq (case dj of None \<Rightarrow> (Inr (), st) | Some d \<Rightarrow> set_field wid ''destination_json'' (SText d) st)
      (\<lambda>_ st.
    case tid of None \<Rightarrow> (Inr (), st) | Some t \<Rightarrow> set_field wid ''template_id'' (SText t) st)))"

definition set_next_run :: "string \<Rightarrow> string option \<Rightarrow> store \<Rightarrow> (unit, store) out" where
  "set_next_run wid t = set_field wid ''next_run_at'' (sql_opt t)"

definition set_last_run :: "string \<Rightarrow> string \<Rightarrow> store \<Rightarrow> (unit, store) out" where
  "set_last_run wid t = set_field wid ''last_run_at'' (SText t)"

definition set_last_report :: "string \<Rightarrow> string option \<Rightarrow> store \<Rightarrow> (unit, store) out" where
  "set_last_report wid rj = set_field wid ''last_report_json'' (sql_opt rj)"

definition set_paused :: "string \<Rightarrow> bool \<Rightarrow> store \<Rightarrow> (unit, store) out" where
  "set_paused wid p = set_field wid ''schedule_paused'' (SInt (if p then 1 else 0))"

definition scheduled_workflows :: "bool \<Rightarrow> store \<Rightarrow> wf_row list" where
  "scheduled_workflows include_paused st =
    (let wfs = filter (\<lambda>r. w_trigger_type r = ''schedule'' \<and> w_state r \<noteq> REJECTED) (workflows st)
     in if include_paused then wfs else filter (\<lambda>r. \<not> sql_truthy (w_schedule_paused r)) wfs)"

definition save_template :: "string \<Rightarrow> string option \<Rightarrow> string option \<Rightarrow> store
    \<Rightarrow> (string, store) out" where
  "save_template q title wid st =
    (case new_id st of (tid, st) \<Rightarrow> case now_iso st of (now, st) \<Rightarrow>
       if tid \<in> t_id ` set (templates st)
       then (Inl (Exn IntegrityError ''UNIQUE constraint failed: query_templates.id''), st)
       else (Inr tid, st\<lparr>templates := templates st @
         [\<lparr>t_id = tid, t_workflow_id = wid, t_title = title, t_sql = q, t_created_at = now\<rparr>]\<rparr>))"

definition get_template :: "string \<Rightarrow> store \<Rightarrow> template_row option" where
  "get_template tid st = find (\<lambda>r. t_id r = tid) (templates st)"

definition transition :: "string \<Rightarrow> workflow_state \<Rightarrow> store \<Rightarrow> (unit, store) out" where
  "transition wid to st =
    (case get_workflow wid st of
       None \<Rightarrow> (Inl (Exn KeyError (''no workflow '' @ wid)), st)
     | Some r \<Rightarrow>
        (case assert_transition (w_state r) to of
           Inl e \<Rightarrow> (Inl e, st)
         | Inr _ \<Rightarrow> (Inr (), update_wf wid (\<lambda>r. r\<lparr>w_state := to\<rparr>) st)))"

definition sort_desc :: "('a \<Rightarrow> string) \<Rightarrow> 'a list \<Rightarrow> 'a list" where
  "sort_desc key xs = rev (sort_key key (rev xs))"

text \<open>A negative LIMIT is no limit.\<close>

definition sql_limit :: "int \<Rightarrow> 'a list \<Rightarrow> 'a list" where
  "sql_limit n xs = (if n < 0 then xs else take (nat n) xs)"

definition list_workflows :: "int \<Rightarrow> store \<Rightarrow> wf_row list" where
  "list_workflows limit st = sql_limit limit (sort_desc w_created_at (workflows st))"

definition workflows_for_trigger :: "string \<Rightarrow> store \<Rightarrow> wf_row list" where
  "workflows_for_trigger t st =
    filter (\<lambda>r. w_trigger r = Some t \<and> w_state r \<in> {READY, COMPLETED}) (workflows st)"

section \<open>Runs and steps\<close>

definition run_exists_for_key :: "string \<Rightarrow> string \<Rightarrow> store \<Rightarrow> bool" where
  "run_exists_for_key wid k st =
    list_ex (\<lambda>r. r_workflow_id r = wid \<and> r_key r = Some k) (runs st)"

text \<open>The unique index on (workflow_id, scheduled_run_key): NULL keys are distinct.\<close>

definition key_taken :: "string \<Rightarrow> string option \<Rightarrow> store \<Rightarrow> bool" where
  "key_taken wid k st = (case k of None \<Rightarrow> False | Some k \<Rightarrow> run_exists_for_key wid k st)"

definition start_run :: "string \<Rightarrow> string option \<Rightarrow> store \<Rightarrow> (string, store) out" where
  "start_run wid k st =
    (case new_id st of (rid, st) \<Rightarrow> case now_iso st of (now, st) \<Rightarrow>
       if rid \<in> r_run_id ` set (runs st)
       then (Inl (Exn IntegrityError ''UNIQUE constraint failed: workflow_runs.run_id''), st)
       else if key_taken wid k st
       then (Inl (Exn IntegrityError ''UNIQUE constraint failed: ux_runs_sched_key''), st)
       else (Inr rid, st\<lparr>runs := runs st @
         [\<lparr>r_run_id = rid, r_workflow_id = wid, r_started_at = now, r_finished_at = None,
           r_status = state_value RUNNING, r_key = k\<rparr>]\<rparr>))"

definition update_run :: "string \<Rightarrow> (run_row \<Rightarrow> run_row) \<Rightarrow> store \<Rightarrow> store" where
  "update_run rid f st = st\<lparr>runs := map (\<lambda>r. if r_run_id r = rid then f r else r) (runs st)\<rparr>"

text \<open>INSERT OR REPLACE and the touch of the run, one transaction.\<close>

definition checkpoint_step :: "string \<Rightarrow> int \<Rightarrow> string \<Rightarrow> pydict \<Rightarrow> pyval \<Rightarrow> string
    \<Rightarrow> store \<Rightarrow> store" where
  "checkpoint_step rid n tool args res status st =
    (case now_iso st of (now, st) \<Rightarrow>
       update_run rid (\<lambda>r. r\<lparr>r_status := state_value RUNNING\<rparr>)
         (st\<lparr>step_results :=
           filter (\<lambda>s. \<not> (s_run_id s = rid \<and> s_step_number s = n)) (step_results st) @
           [\<lparr>s_run_id = rid, s_step_number = n, s_tool_name = tool, s_args = PDict args,
             s_result = res, s_status = status, s_ts = now\<rparr>]\<rparr>))"

definition finish_run :: "string \<Rightarrow> string \<Rightarrow> store \<Rightarrow> store" where
  "finish_run rid status st = (case now_iso st of (now, st) \<Rightarrow>
     update_run rid (\<lambda>r. r\<lparr>r_status := status, r_finished_at := Some now\<rparr>) st)"

definition last_completed_step :: "string \<Rightarrow> store \<Rightarrow> int option" where
  "last_completed_step rid st =
    (case map s_step_number
        (filter (\<lambda>s. s_run_id s = rid \<and> s_status s = ''ok'') (step_results st)) of
       [] \<Rightarrow> None
     | n # ns \<Rightarrow> Some (foldl max n ns))"

definition steps_for_run :: "string \<Rightarrow> store \<Rightarrow> step_row list" where
  "steps_for_run rid st =
    sort_key s_step_number (filter (\<lambda>s. s_run_id s = rid) (step_results st))"

definition get_run :: "string \<Rightarrow> store \<Rightarrow> run_row option" where
  "get_run rid st = find (\<lambda>r. r_run_id r = rid) (runs st)"

definition latest_run :: "string \<Rightarrow> store \<Rightarrow> run_row option" where
  "latest_run wid st =
    (case sort_desc r_started_at (filter (\<lambda>r. r_workflow_id r = wid) (runs st)) of
       [] \<Rightarrow> None
     | r # _ \<Rightarrow> Some r)"

section \<open>Outbox\<close>

definition write_outbox :: "string \<Rightarrow> pydict \<Rightarrow> store \<Rightarrow> (string, store) out" where
  "write_outbox connector payload st =
    (case new_id st of (i, st) \<Rightarrow> case now_iso st of (now, st) \<Rightarrow>
       if i \<in> o_id ` set (outbox_tbl st)
       then (Inl (Exn IntegrityError ''UNIQUE constraint failed: outbox.id''), st)
       else (Inr i, st\<lparr>outbox_tbl := outbox_tbl st @
         [\<lparr>o_id = i, o_connector = connector, o_payload = PDict payload, o_ts = now\<rparr>]\<rparr>))"

definition outbox :: "int \<Rightarrow> store \<Rightarrow> outbox_row list" where
  "outbox limit st = sql_limit limit (sort_desc o_ts (outbox_tbl st))"

section \<open>Additive schema migration\<close>

text \<open>A database schema: the columns of each table.  The list of columns added since the first
  release, and the migration that adds the missing ones; the unique index is created after them.\<close>

type_synonym db_schema = "string \<Rightarrow> string list"

definition migrations :: "(string \<times> (string \<times> string) list) list" where
  "migrations =
    [(''workflows'',
       [(''trigger_type'', ''TEXT NOT NULL DEFAULT 'manual' ''),
        (''schedule_json'', ''TEXT''),
        (''destination_json'', ''TEXT''),
        (''template_id'', ''TEXT''),
        (''schedule_paused'', ''INTEGER NOT NULL DEFAULT 0''),
        (''last_run_at'', ''TEXT''),
        (''next_run_at'', ''TEXT''),
        (''last_report_json'', ''TEXT'')]),
     (''workflow_runs'',
       [(''scheduled_run_key'', ''TEXT'')])]"

fun add_columns :: "string list \<Rightarrow> (string \<times> string) list \<Rightarrow> string list \<Rightarrow> string list" where
  "add_columns existing [] cols = cols"
| "add_columns existing ((name, decl) # cs) cols =
    add_columns existing cs (if name \<in> set existing then cols else cols @ [name])"

fun migrate_tables :: "(string \<times> (string \<times> string) list) list \<Rightarrow> db_schema \<Rightarrow> db_schema" where
  "migrate_tables [] sc = sc"
| "migrate_tables ((t, cs) # ts) sc =
    migrate_tables ts (sc(t := add_columns (sc t) cs (sc t)))"

definition migrate :: "db_schema \<Rightarrow> db_schema" where
  "migrate sc = migrate_tables migrations sc"

lemma add_columns_conv:
  "add_columns ex cs cols = cols @ filter (\<lambda>n. n \<notin> set ex) (map fst cs)"
  by (induction ex cs cols rule: add_columns.induct) auto

lemma migrate_conv:
  "migrate sc = sc(''workflows'' := sc ''workflows'' @
       filter (\<lambda>n. n \<notin> set (sc ''workflows'')) (map fst (snd (migrations ! 0))),
     ''workflow_runs'' := sc ''workflow_runs'' @
       filter (\<lambda>n. n \<notin> set (sc ''workflow_runs'')) [''scheduled_run_key''])"
  by (simp add: migrate_def migrations_def add_columns_conv)

lemma migrate_complete:
  assumes "set (map fst (snd (migrations ! 0))) \<subseteq> set (sc ''workflows'')"
    "''scheduled_run_key'' \<in> set (sc ''workflow_runs'')"
  shows "migrate sc = sc"
  using assms by (auto simp: migrate_conv migrations_def intro!: ext)

section \<open>What each operation leaves in which table\<close>

lemma find_map_upd:
  assumes "\<And>r. P (f r) = P r"
  shows "find P (map f xs) = map_option f (find P xs)"
  by (induction xs) (auto simp: assms)

lemma get_workflow_Some:
  "get_workflow wid st = Some r \<Longrightarrow> w_id r = wid \<and> r \<in> set (workflows st)"
  by (auto simp: get_workflow_def find_Some_iff)

lemma get_workflow_None:
  "get_workflow wid st = None \<longleftrightarrow> wid \<notin> w_id ` set (workflows st)"
  by (auto simp: get_workflow_def find_None_iff)

lemma update_wf_get:
  assumes "\<And>r. w_id (f r) = w_id r"
  shows "get_workflow wid (update_wf w f st) =
    map_option (\<lambda>r. if wid = w then (f r)\<lparr>w_updated_at := clock st (tick st)\<rparr> else r)
      (get_workflow wid st)"
proof -
  have "get_workflow wid (update_wf w f st) =
    map_option (\<lambda>r. if w_id r = w then (f r)\<lparr>w_updated_at := clock st (tick st)\<rparr> else r)
      (get_workflow wid st)"
    unfolding get_workflow_def update_wf_def now_iso_def
    by (simp add: find_map_upd assms)
  then show ?thesis
    by (cases "get_workflow wid st") (simp_all, metis get_workflow_Some)
qed

lemma update_wf_tables [store_simps]:
  "runs (update_wf w f st) = runs st" "step_results (update_wf w f st) = step_results st"
  "outbox_tbl (update_wf w f st) = outbox_tbl st" "templates (update_wf w f st) = templates st"
  "ids (update_wf w f st) = ids st" "next_id (update_wf w f st) = next_id st"
  "clock (update_wf w f st) = clock st"
  by (simp_all add: update_wf_def now_iso_def)

lemma update_wf_ids:
  assumes "\<And>r. w_id (f r) = w_id r"
  shows "map w_id (workflows (update_wf w f st)) = map w_id (workflows st)"
  by (simp add: update_wf_def now_iso_def comp_def assms)

lemma set_col_id [simp]: "w_id (set_col c v r) = w_id r" "w_state (set_col c v r) = w_state r"
  "w_plan_json (set_col c v r) = w_plan_json r" "w_trigger (set_col c v r) = w_trigger r"
  by (simp_all add: set_col_def split: option.splits)

text \<open>The state of a workflow, and what changes it.\<close>

definition state_of :: "store \<Rightarrow> string \<Rightarrow> workflow_state option" where
  "state_of st wid = map_option w_state (get_workflow wid st)"

lemma state_of_update:
  assumes "\<And>r. w_id (f r) = w_id r" "\<And>r. w_state (f r) = w_state r"
  shows "state_of (update_wf w f st) = state_of st"
proof (rule ext)
  fix wid
  show "state_of (update_wf w f st) wid = state_of st wid"
    by (cases "get_workflow wid st") (simp_all add: state_of_def update_wf_get assms)
qed

lemma set_field_state [store_simps]: "state_of (snd (set_field wid c v st)) = state_of st"
proof -
  have "state_of (snd (now_iso st)) = state_of st"
    by (rule ext) (simp add: state_of_def get_workflow_def now_iso_def)
  then show ?thesis by (simp add: set_field_def state_of_update)
qed

lemma set_plan_state [store_simps]: "state_of (set_plan wid p st) = state_of st"
  by (simp add: set_plan_def state_of_update)

lemma set_trigger_state [store_simps]: "state_of (set_trigger wid t st) = state_of st"
  by (simp add: set_trigger_def state_of_update)

lemma state_of_frame: "workflows st' = workflows st \<Longrightarrow> state_of st' = state_of st"
  by (rule ext) (simp add: state_of_def get_workflow_def)

lemma workflows_frame [store_simps]:
  "workflows (snd (save_template q ti w st)) = workflows st"
  "workflows (snd (start_run w' k st)) = workflows st"
  "workflows (checkpoint_step r n t a res s st) = workflows st"
  "workflows (finish_run r s st) = workflows st"
  "workflows (snd (write_outbox c p st)) = workflows st"
  by (simp_all add: save_template_def start_run_def checkpoint_step_def finish_run_def
      write_outbox_def new_id_def now_iso_def update_run_def)

lemma transition_state:
  "state_of (snd (transition wid to st)) =
     (if fst (transition wid to st) = Inr () then (state_of st)(wid \<mapsto> to) else state_of st)"
proof (cases "get_workflow wid st")
  case None
  then show ?thesis by (simp add: transition_def)
next
  case (Some r)
  have "state_of (update_wf wid (\<lambda>r. r\<lparr>w_state := to\<rparr>) st) = (state_of st)(wid \<mapsto> to)"
    by (rule ext) (use Some in \<open>auto simp: state_of_def update_wf_get option.map_comp comp_def\<close>)
  then show ?thesis using Some by (simp add: transition_def assert_transition_def)
qed

lemma transition_ok_conv:
  "fst (transition wid to st) = Inr () \<longleftrightarrow>
     (\<exists>s. state_of st wid = Some s \<and> can_transition s to)"
  by (cases "get_workflow wid st")
    (simp_all add: transition_def state_of_def assert_transition_def)

lemma transition_tables [store_simps]:
  "runs (snd (transition wid to st)) = runs st"
  "step_results (snd (transition wid to st)) = step_results st"
  "outbox_tbl (snd (transition wid to st)) = outbox_tbl st"
  "templates (snd (transition wid to st)) = templates st"
  "ids (snd (transition wid to st)) = ids st" "next_id (snd (transition wid to st)) = next_id st"
  by (simp_all add: transition_def update_wf_tables split: option.split sum.split)

section \<open>Guarded state machines\<close>

text \<open>The contract of an object whose state only moves along the edges of a graph: a move along an
  edge is taken, any other is refused and changes no state, other objects are not touched.\<close>

fun run_moves :: "('k \<Rightarrow> 's \<Rightarrow> 'st \<Rightarrow> (unit, 'st) out) \<Rightarrow> ('k \<times> 's) list \<Rightarrow> 'st \<Rightarrow> 'st" where
  "run_moves move [] st = st"
| "run_moves move ((k, s) # ms) st = run_moves move ms (snd (move k s st))"

locale guarded_machine =
  fixes edge :: "'s \<Rightarrow> 's \<Rightarrow> bool"
    and state_at :: "'st \<Rightarrow> 'k \<Rightarrow> 's option"
    and move :: "'k \<Rightarrow> 's \<Rightarrow> 'st \<Rightarrow> (unit, 'st) out"
  assumes move_ok: "fst (move k t st) = Inr () \<longleftrightarrow> (\<exists>s. state_at st k = Some s \<and> edge s t)"
    and moved: "state_at (snd (move k t st)) =
      (if fst (move k t st) = Inr () then (state_at st)(k \<mapsto> t) else state_at st)"
begin

lemma reach_path:
  "state_at st k = Some s \<Longrightarrow> \<exists>t. state_at (run_moves move ms st) k = Some t \<and> edge\<^sup>*\<^sup>* s t"
proof (induction ms arbitrary: st s)
  case Nil
  then show ?case by auto
next
  case (Cons m ms)
  obtain k' t where m: "m = (k', t)" by (cases m)
  show ?case
  proof (cases "k' = k \<and> fst (move k t st) = Inr ()")
    case True
    then have e: "edge s t" and a: "state_at (snd (move k' t st)) k = Some t"
      using Cons.prems by (auto simp: move_ok moved)
    show ?thesis using Cons.IH [OF a] e m by (auto intro: converse_rtranclp_into_rtranclp)
  next
    case False
    then have "state_at (snd (move k' t st)) k = Some s"
      using Cons.prems by (auto simp: moved)
    from Cons.IH [OF this] m show ?thesis by simp
  qed
qed

lemma closed_region:
  assumes "\<And>a b. a \<in> A \<Longrightarrow> edge a b \<Longrightarrow> b \<in> A" "state_at st k = Some s" "s \<in> A"
  shows "\<exists>t\<in>A. state_at (run_moves move ms st) k = Some t"
proof -
  obtain t where t: "state_at (run_moves move ms st) k = Some t" "edge\<^sup>*\<^sup>* s t"
    using reach_path [OF assms(2)] by blast
  from t(2) have "t \<in> A" by (induction rule: rtranclp_induct) (use assms in auto)
  with t(1) show ?thesis by blast
qed

text \<open>A region left only through \<open>g\<close>: whoever got out made the move to \<open>g\<close>.\<close>

lemma gate:
  assumes A: "\<And>a b. a \<in> A \<Longrightarrow> edge a b \<Longrightarrow> b \<in> A \<or> b = g"
  shows "state_at st k = Some s \<Longrightarrow> s \<in> A \<Longrightarrow> state_at (run_moves move ms st) k = Some t \<Longrightarrow>
    t \<notin> A \<Longrightarrow> (k, g) \<in> set ms"
proof (induction ms arbitrary: st s)
  case Nil
  then show ?case by auto
next
  case (Cons m ms)
  obtain k' u where m: "m = (k', u)" by (cases m)
  show ?case
  proof (cases "k' = k \<and> fst (move k u st) = Inr ()")
    case True
    then have e: "edge s u" and a: "state_at (snd (move k' u st)) k = Some u"
      using Cons.prems by (auto simp: move_ok moved)
    show ?thesis
    proof (cases "u = g")
      case False
      then have "u \<in> A" using A [OF Cons.prems(2) e] by simp
      then show ?thesis using Cons.IH [OF a] Cons.prems m by auto
    qed (use True m in auto)
  next
    case False
    then have "state_at (snd (move k' u st)) k = Some s"
      using Cons.prems by (auto simp: moved)
    from Cons.IH [OF this] Cons.prems m show ?thesis by auto
  qed
qed

end

interpretation wfm: guarded_machine can_transition state_of transition
  by unfold_locales (rule transition_ok_conv, rule transition_state)

section \<open>The integrity invariant of the store\<close>

definition used_ids :: "store \<Rightarrow> string set" where
  "used_ids st = w_id ` set (workflows st) \<union> r_run_id ` set (runs st) \<union> o_id ` set (outbox_tbl st)
    \<union> t_id ` set (templates st)"

definition step_key :: "step_row \<Rightarrow> string \<times> int" where
  "step_key r = (s_run_id r, s_step_number r)"

definition stamp :: "run_row \<Rightarrow> string \<times> string option" where
  "stamp r = (r_workflow_id r, r_key r)"

text \<open>The stamps of scheduled runs: the rows the unique index ranges over.\<close>

definition stamps :: "run_row list \<Rightarrow> (string \<times> string option) list" where
  "stamps rs = filter (\<lambda>k. snd k \<noteq> None) (map stamp rs)"

definition store_inv :: "store \<Rightarrow> bool" where
  "store_inv st = (distinct (map w_id (workflows st)) \<and> distinct (map r_run_id (runs st)) \<and>
     distinct (map step_key (step_results st)) \<and> distinct (map o_id (outbox_tbl st)) \<and>
     distinct (map t_id (templates st)) \<and> distinct (stamps (runs st)) \<and>
     used_ids st \<subseteq> ids st ` {..<next_id st})"

lemma fresh_id: "store_inv st \<Longrightarrow> inj (ids st) \<Longrightarrow> ids st (next_id st) \<notin> used_ids st"
  by (auto simp: store_inv_def dest: injD)

lemma image_lessThan_mono: "A \<subseteq> f ` {..<n} \<Longrightarrow> A \<subseteq> f ` {..<Suc n}"
  by auto

lemma store_inv_update_wf:
  assumes "\<And>r. w_id (f r) = w_id r" "store_inv st"
  shows "store_inv (update_wf w f st)"
proof -
  have "set (map w_id (workflows (update_wf w f st))) = set (map w_id (workflows st))"
    using update_wf_ids [OF assms(1)] by simp
  then have "used_ids (update_wf w f st) = used_ids st"
    by (simp add: used_ids_def update_wf_tables)
  then show ?thesis using assms(2)
    by (simp add: store_inv_def update_wf_tables update_wf_ids [OF assms(1)])
qed

lemma store_inv_transition [inv_intros]:
  "store_inv st \<Longrightarrow> store_inv (snd (transition wid to st))"
  by (auto simp: transition_def intro!: store_inv_update_wf split: option.split sum.split)

lemma store_inv_set_plan [inv_intros]: "store_inv st \<Longrightarrow> store_inv (set_plan wid p st)"
  unfolding set_plan_def by (rule store_inv_update_wf) simp_all

lemma store_inv_set_trigger [inv_intros]: "store_inv st \<Longrightarrow> store_inv (set_trigger wid t st)"
  unfolding set_trigger_def by (rule store_inv_update_wf) simp_all

lemma store_inv_tick: "store_inv st \<Longrightarrow> store_inv (st\<lparr>tick := n\<rparr>)"
  by (simp add: store_inv_def used_ids_def)

lemma store_inv_set_field [inv_intros]:
  "store_inv st \<Longrightarrow> store_inv (snd (set_field wid c v st))"
  by (simp add: set_field_def now_iso_def store_inv_tick store_inv_update_wf)

lemma store_inv_set_schedule [inv_intros]:
  "store_inv st \<Longrightarrow> store_inv (snd (set_schedule wid sj dj tid st))"
  unfolding set_schedule_def
  by (intro seq_inv [where I = store_inv]) (auto intro: inv_intros split: option.split)

lemma store_inv_create_workflow [inv_intros]:
  "store_inv st \<Longrightarrow> store_inv (snd (create_workflow u i t p s st))"
  by (auto simp: create_workflow_def new_id_def now_iso_def store_inv_def used_ids_def fresh_row_def
      dest: image_lessThan_mono)

lemma store_inv_save_template [inv_intros]:
  "store_inv st \<Longrightarrow> store_inv (snd (save_template q t w st))"
  by (auto simp: save_template_def new_id_def now_iso_def store_inv_def used_ids_def
      dest: image_lessThan_mono)

lemma store_inv_write_outbox [inv_intros]:
  "store_inv st \<Longrightarrow> store_inv (snd (write_outbox c p st))"
  by (auto simp: write_outbox_def new_id_def now_iso_def store_inv_def used_ids_def
      dest: image_lessThan_mono)

lemma key_taken_conv: "key_taken wid k st \<longleftrightarrow> (wid, k) \<in> set (stamps (runs st))"
  by (cases k) (auto simp: key_taken_def run_exists_for_key_def list_ex_iff stamps_def stamp_def
      image_iff)

lemma stamps_append: "stamps (rs @ [r]) = stamps rs @ (if r_key r = None then [] else [stamp r])"
  by (simp add: stamps_def stamp_def)

lemma store_inv_start_run [inv_intros]:
  assumes "store_inv st"
  shows "store_inv (snd (start_run wid k st))"
proof -
  have kt: "key_taken wid k (st\<lparr>next_id := a, tick := b\<rparr>) = key_taken wid k st" for a b
    by (simp add: key_taken_conv)
  show ?thesis using assms
    by (auto simp: start_run_def new_id_def now_iso_def store_inv_def used_ids_def stamps_append
        kt key_taken_conv stamp_def dest: image_lessThan_mono)
qed

lemma update_run_inv:
  assumes "\<And>r. r_run_id (f r) = r_run_id r" "\<And>r. stamp (f r) = stamp r" "store_inv st"
  shows "store_inv (update_run rid f st)"
proof -
  have m: "map r_run_id (runs (update_run rid f st)) = map r_run_id (runs st)"
    "map stamp (runs (update_run rid f st)) = map stamp (runs st)"
    by (simp_all add: update_run_def comp_def assms)
  have t: "workflows (update_run rid f st) = workflows st"
    "outbox_tbl (update_run rid f st) = outbox_tbl st" "templates (update_run rid f st) = templates st"
    "step_results (update_run rid f st) = step_results st" "ids (update_run rid f st) = ids st"
    "next_id (update_run rid f st) = next_id st"
    by (simp_all add: update_run_def)
  from m(1) have "r_run_id ` set (runs (update_run rid f st)) = r_run_id ` set (runs st)"
    by (metis list.set_map)
  then have "used_ids (update_run rid f st) = used_ids st"
    by (simp add: used_ids_def t)
  then show ?thesis using assms(3) m by (simp add: store_inv_def stamps_def t)
qed

lemma store_inv_finish_run [inv_intros]: "store_inv st \<Longrightarrow> store_inv (finish_run rid s st)"
  by (simp add: finish_run_def now_iso_def update_run_inv stamp_def store_inv_tick)

lemma store_inv_checkpoint [inv_intros]:
  "store_inv st \<Longrightarrow> store_inv (checkpoint_step rid n tool a res s st)"
  unfolding checkpoint_step_def now_iso_def prod.case
  by (rule update_run_inv)
    (auto simp: stamp_def store_inv_def used_ids_def step_key_def distinct_map_filter)

section \<open>Reachable stores\<close>

definition empty_store :: "(nat \<Rightarrow> string) \<Rightarrow> (nat \<Rightarrow> string) \<Rightarrow> store" where
  "empty_store i c = \<lparr>workflows = [], runs = [], step_results = [], outbox_tbl = [], templates = [],
     ids = i, next_id = 0, clock = c, tick = 0\<rparr>"

text \<open>One call of a public operation that writes, and the stores it leads to.\<close>

inductive store_step :: "store \<Rightarrow> store \<Rightarrow> bool" where
  ss_create: "store_step st (snd (create_workflow u i t p s st))"
| ss_plan: "store_step st (set_plan wid pj st)"
| ss_trigger: "store_step st (set_trigger wid tr st)"
| ss_field: "store_step st (snd (set_field wid c v st))"
| ss_schedule: "store_step st (snd (set_schedule wid sj dj tid st))"
| ss_template: "store_step st (snd (save_template q ti wo st))"
| ss_transition: "store_step st (snd (transition wid to st))"
| ss_run: "store_step st (snd (start_run wid k st))"
| ss_checkpoint: "store_step st (checkpoint_step rid n tool a res status st)"
| ss_finish: "store_step st (finish_run rid status st)"
| ss_outbox: "store_step st (snd (write_outbox c payload st))"

inductive_cases store_stepE: "store_step st st'"

definition reachable :: "(nat \<Rightarrow> string) \<Rightarrow> (nat \<Rightarrow> string) \<Rightarrow> store \<Rightarrow> bool" where
  "reachable i c st = store_step\<^sup>*\<^sup>* (empty_store i c) st"

lemma store_inv_empty: "store_inv (empty_store i c)"
  by (simp add: store_inv_def empty_store_def used_ids_def stamps_def)

lemma store_inv_step: "store_step st st' \<Longrightarrow> store_inv st \<Longrightarrow> store_inv st'"
  by (induction rule: store_step.induct) (rule inv_intros, assumption)+

lemma store_inv_steps: "store_step\<^sup>*\<^sup>* st st' \<Longrightarrow> store_inv st \<Longrightarrow> store_inv st'"
  by (induction rule: rtranclp_induct) (auto intro: store_inv_step)

lemma reachable_inv: "reachable i c st \<Longrightarrow> store_inv st"
  unfolding reachable_def using store_inv_steps store_inv_empty by blast

lemma distinct_map_eqI: "distinct (map f xs) \<Longrightarrow> x \<in> set xs \<Longrightarrow> y \<in> set xs \<Longrightarrow> f x = f y \<Longrightarrow> x = y"
  by (auto simp: distinct_map dest: inj_onD)

lemma one_run_per_stamp:
  assumes "store_inv st" "r \<in> set (runs st)" "r' \<in> set (runs st)"
    "stamp r = stamp r'" "r_key r \<noteq> None"
  shows "r = r'"
proof -
  have "stamps (runs st) = map stamp (filter (\<lambda>r. r_key r \<noteq> None) (runs st))"
    by (simp add: stamps_def filter_map comp_def stamp_def)
  then have "distinct (map stamp (filter (\<lambda>r. r_key r \<noteq> None) (runs st)))"
    using assms(1) by (simp add: store_inv_def)
  then show ?thesis
    by (rule distinct_map_eqI) (use assms in \<open>auto simp: stamp_def\<close>)
qed

lemma foldl_max: "foldl max (n :: int) ns = Max (set (n # ns))"
proof -
  have "foldl max n ns = fold max ns n"
    by (induction ns arbitrary: n) (auto simp: max.commute)
  then show ?thesis by (simp only: Max.set_eq_fold)
qed

section \<open>Properties\<close>

text \<open>A transition is taken exactly along an edge of the table: the state of that workflow
  becomes the target and nothing else in the store changes but the time stamp; an unknown workflow
  is a KeyError, an edge that is not in the table an InvalidTransition, and both leave the whole
  store as it was.\<close>

theorem transition_guarded:
  "case state_of st wid of
     None \<Rightarrow> transition wid to st = (Inl (Exn KeyError (''no workflow '' @ wid)), st)
   | Some s \<Rightarrow>
      if can_transition s to
      then fst (transition wid to st) = Inr () \<and>
        state_of (snd (transition wid to st)) = (state_of st)(wid \<mapsto> to) \<and>
        runs (snd (transition wid to st)) = runs st \<and>
        step_results (snd (transition wid to st)) = step_results st \<and>
        outbox_tbl (snd (transition wid to st)) = outbox_tbl st \<and>
        templates (snd (transition wid to st)) = templates st
      else transition wid to st = (Inl (Exn InvalidTransition
        (''illegal transition '' @ state_value s @ '' -> '' @ state_value to)), st)"
proof (cases "get_workflow wid st")
  case None
  then show ?thesis by (simp add: state_of_def transition_def)
next
  case (Some r)
  have ok: "can_transition (w_state r) to \<Longrightarrow> fst (transition wid to st) = Inr ()"
    using Some by (simp add: transition_def assert_transition_def)
  show ?thesis
  proof (cases "can_transition (w_state r) to")
    case True
    then show ?thesis using Some ok
      by (simp add: state_of_def [of st wid] transition_state transition_tables)
  next
    case False
    then show ?thesis using Some by (simp add: state_of_def transition_def assert_transition_def)
  qed
qed

text \<open>C1: The approval gate is a state edge.  From AWAITING_APPROVAL, whatever transitions are
  requested, in whatever order and for whatever workflows, a workflow that has got anywhere but
  REJECTED did so through an explicit transition of that workflow to READY.\<close>

theorem approval_gate:
  assumes "state_of st wid = Some AWAITING_APPROVAL"
    and "state_of (run_moves transition ms st) wid = Some s"
    and "s \<notin> {AWAITING_APPROVAL, REJECTED}"
  shows "(wid, READY) \<in> set ms"
  by (rule wfm.gate [where A = "{AWAITING_APPROVAL, REJECTED}", OF _ assms(1) _ assms(2)])
    (use assms in \<open>auto simp: can_transition_def\<close>)

definition gate_store :: store where
  "gate_store = snd (create_workflow None ''i'' None None AWAITING_APPROVAL
     (empty_store (\<lambda>n. replicate n (CHR ''x'')) (\<lambda>n. [])))"

theorem approval_gate_witness:
  "([], READY) \<in> set [([], READY), ([] :: string, RUNNING)]"
  by (rule approval_gate [where st = gate_store and s = RUNNING])
    (simp_all add: gate_store_def create_workflow_def empty_store_def new_id_def now_iso_def
      state_of_def get_workflow_def fresh_row_def transition_def assert_transition_def
      can_transition_def update_wf_def)

text \<open>A rejected workflow stays rejected under every sequence of transitions.\<close>

theorem rejected_absorbing:
  assumes "state_of st wid = Some REJECTED"
  shows "state_of (run_moves transition ms st) wid = Some REJECTED"
  using wfm.closed_region [where A = "{REJECTED}", OF _ assms] by (auto simp: can_transition_def)

theorem rejected_absorbing_witness:
  "state_of (run_moves transition [([], READY), ([], RUNNING)]
     (snd (create_workflow None ''i'' None None REJECTED
       (empty_store (\<lambda>n. []) (\<lambda>n. []))))) [] = Some REJECTED"
  by (rule rejected_absorbing)
    (simp add: create_workflow_def empty_store_def new_id_def now_iso_def state_of_def
      get_workflow_def fresh_row_def)

text \<open>In every store the operations can lead to from an empty database, a workflow has at most
  one run per scheduled key.\<close>

theorem one_run_per_key:
  assumes "reachable i c st" "r \<in> set (runs st)" "r' \<in> set (runs st)"
    and "r_workflow_id r = r_workflow_id r'" "r_key r = Some k" "r_key r' = Some k"
  shows "r = r'"
  using one_run_per_stamp [OF reachable_inv [OF assms(1)] assms(2,3)] assms
  by (simp add: stamp_def)

definition one_run_store :: store where
  "one_run_store = snd (start_run ''w'' (Some ''k'') (empty_store (\<lambda>n. []) (\<lambda>n. [])))"

theorem one_run_per_key_witness:
  "hd (runs one_run_store) = last (runs one_run_store) \<and> runs one_run_store \<noteq> []"
proof -
  have r: "reachable (\<lambda>n. []) (\<lambda>n. []) one_run_store"
    unfolding reachable_def one_run_store_def by (rule r_into_rtranclp) (rule ss_run)
  have ne: "runs one_run_store \<noteq> []" "r_key (hd (runs one_run_store)) = Some ''k''"
    "r_key (last (runs one_run_store)) = Some ''k''"
    "r_workflow_id (hd (runs one_run_store)) = r_workflow_id (last (runs one_run_store))"
    by (simp_all add: one_run_store_def start_run_def new_id_def now_iso_def empty_store_def
        key_taken_def run_exists_for_key_def)
  show ?thesis
    using one_run_per_key [OF r hd_in_set [OF ne(1)] last_in_set [OF ne(1)] ne(4,2,3)] ne(1) by simp
qed

text \<open>A run that asks for a key already taken is refused with an IntegrityError and inserts no
  row; any other run is opened as RUNNING at the end of the table, and the key is taken from then
  on.\<close>

theorem start_run_key:
  assumes "store_inv st" "inj (ids st)"
  shows "if key_taken wid k st
    then (\<exists>t. fst (start_run wid k st) = Inl (Exn IntegrityError t)) \<and>
      runs (snd (start_run wid k st)) = runs st
    else (\<exists>rid now. fst (start_run wid k st) = Inr rid \<and> rid \<notin> used_ids st \<and>
      runs (snd (start_run wid k st)) = runs st @
        [\<lparr>r_run_id = rid, r_workflow_id = wid, r_started_at = now, r_finished_at = None,
          r_status = ''RUNNING'', r_key = k\<rparr>]) \<and>
      key_taken wid k (snd (start_run wid k st)) = (k \<noteq> None)"
proof -
  have kt: "key_taken wid k (st\<lparr>next_id := a, tick := b\<rparr>) = key_taken wid k st" for a b
    by (simp add: key_taken_conv)
  have fr: "ids st (next_id st) \<notin> used_ids st" "ids st (next_id st) \<notin> r_run_id ` set (runs st)"
    using fresh_id [OF assms] by (auto simp: used_ids_def)
  show ?thesis
    using fr by (auto simp: start_run_def new_id_def now_iso_def kt key_taken_conv stamps_append
      stamp_def)
qed

theorem start_run_key_witness:
  "fst (start_run ''w'' None (empty_store (\<lambda>n. replicate n (CHR ''x'')) (\<lambda>n. []))) = Inr []"
proof -
  let ?st = "empty_store (\<lambda>n. replicate n (CHR ''x'')) (\<lambda>n. [])"
  have "inj (\<lambda>n. replicate n (CHR ''x''))" by (rule injI) (metis length_replicate)
  then have "inj (ids ?st)" by (simp add: empty_store_def)
  from start_run_key [OF store_inv_empty this, of "''w''" None]
  show ?thesis
    by (auto simp: key_taken_def start_run_def new_id_def now_iso_def empty_store_def)
qed

text \<open>The resume anchor is the highest step of the run recorded as ok, and None when there is no
  such step.\<close>

theorem last_completed_step_max:
  "last_completed_step rid st =
     (let ns = {s_step_number s | s. s \<in> set (step_results st) \<and> s_run_id s = rid \<and>
        s_status s = ''ok''}
      in if ns = {} then None else Some (Max ns))"
proof -
  let ?ns = "map s_step_number (filter (\<lambda>s. s_run_id s = rid \<and> s_status s = ''ok'') (step_results st))"
  have set: "{s_step_number s | s. s \<in> set (step_results st) \<and> s_run_id s = rid \<and>
    s_status s = ''ok''} = set ?ns" by auto
  show ?thesis
    unfolding last_completed_step_def set Let_def
    by (cases ?ns) (simp_all add: foldl_max del: set_map map_eq_Cons_conv)
qed

text \<open>Opening an existing database only adds columns: every table keeps its columns in place, the
  columns the operations write are there afterwards, and opening it again changes nothing.\<close>

theorem migrate_additive:
  "prefix (sc t) (migrate sc t) \<and> set set_allowed \<subseteq> set (migrate sc ''workflows'') \<and>
   ''scheduled_run_key'' \<in> set (migrate sc ''workflow_runs'') \<and> migrate (migrate sc) = migrate sc"
proof (intro conjI)
  have ns: "map fst (snd (migrations ! 0)) = set_allowed"
    by (simp add: migrations_def set_allowed_def)
  show "prefix (sc t) (migrate sc t)" by (simp add: migrate_conv)
  show a: "set set_allowed \<subseteq> set (migrate sc ''workflows'')" by (auto simp: migrate_conv ns)
  show k: "''scheduled_run_key'' \<in> set (migrate sc ''workflow_runs'')" by (simp add: migrate_conv)
  show "migrate (migrate sc) = migrate sc" by (rule migrate_complete) (use a k ns in simp_all)
qed

end
