(* ===== verification/Planner.thy ===== *)
theory Planner
  imports Registry Workflow_State
begin

text \<open>
  \<open>workflow_engine/planner.py\<close>: the plan as data, and the one call that produces it.  The language
  model is a parameter: the function from the prompt to the structured plan it returns, or the
  exception of a failed call.  What building its client gives is a parameter too.
\<close>

record plan_step =
  ps_number :: int
  ps_tool :: string
  ps_args :: pydict
  ps_rationale :: string
  ps_when :: "string option"

record planned_schedule =
  p_frequency :: "string option"
  p_hour :: "int option"
  p_minute :: int
  p_day_of_week :: "string option"
  p_timezone :: "string option"

record workflow_plan =
  pl_goal :: string
  pl_trigger :: "string option"
  pl_schedule :: "planned_schedule option"
  pl_steps :: "plan_step list"
  pl_needs_clarification :: bool
  pl_clarification_question :: "string option"

type_synonym llm = "string \<Rightarrow> pyexn + workflow_plan"

text \<open>The human message: the registry's listing, the request, and the event payload when there is
  one (\<open>pystr\<close> is Python's \<open>str\<close> of the payload).\<close>

definition plan_prompt :: "'st registry \<Rightarrow> (pydict \<Rightarrow> string) \<Rightarrow> string \<Rightarrow> pydict option \<Rightarrow> string" where
  "plan_prompt reg pystr instruction ctx =
    ''Available tools (use ONLY these):'' @ [CHR 0x0A] @ listing_for_prompt reg @
    [CHR 0x0A, CHR 0x0A] @ ''Automation request:'' @ [CHR 0x0A] @ instruction @
    (case ctx of
       None \<Rightarrow> []
     | Some d \<Rightarrow>
        if d = [] then []
        else [CHR 0x0A, CHR 0x0A] @ ''Triggering event payload (reference its fields as '' @
             ''$trigger.<field>): '' @ pystr d)"

definition make_plan :: "llm \<Rightarrow> 'st registry \<Rightarrow> (pydict \<Rightarrow> string) \<Rightarrow> string \<Rightarrow> pydict option
    \<Rightarrow> pyexn + workflow_plan" where
  "make_plan llm reg pystr instruction ctx = llm (plan_prompt reg pystr instruction ctx)"

text \<open>The client is built on the first call that needs it and kept; a planner that was given one never builds.\<close>

definition ensure_llm :: "(pyexn + llm) \<Rightarrow> llm option \<Rightarrow> (llm, llm option) out" where
  "ensure_llm build_llm held =
    (case held of
       Some m \<Rightarrow> (Inr m, held)
     | None \<Rightarrow> (case build_llm of Inl e \<Rightarrow> (Inl e, None) | Inr m \<Rightarrow> (Inr m, Some m)))"

definition plan_lazily :: "(pyexn + llm) \<Rightarrow> 'st registry \<Rightarrow> (pydict \<Rightarrow> string) \<Rightarrow> string \<Rightarrow> pydict option
    \<Rightarrow> llm option \<Rightarrow> (workflow_plan, llm option) out" where
  "plan_lazily build_llm reg pystr instruction ctx held =
    seq (ensure_llm build_llm held) (\<lambda>m held. (make_plan m reg pystr instruction ctx, held))"

lemma plan_injected: "plan_lazily build_llm reg pystr i ctx (Some m) = (make_plan m reg pystr i ctx, Some m)"
  by (simp add: plan_lazily_def ensure_llm_def)

lemma plan_builds_once:
  assumes "plan_lazily build_llm reg pystr i ctx None = (r, Some m)"
  shows "build_llm = Inr m \<and> r = make_plan m reg pystr i ctx \<and>
    plan_lazily other reg pystr j ctx' (Some m) = (make_plan m reg pystr j ctx', Some m)"
  using assms by (auto simp: plan_lazily_def ensure_llm_def split: sum.splits)

lemma plan_without_key: "plan_lazily (Inl e) reg pystr i ctx None = (Inl e, None)"
  by (simp add: plan_lazily_def ensure_llm_def)

end
