(* ===== verification/Schedule.thy ===== *)
theory Schedule
  imports Planner
begin

text \<open>
  \<open>workflow_engine/schedule.py\<close>: the validated schedule, its conversion to cron fields and its
  description.

  Whether a text names a time zone (\<open>ZoneInfo(v)\<close> does not raise) is the parameter \<open>zone_ok\<close>, the
  installed time zone database.  Validation follows pydantic: the field checks in declaration order,
  each failing field with its location and message, and the model check only when all fields are
  good.
\<close>

section \<open>The schedule\<close>

datatype frequency = Hourly | Daily | Weekly

fun freq_text :: "frequency \<Rightarrow> string" where
  "freq_text Hourly = ''hourly''"
| "freq_text Daily = ''daily''"
| "freq_text Weekly = ''weekly''"

definition parse_freq :: "string \<Rightarrow> frequency option" where
  "parse_freq s = (if s = ''hourly'' then Some Hourly else if s = ''daily'' then Some Daily
     else if s = ''weekly'' then Some Weekly else None)"

record schedule =
  sc_frequency :: frequency
  sc_minute :: int
  sc_hour :: "int option"
  sc_day_of_week :: "string option"
  sc_timezone :: string

definition weekdays :: "string list" where
  "weekdays = [''mon'', ''tue'', ''wed'', ''thu'', ''fri'', ''sat'', ''sun'']"

section \<open>Validators\<close>

type_synonym field_error = "string \<times> string"

definition tz_must_be_valid :: "(string \<Rightarrow> bool) \<Rightarrow> string \<Rightarrow> string + string" where
  "tz_must_be_valid zone_ok v =
    (if v = [] \<or> strip v = []
     then Inl ''Value error, timezone is required (an IANA zone like 'America/New_York')''
     else if zone_ok v then Inr v
     else Inl (''Value error, unknown timezone '' @ v))"

definition weekday_name :: "string \<Rightarrow> string + string" where
  "weekday_name v =
    (let low = take 3 (lower (strip v))
     in if low \<in> set weekdays then Inr low
        else Inl (''Value error, day_of_week must be one of the weekday names, got '' @ v))"

fun check_frequency :: "string option \<Rightarrow> field_error + frequency" where
  "check_frequency None = Inl (''frequency'', ''Field required'')"
| "check_frequency (Some f) =
    (case parse_freq f of
       Some q \<Rightarrow> Inr q
     | None \<Rightarrow> Inl (''frequency'', ''Input should be 'hourly', 'daily' or 'weekly' ''))"

definition check_range :: "string \<Rightarrow> int \<Rightarrow> int \<Rightarrow> field_error + int" where
  "check_range loc hi n =
    (if n < 0 then Inl (loc, ''Input should be greater than or equal to 0'')
     else if hi < n then Inl (loc, ''Input should be less than or equal to '' @ str_int hi)
     else Inr n)"

fun check_hour :: "int option \<Rightarrow> field_error + int option" where
  "check_hour None = Inr None"
| "check_hour (Some h) = (case check_range ''hour'' 23 h of Inl e \<Rightarrow> Inl e | Inr n \<Rightarrow> Inr (Some n))"

fun check_dow :: "string option \<Rightarrow> field_error + string option" where
  "check_dow None = Inr None"
| "check_dow (Some d) =
    (case weekday_name d of Inl m \<Rightarrow> Inl (''day_of_week'', m) | Inr low \<Rightarrow> Inr (Some low))"

fun check_tz :: "(string \<Rightarrow> bool) \<Rightarrow> string option \<Rightarrow> field_error + string" where
  "check_tz zone_ok None = Inl (''timezone'', ''Field required'')"
| "check_tz zone_ok (Some z) =
    (case tz_must_be_valid zone_ok z of Inl m \<Rightarrow> Inl (''timezone'', m) | Inr t \<Rightarrow> Inr t)"

definition fields_required_by_frequency :: "schedule \<Rightarrow> field_error + schedule" where
  "fields_required_by_frequency s =
    (if sc_frequency s \<in> {Daily, Weekly} \<and> sc_hour s = None
     then Inl ([], ''Value error, '' @ freq_text (sc_frequency s) @
                   '' schedule requires an explicit hour (0-23)'')
     else if sc_frequency s = Weekly \<and> sc_day_of_week s = None
     then Inl ([], ''Value error, weekly schedule requires a day_of_week (mon..sun)'')
     else Inr s)"

text \<open>\<open>Schedule(**planned)\<close>: the first error pydantic reports, or the schedule.\<close>

definition make_schedule :: "(string \<Rightarrow> bool) \<Rightarrow> planned_schedule \<Rightarrow> field_error + schedule" where
  "make_schedule zone_ok p =
    (case check_frequency (p_frequency p) of Inl e \<Rightarrow> Inl e | Inr f \<Rightarrow>
    (case check_range ''minute'' 59 (p_minute p) of Inl e \<Rightarrow> Inl e | Inr m \<Rightarrow>
    (case check_hour (p_hour p) of Inl e \<Rightarrow> Inl e | Inr h \<Rightarrow>
    (case check_dow (p_day_of_week p) of Inl e \<Rightarrow> Inl e | Inr d \<Rightarrow>
    (case check_tz zone_ok (p_timezone p) of Inl e \<Rightarrow> Inl e | Inr z \<Rightarrow>
       fields_required_by_frequency
         \<lparr>sc_frequency = f, sc_minute = m, sc_hour = h, sc_day_of_week = d, sc_timezone = z\<rparr>)))))"

text \<open>\<open>PlannedSchedule(**schedule.model_dump())\<close>\<close>

definition planned_of :: "schedule \<Rightarrow> planned_schedule" where
  "planned_of s = \<lparr>p_frequency = Some (freq_text (sc_frequency s)), p_hour = sc_hour s,
     p_minute = sc_minute s, p_day_of_week = sc_day_of_week s, p_timezone = Some (sc_timezone s)\<rparr>"

section \<open>Conversion and description\<close>

fun opt_int :: "int option \<Rightarrow> pyval" where
  "opt_int None = PNone"
| "opt_int (Some i) = PInt i"

definition to_cron_kwargs :: "schedule \<Rightarrow> pydict" where
  "to_cron_kwargs s =
    (case sc_frequency s of
       Hourly \<Rightarrow> [(''minute'', PInt (sc_minute s)), (''timezone'', PStr (sc_timezone s))]
     | Daily \<Rightarrow> [(''hour'', opt_int (sc_hour s)), (''minute'', PInt (sc_minute s)),
                 (''timezone'', PStr (sc_timezone s))]
     | Weekly \<Rightarrow> [(''day_of_week'', opt_val (sc_day_of_week s)), (''hour'', opt_int (sc_hour s)),
                  (''minute'', PInt (sc_minute s)), (''timezone'', PStr (sc_timezone s))])"

definition clock12 :: "int \<Rightarrow> int \<Rightarrow> string" where
  "clock12 hour minute =
    (let suffix = if hour < 12 then ''AM'' else ''PM'';
         h12 = if hour mod 12 \<noteq> 0 then hour mod 12 else 12
     in str_int h12 @ '':'' @ pad 2 (nat minute) @ '' '' @ suffix)"

definition day_name :: "string \<Rightarrow> string option" where
  "day_name d = map_of [(''mon'', ''Monday''), (''tue'', ''Tuesday''), (''wed'', ''Wednesday''),
     (''thu'', ''Thursday''), (''fri'', ''Friday''), (''sat'', ''Saturday''), (''sun'', ''Sunday'')] d"

text \<open>\<open>describe\<close>: a missing hour is a TypeError of the comparison, a missing day a KeyError.\<close>

definition describe :: "schedule \<Rightarrow> pyexn + string" where
  "describe s =
    (case sc_frequency s of
       Hourly \<Rightarrow> Inr (''Every hour at :'' @ pad 2 (nat (sc_minute s)) @ '' '' @ sc_timezone s)
     | f \<Rightarrow>
       (case sc_hour s of
          None \<Rightarrow> Inl (Exn TypeError ''< not supported between NoneType and int'')
        | Some h \<Rightarrow>
           (let clock = clock12 h (sc_minute s)
            in if f = Daily then Inr (''Every day at '' @ clock @ '' '' @ sc_timezone s)
               else (case Option.bind (sc_day_of_week s) day_name of
                       None \<Rightarrow> Inl (Exn KeyError ''day_of_week'')
                     | Some day \<Rightarrow>
                        Inr (''Every '' @ day @ '' at '' @ clock @ '' '' @ sc_timezone s)))))"

section \<open>What validation guarantees\<close>

definition schedule_wf :: "(string \<Rightarrow> bool) \<Rightarrow> schedule \<Rightarrow> bool" where
  "schedule_wf zone_ok s =
    (0 \<le> sc_minute s \<and> sc_minute s \<le> 59 \<and>
     (case sc_hour s of None \<Rightarrow> sc_frequency s = Hourly | Some h \<Rightarrow> 0 \<le> h \<and> h \<le> 23) \<and>
     (case sc_day_of_week s of None \<Rightarrow> sc_frequency s \<noteq> Weekly | Some d \<Rightarrow> d \<in> set weekdays) \<and>
     strip (sc_timezone s) \<noteq> [] \<and> zone_ok (sc_timezone s))"

lemma parse_freq_Some [simp]: "parse_freq s = Some f \<longleftrightarrow> s = freq_text f"
  by (cases f) (auto simp: parse_freq_def split: if_splits)

lemma parse_freq_text [simp]: "parse_freq (freq_text f) = Some f"
  by simp

lemma freq_text_inj [simp]: "freq_text f = freq_text g \<longleftrightarrow> f = g"
  by (cases f; cases g) auto

lemma check_range_Inr [simp]: "check_range l hi n = Inr m \<longleftrightarrow> 0 \<le> n \<and> n \<le> hi \<and> m = n"
  by (auto simp: check_range_def)

lemma check_frequency_Inr [simp]: "check_frequency f = Inr q \<longleftrightarrow> f = Some (freq_text q)"
  by (cases f) (auto split: option.splits)

lemma check_hour_Inr [simp]:
  "check_hour h = Inr r \<longleftrightarrow> r = h \<and> (case h of None \<Rightarrow> True | Some n \<Rightarrow> 0 \<le> n \<and> n \<le> 23)"
  by (cases h) (auto simp: check_range_def)

lemma check_dow_Inr [simp]:
  "check_dow d = Inr r \<longleftrightarrow> (case d of None \<Rightarrow> r = None
     | Some v \<Rightarrow> r = Some (take 3 (lower (strip v))) \<and> take 3 (lower (strip v)) \<in> set weekdays)"
  by (cases d) (auto simp: weekday_name_def Let_def split: sum.splits if_splits)

lemma check_tz_Inr [simp]:
  "check_tz zone_ok z = Inr t \<longleftrightarrow> z = Some t \<and> strip t \<noteq> [] \<and> zone_ok t"
  by (cases z) (auto simp: tz_must_be_valid_def strip_def lstrip_def rstrip_def split: sum.splits if_splits)

lemma check_errors:
  "check_frequency f = Inl e \<Longrightarrow> snd e \<noteq> []" "check_range l hi n = Inl e \<Longrightarrow> snd e \<noteq> []"
  "check_hour h = Inl e \<Longrightarrow> snd e \<noteq> []" "check_dow d = Inl e \<Longrightarrow> snd e \<noteq> []"
  "check_tz zone_ok z = Inl e \<Longrightarrow> snd e \<noteq> []" "fields_required_by_frequency s = Inl e \<Longrightarrow> snd e \<noteq> []"
proof -
  show "check_frequency f = Inl e \<Longrightarrow> snd e \<noteq> []" by (cases f) (auto split: option.splits)
  show r: "check_range l hi n = Inl e \<Longrightarrow> snd e \<noteq> []" for l hi n e
    by (auto simp: check_range_def split: if_splits)
  show "check_hour h = Inl e \<Longrightarrow> snd e \<noteq> []" by (cases h) (auto split: sum.splits dest: r)
  show "check_dow d = Inl e \<Longrightarrow> snd e \<noteq> []"
    by (cases d) (auto simp: weekday_name_def Let_def split: sum.splits if_splits)
  show "check_tz zone_ok z = Inl e \<Longrightarrow> snd e \<noteq> []"
    by (cases z) (auto simp: tz_must_be_valid_def split: sum.splits if_splits)
  show "fields_required_by_frequency s = Inl e \<Longrightarrow> snd e \<noteq> []"
    by (auto simp: fields_required_by_frequency_def split: if_splits)
qed

declare check_frequency.simps [simp del] check_hour.simps [simp del] check_dow.simps [simp del]
declare check_tz.simps [simp del]

lemma fields_required_Inr [simp]:
  "fields_required_by_frequency s = Inr t \<longleftrightarrow> t = s \<and>
    (sc_hour s = None \<longrightarrow> sc_frequency s = Hourly) \<and>
    (sc_day_of_week s = None \<longrightarrow> sc_frequency s \<noteq> Weekly)"
  by (cases "sc_frequency s") (auto simp: fields_required_by_frequency_def)

lemma make_schedule_Inr:
  "make_schedule zone_ok p = Inr s \<longleftrightarrow>
    check_frequency (p_frequency p) = Inr (sc_frequency s) \<and>
    check_range ''minute'' 59 (p_minute p) = Inr (sc_minute s) \<and>
    check_hour (p_hour p) = Inr (sc_hour s) \<and> check_dow (p_day_of_week p) = Inr (sc_day_of_week s) \<and>
    check_tz zone_ok (p_timezone p) = Inr (sc_timezone s) \<and> fields_required_by_frequency s = Inr s"
  unfolding make_schedule_def
  by (auto split: sum.split simp del: check_range_Inr check_frequency_Inr check_hour_Inr check_dow_Inr
      check_tz_Inr simp: fields_required_Inr)

lemma make_schedule_wf: "make_schedule zone_ok p = Inr s \<Longrightarrow> schedule_wf zone_ok s"
  by (auto simp: make_schedule_Inr schedule_wf_def split: option.splits)

lemma weekday_fixed: "d \<in> set weekdays \<Longrightarrow> take 3 (lower (strip d)) = d"
  by (auto simp: weekdays_def strip_def lstrip_def rstrip_def lower_def is_space_def code_def
      lower_char_def)

section \<open>Properties\<close>

text \<open>A schedule is accepted exactly when it is runnable: what validation returns is well formed
  (minute and hour in range, an hour for daily and weekly, a weekday of the list for weekly, a known
  time zone), and every well-formed schedule survives being dumped and validated again unchanged.\<close>

theorem schedule_roundtrip:
  "(case make_schedule zone_ok p of Inr s \<Rightarrow> schedule_wf zone_ok s \<and>
      make_schedule zone_ok (planned_of s) = Inr s
    | Inl e \<Rightarrow> snd e \<noteq> []) \<and>
   (schedule_wf zone_ok t = (make_schedule zone_ok (planned_of t) = Inr t))"
proof -
  have wf: "(make_schedule zone_ok (planned_of t) = Inr t) = schedule_wf zone_ok t" for t
    by (auto simp: make_schedule_Inr schedule_wf_def planned_of_def weekday_fixed split: option.splits)
  have err: "make_schedule zone_ok p = Inl e \<Longrightarrow> snd e \<noteq> []" for e
    by (auto simp: make_schedule_def dest: check_errors split: sum.splits)
  show ?thesis using wf err make_schedule_wf by (auto split: sum.split)
qed

text \<open>A validated schedule always has the cron fields its frequency needs, with values in range,
  and always has a description.\<close>

theorem schedule_cron_complete:
  assumes "make_schedule zone_ok p = Inr s"
  shows "map_of (to_cron_kwargs s) ''minute'' = Some (PInt (sc_minute s)) \<and>
    map_of (to_cron_kwargs s) ''timezone'' = Some (PStr (sc_timezone s)) \<and> zone_ok (sc_timezone s) \<and>
    0 \<le> sc_minute s \<and> sc_minute s < 60 \<and>
    (sc_frequency s = Hourly \<or>
      (\<exists>h. map_of (to_cron_kwargs s) ''hour'' = Some (PInt h) \<and> 0 \<le> h \<and> h < 24)) \<and>
    (sc_frequency s \<noteq> Weekly \<or>
      (\<exists>d\<in>set weekdays. map_of (to_cron_kwargs s) ''day_of_week'' = Some (PStr d))) \<and>
    is_ok (describe s)"
proof -
  have w: "schedule_wf zone_ok s" using make_schedule_wf [OF assms] .
  have "d \<in> set weekdays \<Longrightarrow> day_name d \<noteq> None" for d
    by (auto simp: weekdays_def day_name_def)
  then have d: "d \<in> set weekdays \<Longrightarrow> \<exists>x. (case day_name d of None \<Rightarrow> Inl e | Some n \<Rightarrow> Inr (g n)) = Inr x"
    for d and e :: pyexn and g :: "string \<Rightarrow> string"
    by (fastforce split: option.split)
  show ?thesis
    using w d by (cases "sc_frequency s"; cases "sc_hour s"; cases "sc_day_of_week s")
      (auto simp: schedule_wf_def to_cron_kwargs_def describe_def Let_def is_ok_conv)
qed

definition nightly :: planned_schedule where
  "nightly = \<lparr>p_frequency = Some ''daily'', p_hour = Some 22, p_minute = 0, p_day_of_week = None,
     p_timezone = Some ''America/New_York''\<rparr>"

theorem schedule_cron_complete_witness:
  "\<exists>s. make_schedule (\<lambda>z. z = ''America/New_York'') nightly = Inr s \<and> is_ok (describe s)"
proof -
  let ?s = "\<lparr>sc_frequency = Daily, sc_minute = 0, sc_hour = Some 22, sc_day_of_week = None,
     sc_timezone = ''America/New_York''\<rparr>"
  have "make_schedule (\<lambda>z. z = ''America/New_York'') nightly = Inr ?s"
    by code_simp
  from this schedule_cron_complete [OF this] show ?thesis by blast
qed

lemma colon_not_digit: "CHR '':'' \<notin> set (str_nat n)"
  using str_nat_digits [of "CHR '':''" n] by (auto simp: is_digit_def code_def)

text \<open>The clock time shown to the user determines the time of day.\<close>

theorem clock12_unambiguous:
  assumes "0 \<le> h" "h < 24" "0 \<le> m" "m < 60" "0 \<le> h'" "h' < 24" "0 \<le> m'" "m' < 60"
    and "clock12 h m = clock12 h' m'"
  shows "h = h' \<and> m = m'"
proof -
  let ?f = "\<lambda>h :: int. if h mod 12 \<noteq> 0 then h mod 12 else 12"
  let ?s = "\<lambda>h :: int. if h < 12 then ''AM'' else ''PM''"
  have c: "clock12 h m = str_int (?f h) @ '':'' @ (pad 2 (nat m) @ '' '' @ ?s h)" for h m
    by (simp add: clock12_def Let_def)
  have nc: "CHR '':'' \<notin> set (str_int (?f h))" for h
    by (auto simp: str_int_def colon_not_digit)
  have "str_int (?f h) @ CHR '':'' # (pad 2 (nat m) @ '' '' @ ?s h) =
      str_int (?f h') @ CHR '':'' # (pad 2 (nat m') @ '' '' @ ?s h')"
    using assms(9) by (simp only: c append_Cons append_Nil)
  from sep_unique [OF this nc nc]
  have 1: "str_int (?f h) = str_int (?f h')"
    and 2: "pad 2 (nat m) @ '' '' @ ?s h = pad 2 (nat m') @ '' '' @ ?s h'" by auto
  have "length (pad 2 (nat m)) = length (pad 2 (nat m'))"
    using length_pad [of 2 "nat m"] length_pad [of 2 "nat m'"] assms by simp
  with 2 have 3: "pad 2 (nat m) = pad 2 (nat m')" "?s h = ?s h'" by auto
  from 3(1) have "m = m'" by (metis assms(3,7) eq_nat_nat_iff nat_of_digits_pad)
  have "?f h = ?f h'"
    using arg_cong [OF 1, of parse_int] by (simp only: parse_int_str_int option.inject)
  then have "h mod 12 = h' mod 12"
    using pos_mod_bound [of 12 h] pos_mod_bound [of 12 h'] by (simp split: if_splits)
  moreover have "(h < 12) = (h' < 12)" using 3(2) by (simp split: if_splits)
  moreover have "k = (if k < 12 then k mod 12 else k mod 12 + 12)" if "0 \<le> k" "k < 24" for k :: int
  proof (cases "k < 12")
    case False
    have "k mod 12 = (k - 12) mod 12" by (rule minus_mod_self2 [symmetric])
    also have "\<dots> = k - 12" using that False by (intro mod_pos_pos_trivial) auto
    finally show ?thesis using False by simp
  qed (use that in simp)
  ultimately have "h = h'" using assms(1,2,5,6) by metis
  with \<open>m = m'\<close> show ?thesis by simp
qed

theorem clock12_unambiguous_witness: "clock12 0 30 \<noteq> clock12 12 30"
  using clock12_unambiguous [of 0 30 12 30] by auto

end
