(* ===== verification/Feasibility.thy ===== *)
theory Feasibility
  imports Conditions Schedule
begin

text \<open>
  \<open>workflow_engine/feasibility.py\<close>: the code-level check a plan has to pass before it may run, as the
  list of errors the code collects, and a declarative predicate it is equivalent to.  A dictionary of
  arguments is an association list with distinct keys.  \<open>max_plan_steps\<close> is the value
  \<open>config.py\<close> gives it when \<open>WORKFLOW_MAX_PLAN_STEPS\<close> is not set.  The validator of a schema
  fails with \<open>ValidationError\<close> only, the one exception \<open>model_validate\<close> is documented to raise and the
  one the code catches.
\<close>

section \<open>The checker\<close>

definition max_plan_steps :: nat where
  "max_plan_steps = 8"

definition allowed_tool_categories :: "string list" where
  "allowed_tool_categories = [READ_DATA, ANALYZE, NOTIFY]"

record feasibility_report =
  fr_ok :: bool
  fr_errors :: "string list"
  fr_requires_approval :: bool

fun placeholder :: "annotation \<Rightarrow> pyval" where
  "placeholder TStr = PStr ''x''"
| "placeholder TInt = PInt 0"
| "placeholder TFloat = PFloat (Fin 0)"
| "placeholder TBool = PBool False"
| "placeholder TDict = PDict []"
| "placeholder TList = PList []"
| "placeholder TOptStr = PStr ''x''"

definition step_msg :: "int \<Rightarrow> string \<Rightarrow> string" where
  "step_msg n m = ''step '' @ str_int n @ '': '' @ m"

definition check_ref :: "string \<Rightarrow> int \<Rightarrow> int list \<Rightarrow> string list" where
  "check_ref value n valid =
    (case match_REF_RE value of
       None \<Rightarrow> [step_msg n (''malformed reference '' @ value)]
     | Some r \<Rightarrow>
        (case ref_base r of
           TriggerRef \<Rightarrow> []
         | StepRef m \<Rightarrow>
            if n \<le> int m
            then [step_msg n (''reference '' @ value @ '' does not point backward'')]
            else if int m \<notin> set valid
            then [step_msg n (''reference '' @ value @ '' points at a step that is not in the plan'')]
            else []))"

fun is_ref_value :: "pyval \<Rightarrow> bool" where
  "is_ref_value (PStr s) = prefix ''$'' s"
| "is_ref_value _ = False"

fun str_of :: "pyval \<Rightarrow> string" where
  "str_of (PStr s) = s"
| "str_of _ = []"

text \<open>The loop over the arguments: the errors, and the dictionary with the references replaced.\<close>

fun check_args :: "schema \<Rightarrow> string \<Rightarrow> int \<Rightarrow> int list \<Rightarrow> pydict \<Rightarrow> string list \<times> pydict" where
  "check_args decl tool n valid [] = ([], [])"
| "check_args decl tool n valid ((k, v) # args) =
    (case check_args decl tool n valid args of (errs, cand) \<Rightarrow>
       case find (\<lambda>f. f_name f = k) decl of
         None \<Rightarrow> (step_msg n (''unknown arg '' @ k @ '' for '' @ tool) # errs, cand)
       | Some f \<Rightarrow>
          if is_ref_value v
          then (check_ref (str_of v) n valid @ errs, (k, placeholder (f_annotation f)) # cand)
          else (errs, (k, v) # cand))"

definition check_when :: "string option \<Rightarrow> int \<Rightarrow> int list \<Rightarrow> string list" where
  "check_when w n valid =
    (case w of
       None \<Rightarrow> []
     | Some t \<Rightarrow>
        if t = [] then []
        else (case parse_condition t of
                Inl e \<Rightarrow> [step_msg n (exn_text e)]
              | Inr c \<Rightarrow> check_ref (c_ref c) n valid))"

definition check_step :: "validator \<Rightarrow> 'st registry \<Rightarrow> int list \<Rightarrow> plan_step \<Rightarrow> string list" where
  "check_step validate reg valid s =
    (case get_tool reg (ps_tool s) of
       None \<Rightarrow> [step_msg (ps_number s) (''unknown tool '' @ ps_tool s @ '' not in registry'')]
     | Some spec \<Rightarrow>
        (case check_args (t_schema spec) (t_name spec) (ps_number s) valid (ps_args s) of (errs, cand) \<Rightarrow>
          (if t_category spec \<in> set allowed_tool_categories then []
           else [step_msg (ps_number s) (''tool '' @ t_name spec @ '' category '' @ t_category spec @
                   '' is not permitted'')]) @
          errs @
          (case validate (t_schema spec) cand of
             Inr _ \<Rightarrow> []
           | Inl e \<Rightarrow> [step_msg (ps_number s) (''args invalid for '' @ t_name spec @ '' ('' @
                        exn_text e @ '')'')]) @
          check_when (ps_when s) (ps_number s) valid))"

definition step_requires_approval :: "'st registry \<Rightarrow> plan_step \<Rightarrow> bool" where
  "step_requires_approval reg s =
    (case get_tool reg (ps_tool s) of None \<Rightarrow> False | Some spec \<Rightarrow> t_requires_approval spec)"

definition check_schedule :: "(string \<Rightarrow> bool) \<Rightarrow> planned_schedule \<Rightarrow> string list" where
  "check_schedule zone_ok p =
    (case make_schedule zone_ok p of
       Inr _ \<Rightarrow> []
     | Inl (loc, msg) \<Rightarrow>
        [''schedule invalid ('' @ (if loc = [] then ''schedule'' else loc) @ '': '' @ msg @ '')''])"

fun or_text :: "string option \<Rightarrow> string \<Rightarrow> string" where
  "or_text None d = d"
| "or_text (Some s) d = (if s = [] then d else s)"

definition plan_errors :: "(string \<Rightarrow> bool) \<Rightarrow> validator \<Rightarrow> 'st registry \<Rightarrow> workflow_plan \<Rightarrow> string list" where
  "plan_errors zone_ok validate reg plan =
    (if max_plan_steps < length (pl_steps plan)
     then [''plan has '' @ str_nat (length (pl_steps plan)) @ '' steps; max is '' @ str_nat max_plan_steps]
     else []) @
    concat (map (check_step validate reg (map ps_number (pl_steps plan))) (pl_steps plan)) @
    (case pl_schedule plan of None \<Rightarrow> [] | Some p \<Rightarrow> check_schedule zone_ok p)"

definition check_plan :: "(string \<Rightarrow> bool) \<Rightarrow> validator \<Rightarrow> 'st registry \<Rightarrow> workflow_plan
    \<Rightarrow> feasibility_report" where
  "check_plan zone_ok validate reg plan =
    (if pl_needs_clarification plan
     then \<lparr>fr_ok = False,
           fr_errors = [''needs clarification: '' @ or_text (pl_clarification_question plan) ''unspecified''],
           fr_requires_approval = False\<rparr>
     else if pl_steps plan = []
     then \<lparr>fr_ok = False, fr_errors = [''plan has no steps''], fr_requires_approval = False\<rparr>
     else let errs = plan_errors zone_ok validate reg plan
          in \<lparr>fr_ok = (errs = []), fr_errors = errs,
              fr_requires_approval = list_ex (step_requires_approval reg) (pl_steps plan)\<rparr>)"

section \<open>What feasibility means\<close>

text \<open>A reference is good in a step when it names the trigger, or an earlier step of the plan.\<close>

definition ref_ok :: "int \<Rightarrow> int set \<Rightarrow> string \<Rightarrow> bool" where
  "ref_ok n valid value =
    (\<exists>r. match_REF_RE value = Some r \<and>
      (case ref_base r of TriggerRef \<Rightarrow> True | StepRef m \<Rightarrow> int m < n \<and> int m \<in> valid))"

definition when_ok :: "int \<Rightarrow> int set \<Rightarrow> string option \<Rightarrow> bool" where
  "when_ok n valid w =
    (case w of
       None \<Rightarrow> True
     | Some t \<Rightarrow> t = [] \<or> (\<exists>c. parse_condition t = Inr c \<and> ref_ok n valid (c_ref c)))"

definition candidate :: "schema \<Rightarrow> pydict \<Rightarrow> pydict" where
  "candidate decl args =
    map (\<lambda>(k, v). (k, if is_ref_value v
      then placeholder (f_annotation (the (find (\<lambda>f. f_name f = k) decl))) else v)) args"

definition step_ok :: "validator \<Rightarrow> 'st registry \<Rightarrow> int set \<Rightarrow> plan_step \<Rightarrow> bool" where
  "step_ok validate reg valid s =
    (\<exists>spec. get_tool reg (ps_tool s) = Some spec \<and>
      t_category spec \<in> {''READ_DATA'', ''ANALYZE'', ''NOTIFY''} \<and>
      (\<forall>(k, v)\<in>set (ps_args s). k \<in> f_name ` set (t_schema spec) \<and>
        (is_ref_value v \<longrightarrow> ref_ok (ps_number s) valid (str_of v))) \<and>
      is_ok (validate (t_schema spec) (candidate (t_schema spec) (ps_args s))) \<and>
      when_ok (ps_number s) valid (ps_when s))"

definition plan_ok :: "(string \<Rightarrow> bool) \<Rightarrow> validator \<Rightarrow> 'st registry \<Rightarrow> workflow_plan \<Rightarrow> bool" where
  "plan_ok zone_ok validate reg plan =
    (\<not> pl_needs_clarification plan \<and> 1 \<le> length (pl_steps plan) \<and> length (pl_steps plan) \<le> 8 \<and>
     (\<forall>s\<in>set (pl_steps plan). step_ok validate reg (ps_number ` set (pl_steps plan)) s) \<and>
     (case pl_schedule plan of None \<Rightarrow> True | Some p \<Rightarrow> \<exists>sc. make_schedule zone_ok p = Inr sc))"

lemma check_ref_Nil: "check_ref v n valid = [] \<longleftrightarrow> ref_ok n (set valid) v"
  by (auto simp: check_ref_def ref_ok_def split: option.split ref_base.split)

lemma check_when_Nil: "check_when w n valid = [] \<longleftrightarrow> when_ok n (set valid) w"
  by (cases "parse_condition (the w)") (auto simp: check_when_def when_ok_def check_ref_Nil split: option.split)

lemma find_field: "find (\<lambda>f. f_name f = k) decl = None \<longleftrightarrow> k \<notin> f_name ` set decl"
  by (auto simp: find_None_iff)

lemma check_args_Nil:
  "fst (check_args decl tool n valid args) = [] \<longleftrightarrow>
    (\<forall>(k, v)\<in>set args. k \<in> f_name ` set decl \<and> (is_ref_value v \<longrightarrow> ref_ok n (set valid) (str_of v)))"
proof (induction args)
  case (Cons kv args)
  obtain k v where "kv = (k, v)" by (cases kv)
  with Cons find_field [of k decl] show ?case
    by (auto split: prod.split option.split simp: check_ref_Nil)
qed simp

lemma check_args_candidate:
  "fst (check_args decl tool n valid args) = [] \<Longrightarrow>
    snd (check_args decl tool n valid args) = candidate decl args"
proof (induction args)
  case (Cons kv args)
  obtain k v where kv: "kv = (k, v)" by (cases kv)
  obtain es c where ih: "check_args decl tool n valid args = (es, c)"
    by (cases "check_args decl tool n valid args")
  show ?case
  proof (cases "find (\<lambda>f. f_name f = k) decl")
    case None
    with Cons.prems kv ih show ?thesis by simp
  next
    case (Some f)
    with Cons kv ih show ?thesis by (cases "is_ref_value v") (simp_all add: candidate_def)
  qed
qed (simp add: candidate_def)

lemma check_step_Nil: "check_step validate reg valid s = [] \<longleftrightarrow> step_ok validate reg (set valid) s"
proof (cases "get_tool reg (ps_tool s)")
  case None
  then show ?thesis by (simp add: check_step_def step_ok_def)
next
  case (Some spec)
  obtain es c where a: "check_args (t_schema spec) (t_name spec) (ps_number s) valid (ps_args s) = (es, c)"
    by (cases "check_args (t_schema spec) (t_name spec) (ps_number s) valid (ps_args s)")
  have es: "es = [] \<longleftrightarrow> (\<forall>(k, v)\<in>set (ps_args s). k \<in> f_name ` set (t_schema spec) \<and>
      (is_ref_value v \<longrightarrow> ref_ok (ps_number s) (set valid) (str_of v)))"
    using check_args_Nil [of "t_schema spec" "t_name spec" "ps_number s" valid "ps_args s"] a by simp
  have c: "es = [] \<Longrightarrow> c = candidate (t_schema spec) (ps_args s)"
    using check_args_candidate [of "t_schema spec" "t_name spec" "ps_number s" valid "ps_args s"] a by simp
  have cat: "x \<in> set allowed_tool_categories \<longleftrightarrow> x \<in> {''READ_DATA'', ''ANALYZE'', ''NOTIFY''}" for x
    by (auto simp: allowed_tool_categories_def READ_DATA_def ANALYZE_def NOTIFY_def)
  have "check_step validate reg valid s = [] \<longleftrightarrow>
      t_category spec \<in> {''READ_DATA'', ''ANALYZE'', ''NOTIFY''} \<and> es = [] \<and>
      is_ok (validate (t_schema spec) c) \<and> when_ok (ps_number s) (set valid) (ps_when s)"
    using Some a
    by (simp add: check_step_def cat check_when_Nil is_ok_def split: sum.split)
  also have "\<dots> \<longleftrightarrow> step_ok validate reg (set valid) s"
    unfolding step_ok_def using Some es c by auto
  finally show ?thesis .
qed

lemma check_schedule_Nil: "check_schedule zone_ok p = [] \<longleftrightarrow> (\<exists>sc. make_schedule zone_ok p = Inr sc)"
  by (auto simp: check_schedule_def split: sum.split)

section \<open>Properties\<close>

text \<open>C20: The feasibility check passes exactly the plans that are executable: not a request for
  clarification, between one and eight steps, every step's tool registered and of a read, analyse or
  notify category, every argument declared by the tool's schema, every reference (in arguments and in
  guards) to the trigger or strictly backward to a step of the plan, the arguments valid, the guard a
  single comparison, and the schedule valid.  No error is collected for a plan that passes.\<close>

theorem check_plan_iff:
  "fr_ok (check_plan zone_ok validate reg plan) = plan_ok zone_ok validate reg plan \<and>
   (fr_ok (check_plan zone_ok validate reg plan) = (fr_errors (check_plan zone_ok validate reg plan) = []))"
proof
  have steps: "concat (map (check_step validate reg (map ps_number (pl_steps plan))) (pl_steps plan)) = [] \<longleftrightarrow>
      (\<forall>s\<in>set (pl_steps plan). step_ok validate reg (ps_number ` set (pl_steps plan)) s)"
    by (simp add: check_step_Nil)
  have sch: "(case pl_schedule plan of None \<Rightarrow> [] | Some p \<Rightarrow> check_schedule zone_ok p) = [] \<longleftrightarrow>
      (case pl_schedule plan of None \<Rightarrow> True | Some p \<Rightarrow> \<exists>sc. make_schedule zone_ok p = Inr sc)"
    by (simp add: check_schedule_Nil split: option.split)
  have errs: "plan_errors zone_ok validate reg plan = [] \<longleftrightarrow> length (pl_steps plan) \<le> 8 \<and>
      (\<forall>s\<in>set (pl_steps plan). step_ok validate reg (ps_number ` set (pl_steps plan)) s) \<and>
      (case pl_schedule plan of None \<Rightarrow> True | Some p \<Rightarrow> \<exists>sc. make_schedule zone_ok p = Inr sc)"
    unfolding plan_errors_def using steps sch
    by (simp only: append_is_Nil_conv) (simp add: max_plan_steps_def not_less)
  show "fr_ok (check_plan zone_ok validate reg plan) = plan_ok zone_ok validate reg plan"
    by (cases "pl_steps plan = []") (simp_all add: check_plan_def plan_ok_def errs Let_def Suc_le_eq)
  show "fr_ok (check_plan zone_ok validate reg plan) =
      (fr_errors (check_plan zone_ok validate reg plan) = [])"
    by (simp add: check_plan_def Let_def)
qed

text \<open>A plan that passes is marked as requiring approval exactly when one of its steps uses a tool
  registered as requiring approval.\<close>

theorem requires_approval_iff:
  assumes "fr_ok (check_plan zone_ok validate reg plan)"
  shows "fr_requires_approval (check_plan zone_ok validate reg plan) =
    (\<exists>s\<in>set (pl_steps plan). \<exists>spec. get_tool reg (ps_tool s) = Some spec \<and> t_requires_approval spec)"
  using assms
  by (auto simp: check_plan_def Let_def list_ex_iff step_requires_approval_def split: if_splits option.splits)

definition demo_plan :: workflow_plan where
  "demo_plan = \<lparr>pl_goal = ''g'', pl_trigger = None, pl_schedule = None,
     pl_steps = [\<lparr>ps_number = 1, ps_tool = ''a'', ps_args = [], ps_rationale = ''r'', ps_when = None\<rparr>],
     pl_needs_clarification = False, pl_clarification_question = None\<rparr>"

theorem requires_approval_iff_witness:
  "\<not> fr_requires_approval (check_plan (\<lambda>_. True) (\<lambda>_ d. Inr d) [(''a'', demo_tool ''a'' ''d'')] demo_plan)"
proof -
  have "fr_ok (check_plan (\<lambda>_. True) (\<lambda>_ d. Inr d) [(''a'', demo_tool ''a'' ''d'')] demo_plan)"
    by (simp add: check_plan_def demo_plan_def plan_errors_def max_plan_steps_def check_step_def
        get_tool_def demo_tool_def allowed_tool_categories_def check_when_def)
  from requires_approval_iff [OF this] show ?thesis
    by (auto simp: demo_plan_def get_tool_def demo_tool_def split: if_splits)
qed

end
