(* ===== verification/Executor.thy ===== *)
theory Executor
  imports Feasibility "HOL-Library.Multiset"
begin

text \<open>
  \<open>workflow_engine/executor.py\<close>: resolving the references of a step, and running a plan step by step
  with a checkpoint after each.

  The local variables of \<open>execute\<close> (results, skipped, outcomes) and the store are the loop state;
  one iteration either goes on or halts the run with an error.  The wall-clock latency of a step,
  which the code only records, is left out of the outcome.
\<close>

section \<open>Resolving references\<close>

record outcome =
  oc_number :: int
  oc_tool :: string
  oc_status :: string
  oc_result :: pyval
  oc_error :: "string option"
  oc_reason :: "string option"

record run_result =
  rr_run_id :: string
  rr_status :: string
  rr_steps :: "outcome list"
  rr_error :: "string option"

definition resolve_ref :: "string \<Rightarrow> pydict \<Rightarrow> (int \<Rightarrow> pyval option) \<Rightarrow> pyexn + pyval" where
  "resolve_ref value trigger results =
    (case match_REF_RE value of
       None \<Rightarrow> Inl (Exn ValueError (''unresolvable reference '' @ value))
     | Some r \<Rightarrow>
       and_then
         (case ref_base r of
            TriggerRef \<Rightarrow> Inr (PDict trigger)
          | StepRef n \<Rightarrow>
             (case results (int n) of
                None \<Rightarrow> Inl (Exn ValueError (''reference '' @ value @ '' to a step that has not run''))
              | Some v \<Rightarrow>
                 if v = PNone
                 then Inl (Exn ValueError (''reference '' @ value @ '' to a step that has not run''))
                 else Inr v))
         (\<lambda>src. case ref_field r of
            None \<Rightarrow> Inr src
          | Some f \<Rightarrow>
             (case src of
                PDict d \<Rightarrow>
                 (case map_of d f of
                    Some v \<Rightarrow> Inr v
                  | None \<Rightarrow> Inl (Exn ValueError (''reference '' @ value @ '': field '' @ f @
                              '' not in result'')))
              | _ \<Rightarrow> Inl (Exn ValueError (''reference '' @ value @
                        '': step result is not addressable by field'')))))"

definition resolve_value :: "pyval \<Rightarrow> pydict \<Rightarrow> (int \<Rightarrow> pyval option) \<Rightarrow> pyexn + pyval" where
  "resolve_value v trigger results =
    (if is_ref_value v then resolve_ref (str_of v) trigger results else Inr v)"

fun resolve_args :: "pydict \<Rightarrow> pydict \<Rightarrow> (int \<Rightarrow> pyval option) \<Rightarrow> pyexn + pydict" where
  "resolve_args [] trigger results = Inr []"
| "resolve_args ((k, v) # args) trigger results =
    and_then (resolve_value v trigger results) (\<lambda>w.
    and_then (resolve_args args trigger results) (\<lambda>ws. Inr ((k, w) # ws)))"

definition ref_steps :: "string \<Rightarrow> int list" where
  "ref_steps token =
    (case match_REF_RE token of
       Some r \<Rightarrow> (case ref_base r of StepRef n \<Rightarrow> [int n] | TriggerRef \<Rightarrow> [])
     | None \<Rightarrow> [])"

definition has_when :: "plan_step \<Rightarrow> bool" where
  "has_when s = (case ps_when s of None \<Rightarrow> False | Some t \<Rightarrow> t \<noteq> [])"

definition when_text :: "plan_step \<Rightarrow> string" where
  "when_text s = (case ps_when s of None \<Rightarrow> [] | Some t \<Rightarrow> t)"

definition arg_refs :: "pyval \<Rightarrow> int list" where
  "arg_refs v = (if is_ref_value v then ref_steps (str_of v) else [])"

definition when_refs :: "plan_step \<Rightarrow> int list" where
  "when_refs s =
    (if has_when s
     then (case parse_condition (when_text s) of Inr c \<Rightarrow> ref_steps (c_ref c) | Inl _ \<Rightarrow> [])
     else [])"

definition referenced_steps :: "plan_step \<Rightarrow> int list" where
  "referenced_steps s = concat (map (\<lambda>(k, v). arg_refs v) (ps_args s)) @ when_refs s"

section \<open>One step\<close>

record exec_state =
  x_results :: "int \<Rightarrow> pyval option"
  x_skipped :: "int list"
  x_outcomes :: "outcome list"
  x_store :: store

datatype flow = Go exec_state | Halt string exec_state

definition exn_show :: "pyexn \<Rightarrow> string" where
  "exn_show e = exn_name (exn_kind_of e) @ '': '' @ exn_text e"

definition skip_step :: "string \<Rightarrow> plan_step \<Rightarrow> string \<Rightarrow> exec_state \<Rightarrow> exec_state" where
  "skip_step rid s reason xs = xs\<lparr>
     x_store := checkpoint_step rid (ps_number s) (ps_tool s) (ps_args s)
       (PDict [(''skipped'', PStr reason)]) ''skipped'' (x_store xs),
     x_outcomes := x_outcomes xs @
       [\<lparr>oc_number = ps_number s, oc_tool = ps_tool s, oc_status = ''skipped'', oc_result = PNone,
         oc_error = None, oc_reason = Some reason\<rparr>],
     x_skipped := x_skipped xs @ [ps_number s]\<rparr>"

definition fail_step :: "string \<Rightarrow> plan_step \<Rightarrow> string \<Rightarrow> exec_state \<Rightarrow> flow" where
  "fail_step rid s err xs = Halt err (xs\<lparr>
     x_store := checkpoint_step rid (ps_number s) (ps_tool s) (ps_args s)
       (PDict [(''error'', PStr err)]) ''error'' (x_store xs),
     x_outcomes := x_outcomes xs @
       [\<lparr>oc_number = ps_number s, oc_tool = ps_tool s, oc_status = ''error'', oc_result = PNone,
         oc_error = Some err, oc_reason = None\<rparr>]\<rparr>)"

definition done_step :: "string \<Rightarrow> plan_step \<Rightarrow> pydict \<Rightarrow> pyval \<Rightarrow> exec_state \<Rightarrow> exec_state" where
  "done_step rid s resolved res xs = xs\<lparr>
     x_results := (x_results xs)(ps_number s \<mapsto> res),
     x_store := checkpoint_step rid (ps_number s) (ps_tool s) resolved res ''ok'' (x_store xs),
     x_outcomes := x_outcomes xs @
       [\<lparr>oc_number = ps_number s, oc_tool = ps_tool s, oc_status = ''ok'', oc_result = res,
         oc_error = None, oc_reason = None\<rparr>]\<rparr>"

text \<open>The guard: parsed, its reference resolved, compared.\<close>

definition eval_guard :: "string \<Rightarrow> pydict \<Rightarrow> (int \<Rightarrow> pyval option) \<Rightarrow> pyexn + bool" where
  "eval_guard w trigger results =
    and_then (parse_condition w) (\<lambda>c.
    and_then (resolve_value (PStr (c_ref c)) trigger results) (\<lambda>l.
    compare l (c_op c) (c_literal c)))"

definition blocked_by :: "plan_step \<Rightarrow> exec_state \<Rightarrow> int list" where
  "blocked_by s xs = remdups (filter (\<lambda>n. n \<in> set (x_skipped xs)) (referenced_steps s))"

definition show_ints :: "int list \<Rightarrow> string" where
  "show_ints ns = ''['' @ join '', '' (map str_int (sort ns)) @ '']''"

definition dispatch_step :: "validator \<Rightarrow> store registry \<Rightarrow> string \<Rightarrow> pydict \<Rightarrow> plan_step
    \<Rightarrow> exec_state \<Rightarrow> flow" where
  "dispatch_step validate reg rid trigger s xs =
    (case resolve_args (ps_args s) trigger (x_results xs) of
       Inl e \<Rightarrow> fail_step rid s (exn_show e) xs
     | Inr resolved \<Rightarrow>
        (case execute_tool validate reg (ps_tool s) resolved (x_store xs) of
           (Inl e, st) \<Rightarrow> fail_step rid s (exn_show e) (xs\<lparr>x_store := st\<rparr>)
         | (Inr res, st) \<Rightarrow> Go (done_step rid s resolved res (xs\<lparr>x_store := st\<rparr>))))"

definition run_step :: "validator \<Rightarrow> store registry \<Rightarrow> string \<Rightarrow> pydict \<Rightarrow> plan_step
    \<Rightarrow> exec_state \<Rightarrow> flow" where
  "run_step validate reg rid trigger s xs =
    (if blocked_by s xs \<noteq> []
     then Go (skip_step rid s (''depends on skipped step(s) '' @ show_ints (blocked_by s xs)) xs)
     else if has_when s
     then (case eval_guard (when_text s) trigger (x_results xs) of
             Inl e \<Rightarrow> fail_step rid s (''guard '' @ when_text s @ '': '' @ exn_show e) xs
           | Inr False \<Rightarrow> Go (skip_step rid s (''guard false: '' @ when_text s) xs)
           | Inr True \<Rightarrow> dispatch_step validate reg rid trigger s xs)
     else dispatch_step validate reg rid trigger s xs)"

section \<open>The run\<close>

fun run_steps :: "validator \<Rightarrow> store registry \<Rightarrow> string \<Rightarrow> pydict \<Rightarrow> plan_step list
    \<Rightarrow> exec_state \<Rightarrow> flow" where
  "run_steps validate reg rid trigger [] xs = Go xs"
| "run_steps validate reg rid trigger (s # ss) xs =
    (case run_step validate reg rid trigger s xs of
       Halt err xs' \<Rightarrow> Halt err xs'
     | Go xs' \<Rightarrow> run_steps validate reg rid trigger ss xs')"

definition exec_start :: "store \<Rightarrow> exec_state" where
  "exec_start st = \<lparr>x_results = (\<lambda>_. None), x_skipped = [], x_outcomes = [], x_store = st\<rparr>"

definition finish :: "string \<Rightarrow> string \<Rightarrow> workflow_state \<Rightarrow> string option \<Rightarrow> exec_state
    \<Rightarrow> (run_result, store) out" where
  "finish wid rid s err xs =
    seq (transition wid s (finish_run rid (state_value s) (x_store xs))) (\<lambda>_ st.
      (Inr \<lparr>rr_run_id = rid, rr_status = state_value s, rr_steps = x_outcomes xs, rr_error = err\<rparr>, st))"

definition execute :: "validator \<Rightarrow> store registry \<Rightarrow> string \<Rightarrow> workflow_plan \<Rightarrow> pydict option
    \<Rightarrow> string option \<Rightarrow> store \<Rightarrow> (run_result, store) out" where
  "execute validate reg wid plan payload key st =
    (let trigger = (case payload of None \<Rightarrow> [] | Some d \<Rightarrow> d)
     in seq (start_run wid key st) (\<lambda>rid st.
        seq (transition wid RUNNING st) (\<lambda>_ st.
          case run_steps validate reg rid trigger (sort_key ps_number (pl_steps plan)) (exec_start st) of
            Go xs \<Rightarrow> finish wid rid COMPLETED None xs
          | Halt err xs \<Rightarrow> finish wid rid FAILED (Some err) xs)))"

section \<open>The three ways a step ends\<close>

lemma run_step_cases [consumes 1, case_names skip fail finished]:
  assumes "run_step validate reg rid trigger s xs = f"
  obtains (skip) reason where "f = Go (skip_step rid s reason xs)"
      "blocked_by s xs \<noteq> [] \<or> has_when s \<and> eval_guard (when_text s) trigger (x_results xs) = Inr False"
  | (fail) err st where "f = fail_step rid s err (xs\<lparr>x_store := st\<rparr>)"
      "st = x_store xs \<or> (\<exists>a. st = snd (execute_tool validate reg (ps_tool s) a (x_store xs)))"
  | (finished) a res st where "f = Go (done_step rid s a res (xs\<lparr>x_store := st\<rparr>))"
      "resolve_args (ps_args s) trigger (x_results xs) = Inr a"
      "execute_tool validate reg (ps_tool s) a (x_store xs) = (Inr res, st)" "blocked_by s xs = []"
proof -
  have same: "xs = xs\<lparr>x_store := x_store xs\<rparr>" by simp
  have disp: thesis
    if d: "dispatch_step validate reg rid trigger s xs = f" and b: "blocked_by s xs = []"
  proof (cases "resolve_args (ps_args s) trigger (x_results xs)")
    case (Inl e)
    then have "f = fail_step rid s (exn_show e) (xs\<lparr>x_store := x_store xs\<rparr>)"
      using d by (simp add: dispatch_step_def)
    then show ?thesis by (rule fail) simp
  next
    case (Inr a)
    obtain r st where e: "execute_tool validate reg (ps_tool s) a (x_store xs) = (r, st)"
      by (cases "execute_tool validate reg (ps_tool s) a (x_store xs)")
    show ?thesis
    proof (cases r)
      case (Inl x)
      with Inr e d have "f = fail_step rid s (exn_show x) (xs\<lparr>x_store := st\<rparr>)"
        by (simp add: dispatch_step_def)
      then show ?thesis by (rule fail) (use e in \<open>auto intro: exI [of _ a]\<close>)
    next
      case (Inr x)
      with \<open>resolve_args _ _ _ = Inr a\<close> e d b show ?thesis
        by (intro finished) (auto simp: dispatch_step_def)
    qed
  qed
  show ?thesis
  proof (cases "blocked_by s xs = []")
    case False
    then have "f = Go (skip_step rid s (''depends on skipped step(s) '' @ show_ints (blocked_by s xs)) xs)"
      using assms by (simp add: run_step_def)
    then show ?thesis by (rule skip) (use False in simp)
  next
    case b: True
    show ?thesis
    proof (cases "has_when s")
      case False
      then show ?thesis using assms b disp by (simp add: run_step_def)
    next
      case w: True
      show ?thesis
      proof (cases "eval_guard (when_text s) trigger (x_results xs)")
        case (Inl e)
        then have "f = fail_step rid s (''guard '' @ when_text s @ '': '' @ exn_show e)
            (xs\<lparr>x_store := x_store xs\<rparr>)"
          using assms b w by (simp add: run_step_def)
        then show ?thesis by (rule fail) simp
      next
        case (Inr g)
        show ?thesis
        proof (cases g)
          case True
          then show ?thesis using Inr assms b w disp by (simp add: run_step_def)
        next
          case False
          then have "f = Go (skip_step rid s (''guard false: '' @ when_text s) xs)"
            using Inr assms b w by (simp add: run_step_def)
          then show ?thesis by (rule skip) (use False Inr w in simp)
        qed
      qed
    qed
  qed
qed

fun flow_state :: "flow \<Rightarrow> exec_state" where
  "flow_state (Go xs) = xs"
| "flow_state (Halt _ xs) = xs"

lemma run_steps_append:
  "run_steps v reg rid tr (ss @ ts) xs =
    (case run_steps v reg rid tr ss xs of Halt e xs' \<Rightarrow> Halt e xs' | Go xs' \<Rightarrow> run_steps v reg rid tr ts xs')"
  by (induction ss arbitrary: xs) (auto split: flow.split)

text \<open>An invariant of the loop state that every step keeps is kept by the run.\<close>

lemma run_steps_invariant:
  assumes "\<And>s xs. I xs \<Longrightarrow> I (flow_state (run_step v reg rid tr s xs))" "I xs"
  shows "I (flow_state (run_steps v reg rid tr ss xs))"
  using assms(2)
proof (induction ss arbitrary: xs)
  case (Cons s ss)
  have "I (flow_state (run_step v reg rid tr s xs))" using assms(1) Cons.prems .
  then show ?case using Cons.IH by (cases "run_step v reg rid tr s xs") auto
qed simp

section \<open>Stop on the first failure\<close>

definition good_outcome :: "outcome \<Rightarrow> bool" where
  "good_outcome out = (oc_status out = ''ok'' \<or> oc_status out = ''skipped'')"

lemma run_step_outcomes:
  "case run_step v reg rid tr s xs of
     Go xs' \<Rightarrow> \<exists>out. x_outcomes xs' = x_outcomes xs @ [out] \<and> oc_number out = ps_number s \<and> good_outcome out
   | Halt e xs' \<Rightarrow> \<exists>out. x_outcomes xs' = x_outcomes xs @ [out] \<and> oc_number out = ps_number s \<and>
       oc_status out = ''error'' \<and> oc_error out = Some e"
  using refl [of "run_step v reg rid tr s xs"]
  by (cases rule: run_step_cases)
    (auto simp: skip_step_def fail_step_def done_step_def good_outcome_def)

section \<open>Feasible references\<close>

text \<open>Every step behind us has a result or is skipped.\<close>

definition covered :: "int set \<Rightarrow> exec_state \<Rightarrow> bool" where
  "covered N xs = (\<forall>n\<in>N. x_results xs n \<noteq> None \<or> n \<in> set (x_skipped xs))"

lemma run_step_covered:
  assumes "run_step v reg rid tr s xs = Go xs'" "covered N xs"
  shows "covered (insert (ps_number s) N) xs'"
  using assms(1)
  by (cases rule: run_step_cases)
    (use assms(2) in \<open>auto simp: covered_def skip_step_def fail_step_def done_step_def\<close>)

lemma run_steps_covered:
  "run_steps v reg rid tr ss xs = Go xs' \<Longrightarrow> covered N xs \<Longrightarrow> covered (ps_number ` set ss \<union> N) xs'"
proof (induction ss arbitrary: xs N)
  case (Cons s ss)
  then obtain ys where "run_step v reg rid tr s xs = Go ys" "run_steps v reg rid tr ss ys = Go xs'"
    by (auto split: flow.splits)
  from Cons.IH [OF this(2) run_step_covered [OF this(1) Cons.prems(2)]] show ?case by simp
qed simp

lemma step_ok_refs:
  assumes "step_ok v reg valid s" "n \<in> set (referenced_steps s)"
  shows "n < ps_number s \<and> n \<in> valid"
proof -
  from assms(1) have args: "(k, w) \<in> set (ps_args s) \<Longrightarrow> is_ref_value w \<Longrightarrow>
      ref_ok (ps_number s) valid (str_of w)" for k w by (auto simp: step_ok_def)
  from assms(1) have wh: "when_ok (ps_number s) valid (ps_when s)" by (auto simp: step_ok_def)
  have tok: "n \<in> set (ref_steps t) \<Longrightarrow> ref_ok (ps_number s) valid t \<Longrightarrow> n < ps_number s \<and> n \<in> valid" for t
    by (cases "match_REF_RE t") (auto simp: ref_steps_def ref_ok_def split: ref_base.splits)
  from assms(2) consider k w where "(k, w) \<in> set (ps_args s)" "n \<in> set (arg_refs w)"
    | "n \<in> set (when_refs s)"
    by (auto simp: referenced_steps_def)
  then show ?thesis
  proof cases
    case 1
    then show ?thesis using tok args by (auto simp: arg_refs_def split: if_splits)
  next
    case 2
    then have h: "has_when s" by (cases "has_when s") (simp_all add: when_refs_def)
    obtain c where c: "parse_condition (when_text s) = Inr c" "n \<in> set (ref_steps (c_ref c))"
      using 2 h by (cases "parse_condition (when_text s)") (simp_all add: when_refs_def)
    have "ref_ok (ps_number s) valid (c_ref c)"
      using wh h c(1) by (cases "ps_when s") (auto simp: when_ok_def has_when_def when_text_def)
    then show ?thesis using tok c by blast
  qed
qed

lemma sorted_prefix_before:
  assumes "sort_key f xs = ys @ s # zs" "t \<in> set xs" "f t < (f s :: int)"
  shows "t \<in> set ys"
proof -
  have so: "sorted (map f (ys @ s # zs))" by (metis assms(1) sorted_sort_key)
  have "t \<in> set (ys @ s # zs)" by (metis assms(1,2) set_sort)
  moreover have "t \<notin> set (s # zs)" using so assms(3) by (auto simp: sorted_append)
  ultimately show ?thesis by simp
qed

section \<open>Recording the run\<close>

lemma get_run_update:
  assumes "\<And>r. r_run_id (f r) = r_run_id r"
  shows "get_run q (update_run rid f st) = map_option (\<lambda>r. if q = rid then f r else r) (get_run q st)"
proof -
  have "get_run q (update_run rid f st) =
      map_option (\<lambda>r. if r_run_id r = rid then f r else r) (get_run q st)"
    unfolding get_run_def update_run_def by (simp add: find_map_upd assms)
  moreover have "get_run q st = Some r \<Longrightarrow> r_run_id r = q" for r
    by (auto simp: get_run_def find_Some_iff)
  ultimately show ?thesis by (cases "get_run q st") auto
qed

lemma get_run_checkpoint:
  "get_run q (checkpoint_step rid n t a res s st) =
    map_option (\<lambda>r. if q = rid then r\<lparr>r_status := ''RUNNING''\<rparr> else r) (get_run q st)"
  by (simp add: checkpoint_step_def now_iso_def get_run_update) (simp add: get_run_def)

lemma get_run_finish:
  "get_run q (finish_run rid s st) = map_option (\<lambda>r. if q = rid
     then r\<lparr>r_status := s, r_finished_at := Some (clock st (tick st))\<rparr> else r) (get_run q st)"
  by (simp add: finish_run_def now_iso_def get_run_update) (simp add: get_run_def)

lemma get_run_transition: "get_run q (snd (transition wid to st)) = get_run q st"
  by (simp add: get_run_def transition_tables)

lemma find_append_None: "find P xs = None \<Longrightarrow> find P (xs @ ys) = find P ys"
  by (induction xs) (auto split: if_splits)

lemma start_run_get:
  assumes "fst (start_run wid k st) = Inr rid"
  shows "\<exists>r. get_run rid (snd (start_run wid k st)) = Some r \<and> r_workflow_id r = wid \<and> r_key r = k"
proof -
  let ?rid = "ids st (next_id st)"
  have ok: "rid = ?rid" "?rid \<notin> r_run_id ` set (runs st)"
    "runs (snd (start_run wid k st)) = runs st @ [\<lparr>r_run_id = ?rid, r_workflow_id = wid,
       r_started_at = clock st (tick st), r_finished_at = None, r_status = state_value RUNNING, r_key = k\<rparr>]"
    using assms by (auto simp: start_run_def new_id_def now_iso_def split: if_splits)
  then have "find (\<lambda>r. r_run_id r = ?rid) (runs st) = None"
    by (simp only: find_None_iff) (metis imageI)
  from find_append_None [OF this] show ?thesis by (simp add: get_run_def ok)
qed

section \<open>Registries whose tools leave the bookkeeping alone\<close>

text \<open>What the executor relies on in the tools it dispatches: a tool does not write the workflow
  table, the run table or the step table of the store.\<close>

locale quiet_registry =
  fixes reg :: "store registry"
  assumes quiet: "get_tool reg n = Some spec \<Longrightarrow>
    workflows (snd (t_execute spec a st)) = workflows st \<and> runs (snd (t_execute spec a st)) = runs st"
begin

lemma tool_workflows: "workflows (snd (execute_tool v reg n a st)) = workflows st"
  by (rule execute_tool_frame) (simp add: quiet)

lemma tool_runs: "runs (snd (execute_tool v reg n a st)) = runs st"
  by (rule execute_tool_frame) (simp add: quiet)

lemma run_step_frame:
  "workflows (x_store (flow_state (run_step v reg rid tr s xs))) = workflows (x_store xs) \<and>
   get_run q (x_store (flow_state (run_step v reg rid tr s xs))) =
     map_option (\<lambda>r. if q = rid then r\<lparr>r_status := ''RUNNING''\<rparr> else r) (get_run q (x_store xs))"
proof -
  have gr: "get_run q (snd (execute_tool v reg n a st)) = get_run q st" for n a st
    by (simp add: get_run_def tool_runs)
  have pair: "execute_tool v reg n a st = (y, st') \<Longrightarrow> st' = snd (execute_tool v reg n a st)"
    for n a st st' y by simp
  show ?thesis
    using refl [of "run_step v reg rid tr s xs"]
  proof (cases rule: run_step_cases)
    case (skip reason)
    then show ?thesis by (simp add: skip_step_def workflows_frame get_run_checkpoint)
  next
    case (fail err st)
    then have "workflows st = workflows (x_store xs) \<and> get_run q st = get_run q (x_store xs)"
      using tool_workflows gr by metis
    then show ?thesis using fail(1)
      by (simp add: fail_step_def workflows_frame get_run_checkpoint)
  next
    case (finished a res st)
    have "workflows st = workflows (x_store xs) \<and> get_run q st = get_run q (x_store xs)"
      using tool_workflows gr pair [OF finished(3)] by metis
    then show ?thesis using finished(1)
      by (simp add: done_step_def workflows_frame get_run_checkpoint)
  qed
qed

lemma run_steps_frame:
  assumes "get_run rid (x_store xs) = Some r"
  shows "workflows (x_store (flow_state (run_steps v reg rid tr ss xs))) = workflows (x_store xs) \<and>
    (\<exists>r'. get_run rid (x_store (flow_state (run_steps v reg rid tr ss xs))) = Some r' \<and>
      r_workflow_id r' = r_workflow_id r \<and> r_key r' = r_key r)"
proof -
  define I where "I ys = (workflows (x_store ys) = workflows (x_store xs) \<and>
      (\<exists>r'. get_run rid (x_store ys) = Some r' \<and> r_workflow_id r' = r_workflow_id r \<and> r_key r' = r_key r))"
    for ys :: exec_state
  have "I (flow_state (run_step v reg rid tr s ys))" if i: "I ys" for s ys
  proof -
    from i obtain r' where "get_run rid (x_store ys) = Some r'" "r_workflow_id r' = r_workflow_id r"
      "r_key r' = r_key r" "workflows (x_store ys) = workflows (x_store xs)" by (auto simp: I_def)
    then show ?thesis using run_step_frame [of v rid tr s ys rid] by (simp add: I_def)
  qed
  moreover have "I xs" using assms by (simp add: I_def)
  ultimately have "I (flow_state (run_steps v reg rid tr ss xs))" by (rule run_steps_invariant)
  then show ?thesis by (simp add: I_def)
qed

lemma finish_recorded:
  assumes "state_of (x_store xs) wid = Some RUNNING" "get_run rid (x_store xs) = Some r"
    "s = COMPLETED \<or> s = FAILED"
  shows "\<exists>rr st'. finish wid rid s err xs = (Inr rr, st') \<and> rr_status rr = state_value s \<and>
    rr_run_id rr = rid \<and> rr_steps rr = x_outcomes xs \<and> rr_error rr = err \<and>
    state_of st' wid = Some s \<and> (\<exists>r'. get_run rid st' = Some r' \<and> r_status r' = state_value s \<and>
      r_workflow_id r' = r_workflow_id r \<and> r_key r' = r_key r \<and> r_finished_at r' \<noteq> None)"
proof -
  let ?st = "finish_run rid (state_value s) (x_store xs)"
  have st: "state_of ?st wid = Some RUNNING"
    using assms(1) by (simp add: state_of_frame [of ?st "x_store xs"] workflows_frame)
  have ok: "fst (transition wid s ?st) = Inr ()"
    unfolding transition_ok_conv using st assms(3) by (auto simp: can_transition_def)
  then obtain st' where t: "transition wid s ?st = (Inr (), st')"
    by (cases "transition wid s ?st") auto
  have "state_of st' wid = Some s" using transition_state [of wid s ?st] t by simp
  moreover have "get_run rid st' = get_run rid ?st" using get_run_transition [of rid wid s ?st] t by simp
  ultimately show ?thesis using assms(2) t by (simp add: finish_def get_run_finish)
qed

text \<open>From READY, with a key that is free, the run always returns, and what it reports is what the
  store records.\<close>

lemma execute_recorded:
  assumes "store_inv st" "inj (ids st)" "state_of st wid = Some READY" "\<not> key_taken wid k st"
  shows "\<exists>rr st' r s. execute v reg wid plan payload k st = (Inr rr, st') \<and>
    s \<in> {COMPLETED, FAILED} \<and> rr_status rr = state_value s \<and> state_of st' wid = Some s \<and>
    get_run (rr_run_id rr) st' = Some r \<and> r_status r = state_value s \<and> r_workflow_id r = wid \<and>
    r_key r = k \<and> r_finished_at r \<noteq> None"
proof -
  from start_run_key [OF assms(1,2), of wid k] assms(4)
  obtain rid where rid: "fst (start_run wid k st) = Inr rid" by auto
  then obtain st1 where s1: "start_run wid k st = (Inr rid, st1)" by (cases "start_run wid k st") auto
  obtain r1 where r1: "get_run rid st1 = Some r1" "r_workflow_id r1 = wid" "r_key r1 = k"
    using start_run_get [OF rid] s1 by auto
  have "state_of st1 = state_of st"
    using s1 workflows_frame(2) [of wid k st] by (intro state_of_frame) simp
  then have rd: "state_of st1 wid = Some READY" using assms(3) by simp
  then have "fst (transition wid RUNNING st1) = Inr ()"
    by (simp add: transition_ok_conv can_transition_def)
  then obtain st2 where s2: "transition wid RUNNING st1 = (Inr (), st2)"
    by (cases "transition wid RUNNING st1") auto
  have run2: "state_of st2 wid = Some RUNNING" using transition_state [of wid RUNNING st1] s2 by simp
  have g2: "get_run rid (x_store (exec_start st2)) = Some r1"
    using get_run_transition [of rid wid RUNNING st1] s2 r1 by (simp add: exec_start_def)
  let ?tr = "case payload of None \<Rightarrow> [] | Some d \<Rightarrow> d"
  let ?f = "run_steps v reg rid ?tr (sort_key ps_number (pl_steps plan)) (exec_start st2)"
  obtain r where w: "workflows (x_store (flow_state ?f)) = workflows st2"
    and r: "get_run rid (x_store (flow_state ?f)) = Some r" "r_workflow_id r = wid" "r_key r = k"
    using run_steps_frame [OF g2, of v ?tr "sort_key ps_number (pl_steps plan)"] r1
    by (auto simp: exec_start_def)
  have run3: "state_of (x_store (flow_state ?f)) wid = Some RUNNING"
    using run2 state_of_frame [OF w] by simp
  let ?s = "case ?f of Go _ \<Rightarrow> COMPLETED | Halt _ _ \<Rightarrow> FAILED"
  let ?e = "case ?f of Go _ \<Rightarrow> None | Halt e _ \<Rightarrow> Some e"
  have ex: "execute v reg wid plan payload k st = finish wid rid ?s ?e (flow_state ?f)"
    by (cases ?f) (simp_all add: execute_def s1 s2)
  have "?s = COMPLETED \<or> ?s = FAILED" by (simp split: flow.split)
  from finish_recorded [OF run3 r(1) this, of ?e] show ?thesis
    unfolding ex using r(2,3) by (auto split: flow.split)
qed

end

section \<open>Properties\<close>

text \<open>What a halted and what a completed run consist of, step by step\<close>

inductive all_go :: "validator \<Rightarrow> store registry \<Rightarrow> string \<Rightarrow> pydict \<Rightarrow> plan_step list \<Rightarrow> exec_state \<Rightarrow> exec_state \<Rightarrow> bool"
  for v reg rid tr where
  none: "all_go v reg rid tr [] xs xs"
| one: "run_step v reg rid tr s xs = Go ys \<Longrightarrow> all_go v reg rid tr ss ys zs \<Longrightarrow> all_go v reg rid tr (s # ss) xs zs"

lemma run_steps_trace:
  "case run_steps v reg rid tr ss xs of
     Go zs \<Rightarrow> all_go v reg rid tr ss xs zs
   | Halt e zs \<Rightarrow> \<exists>pre s post ys. ss = pre @ s # post \<and> all_go v reg rid tr pre xs ys \<and> run_step v reg rid tr s ys = Halt e zs"
proof (induction ss arbitrary: xs)
  case (Cons s ss)
  show ?case
  proof (cases "run_step v reg rid tr s xs")
    case (Halt e zs)
    have "\<exists>pre t post ys. s # ss = pre @ t # post \<and> all_go v reg rid tr pre xs ys \<and> run_step v reg rid tr t ys = Halt e zs"
      by (rule exI [of _ "[]"], rule exI [of _ s], rule exI [of _ ss], rule exI [of _ xs]) (simp add: Halt all_go.none)
    then show ?thesis using Halt by simp
  next
    case (Go ys)
    show ?thesis
    proof (cases "run_steps v reg rid tr ss ys")
      case Go': (Go zs)
      then show ?thesis using Go Cons.IH [of ys] by (auto intro: all_go.one)
    next
      case (Halt e zs)
      then obtain pre t post us where "ss = pre @ t # post" "all_go v reg rid tr pre ys us" "run_step v reg rid tr t us = Halt e zs"
        using Cons.IH [of ys] by auto
      then have p: "s # ss = (s # pre) @ t # post \<and> all_go v reg rid tr (s # pre) xs us \<and> run_step v reg rid tr t us = Halt e zs"
        using all_go.one [OF Go] by simp
      have r: "run_steps v reg rid tr (s # ss) xs = Halt e zs" using Go Halt by simp
      show ?thesis unfolding r flow.case using p by blast
    qed
  qed
qed (auto intro: all_go.none)

lemma all_go_outcomes:
  "all_go v reg rid tr ss xs zs \<Longrightarrow>
    \<exists>os. x_outcomes zs = x_outcomes xs @ os \<and> map oc_number os = map ps_number ss \<and> list_all good_outcome os"
proof (induction rule: all_go.induct)
  case (one s xs ys ss zs)
  then obtain out os where "x_outcomes ys = x_outcomes xs @ [out]" "oc_number out = ps_number s" "good_outcome out"
    "x_outcomes zs = x_outcomes ys @ os" "map oc_number os = map ps_number ss" "list_all good_outcome os"
    using run_step_outcomes [where v = v and reg = reg and rid = rid and tr = tr and s = s and xs = xs] by auto
  then show ?case by (intro exI [of _ "out # os"]) simp
qed auto

lemma halted_recorded:
  assumes "run_step v reg rid tr s xs = Halt e zs"
  shows "\<exists>rows row. step_results (x_store zs) = rows @ [row] \<and> s_run_id row = rid \<and> s_step_number row = ps_number s \<and>
    s_tool_name row = ps_tool s \<and> s_status row = ''error'' \<and> s_result row = PDict [(''error'', PStr e)]"
  using assms by (cases rule: run_step_cases) (auto simp: fail_step_def checkpoint_step_def update_run_def now_iso_def)

text \<open>C12: A run stops at the first failure.  When the loop completes, it has gone through every step of the plan,
  in the order of their numbers, and each has one outcome, ok or skipped.  When it halts, the plan splits at one step:
  those before it went through, each with an outcome that is ok or skipped; that step failed with the error reported; and
  the run ends in the very state in which that step left it, store and outbox included, so that no step after it was
  dispatched.  The failed step is recorded in the table of step results, as the last row.\<close>

theorem stops_at_first_failure:
  "case run_steps v reg rid tr (sort_key ps_number steps) (exec_start st) of
     Go zs \<Rightarrow> all_go v reg rid tr (sort_key ps_number steps) (exec_start st) zs \<and>
       map oc_number (x_outcomes zs) = sort (map ps_number steps) \<and> list_all good_outcome (x_outcomes zs)
   | Halt e zs \<Rightarrow> \<exists>pre s post ys out rows row. sort_key ps_number steps = pre @ s # post \<and>
       all_go v reg rid tr pre (exec_start st) ys \<and> run_step v reg rid tr s ys = Halt e zs \<and>
       map oc_number (x_outcomes ys) = map ps_number pre \<and> list_all good_outcome (x_outcomes ys) \<and>
       x_outcomes zs = x_outcomes ys @ [out] \<and> oc_number out = ps_number s \<and> oc_status out = ''error'' \<and> oc_error out = Some e \<and>
       step_results (x_store zs) = rows @ [row] \<and> s_run_id row = rid \<and> s_step_number row = ps_number s \<and>
       s_status row = ''error'' \<and> s_result row = PDict [(''error'', PStr e)]"
proof -
  let ?ss = "sort_key ps_number steps"
  have m: "map ps_number ?ss = sort (map ps_number steps)"
    by (rule properties_for_sort [symmetric]) simp_all
  note t = run_steps_trace [where v = v and reg = reg and rid = rid and tr = tr and ss = ?ss and xs = "exec_start st"]
  show ?thesis
  proof (cases "run_steps v reg rid tr ?ss (exec_start st)")
    case (Go zs)
    then show ?thesis using t all_go_outcomes [of v reg rid tr ?ss "exec_start st" zs] by (auto simp: exec_start_def m)
  next
    case (Halt e zs)
    then obtain pre s post ys where r: "?ss = pre @ s # post" "all_go v reg rid tr pre (exec_start st) ys"
      "run_step v reg rid tr s ys = Halt e zs" using t by auto
    moreover have "map oc_number (x_outcomes ys) = map ps_number pre \<and> list_all good_outcome (x_outcomes ys)"
      using all_go_outcomes [OF r(2)] by (auto simp: exec_start_def)
    ultimately show ?thesis
      using Halt run_step_outcomes [where v = v and reg = reg and rid = rid and tr = tr and s = s and xs = ys] halted_recorded [OF r(3)]
      by simp blast
  qed
qed

text \<open>A step whose guard is not true, or that depends on a skipped step, dispatches nothing: its
  effect is the same whatever tools are registered, and no message reaches the outbox.\<close>

theorem guard_gates_dispatch:
  assumes "blocked_by s xs \<noteq> [] \<or>
    (has_when s \<and> eval_guard (when_text s) trigger (x_results xs) \<noteq> Inr True)"
  shows "run_step v reg rid trigger s xs = run_step v [] rid trigger s xs \<and>
    outbox_tbl (x_store (flow_state (run_step v reg rid trigger s xs))) = outbox_tbl (x_store xs) \<and>
    x_results (flow_state (run_step v reg rid trigger s xs)) = x_results xs"
proof (cases "blocked_by s xs = []")
  case False
  then show ?thesis
    by (simp add: run_step_def skip_step_def checkpoint_step_def now_iso_def update_run_def)
next
  case True
  with assms have w: "has_when s" "eval_guard (when_text s) trigger (x_results xs) \<noteq> Inr True" by auto
  show ?thesis
  proof (cases "eval_guard (when_text s) trigger (x_results xs)")
    case (Inl e)
    then show ?thesis using True w
      by (simp add: run_step_def fail_step_def checkpoint_step_def now_iso_def update_run_def)
  next
    case (Inr g)
    then show ?thesis using True w
      by (simp add: run_step_def skip_step_def checkpoint_step_def now_iso_def update_run_def)
  qed
qed

definition guarded_step :: plan_step where
  "guarded_step = \<lparr>ps_number = 2, ps_tool = ''slack_send_message'', ps_args = [], ps_rationale = ''r'',
     ps_when = Some ''$step_1.count >= 2''\<rparr>"

definition one_block :: exec_state where
  "one_block = \<lparr>x_results = (\<lambda>n. if n = 1 then Some (PDict [(''count'', PInt 1)]) else None),
     x_skipped = [], x_outcomes = [], x_store = empty_store (\<lambda>_. []) (\<lambda>_. [])\<rparr>"

theorem guard_gates_dispatch_witness:
  "outbox_tbl (x_store (flow_state (run_step (\<lambda>_ d. Inr d)
     [(''slack_send_message'', demo_tool ''slack_send_message'' ''d'')] ''r'' [] guarded_step one_block))) = []"
proof -
  have p: "parse_condition ''$step_1.count >= 2'' =
      Inr \<lparr>c_ref = ''$step_1.count'', c_op = Ge, c_literal = PInt 2\<rparr>" by code_simp
  have r: "match_REF_RE ''$step_1.count'' = Some \<lparr>ref_base = StepRef 1, ref_field = Some ''count''\<rparr>"
    by code_simp
  have "max_double_bound > 1"
  proof -
    have "(2::real) ^ 970 * 2 \<le> 2 ^ 970 * 2 ^ 54" by (intro mult_left_mono) simp_all
    moreover have "(1::real) < 2 ^ 970" by (rule one_less_power) simp_all
    moreover have "(2::real) ^ 1024 = 2 ^ 970 * 2 ^ 54" by (simp flip: power_add)
    ultimately show ?thesis unfolding max_double_bound_def by linarith
  qed
  then have "eval_guard (when_text guarded_step) [] (x_results one_block) = Inr False"
    by (simp add: eval_guard_def guarded_step_def when_text_def p r resolve_value_def resolve_ref_def
        one_block_def compare_def py_op_def)
  then have "has_when guarded_step \<and> eval_guard (when_text guarded_step) [] (x_results one_block) \<noteq> Inr True"
    by (simp add: has_when_def guarded_step_def)
  from guard_gates_dispatch [OF disjI2, OF this] show ?thesis
    by (simp add: one_block_def empty_store_def)
qed

text \<open>In a plan that passed the feasibility check, when a step is reached every step its
  arguments and its guard refer to has been executed with a result or was skipped, so that a
  reference can only fail on the content of a result, never on a step that has not come yet.\<close>

theorem feasible_references:
  assumes "fr_ok (check_plan zone_ok v reg plan)"
    and "sort_key ps_number (pl_steps plan) = before @ s # after"
    and "run_steps v reg rid tr before (exec_start st) = Go xs"
    and "n \<in> set (referenced_steps s)"
  shows "n < ps_number s \<and> (x_results xs n \<noteq> None \<or> n \<in> set (x_skipped xs))"
proof -
  have s: "s \<in> set (pl_steps plan)" by (metis assms(2) in_set_conv_decomp set_sort)
  have "plan_ok zone_ok v reg plan" using assms(1) check_plan_iff by blast
  then have "step_ok v reg (ps_number ` set (pl_steps plan)) s" using s by (auto simp: plan_ok_def)
  from step_ok_refs [OF this assms(4)] obtain t where n: "n < ps_number s" "t \<in> set (pl_steps plan)"
    "ps_number t = n" by auto
  have "t \<in> set before" by (rule sorted_prefix_before [OF assms(2) n(2)]) (use n in simp)
  moreover have "covered (ps_number ` set before \<union> {}) xs"
    by (rule run_steps_covered [OF assms(3)]) (simp add: covered_def)
  ultimately show ?thesis using n by (auto simp: covered_def)
qed

definition two_steps :: workflow_plan where
  "two_steps = demo_plan\<lparr>pl_steps :=
     [\<lparr>ps_number = 2, ps_tool = ''b'', ps_args = [(''x'', PStr ''$step_1'')], ps_rationale = ''r'',
       ps_when = None\<rparr>,
      \<lparr>ps_number = 1, ps_tool = ''a'', ps_args = [], ps_rationale = ''r'', ps_when = None\<rparr>]\<rparr>"

definition two_tools :: "store registry" where
  "two_tools = [(''a'', demo_tool ''a'' ''d''), (''b'', (demo_tool ''b'' ''d'')\<lparr>t_schema :=
     [\<lparr>f_name = ''x'', f_annotation = TStr, f_default = None, f_ge = None, f_le = None\<rparr>]\<rparr>)]"

theorem feasible_references_witness:
  "\<exists>xs. run_steps (\<lambda>_ d. Inr d) two_tools ''r'' [] [pl_steps two_steps ! 1]
      (exec_start (empty_store (\<lambda>_. []) (\<lambda>_. []))) = Go xs \<and> 1 \<in> dom (x_results xs) \<union> set (x_skipped xs)"
proof -
  let ?st = "empty_store (\<lambda>_. []) (\<lambda>_. [])"
  have m: "match_REF_RE ''$step_1'' = Some \<lparr>ref_base = StepRef 1, ref_field = None\<rparr>" by code_simp
  have ok: "fr_ok (check_plan (\<lambda>_. True) (\<lambda>_ d. Inr d) two_tools two_steps)"
    by (simp add: check_plan_def two_steps_def demo_plan_def two_tools_def plan_errors_def max_plan_steps_def
        check_step_def get_tool_def demo_tool_def allowed_tool_categories_def check_when_def check_ref_def m)
  have srt: "sort_key ps_number (pl_steps two_steps) = [pl_steps two_steps ! 1] @ pl_steps two_steps ! 0 # []"
    by (simp add: two_steps_def)
  have nb: "blocked_by (pl_steps two_steps ! 1) (exec_start ?st) = []"
    by (simp add: blocked_by_def exec_start_def)
  obtain xs where xs: "run_steps (\<lambda>_ d. Inr d) two_tools ''r'' [] [pl_steps two_steps ! 1] (exec_start ?st) = Go xs"
    using nb by (simp add: run_step_def has_when_def dispatch_step_def two_steps_def execute_tool_def
        two_tools_def get_tool_def demo_tool_def)
  have "1 \<in> set (referenced_steps (pl_steps two_steps ! 0))"
    by (simp add: referenced_steps_def two_steps_def arg_refs_def ref_steps_def m)
  from feasible_references [OF ok srt xs this] xs show ?thesis by auto
qed

end
