(* ===== verification/Datetime.thy ===== *)
theory Datetime
  imports Py_Strings
begin

text \<open>
  The part of Python's \<open>datetime\<close> that the scheduler and the report catalogue use: proleptic
  Gregorian ordinals, subtraction of whole hours and days, ISO weeks, and the ISO text of a date and
  time.  The lemmas tie subtraction to the ordinals and show that the ISO week is a function of the
  Monday it starts with, one to one.
\<close>

section \<open>Dates\<close>

record date =
  year :: int
  month :: int
  day :: int

record datetime = date +
  hour :: int
  minute :: int
  second :: int
  microsecond :: int
  utcoffset :: "int option"

definition leap :: "int \<Rightarrow> bool" where
  "leap y = (y mod 4 = 0 \<and> (y mod 100 \<noteq> 0 \<or> y mod 400 = 0))"

definition days_in_month :: "int \<Rightarrow> int \<Rightarrow> int" where
  "days_in_month y m =
    (if m = 2 then (if leap y then 29 else 28) else if m \<in> {4, 6, 9, 11} then 30 else 31)"

definition days_before_year :: "int \<Rightarrow> int" where
  "days_before_year y = (y - 1) * 365 + (y - 1) div 4 - (y - 1) div 100 + (y - 1) div 400"

definition cum_days :: "int \<Rightarrow> int" where
  "cum_days m = [0, 31, 59, 90, 120, 151, 181, 212, 243, 273, 304, 334] ! nat (m - 1)"

definition days_before_month :: "int \<Rightarrow> int \<Rightarrow> int" where
  "days_before_month y m = cum_days m + (if 2 < m \<and> leap y then 1 else 0)"

text \<open>\<open>_ymd2ord\<close>\<close>

definition ymd_ord :: "int \<Rightarrow> int \<Rightarrow> int \<Rightarrow> int" where
  "ymd_ord y m d = days_before_year y + days_before_month y m + d"

definition ordinal :: "'a date_scheme \<Rightarrow> int" where
  "ordinal d = ymd_ord (year d) (month d) (day d)"

definition valid_date :: "'a date_scheme \<Rightarrow> bool" where
  "valid_date d = (1 \<le> year d \<and> year d \<le> 9999 \<and> 1 \<le> month d \<and> month d \<le> 12 \<and>
     1 \<le> day d \<and> day d \<le> days_in_month (year d) (month d))"

definition valid_datetime :: "datetime \<Rightarrow> bool" where
  "valid_datetime t = (valid_date t \<and> 0 \<le> hour t \<and> hour t < 24 \<and> 0 \<le> minute t \<and> minute t < 60 \<and>
     0 \<le> second t \<and> second t < 60 \<and> 0 \<le> microsecond t \<and> microsecond t < 1000000)"

definition prev_day :: "datetime \<Rightarrow> datetime" where
  "prev_day t =
    (if 1 < day t then t\<lparr>day := day t - 1\<rparr>
     else if 1 < month t
     then t\<lparr>month := month t - 1, day := days_in_month (year t) (month t - 1)\<rparr>
     else t\<lparr>year := year t - 1, month := 12, day := 31\<rparr>)"

definition prev_hour :: "datetime \<Rightarrow> datetime" where
  "prev_hour t = (if 0 < hour t then t\<lparr>hour := hour t - 1\<rparr> else (prev_day t)\<lparr>hour := 23\<rparr>)"

text \<open>\<open>t - timedelta(days=n)\<close> before the range check on the year.\<close>

fun minus_days :: "nat \<Rightarrow> datetime \<Rightarrow> datetime" where
  "minus_days 0 t = t"
| "minus_days (Suc n) t = minus_days n (prev_day t)"

lemma month_cases:
  assumes "1 \<le> (m :: int)" "m \<le> 12"
  obtains "m = 1" | "m = 2" | "m = 3" | "m = 4" | "m = 5" | "m = 6" | "m = 7" | "m = 8" | "m = 9"
    | "m = 10" | "m = 11" | "m = 12"
proof -
  have "m = 1 \<or> m = 2 \<or> m = 3 \<or> m = 4 \<or> m = 5 \<or> m = 6 \<or> m = 7 \<or> m = 8 \<or> m = 9 \<or> m = 10
    \<or> m = 11 \<or> m = 12"
    using assms by presburger
  then show ?thesis using that by blast
qed

lemma days_before_year_step:
  "days_before_year (y + 1) = days_before_year y + (if leap y then 366 else 365)"
proof -
  have d: "(y :: int) div k = (y - 1) div k + (if y mod k = 0 then 1 else 0)" if "1 < k" for k
  proof (cases "y mod k = 0")
    case True
    then obtain q where q: "y = k * q" by auto
    have "y - 1 = (k - 1) + k * (q - 1)" using q by (simp add: algebra_simps)
    then have "(y - 1) div k = ((k - 1) + k * (q - 1)) div k" by (rule arg_cong)
    also have "\<dots> = (q - 1) + (k - 1) div k" using that by (intro div_mult_self2) simp
    also have "(k - 1) div k = 0" using that by (intro div_pos_pos_trivial) auto
    finally show ?thesis using q that by simp
  next
    case False
    have "0 \<le> y mod k" "y mod k < k" using that by (simp_all add: pos_mod_sign pos_mod_bound)
    with False have r: "0 < y mod k" "y mod k < k" by auto
    have "y = y mod k + k * (y div k)" by simp
    then have "y - 1 = (y mod k - 1) + k * (y div k)" by linarith
    then have "(y - 1) div k = ((y mod k - 1) + k * (y div k)) div k" by (rule arg_cong)
    also have "\<dots> = y div k + (y mod k - 1) div k" using that by (intro div_mult_self2) simp
    finally have "(y - 1) div k = y div k + (y mod k - 1) div k" .
    moreover have "(y mod k - 1) div k = 0" using r by (intro div_pos_pos_trivial) auto
    ultimately show ?thesis using False by simp
  qed
  have imp: "y mod 400 = 0 \<Longrightarrow> y mod 100 = 0" "y mod 100 = 0 \<Longrightarrow> y mod 4 = 0"
    by (auto simp: mod_eq_0_iff_dvd intro: dvd_trans)
  define p4 p100 p400 where p: "p4 = (y - 1) div 4" "p100 = (y - 1) div 100" "p400 = (y - 1) div 400"
  have e: "y div 4 = p4 + (if y mod 4 = 0 then 1 else 0)"
    "y div 100 = p100 + (if y mod 100 = 0 then 1 else 0)"
    "y div 400 = p400 + (if y mod 400 = 0 then 1 else 0)"
    unfolding p by (rule d, simp)+
  have "y + 1 - 1 = y" by simp
  then have "days_before_year (y + 1) = y * 365 + y div 4 - y div 100 + y div 400"
    by (simp only: days_before_year_def)
  moreover have "days_before_year y = (y - 1) * 365 + p4 - p100 + p400"
    by (simp only: days_before_year_def p)
  moreover define a4 a100 a400 where "a4 = (if y mod 4 = 0 then 1 else 0 :: int)"
    "a100 = (if y mod 100 = 0 then 1 else 0 :: int)" "a400 = (if y mod 400 = 0 then 1 else 0 :: int)"
  moreover have "a4 - a100 + a400 = (if leap y then 1 else 0)"
    using imp unfolding leap_def calculation(3-) by presburger
  ultimately show ?thesis unfolding e by (cases "leap y") simp_all
qed

lemma ordinal_prev_day:
  assumes "valid_date t"
  shows "ordinal (prev_day t) = ordinal t - 1"
proof (cases "1 < day t")
  case True
  then show ?thesis by (simp add: prev_day_def ordinal_def ymd_ord_def)
next
  case False
  then have d: "day t = 1" using assms by (simp add: valid_date_def)
  show ?thesis
  proof (cases "1 < month t")
    case True
    have "1 \<le> month t" "month t \<le> 12" using assms by (auto simp: valid_date_def)
    then show ?thesis using True d
      by (cases rule: month_cases)
        (simp_all add: prev_day_def ordinal_def ymd_ord_def days_before_month_def cum_days_def
          days_in_month_def)
  next
    case False
    then have m: "month t = 1" using assms by (simp add: valid_date_def)
    show ?thesis using d m days_before_year_step [of "year t - 1"]
      by (simp add: prev_day_def ordinal_def ymd_ord_def days_before_month_def cum_days_def)
  qed
qed

lemma days_in_month_bounds: "28 \<le> days_in_month y m" "days_in_month y m \<le> 31"
  by (auto simp: days_in_month_def)

lemma valid_prev_day:
  assumes "valid_datetime t" "1 < year t"
  shows "valid_datetime (prev_day t)" "year t - 1 \<le> year (prev_day t)" "hour (prev_day t) = hour t"
    "minute (prev_day t) = minute t" "second (prev_day t) = second t"
  using assms days_in_month_bounds [of "year t" "month t - 1"]
  by (auto simp: prev_day_def valid_datetime_def valid_date_def)
    (auto simp: days_in_month_def)

section \<open>ISO weeks\<close>

definition week1_monday :: "int \<Rightarrow> int" where
  "week1_monday y =
    (let firstday = ymd_ord y 1 1; firstweekday = (firstday + 6) mod 7; m = firstday - firstweekday
     in if 3 < firstweekday then m + 7 else m)"

definition isocalendar :: "'a date_scheme \<Rightarrow> int \<times> int" where
  "isocalendar d =
    (let y = year d; today = ordinal d; week = (today - week1_monday y) div 7
     in if week < 0 then (y - 1, (today - week1_monday (y - 1)) div 7 + 1)
        else if 52 \<le> week \<and> week1_monday (y + 1) \<le> today then (y + 1, 1)
        else (y, week + 1))"

definition monday_of :: "int \<Rightarrow> int" where
  "monday_of n = n - (n + 6) mod 7"

lemma week1_monday_facts:
  "(week1_monday y + 6) mod 7 = 0" "days_before_year y - 2 \<le> week1_monday y"
  "week1_monday y \<le> days_before_year y + 4"
proof -
  let ?f = "ymd_ord y 1 1"
  have f: "?f = days_before_year y + 1"
    by (simp add: ymd_ord_def days_before_month_def cum_days_def)
  let ?r = "(?f + 6) mod 7"
  have r: "0 \<le> ?r" "?r < 7" by simp_all
  have w: "week1_monday y = ?f - ?r + (if 3 < ?r then 7 else 0)"
    by (simp add: week1_monday_def Let_def)
  show "days_before_year y - 2 \<le> week1_monday y" "week1_monday y \<le> days_before_year y + 4"
    using r by (auto simp: w f)
  have z: "(?f - ?r + 6) mod 7 = 0"
  proof -
    have "?f - ?r + 6 = 7 * ((?f + 6) div 7)" by (simp add: minus_mod_eq_mult_div [symmetric] algebra_simps)
    then show ?thesis by simp
  qed
  moreover have "(?f - ?r + 7 + 6) mod 7 = (?f - ?r + 6) mod 7"
  proof -
    have "?f - ?r + 7 + 6 = (?f - ?r + 6) + 7" by linarith
    then show ?thesis by (metis mod_add_self2)
  qed
  ultimately show "(week1_monday y + 6) mod 7 = 0" by (auto simp: w)
qed

lemma week1_monday_step: "week1_monday y + 364 \<le> week1_monday (y + 1)"
proof -
  have "week1_monday y + 359 \<le> week1_monday (y + 1)"
    using week1_monday_facts(2) [of "y + 1"] week1_monday_facts(3) [of y] days_before_year_step [of y]
    by (simp split: if_splits)
  moreover have "\<exists>k. week1_monday (y + 1) - week1_monday y = 7 * k"
  proof -
    obtain a where "week1_monday (y + 1) + 6 = 7 * a"
      using week1_monday_facts(1) [of "y + 1"] unfolding mod_eq_0_iff_dvd by (rule dvdE)
    moreover obtain b where "week1_monday y + 6 = 7 * b"
      using week1_monday_facts(1) [of y] unfolding mod_eq_0_iff_dvd by (rule dvdE)
    ultimately show ?thesis by (intro exI [of _ "a - b"]) simp
  qed
  ultimately show ?thesis by presburger
qed

lemma week1_monday_mono: "y < y' \<Longrightarrow> week1_monday (y + 1) \<le> week1_monday y'"
proof (induction "nat (y' - y)" arbitrary: y')
  case (Suc n)
  show ?case
  proof (cases "y' = y + 1")
    case False
    then have "week1_monday (y + 1) \<le> week1_monday (y' - 1)"
      using Suc by (intro Suc.hyps(1)) auto
    then show ?thesis using week1_monday_step [of "y' - 1"] by simp
  qed simp
qed simp

lemma ordinal_in_year:
  assumes "valid_date d"
  shows "days_before_year (year d) < ordinal d" "ordinal d \<le> days_before_year (year d + 1)"
proof -
  have "1 \<le> month d" "month d \<le> 12" using assms by (auto simp: valid_date_def)
  then have "0 < days_before_month (year d) (month d) + day d \<and>
      days_before_month (year d) (month d) + day d \<le> (if leap (year d) then 366 else 365)"
    using assms
    by (cases rule: month_cases) (auto simp: valid_date_def days_before_month_def cum_days_def
        days_in_month_def split: if_splits)
  then show "days_before_year (year d) < ordinal d" "ordinal d \<le> days_before_year (year d + 1)"
    by (auto simp: ordinal_def ymd_ord_def days_before_year_step)
qed

lemma isocalendar_bracket:
  assumes "valid_date d" "isocalendar d = (Y, w)"
  shows "week1_monday Y \<le> ordinal d" "ordinal d < week1_monday (Y + 1)"
    "w = (ordinal d - week1_monday Y) div 7 + 1"
proof -
  let ?y = "year d" and ?n = "ordinal d"
  let ?k = "(?n - week1_monday ?y) div 7"
  note o = ordinal_in_year [OF assms(1)]
  note f = week1_monday_facts
  have e: "(?y - 1) + 1 = ?y" by simp
  note sp = days_before_year_step [of "?y - 1", unfolded e] days_before_year_step [of "?y + 1"]
  consider "?k < 0" | "52 \<le> ?k" "week1_monday (?y + 1) \<le> ?n"
    | "0 \<le> ?k" "\<not> (52 \<le> ?k \<and> week1_monday (?y + 1) \<le> ?n)" by linarith
  then have "week1_monday Y \<le> ?n \<and> ?n < week1_monday (Y + 1) \<and> w = (?n - week1_monday Y) div 7 + 1"
  proof cases
    case 1
    then have "isocalendar d = (?y - 1, (?n - week1_monday (?y - 1)) div 7 + 1)"
      by (simp add: isocalendar_def Let_def)
    then have y: "Y = ?y - 1" "w = (?n - week1_monday (?y - 1)) div 7 + 1"
      using assms(2) by (metis prod.inject)+
    have "?n < week1_monday ?y" using 1 by simp
    moreover have "week1_monday (?y - 1) \<le> ?n"
      using o(1) f(3) [of "?y - 1"] sp(1) by (simp split: if_splits)
    ultimately show ?thesis unfolding y by simp
  next
    case 2
    then have y: "Y = ?y + 1" "w = 1" using assms(2) by (simp_all add: isocalendar_def Let_def)
    have "?n \<le> week1_monday (?y + 1) + 3"
      using o(2) f(2) [of "?y + 1"] by linarith
    moreover from this have "(?n - week1_monday (?y + 1)) div 7 = 0"
      using 2(2) by (intro div_pos_pos_trivial) auto
    moreover have "week1_monday (?y + 1) + 364 \<le> week1_monday (?y + 1 + 1)" by (rule week1_monday_step)
    ultimately show ?thesis unfolding y using 2(2) by simp
  next
    case 3
    then have y: "Y = ?y" "w = ?k + 1"
      using assms(2) by (auto simp: isocalendar_def Let_def split: if_splits)
    have "week1_monday ?y \<le> ?n" using 3(1) by simp
    moreover have "?n < week1_monday (?y + 1)"
    proof (rule ccontr)
      assume "\<not> ?n < week1_monday (?y + 1)"
      then have "364 \<le> ?n - week1_monday ?y" using week1_monday_step [of ?y] by linarith
      then have "364 div 7 \<le> ?k" by (rule zdiv_mono1) simp
      then show False using 3(2) \<open>\<not> ?n < week1_monday (?y + 1)\<close> by simp
    qed
    ultimately show ?thesis unfolding y by simp
  qed
  then show "week1_monday Y \<le> ordinal d" "ordinal d < week1_monday (Y + 1)"
    "w = (ordinal d - week1_monday Y) div 7 + 1" by auto
qed

lemma monday_of_week: "monday_of n = week1_monday y + 7 * ((n - week1_monday y) div 7)"
proof -
  obtain b where b: "week1_monday y + 6 = 7 * b"
    using week1_monday_facts(1) [of y] unfolding mod_eq_0_iff_dvd by (rule dvdE)
  have "n + 6 = (n - week1_monday y) + 7 * b" using b by simp
  then have "(n + 6) mod 7 = (n - week1_monday y) mod 7" by (simp only: mod_mult_self2)
  then show ?thesis by (simp add: monday_of_def minus_mod_eq_mult_div [symmetric])
qed

lemma monday_bracket:
  "week1_monday y \<le> n \<Longrightarrow> week1_monday y \<le> monday_of n"
  "n < week1_monday y \<Longrightarrow> monday_of n < week1_monday y"
  by (auto simp: monday_of_week [of n y])

lemma isocalendar_monday:
  assumes "valid_date a" "valid_date b"
  shows "isocalendar a = isocalendar b \<longleftrightarrow> monday_of (ordinal a) = monday_of (ordinal b)"
proof -
  obtain Y w where a: "isocalendar a = (Y, w)" by (cases "isocalendar a")
  obtain Z v where b: "isocalendar b = (Z, v)" by (cases "isocalendar b")
  note A = isocalendar_bracket [OF assms(1) a]
  note B = isocalendar_bracket [OF assms(2) b]
  have "Y = Z" if m: "monday_of (ordinal a) = monday_of (ordinal b)"
  proof (rule ccontr)
    assume "Y \<noteq> Z"
    then consider "Y < Z" | "Z < Y" by linarith
    then show False
      using week1_monday_mono [of Y Z] week1_monday_mono [of Z Y] monday_bracket(1) [OF A(1)]
        monday_bracket(2) [OF A(2)] monday_bracket(1) [OF B(1)] monday_bracket(2) [OF B(2)] m
      by cases auto
  qed
  then show ?thesis
    using A(3) B(3) a b monday_of_week [of "ordinal a" Y] monday_of_week [of "ordinal b" Z] by auto
qed

section \<open>ISO texts\<close>

definition date_text :: "'a date_scheme \<Rightarrow> string" where
  "date_text d = pad 4 (nat (year d)) @ ''-'' @ pad 2 (nat (month d)) @ ''-'' @ pad 2 (nat (day d))"

text \<open>\<open>isoformat(timespec="seconds")\<close> of a naive datetime\<close>

definition iso_seconds :: "datetime \<Rightarrow> string" where
  "iso_seconds t = date_text t @ ''T'' @ pad 2 (nat (hour t)) @ '':'' @ pad 2 (nat (minute t)) @
     '':'' @ pad 2 (nat (second t))"

text \<open>\<open>isoformat()\<close>: microseconds when there are any, then the offset from UTC (in minutes).\<close>

definition offset_text :: "int \<Rightarrow> string" where
  "offset_text off = (if off < 0 then ''-'' else ''+'') @ pad 2 (nat (\<bar>off\<bar> div 60)) @ '':'' @
     pad 2 (nat (\<bar>off\<bar> mod 60))"

definition isoformat :: "datetime \<Rightarrow> string" where
  "isoformat t = iso_seconds t @
     (if microsecond t = 0 then [] else ''.'' @ pad 6 (nat (microsecond t))) @
     (case utcoffset t of None \<Rightarrow> [] | Some off \<Rightarrow> offset_text off)"

lemma pad_eq_iff: "pad w m = pad w n \<longleftrightarrow> m = n"
  by (metis nat_of_digits_pad)

lemma date_text_eq_iff:
  assumes "valid_date a" "valid_date b"
  shows "date_text a = date_text b \<longleftrightarrow> year a = year b \<and> month a = month b \<and> day a = day b"
proof -
  have l: "length (pad 4 (nat (year d))) = 4" "length (pad 2 (nat (month d))) = 2"
    "length (pad 2 (nat (day d))) = 2" if "valid_date d" for d :: "'c date_scheme"
    using that days_in_month_bounds(2) [of "year d" "month d"]
    by (auto simp: valid_date_def intro!: length_pad)
  show ?thesis
    using assms l [OF assms(1)] l [OF assms(2)]
    by (auto simp: date_text_def pad_eq_iff valid_date_def)
qed

lemma length_date_text: "valid_date d \<Longrightarrow> length (date_text d) = 10"
  using days_in_month_bounds(2) [of "year d" "month d"]
  by (auto simp: date_text_def valid_date_def length_pad)

end
