(* ===== verification/Scheduler.thy ===== *)
theory Scheduler
  imports Executor Datetime
begin

text \<open>
  \<open>workflow_engine/scheduler.py\<close>: the window and the idempotency key of a fire, arming, registration
  of jobs, and the fire itself.

  What is not under the source tree is in the record \<open>sched_env\<close>: the pydantic codecs of plans and
  schedules, the APScheduler trigger's next fire time, the JSON encoder, and argument validation.
  The job table of a started BackgroundScheduler is the association list of job ids and schedules;
  a runtime that was not started has none.
\<close>

record sched_env =
  e_validate :: validator
  e_load_plan :: "string \<Rightarrow> pyexn + workflow_plan"
  e_dump_plan :: "workflow_plan \<Rightarrow> string"
  e_load_schedule :: "string \<Rightarrow> pyexn + schedule"
  e_dump_schedule :: "schedule \<Rightarrow> string"
  e_next_fire :: "schedule \<Rightarrow> pyexn + string option"
  e_dumps :: "pyval \<Rightarrow> string"

section \<open>Window and key\<close>

definition window_start :: "string \<Rightarrow> datetime \<Rightarrow> datetime" where
  "window_start f t =
    (if f = ''hourly'' then prev_hour t
     else if f = ''daily'' then minus_days 1 t
     else if f = ''weekly'' then minus_days 7 t
     else minus_days 1 t)"

definition naive :: "datetime \<Rightarrow> datetime" where
  "naive t = t\<lparr>utcoffset := None\<rparr>"

definition compute_window :: "string \<Rightarrow> datetime \<Rightarrow> pyexn + string \<times> string" where
  "compute_window f fire_dt =
    (let end_dt = naive fire_dt; start = window_start f end_dt
     in if year start < 1 then Inl (Exn (OtherExn ''OverflowError'') ''date value out of range'')
        else Inr (iso_seconds start, iso_seconds end_dt))"

definition run_key :: "string \<Rightarrow> datetime \<Rightarrow> string" where
  "run_key f t = f @ '':'' @
    (if f = ''hourly'' then date_text t @ ''T'' @ pad 2 (nat (hour t))
     else if f = ''weekly''
     then (case isocalendar t of (y, w) \<Rightarrow> str_int y @ ''-W'' @ pad 2 (nat w))
     else date_text t)"

section \<open>Arming\<close>

definition arm_for_run :: "string \<Rightarrow> store \<Rightarrow> (unit, store) out" where
  "arm_for_run wid st =
    (case get_workflow wid st of
       None \<Rightarrow> (Inl (Exn TypeError ''NoneType object is not subscriptable''), st)
     | Some r \<Rightarrow>
        if w_state r = READY then (Inr (), st)
        else if w_state r \<in> {FEASIBLE, COMPLETED, FAILED} then transition wid READY st
        else (Inl (Exn RuntimeError (''workflow in state '' @ state_value (w_state r) @
               '' cannot be armed for a scheduled run'')), st))"

section \<open>Registration\<close>

type_synonym jobs = "(string \<times> schedule) list"

record runtime =
  rt_store :: store
  rt_jobs :: "jobs option"

definition lift_store :: "runtime \<Rightarrow> ('a, store) out \<Rightarrow> ('a, runtime) out" where
  "lift_store rt r = (fst r, rt\<lparr>rt_store := snd r\<rparr>)"

definition add_job :: "string \<Rightarrow> schedule \<Rightarrow> runtime \<Rightarrow> runtime" where
  "add_job wid sc rt = rt\<lparr>rt_jobs := map_option (AList.update wid sc) (rt_jobs rt)\<rparr>"

definition remove_job :: "string \<Rightarrow> runtime \<Rightarrow> runtime" where
  "remove_job wid rt = rt\<lparr>rt_jobs := map_option (AList.delete wid) (rt_jobs rt)\<rparr>"

definition register_job :: "sched_env \<Rightarrow> string \<Rightarrow> schedule \<Rightarrow> runtime \<Rightarrow> (unit, runtime) out" where
  "register_job env wid sc rt =
    (case e_next_fire env sc of
       Inl e \<Rightarrow> (Inl e, rt)
     | Inr t \<Rightarrow>
        seq (lift_store rt (set_next_run wid t (rt_store rt))) (\<lambda>_ rt. (Inr (), add_job wid sc rt)))"

definition load_schedule_of :: "sched_env \<Rightarrow> wf_row \<Rightarrow> pyexn + schedule" where
  "load_schedule_of env r =
    (case w_schedule_json r of
       None \<Rightarrow> Inl (Exn ValidationError ''JSON input should be string, bytes or bytearray'')
     | Some j \<Rightarrow> e_load_schedule env j)"

text \<open>The loop of \<open>reload\<close> over the rows of the query: a bad schedule is skipped.\<close>

fun reload_rows :: "sched_env \<Rightarrow> wf_row list \<Rightarrow> nat \<Rightarrow> runtime \<Rightarrow> (nat, runtime) out" where
  "reload_rows env [] n rt = (Inr n, rt)"
| "reload_rows env (r # rs) n rt =
    (case load_schedule_of env r of
       Inl _ \<Rightarrow> reload_rows env rs n rt
     | Inr sc \<Rightarrow> seq (register_job env (w_id r) sc rt) (\<lambda>_ rt. reload_rows env rs (Suc n) rt))"

definition reload :: "sched_env \<Rightarrow> runtime \<Rightarrow> (nat, runtime) out" where
  "reload env rt = reload_rows env (scheduled_workflows False (rt_store rt)) 0 rt"

definition start_runtime :: "sched_env \<Rightarrow> runtime \<Rightarrow> (nat, runtime) out" where
  "start_runtime env rt =
    reload env (rt\<lparr>rt_jobs := Some (case rt_jobs rt of None \<Rightarrow> [] | Some j \<Rightarrow> j)\<rparr>)"

definition shutdown_runtime :: "runtime \<Rightarrow> runtime" where
  "shutdown_runtime rt = rt\<lparr>rt_jobs := None\<rparr>"

definition schedule_workflow :: "sched_env \<Rightarrow> string \<Rightarrow> schedule \<Rightarrow> runtime
    \<Rightarrow> (string option, runtime) out" where
  "schedule_workflow env wid sc rt =
    seq (register_job env wid sc rt) (\<lambda>_ rt.
      case get_workflow wid (rt_store rt) of
        None \<Rightarrow> (Inl (Exn (OtherExn ''AttributeError'') ''NoneType object has no attribute get''), rt)
      | Some r \<Rightarrow> (Inr (w_next_run_at r), rt))"

definition pause_job :: "string \<Rightarrow> runtime \<Rightarrow> (unit, runtime) out" where
  "pause_job wid rt =
    seq (lift_store rt (set_paused wid True (rt_store rt))) (\<lambda>_ rt.
      let rt = remove_job wid rt
      in lift_store rt (set_next_run wid None (rt_store rt)))"

definition resume_job :: "sched_env \<Rightarrow> string \<Rightarrow> runtime \<Rightarrow> (unit, runtime) out" where
  "resume_job env wid rt =
    seq (lift_store rt (set_paused wid False (rt_store rt))) (\<lambda>_ rt.
      case get_workflow wid (rt_store rt) of
        None \<Rightarrow> (Inl (Exn TypeError ''NoneType object is not subscriptable''), rt)
      | Some r \<Rightarrow>
         (case load_schedule_of env r of
            Inl e \<Rightarrow> (Inl e, rt)
          | Inr sc \<Rightarrow> register_job env wid sc rt))"

section \<open>Firing\<close>

fun has_metrics :: "outcome \<Rightarrow> pydict option" where
  "has_metrics out =
    (if oc_status out \<noteq> ''ok'' then None
     else case oc_result out of
            PDict d \<Rightarrow> if ''metrics'' \<in> fst ` set d then Some d else None
          | _ \<Rightarrow> None)"

definition dict_get :: "pydict \<Rightarrow> string \<Rightarrow> pyval" where
  "dict_get d k = (case map_of d k of None \<Rightarrow> PNone | Some v \<Rightarrow> v)"

definition extract_report :: "(pyval \<Rightarrow> string) \<Rightarrow> run_result \<Rightarrow> string option" where
  "extract_report dumps rr =
    (case List.map_filter has_metrics (rr_steps rr) of
       [] \<Rightarrow> None
     | d # _ \<Rightarrow> Some (dumps (PDict [(''title'', dict_get d ''title''), (''metrics'', dict_get d ''metrics''),
                  (''generated_at'', dict_get d ''generated_at'')])))"

text \<open>What happens after the run: the last run, its report, and the next fire time (whose failure is
  swallowed).\<close>

definition after_run :: "sched_env \<Rightarrow> string \<Rightarrow> wf_row \<Rightarrow> datetime \<Rightarrow> run_result \<Rightarrow> store
    \<Rightarrow> (run_result option, store) out" where
  "after_run env wid r fire_dt rr st =
    seq (set_last_run wid (isoformat fire_dt) st) (\<lambda>_ st.
    seq (set_last_report wid (extract_report (e_dumps env) rr) st) (\<lambda>_ st.
      (Inr (Some rr),
       case and_then (load_schedule_of env r) (e_next_fire env) of
         Inl _ \<Rightarrow> st
       | Inr t \<Rightarrow> snd (set_next_run wid t st))))"

definition may_fire :: "wf_row \<Rightarrow> bool" where
  "may_fire r = (\<not> sql_truthy (w_schedule_paused r) \<and> w_trigger_type r = ''schedule'')"

definition fire :: "sched_env \<Rightarrow> store registry \<Rightarrow> string \<Rightarrow> string \<Rightarrow> datetime \<Rightarrow> store
    \<Rightarrow> (run_result option, store) out" where
  "fire env reg wid frequency fire_dt st =
    (case get_workflow wid st of
       None \<Rightarrow> (Inr None, st)
     | Some r \<Rightarrow>
       if \<not> may_fire r then (Inr None, st)
       else (case w_plan_json r of
          None \<Rightarrow> (Inr None, st)
        | Some j \<Rightarrow>
          if j = [] then (Inr None, st)
          else if run_exists_for_key wid (run_key frequency fire_dt) st then (Inr None, st)
          else (case e_load_plan env j of
             Inl e \<Rightarrow> (Inl e, st)
           | Inr plan \<Rightarrow>
             (case compute_window frequency fire_dt of
                Inl e \<Rightarrow> (Inl e, st)
              | Inr (ws, we) \<Rightarrow>
                 seq (arm_for_run wid st) (\<lambda>_ st.
                   case execute (e_validate env) reg wid plan
                          (Some [(''window_start'', PStr ws), (''window_end'', PStr we),
                                 (''fired_at'', PStr (isoformat fire_dt))])
                          (Some (run_key frequency fire_dt)) st of
                     (Inl (Exn k t), st) \<Rightarrow>
                       if k = IntegrityError then (Inr None, st) else (Inl (Exn k t), st)
                   | (Inr rr, st) \<Rightarrow> after_run env wid r fire_dt rr st)))))"

section \<open>The window covers one period\<close>

definition abs_seconds :: "datetime \<Rightarrow> int" where
  "abs_seconds t = ordinal t * 86400 + hour t * 3600 + minute t * 60 + second t"

definition period_seconds :: "string \<Rightarrow> int" where
  "period_seconds f = (if f = ''hourly'' then 3600 else if f = ''weekly'' then 604800 else 86400)"

lemma prev_day_valid:
  assumes "valid_datetime t" "1 < ordinal t"
  shows "valid_datetime (prev_day t)" "hour (prev_day t) = hour t"
    "minute (prev_day t) = minute t" "second (prev_day t) = second t"
proof -
  have "month t = 1 \<Longrightarrow> day t = 1 \<Longrightarrow> 1 < year t"
    using assms by (cases "year t = 1")
      (auto simp: ordinal_def ymd_ord_def days_before_year_def days_before_month_def cum_days_def
        valid_datetime_def valid_date_def)
  then show "valid_datetime (prev_day t)"
    using assms(1) days_in_month_bounds [of "year t" "month t - 1"]
    by (auto simp: prev_day_def valid_datetime_def valid_date_def) (auto simp: days_in_month_def)
qed (simp_all add: prev_day_def)

lemma minus_days_facts:
  "valid_datetime t \<Longrightarrow> int n < ordinal t \<Longrightarrow> valid_datetime (minus_days n t) \<and>
    ordinal (minus_days n t) = ordinal t - int n \<and> hour (minus_days n t) = hour t \<and>
    minute (minus_days n t) = minute t \<and> second (minus_days n t) = second t"
proof (induction n arbitrary: t)
  case (Suc n)
  have o: "ordinal (prev_day t) = ordinal t - 1"
    using ordinal_prev_day Suc.prems(1) by (auto simp: valid_datetime_def)
  have "1 < ordinal t" using Suc.prems(2) by simp
  from prev_day_valid [OF Suc.prems(1) this] show ?case
    using Suc.IH [of "prev_day t"] Suc.prems(2) o by simp
qed simp

lemma window_start_facts:
  assumes "valid_datetime t" "7 < ordinal t"
  shows "valid_datetime (window_start f t) \<and> abs_seconds (window_start f t) = abs_seconds t - period_seconds f"
proof (cases "f = ''hourly''")
  case True
  show ?thesis
  proof (cases "0 < hour t")
    case False
    then have h: "hour t = 0" using assms(1) by (simp add: valid_datetime_def)
    have "1 < ordinal t" using assms(2) by simp
    note p = prev_day_valid [OF assms(1) this]
    have o: "ordinal (prev_day t) = ordinal t - 1"
      using ordinal_prev_day assms(1) by (auto simp: valid_datetime_def)
    have "ordinal ((prev_day t)\<lparr>hour := 23\<rparr>) = ordinal (prev_day t)" by (simp add: ordinal_def)
    then show ?thesis
      using True False p o h
      by (simp add: window_start_def prev_hour_def abs_seconds_def period_seconds_def valid_datetime_def
          valid_date_def)
  next
    case True
    then show ?thesis
      using \<open>f = _\<close> assms(1)
      by (simp add: window_start_def prev_hour_def abs_seconds_def period_seconds_def valid_datetime_def
          valid_date_def ordinal_def)
  qed
next
  case False
  let ?n = "if f = ''weekly'' then 7 else 1 :: nat"
  have w: "window_start f t = minus_days ?n t" using False by (simp add: window_start_def)
  have "int ?n < ordinal t" using assms(2) by simp
  from minus_days_facts [OF assms(1) this] show ?thesis
    using False by (auto simp: w abs_seconds_def period_seconds_def)
qed

lemma naive_facts:
  "valid_datetime (naive t) = valid_datetime t" "ordinal (naive t) = ordinal t"
  "abs_seconds (naive t) = abs_seconds t"
  by (simp_all add: naive_def valid_datetime_def valid_date_def ordinal_def abs_seconds_def)

section \<open>The key identifies the period\<close>

text \<open>The period of a fire, said without texts: the hour, the day, or the week from its Monday.\<close>

definition same_period :: "string \<Rightarrow> datetime \<Rightarrow> datetime \<Rightarrow> bool" where
  "same_period f a b =
    (if f = ''weekly'' then monday_of (ordinal a) = monday_of (ordinal b)
     else year a = year b \<and> month a = month b \<and> day a = day b \<and> (f = ''hourly'' \<longrightarrow> hour a = hour b))"

lemma week_text_inj:
  assumes "0 \<le> y" "0 \<le> y'" "0 \<le> w" "0 \<le> w'"
    and "str_int y @ ''-W'' @ pad 2 (nat w) = str_int y' @ ''-W'' @ pad 2 (nat w')"
  shows "y = y' \<and> w = w'"
proof -
  have nc: "CHR ''-'' \<notin> set (str_int z)" if "0 \<le> z" for z
    using that str_nat_digits [of "CHR ''-''" "nat z"] by (auto simp: str_int_def is_digit_def code_def)
  have "str_int y @ CHR ''-'' # (''W'' @ pad 2 (nat w)) = str_int y' @ CHR ''-'' # (''W'' @ pad 2 (nat w'))"
    using assms(5) by simp
  from sep_unique [OF this nc [OF assms(1)] nc [OF assms(2)]] have "str_int y = str_int y'" "pad 2 (nat w) = pad 2 (nat w')"
    by auto
  then show ?thesis using assms by (simp add: pad_eq_iff str_int_inj)
qed

lemma isocalendar_nonneg:
  assumes "valid_date d" "isocalendar d = (Y, w)"
  shows "0 \<le> Y \<and> 0 \<le> w"
proof -
  have "Y = year d - 1 \<or> Y = year d \<or> Y = year d + 1"
    using assms(2) by (auto simp: isocalendar_def Let_def split: if_splits)
  then show ?thesis using assms(1) isocalendar_bracket [OF assms] by (auto simp: valid_date_def)
qed

lemma run_key_same_period:
  assumes "valid_datetime a" "valid_datetime b"
  shows "run_key f a = run_key f b \<longleftrightarrow> same_period f a b"
proof -
  have va: "valid_date a" "valid_date b" using assms by (auto simp: valid_datetime_def)
  show ?thesis
  proof (cases "f = ''weekly''")
    case True
    obtain Y w where a: "isocalendar a = (Y, w)" by (cases "isocalendar a")
    obtain Z v where b: "isocalendar b = (Z, v)" by (cases "isocalendar b")
    have "run_key f a = run_key f b \<longleftrightarrow> isocalendar a = isocalendar b"
      using True a b week_text_inj [of Y Z w v] isocalendar_nonneg [OF va(1) a] isocalendar_nonneg [OF va(2) b]
      by (auto simp: run_key_def)
    then show ?thesis using True isocalendar_monday [OF va] by (simp add: same_period_def)
  next
    case False
    have "nat (hour a) = nat (hour b) \<longleftrightarrow> hour a = hour b" using assms by (auto simp: valid_datetime_def)
    then show ?thesis
      using False date_text_eq_iff [OF va] length_date_text [OF va(1)] length_date_text [OF va(2)]
      by (auto simp: run_key_def same_period_def pad_eq_iff)
  qed
qed

section \<open>A key once taken stays taken\<close>

lemma set_field_tables [store_simps]:
  "runs (snd (set_field wid c v st)) = runs st"
  by (simp add: set_field_def update_wf_tables now_iso_def)

lemma set_schedule_runs: "runs (snd (set_schedule wid sj dj tid st)) = runs st"
  unfolding set_schedule_def
  by (rule seq_inv [where I = "\<lambda>s. runs s = runs st"]
      | simp add: set_field_tables split: option.split)+

lemma update_run_stamps:
  assumes "\<And>r. stamp (f r) = stamp r"
  shows "map stamp (runs (update_run rid f st)) = map stamp (runs st)"
  by (simp add: update_run_def comp_def assms)

lemma checkpoint_stamps: "map stamp (runs (checkpoint_step rid n t a res s st)) = map stamp (runs st)"
  unfolding checkpoint_step_def now_iso_def prod.case
  by (subst update_run_stamps) (simp_all add: stamp_def)

lemma finish_run_stamps: "map stamp (runs (finish_run rid s st)) = map stamp (runs st)"
  unfolding finish_run_def now_iso_def prod.case
  by (subst update_run_stamps) (simp_all add: stamp_def)

lemma run_exists_stamp:
  "run_exists_for_key wid k st \<longleftrightarrow> (wid, Some k) \<in> set (map stamp (runs st))"
  by (auto simp: run_exists_for_key_def list_ex_iff stamp_def image_iff)

lemma store_step_keeps_key:
  "store_step st st' \<Longrightarrow> run_exists_for_key wid k st \<Longrightarrow> run_exists_for_key wid k st'"
proof (induction rule: store_step.induct)
  case (ss_checkpoint st rid n tool a res status)
  then show ?case unfolding run_exists_stamp checkpoint_stamps .
next
  case (ss_finish st rid status)
  then show ?case unfolding run_exists_stamp finish_run_stamps .
next
  case (ss_run st wid k)
  then show ?case
    by (auto simp: start_run_def new_id_def now_iso_def run_exists_for_key_def)
qed (simp_all add: run_exists_for_key_def set_field_tables set_schedule_runs transition_tables
    set_plan_def set_trigger_def update_wf_tables create_workflow_def save_template_def write_outbox_def
    new_id_def now_iso_def)

lemma store_steps_keep_key:
  "store_step\<^sup>*\<^sup>* st st' \<Longrightarrow> run_exists_for_key wid k st \<Longrightarrow> run_exists_for_key wid k st'"
  by (induction rule: rtranclp_induct) (auto intro: store_step_keeps_key)

lemma start_run_takes_key:
  "start_run wid (Some k) st = (Inr rid, st') \<Longrightarrow> run_exists_for_key wid k st'"
  by (auto simp: start_run_def new_id_def now_iso_def run_exists_for_key_def split: if_splits)

context quiet_registry
begin

lemma run_step_stamps:
  "map stamp (runs (x_store (flow_state (run_step v reg rid tr s xs)))) = map stamp (runs (x_store xs))"
  using refl [of "run_step v reg rid tr s xs"]
proof (cases rule: run_step_cases)
  case (skip reason)
  then show ?thesis by (simp add: skip_step_def checkpoint_stamps)
next
  case (fail err st)
  then have "runs st = runs (x_store xs)" using tool_runs by metis
  then show ?thesis using fail(1) by (simp add: fail_step_def checkpoint_stamps)
next
  case (finished a res st)
  have "runs st = runs (x_store xs)"
    using tool_runs [where n = "ps_tool s" and a = a and st = "x_store xs"] finished(3) by (metis snd_conv)
  then show ?thesis using finished(1) by (simp add: done_step_def checkpoint_stamps)
qed

lemma run_steps_stamps:
  "map stamp (runs (x_store (flow_state (run_steps v reg rid tr ss xs)))) = map stamp (runs (x_store xs))"
  by (rule run_steps_invariant [where I = "\<lambda>ys. map stamp (runs (x_store ys)) = map stamp (runs (x_store xs))"])
    (simp_all add: run_step_stamps)

lemma finish_stamps:
  "map stamp (runs (snd (finish wid rid s err xs))) = map stamp (runs (x_store xs))"
proof -
  obtain r st where t: "transition wid s (finish_run rid (state_value s) (x_store xs)) = (r, st)"
    by (cases "transition wid s (finish_run rid (state_value s) (x_store xs))")
  have "runs st = runs (finish_run rid (state_value s) (x_store xs))"
    using transition_tables(1) [of wid s "finish_run rid (state_value s) (x_store xs)"] t by simp
  then show ?thesis by (cases r) (simp_all add: finish_def t finish_run_stamps)
qed

lemma execute_takes_key:
  assumes "execute v reg wid plan payload (Some k) st = (Inr rr, st')"
  shows "run_exists_for_key wid k st'"
proof -
  obtain r st1 where s1: "start_run wid (Some k) st = (r, st1)" by (cases "start_run wid (Some k) st")
  with assms obtain rid where r: "r = Inr rid" by (cases r) (auto simp: execute_def Let_def)
  have k1: "run_exists_for_key wid k st1" using start_run_takes_key s1 r by blast
  obtain q st2 where s2: "transition wid RUNNING st1 = (q, st2)" by (cases "transition wid RUNNING st1")
  with assms have q: "q = Inr ()" by (cases q) (auto simp: execute_def Let_def s1 r)
  have k2: "run_exists_for_key wid k st2"
    using k1 transition_tables(1) [of wid RUNNING st1] s2 by (simp add: run_exists_for_key_def)
  let ?f = "run_steps v reg rid (case payload of None \<Rightarrow> [] | Some d \<Rightarrow> d)
      (sort_key ps_number (pl_steps plan)) (exec_start st2)"
  have k3: "run_exists_for_key wid k (x_store (flow_state ?f))"
    using k2 unfolding run_exists_stamp run_steps_stamps by (simp add: exec_start_def)
  have "\<exists>s e. execute v reg wid plan payload (Some k) st = finish wid rid s e (flow_state ?f)"
    by (cases ?f) (auto simp: execute_def Let_def s1 s2 r q)
  then obtain s e where "st' = snd (finish wid rid s e (flow_state ?f))" using assms by (metis snd_conv)
  then show ?thesis using k3 unfolding run_exists_stamp by (simp add: finish_stamps)
qed

lemma after_run_runs: "runs (snd (after_run env wid r dt rr st)) = runs st"
proof -
  have f: "set_field w c v' s = (x, s') \<Longrightarrow> runs s' = runs s" for w c v' s x s'
    using set_field_tables [of w c v' s] by simp
  show ?thesis
    unfolding after_run_def set_last_run_def set_last_report_def set_next_run_def
    by (rule seq_inv [where I = "\<lambda>s. runs s = runs st"]; (simp add: set_field_tables)?)
      (rule seq_inv [where I = "\<lambda>s. runs s = runs st"];
        simp add: set_field_tables split: sum.split)
qed

lemma fire_takes_key:
  assumes "fire env reg wid f dt st = (Inr (Some rr), st')"
  shows "run_exists_for_key wid (run_key f dt) st'"
proof -
  from assms obtain r j plan ws we where g: "get_workflow wid st = Some r" "may_fire r"
    "w_plan_json r = Some j" "j \<noteq> []" "\<not> run_exists_for_key wid (run_key f dt) st"
    "e_load_plan env j = Inr plan" "compute_window f dt = Inr (ws, we)"
    by (auto simp: fire_def split: option.splits if_splits sum.splits prod.splits)
  obtain a st1 where a: "arm_for_run wid st = (a, st1)" by (cases "arm_for_run wid st")
  with assms g obtain u where u: "a = Inr u" by (cases a) (auto simp: fire_def)
  let ?x = "execute (e_validate env) reg wid plan (Some [(''window_start'', PStr ws), (''window_end'', PStr we),
      (''fired_at'', PStr (isoformat dt))]) (Some (run_key f dt)) st1"
  obtain x st2 where x: "?x = (x, st2)" by (cases ?x)
  show ?thesis
  proof (cases x)
    case (Inl e)
    obtain k t where "e = Exn k t" by (cases e)
    then show ?thesis using assms g a u x Inl by (auto simp: fire_def split: if_splits)
  next
    case (Inr rr')
    then have "run_exists_for_key wid (run_key f dt) st2" using execute_takes_key x by blast
    moreover have "st' = snd (after_run env wid r dt rr' st2)"
      using assms g a u x Inr by (simp add: fire_def)
    ultimately show ?thesis by (simp add: run_exists_for_key_def after_run_runs)
  qed
qed

text \<open>A second fire of the same period, whatever happened to the store in between, runs nothing and
  changes nothing.\<close>

lemma fire_once:
  assumes "fire env reg wid f dt st = (Inr (Some rr), st1)" "store_step\<^sup>*\<^sup>* st1 st2"
    "run_key f dt' = run_key f dt"
  shows "fire env reg wid f dt' st2 = (Inr None, st2)"
proof -
  have "run_exists_for_key wid (run_key f dt') st2"
    using store_steps_keep_key [OF assms(2) fire_takes_key [OF assms(1)]] assms(3) by simp
  then show ?thesis by (simp add: fire_def split: option.split)
qed

end

section \<open>Restart recovery\<close>

definition job_ids :: "runtime \<Rightarrow> string set" where
  "job_ids rt = (case rt_jobs rt of None \<Rightarrow> {} | Some js \<Rightarrow> fst ` set js)"

lemma register_job_jobs:
  assumes "register_job env wid sc rt = (Inr u, rt')" "rt_jobs rt \<noteq> None"
  shows "job_ids rt' = insert wid (job_ids rt) \<and> rt_jobs rt' \<noteq> None"
proof -
  from assms(2) obtain js where js: "rt_jobs rt = Some js" by auto
  from assms(1) obtain st where "rt' = add_job wid sc (rt\<lparr>rt_store := st\<rparr>)"
    by (auto simp: register_job_def lift_store_def seq_Inr_conv split: sum.splits)
  then have "rt_jobs rt' = Some (AList.update wid sc js)" by (simp add: add_job_def js)
  then show ?thesis by (simp add: job_ids_def js dom_update)
qed

lemma reload_rows_jobs:
  assumes "reload_rows env rs n rt = (Inr m, rt')" "rt_jobs rt \<noteq> None"
  shows "job_ids rt' = job_ids rt \<union> w_id ` {r \<in> set rs. is_ok (load_schedule_of env r)} \<and>
    m = n + length (filter (\<lambda>r. is_ok (load_schedule_of env r)) rs)"
  using assms
proof (induction env rs n rt rule: reload_rows.induct)
  case (2 env r rs n rt)
  show ?case
  proof (cases "load_schedule_of env r")
    case (Inl e)
    then show ?thesis using 2 by auto
  next
    case (Inr sc)
    with 2(3) obtain u rt1 where g: "register_job env (w_id r) sc rt = (Inr u, rt1)"
      "reload_rows env rs (Suc n) rt1 = (Inr m, rt')" by (auto simp: seq_Inr_conv)
    note j = register_job_jobs [OF g(1) 2(4)]
    from 2(2) [OF Inr g(2)] j show ?thesis using Inr by auto
  qed
qed simp

section \<open>Properties\<close>

text \<open>The window of a report ends at the fire time and starts exactly one period earlier, across
  month ends, leap days and year ends.\<close>

theorem window_one_period:
  assumes "valid_datetime t" "7 < ordinal t"
  shows "compute_window f t = Inr (iso_seconds (window_start f (naive t)), iso_seconds (naive t)) \<and>
    valid_datetime (window_start f (naive t)) \<and>
    abs_seconds (window_start f (naive t)) = abs_seconds t - period_seconds f"
  using window_start_facts [of "naive t" f] assms naive_facts [of t]
  by (auto simp: compute_window_def Let_def valid_datetime_def valid_date_def)

definition leap_fire :: datetime where
  "leap_fire = \<lparr>year = 2024, month = 3, day = 1, hour = 2, minute = 30, second = 0, microsecond = 0,
     utcoffset = Some 0\<rparr>"

theorem window_one_period_witness:
  "compute_window ''daily'' leap_fire = Inr (''2024-02-29T02:30:00'', ''2024-03-01T02:30:00'')"
proof -
  have "valid_datetime leap_fire" "7 < ordinal leap_fire"
    by (simp_all add: leap_fire_def valid_datetime_def valid_date_def days_in_month_def ordinal_def
        ymd_ord_def days_before_year_def days_before_month_def cum_days_def)
  from window_one_period [OF this, of "''daily''"] have
    "compute_window ''daily'' leap_fire =
      Inr (iso_seconds (window_start ''daily'' (naive leap_fire)), iso_seconds (naive leap_fire))" by simp
  moreover have "iso_seconds (window_start ''daily'' (naive leap_fire)) = ''2024-02-29T02:30:00''"
    "iso_seconds (naive leap_fire) = ''2024-03-01T02:30:00''"
    by (simp_all add: iso_seconds_def date_text_def naive_def leap_fire_def window_start_def prev_day_def
        days_in_month_def leap_def pad_def str_nat.simps digit_def digit_chars)
  ultimately show ?thesis by simp
qed

text \<open>Two fires get the same idempotency key exactly when they fall in the same period: the same
  hour, the same day, or the same ISO week, weeks across the turn of a year included.\<close>

theorem run_key_iff_same_period:
  assumes "valid_datetime a" "valid_datetime b"
  shows "run_key f a = run_key f b \<longleftrightarrow> same_period f a b"
  using assms by (rule run_key_same_period)

theorem run_key_iff_same_period_witness:
  "run_key ''weekly'' (leap_fire\<lparr>year := 2024, month := 12, day := 31\<rparr>) =
   run_key ''weekly'' (leap_fire\<lparr>year := 2025, month := 1, day := 5\<rparr>)"
proof -
  let ?a = "leap_fire\<lparr>year := 2024, month := 12, day := 31\<rparr>"
  let ?b = "leap_fire\<lparr>year := 2025, month := 1, day := 5\<rparr>"
  have "valid_datetime ?a" "valid_datetime ?b"
    by (simp_all add: leap_fire_def valid_datetime_def valid_date_def days_in_month_def)
  from run_key_iff_same_period [OF this] show ?thesis
    by (simp add: same_period_def leap_fire_def ordinal_def ymd_ord_def days_before_year_def
        days_before_month_def cum_days_def monday_of_def leap_def)
qed

text \<open>Restart recovery: a reload that returns has registered a job for exactly the scheduled
  workflows that are neither rejected nor paused and whose stored schedule loads, beside the jobs
  already there, and it reports their number.\<close>

theorem reload_recovers:
  assumes "reload env rt = (Inr n, rt')" "rt_jobs rt \<noteq> None"
  shows "job_ids rt' = job_ids rt \<union> w_id ` {r \<in> set (workflows (rt_store rt)).
      w_trigger_type r = ''schedule'' \<and> w_state r \<noteq> REJECTED \<and>
      \<not> sql_truthy (w_schedule_paused r) \<and> is_ok (load_schedule_of env r)}"
  using reload_rows_jobs [OF assms(1) [unfolded reload_def] assms(2)]
  by (auto simp: scheduled_workflows_def Let_def)

definition demo_env :: sched_env where
  "demo_env = \<lparr>e_validate = (\<lambda>_ d. Inr d), e_load_plan = (\<lambda>_. Inr demo_plan), e_dump_plan = (\<lambda>_. ''p''),
     e_load_schedule = (\<lambda>_. Inr \<lparr>sc_frequency = Daily, sc_minute = 0, sc_hour = Some 22,
       sc_day_of_week = None, sc_timezone = ''UTC''\<rparr>),
     e_dump_schedule = (\<lambda>_. ''s''), e_next_fire = (\<lambda>_. Inr (Some ''t'')), e_dumps = (\<lambda>_. ''j'')\<rparr>"

definition demo_row :: wf_row where
  "demo_row = (fresh_row ''w'' None ''i'' None (Some ''p'') READY [])\<lparr>w_trigger_type := ''schedule'',
     w_schedule_json := Some ''s''\<rparr>"

definition demo_runtime :: runtime where
  "demo_runtime = \<lparr>rt_store = (empty_store (\<lambda>_. []) (\<lambda>_. []))\<lparr>workflows := [demo_row]\<rparr>,
     rt_jobs = Some []\<rparr>"

theorem reload_recovers_witness:
  "job_ids (snd (reload demo_env demo_runtime)) = {''w''}"
proof -
  have "fst (reload demo_env demo_runtime) = Inr 1" by code_simp
  then obtain rt' where r: "reload demo_env demo_runtime = (Inr 1, rt')" by (metis prod.collapse)
  have j: "rt_jobs demo_runtime \<noteq> None" "job_ids demo_runtime = {}"
    by (simp_all add: demo_runtime_def job_ids_def)
  have w: "set (workflows (rt_store demo_runtime)) = {demo_row}" by (simp add: demo_runtime_def)
  have "w_trigger_type demo_row = ''schedule''" "w_state demo_row = READY" "w_id demo_row = ''w''"
    "\<not> sql_truthy (w_schedule_paused demo_row)" "is_ok (load_schedule_of demo_env demo_row)"
    by (simp_all add: demo_row_def fresh_row_def load_schedule_of_def demo_env_def)
  then have "{q \<in> {demo_row}. w_trigger_type q = ''schedule'' \<and> w_state q \<noteq> REJECTED \<and>
      \<not> sql_truthy (w_schedule_paused q) \<and> is_ok (load_schedule_of demo_env q)} = {demo_row}"
    "w_id ` {demo_row} = {''w''}" by auto
  with reload_recovers [OF r j(1)] show ?thesis by (simp only: r snd_conv j(2) w Un_empty_left)
qed

end
