(* ===== verification/Connectors.thy ===== *)
theory Connectors
  imports Workflow_State
begin

text \<open>
  \<open>workflow_engine/connectors.py\<close>: Slack and email as writes to the outbox.  The writer is injected,
  so the connectors are written over any state; \<open>outbox_writer\<close> is the contract they rely on, an
  append, interpreted here on the store's \<open>write_outbox\<close>.  The POST to a real webhook is the
  parameter \<open>post\<close>: whether it succeeded.
\<close>

type_synonym 'st writer = "string \<Rightarrow> pydict \<Rightarrow> 'st \<Rightarrow> (string, 'st) out"

definition webhook_ok :: "string option \<Rightarrow> bool" where
  "webhook_ok url = (case url of None \<Rightarrow> False
     | Some u \<Rightarrow> u \<noteq> [] \<and> (prefix ''https://'' (lower u) \<or> prefix ''http://'' (lower u)))"

definition slack_payload :: "string \<Rightarrow> string \<Rightarrow> pydict" where
  "slack_payload channel text = [(''channel'', PStr channel), (''text'', PStr text)]"

definition slack_send :: "'st writer \<Rightarrow> string option \<Rightarrow> (string \<Rightarrow> pydict \<Rightarrow> bool) \<Rightarrow> string \<Rightarrow> string
    \<Rightarrow> 'st \<Rightarrow> (pyval, 'st) out" where
  "slack_send put url post channel text st =
    seq (put ''slack'' (slack_payload channel text) st) (\<lambda>_ st.
      let delivered = (webhook_ok url \<and> post (case url of None \<Rightarrow> [] | Some u \<Rightarrow> u) (slack_payload channel text))
      in (Inr (PDict [(''connector'', PStr ''slack''), (''channel'', PStr channel),
                      (''outbox_written'', PBool True), (''delivered'', PBool delivered)]), st))"

definition email_payload :: "string \<Rightarrow> string \<Rightarrow> string \<Rightarrow> pydict" where
  "email_payload to subject body = [(''to'', PStr to), (''subject'', PStr subject), (''body'', PStr body)]"

definition email_send :: "'st writer \<Rightarrow> string \<Rightarrow> string \<Rightarrow> string \<Rightarrow> 'st \<Rightarrow> (pyval, 'st) out" where
  "email_send put to subject body st =
    seq (put ''email'' (email_payload to subject body) st) (\<lambda>_ st.
      (Inr (PDict [(''connector'', PStr ''email''), (''to'', PStr to),
                   (''outbox_written'', PBool True), (''delivered'', PBool False)]), st))"

section \<open>The writer's contract\<close>

locale outbox_writer =
  fixes put :: "'st writer" and contents :: "'st \<Rightarrow> (string \<times> pydict) list"
  assumes write_appends: "put c p st = (Inr i, st') \<Longrightarrow> contents st' = contents st @ [(c, p)]"
    and write_fails: "put c p st = (Inl e, st') \<Longrightarrow> contents st' = contents st"
begin

lemma slack_recorded:
  "case slack_send put url post ch t st of
     (Inr _, st') \<Rightarrow> contents st' = contents st @ [(''slack'', slack_payload ch t)]
   | (Inl _, st') \<Rightarrow> contents st' = contents st"
proof (cases "put ''slack'' (slack_payload ch t) st")
  case (Pair r st')
  then show ?thesis
    by (cases r) (auto simp: slack_send_def Let_def dest: write_appends write_fails)
qed

lemma email_recorded:
  "case email_send put to s b st of
     (Inr _, st') \<Rightarrow> contents st' = contents st @ [(''email'', email_payload to s b)]
   | (Inl _, st') \<Rightarrow> contents st' = contents st"
proof (cases "put ''email'' (email_payload to s b) st")
  case (Pair r st')
  then show ?thesis by (cases r) (auto simp: email_send_def dest: write_appends write_fails)
qed

text \<open>Delivery does not gate the record: the state after a send is the same whatever the webhook is
  and whatever became of the POST.\<close>

lemma slack_state_independent:
  "snd (slack_send put url post ch t st) = snd (slack_send put url' post' ch t st)"
proof (cases "put ''slack'' (slack_payload ch t) st")
  case (Pair r st')
  then show ?thesis by (cases r) (simp_all add: slack_send_def Let_def)
qed

end

definition outbox_contents :: "store \<Rightarrow> (string \<times> pydict) list" where
  "outbox_contents st = map (\<lambda>r. (o_connector r, case o_payload r of PDict d \<Rightarrow> d | _ \<Rightarrow> [])) (outbox_tbl st)"

lemma write_outbox_appends:
  "write_outbox c p st = (Inr i, st') \<Longrightarrow> outbox_contents st' = outbox_contents st @ [(c, p)]"
  by (auto simp: write_outbox_def new_id_def now_iso_def outbox_contents_def split: if_splits)

lemma write_outbox_fails: "write_outbox c p st = (Inl e, st') \<Longrightarrow> outbox_contents st' = outbox_contents st"
  by (auto simp: write_outbox_def new_id_def now_iso_def outbox_contents_def split: if_splits)

interpretation outbox: outbox_writer write_outbox outbox_contents
  by unfold_locales (erule write_outbox_appends, erule write_outbox_fails)

lemma write_outbox_ok:
  assumes "store_inv st" "inj (ids st)"
  shows "\<exists>i. fst (write_outbox c p st) = Inr i"
proof -
  have "ids st (next_id st) \<notin> o_id ` set (outbox_tbl st)"
    using fresh_id [OF assms] by (auto simp: used_ids_def)
  then show ?thesis by (simp add: write_outbox_def new_id_def now_iso_def)
qed

section \<open>Properties\<close>

text \<open>Every Slack send into an intact store succeeds and leaves exactly one more outbox row, with
  the channel and text that were sent, and the same store whether a webhook is configured or not and
  whether its POST succeeded or failed; it reports delivery only for a web URL whose POST
  succeeded.\<close>

theorem slack_outbox_first:
  assumes "store_inv st" "inj (ids st)"
  shows "\<exists>st'. slack_send write_outbox url post ch t st =
      (Inr (PDict [(''connector'', PStr ''slack''), (''channel'', PStr ch), (''outbox_written'', PBool True),
        (''delivered'', PBool (webhook_ok url \<and> post (the url) (slack_payload ch t)))]), st') \<and>
    outbox_contents st' = outbox_contents st @ [(''slack'', slack_payload ch t)] \<and>
    st' = snd (slack_send write_outbox None (\<lambda>_ _. False) ch t st)"
proof -
  obtain i where "fst (write_outbox ''slack'' (slack_payload ch t) st) = Inr i"
    using write_outbox_ok [OF assms] by blast
  then obtain st' where w: "write_outbox ''slack'' (slack_payload ch t) st = (Inr i, st')"
    by (cases "write_outbox ''slack'' (slack_payload ch t) st") auto
  have u: "webhook_ok url \<Longrightarrow> (case url of None \<Rightarrow> [] | Some u \<Rightarrow> u) = the url"
    by (auto simp: webhook_ok_def split: option.splits)
  have "outbox_contents st' = outbox_contents st @ [(''slack'', slack_payload ch t)]"
    using outbox.slack_recorded [where url = url and post = post and ch = ch and t = t and st = st] w by (simp add: slack_send_def Let_def)
  moreover have "st' = snd (slack_send write_outbox None (\<lambda>_ _. False) ch t st)"
    by (simp add: slack_send_def w Let_def)
  moreover have "slack_send write_outbox url post ch t st =
      (Inr (PDict [(''connector'', PStr ''slack''), (''channel'', PStr ch), (''outbox_written'', PBool True),
        (''delivered'', PBool (webhook_ok url \<and> post (the url) (slack_payload ch t)))]), st')"
    using u by (cases "webhook_ok url") (simp_all add: slack_send_def w Let_def)
  ultimately show ?thesis by blast
qed

theorem slack_outbox_first_witness:
  "outbox_contents (snd (slack_send write_outbox (Some ''file:/etc/passwd'') (\<lambda>_ _. True) ''#fraud-ops'' ''hi''
     (empty_store (\<lambda>n. replicate n (CHR ''x'')) (\<lambda>_. [])))) = [(''slack'', slack_payload ''#fraud-ops'' ''hi'')]"
proof -
  let ?st = "empty_store (\<lambda>n. replicate n (CHR ''x'')) (\<lambda>_. [])"
  have "inj (\<lambda>n. replicate n (CHR ''x''))" by (rule injI) (metis length_replicate)
  then have i: "inj (ids ?st)" by (simp add: empty_store_def)
  have e: "outbox_contents ?st = []" by (simp add: outbox_contents_def empty_store_def)
  obtain st' where "slack_send write_outbox (Some ''file:/etc/passwd'') (\<lambda>_ _. True) ''#fraud-ops'' ''hi'' ?st =
      (Inr (PDict [(''connector'', PStr ''slack''), (''channel'', PStr ''#fraud-ops''),
        (''outbox_written'', PBool True),
        (''delivered'', PBool (webhook_ok (Some ''file:/etc/passwd'') \<and> True))]), st')"
      "outbox_contents st' = outbox_contents ?st @ [(''slack'', slack_payload ''#fraud-ops'' ''hi'')]"
    using slack_outbox_first [OF store_inv_empty i] by blast
  then show ?thesis using e by simp
qed

end
