(* ===== verification/Sql_Guard.thy ===== *)
theory Sql_Guard
  imports Py_Strings
begin

text \<open>
  The BI surface: \<open>bi_dashboard/sql_guard.py\<close> (the AST guard), \<open>bi_dashboard/connection.py\<close> (the
  least-privilege connection) and \<open>bi_dashboard/nl2sql_agent.py\<close> (question to executed query).

  The SQL parser is a parameter: the record \<open>sql_lib\<close> holds what the guard asks sqlglot for.  What
  reaches the database is recorded in a log, so that the properties can speak about the executed
  statements.  The guard is the interface \<open>sql_gate\<close> for its clients, interpreted here on the
  validator.
\<close>

section \<open>The parser\<close>

record table_ref =
  tr_name :: string
  tr_db :: string
  tr_catalog :: string

record func_ref =
  fn_name :: string
  fn_sql_name :: string

text \<open>A LIMIT node: what \<open>existing.expression.name\<close> gives, or no such attribute.\<close>

type_synonym limit_node = "string option"

record 'ast sql_lib =
  sl_parse :: "string \<Rightarrow> pyexn + 'ast option list"
  sl_isinstance :: "'ast \<Rightarrow> string \<Rightarrow> bool"
  sl_type_name :: "'ast \<Rightarrow> string"
  sl_funcs :: "'ast \<Rightarrow> func_ref list"
  sl_cte_aliases :: "'ast \<Rightarrow> string list"
  sl_tables :: "'ast \<Rightarrow> table_ref list"
  sl_limit :: "'ast \<Rightarrow> limit_node option"
  sl_with_limit :: "int \<Rightarrow> 'ast \<Rightarrow> 'ast"
  sl_sql :: "'ast \<Rightarrow> string"

section \<open>The validator\<close>

record sql_validator =
  v_allowed :: "(string \<times> string) list"
  v_max_rows :: int

fun norm_tables :: "string list \<Rightarrow> pyexn + (string \<times> string) list" where
  "norm_tables [] = Inr []"
| "norm_tables (t # ts) =
    (case split_on (CHR ''.'') (upper t) of
       [a, b] \<Rightarrow> and_then (norm_tables ts) (\<lambda>r. Inr ((a, b) # r))
     | _ \<Rightarrow> Inl (Exn ValueError (''allowed_tables entries must be SCHEMA.TABLE, got '' @ t)))"

definition make_validator :: "string list \<Rightarrow> int \<Rightarrow> pyexn + sql_validator" where
  "make_validator tables max_rows =
    and_then (norm_tables tables) (\<lambda>a. Inr \<lparr>v_allowed = a, v_max_rows = max_rows\<rparr>)"

definition allowed_top_level :: "string list" where
  "allowed_top_level = [''Select'', ''Union'', ''Except'', ''Intersect'']"

definition forbidden_functions :: "string list" where
  "forbidden_functions = [''IDENTIFIER'', ''TABLE'']"

definition reject :: "string \<Rightarrow> pyexn + 'a" where
  "reject m = Inl (Exn QueryRejected m)"

definition func_name :: "func_ref \<Rightarrow> string" where
  "func_name f = (if fn_name f \<noteq> [] then fn_name f else fn_sql_name f)"

fun check_funcs :: "func_ref list \<Rightarrow> pyexn + unit" where
  "check_funcs [] = Inr ()"
| "check_funcs (f # fs) =
    (if upper (func_name f) \<in> set forbidden_functions
     then reject (''Forbidden construct: '' @ upper (func_name f) @ ''() cannot be used'')
     else check_funcs fs)"

definition check_table :: "sql_validator \<Rightarrow> string list \<Rightarrow> table_ref \<Rightarrow> pyexn + unit" where
  "check_table v ctes t =
    (let name = upper (tr_name t); sch = upper (tr_db t); catalog = upper (tr_catalog t)
     in if name = [] \<or> prefix ''@'' name
        then reject ''Stage or table-function sources are not allowed.''
        else if sch = [] \<and> name \<in> set ctes then Inr ()
        else if sch = [] then reject (''Unqualified relation '' @ name)
        else if sch = ''INFORMATION_SCHEMA'' then reject ''INFORMATION_SCHEMA access is not allowed.''
        else if catalog \<noteq> [] \<and> catalog \<noteq> ''FRAUD_DETECTION''
        then reject (''Relation in non-allowlisted database '' @ catalog)
        else if (sch, name) \<notin> set (v_allowed v)
        then reject (''Relation '' @ sch @ ''.'' @ name @ '' is not in the allowlist'')
        else Inr ())"

fun check_tables :: "sql_validator \<Rightarrow> string list \<Rightarrow> table_ref list \<Rightarrow> pyexn + unit" where
  "check_tables v ctes [] = Inr ()"
| "check_tables v ctes (t # ts) = and_then (check_table v ctes t) (\<lambda>_. check_tables v ctes ts)"

definition apply_row_cap :: "'ast sql_lib \<Rightarrow> sql_validator \<Rightarrow> 'ast \<Rightarrow> 'ast" where
  "apply_row_cap lib v stmt =
    (case sl_limit lib stmt of
       None \<Rightarrow> sl_with_limit lib (v_max_rows v) stmt
     | Some node \<Rightarrow>
        (case Option.bind node parse_int of
           Some current \<Rightarrow> if current \<le> v_max_rows v then stmt else sl_with_limit lib (v_max_rows v) stmt
         | None \<Rightarrow> sl_with_limit lib (v_max_rows v) stmt))"

definition cte_names :: "'ast sql_lib \<Rightarrow> 'ast \<Rightarrow> string list" where
  "cte_names lib stmt = map upper (filter (\<lambda>a. a \<noteq> []) (sl_cte_aliases lib stmt))"

definition check_statement :: "'ast sql_lib \<Rightarrow> sql_validator \<Rightarrow> 'ast \<Rightarrow> pyexn + string" where
  "check_statement lib v stmt =
    (if \<not> list_ex (sl_isinstance lib stmt) allowed_top_level
     then reject (''Only SELECT/CTE/set-operation queries are allowed (got '' @
            upper (sl_type_name lib stmt) @ '').'')
     else and_then (check_funcs (sl_funcs lib stmt)) (\<lambda>_.
          and_then (check_tables v (cte_names lib stmt) (sl_tables lib stmt)) (\<lambda>_.
          Inr (sl_sql lib (apply_row_cap lib v stmt)))))"

definition validate_sql :: "'ast sql_lib \<Rightarrow> sql_validator \<Rightarrow> string \<Rightarrow> pyexn + string" where
  "validate_sql lib v sql =
    (if sql = [] \<or> strip sql = [] then reject ''The agent produced no SQL for this question.''
     else (case sl_parse lib sql of
        Inl e \<Rightarrow> reject (''Could not parse SQL: '' @ exn_text e)
      | Inr stmts \<Rightarrow>
         (case List.map_filter id stmts of
            [stmt] \<Rightarrow> check_statement lib v stmt
          | ss \<Rightarrow> reject (''Exactly one statement allowed; found '' @ str_nat (length ss)))))"

section \<open>Configuration\<close>

definition bi_allowed_tables :: "string list" where
  "bi_allowed_tables = [''DECISIONS.FACT_DECISIONS'', ''FEATURES.FACT_FEATURE_SNAPSHOTS'']"

definition bi_max_rows :: int where
  "bi_max_rows = 200"

definition bi_forbidden_roles :: "string list" where
  "bi_forbidden_roles = [''ACCOUNTADMIN'', ''ORGADMIN'', ''SECURITYADMIN'', ''SYSADMIN'']"

text \<open>The validator that the BI page, the report catalogue and the workflow API construct.\<close>

definition bi_validator :: sql_validator where
  "bi_validator = (case make_validator bi_allowed_tables bi_max_rows of
     Inr v \<Rightarrow> v | Inl _ \<Rightarrow> \<lparr>v_allowed = [], v_max_rows = 0\<rparr>)"

lemma bi_validator_eq:
  "bi_validator = \<lparr>v_allowed = [(''DECISIONS'', ''FACT_DECISIONS''),
     (''FEATURES'', ''FACT_FEATURE_SNAPSHOTS'')], v_max_rows = 200\<rparr>"
  by code_simp

section \<open>What the guard lets through\<close>

definition table_allowed :: "sql_validator \<Rightarrow> string list \<Rightarrow> table_ref \<Rightarrow> bool" where
  "table_allowed v ctes t =
    (tr_db t = [] \<and> upper (tr_name t) \<in> set ctes \<or>
     (upper (tr_db t), upper (tr_name t)) \<in> set (v_allowed v) \<and>
       upper (tr_db t) \<noteq> ''INFORMATION_SCHEMA'' \<and>
       (tr_catalog t = [] \<or> upper (tr_catalog t) = ''FRAUD_DETECTION''))"

text \<open>A statement that reads allowlisted relations only, as it is finally serialised.\<close>

definition vetted :: "'ast sql_lib \<Rightarrow> sql_validator \<Rightarrow> string \<Rightarrow> bool" where
  "vetted lib v safe =
    (\<exists>sql stmts stmt. sl_parse lib sql = Inr stmts \<and> List.map_filter id stmts = [stmt] \<and>
      (\<exists>k\<in>set allowed_top_level. sl_isinstance lib stmt k) \<and>
      (\<forall>f\<in>set (sl_funcs lib stmt). upper (func_name f) \<notin> {''IDENTIFIER'', ''TABLE''}) \<and>
      (\<forall>t\<in>set (sl_tables lib stmt). table_allowed v (cte_names lib stmt) t) \<and>
      safe = sl_sql lib (apply_row_cap lib v stmt))"

lemma check_funcs_ok:
  "check_funcs fs = Inr u \<longleftrightarrow> (\<forall>f\<in>set fs. upper (func_name f) \<notin> {''IDENTIFIER'', ''TABLE''})"
  by (induction fs) (auto simp: forbidden_functions_def reject_def)

lemma check_table_ok: "check_table v ctes t = Inr u \<Longrightarrow> table_allowed v ctes t"
  by (auto simp: check_table_def table_allowed_def Let_def reject_def split: if_splits)

lemma check_tables_ok: "check_tables v ctes ts = Inr u \<Longrightarrow> \<forall>t\<in>set ts. table_allowed v ctes t"
  by (induction ts) (auto dest: check_table_ok)

lemma check_statement_ok:
  assumes "check_statement lib v stmt = Inr safe"
  shows "\<exists>k\<in>set allowed_top_level. sl_isinstance lib stmt k"
    and "\<forall>f\<in>set (sl_funcs lib stmt). upper (func_name f) \<notin> {''IDENTIFIER'', ''TABLE''}"
    and "\<forall>t\<in>set (sl_tables lib stmt). table_allowed v (cte_names lib stmt) t"
    and "safe = sl_sql lib (apply_row_cap lib v stmt)"
proof -
  from assms have c: "list_ex (sl_isinstance lib stmt) allowed_top_level"
    "check_funcs (sl_funcs lib stmt) = Inr ()"
    "check_tables v (cte_names lib stmt) (sl_tables lib stmt) = Inr ()"
    "safe = sl_sql lib (apply_row_cap lib v stmt)"
    by (auto simp: check_statement_def reject_def split: if_splits)
  then show "\<exists>k\<in>set allowed_top_level. sl_isinstance lib stmt k"
    "\<forall>f\<in>set (sl_funcs lib stmt). upper (func_name f) \<notin> {''IDENTIFIER'', ''TABLE''}"
    "\<forall>t\<in>set (sl_tables lib stmt). table_allowed v (cte_names lib stmt) t"
    "safe = sl_sql lib (apply_row_cap lib v stmt)"
    using check_funcs_ok check_tables_ok [OF c(3)] by (auto simp: list_ex_iff)
qed

lemma validate_sql_statement:
  assumes "validate_sql lib v sql = Inr safe"
  obtains stmts stmt where "sl_parse lib sql = Inr stmts" "List.map_filter id stmts = [stmt]"
    "check_statement lib v stmt = Inr safe"
proof -
  from assms obtain stmts where p: "sl_parse lib sql = Inr stmts"
    "(case List.map_filter id stmts of [stmt] \<Rightarrow> check_statement lib v stmt
      | ss \<Rightarrow> reject (''Exactly one statement allowed; found '' @ str_nat (length ss))) = Inr safe"
    by (auto simp: validate_sql_def reject_def split: if_splits sum.splits)
  obtain stmt where s: "List.map_filter id stmts = [stmt]" "check_statement lib v stmt = Inr safe"
    using p(2) by (cases "List.map_filter id stmts"; cases "tl (List.map_filter id stmts)")
      (auto simp: reject_def)
  then show ?thesis using that p(1) by blast
qed

lemma validate_sql_vetted:
  assumes "validate_sql lib v sql = Inr safe"
  shows "vetted lib v safe"
proof -
  obtain stmts stmt where s: "sl_parse lib sql = Inr stmts" "List.map_filter id stmts = [stmt]"
    "check_statement lib v stmt = Inr safe"
    using validate_sql_statement [OF assms] .
  show ?thesis
    unfolding vetted_def using s(1,2) check_statement_ok [OF s(3)]
    by (intro exI [of _ sql] exI [of _ stmts] exI [of _ stmt]) auto
qed

lemma validate_sql_rejects: "validate_sql lib v sql = Inl e \<Longrightarrow> exn_kind_of e = QueryRejected"
proof -
  have f: "check_funcs fs = Inl e \<Longrightarrow> exn_kind_of e = QueryRejected" for fs e
    by (induction fs) (auto simp: reject_def split: if_splits)
  have t: "check_table v ctes t = Inl e \<Longrightarrow> exn_kind_of e = QueryRejected" for ctes t e
    by (auto simp: check_table_def Let_def reject_def split: if_splits)
  have ts: "check_tables v ctes ts = Inl e \<Longrightarrow> exn_kind_of e = QueryRejected" for ctes ts e
  proof (induction ts)
    case (Cons a ts)
    then show ?case by (cases "check_table v ctes a") (auto dest: t)
  qed simp
  have s: "check_statement lib v stmt = Inl e \<Longrightarrow> exn_kind_of e = QueryRejected" for stmt e
    by (cases "check_funcs (sl_funcs lib stmt)";
        cases "check_tables v (cte_names lib stmt) (sl_tables lib stmt)")
      (auto simp: check_statement_def reject_def dest: f ts split: if_splits)
  show "validate_sql lib v sql = Inl e \<Longrightarrow> exn_kind_of e = QueryRejected"
    by (auto simp: validate_sql_def reject_def split: if_splits sum.splits list.splits dest: s)
qed

section \<open>The guard as an interface\<close>

text \<open>What a client relies on: whatever the gate returns is safe to run, and a refusal is a
  QueryRejected.\<close>

locale sql_gate =
  fixes gate :: "string \<Rightarrow> pyexn + string" and safe :: "string \<Rightarrow> bool"
  assumes gate_safe: "gate q = Inr s \<Longrightarrow> safe s"
    and gate_rejects: "gate q = Inl e \<Longrightarrow> exn_kind_of e = QueryRejected"

interpretation guard: sql_gate "validate_sql lib v" "vetted lib v" for lib v
  by unfold_locales (rule validate_sql_vetted, assumption, rule validate_sql_rejects, assumption)

section \<open>The least-privilege connection\<close>

definition assert_role_allowed :: "string \<Rightarrow> pyexn + unit" where
  "assert_role_allowed role =
    (if role = [] \<or> strip role = []
     then Inl (Exn (OtherExn ''InsecureConnectionError'') ''BI_SNOWFLAKE_ROLE is empty'')
     else if upper (strip role) \<in> set bi_forbidden_roles
     then Inl (Exn (OtherExn ''InsecureConnectionError'')
       (''BI application refuses to run as '' @ role))
     else Inr ())"

text \<open>A Snowflake session: whether connecting works, the outcome of a statement, and the answer to the
  query of the current role and secondary roles.  What is sent is logged.\<close>

record bi_server =
  b_connect :: "string \<Rightarrow> pyexn + unit"
  b_execute :: "string \<Rightarrow> pyexn + unit"
  b_roles :: "string option \<times> string option"

datatype bi_event = Connected string | Executed string | Closed

definition role_query :: string where
  "role_query = ''SELECT CURRENT_ROLE(), CURRENT_SECONDARY_ROLES()''"

fun opt_text :: "string option \<Rightarrow> string" where
  "opt_text None = []"
| "opt_text (Some s) = s"

definition all_secondary :: "string option \<Rightarrow> bool" where
  "all_secondary sec = (opt_text sec \<noteq> [] \<and>
     contains (replace_all '' '' [] (opt_text sec)) [CHR 0x22, CHR ''v'', CHR ''a'', CHR ''l'', CHR ''u'',
       CHR ''e'', CHR 0x22, CHR '':'', CHR 0x22, CHR ''A'', CHR ''L'', CHR ''L'', CHR 0x22])"

text \<open>The body of the try block, after the connection is open.\<close>

definition confine_session :: "bi_server \<Rightarrow> string \<Rightarrow> bi_event list \<Rightarrow> (unit, bi_event list) out" where
  "confine_session srv role lg =
    (let lg = lg @ [Executed ''USE SECONDARY ROLES NONE'']
     in case b_execute srv ''USE SECONDARY ROLES NONE'' of
          Inl e \<Rightarrow> (Inl e, lg)
        | Inr _ \<Rightarrow>
           (let lg = lg @ [Executed role_query]
            in case b_execute srv role_query of
                 Inl e \<Rightarrow> (Inl e, lg)
               | Inr _ \<Rightarrow>
                  if upper (opt_text (fst (b_roles srv))) \<noteq> upper (strip role)
                  then (Inl (Exn (OtherExn ''InsecureConnectionError'') (''Expected to run as '' @ role)), lg)
                  else if all_secondary (snd (b_roles srv))
                  then (Inl (Exn (OtherExn ''InsecureConnectionError'') ''Secondary roles are still ALL''), lg)
                  else (Inr (), lg)))"

definition open_bi_connection :: "bi_server \<Rightarrow> string \<Rightarrow> bi_event list \<Rightarrow> (unit, bi_event list) out" where
  "open_bi_connection srv role lg =
    (case assert_role_allowed role of
       Inl e \<Rightarrow> (Inl e, lg)
     | Inr _ \<Rightarrow>
        (case b_connect srv role of
           Inl e \<Rightarrow> (Inl e, lg)
         | Inr _ \<Rightarrow>
            (case confine_session srv role (lg @ [Connected role]) of
               (Inl e, lg) \<Rightarrow> (Inl e, lg @ [Closed])
             | (Inr u, lg) \<Rightarrow> (Inr u, lg))))"

section \<open>From a question to an executed query\<close>

record generated_query =
  gq_sql :: string
  gq_explanation :: string
  gq_chart_hint :: string

text \<open>The agent: whether its cached connection is open, and the statements it executed.\<close>

record nl_agent =
  nl_open :: bool
  nl_log :: "string list"

definition get_connection :: "(pyexn + unit) \<Rightarrow> nl_agent \<Rightarrow> (unit, nl_agent) out" where
  "get_connection opn a =
    (if nl_open a then (Inr (), a)
     else case opn of Inl e \<Rightarrow> (Inl e, a) | Inr _ \<Rightarrow> (Inr (), a\<lparr>nl_open := True\<rparr>))"

definition close_agent :: "nl_agent \<Rightarrow> nl_agent" where
  "close_agent a = (if nl_open a then a\<lparr>nl_open := False\<rparr> else a)"

text \<open>A closed agent answers again over a new connection.\<close>

lemma closed_agent_reconnects:
  "\<not> nl_open (close_agent a)" "nl_log (close_agent a) = nl_log a"
  "get_connection (Inr ()) (close_agent a) = (Inr (), a\<lparr>nl_open := True\<rparr>)"
  by (simp_all add: close_agent_def get_connection_def)

definition ask :: "(string \<Rightarrow> pyexn + string) \<Rightarrow> (string \<Rightarrow> pyexn + generated_query) \<Rightarrow> (pyexn + unit)
    \<Rightarrow> (string \<Rightarrow> pyexn + string list \<times> pyval list) \<Rightarrow> string \<Rightarrow> nl_agent
    \<Rightarrow> (generated_query \<times> string list \<times> pyval list, nl_agent) out" where
  "ask gate llm opn run question a =
    (case llm question of
       Inl e \<Rightarrow> (Inl e, a)
     | Inr g \<Rightarrow>
        (case gate (gq_sql g) of
           Inl e \<Rightarrow> (Inl e, a)
         | Inr safe_sql \<Rightarrow>
            seq (get_connection opn a) (\<lambda>_ a.
              let a = a\<lparr>nl_log := nl_log a @ [safe_sql]\<rparr>
              in case run safe_sql of
                   Inl e \<Rightarrow> (Inl e, a)
                 | Inr (cols, rows) \<Rightarrow> (Inr (g, map lower cols, rows), a))))"

context sql_gate
begin

lemma ask_executes_safe:
  "set (nl_log (snd (ask gate llm opn run q a))) \<subseteq> set (nl_log a) \<union> {s. safe s}"
  by (auto simp: ask_def get_connection_def Let_def split: sum.split if_splits dest: gate_safe)

lemma ask_rejected:
  "llm q = Inr g \<Longrightarrow> gate (gq_sql g) = Inl e \<Longrightarrow> ask gate llm opn run q a = (Inl e, a)"
  by (simp add: ask_def)

end

section \<open>Properties\<close>

text \<open>A parser of one query with a LIMIT of 5000, for the witnesses.\<close>

definition one_query :: "int option sql_lib" where
  "one_query = \<lparr>sl_parse = (\<lambda>_. Inr [Some (Some 5000)]), sl_isinstance = (\<lambda>_ k. k = ''Select''),
     sl_type_name = (\<lambda>_. ''Select''), sl_funcs = (\<lambda>_. []), sl_cte_aliases = (\<lambda>_. []),
     sl_tables = (\<lambda>_. [\<lparr>tr_name = ''fact_decisions'', tr_db = ''decisions'', tr_catalog = []\<rparr>]),
     sl_limit = (\<lambda>l. map_option (\<lambda>n. Some (str_int n)) l), sl_with_limit = (\<lambda>n _. Some n),
     sl_sql = (\<lambda>l. case l of None \<Rightarrow> ''Q'' | Some n \<Rightarrow> ''Q LIMIT '' @ str_int n)\<rparr>"

lemma one_query_accepts: "validate_sql one_query bi_validator ''q'' = Inr ''Q LIMIT 200''"
proof -
  have "upper ''fact_decisions'' = ''FACT_DECISIONS''" "upper ''decisions'' = ''DECISIONS''"
    by code_simp+
  moreover have "strip ''q'' = ''q''" "str_int 200 = ''200''" by code_simp+
  ultimately show ?thesis
    by (simp add: validate_sql_def one_query_def bi_validator_eq check_statement_def allowed_top_level_def
        cte_names_def check_table_def Let_def apply_row_cap_def map_filter_def)
qed

text \<open>C7: The BI validator is sound.  A text it accepts parses to exactly one statement, a SELECT or
  a set operation; IDENTIFIER and TABLE are called nowhere in it; every table reference is a bare
  reference to a CTE of the query or one of the two allowlisted relations, in no database but
  FRAUD_DETECTION; and what is returned is that statement serialised under the row cap, not the text
  that was given.  Everything else is refused with a QueryRejected.\<close>

theorem guard_sound:
  "case validate_sql lib bi_validator sql of
     Inl e \<Rightarrow> exn_kind_of e = QueryRejected
   | Inr safe_sql \<Rightarrow>
      \<exists>stmt. (\<exists>stmts. sl_parse lib sql = Inr stmts \<and> List.map_filter id stmts = [stmt]) \<and>
        (\<exists>k\<in>{''Select'', ''Union'', ''Except'', ''Intersect''}. sl_isinstance lib stmt k) \<and>
        (\<forall>f\<in>set (sl_funcs lib stmt). upper (func_name f) \<notin> {''IDENTIFIER'', ''TABLE''}) \<and>
        (\<forall>t\<in>set (sl_tables lib stmt).
          tr_db t = [] \<and> upper (tr_name t) \<in> set (cte_names lib stmt) \<or>
          (upper (tr_db t), upper (tr_name t)) \<in>
            {(''DECISIONS'', ''FACT_DECISIONS''), (''FEATURES'', ''FACT_FEATURE_SNAPSHOTS'')} \<and>
          (tr_catalog t = [] \<or> upper (tr_catalog t) = ''FRAUD_DETECTION'')) \<and>
        safe_sql = sl_sql lib (apply_row_cap lib bi_validator stmt)"
proof (cases "validate_sql lib bi_validator sql")
  case (Inl e)
  then show ?thesis using validate_sql_rejects by auto
next
  case (Inr safe)
  obtain stmts stmt where s: "sl_parse lib sql = Inr stmts" "List.map_filter id stmts = [stmt]"
    "check_statement lib bi_validator stmt = Inr safe"
    using validate_sql_statement [OF Inr] .
  note c = check_statement_ok [OF s(3)]
  have al: "set (v_allowed bi_validator) =
      {(''DECISIONS'', ''FACT_DECISIONS''), (''FEATURES'', ''FACT_FEATURE_SNAPSHOTS'')}"
    by (simp add: bi_validator_eq)
  have "\<exists>k\<in>{''Select'', ''Union'', ''Except'', ''Intersect''}. sl_isinstance lib stmt k"
    using c(1) by (simp add: allowed_top_level_def)
  moreover have "\<forall>t\<in>set (sl_tables lib stmt).
      tr_db t = [] \<and> upper (tr_name t) \<in> set (cte_names lib stmt) \<or>
      (upper (tr_db t), upper (tr_name t)) \<in> set (v_allowed bi_validator) \<and>
      (tr_catalog t = [] \<or> upper (tr_catalog t) = ''FRAUD_DETECTION'')"
    using c(3) unfolding table_allowed_def by blast
  ultimately show ?thesis using Inr s(1,2) c(2,4) unfolding al by auto
qed

theorem guard_sound_witness:
  "\<exists>stmt. sl_isinstance one_query stmt ''Select'' \<and>
    ''Q LIMIT 200'' = sl_sql one_query (apply_row_cap one_query bi_validator stmt) \<and>
    map tr_db (sl_tables one_query stmt) = [''decisions'']"
proof -
  have "\<exists>stmt. ''Q LIMIT 200'' = sl_sql one_query (apply_row_cap one_query bi_validator stmt)"
    using guard_sound [of one_query "''q''"] unfolding one_query_accepts by auto
  then show ?thesis by (auto simp: one_query_def)
qed

text \<open>C31: The row cap holds for what is executed: given that setting the limit of a statement is what
  reading it back shows, every accepted statement carries an integer LIMIT of at most the configured
  200 rows.\<close>

theorem row_cap:
  assumes "\<And>n s. sl_limit lib (sl_with_limit lib n s) = Some (Some (str_int n))"
    and "validate_sql lib bi_validator sql = Inr safe_sql"
  shows "\<exists>stmt n. safe_sql = sl_sql lib stmt \<and> Option.bind (sl_limit lib stmt) (\<lambda>x. Option.bind x parse_int) = Some n \<and>
    n \<le> 200"
proof -
  obtain stmts stmt where s: "check_statement lib bi_validator stmt = Inr safe_sql"
    using validate_sql_statement [OF assms(2)] by metis
  have "\<exists>n. Option.bind (sl_limit lib (apply_row_cap lib bi_validator stmt)) (\<lambda>x. Option.bind x parse_int) = Some n \<and> n \<le> 200"
    by (auto simp: apply_row_cap_def bi_validator_eq assms(1) split: option.split)
  then show ?thesis using check_statement_ok(4) [OF s] by blast
qed

text \<open>A parser for one fixed query, for the witnesses: the syntax tree is its LIMIT.\<close>

theorem row_cap_witness:
  "\<exists>stmt n. ''Q LIMIT 200'' = sl_sql one_query stmt \<and>
    Option.bind (sl_limit one_query stmt) (\<lambda>x. Option.bind x parse_int) = Some n \<and> n \<le> 200"
  by (rule row_cap [OF _ one_query_accepts]) (simp add: one_query_def)

text \<open>The BI connection is least-privilege or not at all: when one is returned the role is none of
  the administrative roles, the session runs as just that role and its secondary roles are not ALL;
  when opening fails after the connection was made, the connection is closed.\<close>

theorem bi_connection_confined:
  "case open_bi_connection srv role lg of
     (Inr _, lg') \<Rightarrow> upper (strip role) \<notin> {''ACCOUNTADMIN'', ''ORGADMIN'', ''SECURITYADMIN'', ''SYSADMIN''} \<and>
       upper (opt_text (fst (b_roles srv))) = upper (strip role) \<and> \<not> all_secondary (snd (b_roles srv)) \<and>
       lg' = lg @ [Connected role, Executed ''USE SECONDARY ROLES NONE'', Executed role_query]
   | (Inl _, lg') \<Rightarrow> lg' = lg \<or> (lg \<noteq> lg' \<and> last lg' = Closed)"
  by (auto simp: open_bi_connection_def confine_session_def assert_role_allowed_def bi_forbidden_roles_def
      Let_def split: sum.split)

text \<open>Whatever the language model answers, the BI agent executes nothing but statements the guard
  returned, and a refused answer reaches no database.\<close>

theorem ask_only_vetted:
  "set (nl_log (snd (ask (validate_sql lib bi_validator) llm opn run q a))) \<subseteq>
     set (nl_log a) \<union> {s. vetted lib bi_validator s}"
  by (rule guard.ask_executes_safe)

end
