(* ===== verification/Report.thy ===== *)
theory Report
  imports Py_Strings
begin

text \<open>
  \<open>workflow_engine/report.py\<close>: from the columns and rows of a query to a report, and its two
  renderings.  \<open>str(v)\<close> of a value that is not a string is the parameter \<open>pystr\<close>, the time stamp of
  the report the parameter \<open>now\<close>.
\<close>

section \<open>Display of values\<close>

definition capitalize :: "string \<Rightarrow> string" where
  "capitalize s = (case s of [] \<Rightarrow> [] | c # cs \<Rightarrow> upper_char c # lower cs)"

definition humanize :: "string \<Rightarrow> string" where
  "humanize col = capitalize (strip (replace_all ''_'' '' '' col))"

definition em_dash_text :: string where
  "em_dash_text = [CHR 0xE2, CHR 0x80, CHR 0x94]"

definition round_half_even :: "real \<Rightarrow> int" where
  "round_half_even x =
    (let f = \<lfloor>x\<rfloor>; d = x - of_int f
     in if d < 1 / 2 then f else if 1 / 2 < d then f + 1 else if even f then f else f + 1)"

text \<open>\<open>f"{x:,.2f}"\<close> and \<open>f"{x:.2f}"\<close>\<close>

definition fixed2 :: "bool \<Rightarrow> real \<Rightarrow> string" where
  "fixed2 commas x =
    (let n = round_half_even (\<bar>x\<bar> * 100); whole = n div 100
     in (if x < 0 then ''-'' else []) @ (if commas then str_commas whole else str_int whole) @ ''.'' @
        pad 2 (nat (n mod 100)))"

fun show_float2 :: "bool \<Rightarrow> pyfloat \<Rightarrow> string" where
  "show_float2 c (Fin x) = fixed2 c x"
| "show_float2 c PInf = ''inf''"
| "show_float2 c NInf = ''-inf''"
| "show_float2 c NaN = ''nan''"

fun times100 :: "pyfloat \<Rightarrow> pyfloat" where
  "times100 (Fin x) = Fin (x * 100)"
| "times100 f = f"

definition is_rate :: "string \<Rightarrow> bool" where
  "is_rate col = (let low = lower col in contains low ''rate'' \<or> contains low ''pct'' \<or>
     contains low ''percent'' \<or> contains low ''share'')"

definition fmt_value :: "(pyval \<Rightarrow> string) \<Rightarrow> string \<Rightarrow> pyval \<Rightarrow> string" where
  "fmt_value pystr col v =
    (case v of
       PNone \<Rightarrow> em_dash_text
     | PBool b \<Rightarrow> if b then ''yes'' else ''no''
     | PFloat f \<Rightarrow> if is_rate col then show_float2 False (times100 f) @ ''%'' else show_float2 True f
     | PInt i \<Rightarrow> str_commas i
     | PStr s \<Rightarrow> s
     | _ \<Rightarrow> pystr v)"

section \<open>The report\<close>

definition max_report_rows :: nat where
  "max_report_rows = 50"

record report_result =
  rp_title :: string
  rp_summary :: string
  rp_metrics :: pydict
  rp_columns :: "pyval list"
  rp_rows :: "pyval list"
  rp_generated_at :: string
  rp_sql_used :: pyval
  rp_row_count :: nat

definition get_key :: "pydict \<Rightarrow> string \<Rightarrow> pyval" where
  "get_key d k = (case map_of d k of None \<Rightarrow> PNone | Some v \<Rightarrow> v)"

text \<open>\<open>list(v)\<close>\<close>

definition py_list :: "pyval \<Rightarrow> pyexn + pyval list" where
  "py_list v =
    (case v of
       PList l \<Rightarrow> Inr l
     | PStr s \<Rightarrow> Inr (map (\<lambda>c. PStr [c]) s)
     | PDict d \<Rightarrow> Inr (map (\<lambda>(k, _). PStr k) d)
     | _ \<Rightarrow> Inl (Exn TypeError ''object is not iterable''))"

definition list_or_empty :: "pyval \<Rightarrow> pyexn + pyval list" where
  "list_or_empty v = (if truthy v then py_list v else Inr [])"

text \<open>The loop over the columns of a single row: the metrics and the summary lines.\<close>

fun metric_lines :: "(pyval \<Rightarrow> string) \<Rightarrow> (pyval \<times> pyval) list \<Rightarrow> pydict \<Rightarrow> string list
    \<Rightarrow> pyexn + pydict \<times> string list" where
  "metric_lines pystr [] ms ls = Inr (ms, ls)"
| "metric_lines pystr ((c, v) # cvs) ms ls =
    (case c of
       PStr col \<Rightarrow> metric_lines pystr cvs (AList.update col v ms)
                     (ls @ [humanize col @ '': '' @ fmt_value pystr col v])
     | _ \<Rightarrow> Inl (Exn (OtherExn ''AttributeError'') ''object has no attribute replace''))"

definition newline :: string where
  "newline = [CHR 0x0A]"

definition build_report :: "(pyval \<Rightarrow> string) \<Rightarrow> string \<Rightarrow> string \<Rightarrow> pydict \<Rightarrow> pyexn + report_result" where
  "build_report pystr now title data =
    and_then (list_or_empty (get_key data ''columns'')) (\<lambda>columns.
    and_then (list_or_empty (get_key data ''rows'')) (\<lambda>rows.
    and_then
      (if length rows = 1 \<and> columns \<noteq> []
       then and_then (py_list (hd rows)) (\<lambda>row.
            and_then (metric_lines pystr (zip columns row) [] []) (\<lambda>(ms, ls).
            Inr (ms, join newline ls)))
       else if length rows = 0 then Inr ([], ''No rows matched the report window.'')
       else Inr ([(''row_count'', PInt (int (length rows)))],
                 str_commas (int (length rows)) @ '' rows over the report window.''))
      (\<lambda>(ms, summary).
        Inr \<lparr>rp_title = title, rp_summary = summary, rp_metrics = ms, rp_columns = columns,
             rp_rows = take max_report_rows rows, rp_generated_at = now,
             rp_sql_used = get_key data ''sql'', rp_row_count = length rows\<rparr>)))"

definition render_slack :: "report_result \<Rightarrow> string" where
  "render_slack r = ''*'' @ rp_title r @ ''*'' @ newline @ rp_summary r"

definition str_val :: "(pyval \<Rightarrow> string) \<Rightarrow> pyval \<Rightarrow> string" where
  "str_val pystr v = (case v of PStr s \<Rightarrow> s | _ \<Rightarrow> pystr v)"

fun table_lines :: "(pyval \<Rightarrow> string) \<Rightarrow> pyval list \<Rightarrow> pyexn + string list" where
  "table_lines pystr [] = Inr []"
| "table_lines pystr (r # rs) =
    and_then (py_list r) (\<lambda>vs.
    and_then (table_lines pystr rs) (\<lambda>ls.
      Inr (join '' | '' (map (\<lambda>v. if v = PNone then em_dash_text else str_val pystr v) vs) # ls)))"

text \<open>The optional table part of the email.\<close>

definition email_table :: "(pyval \<Rightarrow> string) \<Rightarrow> report_result \<Rightarrow> pyexn + string list" where
  "email_table pystr r =
    (if 1 < rp_row_count r \<and> rp_columns r \<noteq> []
     then and_then (table_lines pystr (rp_rows r)) (\<lambda>ls.
       Inr ([[], join '' | '' (map (str_val pystr) (rp_columns r))] @ ls @
         (if length (rp_rows r) < rp_row_count r
          then [''... ('' @ str_nat (rp_row_count r - length (rp_rows r)) @ '' more rows)''] else [])))
     else Inr [])"

text \<open>\<open>"\n".join\<close> takes texts only.\<close>

definition sql_lines :: "pyval \<Rightarrow> pyexn + string list" where
  "sql_lines v =
    (if \<not> truthy v then Inr []
     else case v of PStr s \<Rightarrow> Inr [[], ''SQL used:'', s] | _ \<Rightarrow> Inl (Exn TypeError ''sequence item: expected str instance''))"

definition render_email :: "(pyval \<Rightarrow> string) \<Rightarrow> report_result \<Rightarrow> pyexn + string \<times> string" where
  "render_email pystr r =
    and_then (email_table pystr r) (\<lambda>tab.
    and_then (sql_lines (rp_sql_used r)) (\<lambda>sql.
      Inr (rp_title r,
        join newline ([rp_title r, [], rp_summary r] @ tab @ [[], ''Generated at: '' @ rp_generated_at r] @ sql))))"

definition format_report :: "(pyval \<Rightarrow> string) \<Rightarrow> string \<Rightarrow> string \<Rightarrow> pydict \<Rightarrow> pyexn + pydict" where
  "format_report pystr now title data =
    and_then (build_report pystr now title data) (\<lambda>r.
    and_then (render_email pystr r) (\<lambda>(subject, body).
      Inr [(''title'', PStr (rp_title r)), (''summary'', PStr (rp_summary r)),
           (''metrics'', PDict (rp_metrics r)), (''columns'', PList (rp_columns r)),
           (''rows'', PList (rp_rows r)), (''generated_at'', PStr (rp_generated_at r)),
           (''sql_used'', rp_sql_used r), (''row_count'', PInt (int (rp_row_count r))),
           (''slack_text'', PStr (render_slack r)), (''email_subject'', PStr subject),
           (''email_body'', PStr body)]))"

section \<open>Properties\<close>

lemma build_report_Inr:
  assumes "build_report pystr now title data = Inr r"
  obtains columns rows where "list_or_empty (get_key data ''columns'') = Inr columns"
    "list_or_empty (get_key data ''rows'') = Inr rows" "rp_title r = title" "rp_columns r = columns"
    "rp_rows r = take 50 rows" "rp_row_count r = length rows" "rp_sql_used r = get_key data ''sql''"
    "rp_generated_at r = now"
    "length rows \<noteq> 1 \<Longrightarrow> rp_summary r = (if rows = [] then ''No rows matched the report window.''
      else str_commas (int (length rows)) @ '' rows over the report window.'')"
  using assms unfolding build_report_def by (auto simp: max_report_rows_def split: if_splits)

text \<open>No raw rows in Slack: for a result that is not a single row the Slack message is determined
  by the title and the number of rows alone, whatever the columns, the rows and the SQL were.\<close>

theorem slack_hides_rows:
  assumes "build_report pystr now title data = Inr r" "build_report pystr' now' title data' = Inr r'"
    and "rp_row_count r = rp_row_count r'" "rp_row_count r \<noteq> 1"
  shows "render_slack r = render_slack r'"
proof -
  have "rp_title q = title \<and> rp_summary q = (if rp_row_count q = 0
      then ''No rows matched the report window.''
      else str_commas (int (rp_row_count q)) @ '' rows over the report window.'')"
    if b: "build_report ps n title d = Inr q" "rp_row_count q \<noteq> 1" for ps n d q
    by (rule build_report_Inr [OF b(1)]) (use b(2) in simp)
  from this [OF assms(1)] this [OF assms(2)] assms(3,4) show ?thesis by (simp add: render_slack_def)
qed

theorem slack_hides_rows_witness:
  "\<exists>r r'. build_report (\<lambda>_. ''x'') ''n'' ''T'' [(''rows'', PList [PInt 1, PInt 2])] = Inr r \<and>
     build_report (\<lambda>_. ''x'') ''n'' ''T'' [(''rows'', PList [PInt 7, PInt 8])] = Inr r' \<and>
     render_slack r = render_slack r'"
proof -
  let ?a = "build_report (\<lambda>_. ''x'') ''n'' ''T'' [(''rows'', PList [PInt 1, PInt 2])]"
  let ?b = "build_report (\<lambda>_. ''x'') ''n'' ''T'' [(''rows'', PList [PInt 7, PInt 8])]"
  obtain r where r: "?a = Inr r" "rp_row_count r = 2"
    by (simp add: build_report_def list_or_empty_def get_key_def py_list_def)
  obtain r' where r': "?b = Inr r'" "rp_row_count r' = 2"
    by (simp add: build_report_def list_or_empty_def get_key_def py_list_def)
  show ?thesis using slack_hides_rows [OF r(1) r'(1)] r r' by auto
qed

text \<open>A report keeps at most fifty rows, in order, counts all of them, and carries the SQL; the
  email shows a table only for several rows and then says how many rows it leaves out: the rows shown
  and the rows announced add up to the count.\<close>

theorem report_rows_accounted:
  "case build_report pystr now title data of
     Inl e \<Rightarrow> True
   | Inr r \<Rightarrow> length (rp_rows r) = min 50 (rp_row_count r) \<and> rp_sql_used r = get_key data ''sql'' \<and>
       (case email_table pystr r of
          Inl e \<Rightarrow> True
        | Inr tab \<Rightarrow>
           if rp_row_count r \<le> 1 \<or> rp_columns r = [] then tab = []
           else if rp_row_count r \<le> 50 then length tab = rp_row_count r + 2
           else length tab = 53 \<and> last tab = ''... ('' @ str_nat (rp_row_count r - 50) @ '' more rows)'')"
proof (cases "build_report pystr now title data")
  case (Inr r)
  obtain columns rows where b: "rp_rows r = take 50 rows" "rp_row_count r = length rows"
    "rp_sql_used r = get_key data ''sql''"
    using build_report_Inr [OF Inr] by metis
  have len: "table_lines pystr rs = Inr ls \<Longrightarrow> length ls = length rs" for rs ls
    by (induction rs arbitrary: ls) auto
  show ?thesis
  proof (cases "email_table pystr r")
    case (Inr tab)
    then show ?thesis using b \<open>build_report _ _ _ _ = _\<close>
      by (auto simp: email_table_def dest!: len split: if_splits)
  qed (use b \<open>build_report _ _ _ _ = _\<close> in \<open>simp add: min_def\<close>)
qed simp

end
