(* ===== verification/Reports_Catalog.thy ===== *)
theory Reports_Catalog
  imports Sql_Guard Datetime Report
begin

text \<open>
  \<open>workflow_engine/reports_catalog.py\<close>: the named reports and the pipeline that runs one for a time
  window: validate the template, substitute code-generated timestamp literals, validate again,
  execute.

  \<open>datetime.fromisoformat(str(v))\<close> is the parameter \<open>fromiso\<close>; the database is a function from the
  statement to its columns and rows, and the executed statements are logged.
\<close>

definition catalog_sql :: string where
  "catalog_sql = join newline
    [''SELECT'',
     ''    COUNT(*)                                             AS transactions_reviewed,'',
     ''    COUNT_IF(d.decision = 'BLOCK')                       AS block_count,'',
     ''    COUNT_IF(d.decision = 'ESCALATE')                    AS escalate_count,'',
     ''    COUNT_IF(d.decision = 'ALLOW')                       AS allow_count,'',
     ''    ROUND(COUNT_IF(f.is_synthetic_fraud) / NULLIF(COUNT(*), 0), 4) AS fraud_rate,'',
     ''    MODE(d.identified_pattern)                           AS top_fraud_pattern'',
     ''FROM DECISIONS.FACT_DECISIONS d'',
     ''LEFT JOIN FEATURES.FACT_FEATURE_SNAPSHOTS f'',
     ''    ON d.snapshot_id = f.snapshot_id'',
     ''WHERE d.decided_at >= :window_start'',
     ''  AND d.decided_at <  :window_end'']"

definition report_catalog :: "(string \<times> string \<times> string) list" where
  "report_catalog = [(''fraud_performance'', ''Daily Fraud Operations Report'', catalog_sql)]"

definition as_ts_literal :: "(pyval \<Rightarrow> datetime option) \<Rightarrow> pyval \<Rightarrow> string \<Rightarrow> pyexn + string" where
  "as_ts_literal fromiso v name =
    (if v = PNone \<or> v = PStr [] then Inl (Exn MissingParameter (''missing runtime parameter '' @ name))
     else (case fromiso v of
        None \<Rightarrow> Inl (Exn MissingParameter (''parameter '' @ name @ '' is not an ISO datetime''))
      | Some dt \<Rightarrow> Inr (''TO_TIMESTAMP_NTZ('' @ [CHR 0x27] @ iso_seconds dt @ [CHR 0x27] @ '')'')))"

definition bind_param :: "(pyval \<Rightarrow> datetime option) \<Rightarrow> string \<Rightarrow> pyval \<Rightarrow> string \<Rightarrow> string \<Rightarrow> pyexn + string" where
  "bind_param fromiso name v tmpl sql =
    (if contains tmpl (CHR '':'' # name)
     then and_then (as_ts_literal fromiso v name) (\<lambda>l. Inr (replace_all (CHR '':'' # name) l sql))
     else Inr sql)"

definition substitute_window :: "(pyval \<Rightarrow> datetime option) \<Rightarrow> string \<Rightarrow> pyval \<Rightarrow> pyval \<Rightarrow> pyexn + string" where
  "substitute_window fromiso tmpl ws we =
    and_then (bind_param fromiso ''window_start'' ws tmpl tmpl) (bind_param fromiso ''window_end'' we tmpl)"

text \<open>The database connection: opening it, and running a statement on it.\<close>

record db_conn =
  db_open :: "pyexn + unit"
  db_run :: "string \<Rightarrow> pyexn + string list \<times> pyval list"

definition run_validated_report :: "(string \<Rightarrow> pyexn + string) \<Rightarrow> db_conn \<Rightarrow> (pyval \<Rightarrow> datetime option)
    \<Rightarrow> string \<Rightarrow> pyval \<Rightarrow> pyval \<Rightarrow> string list \<Rightarrow> (pydict, string list) out" where
  "run_validated_report gate db fromiso tmpl ws we sent =
    (case and_then (gate tmpl) (\<lambda>_. and_then (substitute_window fromiso tmpl ws we) gate) of
       Inl e \<Rightarrow> (Inl e, sent)
     | Inr safe_sql \<Rightarrow>
        (case db_open db of
           Inl e \<Rightarrow> (Inl e, sent)
         | Inr _ \<Rightarrow>
            (case db_run db safe_sql of
               Inl e \<Rightarrow> (Inl e, sent @ [safe_sql])
             | Inr (cols, rows) \<Rightarrow>
                (Inr [(''report_sql'', PStr tmpl), (''sql'', PStr safe_sql),
                      (''columns'', PList (map (\<lambda>c. PStr (lower c)) cols)), (''rows'', PList rows)],
                 sent @ [safe_sql]))))"

context sql_gate
begin

text \<open>At most one statement is sent, it passed the gate, and so did the template.\<close>

lemma report_gated:
  "\<exists>out. snd (run_validated_report gate db fromiso tmpl ws we sent) = sent @ out \<and>
    (out = [] \<or> (\<exists>q s t. out = [q] \<and> gate s = Inr q \<and> safe q \<and> gate tmpl = Inr t \<and>
      substitute_window fromiso tmpl ws we = Inr s))"
  by (auto simp: run_validated_report_def split: sum.split prod.split dest: gate_safe)

end

section \<open>The literal\<close>

lemma iso_seconds_chars: "c \<in> set (iso_seconds t) \<Longrightarrow> is_digit c \<or> c \<in> {CHR ''-'', CHR ''T'', CHR '':''}"
  by (auto simp: iso_seconds_def date_text_def dest: pad_digits)

section \<open>Properties\<close>

text \<open>C38: A report run sends at most one statement to the database, and that statement came out of the
  guard, applied to the template with its window placeholders replaced, after the template itself had
  passed the guard; if anything fails before, nothing is sent.\<close>

theorem report_only_vetted:
  "\<exists>out. snd (run_validated_report (validate_sql lib bi_validator) db fromiso tmpl ws we sent) = sent @ out \<and>
    (out = [] \<or> (\<exists>q s t. out = [q] \<and> validate_sql lib bi_validator s = Inr q \<and> vetted lib bi_validator q \<and>
      validate_sql lib bi_validator tmpl = Inr t \<and> substitute_window fromiso tmpl ws we = Inr s))"
  by (rule guard.report_gated)

text \<open>No outside text reaches the SQL through the window: what is spliced in is
  \<open>TO_TIMESTAMP_NTZ('...')\<close> with nothing but digits, hyphens, colons and a T between the quotes,
  whatever value was given and however it was parsed; a missing or unparseable bound is a
  MissingParameter.\<close>

theorem window_literal_inert:
  "case as_ts_literal fromiso v name of
     Inl e \<Rightarrow> exn_kind_of e = MissingParameter
   | Inr l \<Rightarrow> \<exists>body. l = ''TO_TIMESTAMP_NTZ('' @ [CHR 0x27] @ body @ [CHR 0x27] @ '')'' \<and>
       list_all (\<lambda>c. is_digit c \<or> c = CHR ''-'' \<or> c = CHR ''T'' \<or> c = CHR '':'') body"
proof (cases "as_ts_literal fromiso v name")
  case (Inl e)
  then show ?thesis by (auto simp: as_ts_literal_def split: if_splits option.splits)
next
  case (Inr l)
  then obtain dt where "l = ''TO_TIMESTAMP_NTZ('' @ [CHR 0x27] @ iso_seconds dt @ [CHR 0x27] @ '')''"
    by (auto simp: as_ts_literal_def split: if_splits option.splits)
  then show ?thesis using Inr iso_seconds_chars by (auto simp: list_all_iff)
qed

end
