(* ===== verification/Promotion.thy ===== *)
theory Promotion
  imports Schedule
begin

text \<open>
  \<open>workflow_engine/promotion.py\<close>: the delivery target and the deterministic plan that runs a stored
  report, formats it and delivers it.
\<close>

record destination =
  d_connector :: string
  d_channel :: "string option"
  d_to :: "string option"
  d_subject :: "string option"

fun given :: "string option \<Rightarrow> bool" where
  "given None = False"
| "given (Some s) = (s \<noteq> [])"

definition make_destination :: "string \<Rightarrow> string option \<Rightarrow> string option \<Rightarrow> string option
    \<Rightarrow> pyexn + destination" where
  "make_destination connector channel to subject =
    (let c = lower connector
     in if c = ''slack''
        then if given channel
             then Inr \<lparr>d_connector = c, d_channel = channel, d_to = to, d_subject = subject\<rparr>
             else Inl (Exn ValueError ''a Slack destination needs a channel (e.g. #fraud-ops)'')
        else if c = ''email''
        then if given to
             then Inr \<lparr>d_connector = c, d_channel = channel, d_to = to, d_subject = subject\<rparr>
             else Inl (Exn ValueError ''an email destination needs a recipient address'')
        else Inl (Exn ValueError (''unknown connector '' @ c @ '' (expected 'slack' or 'email')'')))"

definition destination_json :: "destination \<Rightarrow> pydict" where
  "destination_json d = [(''connector'', PStr (d_connector d)), (''channel'', opt_val (d_channel d)),
     (''to'', opt_val (d_to d)), (''subject'', opt_val (d_subject d))]"

definition step_ref :: "int \<Rightarrow> string \<Rightarrow> string" where
  "step_ref n field = ''$step_'' @ str_int n @ ''.'' @ field"

definition notify_step :: "destination \<Rightarrow> int \<Rightarrow> int \<Rightarrow> plan_step" where
  "notify_step d n format_step =
    (if d_connector d = ''slack''
     then \<lparr>ps_number = n, ps_tool = ''slack_send_message'',
           ps_args = [(''channel'', opt_val (d_channel d)),
                      (''text'', PStr (step_ref format_step ''slack_text''))],
           ps_rationale = ''deliver the formatted report to Slack'', ps_when = None\<rparr>
     else \<lparr>ps_number = n, ps_tool = ''email_send'',
           ps_args = [(''to'', opt_val (d_to d)),
                      (''subject'', PStr (if given (d_subject d) then the (d_subject d)
                                          else step_ref format_step ''email_subject'')),
                      (''body'', PStr (step_ref format_step ''email_body''))],
           ps_rationale = ''deliver the detailed report by email'', ps_when = None\<rparr>)"

definition build_report_plan :: "string \<Rightarrow> string \<Rightarrow> destination \<Rightarrow> bool \<Rightarrow> planned_schedule option
    \<Rightarrow> string option \<Rightarrow> workflow_plan" where
  "build_report_plan title report_ref d windowed sched goal =
    (let run_args = [(''report'', PStr report_ref)] @
           (if windowed then [(''window_start'', PStr ''$trigger.window_start''),
                              (''window_end'', PStr ''$trigger.window_end'')] else []);
         steps =
          [\<lparr>ps_number = 1, ps_tool = ''run_report_query'', ps_args = run_args,
            ps_rationale = ''run the validated report SQL (not regenerated)'', ps_when = None\<rparr>,
           \<lparr>ps_number = 2, ps_tool = ''format_report'',
            ps_args = [(''title'', PStr title), (''data'', PStr ''$step_1'')],
            ps_rationale = ''turn rows into a structured, readable report'', ps_when = None\<rparr>,
           notify_step d 3 2]
     in \<lparr>pl_goal = (if given goal then the goal else title), pl_trigger = None, pl_schedule = sched,
         pl_steps = steps, pl_needs_clarification = False, pl_clarification_question = None\<rparr>)"

lemma make_destination_Inr:
  assumes "make_destination c ch to s = Inr d"
  shows "(d_connector d = ''slack'' \<and> given (d_channel d)) \<or> (d_connector d = ''email'' \<and> given (d_to d))"
  using assms by (auto simp: make_destination_def Let_def split: if_splits)

end
