(* ===== verification/Tools_Bridge.thy ===== *)
theory Tools_Bridge
  imports Scheduler Connectors Reports_Catalog Promotion
begin

text \<open>
  \<open>workflow_engine/tools_bridge.py\<close>: the argument schemas, the bodies of the tools and the default
  registry.

  The platform services behind the tools (feature store, user history, language model, Snowflake) are
  the fields of \<open>tool_env\<close>; a call of one is a function of its arguments that may raise.  Only the two
  notify tools write to the store.
\<close>

section \<open>Argument schemas\<close>

definition req :: "string \<Rightarrow> annotation \<Rightarrow> field_spec" where
  "req n a = \<lparr>f_name = n, f_annotation = a, f_default = None, f_ge = None, f_le = None\<rparr>"

definition user_id_args :: schema where
  "user_id_args = [req ''user_id'' TStr]"

definition query_args :: schema where
  "query_args = [req ''question'' TStr]"

definition count_args :: schema where
  "count_args = [req ''user_id'' TStr, req ''decision'' TStr,
     \<lparr>f_name = ''hours'', f_annotation = TInt, f_default = Some (PInt 24), f_ge = Some 1, f_le = Some 720\<rparr>]"

definition report_run_args :: schema where
  "report_run_args = [req ''report'' TStr,
     \<lparr>f_name = ''window_start'', f_annotation = TOptStr, f_default = Some PNone, f_ge = None, f_le = None\<rparr>,
     \<lparr>f_name = ''window_end'', f_annotation = TOptStr, f_default = Some PNone, f_ge = None, f_le = None\<rparr>]"

definition format_report_args :: schema where
  "format_report_args = [req ''title'' TStr, req ''data'' TDict]"

definition slack_args :: schema where
  "slack_args = [req ''channel'' TStr, req ''text'' TStr]"

definition email_args :: schema where
  "email_args = [req ''to'' TStr, req ''subject'' TStr, req ''body'' TStr]"

section \<open>Tool bodies\<close>

record tool_env =
  te_features :: "string \<Rightarrow> pyexn + pyval"
  te_history :: "string \<Rightarrow> pyexn + pyval"
  te_gate :: "string \<Rightarrow> pyexn + string"
  te_llm :: "string \<Rightarrow> pyexn + generated_query"
  te_db :: db_conn
  te_count :: "string \<Rightarrow> string \<Rightarrow> int \<Rightarrow> pyexn + int"
  te_fromiso :: "pyval \<Rightarrow> datetime option"
  te_str :: "pyval \<Rightarrow> string"
  te_now :: string
  te_url :: "string option"
  te_post :: "string \<Rightarrow> pydict \<Rightarrow> bool"

definition query_decisions :: "tool_env \<Rightarrow> string \<Rightarrow> pyexn + pyval" where
  "query_decisions env question =
    and_then (fst (ask (te_gate env) (te_llm env) (db_open (te_db env)) (db_run (te_db env)) question
        \<lparr>nl_open = False, nl_log = []\<rparr>))
      (\<lambda>(gq, cols, rows). Inr (PDict [(''sql'', PStr (gq_sql gq)), (''columns'', PList (map PStr cols)),
         (''rows'', PList (take 100 rows))]))"

definition count_recent_decisions :: "tool_env \<Rightarrow> string \<Rightarrow> string \<Rightarrow> int \<Rightarrow> pyexn + pyval" where
  "count_recent_decisions env user_id decision hours =
    and_then (te_count env user_id decision hours) (\<lambda>n.
      Inr (PDict [(''user_id'', PStr user_id), (''decision'', PStr decision), (''hours'', PInt hours),
        (''count'', PInt n)]))"

definition run_report_query :: "tool_env \<Rightarrow> (string \<Rightarrow> string option) option \<Rightarrow> string \<Rightarrow> pyval \<Rightarrow> pyval
    \<Rightarrow> pyexn + pyval" where
  "run_report_query env resolver report ws we =
    (let run = (\<lambda>sql. and_then (fst (run_validated_report (te_gate env) (te_db env) (te_fromiso env) sql ws we []))
           (\<lambda>d. Inr (PDict d)))
     in case map_of report_catalog report of
          Some (_, sql) \<Rightarrow> run sql
        | None \<Rightarrow>
           (case Option.bind resolver (\<lambda>f. f report) of
              Some sql \<Rightarrow> if sql \<noteq> [] then run sql
                          else Inl (Exn KeyError (''unknown report '' @ report))
            | None \<Rightarrow> Inl (Exn KeyError (''unknown report '' @ report))))"

text \<open>Calling a tool body with the validated keyword dictionary.\<close>

definition missing_arg :: "string \<Rightarrow> pyexn + 'a" where
  "missing_arg k = Inl (Exn TypeError (''missing or ill-typed argument: '' @ k))"

definition with_str :: "pydict \<Rightarrow> string \<Rightarrow> (string \<Rightarrow> pyexn + 'a) \<Rightarrow> pyexn + 'a" where
  "with_str d k f = (case map_of d k of Some (PStr s) \<Rightarrow> f s | _ \<Rightarrow> missing_arg k)"

definition with_int :: "pydict \<Rightarrow> string \<Rightarrow> (int \<Rightarrow> pyexn + 'a) \<Rightarrow> pyexn + 'a" where
  "with_int d k f = (case map_of d k of Some (PInt i) \<Rightarrow> f i | _ \<Rightarrow> missing_arg k)"

definition with_dict :: "pydict \<Rightarrow> string \<Rightarrow> (pydict \<Rightarrow> pyexn + 'a) \<Rightarrow> pyexn + 'a" where
  "with_dict d k f = (case map_of d k of Some (PDict x) \<Rightarrow> f x | _ \<Rightarrow> missing_arg k)"

definition pure_tool :: "(pydict \<Rightarrow> pyexn + pyval) \<Rightarrow> pydict \<Rightarrow> store \<Rightarrow> (pyval, store) out" where
  "pure_tool f d st = (f d, st)"

text \<open>The resolver closes over the store: it reads the templates of the moment of the call.\<close>

definition resolve_template :: "store \<Rightarrow> string \<Rightarrow> string option" where
  "resolve_template st tid = map_option t_sql (get_template tid st)"

definition report_tool :: "tool_env \<Rightarrow> pydict \<Rightarrow> store \<Rightarrow> (pyval, store) out" where
  "report_tool env d st =
    (with_str d ''report'' (\<lambda>r. run_report_query env (Some (resolve_template st)) r
       (get_key d ''window_start'') (get_key d ''window_end'')), st)"

definition slack_tool :: "tool_env \<Rightarrow> pydict \<Rightarrow> store \<Rightarrow> (pyval, store) out" where
  "slack_tool env d st =
    (case with_str d ''channel'' (\<lambda>c. with_str d ''text'' (\<lambda>t. Inr (c, t))) of
       Inl e \<Rightarrow> (Inl e, st)
     | Inr (c, t) \<Rightarrow> slack_send write_outbox (te_url env) (te_post env) c t st)"

definition email_tool :: "tool_env \<Rightarrow> pydict \<Rightarrow> store \<Rightarrow> (pyval, store) out" where
  "email_tool env d st =
    (case with_str d ''to'' (\<lambda>t. with_str d ''subject'' (\<lambda>s. with_str d ''body'' (\<lambda>b. Inr (t, s, b)))) of
       Inl e \<Rightarrow> (Inl e, st)
     | Inr (t, s, b) \<Rightarrow> email_send write_outbox t s b st)"

section \<open>The default registry\<close>

definition tool :: "string \<Rightarrow> string \<Rightarrow> schema \<Rightarrow> string \<Rightarrow> (pydict \<Rightarrow> store \<Rightarrow> (pyval, store) out) \<Rightarrow> bool
    \<Rightarrow> store tool_spec" where
  "tool name descr sch cat body ro = \<lparr>t_name = name, t_description = descr, t_schema = sch,
     t_category = cat, t_execute = body, t_read_only = ro, t_requires_approval = False\<rparr>"

definition default_specs :: "tool_env \<Rightarrow> store tool_spec list" where
  "default_specs env =
    [tool ''get_transaction_features''
       ''Get a user's current live fraud-detection features (velocity, amount z-score, geo distance, new-device flag) from the online feature store.''
       user_id_args READ_DATA (pure_tool (\<lambda>d. with_str d ''user_id'' (te_features env))) True,
     tool ''get_user_history''
       ''Get a user's baseline profile: typical spend, home location, risk tier, account age, trusted device count.''
       user_id_args READ_DATA (pure_tool (\<lambda>d. with_str d ''user_id'' (te_history env))) True,
     tool ''query_decisions''
       ''Answer a plain-English analytics question over the decision log with guarded, read-only SELECT-only SQL (the generated SQL is returned for audit). Use for open-ended questions, NOT for simple countable conditions.''
       query_args READ_DATA (pure_tool (\<lambda>d. with_str d ''question'' (query_decisions env))) True,
     tool ''count_recent_decisions''
       ''Deterministically COUNT how many decisions of a given type (ALLOW/BLOCK/ESCALATE) a user received in the last N hours. No LLM. PREFER this over query_decisions for any countable trigger condition.''
       count_args ANALYZE (pure_tool (\<lambda>d. with_str d ''user_id'' (\<lambda>u. with_str d ''decision'' (\<lambda>c.
         with_int d ''hours'' (count_recent_decisions env u c))))) True,
     tool ''run_report_query''
       ''Run a NAMED, parameterized report ('fraud_performance' = reviewed/BLOCK/ESCALATE/fraud-rate/top-pattern) over a time window, using validated SQL that is NOT regenerated per run. USE THIS (not query_decisions) for recurring/scheduled reports; pass window_start/window_end as $trigger.window_start / $trigger.window_end so the scheduler supplies the period.''
       report_run_args READ_DATA (report_tool env) True,
     tool ''format_report''
       (''Turn a query/report result into a structured, human-readable report (title, summary, metrics) and pre-render a compact Slack message and a detailed email body. ALWAYS put this between a query step and a Slack/email step '' @
         em_dash @ '' never send raw SQL rows.'')
       format_report_args ANALYZE (pure_tool (\<lambda>d. with_str d ''title'' (\<lambda>t. with_dict d ''data'' (\<lambda>x.
         and_then (format_report (te_str env) (te_now env) t x) (\<lambda>r. Inr (PDict r)))))) True,
     tool ''slack_send_message''
       ''Send a Slack message to a channel. Writes to the auditable outbox (and posts to a real webhook only if configured).''
       slack_args NOTIFY (slack_tool env) False,
     tool ''email_send''
       (''Send an email. Writes to the auditable outbox (mock delivery '' @ em_dash @ '' SMTP is a future feature).'')
       email_args NOTIFY (email_tool env) False]"

fun register_all :: "'st tool_spec list \<Rightarrow> 'st registry \<Rightarrow> pyexn + 'st registry" where
  "register_all [] reg = Inr reg"
| "register_all (s # ss) reg = and_then (register s reg) (register_all ss)"

definition build_default_registry :: "tool_env \<Rightarrow> pyexn + store registry" where
  "build_default_registry env = register_all (default_specs env) []"

definition default_registry :: "tool_env \<Rightarrow> store registry" where
  "default_registry env = map (\<lambda>s. (t_name s, s)) (default_specs env)"

section \<open>What the tools may change\<close>

lemma default_names:
  "map t_name (default_specs env) = [''get_transaction_features'', ''get_user_history'', ''query_decisions'',
     ''count_recent_decisions'', ''run_report_query'', ''format_report'', ''slack_send_message'', ''email_send'']"
  by (simp add: default_specs_def tool_def)

lemma register_all_append:
  "distinct (map t_name ss) \<Longrightarrow> set (map t_name ss) \<inter> fst ` set reg = {} \<Longrightarrow>
    register_all ss reg = Inr (reg @ map (\<lambda>s. (t_name s, s)) ss)"
proof (induction ss arbitrary: reg)
  case (Cons s ss)
  then have "register s reg = Inr (reg @ [(t_name s, s)])" by (simp add: register_def)
  moreover have "set (map t_name ss) \<inter> fst ` set (reg @ [(t_name s, s)]) = {}" using Cons.prems by auto
  ultimately show ?case using Cons.IH [of "reg @ [(t_name s, s)]"] Cons.prems by simp
qed simp

lemma default_distinct: "distinct (map t_name (default_specs env))"
  by (simp add: default_names)

lemma build_default_registry_Inr: "build_default_registry env = Inr (default_registry env)"
  unfolding build_default_registry_def default_registry_def
  by (subst register_all_append [OF default_distinct]) simp_all

lemma default_registry_wf: "registry_wf (default_registry env)"
  using default_distinct [of env] by (auto simp: registry_wf_def default_registry_def comp_def)

lemma get_default: "get_tool (default_registry env) n = Some s \<Longrightarrow> s \<in> set (default_specs env)"
  by (auto simp: get_tool_def default_registry_def dest: map_of_SomeD)

lemma write_outbox_frame:
  "workflows (snd (write_outbox c p st)) = workflows st" "runs (snd (write_outbox c p st)) = runs st"
  "step_results (snd (write_outbox c p st)) = step_results st"
  "templates (snd (write_outbox c p st)) = templates st"
  by (simp_all add: write_outbox_def new_id_def now_iso_def)

lemma slack_send_store: "snd (slack_send write_outbox u f c t st) = snd (write_outbox ''slack'' (slack_payload c t) st)"
  by (cases "write_outbox ''slack'' (slack_payload c t) st"; cases "fst (write_outbox ''slack'' (slack_payload c t) st)")
    (simp_all add: slack_send_def Let_def)

lemma email_send_store: "snd (email_send write_outbox t s b st) = snd (write_outbox ''email'' (email_payload t s b) st)"
  by (cases "write_outbox ''email'' (email_payload t s b) st"; cases "fst (write_outbox ''email'' (email_payload t s b) st)")
    (simp_all add: email_send_def)

lemma slack_tool_store:
  "snd (slack_tool env a st) = st \<or> (\<exists>c p. snd (slack_tool env a st) = snd (write_outbox c p st))"
proof (cases "with_str a ''channel'' (\<lambda>c. with_str a ''text'' (\<lambda>t. Inr (c, t)))")
  case (Inr x)
  then show ?thesis by (cases x) (simp only: slack_tool_def sum.case prod.case slack_send_store, blast)
qed (simp add: slack_tool_def)

lemma email_tool_store:
  "snd (email_tool env a st) = st \<or> (\<exists>c p. snd (email_tool env a st) = snd (write_outbox c p st))"
proof (cases "with_str a ''to'' (\<lambda>t. with_str a ''subject'' (\<lambda>s. with_str a ''body'' (\<lambda>b. Inr (t, s, b))))")
  case (Inr x)
  then show ?thesis by (cases x) (simp only: email_tool_def sum.case prod.case email_send_store, blast)
qed (simp add: email_tool_def)

text \<open>A tool of the default registry is pure, or one of the two that write to the outbox.\<close>

lemma tool_effect:
  assumes "s \<in> set (default_specs env)"
  shows "(t_read_only s \<and> snd (t_execute s a st) = st) \<or>
    (\<not> t_read_only s \<and> t_category s = NOTIFY \<and>
      (snd (t_execute s a st) = st \<or> (\<exists>c p. snd (t_execute s a st) = snd (write_outbox c p st))))"
proof -
  from assms consider "t_read_only s" "snd (t_execute s a st) = st"
    | "\<not> t_read_only s" "t_category s = NOTIFY" "t_execute s = slack_tool env"
    | "\<not> t_read_only s" "t_category s = NOTIFY" "t_execute s = email_tool env"
    by (auto simp: default_specs_def tool_def pure_tool_def report_tool_def)
  then show ?thesis
    using slack_tool_store [of env a st] email_tool_store [of env a st] by cases simp_all
qed

lemma default_quiet:
  "get_tool (default_registry env) n = Some s \<Longrightarrow>
    workflows (snd (t_execute s a st)) = workflows st \<and> runs (snd (t_execute s a st)) = runs st"
  using tool_effect [OF get_default, of env n s a st] by (auto simp: write_outbox_frame)

interpretation dr: quiet_registry "default_registry env" for env
  by unfold_locales (rule default_quiet)

section \<open>Promoted plans\<close>

fun has_type :: "annotation \<Rightarrow> pyval \<Rightarrow> bool" where
  "has_type TStr v = (\<exists>s. v = PStr s)"
| "has_type TInt v = (\<exists>i. v = PInt i)"
| "has_type TFloat v = (\<exists>f. v = PFloat f)"
| "has_type TBool v = (\<exists>b. v = PBool b)"
| "has_type TDict v = (\<exists>d. v = PDict d)"
| "has_type TList v = (\<exists>l. v = PList l)"
| "has_type TOptStr v = (v = PNone \<or> (\<exists>s. v = PStr s))"

text \<open>What pydantic documents of a model without range constraints: a dictionary with every required
  field, no unknown field, and values of the declared types is valid.\<close>

definition well_typed :: "schema \<Rightarrow> pydict \<Rightarrow> bool" where
  "well_typed sch d =
    (list_all (\<lambda>(k, v). list_ex (\<lambda>f. f_name f = k \<and> has_type (f_annotation f) v) sch) d \<and>
     list_all (\<lambda>f. f_default f \<noteq> None \<or> f_name f \<in> fst ` set d) sch \<and>
     list_all (\<lambda>f. f_ge f = None \<and> f_le f = None) sch)"

definition accepts_well_typed :: "validator \<Rightarrow> bool" where
  "accepts_well_typed v = (\<forall>sch d. well_typed sch d \<longrightarrow> is_ok (v sch d))"

definition plain :: "string \<Rightarrow> bool" where
  "plain s = (\<not> prefix ''$'' s)"

definition plain_destination :: "destination \<Rightarrow> bool" where
  "plain_destination d =
    (pred_option plain (d_channel d) \<and> pred_option plain (d_to d) \<and> pred_option plain (d_subject d))"

lemma promotion_refs:
  "match_REF_RE ''$trigger.window_start'' = Some \<lparr>ref_base = TriggerRef, ref_field = Some ''window_start''\<rparr>"
  "match_REF_RE ''$trigger.window_end'' = Some \<lparr>ref_base = TriggerRef, ref_field = Some ''window_end''\<rparr>"
  "match_REF_RE ''$step_1'' = Some \<lparr>ref_base = StepRef 1, ref_field = None\<rparr>"
  "match_REF_RE (step_ref 2 ''slack_text'') = Some \<lparr>ref_base = StepRef 2, ref_field = Some ''slack_text''\<rparr>"
  "match_REF_RE (step_ref 2 ''email_subject'') = Some \<lparr>ref_base = StepRef 2, ref_field = Some ''email_subject''\<rparr>"
  "match_REF_RE (step_ref 2 ''email_body'') = Some \<lparr>ref_base = StepRef 2, ref_field = Some ''email_body''\<rparr>"
  by code_simp+

lemma get_default_tools:
  "get_tool (default_registry env) ''run_report_query'' = Some (default_specs env ! 4)"
  "get_tool (default_registry env) ''format_report'' = Some (default_specs env ! 5)"
  "get_tool (default_registry env) ''slack_send_message'' = Some (default_specs env ! 6)"
  "get_tool (default_registry env) ''email_send'' = Some (default_specs env ! 7)"
  by (simp_all add: get_tool_def default_registry_def default_specs_def tool_def)

lemma default_schemas:
  "t_schema (default_specs env ! 4) = report_run_args" "t_category (default_specs env ! 4) = READ_DATA"
  "t_schema (default_specs env ! 5) = format_report_args" "t_category (default_specs env ! 5) = ANALYZE"
  "t_schema (default_specs env ! 6) = slack_args" "t_category (default_specs env ! 6) = NOTIFY"
  "t_schema (default_specs env ! 7) = email_args" "t_category (default_specs env ! 7) = NOTIFY"
  "\<not> t_requires_approval (default_specs env ! 4)" "\<not> t_requires_approval (default_specs env ! 5)"
  "\<not> t_requires_approval (default_specs env ! 6)" "\<not> t_requires_approval (default_specs env ! 7)"
  by (simp_all add: default_specs_def tool_def)

lemma step_ref_ref: "prefix ''$'' (step_ref n f)"
  by (simp add: step_ref_def)

lemma run_step_ok:
  assumes "accepts_well_typed v" "plain ref"
  shows "step_ok v (default_registry env) N \<lparr>ps_number = 1, ps_tool = ''run_report_query'',
    ps_args = [(''report'', PStr ref)] @ (if w then [(''window_start'', PStr ''$trigger.window_start''),
      (''window_end'', PStr ''$trigger.window_end'')] else []),
    ps_rationale = r, ps_when = None\<rparr>"
proof -
  have "is_ok (v report_run_args (candidate report_run_args ([(''report'', PStr ref)] @
      (if w then [(''window_start'', PStr ''$trigger.window_start''), (''window_end'', PStr ''$trigger.window_end'')]
       else []))))"
    using assms(2)
    by (intro assms(1) [unfolded accepts_well_typed_def, rule_format])
      (simp add: well_typed_def candidate_def report_run_args_def req_def plain_def)
  then show ?thesis using assms(2)
    by (cases w; simp add: step_ok_def get_default_tools default_schemas when_ok_def READ_DATA_def ref_ok_def
        promotion_refs plain_def) (auto simp: report_run_args_def req_def promotion_refs)
qed

lemma format_step_ok:
  assumes "accepts_well_typed v" "plain title" "1 \<in> N"
  shows "step_ok v (default_registry env) N \<lparr>ps_number = 2, ps_tool = ''format_report'',
    ps_args = [(''title'', PStr title), (''data'', PStr ''$step_1'')], ps_rationale = r, ps_when = None\<rparr>"
proof -
  have "is_ok (v format_report_args (candidate format_report_args
      [(''title'', PStr title), (''data'', PStr ''$step_1'')]))"
    using assms(2)
    by (intro assms(1) [unfolded accepts_well_typed_def, rule_format])
      (simp add: well_typed_def candidate_def format_report_args_def req_def plain_def)
  then show ?thesis using assms(2,3)
    by (simp add: step_ok_def get_default_tools default_schemas when_ok_def ANALYZE_def ref_ok_def
        promotion_refs plain_def) (simp add: format_report_args_def req_def)
qed

lemma notify_step_ok:
  assumes "accepts_well_typed v" "2 \<in> N" "make_destination c ch to sub = Inr d"
    "plain_destination d"
  shows "step_ok v (default_registry env) N (notify_step d 3 2)"
proof (cases "d_connector d = ''slack''")
  case True
  then obtain x where x: "d_channel d = Some x" "plain x"
    using make_destination_Inr [OF assms(3)] assms(4) by (cases "d_channel d") (auto simp: plain_destination_def)
  have "is_ok (v slack_args (candidate slack_args [(''channel'', PStr x), (''text'', PStr (step_ref 2 ''slack_text''))]))"
    using x(2) step_ref_ref
    by (intro assms(1) [unfolded accepts_well_typed_def, rule_format])
      (simp add: well_typed_def candidate_def slack_args_def req_def plain_def)
  then show ?thesis using True x assms(2) step_ref_ref
    by (simp add: notify_step_def step_ok_def get_default_tools default_schemas when_ok_def NOTIFY_def
        ref_ok_def promotion_refs plain_def) (simp add: slack_args_def req_def)
next
  case False
  then obtain x where x: "d_to d = Some x" "plain x"
    using make_destination_Inr [OF assms(3)] assms(4) by (cases "d_to d") (auto simp: plain_destination_def)
  define sb where "sb = (if given (d_subject d) then the (d_subject d) else step_ref 2 ''email_subject'')"
  have sb: "plain sb \<or> sb = step_ref 2 ''email_subject''"
    using assms(4) by (cases "d_subject d") (auto simp: sb_def plain_destination_def)
  have "is_ok (v email_args (candidate email_args [(''to'', PStr x), (''subject'', PStr sb),
      (''body'', PStr (step_ref 2 ''email_body''))]))"
    using x(2) step_ref_ref sb
    by (intro assms(1) [unfolded accepts_well_typed_def, rule_format])
      (auto simp: well_typed_def candidate_def email_args_def req_def plain_def)
  moreover have "\<not> prefix ''$'' sb \<or> ref_ok 3 N sb"
    using sb assms(2) by (auto simp: plain_def ref_ok_def promotion_refs)
  ultimately show ?thesis using False x assms(2) step_ref_ref
    by (simp add: notify_step_def step_ok_def get_default_tools default_schemas when_ok_def NOTIFY_def
        ref_ok_def [of _ _ "step_ref 2 ''email_body''"] promotion_refs plain_def flip: sb_def)
      (auto simp: email_args_def req_def)
qed

section \<open>Properties\<close>

text \<open>The default registry is a read-only catalogue with two auditable exceptions: it is built
  without a name clash, every tool is in an allowed category and none needs approval, a tool declared
  read-only leaves the store as it is, and a tool that is not is of category NOTIFY and leaves every
  table but the outbox as it is.\<close>

theorem default_registry_policy:
  "build_default_registry env = Inr (default_registry env) \<and> registry_wf (default_registry env) \<and>
   list_all (\<lambda>(n, s). t_category s \<in> set allowed_tool_categories \<and> \<not> t_requires_approval s \<and>
     (if t_read_only s then snd (t_execute s a st) = st
      else t_category s = NOTIFY \<and> workflows (snd (t_execute s a st)) = workflows st \<and>
        runs (snd (t_execute s a st)) = runs st \<and> step_results (snd (t_execute s a st)) = step_results st \<and>
        templates (snd (t_execute s a st)) = templates st)) (default_registry env)"
proof (intro conjI build_default_registry_Inr default_registry_wf)
  have "t_category s \<in> set allowed_tool_categories \<and> \<not> t_requires_approval s"
    if "s \<in> set (default_specs env)" for s
    using that by (auto simp: default_specs_def tool_def allowed_tool_categories_def)
  moreover have "if t_read_only s then snd (t_execute s a st) = st
      else t_category s = NOTIFY \<and> workflows (snd (t_execute s a st)) = workflows st \<and>
        runs (snd (t_execute s a st)) = runs st \<and> step_results (snd (t_execute s a st)) = step_results st \<and>
        templates (snd (t_execute s a st)) = templates st"
    if "s \<in> set (default_specs env)" for s
    using tool_effect [OF that, of a st] by (auto simp: write_outbox_frame)
  ultimately show "list_all (\<lambda>(n, s). t_category s \<in> set allowed_tool_categories \<and> \<not> t_requires_approval s \<and>
     (if t_read_only s then snd (t_execute s a st) = st
      else t_category s = NOTIFY \<and> workflows (snd (t_execute s a st)) = workflows st \<and>
        runs (snd (t_execute s a st)) = runs st \<and> step_results (snd (t_execute s a st)) = step_results st \<and>
        templates (snd (t_execute s a st)) = templates st)) (default_registry env)"
    by (simp add: list_all_iff default_registry_def)
qed

text \<open>C32: A run of any plan over the default tools, from READY and under a free key, returns: it never
  raises, whatever the plan, the arguments and the services do.  It ends COMPLETED or FAILED, the
  workflow is in the state the result reports, and the row of the run records the same status, its
  key and a finish time.\<close>

theorem run_recorded:
  assumes "store_inv st" "inj (ids st)" "state_of st wid = Some READY" "\<not> key_taken wid k st"
  shows "\<exists>rr st' r s. execute v (default_registry env) wid plan payload k st = (Inr rr, st') \<and>
    s \<in> {COMPLETED, FAILED} \<and> rr_status rr = state_value s \<and> state_of st' wid = Some s \<and>
    get_run (rr_run_id rr) st' = Some r \<and> r_status r = state_value s \<and> r_workflow_id r = wid \<and>
    r_key r = k \<and> r_finished_at r \<noteq> None"
  by (rule dr.execute_recorded [OF assms])

definition ready_store :: store where
  "ready_store = snd (create_workflow None ''i'' None None READY
     (empty_store (\<lambda>n. replicate n (CHR ''x'')) (\<lambda>_. [])))"

lemma ready_store_facts:
  "store_inv ready_store" "inj (ids ready_store)" "state_of ready_store [] = Some READY" "runs ready_store = []"
proof -
  show "store_inv ready_store" unfolding ready_store_def by (intro inv_intros store_inv_empty)
  have "inj (\<lambda>n. replicate n (CHR ''x''))" by (rule injI) (metis length_replicate)
  then show "inj (ids ready_store)"
    by (simp add: ready_store_def create_workflow_def new_id_def now_iso_def empty_store_def)
  show "state_of ready_store [] = Some READY" "runs ready_store = []"
    by (simp_all add: ready_store_def create_workflow_def new_id_def now_iso_def empty_store_def state_of_def
        get_workflow_def fresh_row_def)
qed

definition demo_tools :: tool_env where
  "demo_tools = \<lparr>te_features = (\<lambda>_. Inr PNone), te_history = (\<lambda>_. Inr PNone), te_gate = (\<lambda>q. Inr q),
     te_llm = (\<lambda>_. Inl (Exn ConnectionError ''down'')),
     te_db = \<lparr>db_open = Inr (), db_run = (\<lambda>_. Inr ([''N''], [PList [PInt 1]]))\<rparr>,
     te_count = (\<lambda>_ _ _. Inr 2), te_fromiso = (\<lambda>_. None), te_str = (\<lambda>_. ''x''), te_now = ''now'',
     te_url = None, te_post = (\<lambda>_ _. False)\<rparr>"

theorem run_recorded_witness:
  "\<exists>rr st' s. execute (\<lambda>_ d. Inr d) (default_registry demo_tools) [] two_steps None (Some ''daily:2024-03-01'') ready_store =
     (Inr rr, st') \<and> s \<in> {COMPLETED, FAILED} \<and> state_of st' [] = Some s"
proof -
  have "\<not> key_taken [] (Some ''daily:2024-03-01'') ready_store"
    by (simp add: key_taken_def run_exists_for_key_def ready_store_facts)
  from run_recorded [OF ready_store_facts(1,2,3) this] show ?thesis by blast
qed

text \<open>No duplicate reports: once a fire has produced a run, every later fire of the same workflow
  and period, whatever operations the store saw in between, runs nothing, sends nothing and leaves
  the store as it is.\<close>

theorem fire_idempotent:
  assumes "fire senv (default_registry env) wid f dt st = (Inr (Some rr), st1)"
    and "store_step\<^sup>*\<^sup>* st1 st2" "run_key f dt' = run_key f dt"
  shows "fire senv (default_registry env) wid f dt' st2 = (Inr None, st2)"
  by (rule dr.fire_once [OF assms])

definition early_fire :: datetime where
  "early_fire = leap_fire\<lparr>year := 4\<rparr>"

theorem fire_idempotent_witness:
  "\<exists>st1. fire demo_env (default_registry demo_tools) ''w'' ''daily'' (early_fire\<lparr>hour := 23\<rparr>) st1 = (Inr None, st1) \<and>
    runs st1 \<noteq> []"
proof -
  let ?x = "fire demo_env (default_registry demo_tools) ''w'' ''daily'' early_fire (rt_store demo_runtime)"
  have "case fst ?x of Inr (Some _) \<Rightarrow> True | _ \<Rightarrow> False" by code_simp
  then obtain rr st1 where f: "?x = (Inr (Some rr), st1)"
    by (cases ?x; cases "fst ?x") (auto split: option.splits)
  have k: "run_key ''daily'' (early_fire\<lparr>hour := 23\<rparr>) = run_key ''daily'' early_fire"
    by (simp add: run_key_def date_text_def)
  have "run_exists_for_key ''w'' (run_key ''daily'' early_fire) st1" by (rule dr.fire_takes_key [OF f])
  then have "runs st1 \<noteq> []" by (auto simp: run_exists_for_key_def)
  then show ?thesis using fire_idempotent [OF f rtranclp.rtrancl_refl k] by blast
qed

text \<open>A promoted report always passes the feasibility check of the default registry and never asks
  for approval, for every destination that could be built, with or without a window and a valid
  schedule, given that validation accepts well-typed arguments and that no user text starts with the
  dollar sign of a reference.\<close>

theorem promotion_feasible:
  assumes "accepts_well_typed v" "make_destination c ch to sub = Inr d" "plain_destination d"
    and "plain title" "plain ref"
    and "case sched of None \<Rightarrow> True | Some p \<Rightarrow> \<exists>sc. make_schedule zone_ok p = Inr sc"
  shows "fr_ok (check_plan zone_ok v (default_registry env) (build_report_plan title ref d windowed sched goal)) \<and>
    \<not> fr_requires_approval (check_plan zone_ok v (default_registry env)
        (build_report_plan title ref d windowed sched goal))"
proof -
  let ?plan = "build_report_plan title ref d windowed sched goal"
  let ?N = "{1, 2, 3} :: int set"
  have pn: "ps_number (notify_step d 3 2) = 3" by (simp add: notify_step_def)
  have N: "ps_number ` set (pl_steps ?plan) = ?N" by (auto simp: build_report_plan_def Let_def pn)
  have "\<forall>s\<in>set (pl_steps ?plan). step_ok v (default_registry env) ?N s"
    using run_step_ok [OF assms(1,5), of env ?N windowed] format_step_ok [OF assms(1,4), of ?N env]
      notify_step_ok [OF assms(1) _ assms(2,3), of ?N env]
    by (simp add: build_report_plan_def Let_def)
  moreover have "case sched of None \<Rightarrow> True | Some p \<Rightarrow> \<exists>sc. make_schedule zone_ok p = Inr sc"
    by (rule assms(6))
  ultimately have "plan_ok zone_ok v (default_registry env) ?plan"
    unfolding plan_ok_def N by (simp add: build_report_plan_def Let_def)
  then have ok: "fr_ok (check_plan zone_ok v (default_registry env) ?plan)"
    using check_plan_iff by blast
  have "\<not> t_requires_approval s" if "get_tool (default_registry env) n = Some s" for n s
    using get_default [OF that] by (auto simp: default_specs_def tool_def)
  then show ?thesis using ok requires_approval_iff [OF ok] by blast
qed

theorem promotion_feasible_witness:
  "\<exists>d. make_destination ''Slack'' (Some ''#fraud-ops'') None None = Inr d \<and>
    fr_ok (check_plan (\<lambda>_. True) (\<lambda>_ x. Inr x) (default_registry demo_tools)
      (build_report_plan ''Daily'' ''fraud_performance'' d True (Some nightly) None))"
proof -
  let ?d = "\<lparr>d_connector = ''slack'', d_channel = Some ''#fraud-ops'', d_to = None, d_subject = None\<rparr>"
  have d: "make_destination ''Slack'' (Some ''#fraud-ops'') None None = Inr ?d" by code_simp
  have p: "plain_destination ?d" "plain ''Daily''" "plain ''fraud_performance''"
    by (simp_all add: plain_destination_def plain_def)
  have a: "accepts_well_typed (\<lambda>_ x. Inr x)" by (simp add: accepts_well_typed_def)
  have "case make_schedule (\<lambda>_. True) nightly of Inl _ \<Rightarrow> False | Inr _ \<Rightarrow> True" by code_simp
  then have "case Some nightly of None \<Rightarrow> True | Some p \<Rightarrow> \<exists>sc. make_schedule (\<lambda>_. True) p = Inr sc"
    by (simp split: sum.splits)
  from promotion_feasible [OF a d p this] d show ?thesis by blast
qed

section \<open>What the tools learn from the warehouse\<close>

context sql_gate
begin

text \<open>Two warehouses that answer the safe statements alike cannot be told apart through the gate.\<close>

lemma ask_blind:
  assumes "\<And>q. safe q \<Longrightarrow> run q = run' q"
  shows "ask gate llm opn run question a = ask gate llm opn run' question a"
proof (cases "llm question")
  case (Inr g)
  show ?thesis
  proof (cases "gate (gq_sql g)")
    case (Inr q)
    then have "run q = run' q" using assms gate_safe by blast
    then show ?thesis using Inr \<open>llm question = Inr g\<close> by (simp add: ask_def)
  qed (simp add: ask_def Inr)
qed (simp add: ask_def)

lemma report_blind:
  assumes "db_open db = db_open db'" "\<And>q. safe q \<Longrightarrow> db_run db q = db_run db' q"
  shows "run_validated_report gate db fromiso tmpl ws we sent = run_validated_report gate db' fromiso tmpl ws we sent"
proof (cases "and_then (gate tmpl) (\<lambda>_. and_then (substitute_window fromiso tmpl ws we) gate)")
  case (Inr q)
  then have "safe q" by (auto elim!: and_then.elims dest: gate_safe)
  then have "db_run db q = db_run db' q" by (rule assms(2))
  then show ?thesis unfolding run_validated_report_def Inr sum.case assms(1) by (rule ssubst) (rule refl)
qed (simp only: run_validated_report_def sum.case)

lemma registry_blind:
  assumes "te_gate env = gate" "db_open db = db_open (te_db env)" "\<And>q. safe q \<Longrightarrow> db_run db q = db_run (te_db env) q"
  shows "default_specs (env\<lparr>te_db := db\<rparr>) = default_specs env"
proof -
  have a: "query_decisions (env\<lparr>te_db := db\<rparr>) = query_decisions env"
    by (simp add: fun_eq_iff query_decisions_def assms(1,2) ask_blind [of "db_run db" "db_run (te_db env)", OF assms(3)])
  have r: "run_report_query (env\<lparr>te_db := db\<rparr>) = run_report_query env"
    by (simp add: fun_eq_iff run_report_query_def assms(1) report_blind [OF assms(2,3)])
  have t: "report_tool (env\<lparr>te_db := db\<rparr>) = report_tool env" by (simp add: fun_eq_iff report_tool_def r)
  have c: "count_recent_decisions (env\<lparr>te_db := db\<rparr>) = count_recent_decisions env" "slack_tool (env\<lparr>te_db := db\<rparr>) = slack_tool env"
    "email_tool (env\<lparr>te_db := db\<rparr>) = email_tool env"
    by (simp_all add: fun_eq_iff count_recent_decisions_def slack_tool_def email_tool_def split: sum.split prod.split)
  show ?thesis by (simp add: default_specs_def a t c)
qed

end

lemma default_registry_blind:
  assumes "te_gate env = validate_sql lib v" "db_open db = db_open (te_db env)"
    and "\<And>q. vetted lib v q \<Longrightarrow> db_run db q = db_run (te_db env) q"
  shows "default_registry (env\<lparr>te_db := db\<rparr>) = default_registry env"
  by (simp add: default_registry_def guard.registry_blind [OF assms])

end
