(* ===== verification/Api.thy ===== *)
theory Api
  imports Tools_Bridge
begin

text \<open>
  \<open>workflow_engine/api.py\<close>: the routes over the engine.  A route is a function of its request and of
  the store (or of the scheduler runtime, where it registers a job); an HTTP error is the exception
  \<open>HTTPException\<close> with its status, any other exception is what FastAPI turns into a 500.

  Responses are the values the handlers build; their JSON encoding is FastAPI's.  The language model
  of the planner, the reading of request bodies by pydantic, the zone database and the BI validator
  are fields of \<open>engine\<close>.
\<close>

section \<open>Engine, requests and responses\<close>

record engine =
  en_sched :: sched_env
  en_reg :: "store registry"
  en_llm :: llm
  en_pystr :: "pydict \<Rightarrow> string"
  en_zone :: "string \<Rightarrow> bool"
  en_gate :: "string \<Rightarrow> pyexn + string"
  en_kwargs :: "pydict \<Rightarrow> pyexn + planned_schedule"

text \<open>\<open>build_engine\<close> without a mock: the default registry over the store.\<close>

definition engine_of :: "tool_env \<Rightarrow> sched_env \<Rightarrow> llm \<Rightarrow> (pydict \<Rightarrow> string) \<Rightarrow> (string \<Rightarrow> bool)
    \<Rightarrow> (string \<Rightarrow> pyexn + string) \<Rightarrow> (pydict \<Rightarrow> pyexn + planned_schedule) \<Rightarrow> engine" where
  "engine_of tenv senv llm pystr zone gate kwargs =
    \<lparr>en_sched = senv, en_reg = default_registry tenv, en_llm = llm, en_pystr = pystr, en_zone = zone,
     en_gate = gate, en_kwargs = kwargs\<rparr>"

definition build_engine :: "tool_env \<Rightarrow> sched_env \<Rightarrow> llm \<Rightarrow> (pydict \<Rightarrow> string) \<Rightarrow> (string \<Rightarrow> bool)
    \<Rightarrow> (string \<Rightarrow> pyexn + string) \<Rightarrow> (pydict \<Rightarrow> pyexn + planned_schedule) \<Rightarrow> pyexn + engine" where
  "build_engine tenv senv llm pystr zone gate kwargs =
    and_then (build_default_registry tenv) (\<lambda>reg.
      Inr \<lparr>en_sched = senv, en_reg = reg, en_llm = llm, en_pystr = pystr, en_zone = zone,
           en_gate = gate, en_kwargs = kwargs\<rparr>)"

record create_request =
  cq_instruction :: string
  cq_user_id :: "string option"

record destination_model =
  dm_connector :: string
  dm_channel :: "string option"
  dm_to :: "string option"
  dm_subject :: "string option"

record schedule_request =
  sq_title :: string
  sq_sql :: string
  sq_schedule :: pydict
  sq_destination :: destination_model
  sq_user_id :: "string option"
  sq_report :: "string option"

record deliver_request =
  dq_title :: string
  dq_sql :: string
  dq_destination :: destination_model
  dq_user_id :: "string option"

record create_response =
  cr_workflow_id :: string
  cr_state :: workflow_state
  cr_plan :: workflow_plan
  cr_feasibility :: feasibility_report

record workflow_view =
  wv_workflow :: wf_row
  wv_plan :: "workflow_plan option"
  wv_last_run :: "run_row option"
  wv_last_run_steps :: "step_row list"

record schedule_response =
  sr_workflow_id :: string
  sr_plan :: workflow_plan
  sr_schedule :: string
  sr_next_run :: "string option"

record preview_response =
  pv_plan :: workflow_plan
  pv_schedule :: string
  pv_next_run :: "string option"
  pv_ok :: bool
  pv_errors :: "string list"

definition http :: "nat \<Rightarrow> string \<Rightarrow> pyexn" where
  "http status detail = Exn (HTTPException status) detail"

section \<open>Helpers\<close>

definition plan_of :: "engine \<Rightarrow> wf_row \<Rightarrow> pyexn + workflow_plan option" where
  "plan_of en r =
    (case w_plan_json r of
       None \<Rightarrow> Inr None
     | Some j \<Rightarrow> if j = [] then Inr None else and_then (e_load_plan (en_sched en) j) (\<lambda>p. Inr (Some p)))"

definition step_payload :: "outcome \<Rightarrow> pyval" where
  "step_payload out = PDict [(''step_number'', PInt (oc_number out)), (''tool_name'', PStr (oc_tool out)),
     (''status'', PStr (oc_status out)), (''result'', oc_result out), (''error'', opt_val (oc_error out)),
     (''reason'', opt_val (oc_reason out))]"

definition run_payload :: "run_result \<Rightarrow> pydict" where
  "run_payload rr = [(''run_id'', PStr (rr_run_id rr)), (''status'', PStr (rr_status rr)),
     (''error'', opt_val (rr_error rr)), (''steps'', PList (map step_payload (rr_steps rr)))]"

definition api_arm :: "string \<Rightarrow> store \<Rightarrow> (unit, store) out" where
  "api_arm wid st =
    (case get_workflow wid st of
       None \<Rightarrow> (Inl (Exn TypeError ''NoneType object is not subscriptable''), st)
     | Some r \<Rightarrow>
        if w_state r = READY then (Inr (), st)
        else if w_state r \<in> {FEASIBLE, COMPLETED, FAILED} then transition wid READY st
        else if w_state r = AWAITING_APPROVAL
        then (Inl (http 409 ''workflow requires approval before it can run''), st)
        else (Inl (http 409 (''workflow in state '' @ state_value (w_state r) @ '' cannot run'')), st))"

section \<open>Workflow routes\<close>

definition create_state :: "feasibility_report \<Rightarrow> workflow_state" where
  "create_state rep =
    (if \<not> fr_ok rep then REJECTED else if fr_requires_approval rep then AWAITING_APPROVAL else READY)"

definition route_create :: "engine \<Rightarrow> create_request \<Rightarrow> store \<Rightarrow> (create_response, store) out" where
  "route_create en rq st =
    seq (create_workflow (cq_user_id rq) (cq_instruction rq) None None SUBMITTED st) (\<lambda>wid st.
    seq (transition wid PLANNED st) (\<lambda>_ st.
      case make_plan (en_llm en) (en_reg en) (en_pystr en) (cq_instruction rq) None of
        Inl e \<Rightarrow> (Inl e, st)
      | Inr plan \<Rightarrow>
         (let st = set_trigger wid (pl_trigger plan) (set_plan wid (e_dump_plan (en_sched en) plan) st);
              rep = check_plan (en_zone en) (e_validate (en_sched en)) (en_reg en) plan
          in seq (if fr_ok rep
                  then seq (transition wid FEASIBLE st) (\<lambda>_ st.
                         transition wid (if fr_requires_approval rep then AWAITING_APPROVAL else READY) st)
                  else transition wid REJECTED st) (\<lambda>_ st.
               case get_workflow wid st of
                 None \<Rightarrow> (Inl (Exn TypeError ''NoneType object is not subscriptable''), st)
               | Some r \<Rightarrow> (Inr \<lparr>cr_workflow_id = wid, cr_state = w_state r, cr_plan = plan,
                                cr_feasibility = rep\<rparr>, st)))))"

definition route_list :: "store \<Rightarrow> wf_row list" where
  "route_list st = list_workflows 50 st"

definition route_get :: "engine \<Rightarrow> string \<Rightarrow> store \<Rightarrow> pyexn + workflow_view" where
  "route_get en wid st =
    (case get_workflow wid st of
       None \<Rightarrow> Inl (http 404 ''no such workflow'')
     | Some r \<Rightarrow>
        and_then (plan_of en r) (\<lambda>p.
          Inr \<lparr>wv_workflow = r, wv_plan = p, wv_last_run = latest_run wid st,
               wv_last_run_steps = (case latest_run wid st of None \<Rightarrow> []
                                    | Some run \<Rightarrow> steps_for_run (r_run_id run) st)\<rparr>))"

definition route_approve :: "string \<Rightarrow> store \<Rightarrow> (string \<times> string, store) out" where
  "route_approve wid st =
    (case get_workflow wid st of
       None \<Rightarrow> (Inl (http 404 ''no such workflow''), st)
     | Some r \<Rightarrow>
        if w_state r \<noteq> AWAITING_APPROVAL
        then (Inl (http 409 (''workflow is '' @ state_value (w_state r) @ '', not AWAITING_APPROVAL'')), st)
        else seq (transition wid READY st) (\<lambda>_ st. (Inr (wid, ''READY''), st)))"

definition route_execute :: "engine \<Rightarrow> string \<Rightarrow> pydict option \<Rightarrow> store \<Rightarrow> (pydict, store) out" where
  "route_execute en wid payload st =
    (case get_workflow wid st of
       None \<Rightarrow> (Inl (http 404 ''no such workflow''), st)
     | Some r \<Rightarrow>
        (case plan_of en r of
           Inl e \<Rightarrow> (Inl e, st)
         | Inr None \<Rightarrow> (Inl (http 400 ''workflow has no executable plan''), st)
         | Inr (Some plan) \<Rightarrow>
            if pl_steps plan = [] then (Inl (http 400 ''workflow has no executable plan''), st)
            else seq (api_arm wid st) (\<lambda>_ st.
                 seq (execute (e_validate (en_sched en)) (en_reg en) wid plan payload None st) (\<lambda>rr st.
                   (Inr (run_payload rr), st)))))"

text \<open>The loop of \<open>fire_event\<close> over the rows that matched before it started.\<close>

fun event_runs :: "engine \<Rightarrow> pydict \<Rightarrow> wf_row list \<Rightarrow> (string \<times> pydict) list \<Rightarrow> store
    \<Rightarrow> ((string \<times> pydict) list, store) out" where
  "event_runs en payload [] acc st = (Inr acc, st)"
| "event_runs en payload (r # rs) acc st =
    (case plan_of en r of
       Inl e \<Rightarrow> (Inl e, st)
     | Inr None \<Rightarrow> event_runs en payload rs acc st
     | Inr (Some plan) \<Rightarrow>
        if pl_steps plan = [] then event_runs en payload rs acc st
        else seq (api_arm (w_id r) st) (\<lambda>_ st.
             seq (execute (e_validate (en_sched en)) (en_reg en) (w_id r) plan (Some payload) None st)
               (\<lambda>rr st. event_runs en payload rs (acc @ [(w_id r, run_payload rr)]) st)))"

definition route_event :: "engine \<Rightarrow> string \<Rightarrow> pydict \<Rightarrow> store
    \<Rightarrow> (nat \<times> (string \<times> pydict) list, store) out" where
  "route_event en event_type payload st =
    (let matched = workflows_for_trigger event_type st
     in seq (event_runs en payload matched [] st) (\<lambda>rs st. (Inr (length matched, rs), st)))"

definition route_outbox :: "store \<Rightarrow> outbox_row list" where
  "route_outbox st = outbox 50 st"

section \<open>Report routes\<close>

definition validate_or_422 :: "engine \<Rightarrow> string \<Rightarrow> pyexn + string" where
  "validate_or_422 en sql =
    (case en_gate en sql of
       Inr safe_sql \<Rightarrow> Inr safe_sql
     | Inl (Exn k t) \<Rightarrow>
        if k = QueryRejected then Inl (http 422 (''SQL rejected by guard: '' @ t)) else Inl (Exn k t))"

text \<open>The named report, the validated SQL, and whether it takes a window.\<close>

definition resolve_source :: "engine \<Rightarrow> string option \<Rightarrow> string \<Rightarrow> pyexn + string option \<times> string option \<times> bool" where
  "resolve_source en report sql =
    (if given report
     then (case map_of report_catalog (the report) of
             None \<Rightarrow> Inl (http 422 (''unknown named report '' @ the report))
           | Some (_, tsql) \<Rightarrow> Inr (report, None, contains tsql '':window_start''))
     else if sql = [] then Inl (http 400 ''provide either a named 'report' or 'sql' '')
     else and_then (validate_or_422 en sql) (\<lambda>safe_sql.
            Inr (None, Some safe_sql, contains safe_sql '':window_start'')))"

definition api_destination :: "destination_model \<Rightarrow> pyexn + destination" where
  "api_destination dm =
    (case make_destination (dm_connector dm) (dm_channel dm) (dm_to dm) (dm_subject dm) of
       Inr d \<Rightarrow> Inr d
     | Inl (Exn k t) \<Rightarrow> if k = ValueError then Inl (http 400 t) else Inl (Exn k t))"

definition api_schedule :: "engine \<Rightarrow> pydict \<Rightarrow> pyexn + schedule" where
  "api_schedule en d =
    (case en_kwargs en d of
       Inl e \<Rightarrow> Inl (http 400 (''invalid schedule: '' @ exn_text e))
     | Inr p \<Rightarrow>
        (case make_schedule (en_zone en) p of
           Inl (loc, msg) \<Rightarrow> Inl (http 400 (''invalid schedule: '' @ loc @ '' '' @ msg))
         | Inr sc \<Rightarrow> Inr sc))"

text \<open>The common first half of preview and schedule.\<close>

definition report_inputs :: "engine \<Rightarrow> schedule_request
    \<Rightarrow> pyexn + (string option \<times> string option \<times> bool) \<times> schedule \<times> destination" where
  "report_inputs en rq =
    and_then (resolve_source en (sq_report rq) (sq_sql rq)) (\<lambda>src.
    and_then (api_schedule en (sq_schedule rq)) (\<lambda>sc.
    and_then (api_destination (sq_destination rq)) (\<lambda>d. Inr (src, sc, d))))"

definition route_preview :: "engine \<Rightarrow> schedule_request \<Rightarrow> pyexn + preview_response" where
  "route_preview en rq =
    and_then (report_inputs en rq) (\<lambda>((named, safe_sql, windowed), sc, d).
      let plan = build_report_plan (sq_title rq)
            (if given named then the named else ''(validated stored query)'') d windowed
            (Some (planned_of sc)) None;
          rep = check_plan (en_zone en) (e_validate (en_sched en)) (en_reg en) plan
      in and_then (describe sc) (\<lambda>txt.
         and_then (e_next_fire (en_sched en) sc) (\<lambda>t.
           Inr \<lparr>pv_plan = plan, pv_schedule = txt, pv_next_run = t, pv_ok = fr_ok rep,
                pv_errors = fr_errors rep\<rparr>)))"

text \<open>The rows of a promoted workflow: created, planned, given its plan, and made READY; \<open>prepare\<close> is
  what happens between the plan and the two transitions.\<close>

definition promote_rows :: "engine \<Rightarrow> string option \<Rightarrow> string \<Rightarrow> workflow_plan
    \<Rightarrow> (string \<Rightarrow> store \<Rightarrow> (unit, store) out) \<Rightarrow> store \<Rightarrow> (string, store) out" where
  "promote_rows en uid instr plan prepare st =
    seq (create_workflow uid instr None None SUBMITTED st) (\<lambda>wid st.
    seq (transition wid PLANNED st) (\<lambda>_ st.
    seq (prepare wid (set_plan wid (e_dump_plan (en_sched en) plan) st)) (\<lambda>_ st.
    seq (transition wid FEASIBLE st) (\<lambda>_ st.
    seq (transition wid READY st) (\<lambda>_ st. (Inr wid, st))))))"

text \<open>The plan of a promotion whose reference may be missing (\<open>named or tid\<close>).\<close>

definition promotion_plan :: "string \<Rightarrow> string option \<Rightarrow> destination \<Rightarrow> bool \<Rightarrow> planned_schedule option
    \<Rightarrow> workflow_plan" where
  "promotion_plan title report_ref d windowed sched =
    (case report_ref of
       Some r \<Rightarrow> build_report_plan title r d windowed sched None
     | None \<Rightarrow>
        (let p = build_report_plan title [] d windowed sched None
         in p\<lparr>pl_steps := map (\<lambda>s. s\<lparr>ps_args := AList.update ''report'' PNone (ps_args s)\<rparr>)
                   (take 1 (pl_steps p)) @ drop 1 (pl_steps p)\<rparr>))"

definition join_errors :: "string list \<Rightarrow> string" where
  "join_errors es = join ''; '' es"

definition route_schedule :: "engine \<Rightarrow> schedule_request \<Rightarrow> runtime \<Rightarrow> (schedule_response, runtime) out" where
  "route_schedule en rq rt =
    (case report_inputs en rq of
       Inl e \<Rightarrow> (Inl e, rt)
     | Inr ((named, safe_sql, windowed), sc, d) \<Rightarrow>
        seq (lift_store rt
              (if given safe_sql
               then seq (save_template (the safe_sql) (Some (sq_title rq)) None (rt_store rt))
                      (\<lambda>tid st. (Inr (Some tid), st))
               else (Inr None, rt_store rt))) (\<lambda>tid rt.
          let plan = promotion_plan (sq_title rq) (if given named then named else tid) d windowed
                (Some (planned_of sc));
              rep = check_plan (en_zone en) (e_validate (en_sched en)) (en_reg en) plan
          in if \<not> fr_ok rep then (Inl (http 422 (join_errors (fr_errors rep))), rt)
             else seq (lift_store rt
                    (promote_rows en (sq_user_id rq) (''[scheduled] '' @ sq_title rq) plan
                      (\<lambda>wid. set_schedule wid (e_dump_schedule (en_sched en) sc)
                        (Some (e_dumps (en_sched en) (PDict (destination_json d)))) tid) (rt_store rt))) (\<lambda>wid rt.
                  seq (schedule_workflow (en_sched en) wid sc rt) (\<lambda>t rt.
                    case describe sc of
                      Inl e \<Rightarrow> (Inl e, rt)
                    | Inr txt \<Rightarrow> (Inr \<lparr>sr_workflow_id = wid, sr_plan = plan, sr_schedule = txt,
                                    sr_next_run = t\<rparr>, rt)))))"

definition route_deliver :: "engine \<Rightarrow> deliver_request \<Rightarrow> store
    \<Rightarrow> (string \<times> pydict \<times> outbox_row list, store) out" where
  "route_deliver en rq st =
    (case and_then (validate_or_422 en (dq_sql rq)) (\<lambda>s.
            and_then (api_destination (dq_destination rq)) (\<lambda>d. Inr (s, d))) of
       Inl e \<Rightarrow> (Inl e, st)
     | Inr (safe_sql, d) \<Rightarrow>
        seq (save_template safe_sql (Some (dq_title rq)) None st) (\<lambda>tid st.
          let plan = build_report_plan (dq_title rq) tid d False None None;
              rep = check_plan (en_zone en) (e_validate (en_sched en)) (en_reg en) plan
          in if \<not> fr_ok rep then (Inl (http 422 (join_errors (fr_errors rep))), st)
             else seq (promote_rows en (dq_user_id rq) (''[deliver] '' @ dq_title rq) plan
                        (\<lambda>_ st. (Inr (), st)) st) (\<lambda>wid st.
                  seq (execute (e_validate (en_sched en)) (en_reg en) wid plan None None st) (\<lambda>rr st.
                    (Inr (wid, run_payload rr, outbox 50 st), st)))))"

definition route_pause :: "string \<Rightarrow> runtime \<Rightarrow> (string, runtime) out" where
  "route_pause wid rt =
    (case get_workflow wid (rt_store rt) of
       None \<Rightarrow> (Inl (http 404 ''no such workflow''), rt)
     | Some _ \<Rightarrow> seq (pause_job wid rt) (\<lambda>_ rt. (Inr wid, rt)))"

definition route_resume :: "engine \<Rightarrow> string \<Rightarrow> runtime \<Rightarrow> (string \<times> string option, runtime) out" where
  "route_resume en wid rt =
    (case get_workflow wid (rt_store rt) of
       None \<Rightarrow> (Inl (http 404 ''no such workflow''), rt)
     | Some r \<Rightarrow>
        if w_trigger_type r \<noteq> ''schedule'' then (Inl (http 409 ''workflow is not schedule-triggered''), rt)
        else seq (resume_job (en_sched en) wid rt) (\<lambda>_ rt.
          case get_workflow wid (rt_store rt) of
            None \<Rightarrow> (Inl (Exn (OtherExn ''AttributeError'') ''NoneType object has no attribute get''), rt)
          | Some r \<Rightarrow> (Inr (wid, w_next_run_at r), rt)))"

section \<open>Serving a sequence of requests and timer fires\<close>

datatype api_event = ECreate create_request | EApprove string | EExecute string "pydict option"
  | EEvent string pydict | ESchedule schedule_request | EDeliver deliver_request | EPause string
  | EResume string | EFire string string datetime

fun handle :: "engine \<Rightarrow> api_event \<Rightarrow> runtime \<Rightarrow> runtime" where
  "handle en (ECreate rq) rt = snd (lift_store rt (route_create en rq (rt_store rt)))"
| "handle en (EApprove wid) rt = snd (lift_store rt (route_approve wid (rt_store rt)))"
| "handle en (EExecute wid p) rt = snd (lift_store rt (route_execute en wid p (rt_store rt)))"
| "handle en (EEvent ty p) rt = snd (lift_store rt (route_event en ty p (rt_store rt)))"
| "handle en (ESchedule rq) rt = snd (route_schedule en rq rt)"
| "handle en (EDeliver rq) rt = snd (lift_store rt (route_deliver en rq (rt_store rt)))"
| "handle en (EPause wid) rt = snd (route_pause wid rt)"
| "handle en (EResume wid) rt = snd (route_resume en wid rt)"
| "handle en (EFire wid f t) rt = snd (lift_store rt (fire (en_sched en) (en_reg en) wid f t (rt_store rt)))"

fun serve :: "engine \<Rightarrow> api_event list \<Rightarrow> runtime \<Rightarrow> runtime" where
  "serve en [] rt = rt"
| "serve en (ev # evs) rt = serve en evs (handle en ev rt)"

section \<open>What a sequence of requests keeps\<close>

lemma lift_store_simps [simp]:
  "rt_store (snd (lift_store rt r)) = snd r" "fst (lift_store rt r) = fst r"
  "lift_store rt r = (Inr a, rt') \<longleftrightarrow> fst r = Inr a \<and> rt' = rt\<lparr>rt_store := snd r\<rparr>"
  by (auto simp: lift_store_def)

lemma job_store [simp]:
  "rt_store (add_job w sc rt) = rt_store rt" "rt_store (remove_job w rt) = rt_store rt"
  by (simp_all add: add_job_def remove_job_def)

lemma promote_rows_created:
  "promote_rows en uid instr plan prepare st = (Inr w, st') \<Longrightarrow>
    \<exists>st1. create_workflow uid instr None None SUBMITTED st = (Inr w, st1)"
  by (auto simp: promote_rows_def seq_Inr_conv)

lemma resolve_source_gated:
  "resolve_source en report sql = Inr (named, Some safe_sql, windowed) \<Longrightarrow> en_gate en sql = Inr safe_sql"
  by (auto simp: resolve_source_def validate_or_422_def split: if_splits option.splits sum.splits pyexn.splits)

text \<open>An invariant \<open>I\<close> of the store under the operations the routes perform, where only the workflows
  in \<open>C\<close> may be moved and run: whatever was created or armed is in \<open>C\<close>, a stored query comes from the
  gate, and the tools keep \<open>I\<close>.\<close>

locale served =
  fixes en :: engine and I :: "store \<Rightarrow> bool" and C :: "string \<Rightarrow> bool"
  assumes create: "I st \<Longrightarrow> I (snd (create_workflow u i t p s st))"
    and created: "I st \<Longrightarrow> create_workflow u i t p s st = (Inr w, st') \<Longrightarrow> C w"
    and move: "I st \<Longrightarrow> C w \<Longrightarrow> I (snd (transition w to st))"
    and plan: "I st \<Longrightarrow> I (set_plan w' pj st)"
    and trigger: "I st \<Longrightarrow> I (set_trigger w' tr st)"
    and field: "I st \<Longrightarrow> I (snd (set_field w' c v st))"
    and template: "I st \<Longrightarrow> en_gate en q = Inr sql \<Longrightarrow> I (snd (save_template sql ti wo st))"
    and begin_run: "I st \<Longrightarrow> C w \<Longrightarrow> I (snd (start_run w k st))"
    and check: "I st \<Longrightarrow> I (checkpoint_step rid n tn a res status st)"
    and end_run: "I st \<Longrightarrow> I (finish_run rid status st)"
    and armed: "I st \<Longrightarrow> api_arm w st = (Inr x, st') \<Longrightarrow> C w"
      "I st \<Longrightarrow> arm_for_run w st = (Inr x, st') \<Longrightarrow> C w"
    and arm: "I st \<Longrightarrow> I (snd (api_arm w' st))" "I st \<Longrightarrow> I (snd (arm_for_run w' st))"
    and tools: "get_tool (en_reg en) tn = Some spec \<Longrightarrow> I st \<Longrightarrow> I (snd (t_execute spec ta st))"
begin

lemma schedule_fields: "I st \<Longrightarrow> I (snd (set_schedule w sj dj tid st))"
  unfolding set_schedule_def by (intro seq_inv [where I = I]; (simp add: field split: option.split)?)

lemma tool_call: "I st \<Longrightarrow> I (snd (execute_tool v (en_reg en) n a st))"
  unfolding execute_tool_def by (auto split: option.split sum.split intro: tools)

lemma one_step: "I (x_store xs) \<Longrightarrow> I (x_store (flow_state (run_step v (en_reg en) rid tr s xs)))"
  using refl [of "run_step v (en_reg en) rid tr s xs"]
proof (cases rule: run_step_cases)
  case (skip reason)
  assume "I (x_store xs)"
  then show ?thesis using skip by (simp add: skip_step_def check)
next
  case (fail err st)
  assume "I (x_store xs)"
  then have "I st" using fail(2) tool_call by auto
  then show ?thesis using fail(1) by (simp add: fail_step_def check)
next
  case (finished a res st)
  assume "I (x_store xs)"
  then have "I (snd (execute_tool v (en_reg en) (ps_tool s) a (x_store xs)))" by (rule tool_call)
  then have "I st" using finished(3) by simp
  then show ?thesis using finished(1) by (simp add: done_step_def check)
qed

lemma all_steps: "I (x_store xs) \<Longrightarrow> I (x_store (flow_state (run_steps v (en_reg en) rid tr ss xs)))"
  by (rule run_steps_invariant [where I = "\<lambda>ys. I (x_store ys)"]) (simp_all add: one_step)

lemma finishing: "I (x_store xs) \<Longrightarrow> C w \<Longrightarrow> I (snd (finish w rid s e xs))"
  unfolding finish_def by (rule seq_inv [where I = I]) (simp_all add: move end_run)

lemma execution:
  assumes "I st" "C w"
  shows "I (snd (execute v (en_reg en) w pl payload k st))"
  unfolding execute_def Let_def
proof (intro seq_inv [where I = I])
  show "I (snd (start_run w k st))" "\<And>s. I s \<Longrightarrow> I (snd (transition w RUNNING s))"
    using assms by (auto intro: begin_run move)
  show "I (snd (case run_steps v (en_reg en) rid (case payload of None \<Rightarrow> [] | Some d \<Rightarrow> d)
      (sort_key ps_number (pl_steps pl)) (exec_start s) of
        Halt err xs \<Rightarrow> finish w rid FAILED (Some err) xs | Go xs \<Rightarrow> finish w rid COMPLETED None xs))"
    if "I s" for rid s
    using all_steps [of "exec_start s"] that assms(2)
    by (auto simp: exec_start_def split: flow.split intro!: finishing) (metis exec_start_def flow_state.simps)+
qed

lemma events: "I st \<Longrightarrow> I (snd (event_runs en payload rs acc st))"
proof (induction rs arbitrary: acc st)
  case (Cons r rs)
  have "I (snd (seq (api_arm (w_id r) st) (\<lambda>_ st.
      seq (execute (e_validate (en_sched en)) (en_reg en) (w_id r) pl (Some payload) None st)
        (\<lambda>rr st. event_runs en payload rs (acc @ [(w_id r, run_payload rr)]) st))))" for pl
    by (intro seq_inv [where I = I] Cons.IH arm(1) Cons.prems)
      (use armed(1) [OF Cons.prems] in \<open>auto intro: execution\<close>)
  then show ?case using Cons.IH [OF Cons.prems] Cons.prems by (auto split: sum.split option.split)
qed simp

lemma after: "I st \<Longrightarrow> I (snd (after_run env w r dt rr st))"
  unfolding after_run_def set_last_run_def set_last_report_def set_next_run_def
  by (intro seq_inv [where I = I] field) (auto split: sum.split intro: field)

lemma firing:
  assumes "I st"
  shows "I (snd (fire env (en_reg en) w f dt st))"
proof -
  have "I (snd (seq (arm_for_run w st) (\<lambda>_ st.
      case execute (e_validate env) (en_reg en) w pl p k st of
        (Inl (Exn kd t), st) \<Rightarrow> if kd = IntegrityError then (Inr None, st) else (Inl (Exn kd t), st)
      | (Inr rr, st) \<Rightarrow> after_run env w r dt rr st)))" for pl p k r
  proof (rule seq_inv [where I = I])
    show "I (snd (arm_for_run w st))" by (rule arm(2) [OF assms])
    fix u s
    assume a: "arm_for_run w st = (Inr u, s)" and h: "I s"
    obtain x s' where x: "execute (e_validate env) (en_reg en) w pl p k s = (x, s')"
      by (cases "execute (e_validate env) (en_reg en) w pl p k s")
    have "I s'" using execution [OF h armed(2) [OF assms a], of "e_validate env" pl p k] x by simp
    then show "I (snd (case execute (e_validate env) (en_reg en) w pl p k s of
        (Inl (Exn kd t), st) \<Rightarrow> if kd = IntegrityError then (Inr None, st) else (Inl (Exn kd t), st)
      | (Inr rr, st) \<Rightarrow> after_run env w r dt rr st))"
      using x after by (auto split: sum.split pyexn.split)
  qed
  then show ?thesis unfolding fire_def using assms by (auto split: option.split sum.split prod.split)
qed

lemma registering:
  assumes "I (rt_store rt)"
  shows "I (rt_store (snd (register_job env w sc rt)))"
proof -
  have "I (rt_store (snd (seq (lift_store rt (set_next_run w t (rt_store rt)))
      (\<lambda>_ rt. (Inr (), add_job w sc rt)))))" for t
    by (rule seq_inv [where I = "\<lambda>rt. I (rt_store rt)"]) (simp_all add: set_next_run_def assms field)
  then show ?thesis by (simp add: register_job_def assms split: sum.split)
qed

lemma scheduling: "I (rt_store rt) \<Longrightarrow> I (rt_store (snd (schedule_workflow env w sc rt)))"
  unfolding schedule_workflow_def
  by (rule seq_inv [where I = "\<lambda>rt. I (rt_store rt)"]) (auto simp: registering split: option.split)

lemma pausing: "I (rt_store rt) \<Longrightarrow> I (rt_store (snd (pause_job w rt)))"
  unfolding pause_job_def
  by (rule seq_inv [where I = "\<lambda>rt. I (rt_store rt)"])
    (simp_all add: set_paused_def set_next_run_def field Let_def)

lemma resuming: "I (rt_store rt) \<Longrightarrow> I (rt_store (snd (resume_job env w rt)))"
  unfolding resume_job_def
  by (rule seq_inv [where I = "\<lambda>rt. I (rt_store rt)"])
    (auto simp: set_paused_def field registering split: option.split sum.split)

lemma promoting:
  assumes "I st" "\<And>w s. I s \<Longrightarrow> I (snd (prepare w s))"
  shows "I (snd (promote_rows en uid instr pl prepare st))"
  unfolding promote_rows_def
  by (intro seq_inv [where I = I]) (use assms created [OF assms(1)] in \<open>auto intro: create move plan\<close>)

lemma creating:
  assumes "I st"
  shows "I (snd (route_create en rq st))"
  unfolding route_create_def
proof (rule seq_inv [where I = I], goal_cases)
  case (2 w st)
  have w: "C w" using created [OF assms 2(1)] .
  show ?case
    by (rule seq_inv [where I = I])
      (auto simp: Let_def w 2 intro!: move trigger plan seq_inv [where I = I] split: sum.split option.split)
qed (simp add: assms create)

lemma approving: "I st \<Longrightarrow> C w \<Longrightarrow> I (snd (route_approve w st))"
  by (auto simp: route_approve_def intro!: seq_inv [where I = I] move split: option.split)

lemma promoting_schedule:
  assumes "I (rt_store rt)"
  shows "I (rt_store (snd (route_schedule en rq rt)))"
proof (cases "report_inputs en rq")
  case (Inr x)
  obtain named safe_sql windowed sc d where x: "x = ((named, safe_sql, windowed), sc, d)" by (cases x) auto
  have t: "I (snd (seq (save_template (the safe_sql) (Some (sq_title rq)) None (rt_store rt))
      (\<lambda>tid st. (Inr (Some tid), st))))" if "given safe_sql"
  proof -
    obtain q where q: "safe_sql = Some q" using \<open>given safe_sql\<close> by (cases safe_sql) auto
    then have "en_gate en (sq_sql rq) = Inr q"
      using Inr x by (auto simp: report_inputs_def dest!: resolve_source_gated)
    then show ?thesis using assms q by (auto intro!: seq_inv [where I = I] template)
  qed
  show ?thesis
    unfolding route_schedule_def Inr x
    by (auto simp: Let_def t assms split: sum.split
        intro!: seq_inv [where I = "\<lambda>rt. I (rt_store rt)"] promoting schedule_fields scheduling)
qed (simp add: route_schedule_def assms)

lemma delivering:
  assumes "I st"
  shows "I (snd (route_deliver en rq st))"
proof (cases "and_then (validate_or_422 en (dq_sql rq)) (\<lambda>s.
    and_then (api_destination (dq_destination rq)) (\<lambda>d. Inr (s, d)))")
  case (Inr x)
  obtain q d where x: "x = (q, d)" by (cases x)
  have "en_gate en (dq_sql rq) = Inr q"
    using Inr x by (auto simp: validate_or_422_def split: sum.splits pyexn.splits if_splits)
  then have t: "I (snd (save_template q (Some (dq_title rq)) None st))" using assms by (rule template [rotated])
  have "I (snd (seq (promote_rows en u i pl (\<lambda>_ st. (Inr (), st)) s) (\<lambda>w st.
      seq (execute (e_validate (en_sched en)) (en_reg en) w pl None None st) (\<lambda>rr st.
        (Inr (w, run_payload rr, outbox 50 st), st)))))" if h: "I s" for u i pl s
    by (intro seq_inv [where I = I] promoting h)
      (auto simp: h dest!: promote_rows_created created [OF h] intro: execution)
  then show ?thesis
    by (auto simp: route_deliver_def Inr x Let_def t intro!: seq_inv [where I = I])
qed (simp add: route_deliver_def assms)

lemma executing:
  assumes "I st"
  shows "I (snd (route_execute en w p st))"
proof -
  have "I (snd (seq (api_arm w st) (\<lambda>_ st.
      seq (execute (e_validate (en_sched en)) (en_reg en) w pl p None st) (\<lambda>rr st. (Inr (run_payload rr), st)))))"
    for pl
    by (intro seq_inv [where I = I] arm(1) assms)
      (use armed(1) [OF assms] in \<open>auto intro: execution\<close>)
  then show ?thesis using assms by (simp add: route_execute_def split: option.split sum.split)
qed

lemma one_request:
  assumes "I (rt_store rt)" "\<And>w. ev = EApprove w \<Longrightarrow> C w"
  shows "I (rt_store (handle en ev rt))"
proof (cases ev)
  case (EEvent ty p)
  then show ?thesis by (auto simp: route_event_def Let_def assms(1) events intro!: seq_inv [where I = I])
next
  case (EPause w)
  then show ?thesis using assms(1) pausing
    by (auto simp: route_pause_def split: option.split intro!: seq_inv [where I = "\<lambda>rt. I (rt_store rt)"])
next
  case (EResume w)
  then show ?thesis using assms(1) resuming
    by (auto simp: route_resume_def split: option.split intro!: seq_inv [where I = "\<lambda>rt. I (rt_store rt)"])
qed (use assms in \<open>simp_all add: creating approving executing promoting_schedule delivering firing\<close>)

lemma all_requests:
  assumes "I (rt_store rt)" "\<And>w. EApprove w \<in> set evs \<Longrightarrow> C w"
  shows "I (rt_store (serve en evs rt))"
  using assms
proof (induction evs arbitrary: rt)
  case (Cons ev evs)
  then show ?case using one_request [of rt ev] by auto
qed simp

end

section \<open>A workflow that waits for approval\<close>

text \<open>The runs opened for a workflow, and a workflow that waits with the runs it had.\<close>

definition launched :: "string \<Rightarrow> store \<Rightarrow> (string \<times> string option) list" where
  "launched wid st = filter (\<lambda>p. fst p = wid) (map stamp (runs st))"

definition held :: "string \<Rightarrow> (string \<times> string option) list \<Rightarrow> store \<Rightarrow> bool" where
  "held wid L st = (state_of st wid = Some AWAITING_APPROVAL \<and> launched wid st = L)"

lemma held_frame:
  "held wid L st \<Longrightarrow> state_of st' = state_of st \<Longrightarrow> map stamp (runs st') = map stamp (runs st) \<Longrightarrow> held wid L st'"
  by (simp add: held_def launched_def)

lemma held_workflows:
  "held wid L st \<Longrightarrow> workflows st' = workflows st \<Longrightarrow> map stamp (runs st') = map stamp (runs st) \<Longrightarrow> held wid L st'"
  by (rule held_frame [OF _ state_of_frame])

lemma find_append_Some: "find P xs = Some x \<Longrightarrow> find P (xs @ ys) = Some x"
  by (induction xs) auto

lemma held_create: "held wid L st \<Longrightarrow> held wid L (snd (create_workflow u i t p s st))"
  by (auto simp: held_def launched_def create_workflow_def new_id_def now_iso_def state_of_def
      get_workflow_def find_append_Some)

lemma held_created:
  assumes "held wid L st" "create_workflow u i t p s st = (Inr w, st')"
  shows "w \<noteq> wid"
proof -
  have "wid \<in> w_id ` set (workflows st)"
    using assms(1) get_workflow_None [of wid st] by (auto simp: held_def state_of_def)
  then show ?thesis using assms(2) by (auto simp: create_workflow_def new_id_def now_iso_def split: if_splits)
qed

lemma held_transition: "held wid L st \<Longrightarrow> w \<noteq> wid \<Longrightarrow> held wid L (snd (transition w to st))"
  by (simp add: held_def launched_def transition_tables transition_state)

lemma held_start_run:
  assumes "held wid L st" "w \<noteq> wid"
  shows "held wid L (snd (start_run w k st))"
proof -
  have "state_of (snd (start_run w k st)) = state_of st" by (rule state_of_frame) (simp add: workflows_frame)
  then show ?thesis using assms
    by (auto simp: held_def launched_def start_run_def new_id_def now_iso_def stamp_def)
qed

lemma held_armed:
  assumes "held wid L st"
  shows "held wid L (snd (api_arm w st))" "api_arm w st = (Inr u, st') \<Longrightarrow> w \<noteq> wid"
    "held wid L (snd (arm_for_run w st))" "arm_for_run w st = (Inr u, st') \<Longrightarrow> w \<noteq> wid"
proof -
  have a: "w_state r = AWAITING_APPROVAL" if "get_workflow wid st = Some r" for r
    using assms that by (simp add: held_def state_of_def)
  show "api_arm w st = (Inr u, st') \<Longrightarrow> w \<noteq> wid" "arm_for_run w st = (Inr u, st') \<Longrightarrow> w \<noteq> wid"
    using a by (auto simp: api_arm_def arm_for_run_def http_def split: option.splits if_splits)
  show "held wid L (snd (api_arm w st))"
    using assms a by (cases "w = wid") (auto simp: api_arm_def held_transition split: option.split)
  show "held wid L (snd (arm_for_run w st))"
    using assms a by (cases "w = wid") (auto simp: arm_for_run_def held_transition split: option.split)
qed

interpretation waiting: served "engine_of tenv senv llm pystr zone gate kwargs" "held wid L" "\<lambda>w. w \<noteq> wid"
  for tenv senv llm pystr zone gate kwargs wid L
proof
  fix st w' pj tr c v q sql ti wo
  assume h: "held wid L st"
  show "held wid L (set_plan w' pj st)" "held wid L (set_trigger w' tr st)" "held wid L (snd (set_field w' c v st))"
    by (rule held_frame [OF h]; simp add: set_plan_def set_trigger_def update_wf_tables state_of_update
        set_field_state set_field_tables)+
  show "held wid L (snd (save_template sql ti wo st))"
    by (rule held_workflows [OF h]) (simp only: workflows_frame, simp add: save_template_def new_id_def now_iso_def)
next
  fix st rid n tn a res status
  assume h: "held wid L st"
  show "held wid L (checkpoint_step rid n tn a res status st)" "held wid L (finish_run rid status st)"
    by (rule held_workflows [OF h]; simp add: workflows_frame checkpoint_stamps finish_run_stamps)+
next
  fix tn st ta and spec :: "store tool_spec"
  assume "get_tool (en_reg (engine_of tenv senv llm pystr zone gate kwargs)) tn = Some spec" "held wid L st"
  then show "held wid L (snd (t_execute spec ta st))"
    using default_quiet [of tenv tn spec ta st] held_workflows [of wid L st] by (simp add: engine_of_def)
qed (fact held_create held_created held_transition held_start_run held_armed)+

section \<open>Stored queries\<close>

text \<open>Every stored query is a text that the gate produced.\<close>

definition templates_gated :: "(string \<Rightarrow> pyexn + string) \<Rightarrow> store \<Rightarrow> bool" where
  "templates_gated gate st = (\<forall>t\<in>set (templates st). \<exists>q. gate q = Inr (t_sql t))"

lemma gated_frame: "templates_gated gate st \<Longrightarrow> templates st' = templates st \<Longrightarrow> templates_gated gate st'"
  by (simp add: templates_gated_def)

lemma templates_frame:
  "templates (snd (set_field w c v st)) = templates st"
  "templates (snd (create_workflow u i t p s st)) = templates st"
  "templates (set_plan w pj st) = templates st" "templates (set_trigger w tr st) = templates st"
  "templates (snd (start_run w k st)) = templates st"
  "templates (checkpoint_step rid n tn a res status st) = templates st"
  "templates (finish_run rid status st) = templates st"
  "templates (snd (api_arm w st)) = templates st" "templates (snd (arm_for_run w st)) = templates st"
  by (simp_all add: set_field_def set_plan_def set_trigger_def update_wf_tables create_workflow_def
      start_run_def checkpoint_step_def finish_run_def update_run_def new_id_def now_iso_def api_arm_def
      arm_for_run_def transition_tables split: option.split)

lemma default_templates:
  assumes "get_tool (default_registry env) n = Some s"
  shows "templates (snd (t_execute s a st)) = templates st"
  using tool_effect [OF get_default [OF assms], of a st] by (auto simp: write_outbox_frame)

interpretation stored: served "engine_of tenv senv llm pystr zone gate kwargs" "templates_gated gate" "\<lambda>_. True"
  for tenv senv llm pystr zone gate kwargs
proof
  fix st q sql ti wo
  assume "templates_gated gate st" "en_gate (engine_of tenv senv llm pystr zone gate kwargs) q = Inr sql"
  then show "templates_gated gate (snd (save_template sql ti wo st))"
    by (auto simp: templates_gated_def save_template_def new_id_def now_iso_def engine_of_def)
next
  fix tn st ta and spec :: "store tool_spec"
  assume "get_tool (en_reg (engine_of tenv senv llm pystr zone gate kwargs)) tn = Some spec" "templates_gated gate st"
  then show "templates_gated gate (snd (t_execute spec ta st))"
    using default_templates [of tenv tn spec ta st] by (simp add: engine_of_def templates_gated_def)
qed (auto simp: templates_frame transition_tables intro: gated_frame)

section \<open>The integrity invariant\<close>

interpretation intact: served "engine_of tenv senv llm pystr zone gate kwargs" store_inv "\<lambda>_. True"
  for tenv senv llm pystr zone gate kwargs
proof
  fix st w'
  assume "store_inv st"
  then show "store_inv (snd (api_arm w' st))" "store_inv (snd (arm_for_run w' st))"
    by (auto simp: api_arm_def arm_for_run_def store_inv_transition split: option.split)
next
  fix tn st ta and spec :: "store tool_spec"
  assume "get_tool (en_reg (engine_of tenv senv llm pystr zone gate kwargs)) tn = Some spec" "store_inv st"
  then show "store_inv (snd (t_execute spec ta st))"
    using tool_effect [OF get_default, of tenv tn spec ta st] store_inv_write_outbox
    by (auto simp: engine_of_def)
qed (auto intro: inv_intros)

lemma build_engine_eq:
  "build_engine tenv senv llm pystr zone gate kwargs = Inr en \<longleftrightarrow> en = engine_of tenv senv llm pystr zone gate kwargs"
  by (auto simp: build_engine_def build_default_registry_Inr engine_of_def)

section \<open>Outcomes of the routes\<close>

lemma create_workflow_fresh:
  assumes "store_inv st" "inj (ids st)"
  obtains w st1 where "create_workflow u i t p s st = (Inr w, st1)"
    "get_workflow w st1 = Some (fresh_row w u i t p s (clock st (tick st)))"
    "runs st1 = runs st" "outbox_tbl st1 = outbox_tbl st"
proof -
  let ?w = "ids st (next_id st)"
  let ?st1 = "snd (create_workflow u i t p s st)"
  have f: "?w \<notin> w_id ` set (workflows st)"
    using fresh_id [OF assms] by (auto simp: used_ids_def)
  then have c: "create_workflow u i t p s st = (Inr ?w, ?st1)"
    by (simp add: create_workflow_def new_id_def now_iso_def)
  have "get_workflow ?w st = None" using f get_workflow_None by blast
  then have "get_workflow ?w ?st1 = Some (fresh_row ?w u i t p s (clock st (tick st)))"
    using f by (simp add: create_workflow_def new_id_def now_iso_def get_workflow_def find_append_None fresh_row_def)
  moreover have "runs ?st1 = runs st" "outbox_tbl ?st1 = outbox_tbl st"
    using f by (simp_all add: create_workflow_def new_id_def now_iso_def)
  ultimately show ?thesis using that c by blast
qed

lemma transition_row:
  assumes "get_workflow w st = Some r" "can_transition (w_state r) to"
  obtains st' r' where "transition w to st = (Inr (), st')" "get_workflow w st' = Some r'" "w_state r' = to"
    "w_plan_json r' = w_plan_json r" "w_trigger r' = w_trigger r" "w_trigger_type r' = w_trigger_type r"
    "runs st' = runs st" "outbox_tbl st' = outbox_tbl st"
proof -
  have t: "transition w to st = (Inr (), update_wf w (\<lambda>r. r\<lparr>w_state := to\<rparr>) st)"
    using assms by (simp add: transition_def assert_transition_def)
  have g: "get_workflow w (update_wf w (\<lambda>r. r\<lparr>w_state := to\<rparr>) st) =
      Some (r\<lparr>w_state := to, w_updated_at := clock st (tick st)\<rparr>)"
    using assms(1) by (simp add: update_wf_get)
  show ?thesis by (rule that [OF t g]) (simp_all add: update_wf_tables)
qed

lemma create_outcome_row:
  assumes "store_inv st" "inj (ids st)"
    and "make_plan (en_llm en) (en_reg en) (en_pystr en) (cq_instruction rq) None = Inr pl"
    and "rep = check_plan (en_zone en) (e_validate (en_sched en)) (en_reg en) pl"
  shows "\<exists>w st' r. route_create en rq st = (Inr \<lparr>cr_workflow_id = w, cr_state = create_state rep, cr_plan = pl,
      cr_feasibility = rep\<rparr>, st') \<and> get_workflow w st' = Some r \<and> w_state r = create_state rep \<and>
    w_plan_json r = Some (e_dump_plan (en_sched en) pl) \<and> w_trigger r = pl_trigger pl \<and>
    w_trigger_type r = ''manual'' \<and> runs st' = runs st \<and> outbox_tbl st' = outbox_tbl st"
proof -
  obtain w st1 where c: "create_workflow (cq_user_id rq) (cq_instruction rq) None None SUBMITTED st = (Inr w, st1)"
    "get_workflow w st1 = Some (fresh_row w (cq_user_id rq) (cq_instruction rq) None None SUBMITTED (clock st (tick st)))"
    "runs st1 = runs st" "outbox_tbl st1 = outbox_tbl st"
    using create_workflow_fresh [OF assms(1,2)] by blast
  obtain st2 r2 where t: "transition w PLANNED st1 = (Inr (), st2)" "get_workflow w st2 = Some r2"
    "w_state r2 = PLANNED" "w_trigger_type r2 = ''manual''" "runs st2 = runs st" "outbox_tbl st2 = outbox_tbl st"
    by (rule transition_row [OF c(2), of PLANNED]) (auto simp: fresh_row_def can_transition_def c(3,4))
  let ?st3 = "set_trigger w (pl_trigger pl) (set_plan w (e_dump_plan (en_sched en) pl) st2)"
  obtain r3 where r3: "get_workflow w ?st3 = Some r3" "w_state r3 = PLANNED"
    "w_plan_json r3 = Some (e_dump_plan (en_sched en) pl)" "w_trigger r3 = pl_trigger pl"
    "w_trigger_type r3 = ''manual''"
    using t(2-4) by (auto simp: set_trigger_def set_plan_def update_wf_get)
  have f3: "runs ?st3 = runs st" "outbox_tbl ?st3 = outbox_tbl st"
    using t(5,6) by (simp_all add: set_trigger_def set_plan_def update_wf_tables)
  have "\<exists>st' r. (if fr_ok rep
      then seq (transition w FEASIBLE ?st3) (\<lambda>_ st.
             transition w (if fr_requires_approval rep then AWAITING_APPROVAL else READY) st)
      else transition w REJECTED ?st3) = (Inr (), st') \<and> get_workflow w st' = Some r \<and>
    w_state r = create_state rep \<and> w_plan_json r = w_plan_json r3 \<and> w_trigger r = w_trigger r3 \<and>
    w_trigger_type r = w_trigger_type r3 \<and> runs st' = runs st \<and> outbox_tbl st' = outbox_tbl st"
  proof (cases "fr_ok rep")
    case False
    have "can_transition (w_state r3) REJECTED" by (simp add: r3(2) can_transition_def)
    from transition_row [OF r3(1) this] show ?thesis
      using False f3 by (metis create_state_def)
  next
    case True
    let ?to = "if fr_requires_approval rep then AWAITING_APPROVAL else READY"
    have "can_transition (w_state r3) FEASIBLE" by (simp add: r3(2) can_transition_def)
    from transition_row [OF r3(1) this] obtain st4 r4 where f: "transition w FEASIBLE ?st3 = (Inr (), st4)"
      "get_workflow w st4 = Some r4" "w_state r4 = FEASIBLE" "w_plan_json r4 = w_plan_json r3"
      "w_trigger r4 = w_trigger r3" "w_trigger_type r4 = w_trigger_type r3" "runs st4 = runs ?st3"
      "outbox_tbl st4 = outbox_tbl ?st3" by blast
    have "can_transition (w_state r4) ?to" by (simp add: f(3) can_transition_def)
    from transition_row [OF f(2) this] obtain st5 r5 where g: "transition w ?to st4 = (Inr (), st5)"
      "get_workflow w st5 = Some r5" "w_state r5 = ?to" "w_plan_json r5 = w_plan_json r4"
      "w_trigger r5 = w_trigger r4" "w_trigger_type r5 = w_trigger_type r4" "runs st5 = runs st4"
      "outbox_tbl st5 = outbox_tbl st4" by blast
    have "create_state rep = ?to" using True by (simp add: create_state_def)
    then show ?thesis using True f g f3 by auto
  qed
  then obtain st' r where q: "(if fr_ok rep
      then seq (transition w FEASIBLE ?st3) (\<lambda>_ st.
             transition w (if fr_requires_approval rep then AWAITING_APPROVAL else READY) st)
      else transition w REJECTED ?st3) = (Inr (), st')" "get_workflow w st' = Some r"
    "w_state r = create_state rep" "w_plan_json r = w_plan_json r3" "w_trigger r = w_trigger r3"
    "w_trigger_type r = w_trigger_type r3" "runs st' = runs st" "outbox_tbl st' = outbox_tbl st" by blast
  have "route_create en rq st = (Inr \<lparr>cr_workflow_id = w, cr_state = w_state r, cr_plan = pl,
      cr_feasibility = rep\<rparr>, st')"
    unfolding route_create_def c(1) seq.simps t(1) assms(3) sum.case Let_def
    by (simp only: flip: assms(4)) (simp add: q)
  then show ?thesis using q r3 by auto
qed

text \<open>What the executor can raise.\<close>

lemma transition_raises: "transition w to st = (Inl (Exn k t), st') \<Longrightarrow> k \<in> {KeyError, InvalidTransition} \<and> st' = st"
  by (auto simp: transition_def assert_transition_def split: option.splits sum.splits if_splits)

lemma execute_raises:
  assumes "execute v reg w pl payload k st = (Inl (Exn e t), st')"
  shows "e \<in> {IntegrityError, KeyError, InvalidTransition}"
proof -
  have sr: "start_run w k st = (Inl (Exn e t), s) \<Longrightarrow> e = IntegrityError" for s
    by (auto simp: start_run_def new_id_def now_iso_def split: if_splits)
  have fin: "finish w rid s err xs = (Inl (Exn e t), s') \<Longrightarrow> e \<in> {KeyError, InvalidTransition}" for rid s err xs s'
    using transition_raises [of w s "finish_run rid (state_value s) (x_store xs)" e t]
    by (cases "transition w s (finish_run rid (state_value s) (x_store xs))"; cases "fst (transition w s (finish_run rid (state_value s) (x_store xs)))")
      (auto simp: finish_def)
  obtain x s1 where x: "start_run w k st = (x, s1)" by (cases "start_run w k st")
  show ?thesis
  proof (cases x)
    case (Inl y)
    then show ?thesis using assms x sr by (auto simp: execute_def Let_def)
  next
    case (Inr rid)
    obtain y s2 where y: "transition w RUNNING s1 = (y, s2)" by (cases "transition w RUNNING s1")
    show ?thesis
    proof (cases y)
      case (Inl z)
      then have "transition w RUNNING s1 = (Inl (Exn e t), s2)" using assms x y Inr by (auto simp: execute_def Let_def)
      then show ?thesis using transition_raises by blast
    next
      case (Inr u)
      then show ?thesis using assms x y \<open>x = _\<close> fin
        by (auto simp: execute_def Let_def split: flow.splits)
    qed
  qed
qed

section \<open>Properties\<close>

text \<open>C3: The approval gate holds through the whole interface.  While a workflow waits for approval, no
  sequence of requests and timer fires, of any workflows and with any bodies, changes its state or
  opens a run of it, unless the sequence contains the approval of that very workflow.\<close>

theorem no_run_before_approval:
  assumes "build_engine tenv senv llm pystr zone gate kwargs = Inr en"
    and "state_of (rt_store rt) wid = Some AWAITING_APPROVAL" and "EApprove wid \<notin> set evs"
  shows "state_of (rt_store (serve en evs rt)) wid = Some AWAITING_APPROVAL \<and>
    launched wid (rt_store (serve en evs rt)) = launched wid (rt_store rt)"
proof -
  have "held wid (launched wid (rt_store rt)) (rt_store rt)" using assms(2) by (simp add: held_def)
  then have "held wid (launched wid (rt_store rt)) (rt_store (serve en evs rt))"
    unfolding assms(1) [unfolded build_engine_eq]
    by (rule waiting.all_requests) (use assms(3) in auto)
  then show ?thesis by (simp add: held_def)
qed

definition demo_engine :: engine where
  "demo_engine = engine_of demo_tools demo_env (\<lambda>_. Inr demo_plan) (\<lambda>_. []) (\<lambda>_. True)
     (validate_sql one_query bi_validator) (\<lambda>_. Inr nightly)"

lemma demo_engine_built:
  "build_engine demo_tools demo_env (\<lambda>_. Inr demo_plan) (\<lambda>_. []) (\<lambda>_. True)
     (validate_sql one_query bi_validator) (\<lambda>_. Inr nightly) = Inr demo_engine"
  by (simp add: build_engine_eq demo_engine_def)

definition waiting_store :: store where
  "waiting_store = snd (create_workflow None ''i'' None (Some ''p'') AWAITING_APPROVAL
     (empty_store (\<lambda>n. replicate n (CHR ''x'')) (\<lambda>n. [])))"

definition waiting_runtime :: runtime where
  "waiting_runtime = \<lparr>rt_store = waiting_store, rt_jobs = Some []\<rparr>"

lemma waiting_store_facts:
  "store_inv waiting_store" "inj (ids waiting_store)" "runs waiting_store = []" "templates waiting_store = []"
  "get_workflow [] waiting_store = Some (fresh_row [] None ''i'' None (Some ''p'') AWAITING_APPROVAL [])"
proof -
  show "store_inv waiting_store" unfolding waiting_store_def by (intro inv_intros store_inv_empty)
  have "inj (\<lambda>n. replicate n (CHR ''x''))" by (rule injI) (metis length_replicate)
  then show "inj (ids waiting_store)"
    by (simp add: waiting_store_def create_workflow_def new_id_def now_iso_def empty_store_def)
qed (simp_all add: waiting_store_def create_workflow_def new_id_def now_iso_def empty_store_def get_workflow_def
    fresh_row_def)

theorem no_run_before_approval_witness:
  "state_of (rt_store (serve demo_engine [EExecute [] None, EEvent ''pay'' [], EFire [] ''daily'' early_fire]
     waiting_runtime)) [] = Some AWAITING_APPROVAL"
proof -
  have "state_of (rt_store waiting_runtime) [] = Some AWAITING_APPROVAL"
    by (simp add: waiting_runtime_def state_of_def waiting_store_facts fresh_row_def)
  note n = no_run_before_approval [OF demo_engine_built this]
  show ?thesis by (rule n [THEN conjunct1]) simp
qed

text \<open>C13: Liveness of the gate: a workflow that waits with a stored plan is made READY by its approval,
  and the execution requested next answers with a run: it never refuses, never raises, and the
  workflow ends COMPLETED or FAILED as the answer says.\<close>

theorem approved_runs:
  assumes "build_engine tenv senv llm pystr zone gate kwargs = Inr en"
    and "store_inv st" "inj (ids st)" "get_workflow wid st = Some r" "w_state r = AWAITING_APPROVAL"
    and "plan_of en r = Inr (Some pl)" "pl_steps pl \<noteq> []"
  shows "\<exists>st1 st2 d s. route_approve wid st = (Inr (wid, ''READY''), st1) \<and>
    route_execute en wid payload st1 = (Inr d, st2) \<and> s \<in> {COMPLETED, FAILED} \<and>
    state_of st2 wid = Some s \<and> map_of d ''status'' = Some (PStr (state_value s))"
proof -
  have en: "en_reg en = default_registry tenv" using assms(1) by (simp add: build_engine_eq engine_of_def)
  have "can_transition (w_state r) READY" using assms(5) by (simp add: can_transition_def)
  from transition_row [OF assms(4) this] obtain st1 r1 where t: "transition wid READY st = (Inr (), st1)"
    "get_workflow wid st1 = Some r1" "w_state r1 = READY" "w_plan_json r1 = w_plan_json r" by metis
  have a: "route_approve wid st = (Inr (wid, ''READY''), st1)"
    using assms(4,5) t(1) by (simp add: route_approve_def)
  have i: "store_inv st1" using store_inv_transition [OF assms(2), of wid READY] t(1) by simp
  have ii: "inj (ids st1)" using transition_tables(5) [of wid READY st] t(1) assms(3) by simp
  have rd: "state_of st1 wid = Some READY" using t(2,3) by (simp add: state_of_def)
  have p: "plan_of en r1 = Inr (Some pl)" using assms(6) t(4) by (simp add: plan_of_def)
  have "\<not> key_taken wid None st1" by (simp add: key_taken_def)
  from dr.execute_recorded [OF i ii rd this, of "e_validate (en_sched en)" tenv pl payload]
  obtain rr st2 s where e: "execute (e_validate (en_sched en)) (en_reg en) wid pl payload None st1 = (Inr rr, st2)"
    "s \<in> {COMPLETED, FAILED}" "rr_status rr = state_value s" "state_of st2 wid = Some s"
    unfolding en by blast
  have "route_execute en wid payload st1 = (Inr (run_payload rr), st2)"
    using t(2,3) p assms(7) e(1) by (simp add: route_execute_def api_arm_def)
  then show ?thesis using a e by (auto simp: run_payload_def)
qed

theorem approved_runs_witness:
  "\<exists>st1 st2 d s. route_approve [] waiting_store = (Inr ([], ''READY''), st1) \<and>
    route_execute demo_engine [] None st1 = (Inr d, st2) \<and> s \<in> {COMPLETED, FAILED} \<and>
    state_of st2 [] = Some s \<and> map_of d ''status'' = Some (PStr (state_value s))"
  by (rule approved_runs [OF demo_engine_built waiting_store_facts(1,2,5), where pl = demo_plan])
    (simp_all add: fresh_row_def plan_of_def demo_engine_def engine_of_def demo_env_def demo_plan_def)

text \<open>C21: Submitting a request plans but does not run.  The new workflow is REJECTED when the check
  refuses the plan, AWAITING_APPROVAL when an accepted plan uses a tool that needs it, READY otherwise;
  the answer says so, the row holds the plan and the trigger the planner derived, no run is opened and
  nothing is sent.  The row is 'manual' even for a plan with a schedule.\<close>

theorem create_outcome:
  assumes "store_inv st" "inj (ids st)"
    and "make_plan (en_llm en) (en_reg en) (en_pystr en) (cq_instruction rq) None = Inr pl"
    and "rep = check_plan (en_zone en) (e_validate (en_sched en)) (en_reg en) pl"
  shows "\<exists>w st' r. route_create en rq st = (Inr \<lparr>cr_workflow_id = w, cr_state = create_state rep, cr_plan = pl,
      cr_feasibility = rep\<rparr>, st') \<and> get_workflow w st' = Some r \<and> w_state r = create_state rep \<and>
    w_plan_json r = Some (e_dump_plan (en_sched en) pl) \<and> w_trigger r = pl_trigger pl \<and>
    w_trigger_type r = ''manual'' \<and> runs st' = runs st \<and> outbox_tbl st' = outbox_tbl st"
  by (rule create_outcome_row [OF assms])

theorem create_outcome_witness:
  "\<exists>w st' r. route_create demo_engine \<lparr>cq_instruction = ''do'', cq_user_id = None\<rparr> waiting_store =
     (Inr \<lparr>cr_workflow_id = w, cr_state = REJECTED, cr_plan = demo_plan,
       cr_feasibility = check_plan (\<lambda>_. True) (e_validate demo_env) (default_registry demo_tools) demo_plan\<rparr>, st') \<and>
   get_workflow w st' = Some r \<and> w_state r = REJECTED"
proof -
  let ?rep = "check_plan (\<lambda>_. True) (e_validate demo_env) (default_registry demo_tools) demo_plan"
  have m: "make_plan (en_llm demo_engine) (en_reg demo_engine) (en_pystr demo_engine)
      (cq_instruction \<lparr>cq_instruction = ''do'', cq_user_id = None\<rparr>) None = Inr demo_plan"
    by (simp add: make_plan_def demo_engine_def engine_of_def)
  have r: "?rep = check_plan (en_zone demo_engine) (e_validate (en_sched demo_engine)) (en_reg demo_engine) demo_plan"
    by (simp add: demo_engine_def engine_of_def)
  have "\<not> fr_ok ?rep" by code_simp
  then have "create_state ?rep = REJECTED" by (simp add: create_state_def)
  with create_outcome [OF waiting_store_facts(1,2) m r] show ?thesis by auto
qed

text \<open>C33: A refused execution leaves no trace: when POST execute answers with an HTTP error, whatever the
  workflow, its plan and the registry, the store is exactly as it was; in particular every other
  failure of a run is an answer, not an HTTP error.\<close>

theorem refused_untouched:
  assumes "route_execute en wid payload st = (Inl (Exn (HTTPException c) t), st')"
  shows "st' = st"
proof -
  have h: "api_arm wid st = (Inl (Exn (HTTPException c) t), s) \<Longrightarrow> s = st" for s
    by (auto simp: api_arm_def split: option.splits if_splits dest: transition_raises)
  have e: "execute v reg wid pl payload None s \<noteq> (Inl (Exn (HTTPException c) t), s')" for v reg pl s s'
    using execute_raises by blast
  have "seq (api_arm wid st) (\<lambda>_ st.
      seq (execute (e_validate (en_sched en)) (en_reg en) wid pl payload None st) (\<lambda>rr st.
        (Inr (run_payload rr), st))) = (Inl (Exn (HTTPException c) t), st') \<Longrightarrow> st' = st" for pl
  proof (cases "api_arm wid st")
    case (Pair x s)
    assume a: "seq (api_arm wid st) (\<lambda>_ st.
      seq (execute (e_validate (en_sched en)) (en_reg en) wid pl payload None st) (\<lambda>rr st.
        (Inr (run_payload rr), st))) = (Inl (Exn (HTTPException c) t), st')"
    show ?thesis
    proof (cases x)
      case (Inl y)
      then show ?thesis using a Pair h by simp
    next
      case (Inr u)
      obtain z s2 where z: "execute (e_validate (en_sched en)) (en_reg en) wid pl payload None s = (z, s2)"
        by (cases "execute (e_validate (en_sched en)) (en_reg en) wid pl payload None s")
      then show ?thesis using a Pair Inr e [of "e_validate (en_sched en)" "en_reg en" pl s s2]
        by (cases z) auto
    qed
  qed
  then show ?thesis using assms by (auto simp: route_execute_def split: option.splits sum.splits if_splits)
qed

theorem refused_untouched_witness:
  "\<exists>t. route_execute demo_engine [] None waiting_store = (Inl (Exn (HTTPException 409) t), waiting_store)"
proof -
  have "\<exists>t st'. route_execute demo_engine [] None waiting_store = (Inl (Exn (HTTPException 409) t), st')"
    by (simp add: route_execute_def waiting_store_facts fresh_row_def plan_of_def demo_engine_def engine_of_def
        demo_env_def demo_plan_def api_arm_def http_def)
  then show ?thesis using refused_untouched by blast
qed

text \<open>C22: Only vetted SQL is ever stored for replay: if every stored query of a store came out of the BI
  validator, so does every stored query after any sequence of requests and timer fires, and each reads
  allowlisted relations only.\<close>

theorem stored_queries_vetted:
  assumes "build_engine tenv senv llm pystr zone (validate_sql lib bi_validator) kwargs = Inr en"
    and "\<forall>t\<in>set (templates (rt_store rt)). \<exists>q. validate_sql lib bi_validator q = Inr (t_sql t)"
    and "t \<in> set (templates (rt_store (serve en evs rt)))"
  shows "\<exists>q. validate_sql lib bi_validator q = Inr (t_sql t) \<and> vetted lib bi_validator (t_sql t)"
proof -
  have "templates_gated (validate_sql lib bi_validator) (rt_store rt)"
    using assms(2) by (simp add: templates_gated_def)
  then have "templates_gated (validate_sql lib bi_validator) (rt_store (serve en evs rt))"
    unfolding assms(1) [unfolded build_engine_eq] by (rule stored.all_requests) simp
  with assms(3) obtain q where "validate_sql lib bi_validator q = Inr (t_sql t)"
    by (auto simp: templates_gated_def)
  then show ?thesis using guard.gate_safe by blast
qed

theorem stored_queries_vetted_witness:
  "vetted one_query bi_validator ''Q LIMIT 200''"
proof -
  let ?t = "\<lparr>t_id = ''t'', t_workflow_id = None, t_title = None, t_sql = ''Q LIMIT 200'', t_created_at = []\<rparr>"
  let ?rt = "waiting_runtime\<lparr>rt_store := waiting_store\<lparr>templates := [?t]\<rparr>\<rparr>"
  have m: "?t \<in> set (templates (rt_store (serve demo_engine [] ?rt)))" by simp
  have "\<forall>t\<in>set (templates (rt_store ?rt)). \<exists>q. validate_sql one_query bi_validator q = Inr (t_sql t)"
    using one_query_accepts by (auto intro!: exI [of _ "''q''"])
  from stored_queries_vetted [OF demo_engine_built this m] show ?thesis by simp
qed

text \<open>The integrity of the store (unique keys in every table, identifiers never reused, at most one
  run per workflow and period) survives every sequence of requests and timer fires.\<close>

theorem served_store_intact:
  assumes "build_engine tenv senv llm pystr zone gate kwargs = Inr en" and "store_inv (rt_store rt)"
  shows "store_inv (rt_store (serve en evs rt))"
  unfolding assms(1) [unfolded build_engine_eq] by (rule intact.all_requests) (use assms(2) in auto)

theorem served_store_intact_witness:
  "store_inv (rt_store (serve demo_engine [ECreate \<lparr>cq_instruction = ''do'', cq_user_id = None\<rparr>, EApprove []]
     waiting_runtime))"
  by (rule served_store_intact [OF demo_engine_built]) (simp add: waiting_runtime_def waiting_store_facts)

end
