(* ===== verification/Delivery.thy ===== *)
theory Delivery
  imports Tools_Bridge
begin

text \<open>
  From a plan to a message: how a run of any plan over a quiet registry ends, and what a scheduled report does when its
  time comes.  The second rests on \<open>promotion.py\<close>, \<open>scheduler.py\<close>, \<open>executor.py\<close>, \<open>reports_catalog.py\<close>,
  \<open>report.py\<close> and \<open>connectors.py\<close> together.
\<close>

section \<open>Stores in order\<close>

text \<open>What pydantic is asked for: a complete dictionary of the declared types is returned as it is.\<close>

definition keeps_complete :: "validator \<Rightarrow> bool" where
  "keeps_complete v = (\<forall>sch d. well_typed sch d \<and> map fst d = map f_name sch \<longrightarrow> v sch d = Inr d)"

text \<open>What a checkpoint leaves alone\<close>

lemma checkpoint_frame:
  "ids (checkpoint_step r n t a res s st) = ids st" "outbox_contents (checkpoint_step r n t a res s st) = outbox_contents st"
  by (simp_all add: checkpoint_step_def now_iso_def update_run_def outbox_contents_def)

lemma done_fields:
  "x_results (done_step rid s a res xs) = (x_results xs)(ps_number s \<mapsto> res)" "x_skipped (done_step rid s a res xs) = x_skipped xs"
  "map oc_status (x_outcomes (done_step rid s a res xs)) = map oc_status (x_outcomes xs) @ [''ok'']"
  "map oc_result (x_outcomes (done_step rid s a res xs)) = map oc_result (x_outcomes xs) @ [res]"
  "x_store (done_step rid s a res xs) = checkpoint_step rid (ps_number s) (ps_tool s) a res ''ok'' (x_store xs)"
  by (simp_all add: done_step_def)

lemma skip_fields:
  "x_results (skip_step rid s reason xs) = x_results xs" "x_skipped (skip_step rid s reason xs) = x_skipped xs @ [ps_number s]"
  "map oc_status (x_outcomes (skip_step rid s reason xs)) = map oc_status (x_outcomes xs) @ [''skipped'']"
  "x_store (skip_step rid s reason xs) =
    checkpoint_step rid (ps_number s) (ps_tool s) (ps_args s) (PDict [(''skipped'', PStr reason)]) ''skipped'' (x_store xs)"
  by (simp_all add: skip_step_def)

text \<open>A store in order: its tables keyed, its identifiers fresh\<close>

definition in_order :: "store \<Rightarrow> bool" where
  "in_order st = (store_inv st \<and> inj (ids st))"

lemma in_order_keeps:
  assumes "in_order st"
  shows "in_order (checkpoint_step r n t a res s st)" "in_order (snd (write_outbox c p st))" "in_order (finish_run r s' st)"
    "in_order (snd (start_run w k st))" "in_order (snd (transition w to st))" "in_order (set_plan w pj st)"
    "in_order (snd (create_workflow u i t' p' s'' st))"
proof -
  have "ids (snd (write_outbox c p st)) = ids st" "ids (finish_run r s' st) = ids st" "ids (snd (start_run w k st)) = ids st"
    "ids (snd (create_workflow u i t' p' s'' st)) = ids st" "ids (set_plan w pj st) = ids st"
    by (simp_all add: write_outbox_def finish_run_def start_run_def create_workflow_def new_id_def now_iso_def update_run_def
        set_plan_def update_wf_tables)
  then show "in_order (checkpoint_step r n t a res s st)" "in_order (snd (write_outbox c p st))" "in_order (finish_run r s' st)"
    "in_order (snd (start_run w k st))" "in_order (snd (transition w to st))" "in_order (set_plan w pj st)"
    "in_order (snd (create_workflow u i t' p' s'' st))"
    using assms by (simp_all add: in_order_def checkpoint_frame transition_tables inv_intros)
qed

lemma slack_sends:
  assumes "write_outbox ''slack'' (slack_payload c t) st = (Inr i, st')"
  shows "\<exists>res. slack_send write_outbox u p c t st = (Inr res, st')"
  using assms by (simp add: slack_send_def Let_def)

lemma bookkeeping_outbox:
  "outbox_contents (snd (transition w to st)) = outbox_contents st" "outbox_contents (finish_run r s st) = outbox_contents st"
  "outbox_contents (snd (start_run w k st)) = outbox_contents st" "outbox_contents (set_plan w p st) = outbox_contents st"
  "outbox_contents (snd (create_workflow u i t p' s' st)) = outbox_contents st"
  by (simp_all add: outbox_contents_def transition_tables finish_run_def start_run_def create_workflow_def set_plan_def
      update_wf_tables new_id_def now_iso_def update_run_def)

lemma moves:
  assumes "state_of st wid = Some s" "can_transition s to"
  shows "\<exists>st'. transition wid to st = (Inr (), st') \<and> state_of st' = (state_of st)(wid \<mapsto> to) \<and>
    outbox_contents st' = outbox_contents st \<and> (in_order st \<longrightarrow> in_order st')"
proof -
  have "fst (transition wid to st) = Inr ()" using assms by (auto simp: transition_ok_conv)
  then show ?thesis using transition_state [of wid to st] bookkeeping_outbox(1) [of wid to st] in_order_keeps(5) [of st wid to]
    by (cases "transition wid to st") simp
qed

section \<open>Runs that complete\<close>

text \<open>From any store in order the loop reaches its end with outcomes of this kind and these messages.\<close>

definition completes :: "validator \<Rightarrow> store registry \<Rightarrow> pydict \<Rightarrow> workflow_plan \<Rightarrow> (outcome list \<Rightarrow> bool) \<Rightarrow> (string \<times> pydict) list \<Rightarrow> bool" where
  "completes v reg tr plan good ms = (\<forall>rid st. in_order st \<longrightarrow>
    (\<exists>xs. run_steps v reg rid tr (sort_key ps_number (pl_steps plan)) (exec_start st) = Go xs \<and>
      good (x_outcomes xs) \<and> outbox_contents (x_store xs) = outbox_contents st @ ms \<and> in_order (x_store xs)))"

definition statuses :: "string list \<Rightarrow> outcome list \<Rightarrow> bool" where
  "statuses ss os = (map oc_status os = ss)"

text \<open>Three steps that ran, the first two with these results\<close>

definition piped :: "pyval \<Rightarrow> pyval \<Rightarrow> outcome list \<Rightarrow> bool" where
  "piped r1 r2 os = (map oc_status os = [''ok'', ''ok'', ''ok''] \<and> take 2 (map oc_result os) = [r1, r2])"

lemma exec_start_fields: "x_store (exec_start st) = st" "x_results (exec_start st) = Map.empty" "x_skipped (exec_start st) = []" "x_outcomes (exec_start st) = []"
  by (simp_all add: exec_start_def)

lemma exec_start_same: "exec_start st\<lparr>x_store := st\<rparr> = exec_start st"
  by (simp add: exec_start_def)

lemma step_runs:
  assumes "x_skipped xs = []" "ps_when s = None" "resolve_args (ps_args s) tr (x_results xs) = Inr args" "get_tool reg (ps_tool s) = Some t"
    "v (t_schema t) args = Inr args" "t_execute t args (x_store xs) = (Inr res, st)"
  shows "run_step v reg rid tr s xs = Go (done_step rid s args res (xs\<lparr>x_store := st\<rparr>))"
  using assms by (simp add: run_step_def blocked_by_def has_when_def dispatch_step_def execute_tool_def)

text \<open>Two steps that only read and a third that sends\<close>

lemma pipeline_completes:
  assumes "sort_key ps_number (pl_steps plan) = [s1, s2, s3]" "ps_number s1 = 1" "ps_number s2 = 2" "ps_number s3 = 3"
    and "ps_when s1 = None" "ps_when s2 = None" "ps_when s3 = None"
    and "get_tool reg (ps_tool s1) = Some t1" "get_tool reg (ps_tool s2) = Some t2" "get_tool reg (ps_tool s3) = Some t3"
    and "resolve_args (ps_args s1) tr Map.empty = Inr a1" "resolve_args (ps_args s2) tr [1 \<mapsto> r1] = Inr a2"
    and "resolve_args (ps_args s3) tr [1 \<mapsto> r1, 2 \<mapsto> r2] = Inr a3"
    and "v (t_schema t1) a1 = Inr a1" "v (t_schema t2) a2 = Inr a2" "v (t_schema t3) a3 = Inr a3"
    and "\<And>st. t_execute t1 a1 st = (Inr r1, st)" "\<And>st. t_execute t2 a2 st = (Inr r2, st)"
    and "\<And>st i st'. write_outbox (fst m) (snd m) st = (Inr i, st') \<Longrightarrow> \<exists>res. t_execute t3 a3 st = (Inr res, st')"
  shows "completes v reg tr plan (piped r1 r2) [m]"
  unfolding completes_def assms(1)
proof (intro allI impI)
  fix rid st
  assume io: "in_order st"
  define x1 where "x1 = done_step rid s1 a1 r1 (exec_start st)"
  define x2 where "x2 = done_step rid s2 a2 r2 x1"
  have 1: "run_step v reg rid tr s1 (exec_start st) = Go x1"
    using step_runs [of "exec_start st" s1 tr a1 reg t1 v r1 st] assms(5,8,11,14,17) by (simp add: exec_start_fields exec_start_same x1_def)
  have f1: "x_results x1 = [1 \<mapsto> r1]" "x_skipped x1 = []" by (simp_all add: x1_def done_fields exec_start_fields assms(2))
  have 2: "run_step v reg rid tr s2 x1 = Go x2"
    using step_runs [of x1 s2 tr a2 reg t2 v r2 "x_store x1"] assms(6,9,12,15,18) f1 by (simp add: x2_def)
  have f: "in_order (x_store x2)" "outbox_contents (x_store x2) = outbox_contents st" "x_skipped x2 = []" "x_results x2 = [1 \<mapsto> r1, 2 \<mapsto> r2]"
    "map oc_status (x_outcomes x2) = [''ok'', ''ok'']" "map oc_result (x_outcomes x2) = [r1, r2]"
    by (simp_all add: x2_def x1_def done_fields exec_start_fields assms(2,3) checkpoint_frame in_order_keeps io)
  obtain i y where w: "write_outbox (fst m) (snd m) (x_store x2) = (Inr i, y)"
    using write_outbox_ok f(1) unfolding in_order_def by (metis prod.collapse)
  then obtain res where "t_execute t3 a3 (x_store x2) = (Inr res, y)" using assms(19) by blast
  then have 3: "run_step v reg rid tr s3 x2 = Go (done_step rid s3 a3 res (x2\<lparr>x_store := y\<rparr>))"
    using step_runs [of x2 s3 tr a3 reg t3 v res y] assms(7,10,13,16) f(3,4) by simp
  have y: "in_order y" "outbox_contents y = outbox_contents st @ [m]"
    using in_order_keeps(2) [OF f(1), of "fst m" "snd m"] write_outbox_appends [OF w] w f(2) by simp_all
  have "run_steps v reg rid tr [s1, s2, s3] (exec_start st) = Go (done_step rid s3 a3 res (x2\<lparr>x_store := y\<rparr>))"
    by (simp only: run_steps.simps 1 2 3 flow.simps)
  then show "\<exists>xs. run_steps v reg rid tr [s1, s2, s3] (exec_start st) = Go xs \<and> piped r1 r2 (x_outcomes xs) \<and>
      outbox_contents (x_store xs) = outbox_contents st @ [m] \<and> in_order (x_store xs)"
    using f(5,6) y by (simp add: piped_def done_fields checkpoint_frame in_order_keeps)
qed

lemma piped_completes: "completes v reg tr plan (piped r1 r2) ms \<Longrightarrow> completes v reg tr plan (statuses [''ok'', ''ok'', ''ok'']) ms"
  unfolding completes_def piped_def statuses_def by meson

context quiet_registry
begin

lemma steps_keep_workflows:
  "workflows (x_store (flow_state (run_steps v reg rid tr ss xs))) = workflows (x_store xs)"
proof -
  define I where "I ys = (workflows (x_store ys) = workflows (x_store xs))" for ys :: exec_state
  have "I (flow_state (run_step v reg rid tr s ys))" if "I ys" for s ys
    using that run_step_frame [of v rid tr s ys] by (simp add: I_def)
  moreover have "I xs" by (simp add: I_def)
  ultimately have "I (flow_state (run_steps v reg rid tr ss xs))" by (rule run_steps_invariant)
  then show ?thesis by (simp add: I_def)
qed

lemma ready_executes:
  assumes "completes v reg (case payload of None \<Rightarrow> [] | Some d \<Rightarrow> d) plan good ms" "in_order st" "state_of st wid = Some READY" "\<not> key_taken wid k st"
  shows "\<exists>rr st'. execute v reg wid plan payload k st = (Inr rr, st') \<and>
    rr_status rr = ''COMPLETED'' \<and> good (rr_steps rr) \<and> state_of st' = (state_of st)(wid \<mapsto> COMPLETED) \<and>
    outbox_contents st' = outbox_contents st @ ms \<and> in_order st'"
proof -
  obtain rid where "fst (start_run wid k st) = Inr rid"
    using start_run_key [of st wid k] assms(2,4) by (auto simp: in_order_def)
  moreover define st1 where "st1 = snd (start_run wid k st)"
  ultimately have s1: "start_run wid k st = (Inr rid, st1)" by (simp add: prod_eq_iff)
  have f1: "state_of st1 = state_of st" unfolding st1_def by (rule state_of_frame) (simp add: workflows_frame)
  have f2: "in_order st1" "outbox_contents st1 = outbox_contents st"
    unfolding st1_def by (rule in_order_keeps [OF assms(2)], rule bookkeeping_outbox)
  obtain st2 where s2: "transition wid RUNNING st1 = (Inr (), st2)" "state_of st2 = (state_of st)(wid \<mapsto> RUNNING)"
    "outbox_contents st2 = outbox_contents st" "in_order st2"
    using moves [of st1 wid READY RUNNING] f1 f2 assms(3) by (auto simp: can_transition_def)
  obtain xs where x: "run_steps v reg rid (case payload of None \<Rightarrow> [] | Some d \<Rightarrow> d) (sort_key ps_number (pl_steps plan)) (exec_start st2) = Go xs"
    "good (x_outcomes xs)" "outbox_contents (x_store xs) = outbox_contents st @ ms" "in_order (x_store xs)"
    using assms(1) s2(3,4) unfolding completes_def by metis
  have "workflows (x_store xs) = workflows st2"
    using steps_keep_workflows [of v rid _ "sort_key ps_number (pl_steps plan)" "exec_start st2"] x(1) by (metis exec_start_fields(1) flow_state.simps(1))
  from state_of_frame [OF this] have sx: "state_of (x_store xs) = (state_of st)(wid \<mapsto> RUNNING)" using s2(2) by simp
  let ?f = "finish_run rid (state_value COMPLETED) (x_store xs)"
  have "workflows ?f = workflows (x_store xs)" by (rule workflows_frame)
  from state_of_frame [OF this] have ff: "state_of ?f = (state_of st)(wid \<mapsto> RUNNING)" "in_order ?f"
      "outbox_contents ?f = outbox_contents st @ ms"
    using sx x(3) in_order_keeps(3) [OF x(4)] by (simp_all only: bookkeeping_outbox)
  obtain st3 where s3: "transition wid COMPLETED ?f = (Inr (), st3)" "state_of st3 = (state_of ?f)(wid \<mapsto> COMPLETED)"
    "outbox_contents st3 = outbox_contents st @ ms" "in_order st3"
    using moves [of ?f wid RUNNING COMPLETED] ff by (auto simp: can_transition_def)
  show ?thesis
    using s1 s2(1) x(1,2) s3 ff(1) by (simp add: execute_def Let_def finish_def)
qed

end

section \<open>Fires that complete\<close>

lemma set_field_ok:
  assumes "c \<in> set set_allowed" "not_null c \<Longrightarrow> x \<noteq> SNull" "in_order st"
  shows "\<exists>st'. set_field wid c x st = (Inr (), st') \<and> state_of st' = state_of st \<and> outbox_contents st' = outbox_contents st \<and> in_order st'"
proof -
  have "fst (set_field wid c x st) = Inr ()" using assms(1,2) by (auto simp: set_field_def)
  moreover have "outbox_contents (snd (set_field wid c x st)) = outbox_contents st" "ids (snd (set_field wid c x st)) = ids st"
    by (simp_all add: set_field_def outbox_contents_def update_wf_tables now_iso_def)
  ultimately show ?thesis using set_field_state [of wid c x st] store_inv_set_field [of st wid c x] assms(3)
    by (cases "set_field wid c x st") (simp add: in_order_def)
qed

lemma after_run_ok:
  assumes "in_order st"
  shows "\<exists>st'. after_run env wid r dt rr st = (Inr (Some rr), st') \<and> state_of st' = state_of st \<and>
    outbox_contents st' = outbox_contents st \<and> in_order st'"
proof -
  obtain s1 where s1: "set_last_run wid (isoformat dt) st = (Inr (), s1)" "state_of s1 = state_of st"
    "outbox_contents s1 = outbox_contents st" "in_order s1"
    using set_field_ok [of "''last_run_at''" "SText (isoformat dt)" st wid] assms by (auto simp: set_last_run_def set_allowed_def)
  obtain s2 where s2: "set_last_report wid (extract_report (e_dumps env) rr) s1 = (Inr (), s2)" "state_of s2 = state_of st"
    "outbox_contents s2 = outbox_contents st" "in_order s2"
    using set_field_ok [of "''last_report_json''" _ s1 wid] s1 by (auto simp: set_last_report_def set_allowed_def not_null_def)
  have "state_of (snd (set_next_run wid t s2)) = state_of st \<and> outbox_contents (snd (set_next_run wid t s2)) = outbox_contents st \<and>
      in_order (snd (set_next_run wid t s2))" for t
    using set_field_ok [of "''next_run_at''" "sql_opt t" s2 wid] s2 by (auto simp: set_next_run_def set_allowed_def not_null_def)
  then show ?thesis using s1(1) s2
    by (simp add: after_run_def split: sum.split)
qed

lemma arms:
  assumes "get_workflow wid st = Some r" "w_state r \<in> {READY, FEASIBLE, COMPLETED, FAILED}" "in_order st"
  shows "\<exists>st'. arm_for_run wid st = (Inr (), st') \<and> state_of st' = (state_of st)(wid \<mapsto> READY) \<and> runs st' = runs st \<and>
    outbox_contents st' = outbox_contents st \<and> in_order st'"
proof (cases "w_state r = READY")
  case True
  then have "state_of st wid = Some READY" using assms(1) by (simp add: state_of_def)
  then have "(state_of st)(wid \<mapsto> READY) = state_of st" by (rule fun_upd_idem)
  then show ?thesis using assms True by (simp add: arm_for_run_def)
next
  case False
  have s: "state_of st wid = Some (w_state r)" using assms(1) by (simp add: state_of_def)
  have "can_transition (w_state r) READY" using False assms(2) by (auto simp: can_transition_def)
  from moves [OF s this] show ?thesis using assms False transition_tables [of wid READY st] by (auto simp: arm_for_run_def)
qed

abbreviation window_event :: "string \<Rightarrow> string \<Rightarrow> string \<Rightarrow> pydict" where
  "window_event ws we fired \<equiv> [(''window_start'', PStr ws), (''window_end'', PStr we), (''fired_at'', PStr fired)]"

text \<open>The row of a workflow that may run now, with the plan it stores\<close>

definition due :: "sched_env \<Rightarrow> string \<Rightarrow> workflow_plan \<Rightarrow> store \<Rightarrow> bool" where
  "due senv wid plan st = (case get_workflow wid st of
     None \<Rightarrow> False
   | Some r \<Rightarrow> may_fire r \<and> w_state r \<in> {READY, FEASIBLE, COMPLETED, FAILED} \<and>
      (case w_plan_json r of None \<Rightarrow> False | Some j \<Rightarrow> j \<noteq> [] \<and> e_load_plan senv j = Inr plan))"

context quiet_registry
begin

lemma due_fires:
  assumes "completes (e_validate senv) reg (window_event ws we (isoformat dt)) plan good ms" "in_order st" "due senv wid plan st"
    "\<not> run_exists_for_key wid (run_key f dt) st" "compute_window f dt = Inr (ws, we)"
  shows "\<exists>rr st'. fire senv reg wid f dt st = (Inr (Some rr), st') \<and> rr_status rr = ''COMPLETED'' \<and>
    good (rr_steps rr) \<and> state_of st' = (state_of st)(wid \<mapsto> COMPLETED) \<and>
    outbox_contents st' = outbox_contents st @ ms \<and> in_order st'"
proof -
  obtain r j where r: "get_workflow wid st = Some r" "may_fire r" "w_state r \<in> {READY, FEASIBLE, COMPLETED, FAILED}"
    "w_plan_json r = Some j" "j \<noteq> []" "e_load_plan senv j = Inr plan"
    using assms(3) by (auto simp: due_def split: option.splits)
  obtain s1 where s1: "arm_for_run wid st = (Inr (), s1)" "state_of s1 = (state_of st)(wid \<mapsto> READY)" "runs s1 = runs st"
    "outbox_contents s1 = outbox_contents st" "in_order s1"
    using arms [OF r(1,3) assms(2)] by blast
  have "\<not> key_taken wid (Some (run_key f dt)) s1" using assms(4) s1(3) by (simp add: key_taken_def run_exists_for_key_def)
  then obtain rr s2 where s2: "execute (e_validate senv) reg wid plan (Some (window_event ws we (isoformat dt))) (Some (run_key f dt)) s1 = (Inr rr, s2)"
    "rr_status rr = ''COMPLETED''" "good (rr_steps rr)" "state_of s2 = (state_of st)(wid \<mapsto> COMPLETED)"
    "outbox_contents s2 = outbox_contents st @ ms" "in_order s2"
    using ready_executes [of "e_validate senv" "Some (window_event ws we (isoformat dt))" plan good ms s1 wid "Some (run_key f dt)"] assms(1) s1(2,4,5)
    by auto
  obtain s3 where s3: "after_run senv wid r dt rr s2 = (Inr (Some rr), s3)" "state_of s3 = state_of s2"
    "outbox_contents s3 = outbox_contents s2" "in_order s3"
    using after_run_ok [OF s2(6)] by blast
  have "fire senv reg wid f dt st = (Inr (Some rr), s3)" using r(1,2,4-) assms(4,5) s1(1) s2(1) s3(1) by (simp add: fire_def)
  then show ?thesis using s2 s3 by auto
qed

end

section \<open>A report that is scheduled\<close>

definition report_data :: "string \<Rightarrow> string list \<Rightarrow> pyval list list \<Rightarrow> pydict" where
  "report_data q cols rows = [(''report_sql'', PStr catalog_sql), (''sql'', PStr q),
     (''columns'', PList (map (\<lambda>c. PStr (lower c)) cols)), (''rows'', PList (map PList rows))]"

lemma report_query_answers:
  assumes "te_gate tenv catalog_sql = Inr t0" "substitute_window (te_fromiso tenv) catalog_sql (PStr ws) (PStr we) = Inr s1"
    "te_gate tenv s1 = Inr q" "db_open (te_db tenv) = Inr ()" "db_run (te_db tenv) q = Inr (cols, map PList rows)"
  shows "run_report_query tenv res ''fraud_performance'' (PStr ws) (PStr we) = Inr (PDict (report_data q cols rows))"
  using assms by (simp add: run_report_query_def report_catalog_def run_validated_report_def report_data_def)

text \<open>Over the tuples of a cursor formatting never fails.\<close>

lemma metric_lines_total: "\<exists>ms ls. metric_lines ps (zip (map PStr cols) vs) ms0 ls0 = Inr (ms, ls)"
proof (induction cols arbitrary: vs ms0 ls0)
  case (Cons c cols)
  then show ?case by (cases vs) simp_all
qed simp

lemma table_lines_total: "\<exists>ls. table_lines ps (map PList rows) = Inr ls"
  by (induction rows) (auto simp: py_list_def)

lemma report_parts:
  "list_or_empty (get_key (report_data q cols rows) ''columns'') = Inr (map (\<lambda>c. PStr (lower c)) cols)"
  "list_or_empty (get_key (report_data q cols rows) ''rows'') = Inr (map PList rows)"
  by (cases cols; simp add: list_or_empty_def get_key_def report_data_def py_list_def)
    (cases rows; simp add: list_or_empty_def get_key_def report_data_def py_list_def)

lemma report_kept:
  assumes "build_report ps now title (report_data q cols rows) = Inr rep"
  shows "rp_title rep = title" "rp_row_count rep = length rows" "rp_rows rep = map PList (take 50 rows)" "rp_sql_used rep = PStr q"
proof -
  have "get_key (report_data q cols rows) ''sql'' = PStr q" by (simp add: report_data_def get_key_def)
  then have "rp_title rep = title \<and> rp_row_count rep = length rows \<and> rp_rows rep = map PList (take 50 rows) \<and> rp_sql_used rep = PStr q"
    by - (rule build_report_Inr [OF assms], auto simp: report_parts take_map)
  then show "rp_title rep = title" "rp_row_count rep = length rows" "rp_rows rep = map PList (take 50 rows)" "rp_sql_used rep = PStr q" by simp_all
qed

lemma report_formats:
  "\<exists>rep body. build_report ps now title (report_data q cols rows) = Inr rep \<and> render_email ps rep = Inr (rp_title rep, body) \<and>
    (\<exists>out. format_report ps now title (report_data q cols rows) = Inr out \<and> map_of out ''slack_text'' = Some (PStr (render_slack rep)) \<and>
      map_of out ''email_subject'' = Some (PStr (rp_title rep)) \<and> map_of out ''email_body'' = Some (PStr body))"
proof -
  note c = report_parts(1) [of q cols rows] and r = report_parts(2) [of q cols rows]
  have "\<exists>rep. build_report ps now title (report_data q cols rows) = Inr rep"
  proof (cases "length rows = 1 \<and> cols \<noteq> []")
    case True
    then obtain vs where v: "rows = [vs]" by (cases rows) auto
    obtain ms ls where "metric_lines ps (zip (map PStr (map lower cols)) vs) [] [] = Inr (ms, ls)"
      using metric_lines_total by blast
    then show ?thesis using True unfolding build_report_def c r by (simp add: v py_list_def comp_def)
  next
    case False
    then show ?thesis unfolding build_report_def c r by (cases "rows = []") auto
  qed
  then obtain rep where rep: "build_report ps now title (report_data q cols rows) = Inr rep" ..
  obtain ls where "table_lines ps (rp_rows rep) = Inr ls" using table_lines_total report_kept(3) [OF rep] by metis
  then have "\<exists>tab. email_table ps rep = Inr tab" unfolding email_table_def by (auto split del: if_split) (cases "1 < rp_row_count rep", auto)
  then obtain tab where "email_table ps rep = Inr tab" ..
  moreover obtain ss where "sql_lines (rp_sql_used rep) = Inr ss"
    using report_kept(4) [OF rep] by (cases "q = []") (simp_all add: sql_lines_def)
  ultimately obtain body where b: "render_email ps rep = Inr (rp_title rep, body)" by (simp add: render_email_def)
  then show ?thesis using rep by (auto simp: format_report_def)
qed

lemma default_bodies:
  "t_execute (default_specs tenv ! 4) = report_tool tenv"
  "t_execute (default_specs tenv ! 5) = pure_tool (\<lambda>d. with_str d ''title'' (\<lambda>t. with_dict d ''data'' (\<lambda>x.
     and_then (format_report (te_str tenv) (te_now tenv) t x) (\<lambda>r. Inr (PDict r)))))"
  "t_execute (default_specs tenv ! 6) = slack_tool tenv" "t_execute (default_specs tenv ! 7) = email_tool tenv"
  by (simp_all add: default_specs_def tool_def)

lemma report_args_kept:
  assumes "keeps_complete v"
  shows "v report_run_args [(''report'', PStr a), (''window_start'', PStr b), (''window_end'', PStr c)] =
      Inr [(''report'', PStr a), (''window_start'', PStr b), (''window_end'', PStr c)]"
    and "v format_report_args [(''title'', PStr a), (''data'', PDict x)] = Inr [(''title'', PStr a), (''data'', PDict x)]"
    and "v slack_args [(''channel'', PStr a), (''text'', PStr b)] = Inr [(''channel'', PStr a), (''text'', PStr b)]"
    and "v email_args [(''to'', PStr a), (''subject'', PStr b), (''body'', PStr c)] = Inr [(''to'', PStr a), (''subject'', PStr b), (''body'', PStr c)]"
  by (rule assms [unfolded keeps_complete_def, rule_format],
      simp add: well_typed_def report_run_args_def format_report_args_def slack_args_def email_args_def req_def)+

text \<open>The three steps of the promoted plan\<close>

definition query_step :: plan_step where
  "query_step = \<lparr>ps_number = 1, ps_tool = ''run_report_query'',
     ps_args = [(''report'', PStr ''fraud_performance''), (''window_start'', PStr ''$trigger.window_start''),
       (''window_end'', PStr ''$trigger.window_end'')],
     ps_rationale = ''run the validated report SQL (not regenerated)'', ps_when = None\<rparr>"

definition format_step :: "string \<Rightarrow> plan_step" where
  "format_step title = \<lparr>ps_number = 2, ps_tool = ''format_report'', ps_args = [(''title'', PStr title), (''data'', PStr ''$step_1'')],
     ps_rationale = ''turn rows into a structured, readable report'', ps_when = None\<rparr>"

lemma report_plan_steps:
  "sort_key ps_number (pl_steps (build_report_plan title ''fraud_performance'' d True sched goal)) = [query_step, format_step title, notify_step d 3 2]"
  by (simp add: build_report_plan_def Let_def query_step_def format_step_def notify_step_def)

text \<open>What the destination of the promotion receives\<close>

definition report_message :: "destination \<Rightarrow> report_result \<Rightarrow> string \<Rightarrow> string \<times> pydict" where
  "report_message d rep body =
    (if d_connector d = ''slack'' then (''slack'', slack_payload (the (d_channel d)) (render_slack rep))
     else (''email'', email_payload (the (d_to d)) (if given (d_subject d) then the (d_subject d) else rp_title rep) body))"

text \<open>The last step with its reference filled in, and what its tool does\<close>

lemma notify_fields: "ps_number (notify_step d n m) = n" "ps_when (notify_step d n m) = None"
  by (simp_all add: notify_step_def)

lemma notify_sends:
  assumes "keeps_complete v" "make_destination c ch to sub = Inr d" "plain_destination d"
    "map_of out ''slack_text'' = Some (PStr (render_slack rep))" "map_of out ''email_subject'' = Some (PStr (rp_title rep))"
    "map_of out ''email_body'' = Some (PStr body)"
  shows "\<exists>t args. get_tool (default_registry tenv) (ps_tool (notify_step d 3 2)) = Some t \<and>
    resolve_args (ps_args (notify_step d 3 2)) tr [1 \<mapsto> r1, 2 \<mapsto> PDict out] = Inr args \<and> v (t_schema t) args = Inr args \<and>
    (\<forall>st i st'. write_outbox (fst (report_message d rep body)) (snd (report_message d rep body)) st = (Inr i, st') \<longrightarrow>
      (\<exists>res. t_execute t args st = (Inr res, st')))"
proof (cases "d_connector d = ''slack''")
  case True
  then obtain x where x: "d_channel d = Some x" "plain x"
    using make_destination_Inr [OF assms(2)] assms(3) by (cases "d_channel d") (auto simp: plain_destination_def)
  show ?thesis using True x assms(4) report_args_kept(3) [OF assms(1)] step_ref_ref
    by (simp add: report_message_def notify_step_def resolve_value_def resolve_ref_def promotion_refs get_default_tools default_schemas
        default_bodies slack_tool_def with_str_def slack_send_def Let_def plain_def)
next
  case False
  then obtain x where x: "d_to d = Some x" "plain x"
    using make_destination_Inr [OF assms(2)] assms(3) by (cases "d_to d") (auto simp: plain_destination_def)
  have sb: "plain (the (d_subject d))" if "given (d_subject d)"
    using assms(3) that by (cases "d_subject d") (auto simp: plain_destination_def)
  note s = notify_step_def resolve_value_def resolve_ref_def promotion_refs get_default_tools default_schemas default_bodies
    email_tool_def with_str_def email_send_def plain_def report_message_def
  show ?thesis
  proof (cases "given (d_subject d)")
    case True
    then show ?thesis using False x assms(4-) report_args_kept(4) [OF assms(1)] step_ref_ref sb by (simp add: s)
  next
    case g: False
    then show ?thesis using False x assms(4-) report_args_kept(4) [OF assms(1)] step_ref_ref by (simp add: s)
  qed
qed

lemma report_completes:
  assumes "keeps_complete v" "plain title" "make_destination c ch to sub = Inr d" "plain_destination d"
    "\<And>res. run_report_query tenv res ''fraud_performance'' (PStr ws) (PStr we) = Inr (PDict (report_data q cols rows))"
  shows "\<exists>rep body. build_report (te_str tenv) (te_now tenv) title (report_data q cols rows) = Inr rep \<and>
    render_email (te_str tenv) rep = Inr (rp_title rep, body) \<and>
    completes v (default_registry tenv) (window_event ws we fired) (build_report_plan title ''fraud_performance'' d True sched goal)
      (statuses [''ok'', ''ok'', ''ok'']) [report_message d rep body]"
proof -
  obtain rep body out where rep: "build_report (te_str tenv) (te_now tenv) title (report_data q cols rows) = Inr rep"
    "render_email (te_str tenv) rep = Inr (rp_title rep, body)"
    and out: "format_report (te_str tenv) (te_now tenv) title (report_data q cols rows) = Inr out" "map_of out ''slack_text'' = Some (PStr (render_slack rep))"
      "map_of out ''email_subject'' = Some (PStr (rp_title rep))" "map_of out ''email_body'' = Some (PStr body)"
    using report_formats [of "te_str tenv" "te_now tenv" title q cols rows] by blast
  obtain t args where n: "get_tool (default_registry tenv) (ps_tool (notify_step d 3 2)) = Some t"
    "resolve_args (ps_args (notify_step d 3 2)) (window_event ws we fired) [1 \<mapsto> PDict (report_data q cols rows), 2 \<mapsto> PDict out] = Inr args"
    "v (t_schema t) args = Inr args"
    "\<And>st i st'. write_outbox (fst (report_message d rep body)) (snd (report_message d rep body)) st = (Inr i, st') \<Longrightarrow>
      \<exists>res. t_execute t args st = (Inr res, st')"
    using notify_sends [OF assms(1,3,4) out(2-4)] by blast
  have "completes v (default_registry tenv) (window_event ws we fired) (build_report_plan title ''fraud_performance'' d True sched goal)
      (statuses [''ok'', ''ok'', ''ok'']) [report_message d rep body]"
  proof (rule piped_completes, rule pipeline_completes [OF report_plan_steps, where ?a3.0 = args and ?t3.0 = t and ?r1.0 = "PDict (report_data q cols rows)" and ?r2.0 = "PDict out"])
    show "get_tool (default_registry tenv) (ps_tool query_step) = Some (default_specs tenv ! 4)"
      "get_tool (default_registry tenv) (ps_tool (format_step title)) = Some (default_specs tenv ! 5)"
      by (simp_all add: query_step_def format_step_def get_default_tools)
    show "resolve_args (ps_args query_step) (window_event ws we fired) Map.empty =
        Inr [(''report'', PStr ''fraud_performance''), (''window_start'', PStr ws), (''window_end'', PStr we)]"
      by (simp add: query_step_def resolve_value_def resolve_ref_def promotion_refs)
    show "resolve_args (ps_args (format_step title)) (window_event ws we fired) [1 \<mapsto> PDict (report_data q cols rows)] =
        Inr [(''title'', PStr title), (''data'', PDict (report_data q cols rows))]"
      using assms(2) by (simp add: format_step_def resolve_value_def resolve_ref_def promotion_refs plain_def)
  qed (use assms(5) out(1) n in \<open>simp_all add: query_step_def format_step_def default_schemas default_bodies report_args_kept [OF assms(1)]
      report_tool_def pure_tool_def with_str_def with_dict_def get_key_def notify_fields\<close>)
  then show ?thesis using rep by blast
qed

text \<open>C2: A scheduled report is delivered, once.  Let a workflow hold the plan that promotion builds for the fraud performance
  report and a Slack or email destination, and be due: scheduled, not paused, in a state that can be armed.  If the SQL
  guard accepts the report's template and its text with the window filled in, the database answers it, and pydantic
  returns a complete dictionary as it is, then firing in a period not yet taken runs the query, the formatting and the
  delivery in that order, whatever the rows are; the workflow is COMPLETED and exactly one message is added to the
  outbox: the one for that destination, over a report with this title, the count of all rows, the first fifty of them
  and the SQL that was run.  Whatever happens to the store afterwards, a second fire in the period does nothing.\<close>

theorem scheduled_report_delivered:
  assumes "keeps_complete (e_validate senv)" "plain title" "make_destination c ch to sub = Inr d" "plain_destination d"
    and "in_order st" "due senv wid (build_report_plan title ''fraud_performance'' d True sched goal) st"
    and "\<not> run_exists_for_key wid (run_key f dt) st" "compute_window f dt = Inr (ws, we)"
    and "te_gate tenv catalog_sql = Inr t0" "substitute_window (te_fromiso tenv) catalog_sql (PStr ws) (PStr we) = Inr s1"
    and "te_gate tenv s1 = Inr q" "db_open (te_db tenv) = Inr ()" "db_run (te_db tenv) q = Inr (cols, map PList rows)"
  shows "\<exists>rr st' rep body. fire senv (default_registry tenv) wid f dt st = (Inr (Some rr), st') \<and>
    map oc_status (rr_steps rr) = [''ok'', ''ok'', ''ok''] \<and> state_of st' = (state_of st)(wid \<mapsto> COMPLETED) \<and>
    outbox_contents st' = outbox_contents st @ [report_message d rep body] \<and>
    rp_title rep = title \<and> rp_row_count rep = length rows \<and> rp_rows rep = map PList (take 50 rows) \<and> rp_sql_used rep = PStr q \<and>
    render_email (te_str tenv) rep = Inr (title, body) \<and>
    (\<forall>dt' st2. store_step\<^sup>*\<^sup>* st' st2 \<and> run_key f dt' = run_key f dt \<longrightarrow>
      fire senv (default_registry tenv) wid f dt' st2 = (Inr None, st2))"
proof -
  have a: "run_report_query tenv res ''fraud_performance'' (PStr ws) (PStr we) = Inr (PDict (report_data q cols rows))" for res
    by (rule report_query_answers) (use assms(9-) in simp_all)
  obtain rep body where rep: "build_report (te_str tenv) (te_now tenv) title (report_data q cols rows) = Inr rep"
    "render_email (te_str tenv) rep = Inr (rp_title rep, body)"
    and run: "completes (e_validate senv) (default_registry tenv) (window_event ws we (isoformat dt))
      (build_report_plan title ''fraud_performance'' d True sched goal) (statuses [''ok'', ''ok'', ''ok'']) [report_message d rep body]"
    using report_completes [OF assms(1-4) a, of "isoformat dt" sched goal] by blast
  have r: "rp_title rep = title" "rp_row_count rep = length rows" "rp_rows rep = map PList (take 50 rows)" "rp_sql_used rep = PStr q"
    using report_kept [OF rep(1)] by simp_all
  from dr.due_fires [OF run assms(5-8)] obtain rr st' where f: "fire senv (default_registry tenv) wid f dt st = (Inr (Some rr), st')"
    "map oc_status (rr_steps rr) = [''ok'', ''ok'', ''ok'']" "state_of st' = (state_of st)(wid \<mapsto> COMPLETED)"
    "outbox_contents st' = outbox_contents st @ [report_message d rep body]" by (auto simp: statuses_def)
  show ?thesis using f rep(2) r dr.fire_once [OF f(1)] by auto
qed

text \<open>A pydantic that accepts the complete dictionaries and nothing else.\<close>

definition strict_validator :: validator where
  "strict_validator sch d = (if well_typed sch d \<and> map fst d = map f_name sch then Inr d else Inl (Exn ValueError ''validation error''))"

lemma strict_keeps_complete: "keeps_complete strict_validator"
  by (simp add: keeps_complete_def strict_validator_def)

definition ops_channel :: destination where
  "ops_channel = \<lparr>d_connector = ''slack'', d_channel = Some ''#ops'', d_to = None, d_subject = None\<rparr>"

definition nightly_env :: sched_env where
  "nightly_env = demo_env\<lparr>e_validate := strict_validator,
     e_load_plan := (\<lambda>_. Inr (build_report_plan ''Nightly'' ''fraud_performance'' ops_channel True None None))\<rparr>"

definition nightly_store :: store where
  "nightly_store = snd (set_field [] ''trigger_type'' (SText ''schedule'') (snd (create_workflow None ''i'' None (Some ''p'') READY
     (empty_store (\<lambda>n. replicate n (CHR ''x'')) (\<lambda>_. [])))))"

definition nightly_tools :: tool_env where
  "nightly_tools = demo_tools\<lparr>te_fromiso := (\<lambda>_. Some leap_fire)\<rparr>"

lemma nightly_in_order: "in_order nightly_store"
proof -
  have "inj (\<lambda>n. replicate n (CHR ''x''))" by (rule injI) (metis length_replicate)
  then have "in_order (empty_store (\<lambda>n. replicate n (CHR ''x'')) (\<lambda>_. []))" using store_inv_empty [of "\<lambda>n. replicate n (CHR ''x'')" "\<lambda>_. []"]
    by (simp add: in_order_def empty_store_def)
  then have "in_order (snd (create_workflow None ''i'' None (Some ''p'') READY (empty_store (\<lambda>n. replicate n (CHR ''x'')) (\<lambda>_. []))))"
    by (rule in_order_keeps)
  then obtain st' where "set_field [] ''trigger_type'' (SText ''schedule'') (snd (create_workflow None ''i'' None (Some ''p'') READY
     (empty_store (\<lambda>n. replicate n (CHR ''x'')) (\<lambda>_. [])))) = (Inr (), st')" "in_order st'"
    using set_field_ok [of "''trigger_type''" "SText ''schedule''"] by (auto simp: set_allowed_def)
  then show ?thesis by (simp add: nightly_store_def)
qed

lemma nightly_binds: "\<exists>s. substitute_window (\<lambda>_. Some t) tmpl (PStr (a # as)) (PStr (b # bs)) = Inr s"
  by (simp add: substitute_window_def bind_param_def as_ts_literal_def)

theorem scheduled_report_delivered_witness:
  "\<exists>rr st' rep body. fire nightly_env (default_registry nightly_tools) [] ''daily'' leap_fire nightly_store = (Inr (Some rr), st') \<and>
    outbox_contents st' = [report_message ops_channel rep body] \<and> rp_title rep = ''Nightly'' \<and> rp_row_count rep = 1"
proof -
  obtain s1 where s1: "substitute_window (te_fromiso nightly_tools) catalog_sql (PStr ''2024-02-29T02:30:00'') (PStr ''2024-03-01T02:30:00'') = Inr s1"
    using nightly_binds [of leap_fire catalog_sql "CHR ''2''" "''024-02-29T02:30:00''" "CHR ''2''" "''024-03-01T02:30:00''"]
    by (auto simp: nightly_tools_def)
  have w: "compute_window ''daily'' leap_fire = Inr (''2024-02-29T02:30:00'', ''2024-03-01T02:30:00'')" by code_simp
  have "map_option (\<lambda>r. (w_plan_json r, w_state r, may_fire r)) (get_workflow [] nightly_store) = Some (Some ''p'', READY, True)"
    by code_simp
  then have d1: "due nightly_env [] (build_report_plan ''Nightly'' ''fraud_performance'' ops_channel True None None) nightly_store"
    by (auto simp: due_def nightly_env_def)
  have d2: "\<not> run_exists_for_key [] (run_key ''daily'' leap_fire) nightly_store" "outbox_contents nightly_store = []" by code_simp+
  have e1: "keeps_complete (e_validate nightly_env)" by (simp add: nightly_env_def strict_keeps_complete)
  have e2: "plain ''Nightly''" "make_destination ''slack'' (Some ''#ops'') None None = Inr ops_channel" by code_simp+
  have e3: "plain_destination ops_channel" by (simp add: plain_destination_def ops_channel_def plain_def)
  have t: "te_gate nightly_tools q = Inr q" "db_open (te_db nightly_tools) = Inr ()" "db_run (te_db nightly_tools) q = Inr ([''N''], map PList [[PInt 1]])" for q
    by (simp_all add: nightly_tools_def demo_tools_def)
  show ?thesis
    using scheduled_report_delivered [OF e1 e2 e3 nightly_in_order d1 d2(1) w t(1) s1 t(1,2,3)] d2(2) by auto
qed

end
