(* ===== verification/Pages.thy ===== *)
theory Pages
  imports Api Delivery
begin

text \<open>
  The two Streamlit pages: \<open>workflow_engine/streamlit_app.py\<close> and \<open>bi_dashboard/streamlit_app.py\<close> with
  \<open>bi_dashboard/chart_renderer.py\<close>.  Streamlit runs the script once per interaction, with one button pressed: a
  click is a step from one state of the session to the next, and what the script shows is its result.  The engine
  and the agent are cached for the process.  Plotly's three charts and pandas' test for a numeric column are
  parameters; layout, spinners and fixed texts are not modelled.
\<close>

section \<open>Charts\<close>

record frame =
  fm_columns :: "string list"
  fm_rows :: "pyval list"

record 'fig plotting =
  px_numeric :: "frame \<Rightarrow> string \<Rightarrow> bool"
  px_line :: "frame \<Rightarrow> string \<Rightarrow> string \<Rightarrow> pyexn + 'fig"
  px_pie :: "frame \<Rightarrow> string \<Rightarrow> string \<Rightarrow> pyexn + 'fig"
  px_bar :: "frame \<Rightarrow> string \<Rightarrow> string \<Rightarrow> pyexn + 'fig"

definition build_dataframe :: "string list \<Rightarrow> pyval list \<Rightarrow> frame" where
  "build_dataframe columns rows = \<lparr>fm_columns = columns, fm_rows = rows\<rparr>"

definition frame_empty :: "frame \<Rightarrow> bool" where
  "frame_empty df = (fm_rows df = [] \<or> fm_columns df = [])"

definition render :: "'fig plotting \<Rightarrow> frame \<Rightarrow> string \<Rightarrow> 'fig option" where
  "render px df chart_hint =
    (if frame_empty df then None
     else let hint = lower (if chart_hint = [] then ''table'' else chart_hint);
              numeric_cols = filter (px_numeric px df) (fm_columns df);
              other_cols = filter (\<lambda>c. c \<notin> set numeric_cols) (fm_columns df)
          in if hint \<in> {''table'', ''metric''} \<or> numeric_cols = [] \<or> length (fm_rows df) = 1 then None
             else let x = (if other_cols \<noteq> [] then hd other_cols else hd (fm_columns df)); y = hd numeric_cols
                  in case (if hint = ''line'' then px_line px df x y else if hint = ''pie'' then px_pie px df x y else px_bar px df x y) of
                       Inl _ \<Rightarrow> None
                     | Inr fig \<Rightarrow> Some fig)"

datatype 'fig shown = Shown_Empty | Shown_Metric string pyval | Shown_Table "'fig option" frame

definition underscores_spaced :: "string \<Rightarrow> string" where
  "underscores_spaced = map (\<lambda>c. if c = CHR ''_'' then CHR '' '' else c)"

text \<open>\<open>df.iloc[0, 0]\<close>\<close>

fun cell :: "pyval \<Rightarrow> pyval" where
  "cell (PList (v # vs)) = v"
| "cell v = v"

definition render_result :: "'fig plotting \<Rightarrow> string list \<Rightarrow> pyval list \<Rightarrow> string \<Rightarrow> 'fig shown" where
  "render_result px columns rows chart_hint =
    (let df = build_dataframe columns rows
     in if frame_empty df then Shown_Empty
        else if length rows = 1 \<and> length columns = 1
        then Shown_Metric (underscores_spaced (hd columns)) (cell (hd rows))
        else Shown_Table (render px df chart_hint) df)"

text \<open>A figure is drawn only over two rows or more and over columns of the result, the measure a numeric one; the first
  axis is numeric only when no column is not.\<close>

lemma render_honest:
  assumes "render px df h = Some fig"
  shows "\<exists>x y. {x, y} \<subseteq> set (fm_columns df) \<and> px_numeric px df y \<and> 2 \<le> length (fm_rows df) \<and>
    (px_numeric px df x \<longrightarrow> (\<forall>c\<in>set (fm_columns df). px_numeric px df c)) \<and>
    Inr fig \<in> {px_line px df x y, px_pie px df x y, px_bar px df x y}"
proof -
  let ?num = "filter (px_numeric px df) (fm_columns df)"
  let ?oth = "filter (\<lambda>c. c \<notin> set ?num) (fm_columns df)"
  define x where "x = (if ?oth \<noteq> [] then hd ?oth else hd (fm_columns df))"
  define y where "y = hd ?num"
  let ?h = "lower (if h = [] then ''table'' else h)"
  define out where "out = (if ?h = ''line'' then px_line px df x y
      else if ?h = ''pie'' then px_pie px df x y else px_bar px df x y)"
  define bad where "bad = (?h \<in> {''table'', ''metric''} \<or> ?num = [] \<or> length (fm_rows df) = 1)"
  have r: "render px df h = (if frame_empty df then None else if bad then None else case out of Inl _ \<Rightarrow> None | Inr f \<Rightarrow> Some f)"
    unfolding render_def out_def bad_def x_def y_def Let_def ..
  have e: "\<not> frame_empty df" using assms unfolding r by (cases "frame_empty df") simp_all
  have g: "\<not> bad" using assms unfolding r by (cases bad) (simp_all split: if_splits)
  have "out = Inr fig" using assms e g unfolding r by (cases out) simp_all
  then have n5: "Inr fig \<in> {px_line px df x y, px_pie px df x y, px_bar px df x y}"
    unfolding out_def by (metis insert_iff)
  have n1: "?num \<noteq> []" and n2: "length (fm_rows df) \<noteq> 1" using g unfolding bad_def by blast+
  have fe: "fm_columns df \<noteq> []" "fm_rows df \<noteq> []" using e by (simp_all add: frame_empty_def)
  have y: "y \<in> set (fm_columns df)" "px_numeric px df y" using hd_in_set [OF n1] by (simp_all add: y_def)
  have x: "x \<in> set (fm_columns df) \<and> (px_numeric px df x \<longrightarrow> (\<forall>c\<in>set (fm_columns df). px_numeric px df c))"
  proof (cases "?oth = []")
    case True
    then show ?thesis using fe(1) by (auto simp: filter_empty_conv x_def)
  next
    case False
    then have "hd ?oth \<in> set ?oth" by (rule hd_in_set)
    then show ?thesis using False by (auto simp: x_def)
  qed
  have l: "2 \<le> length (fm_rows df)" using fe(2) n2 by (cases "fm_rows df") (auto simp: Suc_le_eq)
  have "{x, y} \<subseteq> set (fm_columns df)" using x y(1) by simp
  then show ?thesis using conjunct2 [OF x] y(2) l n5 by blast
qed

section \<open>The workflow page\<close>

definition plan_page :: "engine \<Rightarrow> string \<Rightarrow> string \<Rightarrow> store \<Rightarrow> (string \<times> workflow_plan \<times> feasibility_report, store) out" where
  "plan_page en event_user instruction st =
    seq (create_workflow (Some event_user) instruction None None SUBMITTED st) (\<lambda>wid st.
    seq (transition wid PLANNED st) (\<lambda>_ st.
    seq (make_plan (en_llm en) (en_reg en) (en_pystr en) instruction None, st) (\<lambda>plan st.
      let st = set_trigger wid (pl_trigger plan) (set_plan wid (e_dump_plan (en_sched en) plan) st);
          report = check_plan (en_zone en) (e_validate (en_sched en)) (en_reg en) plan
      in seq (if fr_ok report
              then seq (transition wid FEASIBLE st) (\<lambda>_ st.
                     transition wid (if fr_requires_approval report then AWAITING_APPROVAL else READY) st)
              else transition wid REJECTED st) (\<lambda>_ st. (Inr (wid, plan, report), st)))))"

record run_line =
  rl_workflow :: string
  rl_status :: string
  rl_ok :: nat
  rl_skipped :: nat
  rl_new_rows :: int

definition stored_plan :: "engine \<Rightarrow> wf_row \<Rightarrow> pyexn + workflow_plan" where
  "stored_plan en r =
    (case w_plan_json r of
       None \<Rightarrow> Inl (Exn ValidationError ''JSON input should be string, bytes or bytearray'')
     | Some j \<Rightarrow> e_load_plan (en_sched en) j)"

definition run_line_of :: "string \<Rightarrow> run_result \<Rightarrow> nat \<Rightarrow> nat \<Rightarrow> run_line" where
  "run_line_of wid res before after =
    \<lparr>rl_workflow = wid, rl_status = rr_status res, rl_ok = length (filter (\<lambda>out. oc_status out = ''ok'') (rr_steps res)),
     rl_skipped = length (filter (\<lambda>out. oc_status out = ''skipped'') (rr_steps res)), rl_new_rows = int after - int before\<rparr>"

text \<open>The state that decides whether a workflow is armed again is the one of the row that was matched.\<close>

fun page_runs :: "engine \<Rightarrow> pydict \<Rightarrow> wf_row list \<Rightarrow> run_line list \<Rightarrow> store \<Rightarrow> (run_line list, store) out" where
  "page_runs en payload [] acc st = (Inr acc, st)"
| "page_runs en payload (r # rs) acc st =
    seq (stored_plan en r, st) (\<lambda>plan st.
    seq (if w_state r \<in> {COMPLETED, FAILED, FEASIBLE} then transition (w_id r) READY st else (Inr (), st)) (\<lambda>_ st.
      let before = length (outbox 50 st)
      in seq (execute (e_validate (en_sched en)) (en_reg en) (w_id r) plan (Some payload) None st) (\<lambda>res st.
           page_runs en payload rs (acc @ [run_line_of (w_id r) res before (length (outbox 50 st))]) st)))"

definition fire_page :: "engine \<Rightarrow> string \<Rightarrow> store \<Rightarrow> (run_line list, store) out" where
  "fire_page en event_user st =
    page_runs en [(''user_id'', PStr event_user)] (workflows_for_trigger ''payment.captured'' st) [] st"

text \<open>\<open>outbox()\<close> returns at most fifty rows, so once fifty messages are stored the page reports that nothing was sent,
  whatever was.\<close>

lemma new_rows_lost:
  assumes "50 \<le> length (outbox_tbl st)" "length (outbox_tbl st) \<le> length (outbox_tbl st')"
  shows "rl_new_rows (run_line_of w res (length (outbox 50 st)) (length (outbox 50 st'))) = 0"
  using assms by (simp add: run_line_of_def outbox_def sql_limit_def sort_desc_def)

section \<open>The actions of the BI page\<close>

definition deliver_now :: "engine \<Rightarrow> string \<Rightarrow> destination \<Rightarrow> string \<Rightarrow> store
    \<Rightarrow> (feasibility_report \<times> (string \<times> run_result \<times> outbox_row list) option, store) out" where
  "deliver_now en sql dest title st =
    seq (en_gate en sql, st) (\<lambda>safe_sql st.
    seq (save_template safe_sql (Some title) None st) (\<lambda>tid st.
      let plan = build_report_plan title tid dest False None None;
          report = check_plan (en_zone en) (e_validate (en_sched en)) (en_reg en) plan
      in if \<not> fr_ok report then (Inr (report, None), st)
         else seq (create_workflow (Some ''bi-user'') (''[deliver] '' @ title) None None SUBMITTED st) (\<lambda>wid st.
              seq (transition wid PLANNED st) (\<lambda>_ st.
              seq (transition wid FEASIBLE (set_plan wid (e_dump_plan (en_sched en) plan) st)) (\<lambda>_ st.
              seq (transition wid READY st) (\<lambda>_ st.
              seq (execute (e_validate (en_sched en)) (en_reg en) wid plan None None st) (\<lambda>res st.
                (Inr (report, Some (wid, res, take 5 (outbox 50 st))), st))))))))"

definition activate_schedule :: "engine \<Rightarrow> string \<Rightarrow> schedule \<Rightarrow> destination \<Rightarrow> string \<Rightarrow> runtime
    \<Rightarrow> (feasibility_report \<times> (string \<times> string \<times> string option) option, runtime) out" where
  "activate_schedule en sql sc dest title rt =
    seq (en_gate en sql, rt) (\<lambda>safe_sql rt.
    seq (lift_store rt (save_template safe_sql (Some title) None (rt_store rt))) (\<lambda>tid rt.
      let plan = build_report_plan title tid dest False (Some (planned_of sc)) None;
          report = check_plan (en_zone en) (e_validate (en_sched en)) (en_reg en) plan
      in if \<not> fr_ok report then (Inr (report, None), rt)
         else seq (lift_store rt
                (seq (create_workflow (Some ''bi-user'') (''[scheduled] '' @ title) None None SUBMITTED (rt_store rt)) (\<lambda>wid st.
                 seq (transition wid PLANNED st) (\<lambda>_ st.
                 seq (set_schedule wid (e_dump_schedule (en_sched en) sc)
                        (Some (e_dumps (en_sched en) (PDict (destination_json dest)))) (Some tid)
                        (set_plan wid (e_dump_plan (en_sched en) plan) st)) (\<lambda>_ st.
                 seq (transition wid FEASIBLE st) (\<lambda>_ st.
                 seq (transition wid READY st) (\<lambda>_ st. (Inr wid, st))))))))
              (\<lambda>wid rt. seq (schedule_workflow (en_sched en) wid sc rt) (\<lambda>next_run rt.
                seq (describe sc, rt) (\<lambda>txt rt. (Inr (report, Some (wid, txt, next_run)), rt))))))"

section \<open>The session\<close>

record bi_result =
  br_question :: string
  br_sql :: string
  br_explanation :: string
  br_chart_hint :: string
  br_columns :: "string list"
  br_rows :: "pyval list"

record schedule_preview =
  sp_schedule :: planned_schedule
  sp_dest :: destination
  sp_title :: string

text \<open>The session with the two cached resources: the agent and the runtime of the engine\<close>

record bi_page =
  pg_result :: "bi_result option"
  pg_preview :: "schedule_preview option"
  pg_agent :: nl_agent
  pg_runtime :: runtime

record bi_server_calls =
  bc_llm :: "string \<Rightarrow> pyexn + generated_query"
  bc_open :: "pyexn + unit"
  bc_run :: "string \<Rightarrow> pyexn + string list \<times> pyval list"

text \<open>A failed question is shown and stops the script before the session is touched.\<close>

definition ask_page :: "engine \<Rightarrow> bi_server_calls \<Rightarrow> string \<Rightarrow> bi_page \<Rightarrow> (unit, bi_page) out" where
  "ask_page en bc question pg =
    (if strip question = [] then (Inr (), pg)
     else case ask (en_gate en) (bc_llm bc) (bc_open bc) (bc_run bc) (strip question) (pg_agent pg) of
       (Inl e, a) \<Rightarrow> (Inl e, pg\<lparr>pg_agent := a\<rparr>)
     | (Inr (g, cols, rows), a) \<Rightarrow>
        (Inr (), pg\<lparr>pg_agent := a, pg_preview := None,
           pg_result := Some \<lparr>br_question = strip question, br_sql = gq_sql g, br_explanation = gq_explanation g,
             br_chart_hint = gq_chart_hint g, br_columns = cols, br_rows = rows\<rparr>\<rparr>))"

definition on_store :: "bi_page \<Rightarrow> ('a, store) out \<Rightarrow> ('a, bi_page) out" where
  "on_store pg r = (fst r, pg\<lparr>pg_runtime := snd (lift_store (pg_runtime pg) r)\<rparr>)"

text \<open>The buttons stand below a result; without one they are not on the page.\<close>

definition deliver_page :: "engine \<Rightarrow> string \<Rightarrow> string \<Rightarrow> string \<Rightarrow> bi_page \<Rightarrow> (unit, bi_page) out" where
  "deliver_page en connector target title pg =
    (case pg_result pg of
       None \<Rightarrow> (Inr (), pg)
     | Some res \<Rightarrow>
        seq (if connector = ''slack'' then make_destination ''slack'' (Some target) None None
             else make_destination ''email'' None (Some target) (Some title), pg) (\<lambda>dest pg.
        seq (on_store pg (deliver_now en (br_sql res) dest title (rt_store (pg_runtime pg)))) (\<lambda>_ pg. (Inr (), pg))))"

definition preview_page :: "engine \<Rightarrow> planned_schedule \<Rightarrow> string \<Rightarrow> string \<Rightarrow> string \<Rightarrow> bi_page \<Rightarrow> (unit, bi_page) out" where
  "preview_page en p connector target title pg =
    (case pg_result pg of
       None \<Rightarrow> (Inr (), pg)
     | Some _ \<Rightarrow>
        (case make_schedule (en_zone en) p of
           Inl (loc, msg) \<Rightarrow> (Inl (Exn ValidationError (loc @ '' '' @ msg)), pg\<lparr>pg_preview := None\<rparr>)
         | Inr sc \<Rightarrow>
            (case (if connector = ''slack'' then make_destination ''slack'' (Some target) None None
                   else make_destination ''email'' None (Some target) (Some title)) of
               Inl e \<Rightarrow> (Inl e, pg\<lparr>pg_preview := None\<rparr>)
             | Inr dest \<Rightarrow>
                (Inr (), pg\<lparr>pg_preview := Some \<lparr>sp_schedule = planned_of sc, sp_dest = dest, sp_title = title\<rparr>\<rparr>))))"

text \<open>What the preview stands for, built again from the session; the button is there only when the previewed plan passes.\<close>

definition previewed :: "engine \<Rightarrow> schedule_preview \<Rightarrow> pyexn + schedule \<times> destination \<times> feasibility_report" where
  "previewed en prev =
    (case make_schedule (en_zone en) (sp_schedule prev) of
       Inl (loc, msg) \<Rightarrow> Inl (Exn ValidationError (loc @ '' '' @ msg))
     | Inr sc \<Rightarrow>
        and_then (make_destination (d_connector (sp_dest prev)) (d_channel (sp_dest prev)) (d_to (sp_dest prev)) (d_subject (sp_dest prev)))
          (\<lambda>dest. Inr (sc, dest, check_plan (en_zone en) (e_validate (en_sched en)) (en_reg en)
             (build_report_plan (sp_title prev) ''(validated stored query)'' dest False (Some (planned_of sc)) None))))"

definition activate_page :: "engine \<Rightarrow> bi_page \<Rightarrow> (unit, bi_page) out" where
  "activate_page en pg =
    (case (pg_result pg, pg_preview pg) of
       (Some res, Some prev) \<Rightarrow>
        seq (previewed en prev, pg) (\<lambda>(sc, dest, report) pg.
          if \<not> fr_ok report then (Inr (), pg)
          else case activate_schedule en (br_sql res) sc dest (sp_title prev) (pg_runtime pg) of
                 (Inl e, rt) \<Rightarrow> (Inl e, pg\<lparr>pg_runtime := rt\<rparr>)
               | (Inr _, rt) \<Rightarrow> (Inr (), pg\<lparr>pg_runtime := rt, pg_preview := None\<rparr>))
     | _ \<Rightarrow> (Inr (), pg))"

datatype bi_click = Ask_Question bi_server_calls string | Deliver string string string
  | Preview planned_schedule string string string | Activate

fun bi_step :: "engine \<Rightarrow> bi_click \<Rightarrow> bi_page \<Rightarrow> bi_page" where
  "bi_step en (Ask_Question bc q) pg = snd (ask_page en bc q pg)"
| "bi_step en (Deliver connector target title) pg = snd (deliver_page en connector target title pg)"
| "bi_step en (Preview p connector target title) pg = snd (preview_page en p connector target title pg)"
| "bi_step en Activate pg = snd (activate_page en pg)"

definition bi_session :: "engine \<Rightarrow> bi_click list \<Rightarrow> bi_page \<Rightarrow> bi_page" where
  "bi_session en clicks pg = fold (bi_step en) clicks pg"

definition opened_page :: "runtime \<Rightarrow> bi_page" where
  "opened_page rt = \<lparr>pg_result = None, pg_preview = None, pg_agent = \<lparr>nl_open = False, nl_log = []\<rparr>, pg_runtime = rt\<rparr>"

section \<open>The pages and the interface\<close>

lemma seq_snd_cong:
  assumes "\<And>a s. r = (Inr a, s) \<Longrightarrow> snd (k a s) = snd (k' a s)"
  shows "snd (seq r k) = snd (seq r k')"
proof (cases r)
  case (Pair x s)
  then show ?thesis using assms by (cases x) simp_all
qed

lemma seq_snd_skip: "(\<And>a s. snd (k a s) = s) \<Longrightarrow> snd (seq r k) = snd r"
  by (cases r; cases "fst r") auto

text \<open>Planning on the page is the create route, up to what is shown.\<close>

lemma plan_page_is_create:
  "snd (plan_page en u i st) = snd (route_create en \<lparr>cq_instruction = i, cq_user_id = Some u\<rparr> st)"
proof -
  have "snd (seq r (\<lambda>_ st. (Inr (wid, pl, rep), st))) = snd (seq r (\<lambda>_ st. case get_workflow wid st of
      None \<Rightarrow> (Inl e, st) | Some row \<Rightarrow> (Inr (mk row), st)))" for r :: "(unit, store) out" and wid :: string and pl :: workflow_plan
      and rep :: feasibility_report and e and mk :: "wf_row \<Rightarrow> create_response"
    by (rule seq_snd_cong) (simp split: option.split)
  then show ?thesis
    unfolding plan_page_def route_create_def create_request.simps
    by (intro seq_snd_cong) (simp add: Let_def split: sum.split)
qed

text \<open>Delivering from the page is the deliver route for the user of the page.\<close>

lemma deliver_now_is_route:
  assumes "make_destination c ch to sub = Inr d"
  shows "snd (deliver_now en sql d title st) = snd (route_deliver en \<lparr>dq_title = title, dq_sql = sql,
    dq_destination = \<lparr>dm_connector = c, dm_channel = ch, dm_to = to, dm_subject = sub\<rparr>, dq_user_id = Some ''bi-user''\<rparr> st)"
proof (cases "en_gate en sql")
  case (Inl e)
  obtain k t where e: "e = Exn k t" by (cases e)
  then have "\<exists>e'. validate_or_422 en sql = Inl e'" using Inl by (simp add: validate_or_422_def)
  then show ?thesis using Inl by (auto simp: deliver_now_def route_deliver_def)
next
  case (Inr q)
  have v: "validate_or_422 en sql = Inr q" using Inr by (simp add: validate_or_422_def)
  have ad: "api_destination \<lparr>dm_connector = c, dm_channel = ch, dm_to = to, dm_subject = sub\<rparr> = Inr d"
    by (simp add: api_destination_def assms)
  show ?thesis
    unfolding deliver_now_def route_deliver_def deliver_request.simps v ad Inr and_then.simps sum.case prod.case seq.simps
  proof (rule seq_snd_cong, goal_cases)
    case (1 tid st1)
    show ?case
      unfolding Let_def promote_rows_def
      by (simp add: seq_assoc split: sum.split) (auto intro!: seq_snd_cong)
  qed
qed

text \<open>Activating from the page is the schedule route with the query instead of a named report, as long as the vetted
  statement takes no window.\<close>

lemma activate_is_route:
  assumes "make_destination c ch to sub = Inr d" "en_kwargs en sd = Inr (planned_of sc)" "make_schedule (en_zone en) (planned_of sc) = Inr sc"
    and "sql \<noteq> []" "\<And>q. en_gate en sql = Inr q \<Longrightarrow> \<not> contains q '':window_start'' \<and> q \<noteq> []"
  shows "snd (activate_schedule en sql sc d title rt) = snd (route_schedule en \<lparr>sq_title = title, sq_sql = sql, sq_schedule = sd,
    sq_destination = \<lparr>dm_connector = c, dm_channel = ch, dm_to = to, dm_subject = sub\<rparr>, sq_user_id = Some ''bi-user'', sq_report = None\<rparr> rt)"
proof (cases "en_gate en sql")
  case (Inl e)
  obtain k t where e: "e = Exn k t" by (cases e)
  then have "\<exists>e'. validate_or_422 en sql = Inl e'" using Inl by (simp add: validate_or_422_def)
  then show ?thesis using Inl assms(4)
    by (auto simp: activate_schedule_def route_schedule_def report_inputs_def resolve_source_def)
next
  case (Inr q)
  have v: "validate_or_422 en sql = Inr q" using Inr by (simp add: validate_or_422_def)
  have ri: "report_inputs en \<lparr>sq_title = title, sq_sql = sql, sq_schedule = sd,
      sq_destination = \<lparr>dm_connector = c, dm_channel = ch, dm_to = to, dm_subject = sub\<rparr>, sq_user_id = Some ''bi-user'', sq_report = None\<rparr> =
      Inr ((None, Some q, False), sc, d)"
    using v assms by (simp add: report_inputs_def resolve_source_def api_schedule_def api_destination_def Inr)
  have g: "given (Some q)" using assms(5) [OF Inr] by simp
  have l: "lift_store rt (seq r (\<lambda>tid st. (Inr (Some tid), st))) = seq (lift_store rt r) (\<lambda>tid rt. (Inr (Some tid), rt))" for r :: "(string, store) out"
    by (cases r; cases "fst r") (auto simp: lift_store_def)
  have "snd (seq (schedule_workflow (en_sched en) wid sc rt) (\<lambda>next_run rt. seq (describe sc, rt) (\<lambda>txt rt.
        (Inr (rep, Some (wid, txt, next_run)), rt)))) =
      snd (seq (schedule_workflow (en_sched en) wid sc rt) (\<lambda>t rt. case describe sc of Inl e \<Rightarrow> (Inl e, rt) | Inr txt \<Rightarrow> (Inr (mk wid txt t), rt)))"
    for wid rt and rep :: feasibility_report and mk :: "string \<Rightarrow> string \<Rightarrow> string option \<Rightarrow> schedule_response"
    by (rule seq_snd_cong) (simp split: sum.split)
  note tail_same = this
  show ?thesis
    unfolding activate_schedule_def route_schedule_def ri sum.case prod.case Inr seq.simps schedule_request.simps
    apply (simp only: g if_True option.sel l seq_assoc seq.simps)
    apply (rule seq_snd_cong)
    apply (simp only: seq.simps Let_def promotion_plan_def option.case given.simps if_False promote_rows_def)
    apply (simp only: if_distrib [of snd])
    apply (rule if_cong [OF refl])
    apply (simp only: snd_conv)
    apply (rule seq_snd_cong)
    apply (rule tail_same)
    done
qed

section \<open>What the clicks keep\<close>

lemma on_store_runtime: "rt_store (pg_runtime (snd (on_store pg r))) = snd r" "rt_jobs (pg_runtime (snd (on_store pg r))) = rt_jobs (pg_runtime pg)"
  by (simp_all add: on_store_def lift_store_def)

lemma ask_page_runtime: "pg_runtime (snd (ask_page en bc q pg)) = pg_runtime pg"
  by (auto simp: ask_page_def split: prod.split sum.split)

lemma preview_page_runtime: "pg_runtime (snd (preview_page en p c t ti pg)) = pg_runtime pg"
  by (auto simp: preview_page_def split: option.split sum.split prod.split)

context served
begin

lemma page_delivers: "I st \<Longrightarrow> I (snd (deliver_now en sql d title st))"
  unfolding deliver_now_def
proof (rule seq_inv [where I = I], goal_cases)
  case (2 q st')
  then have g: "en_gate en sql = Inr q" by simp
  have t: "I (snd (save_template q (Some title) None st'))" by (rule template [OF 2(3) g])
  show ?case
  proof (rule seq_inv [where I = I], rule t, goal_cases)
    case (1 tid s)
    have "C w" if "create_workflow (Some ''bi-user'') (''[deliver] '' @ title) None None SUBMITTED s = (Inr w, s')" for w s'
      by (rule created [OF 1(2) that])
    then show ?case
      unfolding Let_def by (auto intro!: seq_inv [where I = I] create move plan execution 1(2))
  qed
qed simp

lemma page_activates: "I (rt_store rt) \<Longrightarrow> I (rt_store (snd (activate_schedule en sql sc d title rt)))"
  unfolding activate_schedule_def
proof (rule seq_inv [where I = "\<lambda>rt. I (rt_store rt)"], goal_cases)
  case (2 q rt')
  then have g: "en_gate en sql = Inr q" by simp
  have t: "I (snd (save_template q (Some title) None (rt_store rt')))" by (rule template [OF 2(3) g])
  show ?case
  proof (rule seq_inv [where I = "\<lambda>rt. I (rt_store rt)"], goal_cases)
    case (2 tid rt1)
    have "C w" if "create_workflow (Some ''bi-user'') (''[scheduled] '' @ title) None None SUBMITTED (rt_store rt1) = (Inr w, s')" for w s'
      by (rule created [OF 2(2) that])
    then have p: "I (snd (seq (create_workflow (Some ''bi-user'') (''[scheduled] '' @ title) None None SUBMITTED (rt_store rt1)) (\<lambda>wid st.
        seq (transition wid PLANNED st) (\<lambda>_ st. seq (set_schedule wid sj dj tj (set_plan wid pj st)) (\<lambda>_ st.
        seq (transition wid FEASIBLE st) (\<lambda>_ st. seq (transition wid READY st) (\<lambda>_ st. (Inr wid, st))))))))" for sj dj tj pj
      by (auto intro!: seq_inv [where I = I] create move plan schedule_fields 2(2))
    show ?case
      unfolding Let_def by (auto intro!: seq_inv [where I = "\<lambda>rt. I (rt_store rt)"] p [simplified] scheduling 2(2))
  qed (simp add: t)
qed simp

lemma click_keeps:
  assumes "I (rt_store (pg_runtime pg))"
  shows "I (rt_store (pg_runtime (bi_step en click pg)))"
proof (cases click)
  case (Deliver c t ti)
  have "I (rt_store (pg_runtime (snd (deliver_page en c t ti pg))))"
    unfolding deliver_page_def
    by (auto intro!: seq_inv [where I = "\<lambda>pg. I (rt_store (pg_runtime pg))"] split: option.split
        simp: on_store_runtime assms page_delivers)
  then show ?thesis using Deliver by simp
next
  case Activate
  have "I (rt_store (pg_runtime (snd (activate_page en pg))))"
    unfolding activate_page_def
    using page_activates [where rt = "pg_runtime pg"] assms
    by (auto intro!: seq_inv [where I = "\<lambda>pg. I (rt_store (pg_runtime pg))"] split: option.split prod.split sum.split)
      (metis snd_conv)+
  then show ?thesis using Activate by simp
qed (simp_all add: ask_page_runtime preview_page_runtime assms)

lemma session_keeps: "I (rt_store (pg_runtime pg)) \<Longrightarrow> I (rt_store (pg_runtime (bi_session en clicks pg)))"
  unfolding bi_session_def by (induction clicks arbitrary: pg) (simp_all add: click_keeps)

lemma page_runs_keep:
  assumes "I st" "\<And>r. r \<in> set rs \<Longrightarrow> C (w_id r)"
  shows "I (snd (page_runs en payload rs acc st))"
  using assms
proof (induction rs arbitrary: acc st)
  case (Cons r rs)
  have c: "C (w_id r)" using Cons.prems(2) by simp
  show ?case
    by (auto simp: Let_def intro!: seq_inv [where I = I] Cons.IH execution move c Cons.prems)
qed simp

end

section \<open>Firing an event\<close>

context quiet_registry
begin

lemma execute_others:
  assumes "w' \<noteq> w"
  shows "state_of (snd (execute v reg w pl payload k st)) w' = state_of st w'"
proof -
  define I where "I s = (state_of s w' = state_of st w')" for s
  have tr: "I s \<Longrightarrow> I (snd (transition w to s))" for to s using assms by (simp add: I_def transition_state)
  have fr: "I s \<Longrightarrow> workflows s' = workflows s \<Longrightarrow> I s'" for s s' unfolding I_def by (drule state_of_frame) simp
  have fin: "I (x_store xs) \<Longrightarrow> I (snd (finish w rid to e xs))" for rid to e xs
    unfolding finish_def by (rule seq_inv [where I = I], rule tr, erule fr) (simp_all add: workflows_frame)
  have "I (snd (case run_steps v reg rid trg ss (exec_start s) of
      Halt err xs \<Rightarrow> finish w rid FAILED (Some err) xs | Go xs \<Rightarrow> finish w rid COMPLETED None xs))" if "I s" for rid trg ss s
  proof -
    have "I (x_store (flow_state (run_steps v reg rid trg ss (exec_start s))))"
      by (rule fr [OF that]) (simp add: steps_keep_workflows exec_start_def)
    then show ?thesis by (auto split: flow.split intro!: fin)
  qed
  then have "I (snd (execute v reg w pl payload k st))"
    unfolding execute_def Let_def
    by (intro seq_inv [where I = I]) (auto intro: tr fr [of st] simp: workflows_frame I_def [of st])
  then show ?thesis by (simp add: I_def)
qed

text \<open>The page arms and runs exactly as the event route does, over rows that have a plan which has steps or does not load.\<close>

lemma page_runs_are_event_runs:
  assumes "en_reg en = reg" "distinct (map w_id rs)"
    and "\<And>r. r \<in> set rs \<Longrightarrow> state_of st (w_id r) = Some (w_state r) \<and> w_state r \<in> {READY, COMPLETED}"
    and "\<And>r. r \<in> set rs \<Longrightarrow> plan_of en r \<noteq> Inr None \<and> (\<forall>pl. plan_of en r = Inr (Some pl) \<longrightarrow> pl_steps pl \<noteq> [])"
  shows "snd (page_runs en payload rs acc st) = snd (event_runs en payload rs acc' st)"
  using assms(2-4)
proof (induction rs arbitrary: acc acc' st)
  case (Cons r rs)
  show ?case
  proof (cases "plan_of en r")
    case (Inl e)
    then have "stored_plan en r = Inl e"
      by (auto simp: plan_of_def stored_plan_def split: option.splits if_splits elim!: and_then.elims)
    then show ?thesis using Inl by simp
  next
    case (Inr p)
    obtain pl where pl: "plan_of en r = Inr (Some pl)" "pl_steps pl \<noteq> []" using Cons.prems(3) [of r] Inr by (cases p) auto
    then have sp: "stored_plan en r = Inr pl"
      by (auto simp: plan_of_def stored_plan_def split: option.splits if_splits sum.splits)
    obtain r' where r': "get_workflow (w_id r) st = Some r'" "w_state r' = w_state r" "w_state r \<in> {READY, COMPLETED}"
      using Cons.prems(2) [of r] by (auto simp: state_of_def)
    let ?arm = "if w_state r \<in> {COMPLETED, FAILED, FEASIBLE} then transition (w_id r) READY st else (Inr (), st)"
    have arm: "api_arm (w_id r) st = ?arm" using r' by (auto simp: api_arm_def)
    have others: "state_of st2 (w_id q) = Some (w_state q) \<and> w_state q \<in> {READY, COMPLETED}"
      if "q \<in> set rs" "?arm = (Inr u, st1)" "execute (e_validate (en_sched en)) reg (w_id r) pl (Some payload) None st1 = (Inr rr, st2)"
      for q u st1 rr st2
    proof -
      have ne: "w_id q \<noteq> w_id r" using Cons.prems(1) imageI [OF that(1), of w_id] by auto
      have "state_of (snd ?arm) (w_id q) = state_of st (w_id q)" using ne by (simp add: transition_state)
      moreover have "state_of st2 (w_id q) = state_of st1 (w_id q)"
        using execute_others [OF ne, of "e_validate (en_sched en)" pl "Some payload" None st1] that(3) by simp
      ultimately show ?thesis using Cons.prems(2) [of q] that(1,2) by simp
    qed
    show ?thesis
      unfolding page_runs.simps event_runs.simps sp pl(1) arm seq.simps sum.case option.case assms(1) Let_def
      using pl(2) by (simp only: if_False) (intro seq_snd_cong Cons.IH; use Cons.prems others in auto)
  qed
qed simp

end

section \<open>The session of the BI page\<close>

lemma destination_rebuilt:
  assumes "make_destination c ch to sub = Inr d"
  shows "make_destination (d_connector d) (d_channel d) (d_to d) (d_subject d) = Inr d"
proof -
  have "lower ''slack'' = ''slack''" "lower ''email'' = ''email''" by code_simp+
  then show ?thesis using assms by (auto simp: make_destination_def Let_def split: if_splits)
qed

definition page_inv :: "engine \<Rightarrow> bi_page \<Rightarrow> bool" where
  "page_inv en pg =
    ((\<forall>s\<in>set (nl_log (pg_agent pg)). \<exists>q. en_gate en q = Inr s) \<and>
     (pg_preview pg \<noteq> None \<longrightarrow> pg_result pg \<noteq> None) \<and>
     (case pg_result pg of None \<Rightarrow> True | Some res \<Rightarrow> \<exists>q. en_gate en (br_sql res) = Inr q) \<and>
     (case pg_preview pg of None \<Rightarrow> True | Some prev \<Rightarrow> \<exists>x. previewed en prev = Inr x))"

lemma ask_gated:
  assumes "ask gate llm opn run q a = (x, a')" "\<And>s. s \<in> set (nl_log a) \<Longrightarrow> \<exists>q. gate q = Inr s"
  shows "s \<in> set (nl_log a') \<Longrightarrow> \<exists>q. gate q = Inr s" "x = Inr (g, cr) \<Longrightarrow> \<exists>q. gate (gq_sql g) = Inr q"
proof -
  show "s \<in> set (nl_log a') \<Longrightarrow> \<exists>q. gate q = Inr s"
    using assms by (auto simp: ask_def get_connection_def Let_def split: sum.splits if_splits)
  show "x = Inr (g, cr) \<Longrightarrow> \<exists>q. gate (gq_sql g) = Inr q"
    using assms(1) by (auto simp: ask_def get_connection_def Let_def split: sum.splits if_splits)
qed

lemma ask_page_inv:
  assumes "page_inv en pg"
  shows "page_inv en (snd (ask_page en bc question pg))"
proof (cases "strip question = []")
  case False
  obtain x a where a: "ask (en_gate en) (bc_llm bc) (bc_open bc) (bc_run bc) (strip question) (pg_agent pg) = (x, a)"
    by (cases "ask (en_gate en) (bc_llm bc) (bc_open bc) (bc_run bc) (strip question) (pg_agent pg)")
  note g = ask_gated [OF a]
  have l: "\<And>s. s \<in> set (nl_log (pg_agent pg)) \<Longrightarrow> \<exists>q. en_gate en q = Inr s" using assms by (simp add: page_inv_def)
  show ?thesis
  proof (cases x)
    case (Inl e)
    then show ?thesis using assms g(1) [OF l] a False by (simp add: ask_page_def page_inv_def)
  next
    case (Inr r)
    then obtain gq cols rows where "x = Inr (gq, cols, rows)" by (cases r) auto
    then show ?thesis using g [OF l] a False by (auto simp: ask_page_def page_inv_def)
  qed
qed (simp add: ask_page_def assms)

lemma previewed_again:
  assumes "make_schedule (en_zone en) p = Inr sc" "make_destination c ch to sub = Inr d"
  shows "\<exists>x. previewed en \<lparr>sp_schedule = planned_of sc, sp_dest = d, sp_title = t\<rparr> = Inr x"
proof -
  have "make_schedule (en_zone en) (planned_of sc) = Inr sc" using schedule_roundtrip [of "en_zone en" p sc] assms(1) by simp
  then show ?thesis by (simp add: previewed_def destination_rebuilt [OF assms(2)])
qed

lemma preview_page_inv:
  assumes "page_inv en pg"
  shows "page_inv en (snd (preview_page en p c target title pg))"
proof -
  have drop: "page_inv en (pg\<lparr>pg_preview := None\<rparr>)" using assms by (auto simp: page_inv_def split: option.splits)
  have keep: "page_inv en (pg\<lparr>pg_preview := Some \<lparr>sp_schedule = planned_of sc, sp_dest = d, sp_title = title\<rparr>\<rparr>)"
    if "pg_result pg = Some res" "make_schedule (en_zone en) p = Inr sc"
      "(if c = ''slack'' then make_destination ''slack'' (Some target) None None else make_destination ''email'' None (Some target) (Some title)) = Inr d"
    for res sc d
  proof -
    have "\<exists>x. previewed en \<lparr>sp_schedule = planned_of sc, sp_dest = d, sp_title = title\<rparr> = Inr x"
      using that(3) by (cases "c = ''slack''") (simp_all only: if_True if_False simp_thms, (rule previewed_again [OF that(2)], assumption)+)
    then show ?thesis using assms that(1) by (simp add: page_inv_def)
  qed
  show ?thesis
    unfolding preview_page_def using assms drop keep by (auto split: option.split sum.split prod.split)
qed

lemma runtime_page_inv: "page_inv en (pg\<lparr>pg_runtime := rt\<rparr>) = page_inv en pg"
  by (simp add: page_inv_def)

lemma deliver_page_inv: "page_inv en pg \<Longrightarrow> page_inv en (snd (deliver_page en c target title pg))"
  unfolding deliver_page_def on_store_def
  by (auto intro!: seq_inv [where I = "page_inv en"] simp: runtime_page_inv split: option.split)

lemma activate_page_inv: "page_inv en pg \<Longrightarrow> page_inv en (snd (activate_page en pg))"
  unfolding activate_page_def
  by (auto intro!: seq_inv [where I = "page_inv en"] simp: runtime_page_inv split: option.split prod.split sum.split)
    (auto simp: page_inv_def split: option.splits)

lemma session_inv: "page_inv en pg \<Longrightarrow> page_inv en (bi_session en clicks pg)"
  unfolding bi_session_def
proof (induction clicks arbitrary: pg)
  case (Cons c cs)
  have "page_inv en (bi_step en c pg)"
    using Cons.prems by (cases c) (simp_all add: ask_page_inv preview_page_inv deliver_page_inv activate_page_inv)
  then show ?case using Cons.IH by simp
qed simp

lemma jobs_only_by_activation:
  assumes "Activate \<notin> set clicks"
  shows "rt_jobs (pg_runtime (bi_session en clicks pg)) = rt_jobs (pg_runtime pg)"
  using assms unfolding bi_session_def
proof (induction clicks arbitrary: pg)
  case (Cons c cs)
  have "rt_jobs (pg_runtime (snd (deliver_page en k t ti pg))) = rt_jobs (pg_runtime pg)" for k t ti
    unfolding deliver_page_def
    by (auto intro!: seq_inv [where I = "\<lambda>p. rt_jobs (pg_runtime p) = rt_jobs (pg_runtime pg)"] simp: on_store_runtime split: option.split)
  then have "rt_jobs (pg_runtime (bi_step en c pg)) = rt_jobs (pg_runtime pg)"
    using Cons.prems by (cases c) (simp_all add: ask_page_runtime preview_page_runtime)
  then show ?case using Cons.IH [of "bi_step en c pg"] Cons.prems by simp
qed simp

lemma find_by_id: "distinct (map f xs) \<Longrightarrow> x \<in> set xs \<Longrightarrow> find (\<lambda>y. f y = f x) xs = Some x"
  by (induction xs) auto

section \<open>Properties\<close>

text \<open>Where the pages differ from the routes.  A workflow without a stored plan stops the page, where the event route passes
  over it; a plan without steps is run by the page, where the route passes over it; and a statement with a window is
  scheduled by the page without the two arguments that the route's plan passes to the report.\<close>

lemma page_stops_without_plan:
  "w_plan_json r = None \<Longrightarrow> snd (page_runs en payload (r # rs) acc st) = st \<and>
    event_runs en payload (r # rs) acc' st = event_runs en payload rs acc' st"
  by (simp add: stored_plan_def plan_of_def)

lemma page_runs_empty_plan:
  assumes "plan_of en r = Inr (Some pl)" "pl_steps pl = []" "w_state r = READY"
  shows "event_runs en payload [r] acc st = (Inr acc, st) \<and>
    (\<exists>x st2. execute (e_validate (en_sched en)) (en_reg en) (w_id r) pl (Some payload) None st = (x, st2) \<and>
      snd (page_runs en payload [r] acc' st) = st2)"
proof -
  have "stored_plan en r = Inr pl" using assms(1) by (auto simp: plan_of_def stored_plan_def split: option.splits if_splits sum.splits)
  then show ?thesis
    using assms by (cases "execute (e_validate (en_sched en)) (en_reg en) (w_id r) pl (Some payload) None st")
      (auto simp: seq_snd_skip)
qed

lemma page_drops_window:
  "ps_args (hd (pl_steps (build_report_plan title tid d False sc g))) = [(''report'', PStr tid)] \<and>
   ps_args (hd (pl_steps (build_report_plan title tid d True sc g))) =
     [(''report'', PStr tid), (''window_start'', PStr ''$trigger.window_start''), (''window_end'', PStr ''$trigger.window_end'')]"
  by (simp add: build_report_plan_def Let_def)

text \<open>C30: The two pages do to the store what the interface does, but for three cases.  Planning is the create route, always;
  delivering is the deliver route for the page's user, always; activating is the schedule route with the vetted query in
  place of a named report, unless the vetted statement has a window; and firing an event is the event route, unless a
  matched workflow has no plan or one without steps.  In the three cases left the pages do differ
  (\<open>page_drops_window\<close>, \<open>page_stops_without_plan\<close>, \<open>page_runs_empty_plan\<close>).\<close>

theorem pages_follow_routes:
  assumes "build_engine tenv senv llm pystr zone gate kwargs = Inr en" "store_inv st"
    and "make_destination c ch to sub = Inr d"
  shows "snd (plan_page en uid instruction st) =
      snd (route_create en \<lparr>cq_instruction = instruction, cq_user_id = Some uid\<rparr> st) \<and>
    snd (deliver_now en sql d title st) = snd (route_deliver en \<lparr>dq_title = title, dq_sql = sql,
      dq_destination = \<lparr>dm_connector = c, dm_channel = ch, dm_to = to, dm_subject = sub\<rparr>, dq_user_id = Some ''bi-user''\<rparr> st) \<and>
    (sql \<noteq> [] \<and> (\<forall>q. gate sql = Inr q \<longrightarrow> q \<noteq> [] \<and> \<not> contains q '':window_start'') \<and>
        kwargs sd = Inr (planned_of sc) \<and> make_schedule zone (planned_of sc) = Inr sc \<longrightarrow>
      snd (activate_schedule en sql sc d title rt) = snd (route_schedule en \<lparr>sq_title = title, sq_sql = sql, sq_schedule = sd,
        sq_destination = \<lparr>dm_connector = c, dm_channel = ch, dm_to = to, dm_subject = sub\<rparr>, sq_user_id = Some ''bi-user'', sq_report = None\<rparr> rt)) \<and>
    ((\<forall>r\<in>set (workflows_for_trigger ''payment.captured'' st). plan_of en r \<noteq> Inr None \<and>
        (\<forall>pl. plan_of en r = Inr (Some pl) \<longrightarrow> pl_steps pl \<noteq> [])) \<longrightarrow>
      snd (fire_page en uid st) = snd (route_event en ''payment.captured'' [(''user_id'', PStr uid)] st))"
proof -
  have en: "en = engine_of tenv senv llm pystr zone gate kwargs" using assms(1) by (simp add: build_engine_eq)
  then have f: "en_reg en = default_registry tenv" "en_gate en = gate" "en_kwargs en = kwargs" "en_zone en = zone" by (simp_all add: engine_of_def)
  let ?m = "workflows_for_trigger ''payment.captured'' st"
  have ids: "distinct (map w_id (workflows st))" using assms(2) by (simp add: store_inv_def)
  then have "distinct (map w_id ?m)" by (simp add: workflows_for_trigger_def distinct_map_filter)
  moreover have "state_of st (w_id r) = Some (w_state r) \<and> w_state r \<in> {READY, COMPLETED}" if "r \<in> set ?m" for r
    using that find_by_id [OF ids, of r] by (auto simp: workflows_for_trigger_def state_of_def get_workflow_def)
  ultimately have "snd (page_runs en [(''user_id'', PStr uid)] ?m [] st) = snd (event_runs en [(''user_id'', PStr uid)] ?m [] st)"
    if "\<forall>r\<in>set ?m. plan_of en r \<noteq> Inr None \<and> (\<forall>pl. plan_of en r = Inr (Some pl) \<longrightarrow> pl_steps pl \<noteq> [])"
    using that by (intro dr.page_runs_are_event_runs [OF f(1)]) blast+
  then have "snd (fire_page en uid st) = snd (route_event en ''payment.captured'' [(''user_id'', PStr uid)] st)"
    if "\<forall>r\<in>set ?m. plan_of en r \<noteq> Inr None \<and> (\<forall>pl. plan_of en r = Inr (Some pl) \<longrightarrow> pl_steps pl \<noteq> [])"
    using that by (simp add: fire_page_def route_event_def Let_def seq_snd_skip)
  then show ?thesis
    using plan_page_is_create [of en uid instruction st] deliver_now_is_route [OF assms(3), of en sql title st]
      activate_is_route [OF assms(3), where en = en and sd = sd and sc = sc and sql = sql and title = title and rt = rt] f
    by blast
qed

theorem pages_follow_routes_witness:
  "snd (fire_page demo_engine ''u'' waiting_store) = snd (route_event demo_engine ''payment.captured'' [(''user_id'', PStr ''u'')] waiting_store) \<and>
    snd (deliver_now demo_engine ''q'' \<lparr>d_connector = ''slack'', d_channel = Some ''#ops'', d_to = None, d_subject = None\<rparr> ''Daily'' waiting_store) =
    snd (route_deliver demo_engine \<lparr>dq_title = ''Daily'', dq_sql = ''q'',
      dq_destination = \<lparr>dm_connector = ''slack'', dm_channel = Some ''#ops'', dm_to = None, dm_subject = None\<rparr>, dq_user_id = Some ''bi-user''\<rparr> waiting_store)"
proof -
  let ?sc = "\<lparr>sc_frequency = Daily, sc_minute = 0, sc_hour = Some 22, sc_day_of_week = None, sc_timezone = ''America/New_York''\<rparr>"
  have p: "planned_of ?sc = nightly" by (simp add: planned_of_def nightly_def)
  have s: "make_schedule (\<lambda>_. True) (planned_of ?sc) = Inr ?sc" unfolding p by code_simp
  have d: "make_destination ''slack'' (Some ''#ops'') None None = Inr \<lparr>d_connector = ''slack'', d_channel = Some ''#ops'', d_to = None, d_subject = None\<rparr>"
    by code_simp
  have q: "q \<noteq> [] \<and> \<not> contains q '':window_start''" if "validate_sql one_query bi_validator ''q'' = Inr q" for q
  proof -
    have "\<not> contains ''Q LIMIT 200'' '':window_start''" by code_simp
    moreover have "q = ''Q LIMIT 200''" using that unfolding one_query_accepts by simp
    ultimately show ?thesis by (metis list.discI)
  qed
  have w: "\<forall>r\<in>set (workflows_for_trigger ''payment.captured'' waiting_store). plan_of demo_engine r \<noteq> Inr None \<and>
      (\<forall>pl. plan_of demo_engine r = Inr (Some pl) \<longrightarrow> pl_steps pl \<noteq> [])"
    by (simp add: workflows_for_trigger_def waiting_store_def create_workflow_def new_id_def now_iso_def empty_store_def fresh_row_def)
  show ?thesis
    using pages_follow_routes [OF demo_engine_built waiting_store_facts(1) d, where uid = "''u''" and title = "''Daily''" and sql = "''q''"] w
    by blast
qed

text \<open>C19: Nothing enters the warehouse through the BI page that the guard has not passed.  In a session
  that opens over a store of vetted queries, after any clicks with any answers of the model and the warehouse: every
  stored query and every statement the agent executed is vetted, the result on the page holds a query the guard accepts,
  a preview stands only beside a result and is a valid schedule with a valid destination, jobs appear by activation
  only, and a workflow that waits for approval waits on, with the runs it had.  Of the statements that a delivery makes
  the tools run: when the tools have the same guard, a warehouse that answers the vetted statements alike and any other
  statement as it likes gives the very same engine, so that nothing a delivery stores, sends or shows comes from a
  statement that is not vetted.  The runtime is the one after \<open>get_engine\<close> has built the engine and started its
  scheduler, which the page does on the first use of the engine.\<close>

theorem bi_session_safe:
  assumes "build_engine tenv senv llm pystr zone (validate_sql lib bi_validator) kwargs = Inr en"
    and "templates_gated (validate_sql lib bi_validator) (rt_store rt)" "pg = bi_session en clicks (opened_page rt)"
  shows "(\<forall>t\<in>set (templates (rt_store (pg_runtime pg))). vetted lib bi_validator (t_sql t)) \<and>
    (\<forall>s\<in>set (nl_log (pg_agent pg)). vetted lib bi_validator s) \<and>
    (\<forall>res. pg_result pg = Some res \<longrightarrow> (\<exists>q. validate_sql lib bi_validator (br_sql res) = Inr q)) \<and>
    (\<forall>prev. pg_preview pg = Some prev \<longrightarrow> pg_result pg \<noteq> None \<and> (\<exists>x. previewed en prev = Inr x)) \<and>
    (Activate \<notin> set clicks \<longrightarrow> rt_jobs (pg_runtime pg) = rt_jobs rt) \<and>
    (state_of (rt_store rt) wid = Some AWAITING_APPROVAL \<longrightarrow> state_of (rt_store (pg_runtime pg)) wid = Some AWAITING_APPROVAL \<and>
      launched wid (rt_store (pg_runtime pg)) = launched wid (rt_store rt)) \<and>
    (te_gate tenv = validate_sql lib bi_validator \<and> db_open db = db_open (te_db tenv) \<and>
        (\<forall>q. vetted lib bi_validator q \<longrightarrow> db_run db q = db_run (te_db tenv) q) \<longrightarrow>
      build_engine (tenv\<lparr>te_db := db\<rparr>) senv llm pystr zone (validate_sql lib bi_validator) kwargs = Inr en)"
proof -
  have en: "en = engine_of tenv senv llm pystr zone (validate_sql lib bi_validator) kwargs" using assms(1) by (simp add: build_engine_eq)
  then have g: "en_gate en = validate_sql lib bi_validator" by (simp add: engine_of_def)
  have o: "pg_runtime (opened_page rt) = rt" by (simp add: opened_page_def)
  have "page_inv en (opened_page rt)" by (simp add: page_inv_def opened_page_def)
  then have i: "page_inv en pg" unfolding assms(3) by (rule session_inv)
  have t: "templates_gated (validate_sql lib bi_validator) (rt_store (pg_runtime pg))"
    unfolding assms(3) en by (rule stored.session_keeps) (simp add: o assms(2))
  have "held wid (launched wid (rt_store rt)) (rt_store (pg_runtime pg))" if "state_of (rt_store rt) wid = Some AWAITING_APPROVAL"
    unfolding assms(3) en by (rule waiting.session_keeps) (simp add: o held_def that)
  moreover have "Activate \<notin> set clicks \<longrightarrow> rt_jobs (pg_runtime pg) = rt_jobs rt"
    unfolding assms(3) using jobs_only_by_activation [of clicks en "opened_page rt"] by (simp add: o)
  moreover have "build_engine (tenv\<lparr>te_db := db\<rparr>) senv llm pystr zone (validate_sql lib bi_validator) kwargs = Inr en"
    if "te_gate tenv = validate_sql lib bi_validator" "db_open db = db_open (te_db tenv)"
      "\<forall>q. vetted lib bi_validator q \<longrightarrow> db_run db q = db_run (te_db tenv) q"
    using default_registry_blind [OF that(1,2)] that(3) by (simp add: build_engine_eq en engine_of_def)
  ultimately show ?thesis
    using i t guard.gate_safe unfolding page_inv_def g templates_gated_def held_def by (auto split: option.splits) blast+
qed

theorem bi_session_safe_witness:
  "state_of (rt_store (pg_runtime (bi_session demo_engine
      [Ask_Question \<lparr>bc_llm = (\<lambda>_. Inr \<lparr>gq_sql = ''q'', gq_explanation = ''e'', gq_chart_hint = ''bar''\<rparr>), bc_open = Inr (),
         bc_run = (\<lambda>_. Inr ([''N''], [PList [PInt 1]]))\<rparr> ''how many'',
       Deliver ''slack'' ''#ops'' ''Daily'', Preview nightly ''slack'' ''#ops'' ''Daily'', Activate] (opened_page waiting_runtime)))) [] =
    Some AWAITING_APPROVAL"
proof -
  have t: "templates_gated (validate_sql one_query bi_validator) (rt_store waiting_runtime)"
    by (simp add: templates_gated_def waiting_runtime_def waiting_store_facts)
  have a: "state_of (rt_store waiting_runtime) [] = Some AWAITING_APPROVAL"
    by (simp add: waiting_runtime_def state_of_def waiting_store_facts fresh_row_def)
  show ?thesis using bi_session_safe [OF demo_engine_built t refl] a by blast
qed

end
