(* ===== verification/Validators.thy ===== *)
theory Validators
  imports Conditions
begin

text \<open>
  \<open>db/schema_contract.py\<close> (the tables, their required columns, the enumerations) and
  \<open>db/validators.py\<close> (the checks at the write boundary).  Values are Python values of any type; a
  refusal is a \<open>ValidationError\<close>.
\<close>

section \<open>Dictionaries\<close>

text \<open>\<open>d[k]\<close> and \<open>d.get(k, default)\<close>\<close>

definition item :: "pydict \<Rightarrow> string \<Rightarrow> pyexn + pyval" where
  "item d k = (case map_of d k of None \<Rightarrow> Inl (Exn KeyError k) | Some v \<Rightarrow> Inr v)"

definition dict_get :: "pydict \<Rightarrow> string \<Rightarrow> pyval \<Rightarrow> pyval" where
  "dict_get d k v = (case map_of d k of None \<Rightarrow> v | Some w \<Rightarrow> w)"

section \<open>The schema contract\<close>

definition tables :: "(string \<times> (string \<times> bool) list) list" where
  "tables =
    [(''FEATURES.FACT_FEATURE_SNAPSHOTS'',
       [(''SNAPSHOT_ID'', True), (''TRANSACTION_ID'', True), (''USER_ID'', True),
        (''USER_SURROGATE_KEY'', True), (''COMPUTED_AT'', True), (''VELOCITY_5MIN'', False),
        (''VELOCITY_15MIN'', False), (''VELOCITY_1HR'', False), (''VELOCITY_24HR'', False),
        (''TXN_AMOUNT'', False), (''USER_AVG_AMOUNT'', False), (''USER_STDDEV_AMOUNT'', False),
        (''AMOUNT_ZSCORE'', False), (''PREV_TRANSACTION_CITY'', False), (''PREV_TRANSACTION_TS'', False),
        (''GEO_DISTANCE_KM'', False), (''TIME_SINCE_LAST_TXN_MIN'', False), (''IS_NEW_DEVICE'', False),
        (''DEVICE_ID'', False), (''RISK_SCORE_RAW'', False), (''IS_FLAGGED_FOR_REVIEW'', False),
        (''IS_SYNTHETIC_FRAUD'', False), (''FRAUD_PATTERN'', False)]),
     (''DECISIONS.FACT_DECISIONS'',
       [(''DECISION_ID'', True), (''TRANSACTION_ID'', True), (''USER_ID'', True), (''SNAPSHOT_ID'', False),
        (''DECISION'', True), (''CONFIDENCE_SCORE'', False), (''REASONING_TEXT'', False),
        (''IDENTIFIED_PATTERN'', False), (''GOVERNANCE_TIER'', False), (''DECIDED_AT'', True),
        (''PROCESSING_LATENCY_MS'', False), (''HUMAN_REVIEWED'', False), (''HUMAN_REVIEWER_ID'', False),
        (''HUMAN_OUTCOME'', False), (''HUMAN_REVIEWED_AT'', False), (''HUMAN_NOTES'', False),
        (''EVAL_CORRECT'', False), (''EVAL_SCORED_AT'', False), (''LLM_JUDGE_SCORE'', False),
        (''LLM_JUDGE_NOTES'', False)]),
     (''DECISIONS.FACT_AGENT_TRACES'',
       [(''TRACE_ID'', True), (''DECISION_ID'', True), (''STEP_NUMBER'', True), (''AGENT_NAME'', False),
        (''STEP_TYPE'', False), (''TOOL_NAME'', False), (''TOOL_INPUT'', False), (''TOOL_OUTPUT'', False),
        (''REASONING_TEXT'', False), (''TOKENS_USED'', False), (''LATENCY_MS'', False), (''CREATED_AT'', False)]),
     (''DIM.DIM_USERS'',
       [(''SURROGATE_KEY'', True), (''USER_ID'', True), (''FULL_NAME'', False), (''AGE'', False),
        (''HOME_CITY'', False), (''HOME_COUNTRY'', False), (''HOME_LATITUDE'', False),
        (''HOME_LONGITUDE'', False), (''AVG_TRANSACTION_AMT'', False), (''STDDEV_TRANSACTION_AMT'', False),
        (''AVG_DAILY_TXN_COUNT'', False), (''ACCOUNT_CREATED_AT'', False), (''RISK_TIER'', False),
        (''IS_ACTIVE'', False), (''VALID_FROM'', True), (''VALID_TO'', False), (''IS_CURRENT'', False),
        (''UPDATED_AT'', False)]),
     (''DIM.DIM_DEVICES'',
       [(''DEVICE_ID'', True), (''USER_ID'', True), (''DEVICE_TYPE'', False), (''DEVICE_OS'', False),
        (''FIRST_SEEN_AT'', False), (''IS_TRUSTED'', False), (''REGISTERED_AT'', False)])]"

definition enums :: "(string \<times> string list) list" where
  "enums =
    [(''DECISION'', [''ALLOW'', ''BLOCK'', ''ESCALATE'']),
     (''GOVERNANCE_TIER'', [''AUTO_APPROVE'', ''SUGGEST'', ''NOTIFY_ONLY'']),
     (''HUMAN_OUTCOME'', [''CONFIRMED'', ''OVERRIDDEN'', ''ESCALATED'']),
     (''RISK_TIER'', [''LOW'', ''MEDIUM'', ''HIGH'']),
     (''FRAUD_PATTERN'', [''VELOCITY_SPIKE'', ''GEO_JUMP'', ''NEW_DEVICE'', ''AMOUNT_ANOMALY''])]"

definition columns :: "string \<Rightarrow> pyexn + string list" where
  "columns table = (case map_of tables table of None \<Rightarrow> Inl (Exn KeyError table) | Some cs \<Rightarrow> Inr (map fst cs))"

definition required_columns :: "string \<Rightarrow> pyexn + string list" where
  "required_columns table =
    (case map_of tables table of None \<Rightarrow> Inl (Exn KeyError table) | Some cs \<Rightarrow> Inr (map fst (filter snd cs)))"

definition is_known_table :: "string \<Rightarrow> bool" where
  "is_known_table table = (upper table \<in> fst ` set tables)"

section \<open>Scalars\<close>

definition refuse :: "string \<Rightarrow> pyexn + 'a" where
  "refuse msg = Inl (Exn ValidationError msg)"

text \<open>\<open>isinstance(value, (int, float)) and not isinstance(value, bool)\<close>, with its value.\<close>

fun number :: "pyval \<Rightarrow> pyfloat option" where
  "number (PInt i) = Some (Fin (of_int i))"
| "number (PFloat f) = Some f"
| "number _ = None"

fun finite_float :: "pyfloat \<Rightarrow> bool" where
  "finite_float (Fin _) = True"
| "finite_float _ = False"

text \<open>\<open>math.isnan\<close> converts an int, which fails beyond the largest double.\<close>

definition huge_int :: "pyval \<Rightarrow> bool" where
  "huge_int v = (case v of PInt i \<Rightarrow> max_double_bound \<le> \<bar>of_int i\<bar> | _ \<Rightarrow> False)"

definition overflow :: "pyexn + 'a" where
  "overflow = Inl (Exn (OtherExn ''OverflowError'') ''int too large to convert to float'')"

definition validate_probability :: "pyval \<Rightarrow> string \<Rightarrow> bool \<Rightarrow> pyexn + pyval" where
  "validate_probability v field allow_none =
    (if v = PNone
     then (if allow_none then Inr v else refuse (field @ '' is required and must be between 0.0 and 1.0.''))
     else (case number v of
        None \<Rightarrow> refuse (field @ '' must be a number'')
      | Some x \<Rightarrow>
         if huge_int v then overflow
         else if \<not> finite_float x then refuse (field @ '' must be a finite number'')
         else if \<not> (fl_le (Fin 0) x \<and> fl_le x (Fin 1)) then refuse (field @ '' must be between 0.0 and 1.0'')
         else Inr v))"

definition validate_risk_score :: "pyval \<Rightarrow> string \<Rightarrow> pyexn + pyval" where
  "validate_risk_score v field = validate_probability v field False"

definition validate_amount :: "pyval \<Rightarrow> string \<Rightarrow> pyexn + pyval" where
  "validate_amount v field =
    (if v = PNone then refuse (field @ '' is required.'')
     else (case number v of
        None \<Rightarrow> refuse (field @ '' must be a number'')
      | Some x \<Rightarrow>
         if huge_int v then overflow
         else if \<not> finite_float x then refuse (field @ '' must be finite'')
         else if fl_lt x (Fin 0) then refuse (field @ '' must be non-negative'')
         else Inr v))"

text \<open>\<open>value in allowed\<close> for a set of strings: hashing a list or a dictionary fails.\<close>

fun hashable :: "pyval \<Rightarrow> bool" where
  "hashable (PList _) = False"
| "hashable (PDict _) = False"
| "hashable _ = True"

definition validate_enum :: "pyval \<Rightarrow> string \<Rightarrow> string \<Rightarrow> bool \<Rightarrow> pyexn + pyval" where
  "validate_enum v enum_name field allow_none =
    (case map_of enums enum_name of
       None \<Rightarrow> Inl (Exn KeyError enum_name)
     | Some allowed \<Rightarrow>
        if v = PNone
        then (if allow_none then Inr v
              else refuse (field @ '' is required; must be one of '' @ join '', '' (sort allowed)))
        else if \<not> hashable v then Inl (Exn TypeError ''unhashable type'')
        else if v \<notin> PStr ` set allowed
        then refuse (field @ '' must be one of '' @ join '', '' (sort allowed))
        else Inr v)"

definition validate_review_outcome :: "pyval \<Rightarrow> pyexn + pyval" where
  "validate_review_outcome v = validate_enum v ''HUMAN_OUTCOME'' ''human_outcome'' False"

definition validate_identified_pattern :: "pyval \<Rightarrow> string \<Rightarrow> pyexn + pyval" where
  "validate_identified_pattern v field =
    (if v = PNone \<or> v = PStr ''NONE'' then Inr v
     else validate_enum v ''FRAUD_PATTERN'' field False)"

section \<open>A whole decision\<close>

definition validate_decision_record :: "pyval \<Rightarrow> pyval \<Rightarrow> pyval \<Rightarrow> pyval \<Rightarrow> pyexn + unit" where
  "validate_decision_record decision confidence_score pattern tier =
    and_then (validate_enum decision ''DECISION'' ''decision'' False) (\<lambda>_.
    and_then (validate_identified_pattern pattern ''identified_pattern'') (\<lambda>_.
    and_then (if tier = PNone then Inr PNone else validate_enum tier ''GOVERNANCE_TIER'' ''governance_tier'' False) (\<lambda>_.
      let autonomous = decision \<in> {PStr ''ALLOW'', PStr ''BLOCK''}
      in and_then (validate_probability confidence_score ''confidence_score'' (\<not> autonomous)) (\<lambda>_.
           if autonomous \<and> confidence_score = PNone
           then refuse ''an autonomous decision requires a confidence_score (only ESCALATE may omit it).''
           else Inr ()))))"

section \<open>What is accepted\<close>

definition unit_interval :: "pyval \<Rightarrow> bool" where
  "unit_interval v = (\<exists>x. number v = Some (Fin x) \<and> 0 \<le> x \<and> x \<le> 1)"

lemma max_double_bound_gt1: "1 < max_double_bound"
proof -
  have "(2 :: real) ^ 970 * 1 < 2 ^ 970 * (2 ^ 54 - 1)" by (intro mult_strict_left_mono) simp_all
  also have "\<dots> = 2 ^ 1024 - 2 ^ 970" by (simp add: right_diff_distrib flip: power_add)
  finally have "(2 :: real) ^ 970 < max_double_bound" by (simp add: max_double_bound_def)
  moreover have "(1 :: real) < 2 ^ 970" by simp
  ultimately show ?thesis by linarith
qed

lemma validate_probability_ok:
  "validate_probability v f n = Inr w \<longleftrightarrow> w = v \<and> (v = PNone \<and> n \<or> unit_interval v)"
proof (cases v)
  case (PInt i)
  have "0 \<le> i \<Longrightarrow> i \<le> 1 \<Longrightarrow> \<not> max_double_bound \<le> \<bar>real_of_int i\<bar>"
    using max_double_bound_gt1 by linarith
  then show ?thesis using PInt by (auto simp: validate_probability_def unit_interval_def refuse_def huge_int_def overflow_def)
next
  case (PFloat f)
  then show ?thesis
    by (cases f) (auto simp: validate_probability_def unit_interval_def refuse_def huge_int_def)
qed (auto simp: validate_probability_def unit_interval_def refuse_def)

lemma validate_enum_ok:
  "map_of enums e = Some allowed \<Longrightarrow>
    validate_enum v e f n = Inr w \<longleftrightarrow> w = v \<and> (v = PNone \<and> n \<or> v \<in> PStr ` set allowed)"
  by (auto simp: validate_enum_def refuse_def)

lemma enum_values:
  "map_of enums ''DECISION'' = Some [''ALLOW'', ''BLOCK'', ''ESCALATE'']"
  "map_of enums ''GOVERNANCE_TIER'' = Some [''AUTO_APPROVE'', ''SUGGEST'', ''NOTIFY_ONLY'']"
  "map_of enums ''HUMAN_OUTCOME'' = Some [''CONFIRMED'', ''OVERRIDDEN'', ''ESCALATED'']"
  "map_of enums ''FRAUD_PATTERN'' = Some [''VELOCITY_SPIKE'', ''GEO_JUMP'', ''NEW_DEVICE'', ''AMOUNT_ANOMALY'']"
  by (simp_all add: enums_def)

lemmas enum_ok = validate_enum_ok [OF enum_values(1)] validate_enum_ok [OF enum_values(2)]
  validate_enum_ok [OF enum_values(3)] validate_enum_ok [OF enum_values(4)]

lemma review_outcome_ok:
  "validate_review_outcome v = Inr w \<longleftrightarrow> w = v \<and> v \<in> PStr ` {''CONFIRMED'', ''OVERRIDDEN'', ''ESCALATED''}"
  by (simp add: validate_review_outcome_def enum_ok)

lemma decision_record_accepts:
  "validate_decision_record decision confidence pattern tier = Inr () \<longleftrightarrow>
    decision \<in> PStr ` {''ALLOW'', ''BLOCK'', ''ESCALATE''} \<and>
    pattern \<in> {PNone, PStr ''NONE''} \<union> PStr ` {''VELOCITY_SPIKE'', ''GEO_JUMP'', ''NEW_DEVICE'', ''AMOUNT_ANOMALY''} \<and>
    tier \<in> {PNone} \<union> PStr ` {''AUTO_APPROVE'', ''SUGGEST'', ''NOTIFY_ONLY''} \<and>
    (unit_interval confidence \<or> confidence = PNone \<and> decision = PStr ''ESCALATE'')"
proof -
  have u: "\<not> unit_interval PNone" by (simp add: unit_interval_def)
  show ?thesis
    using u unfolding validate_decision_record_def Let_def validate_identified_pattern_def
    by (cases "pattern = PNone \<or> pattern = PStr ''NONE''"; cases "tier = PNone")
      (auto simp: enum_ok validate_probability_ok refuse_def)
qed

section \<open>Properties\<close>

text \<open>The write boundary accepts exactly the well-formed decisions: one of the three decisions; no
  pattern, NONE or one of the four labels; no tier or one of the three; and a confidence that is a
  finite number between 0 and 1, which only an ESCALATE may leave out.\<close>

theorem decision_record_iff:
  "validate_decision_record decision confidence pattern tier = Inr () \<longleftrightarrow>
    decision \<in> PStr ` {''ALLOW'', ''BLOCK'', ''ESCALATE''} \<and>
    pattern \<in> {PNone, PStr ''NONE''} \<union> PStr ` {''VELOCITY_SPIKE'', ''GEO_JUMP'', ''NEW_DEVICE'', ''AMOUNT_ANOMALY''} \<and>
    tier \<in> {PNone} \<union> PStr ` {''AUTO_APPROVE'', ''SUGGEST'', ''NOTIFY_ONLY''} \<and>
    (unit_interval confidence \<or> confidence = PNone \<and> decision = PStr ''ESCALATE'')"
  by (rule decision_record_accepts)

end
