(* ===== verification/Governance.thy ===== *)
theory Governance
  imports Validators Report Workflow_State
begin

text \<open>
  \<open>governance/policy_framework.py\<close> (the tier of a decision) and \<open>governance/hitl_handler.py\<close> (the
  decision table and the human review over it).

  The decision table is a list of rows in insertion order.  The connection is two parameters of each
  write: whether it opens, and whether the statement and its commit go through; a statement that
  fails is rolled back.  The update of a review touches every row its WHERE clause matches and its
  row count is what the code reads.
\<close>

section \<open>Tiers\<close>

datatype tier = SUGGEST | NOTIFY_ONLY | AUTO_APPROVE

fun tier_text :: "tier \<Rightarrow> string" where
  "tier_text AUTO_APPROVE = ''AUTO_APPROVE''"
| "tier_text NOTIFY_ONLY = ''NOTIFY_ONLY''"
| "tier_text SUGGEST = ''SUGGEST''"

text \<open>Tiers by autonomy: a suggestion is held, a silent approval is not even surfaced.\<close>

fun autonomy :: "tier \<Rightarrow> nat" where
  "autonomy SUGGEST = 0"
| "autonomy NOTIFY_ONLY = 1"
| "autonomy AUTO_APPROVE = 2"

lemma autonomy_inj: "autonomy a = autonomy b \<Longrightarrow> a = b"
  by (cases a; cases b) auto

instantiation tier :: linorder
begin

definition less_eq_tier :: "tier \<Rightarrow> tier \<Rightarrow> bool" where
  "less_eq_tier a b = (autonomy a \<le> autonomy b)"

definition less_tier :: "tier \<Rightarrow> tier \<Rightarrow> bool" where
  "less_tier a b = (autonomy a < autonomy b)"

instance
  by standard (auto simp: less_eq_tier_def less_tier_def intro: autonomy_inj)

end

record framework =
  g_floor :: real
  g_cap :: real

definition default_framework :: framework where
  "default_framework = \<lparr>g_floor = 3 / 4, g_cap = 500\<rparr>"

text \<open>\<open>f"{x:.0f}"\<close>\<close>

definition fixed0 :: "real \<Rightarrow> string" where
  "fixed0 x = (if x < 0 then ''-'' else []) @ str_int (round_half_even \<bar>x\<bar>)"

text \<open>\<open>show\<close> is Python's \<open>str\<close> of a float or None.\<close>

definition assign_tier :: "framework \<Rightarrow> (pyfloat option \<Rightarrow> string) \<Rightarrow> string \<Rightarrow> pyfloat option \<Rightarrow> pyfloat
    \<Rightarrow> tier \<times> string" where
  "assign_tier g shw decision confidence amount =
    (if decision = ''ESCALATE''
     then (SUGGEST, ''Agent escalated -- its decision is a suggestion for the human review queue by definition.'')
     else if confidence = None \<or> fl_lt (the confidence) (Fin (g_floor g))
     then (SUGGEST, ''Confidence '' @ shw confidence @ '' below the '' @ shw (Some (Fin (g_floor g))) @
       '' autonomy floor -- held for human review.'')
     else if decision = ''BLOCK''
     then (NOTIFY_ONLY, ''Confident block -- executes autonomously (false blocks are recoverable) but is surfaced, since it impacts a customer.'')
     else if fl_le amount (Fin (g_cap g))
     then (AUTO_APPROVE, ''Confident allow at $'' @ show_float2 False amount @ '' (<= $'' @ fixed0 (g_cap g) @
       '' cap) -- routine, executes silently.'')
     else (NOTIFY_ONLY, ''Confident allow but $'' @ show_float2 False amount @ '' exceeds the $'' @
       fixed0 (g_cap g) @ '' silent-automation cap -- executes, surfaced for visibility.''))"

definition tier_of :: "framework \<Rightarrow> string \<Rightarrow> pyfloat option \<Rightarrow> pyfloat \<Rightarrow> tier" where
  "tier_of g decision confidence amount = fst (assign_tier g (\<lambda>_. []) decision confidence amount)"

lemma tier_of_eq: "fst (assign_tier g shw d c a) = tier_of g d c a"
  by (simp add: tier_of_def assign_tier_def)

lemma tier_of_unfold:
  "tier_of g d c a =
    (if d = ''ESCALATE'' \<or> c = None \<or> fl_lt (the c) (Fin (g_floor g)) then SUGGEST
     else if d = ''BLOCK'' \<or> \<not> fl_le a (Fin (g_cap g)) then NOTIFY_ONLY else AUTO_APPROVE)"
  by (auto simp: tier_of_def assign_tier_def)

section \<open>The decision table\<close>

record decision_row =
  d_id :: string
  d_transaction_id :: pyval
  d_user_id :: pyval
  d_snapshot_id :: pyval
  d_decision :: pyval
  d_confidence :: pyval
  d_reasoning :: pyval
  d_pattern :: pyval
  d_tier :: pyval
  d_decided_at :: int
  d_latency :: int
  d_reviewed :: bool
  d_reviewer :: "string option"
  d_outcome :: "pyval option"
  d_reviewed_at :: "int option"
  d_notes :: "string option"

record hitl =
  h_rows :: "decision_row list"
  h_uuid :: "nat \<Rightarrow> string"
  h_next :: nat
  h_clock :: "nat \<Rightarrow> int"
  h_tick :: nat

text \<open>The row of the INSERT: its parameters are read inside the try block.\<close>

definition insert_row :: "pydict \<Rightarrow> pyval \<Rightarrow> int \<Rightarrow> pyval \<Rightarrow> string \<Rightarrow> int \<Rightarrow> pyexn + decision_row" where
  "insert_row fs tier latency snapshot_id did now =
    and_then (item fs ''transaction_id'') (\<lambda>tid.
    and_then (item fs ''user_id'') (\<lambda>uid.
    and_then (item fs ''decision'') (\<lambda>dec.
    and_then (item fs ''confidence_score'') (\<lambda>conf.
    and_then (item fs ''reasoning_text'') (\<lambda>reason.
    and_then (item fs ''identified_pattern'') (\<lambda>pat.
      Inr \<lparr>d_id = did, d_transaction_id = tid, d_user_id = uid, d_snapshot_id = snapshot_id,
           d_decision = dec, d_confidence = conf, d_reasoning = reason, d_pattern = pat, d_tier = tier,
           d_decided_at = now, d_latency = latency, d_reviewed = False, d_reviewer = None,
           d_outcome = None, d_reviewed_at = None, d_notes = None\<rparr>))))))"

definition persist_decision :: "(pyexn + unit) \<Rightarrow> (pyexn + unit) \<Rightarrow> pydict \<Rightarrow> pyval \<Rightarrow> int \<Rightarrow> pyval \<Rightarrow> hitl
    \<Rightarrow> (string, hitl) out" where
  "persist_decision conn exec fs tier latency snapshot_id h =
    (case and_then (item fs ''decision'') (\<lambda>dec.
          and_then (item fs ''confidence_score'') (\<lambda>conf.
          and_then (item fs ''identified_pattern'') (\<lambda>pat.
            validate_decision_record dec conf pat tier))) of
       Inl e \<Rightarrow> (Inl e, h)
     | Inr _ \<Rightarrow>
        (let did = h_uuid h (h_next h); h = h\<lparr>h_next := Suc (h_next h)\<rparr>
         in case conn of
              Inl e \<Rightarrow> (Inl e, h)
            | Inr _ \<Rightarrow>
               (case insert_row fs tier latency snapshot_id did (h_clock h (h_tick h)) of
                  Inl e \<Rightarrow> (Inl e, h)
                | Inr r \<Rightarrow>
                   (let h = h\<lparr>h_tick := Suc (h_tick h)\<rparr>
                    in case exec of
                         Inl e \<Rightarrow> (Inl e, h)
                       | Inr _ \<Rightarrow> (Inr did, h\<lparr>h_rows := h_rows h @ [r]\<rparr>)))))"

text \<open>The eight columns of the review queue.\<close>

definition queue_view :: "decision_row \<Rightarrow> pydict" where
  "queue_view r = [(''decision_id'', PStr (d_id r)), (''transaction_id'', d_transaction_id r),
     (''user_id'', d_user_id r), (''decision'', d_decision r), (''confidence_score'', d_confidence r),
     (''identified_pattern'', d_pattern r), (''reasoning_text'', d_reasoning r),
     (''decided_at'', PInt (d_decided_at r))]"

definition pending_rows :: "nat \<Rightarrow> hitl \<Rightarrow> decision_row list" where
  "pending_rows limit h =
    take limit (sort_key d_decided_at (filter (\<lambda>r. d_tier r = PStr (tier_text SUGGEST) \<and> \<not> d_reviewed r) (h_rows h)))"

definition pending_reviews :: "(pyexn + unit) \<Rightarrow> nat \<Rightarrow> hitl \<Rightarrow> pyexn + pydict list" where
  "pending_reviews conn limit h = and_then conn (\<lambda>_. Inr (map queue_view (pending_rows limit h)))"

definition matches :: "string \<Rightarrow> decision_row \<Rightarrow> bool" where
  "matches did r = (d_id r = did \<and> \<not> d_reviewed r)"

definition record_review :: "(pyexn + unit) \<Rightarrow> (pyexn + unit) \<Rightarrow> string \<Rightarrow> string \<Rightarrow> pyval \<Rightarrow> string \<Rightarrow> hitl
    \<Rightarrow> (unit, hitl) out" where
  "record_review conn exec did reviewer outcome notes h =
    (case validate_review_outcome outcome of
       Inl e \<Rightarrow> (Inl e, h)
     | Inr _ \<Rightarrow>
        (case conn of
           Inl e \<Rightarrow> (Inl e, h)
         | Inr _ \<Rightarrow>
            (let now = h_clock h (h_tick h); h = h\<lparr>h_tick := Suc (h_tick h)\<rparr>
             in case exec of
                  Inl e \<Rightarrow> (Inl e, h)
                | Inr _ \<Rightarrow>
                   if length (filter (matches did) (h_rows h)) = 0
                   then (Inl (Exn ReviewConflict (''Decision '' @ did @
                          '' could not be reviewed: it does not exist or has already been reviewed.'')), h)
                   else (Inr (), h\<lparr>h_rows := map (\<lambda>r. if matches did r
                          then r\<lparr>d_reviewed := True, d_reviewer := Some reviewer, d_outcome := Some outcome,
                                 d_reviewed_at := Some now, d_notes := Some notes\<rparr> else r) (h_rows h)\<rparr>))))"

section \<open>Reviewing is a guarded machine\<close>

datatype review_state = Pending | Reviewed

definition review_state :: "hitl \<Rightarrow> string \<Rightarrow> review_state option" where
  "review_state h did =
    (if \<exists>r\<in>set (h_rows h). matches did r then Some Pending
     else if \<exists>r\<in>set (h_rows h). d_id r = did then Some Reviewed else None)"

definition review_move :: "string \<Rightarrow> pyval \<Rightarrow> string \<Rightarrow> string \<Rightarrow> review_state \<Rightarrow> hitl \<Rightarrow> (unit, hitl) out" where
  "review_move reviewer outcome notes did s h =
    (if s = Reviewed then record_review (Inr ()) (Inr ()) did reviewer outcome notes h
     else (Inl (Exn ReviewConflict did), h))"

definition review_edge :: "pyval \<Rightarrow> review_state \<Rightarrow> review_state \<Rightarrow> bool" where
  "review_edge outcome s t = (s = Pending \<and> t = Reviewed \<and> is_ok (validate_review_outcome outcome))"

lemma record_review_ok:
  "fst (record_review conn exec did rv oc nt h) = Inr () \<longleftrightarrow>
    is_ok (validate_review_outcome oc) \<and> is_ok conn \<and> is_ok exec \<and> review_state h did = Some Pending"
  by (auto simp: record_review_def Let_def review_state_def filter_empty_conv is_ok_def split: sum.split)

lemma record_review_rows:
  "h_rows (snd (record_review conn exec did rv oc nt h)) =
    (if fst (record_review conn exec did rv oc nt h) = Inr ()
     then map (\<lambda>r. if matches did r then r\<lparr>d_reviewed := True, d_reviewer := Some rv, d_outcome := Some oc,
        d_reviewed_at := Some (h_clock h (h_tick h)), d_notes := Some nt\<rparr> else r) (h_rows h)
     else h_rows h)"
  by (simp add: record_review_def Let_def split: sum.split)

lemma review_state_rows: "h_rows h' = h_rows h \<Longrightarrow> review_state h' = review_state h"
  by (rule ext) (simp add: review_state_def)

lemma record_review_state:
  "review_state (snd (record_review conn exec did rv oc nt h)) =
    (if fst (record_review conn exec did rv oc nt h) = Inr ()
     then (review_state h)(did \<mapsto> Reviewed) else review_state h)"
proof (cases "fst (record_review conn exec did rv oc nt h) = Inr ()")
  case True
  then have p: "\<exists>r\<in>set (h_rows h). matches did r"
    by (auto simp: record_review_ok review_state_def split: if_splits)
  let ?f = "\<lambda>r. if matches did r then r\<lparr>d_reviewed := True, d_reviewer := Some rv, d_outcome := Some oc,
      d_reviewed_at := Some (h_clock h (h_tick h)), d_notes := Some nt\<rparr> else r"
  have f: "d_id (?f r) = d_id r" "matches k (?f r) \<longleftrightarrow> matches k r \<and> k \<noteq> did" for r k
    by (auto simp: matches_def)
  have rows: "h_rows (snd (record_review conn exec did rv oc nt h)) = map ?f (h_rows h)"
    using True record_review_rows [of conn exec did rv oc nt h] by simp
  have "review_state (snd (record_review conn exec did rv oc nt h)) k =
      (if k = did then Some Reviewed else review_state h k)" for k
    using p unfolding review_state_def rows set_map bex_simps(7) ball_simps(9) f
    by (auto simp: matches_def)
  then show ?thesis using True by auto
next
  case False
  then have "review_state (snd (record_review conn exec did rv oc nt h)) = review_state h"
    by (intro review_state_rows) (simp add: record_review_rows)
  then show ?thesis using False by simp
qed

interpretation rvm: guarded_machine "review_edge oc" review_state "review_move rv oc nt" for rv oc nt
proof
  fix did t h
  show "fst (review_move rv oc nt did t h) = Inr () \<longleftrightarrow> (\<exists>s. review_state h did = Some s \<and> review_edge oc s t)"
    by (auto simp: review_move_def record_review_ok review_edge_def)
  show "review_state (snd (review_move rv oc nt did t h)) =
      (if fst (review_move rv oc nt did t h) = Inr () then (review_state h)(did \<mapsto> t) else review_state h)"
    by (simp add: review_move_def record_review_state)
qed

section \<open>Verdicts are final\<close>

lemma distinct_single: "distinct xs \<Longrightarrow> set xs = {r} \<Longrightarrow> xs = [r]"
  by (cases xs; cases "tl xs") auto

lemma is_ok_unit: "is_ok (x :: pyexn + unit) \<longleftrightarrow> x = Inr ()"
  by (cases x) auto

text \<open>The operations on the decision table, with any inputs and any faults.\<close>

inductive hitl_step :: "hitl \<Rightarrow> hitl \<Rightarrow> bool" where
  hs_persist: "hitl_step h (snd (persist_decision conn exec fs tier latency sid h))"
| hs_review: "hitl_step h (snd (record_review conn exec did rv oc nt h))"

inductive_cases hitl_stepE: "hitl_step h h'"

text \<open>Decision identifiers are unique and come from the uuids drawn so far.\<close>

definition hitl_inv :: "hitl \<Rightarrow> bool" where
  "hitl_inv h = (inj (h_uuid h) \<and> distinct (map d_id (h_rows h)) \<and>
     d_id ` set (h_rows h) \<subseteq> h_uuid h ` {..<h_next h})"

lemma insert_row_Inr:
  "insert_row fs tier latency sid did now = Inr r \<Longrightarrow> d_id r = did \<and> \<not> d_reviewed r \<and> d_tier r = tier \<and>
    d_decided_at r = now \<and> Inr (d_decision r) = item fs ''decision'' \<and>
    Inr (d_confidence r) = item fs ''confidence_score'' \<and> Inr (d_pattern r) = item fs ''identified_pattern''"
  by (auto simp: insert_row_def)

text \<open>What a persist leaves: a failure keeps the rows, a success adds one validated row.\<close>

lemma persist_cases:
  obtains (failed) "h_rows (snd (persist_decision conn exec fs tier latency sid h)) = h_rows h"
      "\<not> is_ok (fst (persist_decision conn exec fs tier latency sid h))"
      "h_uuid (snd (persist_decision conn exec fs tier latency sid h)) = h_uuid h"
      "h_next h \<le> h_next (snd (persist_decision conn exec fs tier latency sid h))"
  | (stored) r where "persist_decision conn exec fs tier latency sid h = (Inr (h_uuid h (h_next h)),
        h\<lparr>h_next := Suc (h_next h), h_tick := Suc (h_tick h), h_rows := h_rows h @ [r]\<rparr>)"
      "insert_row fs tier latency sid (h_uuid h (h_next h)) (h_clock h (h_tick h)) = Inr r"
      "validate_decision_record (d_decision r) (d_confidence r) (d_pattern r) tier = Inr ()"
proof (cases "is_ok (fst (persist_decision conn exec fs tier latency sid h))")
  case False
  then show ?thesis
    by (intro failed) (auto simp: persist_decision_def Let_def split: sum.splits)
next
  case True
  then obtain r where r: "insert_row fs tier latency sid (h_uuid h (h_next h)) (h_clock h (h_tick h)) = Inr r"
    "conn = Inr ()" "exec = Inr ()"
    "and_then (item fs ''decision'') (\<lambda>dec. and_then (item fs ''confidence_score'') (\<lambda>conf.
       and_then (item fs ''identified_pattern'') (\<lambda>pat. validate_decision_record dec conf pat tier))) = Inr ()"
    by (auto simp: persist_decision_def Let_def split: sum.splits)
  have i: "item fs ''decision'' = Inr (d_decision r)" "item fs ''confidence_score'' = Inr (d_confidence r)"
    "item fs ''identified_pattern'' = Inr (d_pattern r)"
    using insert_row_Inr [OF r(1)] by auto
  show ?thesis
    by (rule stored [OF _ r(1)]) (use r i in \<open>simp_all add: persist_decision_def Let_def\<close>)
qed

lemma record_review_frame:
  "h_uuid (snd (record_review conn exec did rv oc nt h)) = h_uuid h"
  "h_next (snd (record_review conn exec did rv oc nt h)) = h_next h"
  "map d_id (h_rows (snd (record_review conn exec did rv oc nt h))) = map d_id (h_rows h)"
  by (simp_all add: record_review_def Let_def comp_def split: sum.split)

lemma hitl_inv_step: "hitl_step h h' \<Longrightarrow> hitl_inv h \<Longrightarrow> hitl_inv h'"
proof (induction rule: hitl_step.induct)
  case (hs_persist h conn exec fs tier latency sid)
  show ?case
  proof (cases rule: persist_cases [of conn exec fs tier latency sid h])
    case failed
    then show ?thesis using hs_persist unfolding hitl_inv_def by (fastforce simp: image_subset_iff)
  next
    case (stored r)
    have "h_uuid h (h_next h) \<notin> h_uuid h ` {..<h_next h}"
      using hs_persist by (auto simp: hitl_inv_def dest: injD)
    then show ?thesis using hs_persist insert_row_Inr [OF stored(2)]
      by (auto simp: stored(1) hitl_inv_def lessThan_Suc image_subset_iff)
  qed
next
  case (hs_review h conn exec did rv oc nt)
  have "d_id ` set (h_rows (snd (record_review conn exec did rv oc nt h))) = d_id ` set (h_rows h)"
    by (metis record_review_frame(3) set_map)
  then show ?case using hs_review unfolding hitl_inv_def record_review_frame by simp
qed

lemma hitl_inv_steps: "hitl_step\<^sup>*\<^sup>* h h' \<Longrightarrow> hitl_inv h \<Longrightarrow> hitl_inv h'"
  by (induction rule: rtranclp_induct) (auto intro: hitl_inv_step)

lemma reviewed_row_step:
  assumes "hitl_step h h'" "r \<in> set (h_rows h)" "d_reviewed r"
  shows "r \<in> set (h_rows h')"
  using assms
proof (induction rule: hitl_step.induct)
  case (hs_persist h conn exec fs tier latency sid)
  then show ?case
    by (cases rule: persist_cases [of conn exec fs tier latency sid h]) auto
next
  case (hs_review h conn exec did rv oc nt)
  have "\<not> matches did r" using hs_review(2) by (simp add: matches_def)
  then show ?case using hs_review(1) by (force simp: record_review_rows image_iff)
qed

lemma reviewed_row_steps: "hitl_step\<^sup>*\<^sup>* h h' \<Longrightarrow> r \<in> set (h_rows h) \<Longrightarrow> d_reviewed r \<Longrightarrow> r \<in> set (h_rows h')"
  by (induction rule: rtranclp_induct) (auto intro: reviewed_row_step)

lemma recorded_row:
  assumes "record_review conn exec did rv oc nt h = (Inr (), h1)"
  shows "\<exists>r\<in>set (h_rows h1). d_id r = did \<and> d_reviewed r \<and> d_outcome r = Some oc \<and> d_reviewer r = Some rv \<and>
    d_notes r = Some nt"
proof -
  have ok: "fst (record_review conn exec did rv oc nt h) = Inr ()" using assms by simp
  then obtain r where r: "r \<in> set (h_rows h)" "matches did r"
    by (auto simp: record_review_ok review_state_def split: if_splits)
  have rows: "h_rows h1 = map (\<lambda>r. if matches did r then r\<lparr>d_reviewed := True, d_reviewer := Some rv,
      d_outcome := Some oc, d_reviewed_at := Some (h_clock h (h_tick h)), d_notes := Some nt\<rparr> else r) (h_rows h)"
    using record_review_rows [of conn exec did rv oc nt h] assms by simp
  show ?thesis unfolding rows set_map using r by (intro bexI [OF _ imageI [OF r(1)]]) (simp add: matches_def)
qed

section \<open>Properties\<close>

text \<open>Autonomy is monotone: for one decision, less stated confidence or a larger amount never earns
  more autonomy, under every threshold; the order is suggestion, notification, silent approval.\<close>

theorem tier_monotone:
  assumes "c \<le> c'" "a' \<le> a"
  shows "fst (assign_tier g shw d (Some (Fin c)) (Fin a)) \<le> fst (assign_tier g shw d (Some (Fin c')) (Fin a'))"
  using assms by (auto simp: tier_of_eq tier_of_unfold less_eq_tier_def)

theorem tier_monotone_witness:
  "fst (assign_tier default_framework (\<lambda>_. []) ''ALLOW'' (Some (Fin (1 / 2))) (Fin 900)) \<le>
   fst (assign_tier default_framework (\<lambda>_. []) ''ALLOW'' (Some (Fin (4 / 5))) (Fin 20))"
  by (rule tier_monotone) simp_all

text \<open>C34: Silence is earned.  For a decision that passes validation with a numeric confidence, the tier
  is AUTO_APPROVE exactly for an ALLOW with a confidence of at least 0.75 and an amount of at most 500;
  an ESCALATE is always a suggestion, and so is anything below the floor.  A missing confidence is never
  confident: whatever the decision and the amount, valid or not, it is a suggestion.\<close>

theorem silent_only_when_safe:
  assumes "validate_decision_record (PStr d) (PFloat c) pat (PStr (tier_text (fst (assign_tier default_framework shw d (Some c) (Fin a))))) = Inr ()"
  shows "(fst (assign_tier default_framework shw d (Some c) (Fin a)) = AUTO_APPROVE \<longleftrightarrow>
      d = ''ALLOW'' \<and> (\<exists>x. c = Fin x \<and> 3 / 4 \<le> x \<and> x \<le> 1) \<and> a \<le> 500) \<and>
    (fst (assign_tier default_framework shw d (Some c) (Fin a)) = SUGGEST \<longleftrightarrow>
      d = ''ESCALATE'' \<or> (\<exists>x. c = Fin x \<and> x < 3 / 4)) \<and>
    fst (assign_tier default_framework shw d' None amount) = SUGGEST"
proof -
  from assms obtain x where x: "c = Fin x" "0 \<le> x" "x \<le> 1"
    by (auto simp: decision_record_iff unit_interval_def)
  have "d \<in> {''ALLOW'', ''BLOCK'', ''ESCALATE''}" using assms by (auto simp: decision_record_iff)
  then show ?thesis using x by (auto simp: tier_of_eq tier_of_unfold default_framework_def)
qed

theorem silent_only_when_safe_witness:
  "fst (assign_tier default_framework (\<lambda>_. []) ''ALLOW'' (Some (Fin (4 / 5))) (Fin 20)) = AUTO_APPROVE"
proof -
  have "validate_decision_record (PStr ''ALLOW'') (PFloat (Fin (4 / 5))) PNone
      (PStr (tier_text (fst (assign_tier default_framework (\<lambda>_. []) ''ALLOW'' (Some (Fin (4 / 5))) (Fin 20))))) = Inr ()"
    by (auto simp: decision_record_iff unit_interval_def tier_of_eq tier_of_unfold default_framework_def
        intro!: exI [of _ "4 / 5"])
  from silent_only_when_safe [OF this] show ?thesis by (auto intro!: exI [of _ "4 / 5"])
qed

text \<open>C39: The first verdict is final.  Once a review of a decision is recorded, its row keeps that
  outcome, reviewer and notes through every later sequence of writes and reviews with any inputs and
  any database faults, and no later review of it succeeds; when the database answers and the outcome
  is a valid one, it is refused with a ReviewConflict.\<close>

theorem verdict_final:
  assumes "hitl_inv h" "record_review conn exec did rv oc nt h = (Inr (), h1)" "hitl_step\<^sup>*\<^sup>* h1 h2"
  shows "(\<exists>r. [q \<leftarrow> h_rows h2. d_id q = did] = [r] \<and> d_reviewed r \<and> d_outcome r = Some oc \<and>
      d_reviewer r = Some rv \<and> d_notes r = Some nt) \<and>
    \<not> is_ok (fst (record_review conn' exec' did rv' oc' nt' h2)) \<and>
    (is_ok (validate_review_outcome oc') \<longrightarrow>
      (\<exists>t. fst (record_review (Inr ()) (Inr ()) did rv' oc' nt' h2) = Inl (Exn ReviewConflict t)))"
proof -
  obtain r where r: "r \<in> set (h_rows h1)" "d_id r = did" "d_reviewed r" "d_outcome r = Some oc"
    "d_reviewer r = Some rv" "d_notes r = Some nt"
    using recorded_row [OF assms(2)] by blast
  have r2: "r \<in> set (h_rows h2)" using reviewed_row_steps [OF assms(3) r(1,3)] .
  have "hitl_step h h1" using hs_review [of h conn exec did rv oc nt] assms(2) by simp
  then have "hitl_inv h2" using hitl_inv_step [OF _ assms(1)] hitl_inv_steps [OF assms(3)] by blast
  then have d: "distinct (map d_id (h_rows h2))" by (simp add: hitl_inv_def)
  then have u: "q = r" if "q \<in> set (h_rows h2)" "d_id q = did" for q
    using distinct_map_eqI [OF d that(1) r2] that(2) r(2) by simp
  have "set [q \<leftarrow> h_rows h2. d_id q = did] = {r}"
    unfolding set_filter using u r2 r(2) by blast
  moreover have "distinct [q \<leftarrow> h_rows h2. d_id q = did]" using d by (simp add: distinct_map)
  ultimately have one: "[q \<leftarrow> h_rows h2. d_id q = did] = [r]"
    by (rule distinct_single [rotated])
  have nm: "\<not> matches did q" if "q \<in> set (h_rows h2)" for q
    using u [OF that] r(3) unfolding matches_def by blast
  have no: "review_state h2 did \<noteq> Some Pending" using nm by (simp add: review_state_def)
  have ex: "filter (matches did) (h_rows h2) = []" using nm by (simp add: filter_empty_conv)
  have "\<not> is_ok (fst (record_review conn' exec' did rv' oc' nt' h2))"
    using no by (simp add: is_ok_unit record_review_ok)
  moreover have "\<exists>t. fst (record_review (Inr ()) (Inr ()) did rv' oc' nt' h2) = Inl (Exn ReviewConflict t)"
    if "is_ok (validate_review_outcome oc')"
    using that by (auto simp: is_ok_conv record_review_def Let_def ex)
  ultimately show ?thesis using one r by blast
qed

definition demo_decision :: pydict where
  "demo_decision = [(''transaction_id'', PStr ''t1''), (''user_id'', PStr ''u1''), (''decision'', PStr ''ESCALATE''),
     (''confidence_score'', PNone), (''reasoning_text'', PStr ''unclear''), (''identified_pattern'', PStr ''NONE'')]"

definition empty_hitl :: hitl where
  "empty_hitl = \<lparr>h_rows = [], h_uuid = (\<lambda>n. replicate n (CHR ''x'')), h_next = 0, h_clock = int, h_tick = 0\<rparr>"

lemma empty_hitl_inv: "hitl_inv empty_hitl"
proof -
  have "inj (\<lambda>n. replicate n (CHR ''x''))" by (rule injI) (metis length_replicate)
  then show ?thesis by (simp add: hitl_inv_def empty_hitl_def)
qed

lemma demo_persist:
  "\<exists>h1. persist_decision (Inr ()) (Inr ()) demo_decision (PStr ''SUGGEST'') 12 PNone empty_hitl = (Inr [], h1)"
proof -
  have "validate_decision_record (PStr ''ESCALATE'') PNone (PStr ''NONE'') (PStr ''SUGGEST'') = Inr ()"
    by (simp add: decision_record_iff)
  then show ?thesis
    by (simp add: persist_decision_def demo_decision_def item_def insert_row_def empty_hitl_def Let_def)
qed

theorem verdict_final_witness:
  "\<exists>h h1. record_review (Inr ()) (Inr ()) [] ''ann'' (PStr ''CONFIRMED'') ''ok'' h = (Inr (), h1) \<and>
    \<not> is_ok (fst (record_review (Inr ()) (Inr ()) [] ''bob'' (PStr ''OVERRIDDEN'') [] h1))"
proof -
  obtain h where h: "persist_decision (Inr ()) (Inr ()) demo_decision (PStr ''SUGGEST'') 12 PNone empty_hitl = (Inr [], h)"
    using demo_persist by blast
  have i: "hitl_inv h"
    using hitl_inv_step [OF hs_persist empty_hitl_inv, of "Inr ()" "Inr ()" demo_decision "PStr ''SUGGEST''" 12 PNone] h
    by simp
  have "review_state h [] = Some Pending"
    by (cases rule: persist_cases [of "Inr ()" "Inr ()" demo_decision "PStr ''SUGGEST''" 12 PNone empty_hitl])
      (use h in \<open>auto simp: review_state_def matches_def dest!: insert_row_Inr\<close>)
  then have "fst (record_review (Inr ()) (Inr ()) [] ''ann'' (PStr ''CONFIRMED'') ''ok'' h) = Inr ()"
    by (simp add: record_review_ok is_ok_conv review_outcome_ok)
  then obtain h1 where r: "record_review (Inr ()) (Inr ()) [] ''ann'' (PStr ''CONFIRMED'') ''ok'' h = (Inr (), h1)"
    by (metis prod.collapse)
  from verdict_final [OF i r rtranclp.rtrancl_refl] r show ?thesis by blast
qed

text \<open>A held decision is never lost.  After a decision of tier SUGGEST was stored, and after every
  further sequence of writes and reviews, its row is there: reviewed, or in the review queue when the
  queue is read without a cut.\<close>

theorem suggestion_stays_queued:
  assumes "persist_decision conn exec fs (PStr (tier_text SUGGEST)) latency sid h = (Inr did, h1)"
    and "hitl_step\<^sup>*\<^sup>* h1 h2" and "length (h_rows h2) \<le> limit"
  shows "\<exists>r. r \<in> set (h_rows h2) \<and> d_id r = did \<and>
    (if d_reviewed r then d_outcome r \<noteq> None else r \<in> set (pending_rows limit h2))"
proof -
  define good where "good r \<longleftrightarrow> d_id r = did \<and> d_tier r = PStr (tier_text SUGGEST) \<and> (d_reviewed r \<longrightarrow> d_outcome r \<noteq> None)"
    for r :: decision_row
  have step: "\<exists>r\<in>set (h_rows h'). good r" if "hitl_step g h'" "\<exists>r\<in>set (h_rows g). good r" for g h'
    using that
  proof (induction rule: hitl_step.induct)
    case (hs_persist h conn exec fs tier latency sid)
    then show ?case by (cases rule: persist_cases [of conn exec fs tier latency sid h]) auto
  next
    case (hs_review h conn exec k rv oc nt)
    then obtain r where r: "r \<in> set (h_rows h)" "good r" by blast
    let ?f = "\<lambda>r. if matches k r then r\<lparr>d_reviewed := True, d_reviewer := Some rv, d_outcome := Some oc,
        d_reviewed_at := Some (h_clock h (h_tick h)), d_notes := Some nt\<rparr> else r"
    have f: "good (?f r)" using r(2) by (simp add: good_def)
    show ?case
    proof (cases "fst (record_review conn exec k rv oc nt h) = Inr ()")
      case True
      then have "h_rows (snd (record_review conn exec k rv oc nt h)) = map ?f (h_rows h)"
        using record_review_rows [of conn exec k rv oc nt h] by simp
      then have "?f r \<in> set (h_rows (snd (record_review conn exec k rv oc nt h)))"
        using imageI [OF r(1), of ?f] by (simp only: set_map)
      with f show ?thesis by (rule bexI)
    next
      case False
      then show ?thesis using r by (intro bexI [of _ r]) (simp_all add: record_review_rows)
    qed
  qed
  have "\<exists>r\<in>set (h_rows h1). good r"
    by (cases rule: persist_cases [of conn exec fs "PStr (tier_text SUGGEST)" latency sid h])
      (use assms(1) in \<open>auto simp: good_def dest!: insert_row_Inr\<close>)
  then have "\<exists>r\<in>set (h_rows h2). good r"
    using assms(2) by (induction rule: rtranclp_induct [consumes 1, case_names base step, OF assms(2)]) (auto intro: step)
  then obtain r where r: "r \<in> set (h_rows h2)" "good r" by blast
  have "length (filter P (h_rows h2)) \<le> limit" for P
    using length_filter_le [of P "h_rows h2"] assms(3) by linarith
  then have "r \<in> set (pending_rows limit h2)" if "\<not> d_reviewed r"
    using r that by (simp add: pending_rows_def good_def)
  then show ?thesis using r by (auto simp: good_def)
qed

theorem suggestion_stays_queued_witness:
  "\<exists>h1 r. persist_decision (Inr ()) (Inr ()) demo_decision (PStr ''SUGGEST'') 12 PNone empty_hitl = (Inr [], h1) \<and>
    r \<in> set (h_rows h1) \<and> d_id r = []"
proof -
  obtain h1 where h: "persist_decision (Inr ()) (Inr ()) demo_decision (PStr (tier_text SUGGEST)) 12 PNone empty_hitl = (Inr [], h1)"
    using demo_persist by auto
  from suggestion_stays_queued [OF h rtranclp.rtrancl_refl order_refl] h show ?thesis by auto
qed

end
