(* ===== verification/Db_Tools.thy ===== *)
theory Db_Tools
  imports Validators
begin

text \<open>
  \<open>db/migrate.py\<close> (discovery and application of the versioned migrations) and \<open>db/replay.py\<close> (the
  staging to fact MERGE).

  The migration directory is the list of its file names, the files a function of the name.  The
  database of a migration run is its tracking table and the log of the scripts it executed; a script
  or the tracking insert may fail.  The MERGE is given twice: as the statement text the code builds
  from the contract, and as what that statement does to a list of rows.
\<close>

section \<open>Migrations\<close>

text \<open>\<open>^V(\d+)__([A-Za-z0-9_]+)\.sql$\<close>, the version\<close>

definition match_MIGRATION_RE :: "string \<Rightarrow> nat option" where
  "match_MIGRATION_RE name =
    (case name of
       [] \<Rightarrow> None
     | c # cs \<Rightarrow>
        if c \<noteq> CHR ''V'' then None
        else (let ds = takeWhile is_digit cs; rest = dropWhile is_digit cs
              in if ds = [] \<or> \<not> prefix ''__'' rest then None
                 else (let w = takeWhile is_word (drop 2 rest); ext = dropWhile is_word (drop 2 rest)
                       in if w \<noteq> [] \<and> (ext = ''.sql'' \<or> ext = ''.sql'' @ [CHR 0x0A])
                          then Some (nat_of_digits ds) else None)))"

type_synonym migration = "nat \<times> string"

fun collect :: "string list \<Rightarrow> migration list \<Rightarrow> pyexn + migration list" where
  "collect [] found = Inr found"
| "collect (name # names) found =
    (case match_MIGRATION_RE name of
       None \<Rightarrow> collect names found
     | Some v \<Rightarrow>
        if v \<in> fst ` set found
        then Inl (Exn ValueError (''Duplicate migration version '' @ pad 3 v @ '' ('' @ name @ '')''))
        else collect names (found @ [(v, name)]))"

definition discover_migrations :: "string list \<Rightarrow> pyexn + migration list" where
  "discover_migrations listing = and_then (collect (sort listing) []) (\<lambda>found. Inr (sort_key fst found))"

definition pending :: "migration list \<Rightarrow> nat list \<Rightarrow> migration list" where
  "pending all_m applied = filter (\<lambda>m. fst m \<notin> set applied) all_m"

record mig_db =
  md_applied :: "(nat \<times> string) list"
  md_log :: "string list"

definition applied_versions :: "mig_db \<Rightarrow> nat list" where
  "applied_versions db = map fst (md_applied db)"

text \<open>The loop of \<open>apply_all\<close>: \<open>read\<close> the file, execute it, record it; \<open>run\<close> and \<open>track\<close> say whether the
  script and the insert go through.  A dry run executes nothing.\<close>

fun apply_loop :: "(string \<Rightarrow> pyexn + string) \<Rightarrow> (string \<Rightarrow> pyexn + unit) \<Rightarrow> (nat \<Rightarrow> pyexn + unit) \<Rightarrow> bool
    \<Rightarrow> migration list \<Rightarrow> nat list \<Rightarrow> mig_db \<Rightarrow> (nat list, mig_db) out" where
  "apply_loop read run track dry [] now db = (Inr now, db)"
| "apply_loop read run track dry ((v, name) # ms) now db =
    (case read name of
       Inl e \<Rightarrow> (Inl e, db)
     | Inr sql \<Rightarrow>
        if dry then apply_loop read run track dry ms now db
        else (let db = db\<lparr>md_log := md_log db @ [sql]\<rparr>
              in case run sql of
                   Inl e \<Rightarrow> (Inl e, db)
                 | Inr _ \<Rightarrow>
                    (case track v of
                       Inl e \<Rightarrow> (Inl e, db)
                     | Inr _ \<Rightarrow> apply_loop read run track dry ms (now @ [v])
                         (db\<lparr>md_applied := md_applied db @ [(v, name)]\<rparr>))))"

definition apply_all :: "(string \<Rightarrow> pyexn + string) \<Rightarrow> (string \<Rightarrow> pyexn + unit) \<Rightarrow> (nat \<Rightarrow> pyexn + unit) \<Rightarrow> bool
    \<Rightarrow> string list \<Rightarrow> mig_db \<Rightarrow> (nat list, mig_db) out" where
  "apply_all read run track dry listing db =
    (case discover_migrations listing of
       Inl e \<Rightarrow> (Inl e, db)
     | Inr all_m \<Rightarrow> apply_loop read run track dry (pending all_m (applied_versions db)) [] db)"

lemma collect_versions:
  "collect names found = Inr ms \<Longrightarrow> distinct (map fst found) \<Longrightarrow> distinct (map fst ms)"
  by (induction names arbitrary: found) (auto split: option.splits if_splits)

lemma discover_sorted:
  assumes "discover_migrations listing = Inr ms"
  shows "sorted_wrt (<) (map fst ms)"
proof -
  obtain found where f: "collect (sort listing) [] = Inr found" "ms = sort_key fst found"
    using assms by (auto simp: discover_migrations_def)
  have "distinct (map fst found)" using collect_versions [OF f(1)] by simp
  then have "distinct (map fst ms)" unfolding f(2) by (simp add: distinct_map)
  then show ?thesis unfolding f(2) by (simp add: strict_sorted_iff)
qed

text \<open>Every outcome of the loop: a prefix of the migrations was recorded, in order, and on success it is
  all of them.\<close>

lemma apply_loop_prefix:
  "\<exists>ys zs. ms = ys @ zs \<and> md_applied (snd (apply_loop rd run track False ms now db)) = md_applied db @ ys \<and>
    (is_ok (fst (apply_loop rd run track False ms now db)) \<longrightarrow>
      zs = [] \<and> fst (apply_loop rd run track False ms now db) = Inr (now @ map fst ys))"
proof (induction ms arbitrary: now db)
  case (Cons m ms)
  obtain v name where m: "m = (v, name)" by (cases m)
  show ?case
  proof (cases "case rd name of Inl e \<Rightarrow> False | Inr sql \<Rightarrow> is_ok (run sql) \<and> is_ok (track v)")
    case True
    then obtain sql where s: "rd name = Inr sql" "run sql = Inr ()" "track v = Inr ()"
      by (auto simp: is_ok_conv split: sum.splits)
    let ?db = "db\<lparr>md_log := md_log db @ [sql], md_applied := md_applied db @ [(v, name)]\<rparr>"
    obtain ys zs where "ms = ys @ zs"
      "md_applied (snd (apply_loop rd run track False ms (now @ [v]) ?db)) = md_applied db @ (v, name) # ys"
      "is_ok (fst (apply_loop rd run track False ms (now @ [v]) ?db)) \<longrightarrow>
        zs = [] \<and> fst (apply_loop rd run track False ms (now @ [v]) ?db) = Inr (now @ v # map fst ys)"
      using Cons.IH [of "now @ [v]" ?db] by auto
    then show ?thesis using s m by (intro exI [of _ "m # ys"] exI [of _ zs]) simp
  next
    case False
    then have "md_applied (snd (apply_loop rd run track False (m # ms) now db)) = md_applied db"
      "\<not> is_ok (fst (apply_loop rd run track False (m # ms) now db))"
      using m by (auto simp: Let_def is_ok_conv split: sum.splits)
    then show ?thesis by (intro exI [of _ "[]"] exI [of _ "m # ms"]) auto
  qed
qed simp

section \<open>The idempotent MERGE\<close>

definition fact_columns :: "string list" where
  "fact_columns = map fst (snd (tables ! 0))"

definition identity_col :: string where
  "identity_col = ''TRANSACTION_ID''"

definition order_col :: string where
  "order_col = ''COMPUTED_AT''"

definition build_merge_sql :: "string \<Rightarrow> string \<Rightarrow> string" where
  "build_merge_sql target staging =
    (let non_key = filter (\<lambda>c. c \<noteq> identity_col) fact_columns;
         dedup_src = ''SELECT * FROM '' @ staging @ '' QUALIFY ROW_NUMBER() OVER (PARTITION BY '' @ identity_col @
           '' ORDER BY '' @ order_col @ '' DESC NULLS LAST) = 1'';
         set_clause = join '', '' (map (\<lambda>c. ''tgt.'' @ c @ '' = src.'' @ c) non_key);
         insert_cols = join '', '' fact_columns;
         insert_vals = join '', '' (map (\<lambda>c. ''src.'' @ c) fact_columns)
     in ''MERGE INTO '' @ target @ '' AS tgt'' @ [CHR 0x0A] @ ''USING ('' @ dedup_src @ '') AS src'' @ [CHR 0x0A] @
        ''ON tgt.'' @ identity_col @ '' = src.'' @ identity_col @ [CHR 0x0A] @
        ''WHEN MATCHED THEN UPDATE SET '' @ set_clause @ [CHR 0x0A] @
        ''WHEN NOT MATCHED THEN INSERT ('' @ insert_cols @ '') VALUES ('' @ insert_vals @ '')'')"

definition run_merge :: "(string \<Rightarrow> pyexn + int) \<Rightarrow> (pyexn + unit) \<Rightarrow> string \<Rightarrow> string \<Rightarrow> pyexn + int" where
  "run_merge exec commit target staging =
    and_then (exec (build_merge_sql target staging)) (\<lambda>affected. and_then commit (\<lambda>_. Inr affected))"

text \<open>A snapshot row: its key, its timestamp, the other columns.\<close>

record snap =
  sn_txn :: string
  sn_computed :: "int option"
  sn_cols :: "string \<Rightarrow> pyval"

text \<open>\<open>ORDER BY COMPUTED_AT DESC NULLS LAST\<close>: \<open>a\<close> comes strictly before \<open>b\<close>.\<close>

definition before :: "snap \<Rightarrow> snap \<Rightarrow> bool" where
  "before a b =
    (case (sn_computed a, sn_computed b) of
       (Some x, Some y) \<Rightarrow> y < x | (Some _, None) \<Rightarrow> True | (None, _) \<Rightarrow> False)"

definition first_of :: "snap list \<Rightarrow> snap \<Rightarrow> snap" where
  "first_of rs r = foldl (\<lambda>a b. if before b a then b else a) r rs"

fun dedup :: "snap list \<Rightarrow> snap list" where
  "dedup [] = []"
| "dedup (r # rs) = first_of (filter (\<lambda>s. sn_txn s = sn_txn r) rs) r # dedup (filter (\<lambda>s. sn_txn s \<noteq> sn_txn r) rs)"

definition merge :: "snap list \<Rightarrow> snap list \<Rightarrow> snap list" where
  "merge staging tbl =
    (let src = dedup staging
     in map (\<lambda>r. case find (\<lambda>s. sn_txn s = sn_txn r) src of None \<Rightarrow> r | Some s \<Rightarrow> s) tbl @
        filter (\<lambda>s. sn_txn s \<notin> sn_txn ` set tbl) src)"

lemma first_of_in: "first_of rs r \<in> set (r # rs)"
  by (induction rs arbitrary: r) (auto simp: first_of_def split: if_splits)

lemma before_trans: "\<not> before a b \<Longrightarrow> \<not> before b c \<Longrightarrow> \<not> before a c"
  by (auto simp: before_def split: option.splits)

lemma before_asym: "before a b \<Longrightarrow> \<not> before b a"
  by (auto simp: before_def split: option.splits)

lemma first_of_latest: "s \<in> set (r # rs) \<Longrightarrow> \<not> before s (first_of rs r)"
proof (induction rs arbitrary: r s)
  case Nil
  then show ?case by (auto simp: first_of_def dest: before_asym)
next
  case (Cons q rs)
  let ?m = "if before q r then q else r"
  have f: "first_of (q # rs) r = first_of rs ?m" by (simp add: first_of_def)
  have m: "\<not> before ?m (first_of rs ?m)" by (rule Cons.IH) simp
  show ?case
  proof (cases "s \<in> set rs")
    case True
    then show ?thesis using Cons.IH [of s ?m] f by simp
  next
    case False
    then have "s = r \<or> s = q" using Cons.prems by auto
    then have "\<not> before s ?m" by (auto dest: before_asym)
    then show ?thesis using before_trans m f by metis
  qed
qed

lemma first_of_key: "sn_txn (first_of (filter (\<lambda>s. sn_txn s = sn_txn r) rs) r) = sn_txn r"
  using first_of_in [of "filter (\<lambda>s. sn_txn s = sn_txn r) rs" r] by auto

lemma dedup_keys: "sn_txn ` set (dedup rs) = sn_txn ` set rs"
  by (induction rs rule: dedup.induct) (auto simp: first_of_key image_iff)

lemma dedup_distinct: "distinct (map sn_txn (dedup rs))"
proof (induction rs rule: dedup.induct)
  case (2 r rs)
  have "sn_txn r \<notin> sn_txn ` set (dedup (filter (\<lambda>s. sn_txn s \<noteq> sn_txn r) rs))"
    unfolding dedup_keys by auto
  then show ?case using 2 by (simp add: first_of_key)
qed simp

lemma dedup_latest: "s \<in> set (dedup rs) \<Longrightarrow> s \<in> set rs \<and> (\<forall>q\<in>set rs. sn_txn q = sn_txn s \<longrightarrow> \<not> before q s)"
proof (induction rs arbitrary: s rule: dedup.induct)
  case (2 r rs)
  show ?case
  proof (cases "s \<in> set (dedup (filter (\<lambda>s. sn_txn s \<noteq> sn_txn r) rs))")
    case True
    from 2(1) [OF this] show ?thesis by auto
  next
    case False
    then have s: "s = first_of (filter (\<lambda>s. sn_txn s = sn_txn r) rs) r" using 2(2) by simp
    have "q \<in> set (r # filter (\<lambda>s. sn_txn s = sn_txn r) rs)" if "q \<in> set (r # rs)" "sn_txn q = sn_txn s" for q
      using that first_of_key [of r rs] s by auto
    then show ?thesis
      using first_of_in [of "filter (\<lambda>s. sn_txn s = sn_txn r) rs" r]
        first_of_latest [of _ r "filter (\<lambda>s. sn_txn s = sn_txn r) rs"] s by auto
  qed
qed simp

lemma find_SomeD: "find P xs = Some x \<Longrightarrow> P x \<and> x \<in> set xs"
  by (auto simp: find_Some_iff)

lemma find_key:
  assumes "distinct (map k xs)" "x \<in> set xs"
  shows "find (\<lambda>y. k y = k x) xs = Some x"
  using assms by (induction xs) (auto simp: image_iff)

lemma merge_row:
  assumes "r \<in> set (merge stg tbl)"
  shows "(case find (\<lambda>s. sn_txn s = sn_txn r) (dedup stg) of None \<Rightarrow> r | Some s \<Rightarrow> s) = r"
proof -
  have d: "s \<in> set (dedup stg) \<Longrightarrow> find (\<lambda>q. sn_txn q = sn_txn s) (dedup stg) = Some s" for s
    by (rule find_key [OF dedup_distinct])
  from assms consider s where "s \<in> set (dedup stg)" "r = s"
    | "find (\<lambda>s. sn_txn s = sn_txn r) (dedup stg) = None"
    by (auto simp: merge_def Let_def split: option.splits dest!: find_SomeD)
  then show ?thesis using d by cases auto
qed

lemma merge_keys: "sn_txn ` set (merge stg tbl) = sn_txn ` set tbl \<union> sn_txn ` set stg"
proof -
  have k: "sn_txn (case find (\<lambda>s. sn_txn s = sn_txn r) (dedup stg) of None \<Rightarrow> r | Some s \<Rightarrow> s) = sn_txn r" for r
    by (auto split: option.split dest: find_SomeD)
  have "sn_txn ` set (merge stg tbl) = sn_txn ` set tbl \<union> sn_txn ` set (dedup stg)"
    by (auto simp: merge_def Let_def image_image k image_Un)
  then show ?thesis by (simp add: dedup_keys)
qed

section \<open>Properties\<close>

text \<open>Replaying a batch is harmless: folding the same staging rows in again changes nothing; a
  transaction has at most one row if it had at most one before; each staged transaction has a row,
  the latest one of the batch; and a transaction not in the batch keeps its row.\<close>

theorem merge_idempotent:
  "merge stg (merge stg tbl) = merge stg tbl \<and>
   (distinct (map sn_txn tbl) \<longrightarrow> distinct (map sn_txn (merge stg tbl))) \<and>
   (\<forall>q\<in>set stg. \<exists>s\<in>set (merge stg tbl). s \<in> set stg \<and> sn_txn s = sn_txn q \<and> \<not> before q s) \<and>
   (\<forall>r\<in>set tbl. sn_txn r \<notin> sn_txn ` set stg \<longrightarrow> r \<in> set (merge stg tbl))"
proof (intro conjI ballI impI)
  let ?g = "\<lambda>r. case find (\<lambda>s. sn_txn s = sn_txn r) (dedup stg) of None \<Rightarrow> r | Some s \<Rightarrow> s"
  have "map ?g (merge stg tbl) = merge stg tbl"
    by (rule map_idI) (rule merge_row)
  moreover have "filter (\<lambda>s. sn_txn s \<notin> sn_txn ` set (merge stg tbl)) (dedup stg) = []"
    unfolding filter_empty_conv merge_keys using dedup_keys [of stg] by blast
  ultimately show "merge stg (merge stg tbl) = merge stg tbl" by (subst merge_def) (simp add: Let_def)
  have k: "sn_txn (?g r) = sn_txn r" for r by (auto split: option.split dest: find_SomeD)
  have "map sn_txn (merge stg tbl) = map sn_txn tbl @ map sn_txn (filter (\<lambda>s. sn_txn s \<notin> sn_txn ` set tbl) (dedup stg))"
    by (simp add: merge_def Let_def comp_def k)
  moreover have "distinct (map sn_txn (filter (\<lambda>s. sn_txn s \<notin> sn_txn ` set tbl) (dedup stg)))"
    using dedup_distinct by (rule distinct_map_filter)
  ultimately show "distinct (map sn_txn (merge stg tbl))" if "distinct (map sn_txn tbl)"
    using that by (auto simp: image_iff)
  show "\<exists>s\<in>set (merge stg tbl). s \<in> set stg \<and> sn_txn s = sn_txn q \<and> \<not> before q s" if q: "q \<in> set stg" for q
  proof -
    obtain s where s: "s \<in> set (dedup stg)" "sn_txn s = sn_txn q" using q dedup_keys [of stg] by (metis image_iff)
    then have "s \<in> set stg" "\<not> before q s" using dedup_latest [OF s(1)] q by auto
    moreover have "s \<in> set (merge stg tbl)"
    proof (cases "sn_txn s \<in> sn_txn ` set tbl")
      case True
      then obtain r where r: "r \<in> set tbl" "sn_txn r = sn_txn s" by auto
      have "?g r = s" using find_key [OF dedup_distinct s(1)] r(2) by simp
      then show ?thesis using r(1) by (force simp: merge_def Let_def)
    qed (use s(1) in \<open>simp add: merge_def Let_def\<close>)
    ultimately show ?thesis using s(2) by blast
  qed
  show "r \<in> set (merge stg tbl)" if "r \<in> set tbl" "sn_txn r \<notin> sn_txn ` set stg" for r
  proof -
    have "find (\<lambda>s. sn_txn s = sn_txn r) (dedup stg) = None"
      unfolding find_None_iff using that(2) dedup_keys [of stg] by (metis imageI)
    then show ?thesis using that(1) by (force simp: merge_def Let_def)
  qed
qed

theorem merge_idempotent_witness:
  "\<exists>s\<in>set (merge [\<lparr>sn_txn = ''t'', sn_computed = None, sn_cols = (\<lambda>_. PNone)\<rparr>,
     \<lparr>sn_txn = ''t'', sn_computed = Some 5, sn_cols = (\<lambda>_. PNone)\<rparr>] []). sn_computed s = Some 5"
proof -
  let ?q = "\<lparr>sn_txn = ''t'', sn_computed = Some 5, sn_cols = (\<lambda>_. PNone)\<rparr>"
  let ?p = "\<lparr>sn_txn = ''t'', sn_computed = None, sn_cols = (\<lambda>_. PNone)\<rparr>"
  have "\<exists>s\<in>set (merge [?p, ?q] []). s \<in> set [?p, ?q] \<and> sn_txn s = sn_txn ?q \<and> \<not> before ?q s"
    by (rule merge_idempotent [THEN conjunct2, THEN conjunct2, THEN conjunct1, THEN bspec]) simp
  then obtain s where "s \<in> set (merge [?p, ?q] [])" "s \<in> set [?p, ?q]" "\<not> before ?q s" by blast
  moreover from this have "sn_computed s = Some 5" by (auto simp: before_def)
  ultimately show ?thesis by blast
qed

text \<open>Migrations apply in order and once.  Whatever fails, what a run adds to the tracking table is
  an initial part of the pending migrations in ascending version order; a run that succeeds adds all
  of them, and the next run finds nothing to do.\<close>

theorem migrations_resume:
  assumes "discover_migrations listing = Inr ms"
  shows "\<exists>ys zs. pending ms (applied_versions db) = ys @ zs \<and> sorted_wrt (<) (map fst ys) \<and>
    md_applied (snd (apply_all rd run track False listing db)) = md_applied db @ ys \<and>
    (is_ok (fst (apply_all rd run track False listing db)) \<longrightarrow> zs = [] \<and>
      apply_all rd run' track' dry listing (snd (apply_all rd run track False listing db)) =
        (Inr [], snd (apply_all rd run track False listing db)))"
proof -
  let ?p = "pending ms (applied_versions db)"
  have e: "apply_all rd run track False listing db = apply_loop rd run track False ?p [] db"
    by (simp add: apply_all_def assms)
  obtain ys zs where yz: "?p = ys @ zs"
    "md_applied (snd (apply_loop rd run track False ?p [] db)) = md_applied db @ ys"
    "is_ok (fst (apply_loop rd run track False ?p [] db)) \<Longrightarrow> zs = []"
    using apply_loop_prefix [of ?p rd run track "[]" db] by blast
  have "sorted_wrt (<) (map fst ms)" by (rule discover_sorted [OF assms])
  then have "sorted_wrt (<) (map fst ?p)"
    by (simp add: pending_def sorted_wrt_map sorted_wrt_filter)
  then have "sorted_wrt (<) (map fst ys)" unfolding yz(1) by (simp add: sorted_wrt_append)
  moreover have "apply_all rd run' track' dry listing (snd (apply_all rd run track False listing db)) =
      (Inr [], snd (apply_all rd run track False listing db))" if "zs = []"
  proof -
    have "applied_versions (snd (apply_all rd run track False listing db)) = applied_versions db @ map fst ?p"
      using yz(1,2) that by (simp add: e applied_versions_def)
    then have "pending ms (applied_versions (snd (apply_all rd run track False listing db))) = []"
      by (auto simp: pending_def filter_empty_conv)
    then show ?thesis by (simp add: apply_all_def assms)
  qed
  ultimately show ?thesis using yz e by (intro exI [of _ ys] exI [of _ zs]) auto
qed

theorem migrations_resume_witness:
  "\<exists>ys. md_applied (snd (apply_all (\<lambda>n. Inr n) (\<lambda>_. Inr ()) (\<lambda>_. Inr ()) False
     [''V002__b.sql'', ''readme.md'', ''V001__a.sql''] \<lparr>md_applied = [], md_log = []\<rparr>)) = ys \<and>
    sorted_wrt (<) (map fst ys)"
proof -
  have "discover_migrations [''V002__b.sql'', ''readme.md'', ''V001__a.sql''] =
      Inr [(1, ''V001__a.sql''), (2, ''V002__b.sql'')]"
    by code_simp
  note m = migrations_resume [OF this, where db = "\<lparr>md_applied = [], md_log = []\<rparr>" and rd = "\<lambda>n. Inr n"
      and run = "\<lambda>_. Inr ()" and track = "\<lambda>_. Inr ()"]
  obtain ys where "sorted_wrt (<) (map fst ys)" "md_applied (snd (apply_all (\<lambda>n. Inr n) (\<lambda>_. Inr ()) (\<lambda>_. Inr ()) False
     [''V002__b.sql'', ''readme.md'', ''V001__a.sql''] \<lparr>md_applied = [], md_log = []\<rparr>)) = [] @ ys"
    using m by (metis mig_db.select_convs(1))
  then show ?thesis by auto
qed

end
