(* ===== verification/Resilience.thy ===== *)
theory Resilience
  imports Py_Strings
begin

text \<open>
  \<open>common/resilience.py\<close>: error classification, bounded retry and the circuit breaker.

  The function that is retried is the sequence of its outcomes: what the \<open>k\<close>-th call returns or raises.
  The function that goes through the breaker threads a state of its own, so that a rejected call is
  one that leaves it as it is.  The clock readings of a call are arguments.
\<close>

section \<open>Classification\<close>

datatype error_kind = TRANSIENT | PERMANENT

definition transient_markers :: "string list" where
  "transient_markers = [''timeout'', ''timed out'', ''connection'', ''connectionerror'', ''connectionreset'',
     ''temporarily'', ''unavailable'', ''rate limit'', ''ratelimit'', ''429'', ''503'', ''502'', ''504'',
     ''broken pipe'', ''reset by peer'', ''econnreset'']"

definition permanent_markers :: "string list" where
  "permanent_markers = [''auth'', ''unauthorized'', ''forbidden'', ''permission'', ''invalid'', ''syntax'',
     ''does not exist'', ''not found'', ''constraint'', ''programmingerror'']"

definition classify_error :: "pyexn \<Rightarrow> error_kind" where
  "classify_error e =
    (let txt = lower (exn_name (exn_kind_of e) @ '' '' @ exn_text e)
     in if list_ex (contains txt) permanent_markers then PERMANENT
        else if list_ex (contains txt) transient_markers then TRANSIENT
        else PERMANENT)"

section \<open>Retry\<close>

record retry_policy =
  rp_max_attempts :: nat
  rp_base_delay :: real
  rp_backoff :: real
  rp_max_delay :: real
  rp_only_transient :: bool

definition default_policy :: retry_policy where
  "default_policy = \<lparr>rp_max_attempts = 3, rp_base_delay = 1 / 10, rp_backoff = 2, rp_max_delay = 5,
     rp_only_transient = True\<rparr>"

text \<open>What a retried call did: its outcome, the delays it slept, the number of calls.\<close>

record 'a attempts =
  at_outcome :: "pyexn + 'a"
  at_sleeps :: "real list"
  at_calls :: nat

text \<open>The loop with \<open>left\<close> attempts to go and \<open>n\<close> calls made.\<close>

fun retry_loop :: "retry_policy \<Rightarrow> (nat \<Rightarrow> pyexn + 'a) \<Rightarrow> nat \<Rightarrow> nat \<Rightarrow> real \<Rightarrow> real list \<Rightarrow> 'a attempts" where
  "retry_loop p fn 0 n delay slept =
    \<lparr>at_outcome = Inl (Exn TypeError ''exceptions must derive from BaseException''), at_sleeps = slept, at_calls = n\<rparr>"
| "retry_loop p fn (Suc left) n delay slept =
    (case fn n of
       Inr v \<Rightarrow> \<lparr>at_outcome = Inr v, at_sleeps = slept, at_calls = Suc n\<rparr>
     | Inl e \<Rightarrow>
        if rp_only_transient p \<and> classify_error e \<noteq> TRANSIENT
        then \<lparr>at_outcome = Inl e, at_sleeps = slept, at_calls = Suc n\<rparr>
        else if left = 0 then \<lparr>at_outcome = Inl e, at_sleeps = slept, at_calls = Suc n\<rparr>
        else retry_loop p fn left (Suc n) (min (delay * rp_backoff p) (rp_max_delay p)) (slept @ [delay]))"

definition retry :: "retry_policy \<Rightarrow> (nat \<Rightarrow> pyexn + 'a) \<Rightarrow> 'a attempts" where
  "retry p fn = retry_loop p fn (rp_max_attempts p) 0 (rp_base_delay p) []"

text \<open>The \<open>i\<close>-th delay, in closed form.\<close>

fun delay_at :: "retry_policy \<Rightarrow> nat \<Rightarrow> real" where
  "delay_at p 0 = rp_base_delay p"
| "delay_at p (Suc i) = min (delay_at p i * rp_backoff p) (rp_max_delay p)"

definition retryable :: "retry_policy \<Rightarrow> pyexn \<Rightarrow> bool" where
  "retryable p e = (rp_only_transient p \<longrightarrow> classify_error e = TRANSIENT)"

lemma retry_loop_spec:
  assumes "0 < left"
  shows "\<exists>k<left. retry_loop p fn left n (delay_at p n) slept =
      \<lparr>at_outcome = fn (n + k), at_sleeps = slept @ map (delay_at p) [n..<n + k], at_calls = Suc (n + k)\<rparr> \<and>
    (\<forall>i<k. \<exists>e. fn (n + i) = Inl e \<and> retryable p e) \<and>
    (k < left - 1 \<longrightarrow> (case fn (n + k) of Inr _ \<Rightarrow> True | Inl e \<Rightarrow> \<not> retryable p e))"
  using assms
proof (induction left arbitrary: n slept)
  case (Suc left)
  show ?case
  proof (cases "\<exists>e. fn n = Inl e \<and> retryable p e \<and> 0 < left")
    case False
    then have "retry_loop p fn (Suc left) n (delay_at p n) slept =
        \<lparr>at_outcome = fn n, at_sleeps = slept, at_calls = Suc n\<rparr>"
      by (auto simp: retryable_def split: sum.split)
    then show ?thesis using False by (intro exI [of _ 0]) (auto split: sum.split)
  next
    case True
    then obtain e where e: "fn n = Inl e" "retryable p e" "0 < left" by blast
    have "retry_loop p fn (Suc left) n (delay_at p n) slept =
        retry_loop p fn left (Suc n) (delay_at p (Suc n)) (slept @ [delay_at p n])"
      using e by (auto simp: retryable_def)
    moreover obtain k where k: "k < left" "retry_loop p fn left (Suc n) (delay_at p (Suc n)) (slept @ [delay_at p n]) =
        \<lparr>at_outcome = fn (Suc n + k), at_sleeps = slept @ [delay_at p n] @ map (delay_at p) [Suc n..<Suc n + k],
          at_calls = Suc (Suc n + k)\<rparr>"
      "\<forall>i<k. \<exists>e. fn (Suc n + i) = Inl e \<and> retryable p e"
      "k < left - 1 \<longrightarrow> (case fn (Suc n + k) of Inr _ \<Rightarrow> True | Inl e \<Rightarrow> \<not> retryable p e)"
      using Suc.IH [OF e(3), of "Suc n" "slept @ [delay_at p n]"] by auto
    moreover have "[n..<n + Suc k] = n # [Suc n..<Suc n + k]" by (simp add: upt_conv_Cons)
    moreover have "\<forall>i<Suc k. \<exists>e. fn (n + i) = Inl e \<and> retryable p e"
    proof (intro allI impI)
      fix i assume "i < Suc k"
      then show "\<exists>e. fn (n + i) = Inl e \<and> retryable p e" using e k(3) by (cases i) auto
    qed
    ultimately show ?thesis by (intro exI [of _ "Suc k"]) auto
  qed
qed simp

section \<open>Circuit breaker\<close>

datatype breaker_state = CLOSED | OPEN | HALF_OPEN

record breaker =
  cb_threshold :: nat
  cb_reset_timeout :: real
  cb_failures :: nat
  cb_state :: breaker_state
  cb_opened_at :: real

definition new_breaker :: "nat \<Rightarrow> real \<Rightarrow> breaker" where
  "new_breaker threshold timeout = \<lparr>cb_threshold = threshold, cb_reset_timeout = timeout, cb_failures = 0,
     cb_state = CLOSED, cb_opened_at = 0\<rparr>"

definition read_state :: "real \<Rightarrow> breaker \<Rightarrow> breaker" where
  "read_state now b =
    (if cb_state b = OPEN \<and> cb_reset_timeout b \<le> now - cb_opened_at b then b\<lparr>cb_state := HALF_OPEN\<rparr> else b)"

definition on_success :: "breaker \<Rightarrow> breaker" where
  "on_success b = b\<lparr>cb_failures := 0, cb_state := CLOSED\<rparr>"

definition on_failure :: "real \<Rightarrow> breaker \<Rightarrow> breaker" where
  "on_failure now b =
    (let b = b\<lparr>cb_failures := Suc (cb_failures b)\<rparr>
     in if cb_threshold b \<le> cb_failures b \<or> cb_state b = HALF_OPEN
        then b\<lparr>cb_state := OPEN, cb_opened_at := now\<rparr> else b)"

definition circuit_open :: pyexn where
  "circuit_open = Exn (OtherExn ''CircuitOpenError'') ''Circuit is OPEN'' "

text \<open>\<open>t\<close> is the clock when the state is read, \<open>t'\<close> when a failure is counted.\<close>

definition breaker_call :: "real \<Rightarrow> real \<Rightarrow> ('w \<Rightarrow> ('a, 'w) out) \<Rightarrow> breaker \<times> 'w
    \<Rightarrow> ('a, breaker \<times> 'w) out" where
  "breaker_call t t' fn bw =
    (case bw of (b, w) \<Rightarrow>
       let b = read_state t b
       in if cb_state b = OPEN then (Inl circuit_open, (b, w))
          else (case fn w of
                  (Inl e, w) \<Rightarrow> (Inl e, (on_failure t' b, w))
                | (Inr v, w) \<Rightarrow> (Inr v, (on_success b, w))))"

text \<open>The contract of the breaker, without its counters: closed after \<open>n\<close> consecutive failures, open
  since a time, or probing.\<close>

datatype breaker_spec = Closed nat | OpenSince real | Probing

definition spec_of :: "breaker \<Rightarrow> breaker_spec" where
  "spec_of b = (case cb_state b of CLOSED \<Rightarrow> Closed (cb_failures b) | OPEN \<Rightarrow> OpenSince (cb_opened_at b)
     | HALF_OPEN \<Rightarrow> Probing)"

text \<open>One call: \<open>None\<close> when it is rejected, otherwise whether it succeeded.\<close>

fun spec_call :: "nat \<Rightarrow> real \<Rightarrow> real \<Rightarrow> real \<Rightarrow> bool \<Rightarrow> breaker_spec \<Rightarrow> bool option \<times> breaker_spec" where
  "spec_call th timeout t t' succeeds (Closed n) =
    (Some succeeds, if succeeds then Closed 0 else if th \<le> Suc n then OpenSince t' else Closed (Suc n))"
| "spec_call th timeout t t' succeeds (OpenSince t0) =
    (if timeout \<le> t - t0 then (Some succeeds, if succeeds then Closed 0 else OpenSince t')
     else (None, OpenSince t0))"
| "spec_call th timeout t t' succeeds Probing = (Some succeeds, if succeeds then Closed 0 else OpenSince t')"

text \<open>A run of calls through the breaker, each with its clock readings and its function.\<close>

fun breaker_run :: "(real \<times> real \<times> ('w \<Rightarrow> ('a, 'w) out)) list \<Rightarrow> breaker \<times> 'w \<Rightarrow> breaker \<times> 'w" where
  "breaker_run [] bw = bw"
| "breaker_run ((t, t', fn) # cs) bw = breaker_run cs (snd (breaker_call t t' fn bw))"

lemma breaker_call_config:
  "breaker_call t t' fn (b, w) = (r, (b', w')) \<Longrightarrow> cb_threshold b' = cb_threshold b \<and> cb_reset_timeout b' = cb_reset_timeout b"
  by (auto simp: breaker_call_def read_state_def on_failure_def on_success_def Let_def
      split: prod.splits sum.splits if_splits)

lemma failing_run:
  assumes "\<And>t t' fn w. (t, t', fn) \<in> set cs \<Longrightarrow> \<not> is_ok (fst (fn w))" "cb_state b = CLOSED"
    "cb_failures b + length cs < cb_threshold b"
  shows "cb_state (fst (breaker_run cs (b, w))) = CLOSED \<and>
    cb_failures (fst (breaker_run cs (b, w))) = cb_failures b + length cs \<and>
    cb_threshold (fst (breaker_run cs (b, w))) = cb_threshold b"
  using assms
proof (induction cs arbitrary: b w)
  case (Cons c cs)
  obtain t t' fn where c: "c = (t, t', fn)" by (cases c)
  have "\<not> is_ok (fst (fn w))" using Cons.prems(1) c by auto
  then obtain e w' where f: "fn w = (Inl e, w')" by (cases "fn w"; cases "fst (fn w)") auto
  have s: "snd (breaker_call t t' fn (b, w)) = (b\<lparr>cb_failures := Suc (cb_failures b)\<rparr>, w')"
    using Cons.prems(2,3) f by (simp add: breaker_call_def read_state_def on_failure_def Let_def)
  show ?case
    using Cons.IH [of "b\<lparr>cb_failures := Suc (cb_failures b)\<rparr>" w'] Cons.prems s c by auto
qed simp

section \<open>Properties\<close>

text \<open>Retry is bounded and honest: it makes \<open>k + 1\<close> calls with \<open>k\<close> below the limit, returns exactly
  what the last of them returned or raised, every earlier one failed with an error that may be
  retried, and it gave up before the limit only on a success or on an error that may not; before each
  further call it slept the delay of the exponential schedule, at most the configured maximum from
  the second on.\<close>

theorem retry_spec:
  assumes "0 < rp_max_attempts p"
  shows "\<exists>k<rp_max_attempts p. retry p fn =
      \<lparr>at_outcome = fn k, at_sleeps = map (delay_at p) [0..<k], at_calls = Suc k\<rparr> \<and>
    (\<forall>i<k. \<exists>e. fn i = Inl e \<and> retryable p e) \<and>
    (k < rp_max_attempts p - 1 \<longrightarrow> (case fn k of Inr _ \<Rightarrow> True | Inl e \<Rightarrow> \<not> retryable p e))"
  using retry_loop_spec [OF assms, of p fn 0 "[]"] by (simp add: retry_def)

definition flaky :: "nat \<Rightarrow> pyexn + string" where
  "flaky n = (if n = 0 then Inl (Exn TimeoutError ''timed out'') else Inr ''ok'')"

theorem retry_spec_witness:
  "at_calls (retry default_policy flaky) = 2"
proof -
  have "0 < rp_max_attempts default_policy" by (simp add: default_policy_def)
  from retry_spec [OF this, of flaky] obtain k where k: "k < rp_max_attempts default_policy"
    "retry default_policy flaky = \<lparr>at_outcome = flaky k, at_sleeps = map (delay_at default_policy) [0..<k],
       at_calls = Suc k\<rparr>"
    "\<forall>i<k. \<exists>e. flaky i = Inl e \<and> retryable default_policy e"
    "k < rp_max_attempts default_policy - 1 \<longrightarrow>
       (case flaky k of Inr _ \<Rightarrow> True | Inl e \<Rightarrow> \<not> retryable default_policy e)" by blast
  have "classify_error (Exn TimeoutError ''timed out'') = TRANSIENT" by code_simp
  then have "k \<noteq> 0" using k(4) by (cases k) (auto simp: retryable_def flaky_def default_policy_def)
  moreover have "\<not> 1 < k" using k(3) by (auto simp: flaky_def dest: spec [of _ 1])
  ultimately have "k = 1" by simp
  then show ?thesis by (simp add: k(2))
qed

text \<open>The breaker implements its contract: a call is rejected exactly when the contract rejects it,
  a rejected call does not reach the function and leaves its state alone, any other call returns what
  the function returned or raised, and the counters step as the contract does.\<close>

theorem breaker_refines:
  "case spec_call (cb_threshold b) (cb_reset_timeout b) t t' (is_ok (fst (fn w))) (spec_of b) of
     (None, s) \<Rightarrow> fst (breaker_call t t' fn (b, w)) = Inl circuit_open \<and>
       snd (snd (breaker_call t t' fn (b, w))) = w \<and> spec_of (fst (snd (breaker_call t t' fn (b, w)))) = s
   | (Some _, s) \<Rightarrow> fst (breaker_call t t' fn (b, w)) = fst (fn w) \<and>
       snd (snd (breaker_call t t' fn (b, w))) = snd (fn w) \<and> spec_of (fst (snd (breaker_call t t' fn (b, w)))) = s"
proof -
  obtain r w' where f: "fn w = (r, w')" by (cases "fn w")
  show ?thesis
    by (cases "cb_state b"; cases r)
      (auto simp: f breaker_call_def read_state_def on_failure_def on_success_def spec_of_def Let_def)
qed

text \<open>The breaker trips after exactly the configured number of consecutive failures: a fresh breaker
  is still closed after fewer, open after that many, and then rejects every call within the cooldown.\<close>

theorem breaker_trips:
  assumes "0 < th" and "\<And>t t' fn w. (t, t', fn) \<in> set cs \<Longrightarrow> \<not> is_ok (fst (fn w))"
    and "length cs \<le> th" and "t1 - fst (snd (last cs)) < timeout"
  shows "cb_state (fst (breaker_run cs (new_breaker th timeout, w))) = (if length cs = th then OPEN else CLOSED) \<and>
    (length cs = th \<longrightarrow>
      fst (breaker_call t1 t2 fn (breaker_run cs (new_breaker th timeout, w))) = Inl circuit_open)"
proof (cases "length cs = th")
  case False
  then have "cb_failures (new_breaker th timeout) + length cs < cb_threshold (new_breaker th timeout)"
    using assms(3) by (simp add: new_breaker_def)
  with failing_run [of cs "new_breaker th timeout" w] assms(2) False show ?thesis by (auto simp: new_breaker_def)
next
  case True
  then have "cs \<noteq> []" using assms(1) by auto
  then obtain ds c where cs: "cs = ds @ [c]" by (cases cs rule: rev_cases) auto
  obtain t t' f where c: "c = (t, t', f)" by (cases c)
  obtain b v where b: "breaker_run ds (new_breaker th timeout, w) = (b, v)"
    by (cases "breaker_run ds (new_breaker th timeout, w)")
  have len: "Suc (length ds) = th" using True cs by simp
  have bs: "cb_state b = CLOSED" "cb_failures b = length ds" "cb_threshold b = th"
    using failing_run [of ds "new_breaker th timeout" w] assms(2) b len cs by (auto simp: new_breaker_def)
  have app: "breaker_run (xs @ ys) bw = breaker_run ys (breaker_run xs bw)" for xs ys and bw :: "breaker \<times> 'a"
    by (induction xs bw rule: breaker_run.induct) auto
  have rt: "cb_reset_timeout (fst (breaker_run xs bw)) = cb_reset_timeout (fst bw)" for xs and bw :: "breaker \<times> 'a"
  proof (induction xs bw rule: breaker_run.induct)
    case (2 t t' fn cs bw)
    then show ?case using breaker_call_config [of t t' fn "fst bw" "snd bw"] by (metis prod.collapse breaker_run.simps(2))
  qed simp
  have "\<not> is_ok (fst (f v))" using assms(2) cs c by auto
  then obtain e v' where f: "f v = (Inl e, v')" by (cases "f v"; cases "fst (f v)") auto
  have "breaker_run cs (new_breaker th timeout, w) =
      (b\<lparr>cb_failures := th, cb_state := OPEN, cb_opened_at := t'\<rparr>, v')"
    using bs len by (simp add: cs c app b breaker_call_def read_state_def f on_failure_def Let_def)
  moreover have "cb_reset_timeout b = timeout" using rt [of ds "(new_breaker th timeout, w)"] b by (simp add: new_breaker_def)
  ultimately show ?thesis using True assms(4) cs c by (simp add: breaker_call_def read_state_def)
qed

theorem breaker_trips_witness:
  "cb_state (fst (breaker_run (replicate 2 (1, 1, \<lambda>w. (Inl (Exn TimeoutError ''t'') :: pyexn + unit, w)))
     (new_breaker 2 30, ()))) = OPEN"
proof -
  let ?c = "(1, 1, \<lambda>w :: unit. (Inl (Exn TimeoutError ''t'') :: pyexn + unit, w)) :: real \<times> real \<times> (unit \<Rightarrow> (unit, unit) out)"
  note b = breaker_trips [where th = 2 and cs = "replicate 2 ?c" and timeout = 30 and w = "()"
      and ?t1.0 = 5 and ?t2.0 = 5 and fn = "snd (snd ?c)", THEN conjunct1]
  have "cb_state (fst (breaker_run (replicate 2 ?c) (new_breaker 2 30, ()))) =
      (if length (replicate 2 ?c) = 2 then OPEN else CLOSED)"
    by (rule b) (auto simp: numeral_2_eq_2)
  then show ?thesis by simp
qed

end
