(* ===== verification/Scoring.thy ===== *)
theory Scoring
  imports Validators Report Datetime
begin

text \<open>
  \<open>stream_processing/scoring.py\<close>: from one parsed transaction to one validated feature row.  Floats
  may be NaN or infinite on the way in, so the arithmetic is that of floats with those values; a row
  is a Python dictionary with the keys of the source.  \<open>datetime.fromisoformat\<close> and \<open>str\<close> of a value
  that is not a string are the parameters \<open>se_fromiso\<close> and \<open>se_str\<close>; the generated id and the clock
  reading are arguments.
\<close>

section \<open>Float arithmetic\<close>

fun fl_add :: "pyfloat \<Rightarrow> pyfloat \<Rightarrow> pyfloat" where
  "fl_add (Fin a) (Fin b) = Fin (a + b)"
| "fl_add NaN _ = NaN"
| "fl_add _ NaN = NaN"
| "fl_add PInf NInf = NaN"
| "fl_add NInf PInf = NaN"
| "fl_add PInf _ = PInf"
| "fl_add NInf _ = NInf"
| "fl_add _ PInf = PInf"
| "fl_add _ NInf = NInf"

definition fl_sub :: "pyfloat \<Rightarrow> pyfloat \<Rightarrow> pyfloat" where
  "fl_sub a b = fl_add a (fl_neg b)"

text \<open>An infinity of the sign of \<open>r\<close>, and NaN when there is no sign.\<close>

definition inf_of :: "real \<Rightarrow> pyfloat" where
  "inf_of r = (if 0 < r then PInf else if r < 0 then NInf else NaN)"

fun fl_mul :: "pyfloat \<Rightarrow> pyfloat \<Rightarrow> pyfloat" where
  "fl_mul (Fin a) (Fin b) = Fin (a * b)"
| "fl_mul NaN _ = NaN"
| "fl_mul _ NaN = NaN"
| "fl_mul (Fin a) PInf = inf_of a"
| "fl_mul (Fin a) NInf = inf_of (- a)"
| "fl_mul PInf (Fin b) = inf_of b"
| "fl_mul NInf (Fin b) = inf_of (- b)"
| "fl_mul PInf NInf = NInf"
| "fl_mul NInf PInf = NInf"
| "fl_mul _ _ = PInf"

text \<open>Division by a divisor that is not zero; every call is guarded.\<close>

fun fl_div :: "pyfloat \<Rightarrow> pyfloat \<Rightarrow> pyfloat" where
  "fl_div (Fin a) (Fin b) = Fin (a / b)"
| "fl_div NaN _ = NaN"
| "fl_div _ NaN = NaN"
| "fl_div PInf (Fin b) = inf_of b"
| "fl_div NInf (Fin b) = inf_of (- b)"
| "fl_div (Fin _) _ = Fin 0"
| "fl_div _ _ = NaN"

fun fl_abs :: "pyfloat \<Rightarrow> pyfloat" where
  "fl_abs (Fin a) = Fin \<bar>a\<bar>"
| "fl_abs NaN = NaN"
| "fl_abs _ = PInf"

text \<open>\<open>min(a, b)\<close> keeps its first argument unless the second is smaller.\<close>

definition fl_min :: "pyfloat \<Rightarrow> pyfloat \<Rightarrow> pyfloat" where
  "fl_min a b = (if fl_lt b a then b else a)"

text \<open>\<open>round(x, n)\<close>\<close>

fun fl_round :: "nat \<Rightarrow> pyfloat \<Rightarrow> pyfloat" where
  "fl_round n (Fin a) = Fin (of_int (round_half_even (a * 10 ^ n)) / 10 ^ n)"
| "fl_round n f = f"

text \<open>\<open>math.sin\<close> and \<open>math.cos\<close> reject an infinity, \<open>math.sqrt\<close> a negative number, \<open>math.asin\<close> a number
  outside of [-1, 1].\<close>

definition domain_error :: "pyexn + 'a" where
  "domain_error = Inl (Exn ValueError ''math domain error'')"

fun fl_trig :: "(real \<Rightarrow> real) \<Rightarrow> pyfloat \<Rightarrow> pyexn + pyfloat" where
  "fl_trig f (Fin a) = Inr (Fin (f a))"
| "fl_trig f NaN = Inr NaN"
| "fl_trig f _ = domain_error"

fun fl_sqrt :: "pyfloat \<Rightarrow> pyexn + pyfloat" where
  "fl_sqrt (Fin a) = (if a < 0 then domain_error else Inr (Fin (sqrt a)))"
| "fl_sqrt NInf = domain_error"
| "fl_sqrt f = Inr f"

fun fl_asin :: "pyfloat \<Rightarrow> pyexn + pyfloat" where
  "fl_asin (Fin a) = (if a < -1 \<or> 1 < a then domain_error else Inr (Fin (arcsin a)))"
| "fl_asin NaN = Inr NaN"
| "fl_asin f = domain_error"

text \<open>A value used as a number in float arithmetic.\<close>

definition arith :: "pyval \<Rightarrow> pyexn + pyfloat" where
  "arith v = (case v of PStr _ \<Rightarrow> Inl (Exn TypeError ''must be real number, not str'') | _ \<Rightarrow> to_float v)"

section \<open>Thresholds\<close>

record weights =
  w_velocity :: real
  w_amount :: real
  w_geo :: real
  w_device :: real

definition risk_weights :: weights where
  "risk_weights = \<lparr>w_velocity = 30 / 100, w_amount = 25 / 100, w_geo = 25 / 100, w_device = 20 / 100\<rparr>"

record scoring_config =
  sc_weights :: weights
  sc_flag_threshold :: real
  sc_hard_amount :: real
  sc_hard_velocity :: real

definition default_config :: scoring_config where
  "default_config = \<lparr>sc_weights = risk_weights, sc_flag_threshold = 60 / 100, sc_hard_amount = 95 / 100,
     sc_hard_velocity = 1\<rparr>"

definition geo_min_jump_km :: real where "geo_min_jump_km = 3000"
definition impossible_speed_kmh :: real where "impossible_speed_kmh = 900"
definition speed_rule_min_km :: real where "speed_rule_min_km = 100"
definition velocity_max_normal :: real where "velocity_max_normal = 5"
definition geo_max_normal_km :: real where "geo_max_normal_km = 500"
definition zscore_max_normal :: real where "zscore_max_normal = 3"

section \<open>Scoring functions\<close>

definition radians :: "pyfloat \<Rightarrow> pyfloat" where
  "radians x = fl_mul x (Fin (pi / 180))"

definition half :: "pyfloat \<Rightarrow> pyfloat" where
  "half x = fl_div x (Fin 2)"

definition sqr :: "pyfloat \<Rightarrow> pyfloat" where
  "sqr x = fl_mul x x"

definition haversine_distance :: "pyval \<Rightarrow> pyval \<Rightarrow> pyval \<Rightarrow> pyval \<Rightarrow> pyexn + pyfloat option" where
  "haversine_distance lat1 lon1 lat2 lon2 =
    (if PNone \<in> {lat1, lon1, lat2, lon2} then Inr None
     else and_then (arith lat1) (\<lambda>a1. and_then (arith lon1) (\<lambda>b1.
          and_then (arith lat2) (\<lambda>a2. and_then (arith lon2) (\<lambda>b2.
            let p1 = radians a1; l1 = radians b1; p2 = radians a2; l2 = radians b2;
                dlat = fl_sub p2 p1; dlon = fl_sub l2 l1
            in and_then (fl_trig sin (half dlat)) (\<lambda>sa.
               and_then (fl_trig cos p1) (\<lambda>c1.
               and_then (fl_trig cos p2) (\<lambda>c2.
               and_then (fl_trig sin (half dlon)) (\<lambda>sb.
               and_then (fl_sqrt (fl_add (sqr sa) (fl_mul (fl_mul c1 c2) (sqr sb)))) (\<lambda>root.
               and_then (fl_asin root) (\<lambda>angle.
                 Inr (Some (fl_mul (Fin (6371 * 2)) angle)))))))))))))"

text \<open>A missing, zero or non-positive time gives no speed.\<close>

definition compute_implied_speed_kmh :: "pyfloat option \<Rightarrow> real option \<Rightarrow> pyfloat option" where
  "compute_implied_speed_kmh distance_km time_since_last_min =
    (case (distance_km, time_since_last_min) of
       (Some d, Some t) \<Rightarrow> if t \<le> 0 then None else Some (fl_div d (Fin (t / 60)))
     | _ \<Rightarrow> None)"

definition geo_hard_rule :: "pyfloat option \<Rightarrow> pyfloat option \<Rightarrow> bool" where
  "geo_hard_rule distance_km implied_speed_kmh =
    (case distance_km of
       None \<Rightarrow> False
     | Some d \<Rightarrow>
        if fl_le (Fin geo_min_jump_km) d then True
        else (case implied_speed_kmh of
                None \<Rightarrow> False
              | Some v \<Rightarrow> fl_lt (Fin impossible_speed_kmh) v \<and> fl_le (Fin speed_rule_min_km) d))"

definition compute_risk_score :: "pyfloat \<Rightarrow> pyfloat \<Rightarrow> pyfloat \<Rightarrow> pyfloat \<Rightarrow> weights \<Rightarrow> pyfloat" where
  "compute_risk_score v15 amt_signal geo_signal dev_signal w =
    (let score = fl_add (fl_add (fl_add (fl_mul (Fin (w_velocity w)) v15) (fl_mul (Fin (w_amount w)) amt_signal))
                  (fl_mul (Fin (w_geo w)) geo_signal)) (fl_mul (Fin (w_device w)) dev_signal)
     in fl_round 4 (fl_min score (Fin 1)))"

section \<open>Validation\<close>

definition check_zscore :: "pyval \<Rightarrow> pyexn + unit" where
  "check_zscore z =
    (if z = PNone then Inr ()
     else (case num_of z of
        None \<Rightarrow> refuse ''amount_zscore must be finite''
      | Some x \<Rightarrow> if huge_int z then overflow
                  else if \<not> finite_float x then refuse ''amount_zscore must be finite'' else Inr ()))"

definition validate_feature_row :: "pydict \<Rightarrow> pyexn + unit" where
  "validate_feature_row fd =
    and_then (item fd ''txn_amount'') (\<lambda>a. and_then (validate_amount a ''txn_amount'') (\<lambda>_.
    and_then (item fd ''risk_score_raw'') (\<lambda>r. and_then (validate_probability r ''risk_score_raw'' False) (\<lambda>_.
    and_then (item fd ''amount_zscore'') (\<lambda>z. and_then (check_zscore z) (\<lambda>_.
    and_then (item fd ''fraud_pattern'') (\<lambda>p. and_then (validate_identified_pattern p ''fraud_pattern'') (\<lambda>_.
      Inr ()))))))))"

section \<open>One transaction\<close>

text \<open>A transaction of the parsed stream: its timestamp is a datetime there, a text in a plain dictionary.\<close>

datatype stamp = Moment datetime | Stamp_Text string

record txn =
  tx_id :: pyval
  tx_user :: string
  tx_device :: "string option"
  tx_amount :: "pyfloat option"
  tx_city :: pyval
  tx_country :: pyval
  tx_lat :: "pyfloat option"
  tx_lon :: "pyfloat option"
  tx_ts :: "stamp option"
  tx_synthetic :: pyval
  tx_pattern :: pyval

record scoring_env =
  se_fromiso :: "string \<Rightarrow> datetime option"
  se_str :: "pyval \<Rightarrow> string"

text \<open>\<open>bool(x)\<close> of an optional float, of a timestamp\<close>

definition fl_truthy :: "pyfloat option \<Rightarrow> bool" where
  "fl_truthy x = (x \<noteq> None \<and> x \<noteq> Some (Fin 0))"

definition ts_truthy :: "stamp option \<Rightarrow> bool" where
  "ts_truthy t = (t \<noteq> None \<and> t \<noteq> Some (Stamp_Text []))"

text \<open>\<open>str\<close> of a datetime is its ISO text with a blank for the T.\<close>

definition stamp_text :: "stamp \<Rightarrow> string" where
  "stamp_text t = (case t of Stamp_Text s \<Rightarrow> s | Moment d \<Rightarrow> date_text d @ '' '' @ drop 11 (isoformat d))"

definition stamp_moment :: "scoring_env \<Rightarrow> stamp \<Rightarrow> datetime option" where
  "stamp_moment env t = (case t of Moment d \<Rightarrow> Some d | Stamp_Text s \<Rightarrow> se_fromiso env s)"

text \<open>Subtraction of two datetimes, in seconds: both naive, or both aware.\<close>

definition wall_seconds :: "datetime \<Rightarrow> real" where
  "wall_seconds d = of_int (ordinal d * 86400 + hour d * 3600 + minute d * 60 + second d) + of_int (microsecond d) / 10 ^ 6"

definition seconds_between :: "datetime \<Rightarrow> datetime \<Rightarrow> real option" where
  "seconds_between later earlier =
    (case (utcoffset later, utcoffset earlier) of
       (None, None) \<Rightarrow> Some (wall_seconds later - wall_seconds earlier)
     | (Some x, Some y) \<Rightarrow> Some ((wall_seconds later - of_int x * 60) - (wall_seconds earlier - of_int y * 60))
     | _ \<Rightarrow> None)"

text \<open>Minutes since the previous transaction; any failure leaves it unknown.\<close>

definition minutes_since :: "scoring_env \<Rightarrow> pyval \<Rightarrow> stamp option \<Rightarrow> real option" where
  "minutes_since env prev_ts ts =
    (if truthy prev_ts \<and> ts_truthy ts
     then (case (se_fromiso env (replace_all ''Z'' '''' (str_val (se_str env) prev_ts)), stamp_moment env (the ts)) of
             (Some prev_dt, Some curr_dt) \<Rightarrow> map_option (\<lambda>s. s / 60) (seconds_between curr_dt prev_dt)
           | _ \<Rightarrow> None)
     else None)"

record geo_features =
  g_distance :: "pyfloat option"
  g_minutes :: "real option"
  g_city :: pyval
  g_ts :: pyval

definition no_geo :: geo_features where
  "no_geo = \<lparr>g_distance = None, g_minutes = None, g_city = PNone, g_ts = PNone\<rparr>"

text \<open>\<open>last_loc["lat"]\<close> of any value\<close>

definition index_key :: "pyval \<Rightarrow> string \<Rightarrow> pyexn + pyval" where
  "index_key v k = (case v of PDict d \<Rightarrow> item d k | _ \<Rightarrow> Inl (Exn TypeError ''not subscriptable by a key''))"

definition as_dict :: "pyval \<Rightarrow> pydict" where
  "as_dict v = (case v of PDict d \<Rightarrow> d | _ \<Rightarrow> [])"

text \<open>The geo block: an exception leaves every geo feature unset; an event that is not after the previous
  one keeps the previous city and time but gets no distance.\<close>

definition geo_of :: "scoring_env \<Rightarrow> pyval \<Rightarrow> txn \<Rightarrow> geo_features" where
  "geo_of env last_loc row =
    (if truthy last_loc \<and> fl_truthy (tx_lat row) \<and> fl_truthy (tx_lon row)
     then (case and_then (index_key last_loc ''lat'') (\<lambda>lat. and_then (index_key last_loc ''lon'') (\<lambda>lon.
                  haversine_distance lat lon (PFloat (the (tx_lat row))) (PFloat (the (tx_lon row))))) of
             Inl _ \<Rightarrow> no_geo
           | Inr km \<Rightarrow>
              let prev_ts = dict_get (as_dict last_loc) ''ts'' PNone;
                  mins = minutes_since env prev_ts (tx_ts row);
                  stale = (case mins of Some m \<Rightarrow> m \<le> 0 | None \<Rightarrow> False)
              in \<lparr>g_distance = (if stale then None else km), g_minutes = (if stale then None else mins),
                  g_city = dict_get (as_dict last_loc) ''city'' PNone, g_ts = prev_ts\<rparr>)
     else no_geo)"

definition opt_float :: "pyfloat option \<Rightarrow> pyval" where
  "opt_float x = (case x of None \<Rightarrow> PNone | Some f \<Rightarrow> PFloat f)"

definition is_new_device :: "string option \<Rightarrow> string list \<Rightarrow> bool" where
  "is_new_device device_id user_devices =
    (case device_id of None \<Rightarrow> False | Some d \<Rightarrow> d \<noteq> [] \<and> d \<notin> set user_devices)"

text \<open>The amount z-score: a baseline without spread gives zero.\<close>

definition zscore_of :: "pyval \<Rightarrow> pyval \<Rightarrow> pyfloat \<Rightarrow> pyexn + pyfloat" where
  "zscore_of avg_amt stddev_amt amount =
    and_then (arith stddev_amt) (\<lambda>sd.
      if fl_lt (Fin 0) sd
      then and_then (arith avg_amt) (\<lambda>avg. Inr (fl_div (fl_sub amount avg) sd))
      else Inr (Fin 0))"

record signals =
  s_v15 :: pyfloat
  s_amount :: pyfloat
  s_geo :: pyfloat
  s_device :: pyfloat

definition signals_of :: "pyfloat \<Rightarrow> pyfloat \<Rightarrow> pyfloat option \<Rightarrow> bool \<Rightarrow> signals" where
  "signals_of velocity zscore geo new_device =
    \<lparr>s_v15 = fl_min (fl_div velocity (Fin velocity_max_normal)) (Fin 1),
     s_amount = fl_min (fl_div (fl_abs zscore) (Fin zscore_max_normal)) (Fin 1),
     s_geo = fl_min (fl_div (if fl_truthy geo then the geo else Fin 0) (Fin geo_max_normal_km)) (Fin 1),
     s_device = Fin (if new_device then 1 else 0)\<rparr>"

definition score_signals :: "signals \<Rightarrow> scoring_config \<Rightarrow> pyfloat" where
  "score_signals s cfg = compute_risk_score (s_v15 s) (s_amount s) (s_geo s) (s_device s) (sc_weights cfg)"

definition geo_triggered :: "geo_features \<Rightarrow> bool" where
  "geo_triggered g = geo_hard_rule (g_distance g) (compute_implied_speed_kmh (g_distance g) (g_minutes g))"

definition flag_decision :: "scoring_config \<Rightarrow> signals \<Rightarrow> geo_features \<Rightarrow> bool" where
  "flag_decision cfg s g =
    (fl_lt (Fin (sc_flag_threshold cfg)) (score_signals s cfg) \<or>
     geo_triggered g \<or> fl_le (Fin (sc_hard_amount cfg)) (s_amount s) \<or> fl_le (Fin (sc_hard_velocity cfg)) (s_v15 s))"

text \<open>What the code computes for one transaction, before it is laid out as a row.\<close>

definition row_fields :: "scoring_config \<Rightarrow> pydict \<Rightarrow> txn \<Rightarrow> geo_features \<Rightarrow> int \<Rightarrow> string list \<Rightarrow>
    string \<Rightarrow> string \<Rightarrow> pyval \<Rightarrow> pyval \<Rightarrow> pyfloat \<Rightarrow> pyfloat \<Rightarrow> signals \<Rightarrow> pydict" where
  "row_fields cfg baseline row g velocity_15min user_devices uid now avg_amt stddev_amt amount zscore s =
    [(''snapshot_id'', PStr uid),
     (''transaction_id'', tx_id row),
     (''user_id'', PStr (tx_user row)),
     (''user_surrogate_key'', dict_get baseline ''surrogate_key'' (PStr '''')),
     (''computed_at'', PStr now),
     (''transaction_ts'', if ts_truthy (tx_ts row) then PStr (stamp_text (the (tx_ts row))) else PNone),
     (''velocity_5min'', PNone),
     (''velocity_15min'', PInt velocity_15min),
     (''velocity_1hr'', PNone),
     (''velocity_24hr'', PNone),
     (''txn_amount'', PFloat amount),
     (''user_avg_amount'', avg_amt),
     (''user_stddev_amount'', stddev_amt),
     (''amount_zscore'', PFloat (fl_round 4 zscore)),
     (''prev_transaction_city'', g_city g),
     (''prev_transaction_ts'', g_ts g),
     (''geo_distance_km'', if fl_truthy (g_distance g) then PFloat (fl_round 2 (the (g_distance g))) else PNone),
     (''time_since_last_txn_min'',
        case g_minutes g of None \<Rightarrow> PNone | Some m \<Rightarrow> if m = 0 then PNone else PFloat (fl_round 2 (Fin m))),
     (''is_new_device'', PBool (is_new_device (tx_device row) user_devices)),
     (''device_id'', opt_val (tx_device row)),
     (''city'', tx_city row),
     (''country'', tx_country row),
     (''latitude'', if fl_truthy (tx_lat row) then opt_float (tx_lat row) else PNone),
     (''longitude'', if fl_truthy (tx_lon row) then opt_float (tx_lon row) else PNone),
     (''suspect_location'', PBool (geo_triggered g)),
     (''risk_score_raw'', PFloat (score_signals s cfg)),
     (''is_flagged_for_review'', PBool (flag_decision cfg s g)),
     (''is_synthetic_fraud'', tx_synthetic row),
     (''fraud_pattern'', tx_pattern row)]"

definition build_feature_row :: "scoring_env \<Rightarrow> scoring_config \<Rightarrow> pydict \<Rightarrow> pyval \<Rightarrow> int \<Rightarrow> string list \<Rightarrow>
    string \<Rightarrow> string \<Rightarrow> bool \<Rightarrow> txn \<Rightarrow> pyexn + pydict" where
  "build_feature_row env cfg baseline last_loc velocity_15min user_devices uid now validate row =
    (let avg_amt = dict_get baseline ''avg_transaction_amt'' (PFloat (Fin 50));
         stddev_amt = dict_get baseline ''stddev_transaction_amt'' (PFloat (Fin 20));
         amount = (case tx_amount row of None \<Rightarrow> Fin 0 | Some a \<Rightarrow> a)
     in and_then (zscore_of avg_amt stddev_amt amount) (\<lambda>zscore.
        and_then (arith (PInt velocity_15min)) (\<lambda>velocity.
          let g = geo_of env last_loc row;
              s = signals_of velocity zscore (g_distance g) (is_new_device (tx_device row) user_devices);
              fd = row_fields cfg baseline row g velocity_15min user_devices uid now avg_amt stddev_amt amount zscore s
          in if validate then and_then (validate_feature_row fd) (\<lambda>_. Inr fd) else Inr fd)))"

definition snowflake_row_keys :: "string list" where
  "snowflake_row_keys =
    [''snapshot_id'', ''transaction_id'', ''user_id'', ''user_surrogate_key'',
     ''velocity_5min'', ''velocity_15min'', ''velocity_1hr'', ''velocity_24hr'',
     ''txn_amount'', ''user_avg_amount'', ''user_stddev_amount'', ''amount_zscore'',
     ''prev_transaction_city'', ''prev_transaction_ts'', ''geo_distance_km'',
     ''time_since_last_txn_min'', ''is_new_device'', ''device_id'',
     ''risk_score_raw'', ''is_flagged_for_review'', ''is_synthetic_fraud'', ''fraud_pattern'']"

fun pick :: "pydict \<Rightarrow> string list \<Rightarrow> pyexn + pydict" where
  "pick fd [] = Inr []"
| "pick fd (k # ks) = and_then (item fd k) (\<lambda>v. and_then (pick fd ks) (\<lambda>rest. Inr ((k, v) # rest)))"

definition to_snowflake_row :: "pydict \<Rightarrow> string \<Rightarrow> pyexn + pydict" where
  "to_snowflake_row fd now = and_then (pick fd snowflake_row_keys) (\<lambda>row. Inr (row @ [(''computed_at'', PStr now)]))"

section \<open>The distance\<close>

text \<open>The root's argument is half of one minus the cosine of the angle between two unit vectors.\<close>

definition hav :: "real \<Rightarrow> real \<Rightarrow> real \<Rightarrow> real \<Rightarrow> real" where
  "hav p1 l1 p2 l2 = (sin ((p2 - p1) / 2))\<^sup>2 + cos p1 * cos p2 * (sin ((l2 - l1) / 2))\<^sup>2"

lemma sin_half_sq: "(sin (x / 2))\<^sup>2 = (1 - cos x) / (2 :: real)"
  using cos_double_sin [of "x / 2"] by simp

lemma hav_alt: "hav p1 l1 p2 l2 = (1 - (sin p1 * sin p2 + cos p1 * cos p2 * cos (l2 - l1))) / 2"
  unfolding hav_def sin_half_sq by (simp add: cos_diff [of p2 p1] field_simps)

lemma unit_product:
  assumes "\<bar>k\<bar> \<le> 1"
  shows "\<bar>sin p1 * sin p2 + cos p1 * cos p2 * k\<bar> \<le> (1 :: real)"
proof -
  have "\<bar>cos p1 * cos p2 * k\<bar> \<le> \<bar>cos p1 * cos p2\<bar>"
    using assms by (simp add: abs_mult mult_left_le)
  moreover have "\<bar>sin p1 * sin p2 + cos p1 * cos p2\<bar> \<le> 1" "\<bar>sin p1 * sin p2 - cos p1 * cos p2\<bar> \<le> 1"
    using abs_cos_le_one [of "p1 - p2"] abs_cos_le_one [of "p1 + p2"] by (simp_all add: cos_diff cos_add abs_minus_commute add.commute)
  ultimately show ?thesis by linarith
qed

lemma hav_bounds: "0 \<le> hav p1 l1 p2 l2" "hav p1 l1 p2 l2 \<le> 1"
  using unit_product [of "cos (l2 - l1)" p1 p2] by (auto simp: hav_alt)

lemma hav_commute: "hav p1 l1 p2 l2 = hav p2 l2 p1 l1"
  using cos_minus [of "l2 - l1"] by (simp add: hav_alt mult.commute)

definition km_between :: "real \<Rightarrow> real \<Rightarrow> real \<Rightarrow> real \<Rightarrow> real" where
  "km_between lat1 lon1 lat2 lon2 = 6371 * 2 *
     arcsin (sqrt (hav (lat1 * (pi / 180)) (lon1 * (pi / 180)) (lat2 * (pi / 180)) (lon2 * (pi / 180))))"

lemma haversine_finite:
  "haversine_distance (PFloat (Fin lat1)) (PFloat (Fin lon1)) (PFloat (Fin lat2)) (PFloat (Fin lon2))
    = Inr (Some (Fin (km_between lat1 lon1 lat2 lon2)))"
proof -
  let ?h = "hav (lat1 * (pi / 180)) (lon1 * (pi / 180)) (lat2 * (pi / 180)) (lon2 * (pi / 180))"
  have h: "\<not> ?h < 0" "\<not> sqrt ?h < -1" "\<not> 1 < sqrt ?h"
    using hav_bounds by (auto simp: not_less intro: order_trans [of "-1" 0])
  then show ?thesis
    by (simp add: haversine_distance_def arith_def Let_def radians_def half_def sqr_def fl_sub_def km_between_def)
      (simp add: hav_def power2_eq_square)
qed

lemma km_between_bounds: "0 \<le> km_between a b c d" "km_between a b c d \<le> 6371 * pi"
proof -
  let ?r = "sqrt (hav (a * (pi / 180)) (b * (pi / 180)) (c * (pi / 180)) (d * (pi / 180)))"
  have r: "0 \<le> ?r" "?r \<le> 1" "-1 \<le> ?r"
  proof -
    show "0 \<le> ?r" "?r \<le> 1" using hav_bounds by simp_all
    then show "-1 \<le> ?r" by linarith
  qed
  have "0 \<le> arcsin ?r" using arcsin_le_arcsin [of 0 ?r] r by simp
  moreover have "arcsin ?r \<le> pi / 2" using arcsin_ubound [of ?r] r by simp
  ultimately show "0 \<le> km_between a b c d" "km_between a b c d \<le> 6371 * pi"
    by (simp_all add: km_between_def)
qed

section \<open>Rounding and the score\<close>

lemma round_bounds: "\<lfloor>x\<rfloor> \<le> round_half_even x" "round_half_even x \<le> \<lfloor>x\<rfloor> + 1"
  by (simp_all add: round_half_even_def Let_def)

lemma round_half_even_int [simp]: "round_half_even (of_int n) = n"
  by (simp add: round_half_even_def)

lemma round_half_even_mono:
  assumes "x \<le> y" shows "round_half_even x \<le> round_half_even y"
proof (cases "\<lfloor>x\<rfloor> = \<lfloor>y\<rfloor>")
  case True
  then show ?thesis using assms by (auto simp: round_half_even_def Let_def)
next
  case False
  then have "\<lfloor>x\<rfloor> + 1 \<le> \<lfloor>y\<rfloor>" using floor_mono [OF assms] by simp
  then show ?thesis using round_bounds(2) [of x] round_bounds(1) [of y] by linarith
qed

definition round_to :: "nat \<Rightarrow> real \<Rightarrow> real" where
  "round_to n a = of_int (round_half_even (a * 10 ^ n)) / 10 ^ n"

lemma fl_round_Fin: "fl_round n (Fin a) = Fin (round_to n a)"
  by (simp add: round_to_def)

lemma round_to_mono: "a \<le> b \<Longrightarrow> round_to n a \<le> round_to n b"
  by (simp add: round_to_def divide_right_mono round_half_even_mono)

lemma round_to_int [simp]: "round_to n 0 = 0" "round_to n 1 = 1"
proof -
  show "round_to n 0 = 0" using round_half_even_int [of 0] by (simp add: round_to_def)
  have "round_half_even (of_int (10 ^ n)) = (10 :: int) ^ n" by (rule round_half_even_int)
  then show "round_to n 1 = 1" by (simp add: round_to_def)
qed

definition weighted :: "weights \<Rightarrow> real \<Rightarrow> real \<Rightarrow> real \<Rightarrow> real \<Rightarrow> real" where
  "weighted w v a g d = w_velocity w * v + w_amount w * a + w_geo w * g + w_device w * d"

lemma fl_min_Fin [simp]: "fl_min (Fin a) (Fin b) = Fin (min a b)"
  by (simp add: fl_min_def min_def)

lemma risk_score_Fin:
  "compute_risk_score (Fin v) (Fin a) (Fin g) (Fin d) w = Fin (round_to 4 (min (weighted w v a g d) 1))"
  by (simp add: compute_risk_score_def Let_def weighted_def fl_round_Fin del: fl_round.simps)

lemma weighted_mono:
  assumes "0 \<le> w_velocity w" "0 \<le> w_amount w" "0 \<le> w_geo w" "0 \<le> w_device w"
    and "v \<le> v'" "a \<le> a'" "g \<le> g'" "d \<le> d'"
  shows "weighted w v a g d \<le> weighted w v' a' g' d'"
  using assms by (simp add: weighted_def add_mono mult_left_mono)

section \<open>What a built row holds\<close>

lemma build_feature_rowE:
  assumes "build_feature_row env cfg baseline last_loc v devices uid now validate row = Inr fd"
  obtains z vf where "zscore_of (dict_get baseline ''avg_transaction_amt'' (PFloat (Fin 50)))
      (dict_get baseline ''stddev_transaction_amt'' (PFloat (Fin 20))) (case tx_amount row of None \<Rightarrow> Fin 0 | Some a \<Rightarrow> a) = Inr z"
    "arith (PInt v) = Inr vf"
    "fd = row_fields cfg baseline row (geo_of env last_loc row) v devices uid now
       (dict_get baseline ''avg_transaction_amt'' (PFloat (Fin 50)))
       (dict_get baseline ''stddev_transaction_amt'' (PFloat (Fin 20))) (case tx_amount row of None \<Rightarrow> Fin 0 | Some a \<Rightarrow> a) z
       (signals_of vf z (g_distance (geo_of env last_loc row)) (is_new_device (tx_device row) devices))"
    "validate \<longrightarrow> validate_feature_row fd = Inr ()"
  using assms by (auto simp: build_feature_row_def Let_def split: if_splits)

lemma arith_int: "arith (PInt v) = Inr x \<Longrightarrow> x = Fin (of_int v)"
  by (auto simp: arith_def split: if_splits)

lemma row_field:
  "map_of (row_fields cfg b row g v devs uid now avg sd amount z s) ''txn_amount'' = Some (PFloat amount)"
  "map_of (row_fields cfg b row g v devs uid now avg sd amount z s) ''amount_zscore'' = Some (PFloat (fl_round 4 z))"
  "map_of (row_fields cfg b row g v devs uid now avg sd amount z s) ''risk_score_raw'' = Some (PFloat (score_signals s cfg))"
  "map_of (row_fields cfg b row g v devs uid now avg sd amount z s) ''fraud_pattern'' = Some (tx_pattern row)"
  "map_of (row_fields cfg b row g v devs uid now avg sd amount z s) ''suspect_location'' = Some (PBool (geo_triggered g))"
  "map_of (row_fields cfg b row g v devs uid now avg sd amount z s) ''is_flagged_for_review'' = Some (PBool (flag_decision cfg s g))"
  "map_of (row_fields cfg b row g v devs uid now avg sd amount z s) ''user_id'' = Some (PStr (tx_user row))"
  "map_of (row_fields cfg b row g v devs uid now avg sd amount z s) ''geo_distance_km'' =
     Some (if fl_truthy (g_distance g) then PFloat (fl_round 2 (the (g_distance g))) else PNone)"
  by (simp_all add: row_fields_def)

lemma validate_amount_ok:
  "validate_amount (PFloat f) field = Inr w \<longleftrightarrow> w = PFloat f \<and> (\<exists>a. f = Fin a \<and> 0 \<le> a)"
  by (cases f) (auto simp: validate_amount_def refuse_def huge_int_def)

lemma identified_pattern_ok:
  "validate_identified_pattern p field = Inr w \<longleftrightarrow>
    w = p \<and> p \<in> {PNone, PStr ''NONE''} \<union> PStr ` {''VELOCITY_SPIKE'', ''GEO_JUMP'', ''NEW_DEVICE'', ''AMOUNT_ANOMALY''}"
  by (auto simp: validate_identified_pattern_def enum_ok)

lemma unit_interval_Fin: "unit_interval (PFloat (Fin x)) \<longleftrightarrow> 0 \<le> x \<and> x \<le> 1"
  by (simp add: unit_interval_def)

lemma check_zscore_ok: "check_zscore (PFloat f) = Inr () \<longleftrightarrow> (\<exists>z. f = Fin z)"
  by (cases f) (auto simp: check_zscore_def refuse_def huge_int_def)

section \<open>Properties\<close>

text \<open>The haversine distance of two real positions is a number: no argument of the square root or of the
  arc sine leaves its domain, the result lies between 0 and half the circumference of the earth, it is
  the same in both directions and zero from a place to itself.\<close>

theorem haversine_range:
  "\<exists>d. haversine_distance (PFloat (Fin a)) (PFloat (Fin b)) (PFloat (Fin a')) (PFloat (Fin b')) = Inr (Some (Fin d)) \<and>
     haversine_distance (PFloat (Fin a')) (PFloat (Fin b')) (PFloat (Fin a)) (PFloat (Fin b)) = Inr (Some (Fin d)) \<and>
     haversine_distance (PFloat (Fin a)) (PFloat (Fin b)) (PFloat (Fin a)) (PFloat (Fin b)) = Inr (Some (Fin 0)) \<and>
     0 \<le> d \<and> d \<le> 6371 * pi"
proof (intro exI conjI)
  show "haversine_distance (PFloat (Fin a')) (PFloat (Fin b')) (PFloat (Fin a)) (PFloat (Fin b))
      = Inr (Some (Fin (km_between a b a' b')))"
    unfolding haversine_finite km_between_def by (subst hav_commute) (rule refl)
  show "haversine_distance (PFloat (Fin a)) (PFloat (Fin b)) (PFloat (Fin a)) (PFloat (Fin b)) = Inr (Some (Fin 0))"
    unfolding haversine_finite km_between_def by (simp add: hav_def)
qed (rule haversine_finite km_between_bounds)+

text \<open>C23: No corrupt number leaves the scoring step: in every row that a validated build returns the amount
  is a finite number that is not negative, the z-score is finite, the risk score lies between 0 and 1, and
  the pattern is absent, NONE or one of the four labels.\<close>

theorem validated_row:
  assumes "build_feature_row env cfg baseline last_loc v devices uid now True row = Inr fd"
  shows "\<exists>amount zscore risk p.
    map_of fd ''txn_amount'' = Some (PFloat (Fin amount)) \<and> 0 \<le> amount \<and>
    map_of fd ''amount_zscore'' = Some (PFloat (Fin zscore)) \<and>
    map_of fd ''risk_score_raw'' = Some (PFloat (Fin risk)) \<and> 0 \<le> risk \<and> risk \<le> 1 \<and>
    map_of fd ''fraud_pattern'' = Some p \<and>
    p \<in> {PNone, PStr ''NONE''} \<union> PStr ` {''VELOCITY_SPIKE'', ''GEO_JUMP'', ''NEW_DEVICE'', ''AMOUNT_ANOMALY''}"
  using assms
proof (rule build_feature_rowE)
  fix z vf
  assume fd: "fd = row_fields cfg baseline row (geo_of env last_loc row) v devices uid now
       (dict_get baseline ''avg_transaction_amt'' (PFloat (Fin 50)))
       (dict_get baseline ''stddev_transaction_amt'' (PFloat (Fin 20))) (case tx_amount row of None \<Rightarrow> Fin 0 | Some a \<Rightarrow> a) z
       (signals_of vf z (g_distance (geo_of env last_loc row)) (is_new_device (tx_device row) devices))"
    and v: "True \<longrightarrow> validate_feature_row fd = Inr ()"
  show ?thesis
    using v unfolding fd validate_feature_row_def item_def row_field option.case and_then.simps
    by (auto simp: validate_amount_ok validate_probability_ok check_zscore_ok identified_pattern_ok unit_interval_def
        row_field)
qed

text \<open>A row is flagged exactly when its risk score exceeds 0.6 or one of the hard rules fires: five or more
  transactions in the window, an amount 2.85 deviations or more from the user's mean, or the geo rule; the
  latter fires at 3000 km or more, or at a speed above 900 km/h over at least 100 km.\<close>

theorem flagged_iff:
  assumes "build_feature_row env default_config baseline last_loc v devices uid now validate row = Inr fd"
    and "tx_amount row = Some (Fin a)" "0 < sd"
    and "dict_get baseline ''avg_transaction_amt'' (PFloat (Fin 50)) = PFloat (Fin avg)"
    and "dict_get baseline ''stddev_transaction_amt'' (PFloat (Fin 20)) = PFloat (Fin sd)"
    and "g_distance (geo_of env last_loc row) = map_option Fin km"
    and "g_minutes (geo_of env last_loc row) = mins"
  shows "\<exists>risk. map_of fd ''risk_score_raw'' = Some (PFloat risk) \<and>
    map_of fd ''is_flagged_for_review'' = Some (PBool
      (fl_lt (Fin (60 / 100)) risk \<or> 5 \<le> v \<or> 2.85 \<le> \<bar>a - avg\<bar> / sd \<or>
       (\<exists>d. km = Some d \<and> (3000 \<le> d \<or> 100 \<le> d \<and> (\<exists>t. mins = Some t \<and> 0 < t \<and> 900 < d / (t / 60))))))"
  using assms(1)
proof (rule build_feature_rowE)
  let ?g = "geo_of env last_loc row"
  fix z vf
  let ?s = "signals_of vf z (g_distance ?g) (is_new_device (tx_device row) devices)"
  assume z: "zscore_of (dict_get baseline ''avg_transaction_amt'' (PFloat (Fin 50)))
      (dict_get baseline ''stddev_transaction_amt'' (PFloat (Fin 20))) (case tx_amount row of None \<Rightarrow> Fin 0 | Some a \<Rightarrow> a) = Inr z"
    and vf: "arith (PInt v) = Inr vf"
    and fd: "fd = row_fields default_config baseline row ?g v devices uid now
       (dict_get baseline ''avg_transaction_amt'' (PFloat (Fin 50)))
       (dict_get baseline ''stddev_transaction_amt'' (PFloat (Fin 20))) (case tx_amount row of None \<Rightarrow> Fin 0 | Some a \<Rightarrow> a) z ?s"
  have z': "z = Fin ((a - avg) / sd)"
    using z assms(2-5) by (simp add: zscore_of_def arith_def fl_sub_def)
  have geo: "geo_triggered ?g \<longleftrightarrow> (\<exists>d. km = Some d \<and> (3000 \<le> d \<or> 100 \<le> d \<and> (\<exists>t. mins = Some t \<and> 0 < t \<and> 900 < d / (t / 60))))"
    using assms(6,7) by (cases km; cases mins)
      (auto simp: geo_triggered_def geo_hard_rule_def compute_implied_speed_kmh_def geo_min_jump_km_def
        impossible_speed_kmh_def speed_rule_min_km_def)
  have am: "fl_le (Fin (sc_hard_amount default_config)) (s_amount ?s) \<longleftrightarrow> 2.85 \<le> \<bar>a - avg\<bar> / sd"
    using \<open>0 < sd\<close> by (simp add: default_config_def signals_of_def z' zscore_max_normal_def min_def abs_divide) (simp add: field_simps)
  have ve: "fl_le (Fin (sc_hard_velocity default_config)) (s_v15 ?s) \<longleftrightarrow> 5 \<le> v"
    by (simp add: default_config_def signals_of_def arith_int [OF vf] velocity_max_normal_def min_def)
  have th: "sc_flag_threshold default_config = 60 / 100" by (simp add: default_config_def)
  show ?thesis unfolding fd row_field flag_decision_def geo am ve th by blast
qed

text \<open>The risk score is a probability and it is monotone: signals between 0 and 1 give a score between 0 and
  1, and raising any of them never lowers it.\<close>

theorem risk_score_monotone:
  assumes "\<forall>x\<in>{v, a, g, d}. 0 \<le> x" "v \<le> v'" "a \<le> a'" "g \<le> g'" "d \<le> d'"
  shows "\<exists>r r'. compute_risk_score (Fin v) (Fin a) (Fin g) (Fin d) risk_weights = Fin r \<and>
    compute_risk_score (Fin v') (Fin a') (Fin g') (Fin d') risk_weights = Fin r' \<and> 0 \<le> r \<and> r \<le> r' \<and> r' \<le> 1"
proof -
  have w: "0 \<le> w_velocity risk_weights" "0 \<le> w_amount risk_weights" "0 \<le> w_geo risk_weights" "0 \<le> w_device risk_weights"
    by (simp_all add: risk_weights_def)
  have "weighted risk_weights 0 0 0 0 \<le> weighted risk_weights v a g d"
    "weighted risk_weights v a g d \<le> weighted risk_weights v' a' g' d'"
    using assms by (auto intro!: weighted_mono w)
  then have "min (weighted risk_weights v a g d) 1 \<le> min (weighted risk_weights v' a' g' d') 1"
    "0 \<le> min (weighted risk_weights v a g d) 1" "min (weighted risk_weights v' a' g' d') 1 \<le> 1"
    by (auto simp: weighted_def)
  from this [THEN round_to_mono [where n = 4]] show ?thesis by (simp add: risk_score_Fin)
qed

lemma risk_score_monotone_witness:
  "\<exists>r r'. compute_risk_score (Fin 0) (Fin (1 / 2)) (Fin 0) (Fin 1) risk_weights = Fin r \<and>
    compute_risk_score (Fin 1) (Fin (1 / 2)) (Fin 0) (Fin 1) risk_weights = Fin r' \<and> 0 \<le> r \<and> r \<le> r' \<and> r' \<le> 1"
  by (rule risk_score_monotone) auto

text \<open>The ordering guard: an event that is not later than the user's stored location gets no distance and no
  time, and its location is never suspect.\<close>

theorem stale_event_has_no_distance:
  assumes "build_feature_row env cfg baseline (PDict loc) v devices uid now validate row = Inr fd"
    and "minutes_since env (dict_get loc ''ts'' PNone) (tx_ts row) = Some m" "m \<le> 0"
  shows "map_of fd ''geo_distance_km'' = Some PNone \<and> map_of fd ''suspect_location'' = Some (PBool False)"
proof -
  have g: "g_distance (geo_of env (PDict loc) row) = None"
    using assms(2,3) by (simp add: geo_of_def no_geo_def Let_def as_dict_def split: sum.splits)
  show ?thesis
    using assms(1) by (rule build_feature_rowE)
      (simp only: row_field, simp add: g fl_truthy_def geo_triggered_def geo_hard_rule_def)
qed

lemma snowflake_keys_present:
  "\<forall>k \<in> set snowflake_row_keys. k \<in> fst ` set (row_fields cfg b row g v devs uid now avg sd amount z s)"
  by (simp add: snowflake_row_keys_def row_fields_def)

lemma pick_ok:
  "\<forall>k \<in> set ks. k \<in> fst ` set fd \<Longrightarrow> pick fd ks = Inr (map (\<lambda>k. (k, the (map_of fd k))) ks)"
proof (induction ks)
  case (Cons k ks)
  then have "map_of fd k \<noteq> None" by (simp add: map_of_eq_None_iff)
  then show ?case using Cons by (auto simp: item_def)
qed simp

definition contract_cols :: "string list" where
  "contract_cols = map fst (the (map_of tables ''FEATURES.FACT_FEATURE_SNAPSHOTS''))"

lemma contract_columns: "columns ''FEATURES.FACT_FEATURE_SNAPSHOTS'' = Inr contract_cols"
  by (simp add: columns_def contract_cols_def tables_def)

lemma snowflake_row_columns:
  "distinct snowflake_row_keys" "''computed_at'' \<notin> set snowflake_row_keys"
  "set (map upper (snowflake_row_keys @ [''computed_at''])) = set contract_cols"
  "Suc (length snowflake_row_keys) = length contract_cols"
  by code_simp+

definition sf_row_of :: "pydict \<Rightarrow> string \<Rightarrow> pydict" where
  "sf_row_of fd later = map (\<lambda>k. (k, the (map_of fd k))) snowflake_row_keys @ [(''computed_at'', PStr later)]"

lemma to_snowflake_built:
  "build_feature_row env cfg baseline last_loc v devices uid now validate row = Inr fd \<Longrightarrow>
    to_snowflake_row fd later = Inr (sf_row_of fd later)"
  by (erule build_feature_rowE) (simp add: to_snowflake_row_def sf_row_of_def pick_ok [OF snowflake_keys_present])

text \<open>The row for the warehouse always exists, its columns are those of the schema contract, each once, and
  every column but the write time has the value of the feature row.\<close>

theorem snowflake_row_contract:
  assumes "build_feature_row env cfg baseline last_loc v devices uid now validate row = Inr fd"
  shows "\<exists>sf cs. to_snowflake_row fd later = Inr sf \<and> columns ''FEATURES.FACT_FEATURE_SNAPSHOTS'' = Inr cs \<and>
    distinct (map fst sf) \<and> set (map (upper \<circ> fst) sf) = set cs \<and> length sf = length cs \<and>
    (\<forall>(k, x) \<in> set sf. x = (if k = ''computed_at'' then PStr later else the (map_of fd k)))"
  using to_snowflake_built [OF assms, of later] contract_columns snowflake_row_columns
  by (simp add: sf_row_of_def image_image comp_def)

section \<open>Concrete rows\<close>

definition demo_env :: scoring_env where
  "demo_env = \<lparr>se_fromiso = (\<lambda>s. if s = ''2025-06-01 12:00:00''
     then Some \<lparr>year = 2025, month = 6, day = 1, hour = 12, minute = 0, second = 0, microsecond = 0, utcoffset = None\<rparr>
     else None), se_str = (\<lambda>_. [])\<rparr>"

definition demo_txn :: txn where
  "demo_txn = \<lparr>tx_id = PStr ''t1'', tx_user = ''u1'', tx_device = Some ''d9'', tx_amount = Some (Fin 50), tx_city = PStr ''Toronto'',
     tx_country = PStr ''CA'', tx_lat = Some (Fin 43), tx_lon = Some (Fin (-79)), tx_ts = Some (Stamp_Text ''2025-06-01 12:00:00''),
     tx_synthetic = PBool False, tx_pattern = PNone\<rparr>"

definition demo_loc :: pydict where
  "demo_loc = [(''lat'', PFloat (Fin 43)), (''lon'', PFloat (Fin (-79))), (''city'', PStr ''Toronto''), (''ts'', PStr ''2025-06-01 12:00:00'')]"

lemma arith_small:
  assumes "\<bar>v\<bar> < 2 ^ 53" shows "arith (PInt v) = Inr (Fin (of_int v))"
proof -
  have "max_double_bound = 2 ^ 970 * (2 ^ 54 - 1)"
    by (simp add: max_double_bound_def right_diff_distrib flip: power_add)
  moreover have "(1 :: real) * (2 ^ 54 - 1) \<le> 2 ^ 970 * (2 ^ 54 - 1)" by (intro mult_right_mono) simp_all
  moreover have "real_of_int \<bar>v\<bar> < real_of_int (2 ^ 53)" using assms by (simp only: of_int_less_iff)
  ultimately have "\<bar>real_of_int v\<bar> < max_double_bound" by simp
  then show ?thesis by (simp add: arith_def)
qed

lemma demo_score:
  "validate_feature_row (row_fields default_config [] demo_txn no_geo 6 [''d9''] ''s1'' ''now'' (PFloat (Fin 50))
     (PFloat (Fin 20)) (Fin 50) (Fin 0) (signals_of (Fin 6) (Fin 0) None False)) = Inr ()"
proof -
  have "score_signals (signals_of (Fin 6) (Fin 0) None False) default_config = Fin (3 / 10)"
    by (simp add: score_signals_def signals_of_def default_config_def velocity_max_normal_def zscore_max_normal_def
        geo_max_normal_km_def fl_truthy_def risk_score_Fin weighted_def risk_weights_def round_to_def round_half_even_def)
  then show ?thesis
    by (simp add: validate_feature_row_def item_def row_field validate_amount_ok validate_probability_ok
        check_zscore_ok identified_pattern_ok unit_interval_Fin demo_txn_def fl_round_Fin del: fl_round.simps)
qed

lemma demo_built:
  "is_ok (build_feature_row demo_env default_config [] PNone 6 [''d9''] ''s1'' ''now'' True demo_txn)"
proof -
  have "geo_of demo_env PNone demo_txn = no_geo" by (simp add: geo_of_def)
  moreover have "g_distance no_geo = None" by (simp add: no_geo_def)
  moreover have "is_new_device (tx_device demo_txn) [''d9''] = False" "tx_amount demo_txn = Some (Fin 50)"
    by (simp_all add: demo_txn_def is_new_device_def)
  ultimately show ?thesis
    using demo_score
    by (simp add: build_feature_row_def Let_def zscore_of_def dict_get_def arith_small arith_def [of "PFloat f" for f] fl_sub_def)
qed

lemma demo_stale:
  "minutes_since demo_env (dict_get demo_loc ''ts'' PNone) (tx_ts demo_txn) = Some 0"
proof -
  have "replace_all ''Z'' [] ''2025-06-01 12:00:00'' = ''2025-06-01 12:00:00''" by code_simp
  then show ?thesis
    by (simp add: minutes_since_def demo_loc_def dict_get_def ts_truthy_def demo_txn_def demo_env_def str_val_def
        stamp_moment_def seconds_between_def)
qed

lemma validated_row_witness:
  "\<exists>fd amount zscore risk p. build_feature_row demo_env default_config [] PNone 6 [''d9''] ''s1'' ''now'' True demo_txn = Inr fd \<and>
    map_of fd ''txn_amount'' = Some (PFloat (Fin amount)) \<and> 0 \<le> amount \<and>
    map_of fd ''amount_zscore'' = Some (PFloat (Fin zscore)) \<and>
    map_of fd ''risk_score_raw'' = Some (PFloat (Fin risk)) \<and> 0 \<le> risk \<and> risk \<le> 1 \<and> map_of fd ''fraud_pattern'' = Some p"
  using demo_built validated_row unfolding is_ok_conv by blast

lemma flagged_iff_witness:
  "\<exists>fd. build_feature_row demo_env default_config [] PNone 6 [''d9''] ''s1'' ''now'' True demo_txn = Inr fd \<and>
    map_of fd ''is_flagged_for_review'' = Some (PBool True)"
proof -
  obtain fd where fd: "build_feature_row demo_env default_config [] PNone 6 [''d9''] ''s1'' ''now'' True demo_txn = Inr fd"
    using demo_built unfolding is_ok_conv by blast
  from flagged_iff [OF this, of 50 20 50 None None] fd show ?thesis
    by (auto simp: demo_txn_def dict_get_def geo_of_def no_geo_def)
qed

lemma stale_event_has_no_distance_witness:
  "\<exists>fd. build_feature_row demo_env default_config [] (PDict demo_loc) 0 [] ''s1'' ''now'' False demo_txn = Inr fd \<and>
    map_of fd ''geo_distance_km'' = Some PNone \<and> map_of fd ''suspect_location'' = Some (PBool False)"
proof -
  have "is_ok (build_feature_row demo_env default_config [] (PDict demo_loc) 0 [] ''s1'' ''now'' False demo_txn)"
    by (simp add: build_feature_row_def Let_def zscore_of_def dict_get_def arith_small arith_def [of "PFloat f" for f] demo_txn_def fl_sub_def)
  then obtain fd where fd: "build_feature_row demo_env default_config [] (PDict demo_loc) 0 [] ''s1'' ''now'' False demo_txn = Inr fd"
    unfolding is_ok_conv by blast
  from stale_event_has_no_distance [OF fd demo_stale] fd show ?thesis by simp
qed

lemma snowflake_row_contract_witness:
  "\<exists>fd sf. build_feature_row demo_env default_config [] PNone 6 [''d9''] ''s1'' ''now'' True demo_txn = Inr fd \<and>
    to_snowflake_row fd ''later'' = Inr sf \<and> distinct (map fst sf)"
  using demo_built snowflake_row_contract unfolding is_ok_conv by blast

end
