(* ===== verification/Feature_Engine.thy ===== *)
theory Feature_Engine
  imports Scoring
begin

text \<open>
  \<open>stream_processing/feature_engine.py\<close>: the feature sinks (Redis, S3, Snowflake) and the step that the
  stream runs for every micro-batch.  Redis is the map of its live keys: a value is a JSON text, given by what
  it parses to, or a text that does not parse.  A pipeline takes effect as a whole.  Failures of the servers
  are arguments: \<open>Some e\<close> for a call that raises \<open>e\<close>.  Expiry of keys and the Spark queries around the step are
  not modelled.
\<close>

section \<open>Configuration\<close>

record engine_config =
  ec_scoring :: scoring_config
  ec_flush_batches :: nat
  ec_flush_rows :: nat
  ec_prefix :: string
  ec_direct :: bool

text \<open>\<open>for_testing\<close>: smaller flush thresholds\<close>

definition for_testing :: "engine_config \<Rightarrow> engine_config" where
  "for_testing c = c\<lparr>ec_flush_batches := 2, ec_flush_rows := 5000\<rparr>"

definition production_config :: engine_config where
  "production_config = \<lparr>ec_scoring = default_config, ec_flush_batches = 5, ec_flush_rows = 50000,
     ec_prefix = ''features'', ec_direct = False\<rparr>"

definition velocity_flag_threshold :: int where
  "velocity_flag_threshold = 5"

section \<open>The online store\<close>

datatype blob = Json pyval | Garbled string

type_synonym redis = "string \<rightharpoonup> blob"

definition user_key :: "string \<Rightarrow> string \<Rightarrow> string" where
  "user_key uid kind = ''user:'' @ uid @ '':'' @ kind"

text \<open>\<open>json.loads\<close> of a stored text; an empty text and a missing key give \<open>None\<close>.\<close>

definition parsed :: "blob option \<Rightarrow> pyval" where
  "parsed b = (case b of Some (Json v) \<Rightarrow> v | _ \<Rightarrow> PNone)"

definition get_last_location :: "bool \<Rightarrow> pyexn option \<Rightarrow> string \<Rightarrow> redis \<Rightarrow> pyval" where
  "get_last_location live fault uid r =
    (if \<not> live \<or> fault \<noteq> None then PNone else parsed (r (user_key uid ''location'')))"

definition get_last_locations_batch :: "bool \<Rightarrow> pyexn option \<Rightarrow> string list \<Rightarrow> redis \<Rightarrow> string \<rightharpoonup> pyval" where
  "get_last_locations_batch live fault uids r =
    (if \<not> live then Map.empty
     else (\<lambda>u. if u \<in> set uids
               then Some (if fault \<noteq> None then PNone else parsed (r (user_key u ''location''))) else None))"

text \<open>\<open>int(v)\<close>\<close>

definition py_int :: "pyval \<Rightarrow> pyexn + int" where
  "py_int v =
    (case v of
       PBool b \<Rightarrow> Inr (if b then 1 else 0)
     | PInt i \<Rightarrow> Inr i
     | PFloat (Fin x) \<Rightarrow> Inr (if 0 \<le> x then \<lfloor>x\<rfloor> else \<lceil>x\<rceil>)
     | PFloat NaN \<Rightarrow> Inl (Exn ValueError ''cannot convert float NaN to integer'')
     | PFloat _ \<Rightarrow> Inl (Exn (OtherExn ''OverflowError'') ''cannot convert float infinity to integer'')
     | PStr s \<Rightarrow> (case parse_int s of Some i \<Rightarrow> Inr i | None \<Rightarrow> Inl (Exn ValueError ''invalid literal for int()''))
     | _ \<Rightarrow> Inl (Exn TypeError ''int() argument must be a string, a bytes-like object or a real number''))"

text \<open>One user's velocity: a type or value error counts as no velocity; a payload that is not an object, or
  an infinite one, is an error that is not handled.\<close>

definition velocity_of :: "blob option \<Rightarrow> pyexn + int" where
  "velocity_of b =
    (case b of
       None \<Rightarrow> Inr 0
     | Some (Garbled _) \<Rightarrow> Inr 0
     | Some (Json (PDict d)) \<Rightarrow>
        (case py_int (dict_get d ''velocity_15min'' (PInt 0)) of
           Inr n \<Rightarrow> Inr n
         | Inl e \<Rightarrow> if exn_kind_of e \<in> {TypeError, ValueError} then Inr 0 else Inl e)
     | Some (Json _) \<Rightarrow> Inl (Exn (OtherExn ''AttributeError'') ''object has no attribute get''))"

fun velocities_of :: "redis \<Rightarrow> string list \<Rightarrow> pyexn + (string \<times> int) list" where
  "velocities_of r [] = Inr []"
| "velocities_of r (u # us) =
    and_then (velocity_of (r (user_key u ''velocity''))) (\<lambda>n.
    and_then (velocities_of r us) (\<lambda>rest. Inr ((u, n) # rest)))"

definition get_velocity_batch :: "bool \<Rightarrow> pyexn option \<Rightarrow> string list \<Rightarrow> redis \<Rightarrow> pyexn + (string \<times> int) list" where
  "get_velocity_batch live fault uids r =
    (if \<not> live \<or> uids = [] then Inr []
     else if fault \<noteq> None then Inr (map (\<lambda>u. (u, 0)) (remdups uids))
     else velocities_of r (remdups uids))"

record velocity_row =
  v_user :: string
  v_count :: int
  v_start :: string
  v_end :: string

definition velocity_payload :: "int \<Rightarrow> velocity_row \<Rightarrow> pydict" where
  "velocity_payload th v =
    [(''user_id'', PStr (v_user v)), (''velocity_15min'', PInt (v_count v)), (''window_start'', PStr (v_start v)),
     (''window_end'', PStr (v_end v)), (''is_flagged'', PBool (th < v_count v))]"

definition write_velocity_batch :: "bool \<Rightarrow> pyexn option \<Rightarrow> velocity_row list \<Rightarrow> int \<Rightarrow> redis \<Rightarrow> (nat, redis) out" where
  "write_velocity_batch live fault vrows th r =
    (if \<not> live \<or> vrows = [] then (Inr 0, r)
     else (case fault of
        Some e \<Rightarrow> (Inl e, r)
      | None \<Rightarrow> (Inr (length (filter (\<lambda>v. th < v_count v) vrows)),
                 fold (\<lambda>v r. r(user_key (v_user v) ''velocity'' \<mapsto> Json (PDict (velocity_payload th v)))) vrows r)))"

text \<open>The two writes for one user: the features, and the location unless it is suspect.\<close>

definition location_payload :: "pydict \<Rightarrow> pydict" where
  "location_payload fd =
    [(''lat'', dict_get fd ''latitude'' PNone), (''lon'', dict_get fd ''longitude'' PNone),
     (''city'', dict_get fd ''city'' PNone), (''ts'', dict_get fd ''transaction_ts'' PNone)]"

definition put_features :: "string \<Rightarrow> pydict \<Rightarrow> redis \<Rightarrow> redis" where
  "put_features uid fd r =
    (let r' = r(user_key uid ''features'' \<mapsto> Json (PDict fd))
     in if truthy (dict_get fd ''suspect_location'' PNone) then r'
        else r'(user_key uid ''location'' \<mapsto> Json (PDict (location_payload fd))))"

definition write_features :: "bool \<Rightarrow> pyexn option \<Rightarrow> string \<Rightarrow> pydict \<Rightarrow> redis \<Rightarrow> redis" where
  "write_features live fault uid fd r = (if \<not> live \<or> fault \<noteq> None then r else put_features uid fd r)"

text \<open>The user of a feature row; user ids are texts in the transaction schema.\<close>

definition user_of :: "pydict \<Rightarrow> string option" where
  "user_of fd = (case map_of fd ''user_id'' of Some (PStr u) \<Rightarrow> if u = [] then None else Some u | _ \<Rightarrow> None)"

definition ts_of :: "(pyval \<Rightarrow> string) \<Rightarrow> pydict \<Rightarrow> string" where
  "ts_of pystr fd = str_val pystr (dict_get fd ''transaction_ts'' (PStr []))"

text \<open>One entry per user, in the order of first appearance: the latest row, the first one among equals.\<close>

definition keep_latest :: "(pyval \<Rightarrow> string) \<Rightarrow> pydict \<Rightarrow> (string \<times> pydict) list \<Rightarrow> (string \<times> pydict) list" where
  "keep_latest pystr fd acc =
    (case user_of fd of
       None \<Rightarrow> acc
     | Some u \<Rightarrow>
        (case map_of acc u of
           None \<Rightarrow> AList.update u fd acc
         | Some old \<Rightarrow> if ts_of pystr old < ts_of pystr fd then AList.update u fd acc else acc))"

definition latest_per_user :: "(pyval \<Rightarrow> string) \<Rightarrow> pydict list \<Rightarrow> (string \<times> pydict) list" where
  "latest_per_user pystr fds = fold (keep_latest pystr) fds []"

definition write_batch :: "(pyval \<Rightarrow> string) \<Rightarrow> bool \<Rightarrow> pyexn option \<Rightarrow> pydict list \<Rightarrow> redis \<Rightarrow> (unit, redis) out" where
  "write_batch pystr live fault fds r =
    (if \<not> live \<or> fds = [] then (Inr (), r)
     else (case fault of
        Some e \<Rightarrow> (Inl e, r)
      | None \<Rightarrow> (Inr (), fold (\<lambda>(u, fd). put_features u fd) (latest_per_user pystr fds) r)))"

section \<open>Buffered staging\<close>

text \<open>The S3 writer with the bucket it writes to: one object per key, in the order of their first put; a put under a key
  that is taken replaces the object.\<close>

record s3 =
  s3_buffer :: "pydict list"
  s3_batches :: nat
  s3_objects :: "(string \<times> pydict list) list"

definition add_batch :: "pydict list \<Rightarrow> s3 \<Rightarrow> s3" where
  "add_batch sf_rows s = s\<lparr>s3_buffer := s3_buffer s @ sf_rows, s3_batches := Suc (s3_batches s)\<rparr>"

definition s3_write_batch :: "pydict list \<Rightarrow> s3 \<Rightarrow> (unit, s3) out" where
  "s3_write_batch sf_rows s = (Inr (), add_batch sf_rows s)"

definition should_flush :: "engine_config \<Rightarrow> s3 \<Rightarrow> bool" where
  "should_flush c s = (ec_flush_batches c \<le> s3_batches s \<or> ec_flush_rows c \<le> length (s3_buffer s))"

definition object_key :: "engine_config \<Rightarrow> string \<Rightarrow> string \<Rightarrow> string" where
  "object_key c stamp uid = ec_prefix c @ ''/features_'' @ stamp @ ''_'' @ take 8 uid @ ''.parquet''"

lemma object_key_inj:
  assumes "length stamp = length stamp'" "object_key c stamp uid = object_key c stamp' uid'"
  shows "stamp = stamp' \<and> take 8 uid = take 8 uid'"
  using assms by (simp add: object_key_def)

text \<open>A failure while the table is encoded or put leaves the buffer as it was.\<close>

definition s3_flush :: "engine_config \<Rightarrow> pyexn option \<Rightarrow> string \<Rightarrow> string \<Rightarrow> s3 \<Rightarrow> (string option, s3) out" where
  "s3_flush c fault stamp uid s =
    (if s3_buffer s = [] then (Inr None, s)
     else (case fault of
        Some e \<Rightarrow> (Inl e, s)
      | None \<Rightarrow> (Inr (Some (object_key c stamp uid)),
          s\<lparr>s3_buffer := [], s3_batches := 0, s3_objects := AList.update (object_key c stamp uid) (s3_buffer s) (s3_objects s)\<rparr>)))"

section \<open>Direct writes\<close>

text \<open>The Snowflake writer: whether it holds an open connection, whether that session is confined to its
  primary role, and the rows of the fact table.\<close>

record snow =
  sn_open :: bool
  sn_confined :: bool
  sn_rows :: "pydict list"

text \<open>The connection is cached before the statement that confines its session runs.\<close>

definition get_connection :: "pyexn option \<Rightarrow> pyexn option \<Rightarrow> snow \<Rightarrow> (unit, snow) out" where
  "get_connection cfault rfault s =
    (if sn_open s then (Inr (), s)
     else (case cfault of
        Some e \<Rightarrow> (Inl e, s)
      | None \<Rightarrow>
         (case rfault of
            Some e \<Rightarrow> (Inl e, s\<lparr>sn_open := True, sn_confined := False\<rparr>)
          | None \<Rightarrow> (Inr (), s\<lparr>sn_open := True, sn_confined := True\<rparr>))))"

text \<open>The insert is one transaction: a failure is rolled back and raised again; the connection stays.\<close>

definition snow_write_batch :: "pyexn option \<Rightarrow> pyexn option \<Rightarrow> pyexn option \<Rightarrow> pydict list \<Rightarrow> snow \<Rightarrow> (unit, snow) out" where
  "snow_write_batch cfault rfault fault sf_rows s =
    (if sf_rows = [] then (Inr (), s)
     else seq (get_connection cfault rfault s) (\<lambda>_ s.
       case fault of Some e \<Rightarrow> (Inl e, s) | None \<Rightarrow> (Inr (), s\<lparr>sn_rows := sn_rows s @ sf_rows\<rparr>)))"

definition snow_flush :: "snow \<Rightarrow> (string option, snow) out" where
  "snow_flush s = (Inr None, s)"

definition snow_close :: "snow \<Rightarrow> snow" where
  "snow_close s = s\<lparr>sn_open := False\<rparr>"

section \<open>Baselines\<close>

text \<open>\<open>float(x or d)\<close>\<close>

definition float_or :: "pyval \<Rightarrow> pyval \<Rightarrow> pyexn + pyval" where
  "float_or x d = and_then (to_float (if truthy x then x else d)) (\<lambda>f. Inr (PFloat f))"

definition baseline_of :: "pydict \<Rightarrow> pyexn + string \<times> pydict" where
  "baseline_of u =
    and_then (item u ''user_id'') (\<lambda>uid. and_then (item u ''surrogate_key'') (\<lambda>sk.
    and_then (item u ''avg_transaction_amt'') (\<lambda>a. and_then (float_or a (PInt 0)) (\<lambda>avg.
    and_then (item u ''stddev_transaction_amt'') (\<lambda>d. and_then (float_or d (PInt 1)) (\<lambda>sd.
    and_then (item u ''home_latitude'') (\<lambda>la. and_then (float_or la (PInt 0)) (\<lambda>lat.
    and_then (item u ''home_longitude'') (\<lambda>lo. and_then (float_or lo (PInt 0)) (\<lambda>lon.
    and_then (item u ''home_city'') (\<lambda>city. and_then (item u ''risk_tier'') (\<lambda>risk.
      Inr ((case uid of PStr s \<Rightarrow> s | _ \<Rightarrow> []),
        [(''surrogate_key'', sk), (''avg_transaction_amt'', avg), (''stddev_transaction_amt'', sd),
         (''home_latitude'', lat), (''home_longitude'', lon), (''home_city'', city), (''risk_tier'', risk)])))))))))))))"

fun load_baselines :: "pydict list \<Rightarrow> (string \<times> pydict) list \<Rightarrow> pyexn + (string \<times> pydict) list" where
  "load_baselines [] acc = Inr acc"
| "load_baselines (u # us) acc = and_then (baseline_of u) (\<lambda>(uid, b). load_baselines us (AList.update uid b acc))"

definition load_devices :: "(string \<times> string) list \<Rightarrow> (string \<times> string list) list" where
  "load_devices ds = fold (\<lambda>(u, d) acc. AList.map_default u [d] (List.insert d) acc) ds []"

section \<open>The step of a micro-batch\<close>

record engine_state =
  es_redis :: redis
  es_s3 :: s3
  es_snow :: snow

record engine_env =
  ee_scoring :: scoring_env
  ee_baselines :: "(string \<times> pydict) list"
  ee_devices :: "(string \<times> string list) list"
  ee_config :: engine_config

text \<open>What the servers and the clock do during one batch.\<close>

record faults =
  f_locations :: "pyexn option"
  f_velocity :: "pyexn option"
  f_redis :: "pyexn option"
  f_put :: "pyexn option"
  f_connect :: "pyexn option"
  f_role :: "pyexn option"
  f_insert :: "pyexn option"
  f_stamp :: string
  f_file_id :: string

text \<open>What is drawn while one row is processed: its snapshot id, and the clock when it is built and, later, when it is
  converted for the warehouse.\<close>

record row_draws =
  rd_id :: string
  rd_built :: string
  rd_converted :: string

text \<open>One transaction of the batch\<close>

definition feature_of :: "engine_env \<Rightarrow> faults \<Rightarrow> (string \<rightharpoonup> pyval) \<Rightarrow> (string \<times> int) list \<Rightarrow> txn \<times> row_draws \<Rightarrow> pyexn + pydict" where
  "feature_of env f locs vels tu =
    (let u = tx_user (fst tu)
     in build_feature_row (ee_scoring env) (ec_scoring (ee_config env))
          (case map_of (ee_baselines env) u of Some b \<Rightarrow> b | None \<Rightarrow> [])
          (case locs u of Some v \<Rightarrow> v | None \<Rightarrow> PNone)
          (case map_of vels u of Some n \<Rightarrow> n | None \<Rightarrow> 0)
          (case map_of (ee_devices env) u of Some ds \<Rightarrow> ds | None \<Rightarrow> [])
          (rd_id (snd tu)) (rd_built (snd tu)) True (fst tu))"

text \<open>The loop: the features, the warehouse rows and the number of quarantined transactions.\<close>

fun row_loop :: "(txn \<times> row_draws \<Rightarrow> pyexn + pydict) \<Rightarrow> (txn \<times> row_draws) list \<Rightarrow> pydict list \<Rightarrow> pydict list \<Rightarrow> nat
    \<Rightarrow> pyexn + pydict list \<times> pydict list \<times> nat" where
  "row_loop build [] features sf q = Inr (features, sf, q)"
| "row_loop build (t # ts) features sf q =
    (case build t of
       Inl _ \<Rightarrow> row_loop build ts features sf (Suc q)
     | Inr fd \<Rightarrow> and_then (to_snowflake_row fd (rd_converted (snd t))) (\<lambda>row. row_loop build ts (features @ [fd]) (sf @ [row]) q))"

definition sink_step :: "engine_env \<Rightarrow> faults \<Rightarrow> pydict list \<Rightarrow> engine_state \<Rightarrow> (unit, engine_state) out" where
  "sink_step env f sf st =
    (if ec_direct (ee_config env)
     then (case snow_write_batch (f_connect f) (f_role f) (f_insert f) sf (es_snow st) of (x, sn) \<Rightarrow> (x, st\<lparr>es_snow := sn\<rparr>))
     else (case seq (s3_write_batch sf (es_s3 st)) (\<lambda>_ s.
              if should_flush (ee_config env) s
              then seq (s3_flush (ee_config env) (f_put f) (f_stamp f) (f_file_id f) s) (\<lambda>_ s. (Inr (), s))
              else (Inr (), s)) of (x, s) \<Rightarrow> (x, st\<lparr>es_s3 := s\<rparr>)))"

definition process_batch :: "engine_env \<Rightarrow> faults \<Rightarrow> (txn \<times> row_draws) list \<Rightarrow> engine_state \<Rightarrow> (unit, engine_state) out" where
  "process_batch env f batch st =
    (if batch = [] then (Inr (), st)
     else
       let uids = map (tx_user \<circ> fst) batch;
           locs = get_last_locations_batch True (f_locations f) uids (es_redis st)
       in (case and_then (get_velocity_batch True (f_velocity f) uids (es_redis st)) (\<lambda>vels.
                  row_loop (feature_of env f locs vels) batch [] [] 0) of
             Inl e \<Rightarrow> (Inl e, st)
           | Inr (features, sf, q) \<Rightarrow>
              (case write_batch (se_str (ee_scoring env)) True (f_redis f) features (es_redis st) of
                 (Inl e, r) \<Rightarrow> (Inl e, st\<lparr>es_redis := r\<rparr>)
               | (Inr _, r) \<Rightarrow> sink_step env f sf (st\<lparr>es_redis := r\<rparr>))))"

text \<open>The velocity query's batch, and the shutdown: flush every sink, then close every sink.\<close>

definition process_velocity_batch :: "pyexn option \<Rightarrow> velocity_row list \<Rightarrow> engine_state \<Rightarrow> (unit, engine_state) out" where
  "process_velocity_batch fault vrows st =
    (if vrows = [] then (Inr (), st)
     else (case write_velocity_batch True fault vrows velocity_flag_threshold (es_redis st) of
        (Inl e, r) \<Rightarrow> (Inl e, st\<lparr>es_redis := r\<rparr>) | (Inr _, r) \<Rightarrow> (Inr (), st\<lparr>es_redis := r\<rparr>)))"

definition shutdown :: "engine_env \<Rightarrow> faults \<Rightarrow> engine_state \<Rightarrow> (unit, engine_state) out" where
  "shutdown env f st =
    (case snow_flush (es_snow st) of (_, sn) \<Rightarrow>
      (case s3_flush (ee_config env) (f_put f) (f_stamp f) (f_file_id f) (es_s3 st) of
         (Inl e, s) \<Rightarrow> (Inl e, st\<lparr>es_snow := sn, es_s3 := s\<rparr>)
       | (Inr _, s) \<Rightarrow> (Inr (), st\<lparr>es_snow := snow_close sn, es_s3 := s\<rparr>)))"

section \<open>The sinks keep what they are given\<close>

text \<open>A sink that takes rows for good: what it holds is what it delivered and what it still buffers.  A
  successful write adds the rows once, a failed one adds nothing, a flush under a name that is free moves and never
  drops.\<close>

locale feature_sink =
  fixes write_rows :: "'e \<Rightarrow> pydict list \<Rightarrow> 's \<Rightarrow> (unit, 's) out"
    and flush_rows :: "'e \<Rightarrow> 's \<Rightarrow> (string option, 's) out"
    and delivered :: "'s \<Rightarrow> pydict list"
    and buffered :: "'s \<Rightarrow> pydict list"
    and name_free :: "'e \<Rightarrow> 's \<Rightarrow> bool"
  assumes write_ok: "write_rows f rs s = (Inr (), s') \<Longrightarrow> delivered s' @ buffered s' = delivered s @ buffered s @ rs"
    and write_error: "write_rows f rs s = (Inl e, s') \<Longrightarrow> delivered s' @ buffered s' = delivered s @ buffered s"
    and write_names: "write_rows f rs s = (y, s') \<Longrightarrow> name_free g s' = name_free g s"
    and flush_keeps: "name_free f s \<Longrightarrow> flush_rows f s = (x, s') \<Longrightarrow> delivered s' @ buffered s' = delivered s @ buffered s"
    and flush_empties: "flush_rows f s = (Inr k, s') \<Longrightarrow> buffered s' = []"
begin

definition held :: "'s \<Rightarrow> pydict list" where
  "held s = delivered s @ buffered s"

text \<open>A write, and a flush when one is due.\<close>

definition step :: "('s \<Rightarrow> bool) \<Rightarrow> 'e \<Rightarrow> pydict list \<Rightarrow> 's \<Rightarrow> (unit, 's) out" where
  "step due f rs s = seq (write_rows f rs s) (\<lambda>_ s. if due s then seq (flush_rows f s) (\<lambda>_ s. (Inr (), s)) else (Inr (), s))"

lemma flush_held: "name_free f s \<Longrightarrow> held (snd (flush_rows f s)) = held s"
  using flush_keeps [of f s "fst (flush_rows f s)"] by (simp add: held_def)

lemma step_held:
  assumes "step due f rs s = (x, s')" "name_free f s"
  shows "held s' = (if is_ok (fst (write_rows f rs s)) then held s @ rs else held s)"
proof (cases "write_rows f rs s")
  case (Pair y t)
  show ?thesis
  proof (cases y)
    case (Inl e)
    then show ?thesis using assms Pair write_error [of f rs s e t] by (auto simp: step_def held_def)
  next
    case (Inr u)
    have "held t = held s @ rs" using write_ok [of f rs s t] Pair Inr by (simp add: held_def)
    have free: "name_free f t" using write_names [OF Pair] assms(2) by simp
    have "held s' = held t"
    proof (cases "due t")
      case True
      obtain z q where q: "flush_rows f t = (z, q)" by (cases "flush_rows f t")
      have "s' = q" using assms True by (cases z) (auto simp: step_def Pair Inr q)
      then show ?thesis using flush_held [OF free] q by simp
    next
      case False
      then show ?thesis using assms by (simp add: step_def Pair Inr)
    qed
    with \<open>held t = held s @ rs\<close> show ?thesis using Pair Inr by simp
  qed
qed

lemma step_ok: "step due f rs s = (Inr (), s') \<Longrightarrow> name_free f s \<Longrightarrow> held s' = held s @ rs"
  using step_held [of due f rs s "Inr ()" s'] by (cases "write_rows f rs s"; cases "fst (write_rows f rs s)") (auto simp: step_def)

text \<open>After a successful step either nothing was due or nothing is buffered.\<close>

lemma step_not_due: "step due f rs s = (Inr (), s') \<Longrightarrow> \<not> due s' \<or> buffered s' = []"
proof -
  assume a: "step due f rs s = (Inr (), s')"
  then obtain t where t: "write_rows f rs s = (Inr (), t)" by (auto simp: step_def seq_Inr_conv)
  show "\<not> due s' \<or> buffered s' = []"
    using a flush_empties [of f t _ s'] by (auto simp: step_def t seq_Inr_conv split: if_splits)
qed

lemma flushed: "name_free f s \<Longrightarrow> flush_rows f s = (Inr k, s') \<Longrightarrow> delivered s' = held s"
  using flush_keeps [of f s "Inr k" s'] flush_empties [of f s k s'] by (simp add: held_def)

end

definition object_rows :: "s3 \<Rightarrow> pydict list" where
  "object_rows s = concat (map snd (s3_objects s))"

definition staged_flush :: "engine_config \<Rightarrow> faults \<Rightarrow> s3 \<Rightarrow> (string option, s3) out" where
  "staged_flush c f = s3_flush c (f_put f) (f_stamp f) (f_file_id f)"

definition direct_write :: "faults \<Rightarrow> pydict list \<Rightarrow> snow \<Rightarrow> (unit, snow) out" where
  "direct_write f = snow_write_batch (f_connect f) (f_role f) (f_insert f)"

definition batch_key :: "engine_config \<Rightarrow> faults \<Rightarrow> string" where
  "batch_key c f = object_key c (f_stamp f) (f_file_id f)"

definition key_free :: "engine_config \<Rightarrow> faults \<Rightarrow> s3 \<Rightarrow> bool" where
  "key_free c f s = (batch_key c f \<notin> fst ` set (s3_objects s))"

interpretation staged: feature_sink "\<lambda>f. s3_write_batch" "staged_flush c" object_rows s3_buffer "key_free c"
  by unfold_locales
    (auto simp: s3_write_batch_def add_batch_def staged_flush_def s3_flush_def object_rows_def key_free_def batch_key_def update_new
      split: if_splits option.splits)

interpretation direct: feature_sink direct_write "\<lambda>f. snow_flush" sn_rows "\<lambda>_. []" "\<lambda>_ _. True"
  by unfold_locales
    (auto simp: direct_write_def snow_write_batch_def get_connection_def snow_flush_def split: if_splits option.splits)

section \<open>One entry per user\<close>

lemma map_of_update: "map_of (AList.update k v al) = (map_of al)(k \<mapsto> v)"
  by (rule update_conv')

lemma keep_latest_other: "user_of fd \<noteq> Some u \<Longrightarrow> map_of (keep_latest pystr fd acc) u = map_of acc u"
  by (auto simp: keep_latest_def map_of_update split: option.splits)

lemma keep_latest_distinct: "distinct (map fst acc) \<Longrightarrow> distinct (map fst (keep_latest pystr fd acc))"
  by (auto simp: keep_latest_def distinct_update split: option.splits)

text \<open>What the accumulator holds for a user: the latest of the user's rows, the first among equals.\<close>

fun latest :: "(pyval \<Rightarrow> string) \<Rightarrow> pydict option \<Rightarrow> pydict list \<Rightarrow> pydict option" where
  "latest pystr b [] = b"
| "latest pystr None (fd # fds) = latest pystr (Some fd) fds"
| "latest pystr (Some old) (fd # fds) = latest pystr (Some (if ts_of pystr old < ts_of pystr fd then fd else old)) fds"

lemma keep_latest_same:
  "user_of fd = Some u \<Longrightarrow> map_of (keep_latest pystr fd acc) u = latest pystr (map_of acc u) [fd]"
  by (auto simp: keep_latest_def map_of_update split: option.splits)

lemma latest_step: "latest pystr (latest pystr b [x]) ys = latest pystr b (x # ys)"
  by (cases b) simp_all

lemma fold_keep_latest:
  "map_of (fold (keep_latest pystr) fds acc) u = latest pystr (map_of acc u) (filter (\<lambda>fd. user_of fd = Some u) fds)"
proof (induction fds arbitrary: acc)
  case (Cons fd fds)
  then show ?case
    by (cases "user_of fd = Some u") (simp_all add: keep_latest_other keep_latest_same latest_step del: latest.simps)
qed simp

lemma latest_per_user_entry:
  "map_of (latest_per_user pystr fds) u = latest pystr None (filter (\<lambda>fd. user_of fd = Some u) fds)"
  by (simp add: latest_per_user_def fold_keep_latest)

lemma distinct_latest: "distinct (map fst (latest_per_user pystr fds))"
proof -
  have "distinct (map fst (fold (keep_latest pystr) fds acc))" if "distinct (map fst acc)" for acc
    using that by (induction fds arbitrary: acc) (simp_all add: keep_latest_distinct)
  then show ?thesis by (simp add: latest_per_user_def)
qed

lemma latest_max:
  assumes "latest pystr b fds = Some fd"
  shows "(b = Some fd \<or> fd \<in> set fds) \<and> (\<forall>x. b = Some x \<or> x \<in> set fds \<longrightarrow> ts_of pystr x \<le> ts_of pystr fd)"
  using assms
proof (induction pystr b fds rule: latest.induct)
  case (3 pystr old x fds)
  then show ?case by (cases "ts_of pystr old < ts_of pystr x") (auto intro: order_trans)
qed auto

lemma user_key_iff: "length k = length k' \<Longrightarrow> user_key u k = user_key u' k' \<longleftrightarrow> u = u' \<and> k = k'"
  by (auto simp: user_key_def)

lemma user_keys [simp]:
  "user_key u ''location'' = user_key v ''location'' \<longleftrightarrow> u = v" "user_key u ''features'' = user_key v ''features'' \<longleftrightarrow> u = v"
  "user_key u ''location'' \<noteq> user_key v ''features''" "user_key u ''features'' \<noteq> user_key v ''location''"
  "user_key u ''location'' \<noteq> user_key v ''velocity''" "user_key u ''features'' \<noteq> user_key v ''velocity''"
  by (simp_all add: user_key_iff)

section \<open>The loop over a batch\<close>

lemma feature_of_sf: "feature_of env f locs vels t = Inr fd \<Longrightarrow> to_snowflake_row fd later = Inr (sf_row_of fd later)"
  unfolding feature_of_def Let_def by (rule to_snowflake_built)

text \<open>The rows that build, in order, and what is made of them for the warehouse.\<close>

definition built :: "(txn \<times> row_draws \<Rightarrow> pyexn + pydict) \<Rightarrow> (txn \<times> row_draws) list \<Rightarrow> pydict list" where
  "built b ts = concat (map (\<lambda>t. case b t of Inr fd \<Rightarrow> [fd] | Inl _ \<Rightarrow> []) ts)"

definition converted :: "(txn \<times> row_draws \<Rightarrow> pyexn + pydict) \<Rightarrow> (txn \<times> row_draws) list \<Rightarrow> pydict list" where
  "converted b ts = concat (map (\<lambda>t. case b t of Inr fd \<Rightarrow> [sf_row_of fd (rd_converted (snd t))] | Inl _ \<Rightarrow> []) ts)"

lemma built_simps [simp]: "built b [] = []"
  "built b (t # ts) = (case b t of Inr fd \<Rightarrow> fd # built b ts | Inl _ \<Rightarrow> built b ts)"
  "converted b [] = []"
  "converted b (t # ts) = (case b t of Inr fd \<Rightarrow> sf_row_of fd (rd_converted (snd t)) # converted b ts | Inl _ \<Rightarrow> converted b ts)"
  by (simp_all add: built_def converted_def split: sum.splits)

lemma length_built: "length (built b ts) \<le> length ts"
  by (induction ts) (auto split: sum.splits)

lemma row_loop_built:
  "row_loop (feature_of env f locs vels) ts fs sf q = Inr
     (fs @ built (feature_of env f locs vels) ts, sf @ converted (feature_of env f locs vels) ts,
      q + (length ts - length (built (feature_of env f locs vels) ts)))"
proof (induction ts arbitrary: fs sf q)
  case (Cons t ts)
  have "length (built (feature_of env f locs vels) ts) \<le> length ts" by (rule length_built)
  then show ?case
    by (cases "feature_of env f locs vels t") (simp_all add: feature_of_sf Cons.IH Suc_diff_le)
qed simp

definition batch_locs :: "faults \<Rightarrow> (txn \<times> row_draws) list \<Rightarrow> redis \<Rightarrow> string \<rightharpoonup> pyval" where
  "batch_locs f batch r = get_last_locations_batch True (f_locations f) (map (tx_user \<circ> fst) batch) r"

definition batch_vels :: "faults \<Rightarrow> (txn \<times> row_draws) list \<Rightarrow> redis \<Rightarrow> pyexn + (string \<times> int) list" where
  "batch_vels f batch r = get_velocity_batch True (f_velocity f) (map (tx_user \<circ> fst) batch) r"

definition batch_features :: "engine_env \<Rightarrow> faults \<Rightarrow> (txn \<times> row_draws) list \<Rightarrow> redis \<Rightarrow> pydict list" where
  "batch_features env f batch r =
    (case batch_vels f batch r of Inl _ \<Rightarrow> [] | Inr vels \<Rightarrow> built (feature_of env f (batch_locs f batch r) vels) batch)"

definition batch_rows :: "engine_env \<Rightarrow> faults \<Rightarrow> (txn \<times> row_draws) list \<Rightarrow> engine_state \<Rightarrow> pydict list" where
  "batch_rows env f batch st =
    (case batch_vels f batch (es_redis st) of Inl _ \<Rightarrow> []
     | Inr vels \<Rightarrow> converted (feature_of env f (batch_locs f batch (es_redis st)) vels) batch)"

lemma process_batch_alt:
  "process_batch env f batch st =
    (if batch = [] then (Inr (), st)
     else (case batch_vels f batch (es_redis st) of
        Inl e \<Rightarrow> (Inl e, st)
      | Inr _ \<Rightarrow>
         (let fds = batch_features env f batch (es_redis st)
          in case write_batch (se_str (ee_scoring env)) True (f_redis f) fds (es_redis st) of
               (Inl e, r) \<Rightarrow> (Inl e, st\<lparr>es_redis := r\<rparr>)
             | (Inr _, r) \<Rightarrow> sink_step env f (batch_rows env f batch st) (st\<lparr>es_redis := r\<rparr>))))"
  unfolding process_batch_def batch_features_def batch_rows_def Let_def batch_vels_def [symmetric] batch_locs_def [symmetric]
  by (cases "batch_vels f batch (es_redis st)") (simp_all add: row_loop_built split: prod.split sum.split)

lemma sink_step_redis [simp]: "es_redis (snd (sink_step env f sf st)) = es_redis st"
  by (auto simp: sink_step_def split: prod.splits)

text \<open>What the online store holds after the writes of one batch.\<close>

lemma put_features_location:
  "put_features v fd r (user_key u ''location'') =
    (if v = u \<and> \<not> truthy (dict_get fd ''suspect_location'' PNone) then Some (Json (PDict (location_payload fd)))
     else r (user_key u ''location''))"
  by (simp add: put_features_def Let_def)

lemma fold_put_location:
  "distinct (map fst al) \<Longrightarrow>
    fold (\<lambda>(u, fd). put_features u fd) al r (user_key u ''location'') =
      (case map_of al u of
         Some fd \<Rightarrow> if truthy (dict_get fd ''suspect_location'' PNone) then r (user_key u ''location'')
                    else Some (Json (PDict (location_payload fd)))
       | None \<Rightarrow> r (user_key u ''location''))"
proof (induction al arbitrary: r)
  case (Cons p al)
  have "map_of al u = None" if "u \<notin> fst ` set al" using that by (simp add: map_of_eq_None_iff)
  then show ?case using Cons by (cases p) (auto simp: put_features_location split: option.split)
qed simp

lemma put_features_key:
  "put_features v fd r (user_key u ''features'') = (if v = u then Some (Json (PDict fd)) else r (user_key u ''features''))"
  by (simp add: put_features_def Let_def)

lemma fold_put_features:
  "distinct (map fst al) \<Longrightarrow>
    fold (\<lambda>(u, fd). put_features u fd) al r (user_key u ''features'') =
      (case map_of al u of Some fd \<Rightarrow> Some (Json (PDict fd)) | None \<Rightarrow> r (user_key u ''features''))"
proof (induction al arbitrary: r)
  case (Cons p al)
  have "map_of al u = None" if "u \<notin> fst ` set al" using that by (simp add: map_of_eq_None_iff)
  then show ?case using Cons by (cases p) (auto simp: put_features_key split: option.split)
qed simp

section \<open>Outcomes of a batch\<close>

definition user_rows :: "pydict list \<Rightarrow> string \<Rightarrow> pydict list" where
  "user_rows fds u = filter (\<lambda>fd. user_of fd = Some u) fds"

lemma write_batch_entries:
  assumes "write_batch pystr True fault fds r = (Inr (), r')"
  shows "r' (user_key u ''features'') = (case latest pystr None (user_rows fds u) of
      Some fd \<Rightarrow> Some (Json (PDict fd)) | None \<Rightarrow> r (user_key u ''features''))"
    and "r' (user_key u ''location'') = (case latest pystr None (user_rows fds u) of
      Some fd \<Rightarrow> if truthy (dict_get fd ''suspect_location'' PNone) then r (user_key u ''location'')
                 else Some (Json (PDict (location_payload fd)))
    | None \<Rightarrow> r (user_key u ''location''))"
  using assms
  by (auto simp: write_batch_def user_rows_def fold_put_features fold_put_location distinct_latest latest_per_user_entry
      split: if_splits option.splits)

lemma write_batch_error: "write_batch pystr True fault fds r = (Inl e, r') \<Longrightarrow> r' = r"
  by (auto simp: write_batch_def split: if_splits option.splits)

lemma batch_feature_from:
  assumes "fd \<in> set (batch_features env f batch r)"
  obtains t vels where "t \<in> set batch" "feature_of env f (batch_locs f batch r) vels t = Inr fd"
  using assms by (auto simp: batch_features_def built_def split: sum.splits)

lemma built_row_fields:
  assumes "feature_of env f locs vels t = Inr fd"
  shows "map_of fd ''user_id'' = Some (PStr (tx_user (fst t)))" "\<exists>b. map_of fd ''suspect_location'' = Some (PBool b)"
  using assms unfolding feature_of_def Let_def by (auto elim!: build_feature_rowE simp: row_field)

lemma sink_step_staged:
  "\<not> ec_direct (ee_config env) \<Longrightarrow> sink_step env f sf st =
    (case staged.step (ee_config env) (should_flush (ee_config env)) f sf (es_s3 st) of (x, s) \<Rightarrow> (x, st\<lparr>es_s3 := s\<rparr>))"
  by (simp add: sink_step_def staged.step_def staged_flush_def cong: if_cong)

lemma sink_step_direct:
  "ec_direct (ee_config env) \<Longrightarrow> sink_step env f sf st =
    (case direct_write f sf (es_snow st) of (x, s) \<Rightarrow> (x, st\<lparr>es_snow := s\<rparr>))"
  by (simp add: sink_step_def direct_write_def)

text \<open>Every row the engine holds for the warehouse, staged or written.\<close>

definition held_rows :: "engine_env \<Rightarrow> engine_state \<Rightarrow> pydict list" where
  "held_rows env st =
    (if ec_direct (ee_config env) then direct.held (es_snow st) else staged.held (es_s3 st))"

text \<open>The name a flush of these batches would use is not taken in the bucket.\<close>

definition name_ready :: "engine_env \<Rightarrow> faults \<Rightarrow> engine_state \<Rightarrow> bool" where
  "name_ready env f st = (ec_direct (ee_config env) \<or> key_free (ee_config env) f (es_s3 st))"

lemma sink_step_held:
  assumes "sink_step env f sf st = (Inr (), st')" "name_ready env f st"
  shows "held_rows env st' = held_rows env st @ sf"
proof (cases "ec_direct (ee_config env)")
  case True
  then show ?thesis using assms direct.write_ok [of f sf "es_snow st"]
    by (auto simp: sink_step_direct held_rows_def direct.held_def split: prod.splits)
next
  case False
  then show ?thesis using assms staged.step_ok [of "ee_config env" _ f sf "es_s3 st"]
    by (auto simp: sink_step_staged held_rows_def name_ready_def split: prod.splits)
qed

lemma process_batch_sinks:
  assumes "process_batch env f batch st = (Inr (), st')" "batch \<noteq> []"
  obtains r where "sink_step env f (batch_rows env f batch st) (st\<lparr>es_redis := r\<rparr>) = (Inr (), st')"
  using assms by (auto simp: process_batch_alt Let_def split: sum.splits prod.splits)

lemma process_batch_held:
  assumes "process_batch env f batch st = (Inr (), st')" "name_ready env f st"
  shows "held_rows env st' = held_rows env st @ (if batch = [] then [] else batch_rows env f batch st)"
proof (cases "batch = []")
  case False
  then obtain r where "sink_step env f (batch_rows env f batch st) (st\<lparr>es_redis := r\<rparr>) = (Inr (), st')"
    using process_batch_sinks [OF assms(1)] by blast
  from sink_step_held [OF this] False assms(2) show ?thesis by (simp add: held_rows_def name_ready_def)
qed (use assms in \<open>simp add: process_batch_def\<close>)

text \<open>A batch puts at most one object, under its own name.\<close>

definition bucket_keys :: "engine_state \<Rightarrow> string set" where
  "bucket_keys st = fst ` set (s3_objects (es_s3 st))"

lemma flush_keys:
  "fst ` set (s3_objects (snd (s3_flush c fault stamp uid s))) \<subseteq> insert (object_key c stamp uid) (fst ` set (s3_objects s))"
  by (cases fault) (simp_all add: s3_flush_def dom_update subset_insertI)

lemma sink_step_keys: "bucket_keys (snd (sink_step env f sf st)) \<subseteq> insert (batch_key (ee_config env) f) (bucket_keys st)"
proof (cases "ec_direct (ee_config env)")
  case True
  then show ?thesis by (simp add: sink_step_def bucket_keys_def split: prod.split) blast
next
  case False
  obtain x s where "s3_flush (ee_config env) (f_put f) (f_stamp f) (f_file_id f) (add_batch sf (es_s3 st)) = (x, s)" by fastforce
  then show ?thesis using False flush_keys [of "ee_config env" "f_put f" "f_stamp f" "f_file_id f" "add_batch sf (es_s3 st)"]
    by (cases x) (auto simp: sink_step_def bucket_keys_def s3_write_batch_def batch_key_def add_batch_def)
qed

lemma process_batch_keys:
  "bucket_keys (snd (process_batch env f batch st)) \<subseteq> insert (batch_key (ee_config env) f) (bucket_keys st)"
proof -
  have "bucket_keys (snd (sink_step env f sf (st\<lparr>es_redis := r\<rparr>))) \<subseteq> insert (batch_key (ee_config env) f) (bucket_keys st)" for sf r
    using sink_step_keys [of env f sf "st\<lparr>es_redis := r\<rparr>"] by (simp add: bucket_keys_def)
  then show ?thesis
    by (simp add: process_batch_alt Let_def split: sum.split prod.split) (auto simp: bucket_keys_def)
qed

text \<open>File names, where the bucket is written: the stamps have the fifteen letters of their format, and no two flushes
  share both the second and the first eight letters of the uuid; nothing in the bucket has one of these names yet.\<close>

definition names_unique :: "engine_env \<Rightarrow> faults list \<Rightarrow> engine_state \<Rightarrow> bool" where
  "names_unique env fs st \<longleftrightarrow> ec_direct (ee_config env) \<or> distinct (map (\<lambda>f. (f_stamp f, take 8 (f_file_id f))) fs) \<and>
     list_all (\<lambda>f. length (f_stamp f) = 15 \<and> batch_key (ee_config env) f \<notin> bucket_keys st) fs"

lemma names_ready: "names_unique env (f # fs) st \<Longrightarrow> name_ready env f st"
  by (auto simp: names_unique_def name_ready_def key_free_def bucket_keys_def)

lemma names_step:
  assumes "names_unique env (f # fs) st" "process_batch env f batch st = (x, st')"
  shows "names_unique env fs st'"
proof (cases "ec_direct (ee_config env)")
  case False
  have "batch_key (ee_config env) g \<notin> bucket_keys st'" if g: "g \<in> set fs" for g
  proof -
    have "f_stamp g = f_stamp f \<and> take 8 (f_file_id g) = take 8 (f_file_id f)" if "batch_key (ee_config env) g = batch_key (ee_config env) f"
      by (rule object_key_inj [of _ _ "ee_config env"]) (use False assms(1) g that in \<open>simp_all add: names_unique_def batch_key_def list_all_iff\<close>)
    moreover have "(f_stamp f, take 8 (f_file_id f)) \<notin> (\<lambda>f. (f_stamp f, take 8 (f_file_id f))) ` set fs"
      using False assms(1) by (simp add: names_unique_def)
    ultimately have "batch_key (ee_config env) g \<noteq> batch_key (ee_config env) f" using g by (metis (mono_tags, lifting) image_eqI)
    then show ?thesis using process_batch_keys [of env f batch st] False assms g by (auto simp: names_unique_def list_all_iff)
  qed
  then show ?thesis using False assms(1) by (simp add: names_unique_def list_all_iff)
qed (simp add: names_unique_def)

text \<open>Batches in a row, each of them successful, with the rows they computed.\<close>

fun run_batches :: "engine_env \<Rightarrow> (faults \<times> (txn \<times> row_draws) list) list \<Rightarrow> engine_state \<Rightarrow> (pydict list, engine_state) out" where
  "run_batches env [] st = (Inr [], st)"
| "run_batches env ((f, batch) # bs) st =
    (let sf = (if batch = [] then [] else batch_rows env f batch st)
     in seq (process_batch env f batch st) (\<lambda>_ st'. seq (run_batches env bs st') (\<lambda>rest st'. (Inr (sf @ rest), st'))))"

lemma run_batches_held:
  assumes "run_batches env bs st = (Inr sf, st')" "names_unique env (map fst bs @ fs) st"
  shows "held_rows env st' = held_rows env st @ sf \<and> names_unique env fs st'"
  using assms
proof (induction env bs st arbitrary: sf st' rule: run_batches.induct)
  case (2 env f batch bs st)
  from "2.prems"(1) obtain s1 rest where s1: "process_batch env f batch st = (Inr (), s1)" "run_batches env bs s1 = (Inr rest, st')"
    "sf = (if batch = [] then [] else batch_rows env f batch st) @ rest"
    by (auto simp: Let_def seq_Inr_conv)
  have n: "names_unique env (f # map fst bs @ fs) st" using "2.prems"(2) by simp
  show ?case using "2.IH" [OF refl s1(2) names_step [OF n s1(1)]] process_batch_held [OF s1(1) names_ready [OF n]] s1(3) by simp
qed simp

lemma sink_step_redis': "sink_step env f sf (st\<lparr>es_redis := r\<rparr>) = (x, st') \<Longrightarrow> es_redis st' = r"
  using sink_step_redis [of env f sf "st\<lparr>es_redis := r\<rparr>"] by simp

definition batch_write :: "engine_env \<Rightarrow> faults \<Rightarrow> (txn \<times> row_draws) list \<Rightarrow> redis \<Rightarrow> (unit, redis) out" where
  "batch_write env f batch r = write_batch (se_str (ee_scoring env)) True (f_redis f) (batch_features env f batch r) r"

lemma process_batch_redis:
  assumes "process_batch env f batch st = (x, st')"
  shows "es_redis st' = es_redis st \<or> es_redis st' = snd (batch_write env f batch (es_redis st))"
    and "x = Inr () \<Longrightarrow> batch \<noteq> [] \<Longrightarrow> batch_write env f batch (es_redis st) = (Inr (), es_redis st')"
proof -
  obtain y r where w: "batch_write env f batch (es_redis st) = (y, r)" by fastforce
  have p: "process_batch env f batch st = (if batch = [] then (Inr (), st)
     else (case batch_vels f batch (es_redis st) of
        Inl e \<Rightarrow> (Inl e, st)
      | Inr _ \<Rightarrow> (case y of Inl e \<Rightarrow> (Inl e, st\<lparr>es_redis := r\<rparr>)
         | Inr _ \<Rightarrow> sink_step env f (batch_rows env f batch st) (st\<lparr>es_redis := r\<rparr>))))"
    using w by (simp add: process_batch_alt batch_write_def Let_def cong: if_cong sum.case_cong)
  show "es_redis st' = es_redis st \<or> es_redis st' = snd (batch_write env f batch (es_redis st))"
    using assms unfolding p w by (auto split: if_splits sum.splits dest: sink_step_redis')
  show "batch_write env f batch (es_redis st) = (Inr (), es_redis st')" if "x = Inr ()" "batch \<noteq> []"
    using assms that unfolding p w by (auto split: if_splits sum.splits dest: sink_step_redis')
qed

section \<open>Properties\<close>

text \<open>One micro-batch leaves, for every user of the batch, the features of the user's latest transaction (the
  first one among equal times), and moves the stored location to that transaction's place unless it is
  suspect; the keys of other users keep their values.\<close>

theorem online_store_update:
  assumes "process_batch env f batch st = (Inr (), st')" "batch \<noteq> []"
  shows "case latest (se_str (ee_scoring env)) None (user_rows (batch_features env f batch (es_redis st)) u) of
      None \<Rightarrow> es_redis st' (user_key u ''features'') = es_redis st (user_key u ''features'') \<and>
              es_redis st' (user_key u ''location'') = es_redis st (user_key u ''location'')
    | Some fd \<Rightarrow> es_redis st' (user_key u ''features'') = Some (Json (PDict fd)) \<and>
        es_redis st' (user_key u ''location'') =
          (if map_of fd ''suspect_location'' = Some (PBool True) then es_redis st (user_key u ''location'')
           else Some (Json (PDict (location_payload fd)))) \<and>
        fd \<in> set (user_rows (batch_features env f batch (es_redis st)) u) \<and>
        (\<forall>x\<in>set (user_rows (batch_features env f batch (es_redis st)) u).
           ts_of (se_str (ee_scoring env)) x \<le> ts_of (se_str (ee_scoring env)) fd)"
proof -
  let ?s = "se_str (ee_scoring env)" and ?fds = "batch_features env f batch (es_redis st)"
  have w: "write_batch ?s True (f_redis f) ?fds (es_redis st) = (Inr (), es_redis st')"
    using process_batch_redis(2) [OF assms(1) refl assms(2)] by (simp add: batch_write_def)
  show ?thesis
  proof (cases "latest ?s None (user_rows ?fds u)")
    case None
    then show ?thesis using write_batch_entries [OF w, of u] by simp
  next
    case (Some fd)
    have m: "fd \<in> set (user_rows ?fds u)" "\<forall>x\<in>set (user_rows ?fds u). ts_of ?s x \<le> ts_of ?s fd"
      using latest_max [OF Some] by auto
    then have "fd \<in> set ?fds" by (simp add: user_rows_def)
    then obtain b where "map_of fd ''suspect_location'' = Some (PBool b)"
      using batch_feature_from built_row_fields(2) by metis
    then show ?thesis using write_batch_entries [OF w, of u] m Some by (simp add: dict_get_def)
  qed
qed

text \<open>C8: The poisoning guard: whatever a batch does, and also when it fails half-way, a user's stored location
  is what it was or the place of one of the user's own transactions whose location was not suspect.\<close>

theorem location_never_poisoned:
  assumes "process_batch env f batch st = (x, st')"
  shows "es_redis st' (user_key u ''location'') = es_redis st (user_key u ''location'') \<or>
    (\<exists>t\<in>set batch. \<exists>vels fd. feature_of env f (batch_locs f batch (es_redis st)) vels t = Inr fd \<and>
       tx_user (fst t) = u \<and> map_of fd ''suspect_location'' = Some (PBool False) \<and>
       es_redis st' (user_key u ''location'') = Some (Json (PDict (location_payload fd))))"
proof -
  let ?s = "se_str (ee_scoring env)" and ?fds = "batch_features env f batch (es_redis st)"
  obtain y r where w: "write_batch ?s True (f_redis f) ?fds (es_redis st) = (y, r)" by fastforce
  have st': "es_redis st' = es_redis st \<or> es_redis st' = r"
    using process_batch_redis(1) [OF assms] w by (simp add: batch_write_def)
  show ?thesis
  proof (cases y)
    case (Inl e)
    then show ?thesis using st' write_batch_error [of ?s "f_redis f" ?fds "es_redis st" e r] w by auto
  next
    case (Inr u')
    with w have w: "write_batch ?s True (f_redis f) ?fds (es_redis st) = (Inr (), r)" by simp
    show ?thesis
    proof (cases "latest ?s None (user_rows ?fds u)")
      case None
      then show ?thesis using write_batch_entries(2) [OF w, of u] st' by auto
    next
      case (Some fd)
      then have "fd \<in> set (user_rows ?fds u)" using latest_max [OF Some] by auto
      then have fd: "fd \<in> set ?fds" "user_of fd = Some u" by (auto simp: user_rows_def)
      obtain t vels where t: "t \<in> set batch" "feature_of env f (batch_locs f batch (es_redis st)) vels t = Inr fd"
        using batch_feature_from [OF fd(1)] .
      have "tx_user (fst t) = u" using built_row_fields(1) [OF t(2)] fd(2) by (simp add: user_of_def split: if_splits)
      then show ?thesis using write_batch_entries(2) [OF w, of u] st' t built_row_fields(2) [OF t(2)] Some
        by (auto simp: dict_get_def split: if_splits)
    qed
  qed
qed

text \<open>C9: No warehouse row is lost and none is duplicated: after any series of successful batches and a clean
  shutdown the staging bucket (or, in direct mode, the table) holds what was held before, followed by the
  rows of the batches in order, and nothing is left in a buffer.  In the bucket a put under a name that is taken
  replaces the object, so this rests on the names: stamps in their format and no two flushes with the same second
  and the same eight letters of uuid4.\<close>

theorem rows_exactly_once:
  assumes "run_batches env bs st = (Inr sf, st1)" "shutdown env f st1 = (Inr (), st2)" "names_unique env (map fst bs @ [f]) st"
  shows "held_rows env st2 = held_rows env st @ sf \<and> s3_buffer (es_s3 st2) = [] \<and>
    (\<not> ec_direct (ee_config env) \<longrightarrow> object_rows (es_s3 st2) = held_rows env st @ sf)"
proof -
  obtain k s where k: "staged_flush (ee_config env) f (es_s3 st1) = (Inr k, s)"
    and st2: "st2 = st1\<lparr>es_snow := snow_close (es_snow st1), es_s3 := s\<rparr>"
    using assms(2) by (auto simp: shutdown_def staged_flush_def snow_flush_def split: prod.splits sum.splits)
  have h: "held_rows env st1 = held_rows env st @ sf" "names_unique env [f] st1" using run_batches_held [OF assms(1,3)] by simp_all
  then have "\<not> ec_direct (ee_config env) \<longrightarrow> key_free (ee_config env) f (es_s3 st1)" by (auto simp: names_unique_def key_free_def bucket_keys_def)
  then have e: "s3_buffer s = []" "\<not> ec_direct (ee_config env) \<longrightarrow> object_rows s = staged.held (es_s3 st1)"
    using staged.flush_empties [OF k] staged.flushed [OF _ k] by simp_all
  moreover have "held_rows env st2 = held_rows env st1"
    using e by (auto simp: held_rows_def st2 snow_close_def direct.held_def staged.held_def)
  ultimately show ?thesis using h(1) by (auto simp: st2 held_rows_def)
qed

text \<open>Two flushes under one name leave one of them.\<close>

lemma taken_name_drops:
  assumes "s3_buffer s \<noteq> []" "s3_objects s = []" "rs \<noteq> []"
  shows "object_rows (snd (s3_flush c None stamp uid (add_batch rs (snd (s3_flush c None stamp uid s))))) = rs"
  using assms by (simp add: s3_flush_def add_batch_def object_rows_def)

definition within_limits :: "engine_config \<Rightarrow> s3 \<Rightarrow> bool" where
  "within_limits c s =
    (length (s3_buffer s) < ec_flush_rows c \<and> (s3_batches s < ec_flush_batches c \<or> s3_buffer s = []))"

lemma step_within_limits:
  assumes "staged.step c (should_flush c) f sf s = (Inr (), s')" "0 < ec_flush_rows c"
  shows "within_limits c s'"
  using staged.step_not_due [OF assms(1)] assms(2) by (auto simp: within_limits_def should_flush_def)

text \<open>The staging buffer is bounded: after every successful batch it holds fewer rows than the row limit, and
  either fewer batches than the batch limit or nothing.\<close>

theorem buffer_bounded:
  assumes "process_batch env f batch st = (Inr (), st')" "within_limits (ee_config env) (es_s3 st)"
  shows "within_limits (ee_config env) (es_s3 st')"
proof (cases "batch = [] \<or> ec_direct (ee_config env)")
  case True
  then show ?thesis using assms
    by (auto simp: process_batch_alt sink_step_direct Let_def split: if_splits sum.splits prod.splits)
next
  case False
  then obtain r s where "staged.step (ee_config env) (should_flush (ee_config env)) f (batch_rows env f batch st) (es_s3 st) = (Inr (), s)"
    "st' = st\<lparr>es_redis := r, es_s3 := s\<rparr>"
    using assms(1) by (auto simp: process_batch_alt sink_step_staged Let_def split: sum.splits prod.splits)
  moreover have "0 < ec_flush_rows (ee_config env)" using assms(2) by (auto simp: within_limits_def)
  ultimately show ?thesis using step_within_limits by simp
qed

text \<open>A batch whose flush fails is reported as failed although its rows stay in the buffer: running the batch
  again stages them a second time.\<close>

theorem failed_flush_keeps_rows:
  assumes "\<not> ec_direct (ee_config env)" "f_put f = Some e" "f_redis f = None" "batch \<noteq> []"
    and "batch_vels f batch (es_redis st) = Inr vels" "batch_rows env f batch st \<noteq> []"
    and "ec_flush_batches (ee_config env) \<le> Suc (s3_batches (es_s3 st))"
  shows "\<exists>st'. process_batch env f batch st = (Inl e, st') \<and> held_rows env st' = held_rows env st @ batch_rows env f batch st"
proof -
  let ?s = "add_batch (batch_rows env f batch st) (es_s3 st)"
  have "staged.step (ee_config env) (should_flush (ee_config env)) f (batch_rows env f batch st) (es_s3 st) = (Inl e, ?s)"
    using assms by (simp add: staged.step_def s3_write_batch_def should_flush_def add_batch_def staged_flush_def s3_flush_def)
  moreover have "staged.held ?s = staged.held (es_s3 st) @ batch_rows env f batch st"
    by (simp add: staged.held_def add_batch_def object_rows_def)
  moreover obtain r where "write_batch (se_str (ee_scoring env)) True None (batch_features env f batch (es_redis st)) (es_redis st) = (Inr (), r)"
    by (cases "write_batch (se_str (ee_scoring env)) True None (batch_features env f batch (es_redis st)) (es_redis st)")
      (auto simp: write_batch_def split: if_splits)
  ultimately have "process_batch env f batch st = (Inl e, st\<lparr>es_redis := r, es_s3 := ?s\<rparr>)"
    "staged.held ?s = staged.held (es_s3 st) @ batch_rows env f batch st"
    using assms(1,3-5) by (simp_all add: process_batch_alt sink_step_staged Let_def)
  then show ?thesis using assms(1) by (simp add: held_rows_def)
qed

text \<open>A session that could not be confined to its primary role is used all the same: the failed write leaves
  the connection cached, and the next write inserts its rows over it.\<close>

theorem unconfined_session_reused:
  assumes "\<not> sn_open s" "rs \<noteq> []"
  shows "\<exists>s1 s2. snow_write_batch None (Some e) None rs s = (Inl e, s1) \<and>
    snow_write_batch None None None rs s1 = (Inr (), s2) \<and> \<not> sn_confined s2 \<and> sn_rows s2 = sn_rows s @ rs"
  using assms by (simp add: snow_write_batch_def get_connection_def)

text \<open>When a batch of the velocity query has several windows of one user, the stored count is that of the
  window that happens to come last, not the largest one.\<close>

theorem last_window_wins:
  assumes "write_velocity_batch True None (vs @ v # ws) th r = (n, r')" "v_user v \<notin> v_user ` set ws"
  shows "velocity_of (r' (user_key (v_user v) ''velocity'')) = Inr (v_count v)"
proof -
  have keys: "user_key u ''velocity'' = user_key u' ''velocity'' \<longleftrightarrow> u = u'" for u u'
    by (simp add: user_key_iff)
  have other: "fold (\<lambda>v r. r(user_key (v_user v) ''velocity'' \<mapsto> Json (PDict (velocity_payload th v)))) ws r
      (user_key u ''velocity'') = r (user_key u ''velocity'')" if "u \<notin> v_user ` set ws" for r u
    using that by (induction ws arbitrary: r) (auto simp: keys)
  have "r' (user_key (v_user v) ''velocity'') = Some (Json (PDict (velocity_payload th v)))"
    using assms by (auto simp: write_velocity_batch_def other)
  then show ?thesis by (simp add: velocity_of_def velocity_payload_def dict_get_def py_int_def)
qed

section \<open>One corrupt transaction\<close>

lemma find_filter: "find P xs = find P (filter P xs)"
  by (induction xs) auto

lemma velocities_of_alt:
  "velocities_of r us = (case find (\<lambda>u. \<not> is_ok (velocity_of (r (user_key u ''velocity'')))) us of
     Some u \<Rightarrow> Inl (projl (velocity_of (r (user_key u ''velocity''))))
   | None \<Rightarrow> Inr (map (\<lambda>u. (u, projr (velocity_of (r (user_key u ''velocity''))))) us))"
proof (induction us)
  case (Cons u us)
  then show ?case
    by (cases "velocity_of (r (user_key u ''velocity''))") (auto split: option.splits)
qed simp

text \<open>Leaving out a user with a readable velocity changes the velocity of nobody else.\<close>

lemma map_of_pairs: "map_of (map (\<lambda>u. (u, f u)) us) u = (if u \<in> set us then Some (f u) else None)"
  by (induction us) auto

lemma velocity_batch_without:
  assumes "is_ok (velocity_of (r (user_key u ''velocity'')))" "us @ ws \<noteq> []"
  shows "rel_sum (=) (\<lambda>v v'. \<forall>x \<in> set (us @ ws). map_of v x = map_of v' x)
    (get_velocity_batch True fault (us @ u # ws) r) (get_velocity_batch True fault (us @ ws) r)"
proof (cases fault)
  case (Some e)
  then show ?thesis using assms(2) by (auto simp: get_velocity_batch_def map_of_pairs)
next
  case None
  let ?P = "\<lambda>u. \<not> is_ok (velocity_of (r (user_key u ''velocity'')))"
  have "find ?P (remdups (us @ u # ws)) = find ?P (remdups (us @ ws))"
    using assms(1) by (subst (1 2) find_filter) (simp add: remdups_filter [symmetric] del: remdups.simps)
  then show ?thesis using assms(2) None
    by (auto simp: get_velocity_batch_def velocities_of_alt map_of_pairs split: option.splits)
qed

text \<open>C14: Failure isolation: a transaction that cannot be built into a valid row changes nothing for the others;
  the batch does exactly what it does without that transaction.\<close>

theorem bad_row_isolated:
  assumes "\<forall>locs vels. \<not> is_ok (feature_of env f locs vels bad)"
    and "is_ok (velocity_of (es_redis st (user_key (tx_user (fst bad)) ''velocity'')))"
    and "xs @ ys \<noteq> []"
  shows "process_batch env f (xs @ bad # ys) st = process_batch env f (xs @ ys) st"
proof -
  let ?r = "es_redis st"
  have vels: "rel_sum (=) (\<lambda>v v'. \<forall>x \<in> set (map (tx_user \<circ> fst) (xs @ ys)). map_of v x = map_of v' x)
      (batch_vels f (xs @ bad # ys) ?r) (batch_vels f (xs @ ys) ?r)"
    using velocity_batch_without [where r = ?r and fault = "f_velocity f", OF assms(2), of "map (tx_user \<circ> fst) xs" "map (tx_user \<circ> fst) ys"] assms(3)
    by (simp add: batch_vels_def)
  have locs: "batch_locs f (xs @ bad # ys) ?r x = batch_locs f (xs @ ys) ?r x" if "x \<in> set (map (tx_user \<circ> fst) (xs @ ys))" for x
    using that by (auto simp: batch_locs_def get_last_locations_batch_def)
  have feat: "feature_of env f (batch_locs f (xs @ bad # ys) ?r) v t = feature_of env f (batch_locs f (xs @ ys) ?r) v' t"
    if "t \<in> set (xs @ ys)" "\<forall>x \<in> set (map (tx_user \<circ> fst) (xs @ ys)). map_of v x = map_of v' x" for v v' t
    using that locs [of "tx_user (fst t)"] by (auto simp: feature_of_def Let_def)
  have bad: "built (feature_of env f l v) (as @ bad # bs) = built (feature_of env f l v) (as @ bs)" for l v as bs
    using assms(1) by (cases "feature_of env f l v bad") (auto simp: built_def is_ok_def split: sum.splits dest: spec)
  have bad': "converted (feature_of env f l v) (as @ bad # bs) = converted (feature_of env f l v) (as @ bs)" for l v as bs
    using assms(1) by (cases "feature_of env f l v bad") (auto simp: converted_def is_ok_def split: sum.splits dest: spec)
  have built_cong: "built b ts = built b' ts" "converted b ts = converted b' ts" if "\<forall>t\<in>set ts. b t = b' t" for b b' ts
    using that by (induction ts) (auto split: sum.split)
  have "batch_features env f (xs @ bad # ys) ?r = batch_features env f (xs @ ys) ?r" "batch_rows env f (xs @ bad # ys) st = batch_rows env f (xs @ ys) st"
    using vels by (auto simp: batch_features_def batch_rows_def bad bad' intro!: built_cong feat elim!: rel_sum.cases)
  then show ?thesis using vels assms(3)
    by (auto simp: process_batch_alt Let_def elim!: rel_sum.cases split: prod.split sum.split)
qed

section \<open>A concrete batch\<close>

definition demo_engine :: engine_env where
  "demo_engine = \<lparr>ee_scoring = demo_env, ee_baselines = [], ee_devices = [(''u1'', [''d9''])],
     ee_config = production_config\<lparr>ec_flush_batches := 1\<rparr>\<rparr>"

definition demo_faults :: faults where
  "demo_faults = \<lparr>f_locations = None, f_velocity = None, f_redis = None, f_put = None, f_connect = None, f_role = None,
     f_insert = None, f_stamp = ''20250601_120000'', f_file_id = ''0123456789''\<rparr>"

definition fresh_engine :: engine_state where
  "fresh_engine = \<lparr>es_redis = Map.empty(user_key ''u1'' ''velocity'' \<mapsto> Json (PDict [(''velocity_15min'', PInt 6)])),
     es_s3 = \<lparr>s3_buffer = [], s3_batches = 0, s3_objects = []\<rparr>,
     es_snow = \<lparr>sn_open = False, sn_confined = False, sn_rows = []\<rparr>\<rparr>"

definition demo_draws :: row_draws where
  "demo_draws = \<lparr>rd_id = ''s1'', rd_built = ''now'', rd_converted = ''later''\<rparr>"

abbreviation demo_batch :: "(txn \<times> row_draws) list" where
  "demo_batch \<equiv> [(demo_txn, demo_draws)]"

definition demo_fd :: pydict where
  "demo_fd = row_fields default_config [] demo_txn no_geo 6 [''d9''] ''s1'' ''now'' (PFloat (Fin 50)) (PFloat (Fin 20))
     (Fin 50) (Fin 0) (signals_of (Fin 6) (Fin 0) None False)"

lemma demo_vels: "batch_vels f demo_batch (es_redis fresh_engine) = Inr [(''u1'', if f_velocity f = None then 6 else 0)]"
  by (simp add: batch_vels_def get_velocity_batch_def demo_txn_def fresh_engine_def velocity_of_def dict_get_def py_int_def)

lemma demo_feature:
  "feature_of demo_engine demo_faults (batch_locs demo_faults demo_batch (es_redis fresh_engine)) [(''u1'', 6)] (demo_txn, demo_draws) = Inr demo_fd"
proof -
  have "geo_of demo_env PNone demo_txn = no_geo" by (simp add: geo_of_def)
  moreover have "batch_locs demo_faults demo_batch (es_redis fresh_engine) ''u1'' = Some PNone"
    by (simp add: batch_locs_def get_last_locations_batch_def fresh_engine_def demo_txn_def demo_faults_def user_key_iff parsed_def)
  moreover have "g_distance no_geo = None" by (simp add: no_geo_def)
  moreover have "is_new_device (tx_device demo_txn) [''d9''] = False" "tx_amount demo_txn = Some (Fin 50)" "tx_user demo_txn = ''u1''"
    by (simp_all add: demo_txn_def is_new_device_def)
  ultimately show ?thesis
    using demo_score
    by (simp add: feature_of_def build_feature_row_def Let_def zscore_of_def dict_get_def arith_small arith_def [of "PFloat f" for f]
        fl_sub_def demo_engine_def demo_draws_def production_config_def demo_fd_def)
qed

lemma demo_features: "batch_features demo_engine demo_faults demo_batch (es_redis fresh_engine) = [demo_fd]"
  by (simp add: batch_features_def demo_vels demo_feature) (simp add: demo_faults_def)

lemma demo_rows: "batch_rows demo_engine demo_faults demo_batch fresh_engine = [sf_row_of demo_fd ''later'']"
  by (simp add: batch_rows_def demo_vels demo_feature) (simp add: demo_faults_def demo_feature, simp add: demo_draws_def)

lemma demo_run: "\<exists>st'. process_batch demo_engine demo_faults demo_batch fresh_engine = (Inr (), st') \<and> s3_buffer (es_s3 st') = []"
proof -
  have f: "f_redis demo_faults = None" "f_put demo_faults = None" "f_velocity demo_faults = None"
    by (simp_all add: demo_faults_def)
  have c: "\<not> ec_direct (ee_config demo_engine)" "ec_flush_batches (ee_config demo_engine) = 1"
    by (simp_all add: demo_engine_def production_config_def)
  obtain r where "write_batch (se_str (ee_scoring demo_engine)) True None [demo_fd] (es_redis fresh_engine) = (Inr (), r)"
    by (simp add: write_batch_def)
  then show ?thesis
    by (simp add: process_batch_alt demo_vels demo_features Let_def f c sink_step_def s3_write_batch_def
        add_batch_def should_flush_def s3_flush_def)
qed

lemma online_store_update_witness:
  "\<exists>st'. process_batch demo_engine demo_faults demo_batch fresh_engine = (Inr (), st') \<and>
    es_redis st' (user_key ''u1'' ''features'') = Some (Json (PDict demo_fd))"
proof -
  obtain st' where st': "process_batch demo_engine demo_faults demo_batch fresh_engine = (Inr (), st')" using demo_run by blast
  have "user_rows [demo_fd] ''u1'' = [demo_fd]"
    by (simp add: user_rows_def user_of_def demo_fd_def row_field) (simp add: demo_txn_def)
  then show ?thesis using online_store_update [OF st', of "''u1''"] st' by (simp add: demo_features)
qed

lemma location_never_poisoned_witness:
  "\<exists>st'. process_batch demo_engine demo_faults demo_batch fresh_engine = (Inr (), st') \<and>
    es_redis st' (user_key ''u2'' ''location'') = None"
proof -
  obtain st' where st': "process_batch demo_engine demo_faults demo_batch fresh_engine = (Inr (), st')" using demo_run by blast
  have "tx_user demo_txn = ''u1''" "es_redis fresh_engine (user_key ''u2'' ''location'') = None"
    by (simp_all add: demo_txn_def fresh_engine_def user_key_iff)
  with location_never_poisoned [OF st', of "''u2''"] st' show ?thesis by auto
qed

lemma rows_exactly_once_witness:
  "\<exists>st1 st2. run_batches demo_engine [(demo_faults, demo_batch)] fresh_engine = (Inr [sf_row_of demo_fd ''later''], st1) \<and>
    shutdown demo_engine (demo_faults\<lparr>f_stamp := ''20250601_120001''\<rparr>) st1 = (Inr (), st2) \<and>
    object_rows (es_s3 st2) = [sf_row_of demo_fd ''later'']"
proof -
  let ?f = "demo_faults\<lparr>f_stamp := ''20250601_120001''\<rparr>"
  obtain st1 where st1: "process_batch demo_engine demo_faults demo_batch fresh_engine = (Inr (), st1)" "s3_buffer (es_s3 st1) = []"
    using demo_run by blast
  have r: "run_batches demo_engine [(demo_faults, demo_batch)] fresh_engine = (Inr [sf_row_of demo_fd ''later''], st1)"
    by (simp add: st1 demo_rows)
  obtain st2 where st2: "shutdown demo_engine ?f st1 = (Inr (), st2)"
    by (simp add: shutdown_def s3_flush_def st1 snow_flush_def)
  have n: "names_unique demo_engine (map fst [(demo_faults, demo_batch)] @ [?f]) fresh_engine"
    by (simp add: names_unique_def bucket_keys_def fresh_engine_def demo_faults_def)
  have "\<not> ec_direct (ee_config demo_engine)" "held_rows demo_engine fresh_engine = []"
    by (simp_all add: demo_engine_def production_config_def held_rows_def staged.held_def fresh_engine_def object_rows_def)
  with rows_exactly_once [OF r st2 n] r st2 show ?thesis by auto
qed

lemma buffer_bounded_witness:
  "\<exists>st'. process_batch demo_engine demo_faults demo_batch fresh_engine = (Inr (), st') \<and> length (s3_buffer (es_s3 st')) < 50000"
proof -
  obtain st' where st': "process_batch demo_engine demo_faults demo_batch fresh_engine = (Inr (), st')" using demo_run by blast
  have "within_limits (ee_config demo_engine) (es_s3 fresh_engine)" "ec_flush_rows (ee_config demo_engine) = 50000"
    by (simp_all add: within_limits_def demo_engine_def production_config_def fresh_engine_def)
  with buffer_bounded [OF st'] st' show ?thesis by (auto simp: within_limits_def)
qed

lemma failed_flush_keeps_rows_witness:
  "\<exists>e st'. process_batch demo_engine (demo_faults\<lparr>f_put := Some e\<rparr>) demo_batch fresh_engine = (Inl e, st') \<and>
    held_rows demo_engine st' = [sf_row_of demo_fd ''later'']"
proof -
  let ?f = "demo_faults\<lparr>f_put := Some (Exn OSError [])\<rparr>"
  have v: "batch_vels ?f demo_batch (es_redis fresh_engine) = Inr [(''u1'', 6)]" by (simp add: demo_vels) (simp add: demo_faults_def)
  have "feature_of demo_engine ?f = feature_of demo_engine demo_faults" by (intro ext) (simp add: feature_of_def)
  then have "batch_rows demo_engine ?f demo_batch fresh_engine = batch_rows demo_engine demo_faults demo_batch fresh_engine"
    by (simp add: batch_rows_def batch_vels_def batch_locs_def cong: sum.case_cong)
  then have b: "batch_rows demo_engine ?f demo_batch fresh_engine = [sf_row_of demo_fd ''later'']" by (simp only: demo_rows)
  have "held_rows demo_engine fresh_engine = []"
    by (simp add: demo_engine_def production_config_def held_rows_def staged.held_def fresh_engine_def object_rows_def)
  moreover have "\<not> ec_direct (ee_config demo_engine)" "ec_flush_batches (ee_config demo_engine) \<le> Suc (s3_batches (es_s3 fresh_engine))"
    "f_redis ?f = None" by (simp_all add: demo_engine_def production_config_def fresh_engine_def demo_faults_def)
  ultimately show ?thesis
    using failed_flush_keeps_rows [of demo_engine ?f "Exn OSError []" demo_batch fresh_engine "[(''u1'', 6)]"] v b by auto
qed

lemma unconfined_session_reused_witness:
  "\<exists>s2. snd (snow_write_batch None None None [[]] (snd (snow_write_batch None (Some (Exn OSError [])) None [[]] (es_snow fresh_engine)))) = s2 \<and>
    \<not> sn_confined s2 \<and> sn_rows s2 = [[]]"
  using unconfined_session_reused [of "es_snow fresh_engine" "[[]]" "Exn OSError []"] by (auto simp: fresh_engine_def)

lemma last_window_wins_witness:
  "\<exists>r'. write_velocity_batch True None
      [\<lparr>v_user = ''u1'', v_count = 9, v_start = ''12:00'', v_end = ''12:15''\<rparr>,
       \<lparr>v_user = ''u1'', v_count = 1, v_start = ''12:14'', v_end = ''12:29''\<rparr>] 5 Map.empty = (Inr 1, r') \<and>
    velocity_of (r' (user_key ''u1'' ''velocity'')) = Inr 1"
  using last_window_wins [of "[\<lparr>v_user = ''u1'', v_count = 9, v_start = ''12:00'', v_end = ''12:15''\<rparr>]"
      "\<lparr>v_user = ''u1'', v_count = 1, v_start = ''12:14'', v_end = ''12:29''\<rparr>" "[]" 5 Map.empty]
  by (auto simp: write_velocity_batch_def)

lemma nan_amount_rejected:
  assumes "tx_amount row = Some NaN"
  shows "\<not> is_ok (build_feature_row env cfg baseline last_loc v devices uid now True row)"
proof
  assume "is_ok (build_feature_row env cfg baseline last_loc v devices uid now True row)"
  then obtain fd where "build_feature_row env cfg baseline last_loc v devices uid now True row = Inr fd" unfolding is_ok_conv by blast
  then show False
    by (rule build_feature_rowE) (auto simp: assms validate_feature_row_def item_def row_field validate_amount_ok)
qed

lemma bad_row_isolated_witness:
  "process_batch demo_engine demo_faults ([(demo_txn, demo_draws)] @ (demo_txn\<lparr>tx_user := ''u2'', tx_amount := Some NaN\<rparr>, demo_draws) # []) fresh_engine
    = process_batch demo_engine demo_faults ([(demo_txn, demo_draws)] @ []) fresh_engine"
  by (rule bad_row_isolated)
    (simp_all add: feature_of_def Let_def nan_amount_rejected fresh_engine_def user_key_iff velocity_of_def)

end
