(* ===== verification/Multi_Agent.thy ===== *)
theory Multi_Agent
  imports Governance Scoring
begin

text \<open>
  \<open>agents/multi_agent\<close>: the blackboard, the four specialists, the router with its guardrails, and the run of
  the compiled graph.  The language model and the three tools are parameters: functions of the text they
  are given and of a state of the outside world, which may answer anything or raise.  The system prompt of
  each model call is fixed, so a call is given by its human message; \<open>str\<close> of a value is a parameter.
\<close>

section \<open>Specialists and their answers\<close>

datatype agent = feature_agent | risk_agent | policy_agent | decision_agent

fun agent_name :: "agent \<Rightarrow> string" where
  "agent_name feature_agent = ''feature_agent''"
| "agent_name risk_agent = ''risk_agent''"
| "agent_name policy_agent = ''policy_agent''"
| "agent_name decision_agent = ''decision_agent''"

definition specialist_agents :: "agent list" where
  "specialist_agents = [feature_agent, risk_agent, policy_agent, decision_agent]"

definition max_steps :: nat where
  "max_steps = 6"

record route_decision =
  rd_next :: agent
  rd_rationale :: string

record feature_findings =
  ff_patterns :: "string list"
  ff_summary :: string

record risk_assessment =
  ra_assessment :: string
  ra_borderline :: bool

datatype verdict = ALLOW | BLOCK | ESCALATE

fun verdict_text :: "verdict \<Rightarrow> string" where
  "verdict_text ALLOW = ''ALLOW''"
| "verdict_text BLOCK = ''BLOCK''"
| "verdict_text ESCALATE = ''ESCALATE''"

record decision_output =
  do_decision :: verdict
  do_confidence :: pyfloat
  do_pattern :: string
  do_reasoning :: string

section \<open>The blackboard\<close>

record blackboard =
  bb_messages :: "(string \<times> string) list"
  bb_tx :: pydict
  bb_features :: "string option"
  bb_patterns :: "string list option"
  bb_risk :: "string option"
  bb_borderline :: "bool option"
  bb_policy :: "string option"
  bb_invoked :: "agent list"
  bb_next :: "agent option"
  bb_decision :: "verdict option"
  bb_confidence :: "pyfloat option"
  bb_reasoning :: "string option"
  bb_identified :: "string option"

text \<open>The outside world of a team: the model behind each structured output, and the tools.\<close>

record 'w team =
  tm_route :: "string \<Rightarrow> 'w \<Rightarrow> (route_decision, 'w) out"
  tm_feature :: "string \<Rightarrow> 'w \<Rightarrow> (feature_findings, 'w) out"
  tm_risk :: "string \<Rightarrow> 'w \<Rightarrow> (risk_assessment, 'w) out"
  tm_policy :: "string \<Rightarrow> 'w \<Rightarrow> (string, 'w) out"
  tm_decide :: "string \<Rightarrow> 'w \<Rightarrow> (decision_output, 'w) out"
  tm_get_features :: "pyval \<Rightarrow> 'w \<Rightarrow> (string, 'w) out"
  tm_get_history :: "pyval \<Rightarrow> 'w \<Rightarrow> (string, 'w) out"
  tm_get_policy :: "string \<Rightarrow> string option \<Rightarrow> 'w \<Rightarrow> (string, 'w) out"
  tm_str :: "pyval \<Rightarrow> string"
  tm_list :: "string list \<Rightarrow> string"

text \<open>\<open>f"{state[k]}"\<close>, \<open>state.get(k) or default\<close>, and the text of a list of names\<close>

definition field_text :: "'w team \<Rightarrow> blackboard \<Rightarrow> string \<Rightarrow> string" where
  "field_text tm s k = str_val (tm_str tm) (dict_get (bb_tx s) k PNone)"

definition text_or :: "string option \<Rightarrow> string \<Rightarrow> string" where
  "text_or x d = (case x of Some t \<Rightarrow> if t = [] then d else t | None \<Rightarrow> d)"

definition list_repr :: "string list \<Rightarrow> string" where
  "list_repr xs = ''['' @ join '', '' (map (\<lambda>x. [CHR 0x27] @ x @ [CHR 0x27]) xs) @ '']''"

definition patterns_or :: "'w team \<Rightarrow> string list option \<Rightarrow> string \<Rightarrow> string" where
  "patterns_or tm x d = (case x of Some ps \<Rightarrow> if ps = [] then d else tm_list tm ps | None \<Rightarrow> d)"

section \<open>The router\<close>

definition available :: "blackboard \<Rightarrow> agent list" where
  "available s = filter (\<lambda>a. a \<notin> set (bb_invoked s)) specialist_agents"

definition evidence :: "'w team \<Rightarrow> blackboard \<Rightarrow> string" where
  "evidence tm s =
    ''Specialists already run: '' @ (if bb_invoked s = [] then ''none yet'' else list_repr (map agent_name (bb_invoked s))) @ newline @
    ''Available next: '' @ list_repr (map agent_name (available s)) @ newline @ newline @
    ''Feature findings: '' @ text_or (bb_features s) ''(not gathered)'' @ newline @
    ''Elevated patterns: '' @ (if text_or (bb_features s) [] = [] then ''(not gathered)''
       else (case bb_patterns s of None \<Rightarrow> ''None'' | Some ps \<Rightarrow> tm_list tm ps)) @ newline @
    ''Risk assessment: '' @ text_or (bb_risk s) ''(not gathered)'' @ newline @
    ''Policy guidance: '' @ text_or (bb_policy s) ''(not gathered)'' @ newline @ newline @
    ''Transaction basics: $'' @ field_text tm s ''amount'' @ '', velocity_15min='' @ field_text tm s ''velocity_15min'' @
    '', geo_distance_km='' @ field_text tm s ''geo_distance_km'' @
    '', time_since_last_txn_min='' @ field_text tm s ''time_since_last_txn_min'' @
    '', amount_zscore='' @ field_text tm s ''amount_zscore'' @ '', is_new_device='' @ field_text tm s ''is_new_device'' @ ''.''"

text \<open>The hard stops: nothing left to choose, or the step cap reached.\<close>

definition no_choice :: "blackboard \<Rightarrow> bool" where
  "no_choice s = (available s = [decision_agent] \<or> max_steps - 1 \<le> length (bb_invoked s))"

definition forced_choice :: "blackboard \<Rightarrow> agent \<times> string" where
  "forced_choice s =
    (if policy_agent \<in> set (available s) \<and> policy_agent \<notin> set (bb_invoked s)
     then (policy_agent, ''Step cap reached '' @ em_dash_text @ '' forcing the required policy grounding before the decision.'')
     else (decision_agent, ''All other specialists have contributed (or the step cap was reached) '' @ em_dash_text @
             '' moving to the final decision.''))"

text \<open>The guardrails on the model's choice: at most once each, and policy before a decision.\<close>

definition once_only :: "blackboard \<Rightarrow> agent \<times> string \<Rightarrow> pyexn + agent \<times> string" where
  "once_only s cr =
    (if fst cr \<in> set (available s) then Inr cr
     else (case available s of
        [] \<Rightarrow> Inl (Exn (OtherExn ''IndexError'') ''list index out of range'')
      | a # _ \<Rightarrow> Inr (a, ''(guardrail override) '' @ snd cr)))"

definition grounded :: "blackboard \<Rightarrow> agent \<times> string \<Rightarrow> agent \<times> string" where
  "grounded s cr =
    (if fst cr = decision_agent \<and> policy_agent \<notin> set (bb_invoked s)
     then (policy_agent, ''(guardrail override) A decision requires policy grounding first.'') else cr)"

definition take_route :: "agent \<times> string \<Rightarrow> blackboard \<Rightarrow> blackboard" where
  "take_route cr s = s\<lparr>bb_next := Some (fst cr),
     bb_messages := bb_messages s @ [(''orchestrator'', ''Routing to '' @ agent_name (fst cr) @ '': '' @ snd cr)]\<rparr>"

definition route :: "'w team \<Rightarrow> blackboard \<Rightarrow> 'w \<Rightarrow> (blackboard, 'w) out" where
  "route tm s w =
    (if no_choice s then (Inr (take_route (forced_choice s) s), w)
     else seq (tm_route tm (evidence tm s) w) (\<lambda>rd w.
       case once_only s (rd_next rd, rd_rationale rd) of
         Inl e \<Rightarrow> (Inl e, w)
       | Inr cr \<Rightarrow> (Inr (take_route (grounded s cr) s), w)))"

section \<open>The specialists\<close>

definition speak :: "agent \<Rightarrow> string \<Rightarrow> blackboard \<Rightarrow> blackboard" where
  "speak a text s = s\<lparr>bb_invoked := bb_invoked s @ [a], bb_messages := bb_messages s @ [(agent_name a, text)]\<rparr>"

definition feature_prompt :: "'w team \<Rightarrow> blackboard \<Rightarrow> string \<Rightarrow> string" where
  "feature_prompt tm s online =
    ''Transaction snapshot (from the feature pipeline):'' @ newline @
    ''amount: $'' @ field_text tm s ''amount'' @ newline @
    ''velocity_15min: '' @ field_text tm s ''velocity_15min'' @ newline @
    ''geo_distance_km: '' @ field_text tm s ''geo_distance_km'' @ newline @
    ''time_since_last_txn_min: '' @ field_text tm s ''time_since_last_txn_min'' @ newline @
    ''amount_zscore: '' @ field_text tm s ''amount_zscore'' @ newline @
    ''is_new_device: '' @ field_text tm s ''is_new_device'' @ newline @
    ''pre-computed risk_score: '' @ field_text tm s ''risk_score_raw'' @ newline @ newline @
    ''Current online feature store state for this user:'' @ newline @ online"

definition run_feature :: "'w team \<Rightarrow> blackboard \<Rightarrow> 'w \<Rightarrow> (blackboard, 'w) out" where
  "run_feature tm s w =
    seq (tm_get_features tm (dict_get (bb_tx s) ''user_id'' PNone) w) (\<lambda>online w.
    seq (tm_feature tm (feature_prompt tm s online) w) (\<lambda>f w.
      (Inr (speak feature_agent (ff_summary f) (s\<lparr>bb_features := Some (ff_summary f), bb_patterns := Some (ff_patterns f)\<rparr>)), w)))"

definition risk_prompt :: "'w team \<Rightarrow> blackboard \<Rightarrow> string \<Rightarrow> string" where
  "risk_prompt tm s history =
    ''Transaction: $'' @ field_text tm s ''amount'' @ '' at a '' @ field_text tm s ''merchant_category'' @
    '' merchant in '' @ field_text tm s ''city'' @ '', '' @ field_text tm s ''country'' @ ''.'' @ newline @ newline @
    ''Feature specialist'' @ [CHR 0x27] @ ''s findings:'' @ newline @ text_or (bb_features s) ''(feature analysis not run yet)'' @ newline @
    ''Elevated patterns: '' @ patterns_or tm (bb_patterns s) ''none identified'' @ newline @ newline @
    ''This user'' @ [CHR 0x27] @ ''s baseline profile:'' @ newline @ history"

definition run_risk :: "'w team \<Rightarrow> blackboard \<Rightarrow> 'w \<Rightarrow> (blackboard, 'w) out" where
  "run_risk tm s w =
    seq (tm_get_history tm (dict_get (bb_tx s) ''user_id'' PNone) w) (\<lambda>history w.
    seq (tm_risk tm (risk_prompt tm s history) w) (\<lambda>r w.
      (Inr (speak risk_agent (ra_assessment r) (s\<lparr>bb_risk := Some (ra_assessment r), bb_borderline := Some (ra_borderline r)\<rparr>)), w)))"

text \<open>One policy search for each elevated pattern, or one general search.\<close>

fun search_patterns :: "'w team \<Rightarrow> string list \<Rightarrow> 'w \<Rightarrow> (string list, 'w) out" where
  "search_patterns tm [] w = (Inr [], w)"
| "search_patterns tm (p # ps) w =
    seq (tm_get_policy tm (''What are the detection thresholds and recommended handling for '' @ p @ ''?'') (Some p) w) (\<lambda>chunk w.
    seq (search_patterns tm ps w) (\<lambda>rest w.
      (Inr ((''=== Retrieved for '' @ p @ '' ==='' @ newline @ chunk) # rest), w)))"

definition excerpts :: "'w team \<Rightarrow> string list \<Rightarrow> 'w \<Rightarrow> (string list, 'w) out" where
  "excerpts tm elevated w =
    (if elevated = []
     then seq (tm_get_policy tm ''How should a transaction be handled when it was flagged for review but no individual fraud signal is strongly elevated?'' None w)
       (\<lambda>chunk w. (Inr [''=== Retrieved (no specific pattern elevated) ==='' @ newline @ chunk], w))
     else search_patterns tm elevated w)"

definition policy_prompt :: "'w team \<Rightarrow> blackboard \<Rightarrow> string list \<Rightarrow> string list \<Rightarrow> string" where
  "policy_prompt tm s elevated ex =
    ''Transaction: $'' @ field_text tm s ''amount'' @ '', velocity_15min='' @ field_text tm s ''velocity_15min'' @
    '', geo_distance_km='' @ field_text tm s ''geo_distance_km'' @ '', amount_zscore='' @ field_text tm s ''amount_zscore'' @
    '', is_new_device='' @ field_text tm s ''is_new_device'' @ ''.'' @ newline @
    ''Elevated patterns: '' @ patterns_or tm (Some elevated) ''none'' @ newline @ newline @
    ''Retrieved policy excerpts:'' @ newline @ newline @ join (newline @ newline) ex"

definition run_policy :: "'w team \<Rightarrow> blackboard \<Rightarrow> 'w \<Rightarrow> (blackboard, 'w) out" where
  "run_policy tm s w =
    (let elevated = (case bb_patterns s of Some ps \<Rightarrow> ps | None \<Rightarrow> [])
     in seq (excerpts tm elevated w) (\<lambda>ex w.
        seq (tm_policy tm (policy_prompt tm s elevated ex) w) (\<lambda>guidance w.
          (Inr (speak policy_agent guidance (s\<lparr>bb_policy := Some guidance\<rparr>)), w))))"

definition risk_section :: "blackboard \<Rightarrow> string" where
  "risk_section s =
    (case bb_risk s of
       Some r \<Rightarrow> if r = [] then ''Risk specialist: SKIPPED by the orchestrator '' @ em_dash_text @ '' no per-user baseline context available.''
         else ''Risk specialist (per-user baseline):'' @ newline @ r @ newline @ ''Marked borderline: '' @
           (case bb_borderline s of None \<Rightarrow> ''None'' | Some b \<Rightarrow> if b then ''True'' else ''False'')
     | None \<Rightarrow> ''Risk specialist: SKIPPED by the orchestrator '' @ em_dash_text @ '' no per-user baseline context available.'')"

definition decision_prompt :: "'w team \<Rightarrow> blackboard \<Rightarrow> string" where
  "decision_prompt tm s =
    ''Transaction '' @ field_text tm s ''transaction_id'' @ '': $'' @ field_text tm s ''amount'' @ '' at a '' @
    field_text tm s ''merchant_category'' @ '' merchant in '' @ field_text tm s ''city'' @ '', '' @ field_text tm s ''country'' @
    '' (user '' @ field_text tm s ''user_id'' @ '').'' @ newline @ newline @
    ''Feature specialist:'' @ newline @ text_or (bb_features s) ''NOT RUN'' @ newline @
    ''Elevated patterns: '' @ patterns_or tm (bb_patterns s) ''none'' @ newline @ newline @
    risk_section s @ newline @ newline @
    ''Policy specialist:'' @ newline @ text_or (bb_policy s) ''NOT RUN'' @ newline @ newline @
    ''Provide your final structured decision.''"

definition run_decision :: "'w team \<Rightarrow> blackboard \<Rightarrow> 'w \<Rightarrow> (blackboard, 'w) out" where
  "run_decision tm s w =
    seq (tm_decide tm (decision_prompt tm s) w) (\<lambda>d w.
      (Inr (speak decision_agent (do_reasoning d) (s\<lparr>bb_decision := Some (do_decision d), bb_confidence := Some (do_confidence d),
         bb_identified := Some (do_pattern d), bb_reasoning := Some (do_reasoning d)\<rparr>)), w))"

fun run_specialist :: "'w team \<Rightarrow> agent \<Rightarrow> blackboard \<Rightarrow> 'w \<Rightarrow> (blackboard, 'w) out" where
  "run_specialist tm feature_agent = run_feature tm"
| "run_specialist tm risk_agent = run_risk tm"
| "run_specialist tm policy_agent = run_policy tm"
| "run_specialist tm decision_agent = run_decision tm"

section \<open>The compiled graph\<close>

lemma route_ok:
  assumes "route tm s w = (Inr s1, w1)"
  shows "\<exists>a r. s1 = take_route (a, r) s \<and> (a = decision_agent \<or> a \<in> set (available s)) \<and>
    (a = decision_agent \<longrightarrow> policy_agent \<in> set (bb_invoked s))"
proof (cases "no_choice s")
  case True
  have "policy_agent \<in> set (available s) \<or> policy_agent \<in> set (bb_invoked s)"
    by (auto simp: available_def specialist_agents_def)
  then show ?thesis using assms True by (auto simp: route_def forced_choice_def split: if_splits)
next
  case False
  then obtain rd :: route_decision and w0 where rd: "(case once_only s (rd_next rd, rd_rationale rd) of
      Inl e \<Rightarrow> (Inl e, w0) | Inr cr \<Rightarrow> (Inr (take_route (grounded s cr) s), w0)) = (Inr s1, w1)"
    using assms by (simp add: route_def seq_Inr_conv) (elim exE conjE, rule that)
  then obtain cr where cr: "once_only s (rd_next rd, rd_rationale rd) = Inr cr" "s1 = take_route (grounded s cr) s"
    by (cases "once_only s (rd_next rd, rd_rationale rd)") auto
  then have av: "fst cr \<in> set (available s)" by (auto simp: once_only_def split: if_splits list.splits)
  have "policy_agent \<notin> set (bb_invoked s) \<Longrightarrow> policy_agent \<in> set (available s)"
    by (auto simp: available_def specialist_agents_def)
  then show ?thesis using cr(2) av by (cases "grounded s cr") (auto simp: grounded_def split: if_splits)
qed

lemma take_route_simps [simp]:
  "bb_next (take_route cr s) = Some (fst cr)" "bb_invoked (take_route cr s) = bb_invoked s"
  "bb_policy (take_route cr s) = bb_policy s" "bb_decision (take_route cr s) = bb_decision s"
  "bb_tx (take_route cr s) = bb_tx s"
  by (simp_all add: take_route_def)

lemma specialist_ok:
  assumes "run_specialist tm a s w = (Inr s', w')"
  shows "bb_invoked s' = bb_invoked s @ [a]"
    and "bb_policy s' = (if a = policy_agent then bb_policy s' else bb_policy s)"
    and "a = policy_agent \<Longrightarrow> bb_policy s' \<noteq> None"
  using assms
  by (cases a; auto simp: run_feature_def run_risk_def run_policy_def run_decision_def speak_def seq_Inr_conv Let_def)+

lemma decision_ok:
  "run_decision tm s w = (Inr s', w') \<Longrightarrow> \<exists>d w0. tm_decide tm (decision_prompt tm s) w = (Inr d, w0) \<and>
    bb_decision s' = Some (do_decision d) \<and> bb_confidence s' = Some (do_confidence d) \<and>
    bb_identified s' = Some (do_pattern d) \<and> bb_reasoning s' = Some (do_reasoning d)"
  by (auto simp: run_decision_def speak_def seq_Inr_conv)

lemma available_less:
  assumes "a \<in> set (available s)" "bb_invoked s' = bb_invoked s @ [a]"
  shows "length (available s') < length (available s)"
proof -
  have "available s' = filter (\<lambda>b. b \<noteq> a) (available s)"
    using assms(2) by (auto simp: available_def intro!: filter_cong)
  then show ?thesis using assms(1) length_filter_less [of a "available s" "\<lambda>b. b \<noteq> a"] by simp
qed

text \<open>The run: orchestrator, the chosen specialist, and back, until the decision.\<close>

function run_graph :: "'w team \<Rightarrow> blackboard \<Rightarrow> 'w \<Rightarrow> (blackboard, 'w) out" where
  "run_graph tm s w =
    (case route tm s w of
       (Inl e, w1) \<Rightarrow> (Inl e, w1)
     | (Inr s1, w1) \<Rightarrow>
        (case bb_next s1 of
           None \<Rightarrow> (Inl (Exn KeyError ''None''), w1)
         | Some a \<Rightarrow>
            (case run_specialist tm a s1 w1 of
               (Inl e, w2) \<Rightarrow> (Inl e, w2)
             | (Inr s2, w2) \<Rightarrow> if a = decision_agent then (Inr s2, w2) else run_graph tm s2 w2)))"
  by pat_completeness auto
termination
proof (relation "measure (\<lambda>(tm, s, w). length (available s))", goal_cases)
  case (2 tm s w x w1 s1 a y w2 s2)
  then obtain b r where b: "s1 = take_route (b, r) s" "b = decision_agent \<or> b \<in> set (available s)"
    using route_ok [of tm s w s1 w1] by auto
  moreover have "b = a" using 2 b by simp
  ultimately show ?case
    using 2 specialist_ok(1) [of tm a s1 w1 s2 w2] available_less [of a s s2] by auto
qed simp

declare run_graph.simps [simp del]

definition required_keys :: "string list" where
  "required_keys = [''transaction_id'', ''amount'', ''user_id'', ''merchant_category'', ''city'', ''country'',
     ''risk_score_raw'', ''is_flagged_for_review'', ''is_new_device'']"

definition optional_keys :: "string list" where
  "optional_keys = [''geo_distance_km'', ''time_since_last_txn_min'', ''amount_zscore'', ''velocity_15min'']"

definition initial_state :: "'w team \<Rightarrow> pydict \<Rightarrow> pyexn + blackboard" where
  "initial_state tm transaction =
    and_then (pick transaction required_keys) (\<lambda>req.
      let tx = req @ map (\<lambda>k. (k, dict_get transaction k PNone)) optional_keys;
          txt = (\<lambda>k. str_val (tm_str tm) (dict_get tx k PNone))
      in Inr \<lparr>bb_messages = [(''human'', ''Evaluate transaction '' @ txt ''transaction_id'' @ '': $'' @ txt ''amount'' @
                '' by user '' @ txt ''user_id'' @ '' at a '' @ txt ''merchant_category'' @ '' merchant in '' @
                txt ''city'' @ '', '' @ txt ''country'' @ ''.'')],
              bb_tx = tx, bb_features = None, bb_patterns = None, bb_risk = None, bb_borderline = None,
              bb_policy = None, bb_invoked = [], bb_next = None, bb_decision = None, bb_confidence = None,
              bb_reasoning = None, bb_identified = None\<rparr>)"

definition evaluate :: "'w team \<Rightarrow> pydict \<Rightarrow> 'w \<Rightarrow> (blackboard, 'w) out" where
  "evaluate tm transaction w =
    (case initial_state tm transaction of Inl e \<Rightarrow> (Inl e, w) | Inr s \<Rightarrow> run_graph tm s w)"

section \<open>Runs\<close>

text \<open>What holds between two turns of the router.\<close>

definition turn_inv :: "blackboard \<Rightarrow> bool" where
  "turn_inv s = (distinct (bb_invoked s) \<and> decision_agent \<notin> set (bb_invoked s) \<and>
     (policy_agent \<in> set (bb_invoked s) \<longrightarrow> bb_policy s \<noteq> None))"

lemma turn_inv_step:
  assumes "turn_inv s" "a \<in> set (available s)" "a \<noteq> decision_agent" "run_specialist tm a (take_route (a, r) s) w = (Inr s2, w2)"
  shows "turn_inv s2"
  using assms specialist_ok [OF assms(4)]
  by (cases "a = policy_agent") (auto simp: turn_inv_def available_def)

lemma run_graph_step:
  "route tm s w = (Inr (take_route (a, r) s), w1) \<Longrightarrow> run_graph tm s w =
    (case run_specialist tm a (take_route (a, r) s) w1 of
       (Inl e, w2) \<Rightarrow> (Inl e, w2)
     | (Inr s2, w2) \<Rightarrow> if a = decision_agent then (Inr s2, w2) else run_graph tm s2 w2)"
  by (subst run_graph.simps) simp

text \<open>Every turn that does not end the run adds one specialist, so the length of a run is bounded.\<close>

lemma run_graph_ends:
  assumes "turn_inv s" "run_graph tm s w = (Inr s', w')"
  shows "\<exists>before s0 w0. bb_invoked s' = before @ [decision_agent] \<and> policy_agent \<in> set before \<and>
    distinct (bb_invoked s') \<and> bb_policy s' \<noteq> None \<and> run_decision tm s0 w0 = (Inr s', w')"
  using assms
proof (induction tm s w rule: run_graph.induct)
  case (1 tm s w)
  obtain s1 w1 where s1: "route tm s w = (Inr s1, w1)"
    using "1.prems"(2) by (auto simp: run_graph.simps [of tm s w] split: prod.splits sum.splits)
  obtain a r where a: "s1 = take_route (a, r) s" "a = decision_agent \<or> a \<in> set (available s)"
    "a = decision_agent \<longrightarrow> policy_agent \<in> set (bb_invoked s)" using route_ok [OF s1] by blast
  note step = run_graph_step [OF s1 [unfolded a(1)], folded a(1)]
  obtain s2 w2 where s2: "run_specialist tm a s1 w1 = (Inr s2, w2)"
    using "1.prems"(2) unfolding step by (cases "run_specialist tm a s1 w1"; cases "fst (run_specialist tm a s1 w1)") simp_all
  show ?case
  proof (cases "a = decision_agent")
    case True
    then have e: "s' = s2" "w' = w2" using "1.prems"(2) unfolding step s2 by simp_all
    have "bb_invoked s' = bb_invoked s @ [decision_agent]" "bb_policy s' = bb_policy s"
      using specialist_ok(1,2) [OF s2] True e a(1) by simp_all
    then show ?thesis using "1.prems"(1) a(3) True s2 e by (auto simp: turn_inv_def)
  next
    case False
    then have "run_graph tm s2 w2 = (Inr s', w')" using "1.prems"(2) unfolding step s2 by simp
    moreover have "turn_inv s2" using turn_inv_step [OF "1.prems"(1)] a s2 False by auto
    ultimately show ?thesis using "1.IH" [OF s1 [symmetric] refl _ s2 [symmetric] refl False] a(1) by simp
  qed
qed

lemma initial_inv: "initial_state tm transaction = Inr s \<Longrightarrow> turn_inv s"
  by (auto simp: initial_state_def Let_def turn_inv_def)

lemma evaluate_run:
  assumes "evaluate tm transaction w = (Inr s, w')"
  obtains s0 where "turn_inv s0" "run_graph tm s0 w = (Inr s, w')"
  using assms initial_inv [of tm transaction] by (cases "initial_state tm transaction") (auto simp: evaluate_def)

text \<open>A team that never raises.\<close>

definition answers :: "'w team \<Rightarrow> bool" where
  "answers tm = ((\<forall>p w. is_ok (fst (tm_route tm p w))) \<and> (\<forall>p w. is_ok (fst (tm_feature tm p w))) \<and>
     (\<forall>p w. is_ok (fst (tm_risk tm p w))) \<and> (\<forall>p w. is_ok (fst (tm_policy tm p w))) \<and>
     (\<forall>p w. is_ok (fst (tm_decide tm p w))) \<and> (\<forall>u w. is_ok (fst (tm_get_features tm u w))) \<and>
     (\<forall>u w. is_ok (fst (tm_get_history tm u w))) \<and> (\<forall>q p w. is_ok (fst (tm_get_policy tm q p w))))"

lemma seq_is_ok: "is_ok (fst r) \<Longrightarrow> (\<And>a s. is_ok (fst (k a s))) \<Longrightarrow> is_ok (fst (seq r k))"
  by (cases r; cases "fst r") auto

lemma searches_answer: "answers tm \<Longrightarrow> is_ok (fst (search_patterns tm ps w))"
  by (induction ps arbitrary: w) (auto simp: answers_def intro!: seq_is_ok)

lemma specialist_answers: "answers tm \<Longrightarrow> is_ok (fst (run_specialist tm a s w))"
  using searches_answer [of tm]
  by (cases a) (auto simp: run_feature_def run_risk_def run_policy_def run_decision_def excerpts_def Let_def answers_def intro!: seq_is_ok)

lemma route_answers: "answers tm \<Longrightarrow> decision_agent \<notin> set (bb_invoked s) \<Longrightarrow> is_ok (fst (route tm s w))"
proof -
  assume a: "answers tm" "decision_agent \<notin> set (bb_invoked s)"
  then have "decision_agent \<in> set (available s)" by (simp add: available_def specialist_agents_def)
  then have once: "is_ok (once_only s cr)" for cr by (cases "available s") (auto simp: once_only_def)
  have "is_ok (fst (case once_only s cr of Inl e \<Rightarrow> (Inl e, w) | Inr cr \<Rightarrow> (Inr (take_route (grounded s cr) s), w)))" for cr and w :: 'a
    using once [of cr] by (cases "once_only s cr") auto
  then show ?thesis using a(1) by (auto simp: route_def answers_def intro!: seq_is_ok)
qed

lemma run_graph_answers:
  assumes "answers tm" "turn_inv s" shows "is_ok (fst (run_graph tm s w))"
  using assms
proof (induction tm s w rule: run_graph.induct)
  case (1 tm s w)
  obtain s1 w1 where s1: "route tm s w = (Inr s1, w1)"
    using route_answers [OF "1.prems"(1), of s w] "1.prems"(2) unfolding turn_inv_def by (metis is_ok_conv prod.collapse)
  obtain a r where a: "s1 = take_route (a, r) s" "a = decision_agent \<or> a \<in> set (available s)" using route_ok [OF s1] by blast
  note step = run_graph_step [OF s1 [unfolded a(1)], folded a(1)]
  obtain s2 w2 where s2: "run_specialist tm a s1 w1 = (Inr s2, w2)"
    using specialist_answers [OF "1.prems"(1)] by (metis is_ok_conv prod.collapse)
  show ?case
  proof (cases "a = decision_agent")
    case True
    then show ?thesis unfolding step s2 by simp
  next
    case False
    then have "turn_inv s2" using turn_inv_step [OF "1.prems"(2)] a s2 by auto
    then have "is_ok (fst (run_graph tm s2 w2))"
      using "1.IH" [OF s1 [symmetric] refl _ s2 [symmetric] refl False "1.prems"(1)] a(1) by simp
    then show ?thesis using False unfolding step s2 by simp
  qed
qed

section \<open>Properties\<close>

text \<open>C4: Whatever the model answers, a run that returns has a decision, the decision specialist acted last and
  once, the policy specialist acted before it and left its guidance, and nobody acted twice, so at most four
  specialists were called.\<close>

theorem decision_is_grounded:
  assumes "evaluate tm transaction w = (Inr s, w')"
  shows "\<exists>before. bb_invoked s = before @ [decision_agent] \<and> policy_agent \<in> set before \<and> decision_agent \<notin> set before \<and>
    distinct (bb_invoked s) \<and> length (bb_invoked s) \<le> 4 \<and> bb_policy s \<noteq> None \<and> bb_decision s \<noteq> None"
proof -
  obtain s0 where "turn_inv s0" "run_graph tm s0 w = (Inr s, w')" using assms by (rule evaluate_run)
  from run_graph_ends [OF this] obtain before s1 w1 where b: "bb_invoked s = before @ [decision_agent]" "policy_agent \<in> set before"
    "distinct (bb_invoked s)" "bb_policy s \<noteq> None" "run_decision tm s1 w1 = (Inr s, w')" by blast
  have "set (bb_invoked s) \<subseteq> set specialist_agents"
    using agent.exhaust by (auto simp: specialist_agents_def)
  then have "card (set (bb_invoked s)) \<le> card (set specialist_agents)" by (intro card_mono) simp_all
  then have "length (bb_invoked s) \<le> 4" using distinct_card [OF b(3)] by (simp add: specialist_agents_def)
  then show ?thesis using b decision_ok [OF b(5)] by auto
qed

text \<open>C24: A run always comes to an end with a decision when neither the model nor a tool raises, whatever they
  answer: the guardrails never run out of specialists.\<close>

theorem evaluation_answers:
  assumes "answers tm" "\<forall>k\<in>set required_keys. k \<in> fst ` set transaction"
  shows "\<exists>s w'. evaluate tm transaction w = (Inr s, w') \<and> bb_decision s \<noteq> None"
proof -
  obtain s0 where s0: "initial_state tm transaction = Inr s0"
    using pick_ok [OF assms(2)] by (simp add: initial_state_def Let_def)
  obtain s w' where r: "run_graph tm s0 w = (Inr s, w')"
    using run_graph_answers [OF assms(1) initial_inv [OF s0], of w] by (metis is_ok_conv prod.collapse)
  from run_graph_ends [OF initial_inv [OF s0] r] decision_ok show ?thesis
    using r s0 by (fastforce simp: evaluate_def)
qed

text \<open>From the agents to governance: when the model's confidence lies between 0 and 1, as its output schema
  says, the decision of a run passes the checks of persistence with any tier exactly when the pattern it
  names is NONE or one of the four labels; the output schema does not restrict the pattern.\<close>

theorem decision_persistable_iff:
  assumes "\<forall>p w d w'. tm_decide tm p w = (Inr d, w') \<longrightarrow> (\<exists>c. do_confidence d = Fin c \<and> 0 \<le> c \<and> c \<le> 1)"
    and "evaluate tm transaction w = (Inr s, w')"
  shows "validate_decision_record (PStr (verdict_text (the (bb_decision s)))) (PFloat (the (bb_confidence s)))
      (PStr (the (bb_identified s))) (PStr (tier_text t)) = Inr () \<longleftrightarrow>
    the (bb_identified s) \<in> {''NONE'', ''VELOCITY_SPIKE'', ''GEO_JUMP'', ''NEW_DEVICE'', ''AMOUNT_ANOMALY''}"
proof -
  obtain s0 where "turn_inv s0" "run_graph tm s0 w = (Inr s, w')" using assms(2) by (rule evaluate_run)
  from run_graph_ends [OF this] obtain s1 w1 where "run_decision tm s1 w1 = (Inr s, w')" by blast
  from decision_ok [OF this] obtain d w2 where d: "tm_decide tm (decision_prompt tm s1) w1 = (Inr d, w2)"
    "bb_decision s = Some (do_decision d)" "bb_confidence s = Some (do_confidence d)" "bb_identified s = Some (do_pattern d)" by blast
  from d(1) assms(1) obtain c where c: "do_confidence d = Fin c" "0 \<le> c" "c \<le> 1" by blast
  have "PStr (tier_text t) \<in> PStr ` {''AUTO_APPROVE'', ''SUGGEST'', ''NOTIFY_ONLY''}" by (cases t) simp_all
  moreover have "PStr (verdict_text v) \<in> PStr ` {''ALLOW'', ''BLOCK'', ''ESCALATE''}" for v by (cases v) simp_all
  ultimately show ?thesis
    using c unfolding decision_record_accepts d option.sel by (auto simp: unit_interval_Fin)
qed

section \<open>A concrete team\<close>

definition stubborn_team :: "nat team" where
  "stubborn_team = \<lparr>tm_route = (\<lambda>_ n. (Inr \<lparr>rd_next = decision_agent, rd_rationale = ''done''\<rparr>, Suc n)),
     tm_feature = (\<lambda>_ n. (Inr \<lparr>ff_patterns = [''GEO_JUMP''], ff_summary = ''far away''\<rparr>, n)),
     tm_risk = (\<lambda>_ n. (Inr \<lparr>ra_assessment = ''unusual'', ra_borderline = True\<rparr>, n)),
     tm_policy = (\<lambda>_ n. (Inr ''block above 900 km/h'', n)),
     tm_decide = (\<lambda>_ n. (Inr \<lparr>do_decision = BLOCK, do_confidence = Fin (9 / 10), do_pattern = ''GEO_JUMP'', do_reasoning = ''policy''\<rparr>, n)),
     tm_get_features = (\<lambda>_ n. (Inr ''no feature data'', n)), tm_get_history = (\<lambda>_ n. (Inr ''no profile'', n)),
     tm_get_policy = (\<lambda>_ _ n. (Inr ''section 2'', n)), tm_str = (\<lambda>_. ''?''), tm_list = list_repr\<rparr>"

definition demo_transaction :: pydict where
  "demo_transaction = map (\<lambda>k. (k, PStr ''x'')) required_keys"

lemma stubborn_answers: "answers stubborn_team"
  by (simp add: answers_def stubborn_team_def)

lemma demo_keys: "\<forall>k\<in>set required_keys. k \<in> fst ` set demo_transaction"
  by (simp add: demo_transaction_def image_image)

lemma evaluation_answers_witness:
  "\<exists>s w'. evaluate stubborn_team demo_transaction 0 = (Inr s, w') \<and> bb_decision s \<noteq> None"
  by (rule evaluation_answers [OF stubborn_answers demo_keys])

lemma stubborn_run: "is_ok (fst (evaluate stubborn_team demo_transaction 0))"
proof -
  obtain s0 where "initial_state stubborn_team demo_transaction = Inr s0"
    using pick_ok [OF demo_keys] by (simp add: initial_state_def Let_def)
  then show ?thesis
    using run_graph_answers [OF stubborn_answers initial_inv] by (simp add: evaluate_def)
qed

lemma decision_is_grounded_witness:
  "\<exists>s w'. evaluate stubborn_team demo_transaction 0 = (Inr s, w') \<and> policy_agent \<in> set (bb_invoked s)"
proof -
  obtain s w' where e: "evaluate stubborn_team demo_transaction 0 = (Inr s, w')"
    using stubborn_run by (metis is_ok_conv prod.collapse)
  from decision_is_grounded [OF e] e show ?thesis by auto
qed

lemma decision_persistable_iff_witness:
  "\<exists>s w'. evaluate stubborn_team demo_transaction 0 = (Inr s, w') \<and>
    (validate_decision_record (PStr (verdict_text (the (bb_decision s)))) (PFloat (the (bb_confidence s)))
      (PStr (the (bb_identified s))) (PStr (tier_text NOTIFY_ONLY)) = Inr () \<longleftrightarrow>
    the (bb_identified s) \<in> {''NONE'', ''VELOCITY_SPIKE'', ''GEO_JUMP'', ''NEW_DEVICE'', ''AMOUNT_ANOMALY''})"
proof -
  obtain s w' where e: "evaluate stubborn_team demo_transaction 0 = (Inr s, w')"
    using stubborn_run by (metis is_ok_conv prod.collapse)
  have "\<forall>p w d w'. tm_decide stubborn_team p w = (Inr d, w') \<longrightarrow> (\<exists>c. do_confidence d = Fin c \<and> 0 \<le> c \<and> c \<le> 1)"
    by (auto simp: stubborn_team_def intro: exI [of _ "9 / 10"])
  from decision_persistable_iff [OF this e, of NOTIFY_ONLY] e show ?thesis by blast
qed

end
