(* ===== verification/Single_Agent.thy ===== *)
theory Single_Agent
  imports Multi_Agent Feature_Engine
begin

text \<open>
  \<open>agents/single_agent\<close>: the three tools with their readers, and the reason-and-act loop with its step cap.
  The language model, the node that executes tool calls, the embedder and the knowledge base are parameters;
  so is \<open>json.dumps\<close>.  Messages are those of the conversation, tool calls included.
\<close>

section \<open>The tools\<close>

text \<open>The reader of the online store; a text that does not parse raises.\<close>

definition get_features :: "string \<Rightarrow> redis \<Rightarrow> pyexn + pyval" where
  "get_features uid r =
    (case r (user_key uid ''features'') of
       None \<Rightarrow> Inr PNone
     | Some (Json v) \<Rightarrow> Inr v
     | Some (Garbled t) \<Rightarrow> if t = [] then Inr PNone else Inl (Exn (OtherExn ''JSONDecodeError'') ''Expecting value''))"

definition get_transaction_features :: "(pyval \<Rightarrow> string) \<Rightarrow> string \<Rightarrow> redis \<Rightarrow> pyexn + string" where
  "get_transaction_features dumps uid r =
    and_then (get_features uid r) (\<lambda>v.
      Inr (if truthy v then dumps v else ''No feature data found in the online store for user '' @ uid @ ''.''))"

record history_db =
  hd_profile :: "string \<Rightarrow> pydict option"
  hd_trusted :: "string \<Rightarrow> int option"

definition read_user_history :: "history_db \<Rightarrow> string \<Rightarrow> pydict option" where
  "read_user_history db uid =
    map_option (AList.update ''trusted_device_count'' (PInt (case hd_trusted db uid of Some n \<Rightarrow> n | None \<Rightarrow> 0))) (hd_profile db uid)"

definition get_user_history :: "(pyval \<Rightarrow> string) \<Rightarrow> history_db \<Rightarrow> string \<Rightarrow> string" where
  "get_user_history dumps db uid =
    (case read_user_history db uid of
       None \<Rightarrow> ''No user profile found for user '' @ uid @ ''.''
     | Some p \<Rightarrow> if p = [] then ''No user profile found for user '' @ uid @ ''.'' else dumps (PDict p))"

record search_hit =
  sh_pattern :: string
  sh_section :: string
  sh_score :: real
  sh_text :: string

definition format_hit :: "search_hit \<Rightarrow> string" where
  "format_hit h = ''['' @ sh_pattern h @ '' / '' @ sh_section h @ ''] (relevance: '' @ fixed2 False (sh_score h) @ '')'' @
     newline @ sh_text h"

definition get_policy_context :: "(string \<Rightarrow> 'v) \<Rightarrow> (string \<Rightarrow> 'v \<Rightarrow> nat \<Rightarrow> string option \<Rightarrow> search_hit list) \<Rightarrow> string \<Rightarrow> string option \<Rightarrow> string" where
  "get_policy_context vec search question pattern =
    (let hits = search question (vec question) 3 pattern
     in if hits = [] then ''No relevant policy guidance found.''
        else join (newline @ newline @ ''---'' @ newline @ newline) (map format_hit hits))"

section \<open>The loop\<close>

record tool_call =
  tc_name :: string
  tc_args :: pydict

datatype message = System string | Human string | AI string "tool_call list" | Tool_Result string

fun is_ai :: "message \<Rightarrow> bool" where
  "is_ai (AI _ _) = True"
| "is_ai _ = False"

fun wants_tools :: "message \<Rightarrow> bool" where
  "wants_tools (AI _ calls) = (calls \<noteq> [])"
| "wants_tools _ = False"

fun calls_of :: "message \<Rightarrow> tool_call list" where
  "calls_of (AI _ calls) = calls"
| "calls_of _ = []"

definition max_reasoning_steps :: nat where
  "max_reasoning_steps = 8"

record 'w reasoner =
  rs_model :: "message list \<Rightarrow> 'w \<Rightarrow> (string \<times> tool_call list, 'w) out"
  rs_tools :: "tool_call list \<Rightarrow> 'w \<Rightarrow> (string list, 'w) out"
  rs_decide :: "message list \<Rightarrow> 'w \<Rightarrow> (decision_output, 'w) out"

definition ai_count :: "message list \<Rightarrow> nat" where
  "ai_count ms = length (filter is_ai ms)"

definition call_model :: "'w reasoner \<Rightarrow> message list \<Rightarrow> 'w \<Rightarrow> (message list, 'w) out" where
  "call_model rs ms w = seq (rs_model rs ms w) (\<lambda>(txt, calls) w. (Inr (ms @ [AI txt calls]), w))"

definition call_tools :: "'w reasoner \<Rightarrow> message list \<Rightarrow> 'w \<Rightarrow> (message list, 'w) out" where
  "call_tools rs ms w = seq (rs_tools rs (calls_of (last ms)) w) (\<lambda>outs w. (Inr (ms @ map Tool_Result outs), w))"

text \<open>\<open>_should_continue\<close>: whether the loop goes on to the tools\<close>

definition should_continue :: "message list \<Rightarrow> bool" where
  "should_continue ms = (ai_count ms < max_reasoning_steps \<and> wants_tools (last ms))"

lemma ai_count_simps [simp]:
  "ai_count [] = 0" "ai_count (xs @ ys) = ai_count xs + ai_count ys" "ai_count (map Tool_Result outs) = 0"
  "ai_count (m # ms) = (if is_ai m then Suc (ai_count ms) else ai_count ms)"
  by (simp_all add: ai_count_def filter_empty_conv)

lemma call_model_ok: "call_model rs ms w = (Inr ms', w') \<Longrightarrow> \<exists>txt calls. ms' = ms @ [AI txt calls]"
  by (auto simp: call_model_def seq_Inr_conv)

lemma call_tools_ok: "call_tools rs ms w = (Inr ms', w') \<Longrightarrow> \<exists>outs. ms' = ms @ map Tool_Result outs"
  by (auto simp: call_tools_def seq_Inr_conv)

text \<open>The agent and tools nodes in turn, until no tool is asked for or the cap is reached.\<close>

function react :: "'w reasoner \<Rightarrow> message list \<Rightarrow> 'w \<Rightarrow> (message list, 'w) out" where
  "react rs ms w =
    (case call_model rs ms w of
       (Inl e, w1) \<Rightarrow> (Inl e, w1)
     | (Inr ms1, w1) \<Rightarrow>
        if should_continue ms1
        then (case call_tools rs ms1 w1 of (Inl e, w2) \<Rightarrow> (Inl e, w2) | (Inr ms2, w2) \<Rightarrow> react rs ms2 w2)
        else (Inr ms1, w1))"
  by pat_completeness auto
termination
proof (relation "measure (\<lambda>(rs, ms, w). max_reasoning_steps - ai_count ms)", goal_cases)
  case (2 rs ms w x w1 ms1 y w2 ms2)
  then show ?case
    using call_model_ok [of rs ms w ms1 w1] call_tools_ok [of rs ms1 w1 ms2 w2] by (auto simp: should_continue_def)
qed simp

declare react.simps [simp del]

record reasoning =
  sa_messages :: "message list"
  sa_tx :: pydict
  sa_decision :: "decision_output option"

text \<open>The conversation restated as the structured decision; the request itself is not kept.\<close>

definition finalize :: "'w reasoner \<Rightarrow> reasoning \<Rightarrow> 'w \<Rightarrow> (reasoning, 'w) out" where
  "finalize rs s w =
    seq (rs_decide rs (sa_messages s @ [Human ''Based on everything above, provide your final structured decision.'']) w)
      (\<lambda>d w. (Inr (s\<lparr>sa_decision := Some d\<rparr>), w))"

definition transaction_prompt :: "(pyval \<Rightarrow> string) \<Rightarrow> pydict \<Rightarrow> string" where
  "transaction_prompt pystr tx =
    (let txt = (\<lambda>k. str_val pystr (dict_get tx k PNone))
     in ''Evaluate this transaction:'' @ newline @
        ''transaction_id: '' @ txt ''transaction_id'' @ newline @
        ''user_id: '' @ txt ''user_id'' @ newline @
        ''amount: $'' @ txt ''amount'' @ newline @
        ''merchant_category: '' @ txt ''merchant_category'' @ newline @
        ''location: '' @ txt ''city'' @ '', '' @ txt ''country'' @ newline @
        ''pre-computed risk_score: '' @ txt ''risk_score_raw'' @ newline @
        ''is_flagged_for_review: '' @ txt ''is_flagged_for_review'' @ newline @
        ''is_new_device: '' @ txt ''is_new_device'' @ newline @
        ''geo_distance_km: '' @ txt ''geo_distance_km'' @ newline @
        ''time_since_last_txn_min: '' @ txt ''time_since_last_txn_min'' @
        '' (negative or missing means out-of-order state '' @ em_dash_text @ '' the geo distance above is then unreliable)'' @ newline @
        ''amount_zscore: '' @ txt ''amount_zscore'' @ newline @
        ''velocity_15min: '' @ txt ''velocity_15min'' @ newline)"

definition evaluate_single :: "'w reasoner \<Rightarrow> (pyval \<Rightarrow> string) \<Rightarrow> string \<Rightarrow> pydict \<Rightarrow> 'w \<Rightarrow> (reasoning, 'w) out" where
  "evaluate_single rs pystr sys transaction w =
    (case pick transaction required_keys of
       Inl e \<Rightarrow> (Inl e, w)
     | Inr req \<Rightarrow>
        let tx = req @ map (\<lambda>k. (k, dict_get transaction k PNone)) optional_keys
        in seq (react rs [System sys, Human (transaction_prompt pystr tx)] w) (\<lambda>ms w.
             finalize rs \<lparr>sa_messages = ms, sa_tx = tx, sa_decision = None\<rparr> w))"

section \<open>Properties\<close>

lemma react_end:
  assumes "react rs ms w = (Inr ms', w')" "ai_count ms < max_reasoning_steps"
  shows "prefix ms ms' \<and> ai_count ms < ai_count ms' \<and> ai_count ms' \<le> max_reasoning_steps \<and>
    (wants_tools (last ms') \<longrightarrow> ai_count ms' = max_reasoning_steps)"
  using assms
proof (induction rs ms w rule: react.induct)
  case (1 rs ms w)
  obtain ms1 w1 where m: "call_model rs ms w = (Inr ms1, w1)"
    using "1.prems"(1) by (cases "call_model rs ms w"; cases "fst (call_model rs ms w)") (simp_all add: react.simps [of rs ms w])
  obtain answer calls where ms1: "ms1 = ms @ [AI answer calls]" using call_model_ok [OF m] by blast
  show ?case
  proof (cases "should_continue ms1")
    case False
    then have "ms' = ms1" using "1.prems"(1) m by (simp add: react.simps [of rs ms w])
    then show ?thesis using False "1.prems"(2) ms1 by (auto simp: should_continue_def)
  next
    case True
    obtain ms2 w2 where t: "call_tools rs ms1 w1 = (Inr ms2, w2)"
      using "1.prems"(1) m True
      by (cases "call_tools rs ms1 w1"; cases "fst (call_tools rs ms1 w1)") (simp_all add: react.simps [of rs ms w])
    obtain outs where ms2: "ms2 = ms1 @ map Tool_Result outs" using call_tools_ok [OF t] by blast
    have "react rs ms2 w2 = (Inr ms', w')" using "1.prems"(1) m t True by (simp add: react.simps [of rs ms w])
    from "1.IH" [OF m [symmetric] refl True t [symmetric] refl this] True ms1 ms2
    show ?thesis by (auto simp: should_continue_def intro: prefix_order.trans append_prefixD)
  qed
qed

text \<open>The loop is bounded: whatever the model answers, an evaluation that returns has called the model at
  least once and at most eight times before the decision, keeps its opening messages, has a decision, and
  leaves a tool call unanswered only when the cap was reached.\<close>

theorem reasoning_bounded:
  assumes "evaluate_single rs pystr sys transaction w = (Inr s, w')"
  shows "1 \<le> ai_count (sa_messages s) \<and> ai_count (sa_messages s) \<le> 8 \<and> sa_decision s \<noteq> None \<and>
    hd (sa_messages s) = System sys \<and>
    (wants_tools (last (sa_messages s)) \<longrightarrow> ai_count (sa_messages s) = 8)"
proof -
  obtain tx ms w1 where r: "react rs [System sys, Human (transaction_prompt pystr tx)] w = (Inr ms, w1)"
    and f: "finalize rs \<lparr>sa_messages = ms, sa_tx = tx, sa_decision = None\<rparr> w1 = (Inr s, w')"
    using assms by (auto simp: evaluate_single_def Let_def seq_Inr_conv split: sum.splits)
  have "sa_messages s = ms" "sa_decision s \<noteq> None" using f by (auto simp: finalize_def seq_Inr_conv)
  then show ?thesis using react_end [OF r] by (auto simp: max_reasoning_steps_def prefix_def)
qed
text \<open>What the stream writes is what the agents read: after a successful batch the feature tool gives, for a
  user of the batch, the text of the features of the user's latest transaction in it.\<close>

theorem agent_reads_engine:
  assumes "process_batch env f batch st = (Inr (), st')" "batch \<noteq> []"
    and "latest (se_str (ee_scoring env)) None (user_rows (batch_features env f batch (es_redis st)) u) = Some fd"
  shows "get_transaction_features dumps u (es_redis st') = Inr (dumps (PDict fd))"
proof -
  have w: "write_batch (se_str (ee_scoring env)) True (f_redis f) (batch_features env f batch (es_redis st)) (es_redis st)
      = (Inr (), es_redis st')"
    using process_batch_redis(2) [OF assms(1) refl assms(2)] by (simp add: batch_write_def)
  have "fd \<in> set (user_rows (batch_features env f batch (es_redis st)) u)" using latest_max [OF assms(3)] by simp
  then have "user_of fd = Some u" by (simp add: user_rows_def)
  then have "fd \<noteq> []" by (auto simp: user_of_def)
  then show ?thesis
    using write_batch_entries(1) [OF w, of u] assms(3) by (simp add: get_transaction_features_def get_features_def)
qed

lemma agent_reads_engine_witness:
  "\<exists>st'. process_batch demo_engine demo_faults demo_batch fresh_engine = (Inr (), st') \<and>
    get_transaction_features (\<lambda>v. if v = PDict demo_fd then ''features'' else ''other'') ''u1'' (es_redis st') = Inr ''features''"
proof -
  obtain st' where st': "process_batch demo_engine demo_faults demo_batch fresh_engine = (Inr (), st')" using demo_run by blast
  have "user_rows [demo_fd] ''u1'' = [demo_fd]"
    by (simp add: user_rows_def user_of_def demo_fd_def row_field) (simp add: demo_txn_def)
  then show ?thesis using agent_reads_engine [OF st', of "''u1''" demo_fd] st' by (simp add: demo_features)
qed

definition eager_model :: "unit reasoner" where
  "eager_model = \<lparr>rs_model = (\<lambda>ms w. (Inr (''look'', [\<lparr>tc_name = ''get_user_history'', tc_args = []\<rparr>]), w)),
     rs_tools = (\<lambda>cs w. (Inr (map tc_name cs), w)),
     rs_decide = (\<lambda>ms w. (Inr \<lparr>do_decision = ESCALATE, do_confidence = Fin 0, do_pattern = ''NONE'', do_reasoning = []\<rparr>, w))\<rparr>"

lemma eager_runs: "is_ok (fst (react eager_model ms w))"
proof (induction eager_model ms w rule: react.induct)
  case (1 ms w)
  then show ?case
    by (subst react.simps) (auto simp: call_model_def call_tools_def eager_model_def)
qed

lemma reasoning_bounded_witness:
  "\<exists>s w'. evaluate_single eager_model (\<lambda>_. ''?'') ''system'' demo_transaction () = (Inr s, w') \<and> ai_count (sa_messages s) \<le> 8"
proof -
  have "is_ok (fst (finalize eager_model s w))" for s w by (simp add: finalize_def eager_model_def)
  then have "is_ok (fst (evaluate_single eager_model (\<lambda>_. ''?'') ''system'' demo_transaction ()))"
    using pick_ok [OF demo_keys] eager_runs by (auto simp: evaluate_single_def Let_def intro!: seq_is_ok)
  then obtain s w' where "evaluate_single eager_model (\<lambda>_. ''?'') ''system'' demo_transaction () = (Inr s, w')"
    by (metis is_ok_conv prod.collapse)
  with reasoning_bounded [OF this] show ?thesis by blast
qed

end
