(* ===== verification/Redaction.thy ===== *)
theory Redaction
  imports Validators Report
begin

text \<open>
  \<open>observability/redaction.py\<close>: the two passes that take direct identifiers out of a trace before it is
  stored.  \<open>json.loads\<close>, \<open>json.dumps\<close>, \<open>str\<close> of a value, the twelve hexadecimal digits of the hash and
  the warehouse's \<open>PARSE_JSON\<close> are parameters.  JSON texts nested in JSON texts are followed to a given depth, the recursion limit.
\<close>

section \<open>Pseudonyms\<close>

definition pii_keys :: "string list" where
  "pii_keys = [''full_name'', ''name'', ''home_city'', ''home_country'', ''home_latitude'', ''home_longitude'',
     ''email'', ''phone'']"

definition text_fields :: "string list" where
  "text_fields = [''tool_output'', ''tool_input'', ''reasoning_text'']"

record codec =
  cd_loads :: "string \<Rightarrow> pyval option"
  cd_dumps :: "pyval \<Rightarrow> string"
  cd_str :: "pyval \<Rightarrow> string"
  cd_digest :: "string \<Rightarrow> string"
  cd_keys :: "string list"
  cd_depth :: nat
  cd_variant :: "string \<Rightarrow> pyexn + pyval"

definition pseudonym :: "codec \<Rightarrow> string \<Rightarrow> string" where
  "pseudonym cd v = ''[REDACTED:'' @ cd_digest cd v @ '']''"

definition is_pii_key :: "codec \<Rightarrow> string \<Rightarrow> bool" where
  "is_pii_key cd k = (lower k \<in> lower ` set (cd_keys cd))"

definition recursion_error :: "pyexn + 'a" where
  "recursion_error = Inl (Exn (OtherExn ''RecursionError'') ''maximum recursion depth exceeded'')"

section \<open>Pass 1\<close>

text \<open>\<open>_walk\<close>: the object with the values of PII keys replaced, and the values collected so far.\<close>

function walk :: "codec \<Rightarrow> nat \<Rightarrow> pyval \<Rightarrow> string list \<Rightarrow> pyexn + pyval \<times> string list"
  and walk_entries :: "codec \<Rightarrow> nat \<Rightarrow> pydict \<Rightarrow> string list \<Rightarrow> pyexn + pydict \<times> string list"
  and walk_items :: "codec \<Rightarrow> nat \<Rightarrow> pyval list \<Rightarrow> string list \<Rightarrow> pyexn + pyval list \<times> string list" where
  "walk cd n (PDict d) acc = and_then (walk_entries cd n d acc) (\<lambda>(d', acc). Inr (PDict d', acc))"
| "walk cd n (PList xs) acc = and_then (walk_items cd n xs acc) (\<lambda>(xs', acc). Inr (PList xs', acc))"
| "walk cd n (PStr s) acc =
    (case cd_loads cd s of
       None \<Rightarrow> Inr (PStr s, acc)
     | Some inner \<Rightarrow>
        (case inner of
           PDict d \<Rightarrow> (case n of 0 \<Rightarrow> recursion_error
             | Suc m \<Rightarrow> and_then (walk cd m (PDict d) acc) (\<lambda>(v, acc). Inr (PStr (cd_dumps cd v), acc)))
         | PList xs \<Rightarrow> (case n of 0 \<Rightarrow> recursion_error
             | Suc m \<Rightarrow> and_then (walk cd m (PList xs) acc) (\<lambda>(v, acc). Inr (PStr (cd_dumps cd v), acc)))
         | _ \<Rightarrow> Inr (PStr s, acc)))"
| "walk cd n PNone acc = Inr (PNone, acc)"
| "walk cd n (PBool b) acc = Inr (PBool b, acc)"
| "walk cd n (PInt i) acc = Inr (PInt i, acc)"
| "walk cd n (PFloat f) acc = Inr (PFloat f, acc)"
| "walk_entries cd n [] acc = Inr ([], acc)"
| "walk_entries cd n ((k, v) # d) acc =
    (if is_pii_key cd k \<and> v \<noteq> PNone
     then let sval = str_val (cd_str cd) v
          in and_then (walk_entries cd n d (acc @ [sval])) (\<lambda>(d', acc). Inr ((k, PStr (pseudonym cd sval)) # d', acc))
     else and_then (walk cd n v acc) (\<lambda>(v', acc).
          and_then (walk_entries cd n d acc) (\<lambda>(d', acc). Inr ((k, v') # d', acc))))"
| "walk_items cd n [] acc = Inr ([], acc)"
| "walk_items cd n (x # xs) acc =
    and_then (walk cd n x acc) (\<lambda>(x', acc). and_then (walk_items cd n xs acc) (\<lambda>(xs', acc). Inr (x' # xs', acc)))"
  by pat_completeness auto
termination
  by (relation "measures [\<lambda>x. case x of Inl (cd, n, v, acc) \<Rightarrow> n | Inr (Inl (cd, n, d, acc)) \<Rightarrow> n | Inr (Inr (cd, n, xs, acc)) \<Rightarrow> n,
      \<lambda>x. case x of Inl (cd, n, v, acc) \<Rightarrow> 2 * size v
        | Inr (Inl (cd, n, d, acc)) \<Rightarrow> 2 * size_list (size_prod (\<lambda>_. 0) size) d + 1
        | Inr (Inr (cd, n, xs, acc)) \<Rightarrow> 2 * size_list size xs + 1]")
    auto

text \<open>\<open>_redact_structured\<close>: a text that is not JSON passes through.\<close>

definition redact_structured :: "codec \<Rightarrow> string \<Rightarrow> string list \<Rightarrow> pyexn + string \<times> string list" where
  "redact_structured cd t acc =
    (case cd_loads cd t of
       None \<Rightarrow> Inr (t, acc)
     | Some v \<Rightarrow> and_then (walk cd (cd_depth cd) v acc) (\<lambda>(v', acc). Inr (cd_dumps cd v', acc)))"

section \<open>Pass 2\<close>

text \<open>Longest value first; among equal lengths in the order of collection.\<close>

definition scrub_order :: "string list \<Rightarrow> string list" where
  "scrub_order vs = rev (sort_key length (rev (remdups vs)))"

definition scrub_one :: "codec \<Rightarrow> string \<Rightarrow> string \<Rightarrow> string" where
  "scrub_one cd v t = (if v \<noteq> [] \<and> contains t v then replace_all v (pseudonym cd v) t else t)"

definition scrub_literals :: "codec \<Rightarrow> string \<Rightarrow> string list \<Rightarrow> string" where
  "scrub_literals cd t vs = fold (scrub_one cd) (scrub_order vs) t"

section \<open>A trace\<close>

text \<open>The text in a field of a row, when it is a text that is not empty\<close>

definition field_str :: "pydict \<Rightarrow> string \<Rightarrow> string option" where
  "field_str row f = (case map_of row f of Some (PStr t) \<Rightarrow> if t = [] then None else Some t | _ \<Rightarrow> None)"

fun redact_fields :: "codec \<Rightarrow> string list \<Rightarrow> pydict \<Rightarrow> string list \<Rightarrow> pyexn + pydict \<times> string list" where
  "redact_fields cd [] row acc = Inr (row, acc)"
| "redact_fields cd (f # fs) row acc =
    (case field_str row f of
       None \<Rightarrow> redact_fields cd fs row acc
     | Some t \<Rightarrow> and_then (redact_structured cd t acc) (\<lambda>(t', acc).
         redact_fields cd fs (AList.update f (PStr t') row) acc))"

fun redact_pass :: "codec \<Rightarrow> pydict list \<Rightarrow> string list \<Rightarrow> pyexn + pydict list \<times> string list" where
  "redact_pass cd [] acc = Inr ([], acc)"
| "redact_pass cd (row # trace) acc =
    and_then (redact_fields cd text_fields row acc) (\<lambda>(row', acc).
    and_then (redact_pass cd trace acc) (\<lambda>(trace', acc). Inr (row' # trace', acc)))"

definition scrub_field :: "codec \<Rightarrow> string list \<Rightarrow> string \<Rightarrow> pydict \<Rightarrow> pydict" where
  "scrub_field cd vs f row =
    (case field_str row f of None \<Rightarrow> row | Some t \<Rightarrow> AList.update f (PStr (scrub_literals cd t vs)) row)"

definition scrub_row :: "codec \<Rightarrow> string list \<Rightarrow> pydict \<Rightarrow> pydict" where
  "scrub_row cd vs row = fold (scrub_field cd vs) text_fields row"

definition redact_rows :: "codec \<Rightarrow> pydict list \<Rightarrow> pyexn + pydict list" where
  "redact_rows cd trace =
    and_then (redact_pass cd trace []) (\<lambda>(trace', vs). Inr (if vs = [] then trace' else map (scrub_row cd vs) trace'))"

section \<open>Replacing by a token\<close>

text \<open>A text without brackets is not created by replacing something by a bracketed token.\<close>

definition plain_text :: "string \<Rightarrow> bool" where
  "plain_text v = (v \<noteq> [] \<and> CHR ''['' \<notin> set v \<and> CHR '']'' \<notin> set v)"

definition token :: "string \<Rightarrow> bool" where
  "token r = (\<exists>mid. r = ''['' @ mid @ '']'')"

lemma token_pseudonym: "token (pseudonym cd v)"
  unfolding token_def pseudonym_def by (rule exI [of _ "''REDACTED:'' @ cd_digest cd v"]) simp

lemma replace_match: "t \<noteq> [] \<and> prefix t (c # cs) \<Longrightarrow> replace_all t r (c # cs) = r @ replace_all t r (drop (length t) (c # cs))"
  and replace_skip: "\<not> (t \<noteq> [] \<and> prefix t (c # cs)) \<Longrightarrow> replace_all t r (c # cs) = c # replace_all t r cs"
  by (subst replace_all.simps, rule if_P, assumption) (subst replace_all.simps, rule if_not_P, assumption)

lemma prefix_replace:
  "token r \<Longrightarrow> CHR ''['' \<notin> set u \<Longrightarrow> prefix u (replace_all w r s) \<Longrightarrow> prefix u s"
proof (induction w r s arbitrary: u rule: replace_all.induct)
  case (2 w r c cs)
  show ?case
  proof (cases "w \<noteq> [] \<and> prefix w (c # cs)")
    case True
    from "2.prems"(1) obtain xs where "r = CHR ''['' # xs" by (auto simp: token_def)
    then have "u = []" using "2.prems"(2,3) unfolding replace_match [OF True] by (cases u) auto
    then show ?thesis by simp
  next
    case False
    then show ?thesis using 2 by (cases u) auto
  qed
qed simp

lemma sublist_after_token:
  assumes "token r" "plain_text v" "sublist v (r @ s)" shows "sublist v r \<or> sublist v s"
proof -
  obtain mid where r: "r = (''['' @ mid) @ '']''" using assms(1) by (auto simp: token_def)
  from assms(3) consider "sublist v r" | "sublist v s" | v1 v2 where "v = v1 @ v2" "suffix v1 r" "prefix v2 s"
    by (auto simp: sublist_append)
  then show ?thesis
  proof cases
    case 3
    have "last v1 = CHR '']''" if "v1 \<noteq> []"
      using 3(2) r that by (metis last_appendR last_snoc suffix_def)
    moreover have "last v1 \<in> set v" if "v1 \<noteq> []" using that 3(1) by simp
    ultimately have "v1 = []" using assms(2) by (auto simp: plain_text_def)
    then show ?thesis using 3 by auto
  qed auto
qed

lemma sublist_replace:
  "token r \<Longrightarrow> plain_text v \<Longrightarrow> sublist v (replace_all w r s) \<Longrightarrow> sublist v s \<or> sublist v r"
proof (induction w r s rule: replace_all.induct)
  case (2 w r c cs)
  show ?case
  proof (cases "w \<noteq> [] \<and> prefix w (c # cs)")
    case True
    then have "sublist v r \<or> sublist v (replace_all w r (drop (length w) (c # cs)))"
      using sublist_after_token [OF "2.prems"(1,2)] "2.prems"(3) unfolding replace_match [OF True] by blast
    then show ?thesis
      using "2.IH"(1) [OF True "2.prems"(1,2)] sublist_order.order.trans [OF _ sublist_drop, of v "length w" "c # cs"] by blast
  next
    case False
    then have "prefix v (c # replace_all w r cs) \<or> sublist v (replace_all w r cs)"
      using "2.prems"(3) unfolding replace_skip [OF False] by (simp add: sublist_Cons_right)
    then show ?thesis
    proof
      assume "prefix v (c # replace_all w r cs)"
      then have "prefix v (replace_all w r (c # cs))" unfolding replace_skip [OF False] .
      moreover have "CHR ''['' \<notin> set v" using "2.prems"(2) by (simp add: plain_text_def)
      ultimately have "prefix v (c # cs)" using prefix_replace [OF "2.prems"(1)] by blast
      then show ?thesis by (simp add: prefix_imp_sublist)
    next
      assume "sublist v (replace_all w r cs)"
      then show ?thesis using "2.IH"(2) [OF False "2.prems"(1,2)] by (auto simp: sublist_Cons_right)
    qed
  qed
qed (auto simp: plain_text_def)

lemma replaced_gone:
  "token r \<Longrightarrow> plain_text v \<Longrightarrow> sublist v (replace_all v r s) \<Longrightarrow> sublist v r"
proof (induction v r s rule: replace_all.induct)
  case (2 v r c cs)
  show ?case
  proof (cases "prefix v (c # cs)")
    case True
    then have m: "v \<noteq> [] \<and> prefix v (c # cs)" using "2.prems"(2) by (simp add: plain_text_def)
    then have "sublist v r \<or> sublist v (replace_all v r (drop (length v) (c # cs)))"
      using sublist_after_token [OF "2.prems"(1,2)] "2.prems"(3) unfolding replace_match [OF m] by blast
    then show ?thesis using "2.IH"(1) [OF m "2.prems"(1,2)] by blast
  next
    case False
    then have m: "\<not> (v \<noteq> [] \<and> prefix v (c # cs))" by simp
    have "prefix v (c # replace_all v r cs) \<or> sublist v (replace_all v r cs)"
      using "2.prems"(3) unfolding replace_skip [OF m] by (simp add: sublist_Cons_right)
    moreover have "\<not> prefix v (c # replace_all v r cs)"
      using prefix_replace [OF "2.prems"(1), of v v "c # cs"] "2.prems"(2) False unfolding replace_skip [OF m]
      by (auto simp: plain_text_def)
    ultimately show ?thesis using "2.IH"(2) [OF m "2.prems"(1,2)] by blast
  qed
qed (auto simp: plain_text_def)

lemma fold_scrub_keeps_out:
  "plain_text v \<Longrightarrow> \<forall>u. \<not> sublist v (pseudonym cd u) \<Longrightarrow> \<not> sublist v t \<Longrightarrow> \<not> sublist v (fold (scrub_one cd) vs t)"
proof (induction vs arbitrary: t)
  case (Cons u vs)
  have "\<not> sublist v (scrub_one cd u t)"
    using Cons.prems sublist_replace [OF token_pseudonym, of v u cd u t] by (auto simp: scrub_one_def)
  then show ?case using Cons by simp
qed simp

lemma fold_scrub_removes:
  assumes "plain_text v" "\<forall>u. \<not> sublist v (pseudonym cd u)" "v \<in> set vs"
  shows "\<not> sublist v (fold (scrub_one cd) vs t)"
proof -
  obtain xs ys where vs: "vs = xs @ v # ys" using assms(3) by (auto simp: in_set_conv_decomp)
  let ?t = "fold (scrub_one cd) xs t"
  have "\<not> sublist v (scrub_one cd v ?t)"
    using assms(1,2) replaced_gone [OF token_pseudonym, of v cd v ?t]
    by (auto simp: scrub_one_def contains_iff_sublist plain_text_def)
  then show ?thesis using fold_scrub_keeps_out [OF assms(1,2)] by (simp add: vs)
qed

lemma scrub_literals_removes:
  "plain_text v \<Longrightarrow> \<forall>u. \<not> contains (pseudonym cd u) v \<Longrightarrow> v \<in> set vs \<Longrightarrow> \<not> contains (scrub_literals cd t vs) v"
  using fold_scrub_removes [of v cd "scrub_order vs" t] by (simp add: contains_iff_sublist scrub_literals_def scrub_order_def)

section \<open>What the first pass collects\<close>

lemma walk_grows:
  "walk cd n v acc = Inr (v', acc') \<Longrightarrow> set acc \<subseteq> set acc'"
  "walk_entries cd n d acc = Inr (d', acc') \<Longrightarrow> set acc \<subseteq> set acc'"
  "walk_items cd n xs acc = Inr (xs', acc') \<Longrightarrow> set acc \<subseteq> set acc'"
proof (induction cd n v acc and cd n d acc and cd n xs acc arbitrary: v' acc' and d' acc' and xs' acc'
    rule: walk_walk_entries_walk_items.induct)
qed (fastforce simp: recursion_error_def Let_def split: option.splits pyval.splits nat.splits if_splits prod.splits)+

fun container :: "pyval \<Rightarrow> bool" where
  "container (PDict _) = True"
| "container (PList _) = True"
| "container _ = False"

text \<open>A text is an identifier of a value when it is the text of something under a PII key, at any depth, or of a value
  in a JSON text inside it.  What stands under a PII key is one identifier, even when it is a dictionary with
  PII keys of its own: \<open>_walk\<close> replaces it whole, and neither descends into it nor collects what it holds, so
  a name that occurs in clear elsewhere and is a PII key's value only inside such a dictionary is not an identifier
  here, and the code does not look for it either.\<close>

inductive identifies :: "codec \<Rightarrow> string \<Rightarrow> nat \<Rightarrow> pyval \<Rightarrow> bool" for cd s where
  under_key: "(k, v) \<in> set d \<Longrightarrow> is_pii_key cd k \<Longrightarrow> v \<noteq> PNone \<Longrightarrow> s = str_val (cd_str cd) v \<Longrightarrow> identifies cd s n (PDict d)"
| in_entry: "(k, v) \<in> set d \<Longrightarrow> \<not> (is_pii_key cd k \<and> v \<noteq> PNone) \<Longrightarrow> identifies cd s n v \<Longrightarrow> identifies cd s n (PDict d)"
| in_item: "x \<in> set xs \<Longrightarrow> identifies cd s n x \<Longrightarrow> identifies cd s n (PList xs)"
| in_text: "cd_loads cd t = Some w \<Longrightarrow> container w \<Longrightarrow> identifies cd s n w \<Longrightarrow> identifies cd s (Suc n) (PStr t)"

inductive_cases identifies_dict: "identifies cd s n (PDict d)"
inductive_cases identifies_list: "identifies cd s n (PList xs)"
inductive_cases identifies_text: "identifies cd s n (PStr t)"
inductive_simps identifies_leaf:
  "identifies cd s n PNone" "identifies cd s n (PBool b)" "identifies cd s n (PInt i)" "identifies cd s n (PFloat f)"

lemma identifies_Nil [simp]: "\<not> identifies cd s n (PDict [])" "\<not> identifies cd s n (PList [])"
  by (auto elim: identifies_dict identifies_list)

lemma identifies_Cons:
  "identifies cd s n (PDict ((k, v) # d)) \<longleftrightarrow>
    (if is_pii_key cd k \<and> v \<noteq> PNone then s = str_val (cd_str cd) v else identifies cd s n v) \<or> identifies cd s n (PDict d)"
  "identifies cd s n (PList (x # xs)) \<longleftrightarrow> identifies cd s n x \<or> identifies cd s n (PList xs)"
  by (auto elim!: identifies_dict identifies_list intro: identifies.intros split: if_splits)

lemma walk_collects:
  "walk cd n v acc = Inr (v', acc') \<Longrightarrow> identifies cd s n v \<Longrightarrow> s \<in> set acc'"
  "walk_entries cd n d acc = Inr (d', acc') \<Longrightarrow> identifies cd s n (PDict d) \<Longrightarrow> s \<in> set acc'"
  "walk_items cd n xs acc = Inr (xs', acc') \<Longrightarrow> identifies cd s n (PList xs) \<Longrightarrow> s \<in> set acc'"
proof (induction cd n v acc and cd n d acc and cd n xs acc arbitrary: v' acc' and d' acc' and xs' acc'
    rule: walk_walk_entries_walk_items.induct)
  case (1 cd n d acc)
  then show ?case by auto
next
  case (2 cd n xs acc)
  then show ?case by auto
next
  case (3 cd n t acc)
  obtain w m where w: "cd_loads cd t = Some w" "container w" "identifies cd s m w" "n = Suc m"
    using "3.prems"(2) by (auto elim: identifies_text)
  obtain v1 where "walk cd m w acc = Inr (v1, acc')"
    using "3.prems"(1) w(1,2,4) by (cases w) auto
  then show ?case
    using "3.IH"(1) [OF w(1) _ w(4), of _ v1 acc'] "3.IH"(2) [OF w(1) _ w(4), of _ v1 acc'] w(2,3) by (cases w) auto
next
  case (9 cd n k v d acc)
  show ?case
  proof (cases "is_pii_key cd k \<and> v \<noteq> PNone")
    case True
    then obtain d1 where d1: "walk_entries cd n d (acc @ [str_val (cd_str cd) v]) = Inr (d1, acc')"
      using "9.prems"(1) by (auto simp: Let_def split: prod.splits)
    have "str_val (cd_str cd) v \<in> set acc'" using walk_grows(2) [OF d1] by auto
    then show ?thesis using "9.IH"(1) [OF True refl d1] "9.prems"(2) True by (auto simp: identifies_Cons)
  next
    case False
    then obtain v1 acc1 d1 where v1: "walk cd n v acc = Inr (v1, acc1)" "walk_entries cd n d acc1 = Inr (d1, acc')"
      using "9.prems"(1) by (auto split: prod.splits if_splits)
    consider "identifies cd s n v" | "identifies cd s n (PDict d)" using "9.prems"(2) False by (auto simp: identifies_Cons)
    then show ?thesis
      using "9.IH"(2) [OF False v1(1)] "9.IH"(3) [OF False v1(2)] walk_grows(2) [OF v1(2)] by cases blast+
  qed
next
  case (11 cd n x xs acc)
  then obtain x1 acc1 xs1 where x1: "walk cd n x acc = Inr (x1, acc1)" "walk_items cd n xs acc1 = Inr (xs1, acc')"
    by (auto split: prod.splits)
  consider "identifies cd s n x" | "identifies cd s n (PList xs)" using "11.prems"(2) by (auto simp: identifies_Cons)
  then show ?case
    using "11.IH"(1) [OF x1(1)] "11.IH"(2) [OF x1(2)] walk_grows(3) [OF x1(2)] by cases blast+
qed (auto simp: identifies_leaf)

lemma redact_structured_grows: "redact_structured cd t acc = Inr (t', acc') \<Longrightarrow> set acc \<subseteq> set acc'"
  by (auto simp: redact_structured_def split: option.splits prod.splits dest!: walk_grows(1))

lemma redact_structured_collects:
  "redact_structured cd t acc = Inr (t', acc') \<Longrightarrow> cd_loads cd t = Some w \<Longrightarrow> identifies cd s (cd_depth cd) w \<Longrightarrow> s \<in> set acc'"
  by (auto simp: redact_structured_def split: prod.splits dest!: walk_collects(1))

lemma redact_fields_grows: "redact_fields cd fs row acc = Inr (row', acc') \<Longrightarrow> set acc \<subseteq> set acc'"
proof (induction fs arbitrary: row acc)
  case (Cons f fs)
  show ?case
  proof (cases "field_str row f")
    case None
    then show ?thesis using Cons by simp
  next
    case (Some t)
    then obtain t1 acc1 where t1: "redact_structured cd t acc = Inr (t1, acc1)"
      "redact_fields cd fs (AList.update f (PStr t1) row) acc1 = Inr (row', acc')" using Cons.prems by auto
    show ?thesis using redact_structured_grows [OF t1(1)] Cons.IH [OF t1(2)] by blast
  qed
qed simp

lemma field_str_update: "g \<noteq> f \<Longrightarrow> field_str (AList.update f v row) g = field_str row g"
  by (simp add: field_str_def update_conv')

lemma redact_fields_collects:
  assumes "redact_fields cd fs row acc = Inr (row', acc')" "f \<in> set fs" "distinct fs" "field_str row f = Some t"
    and d: "cd_loads cd t = Some w" "identifies cd s (cd_depth cd) w"
  shows "s \<in> set acc'"
  using assms(1-4)
proof (induction fs arbitrary: row acc)
  case (Cons g fs)
  show ?case
  proof (cases "field_str row g")
    case None
    then show ?thesis using Cons by auto
  next
    case (Some u)
    then obtain u1 acc1 where u1: "redact_structured cd u acc = Inr (u1, acc1)"
      "redact_fields cd fs (AList.update g (PStr u1) row) acc1 = Inr (row', acc')" using Cons.prems by auto
    show ?thesis
    proof (cases "f = g")
      case True
      then show ?thesis using Some Cons.prems(4) u1 redact_structured_collects [OF u1(1) _ d(2)] d(1) redact_fields_grows [OF u1(2)] by auto
    next
      case False
      then show ?thesis using Cons.IH [OF u1(2)] Cons.prems by (simp add: field_str_update)
    qed
  qed
qed simp

lemma redact_pass_collects:
  assumes "redact_pass cd trace acc = Inr (trace', acc')" "row \<in> set trace" "f \<in> set text_fields" "field_str row f = Some t"
    "cd_loads cd t = Some w" "identifies cd s (cd_depth cd) w"
  shows "s \<in> set acc'"
proof -
  have grows: "redact_pass cd tr a = Inr (tr', a') \<Longrightarrow> set a \<subseteq> set a'" for tr a tr' a'
  proof (induction tr arbitrary: a tr')
    case (Cons r tr)
    then obtain r1 a1 tr1 where "redact_fields cd text_fields r a = Inr (r1, a1)" "redact_pass cd tr a1 = Inr (tr1, a')"
      by (auto split: prod.splits)
    then show ?case using redact_fields_grows Cons.IH by blast
  qed simp
  show ?thesis using assms(1,2)
  proof (induction trace arbitrary: acc trace')
    case (Cons r tr)
    then obtain r1 a1 tr1 where r: "redact_fields cd text_fields r acc = Inr (r1, a1)" "redact_pass cd tr a1 = Inr (tr1, acc')"
      by (auto split: prod.splits)
    show ?case
    proof (cases "row \<in> set tr")
      case True
      then show ?thesis using Cons.IH [OF r(2)] by blast
    next
      case False
      moreover have "distinct text_fields" by (simp add: text_fields_def)
      ultimately have "s \<in> set a1"
        using redact_fields_collects [OF r(1) assms(3) _ _ assms(5,6)] Cons.prems(2) assms(4) by simp
      then show ?thesis using grows [OF r(2)] by blast
    qed
  qed simp
qed

lemma scrub_row_field:
  assumes "g \<in> set text_fields" "field_str (scrub_row cd vs row) g = Some x"
  shows "\<exists>t. x = scrub_literals cd t vs"
proof -
  have same: "field_str (scrub_field cd vs f r) g = Some x \<Longrightarrow> (\<exists>t. x = scrub_literals cd t vs) \<or> f \<noteq> g \<and> field_str r g = Some x" for f r
    by (cases "f = g") (auto simp: scrub_field_def field_str_update split: option.splits,
        auto simp: field_str_def update_conv' split: if_splits)
  have "\<exists>t. x = scrub_literals cd t vs" if "g \<in> set fs" "field_str (fold (scrub_field cd vs) fs r) g = Some x" for fs r
    using that
  proof (induction fs arbitrary: r rule: rev_induct)
    case (snoc f fs)
    then show ?case using same [of f "fold (scrub_field cd vs) fs r"] by auto
  qed simp
  then show ?thesis using assms unfolding scrub_row_def by blast
qed

section \<open>Properties\<close>

text \<open>The example trace: a tool output that holds a name, and a reasoning text that quotes it.\<close>

definition sample_codec :: codec where
  "sample_codec = \<lparr>cd_loads = (\<lambda>s. if s = ''profile'' then Some (PDict [(''full_name'', PStr ''Jane Roe'')])
       else if s = ''wrapped'' then Some (PDict [(''content'', PStr ''profile'')]) else None),
     cd_dumps = (\<lambda>_. ''{}''), cd_str = (\<lambda>_. ''''), cd_digest = (\<lambda>_. ''0a1b2c''), cd_keys = pii_keys, cd_depth = 3,
     cd_variant = (\<lambda>t. if t = ''{}'' then Inr (PDict []) else Inl (Exn (OtherExn ''ProgrammingError'') ''Error parsing JSON''))\<rparr>"

definition sample_trace :: "pydict list" where
  "sample_trace = [[(''step_number'', PInt 1), (''tool_output'', PStr ''wrapped'')],
     [(''step_number'', PInt 2), (''reasoning_text'', PStr ''User Jane Roe is home'')]]"

definition sample_redacted :: "pydict list" where
  "sample_redacted = [[(''step_number'', PInt 1), (''tool_output'', PStr ''{}'')],
     [(''step_number'', PInt 2), (''reasoning_text'', PStr ''User [REDACTED:0a1b2c] is home'')]]"

lemma sample_redacts: "redact_rows sample_codec sample_trace = Inr sample_redacted"
  by code_simp

lemma redacted_gone:
  assumes "redact_rows cd trace = Inr out" "row \<in> set trace" "f \<in> set text_fields" "field_str row f = Some t"
    and "cd_loads cd t = Some w" "identifies cd s (cd_depth cd) w"
    and "plain_text s" "\<forall>u. \<not> contains (pseudonym cd u) s"
    and "r \<in> set out" "g \<in> set text_fields" "field_str r g = Some x"
  shows "\<not> contains x s"
proof -
  obtain trace' vs where p: "redact_pass cd trace [] = Inr (trace', vs)"
    and o: "out = (if vs = [] then trace' else map (scrub_row cd vs) trace')"
    using assms(1) by (auto simp: redact_rows_def)
  have v: "s \<in> set vs" using redact_pass_collects [OF p assms(2-6)] .
  then have "vs \<noteq> []" by auto
  then show ?thesis
    using o assms(9-11) scrub_row_field [of _ cd vs] scrub_literals_removes [OF assms(7,8) v] by fastforce
qed

text \<open>C10: A direct identifier is gone from the whole trace: when a tool output, tool input or reasoning text of any
  row holds JSON with a value under one of the PII keys, at any depth and also inside JSON texts nested in it, the
  text of that value occurs in no text field of any redacted row, free text included; this holds for values
  without brackets that are not part of a pseudonym themselves.\<close>

theorem identifier_gone:
  assumes "redact_rows cd trace = Inr out"
    and "row \<in> set trace" "f \<in> set text_fields" "field_str row f = Some t"
    and "cd_loads cd t = Some w" "identifies cd s (cd_depth cd) w"
    and "plain_text s" "\<forall>u. \<not> contains (pseudonym cd u) s"
  shows "\<forall>r\<in>set out. \<forall>g\<in>set text_fields. \<forall>x. field_str r g = Some x \<longrightarrow> \<not> contains x s"
  using redacted_gone [OF assms] by blast

theorem identifier_gone_witness:
  "field_str (sample_redacted ! 1) ''reasoning_text'' = Some ''User [REDACTED:0a1b2c] is home'' \<and>
    \<not> contains ''User [REDACTED:0a1b2c] is home'' ''Jane Roe''"
proof -
  have ps: "pseudonym sample_codec u = ''[REDACTED:0a1b2c]''" for u by (simp add: pseudonym_def sample_codec_def)
  have no: "\<not> contains ''[REDACTED:0a1b2c]'' ''Jane Roe''" by code_simp
  have row: "sample_trace ! 0 \<in> set sample_trace" by (simp add: sample_trace_def)
  have f: "''tool_output'' \<in> set text_fields" by (simp add: text_fields_def)
  have fs: "field_str (sample_trace ! 0) ''tool_output'' = Some ''wrapped''" by (simp add: field_str_def sample_trace_def)
  have lo: "cd_loads sample_codec ''wrapped'' = Some (PDict [(''content'', PStr ''profile'')])"
    "cd_loads sample_codec ''profile'' = Some (PDict [(''full_name'', PStr ''Jane Roe'')])" by (simp_all add: sample_codec_def)
  have key: "is_pii_key sample_codec ''full_name''" "\<not> is_pii_key sample_codec ''content''" by code_simp+
  have "identifies sample_codec ''Jane Roe'' 2 (PDict [(''full_name'', PStr ''Jane Roe'')])"
    using key(1) by (auto simp: identifies_Cons str_val_def)
  then have "identifies sample_codec ''Jane Roe'' (Suc 2) (PStr ''profile'')" by (intro in_text [OF lo(2)]) simp_all
  then have id: "identifies sample_codec ''Jane Roe'' (cd_depth sample_codec) (PDict [(''content'', PStr ''profile'')])"
    using key(2) by (auto simp: identifies_Cons sample_codec_def)
  have pl: "plain_text ''Jane Roe''" by (simp add: plain_text_def)
  have r: "sample_redacted ! 1 \<in> set sample_redacted" "field_str (sample_redacted ! 1) ''reasoning_text'' = Some ''User [REDACTED:0a1b2c] is home''"
    "''reasoning_text'' \<in> set text_fields"
    by (simp_all add: sample_redacted_def text_fields_def field_str_def)
  show ?thesis using identifier_gone [OF sample_redacts row f fs lo(1) id pl] no ps r by fastforce
qed

lemma redact_fields_other: "redact_fields cd fs row acc = Inr (row', acc') \<Longrightarrow> k \<notin> set fs \<Longrightarrow> map_of row' k = map_of row k"
proof (induction fs arbitrary: row acc)
  case (Cons f fs)
  show ?case
  proof (cases "field_str row f")
    case None
    then show ?thesis using Cons by simp
  next
    case (Some t)
    then obtain t1 acc1 where "redact_fields cd fs (AList.update f (PStr t1) row) acc1 = Inr (row', acc')" using Cons.prems by auto
    from Cons.IH [OF this] Cons.prems(2) show ?thesis by (simp add: update_conv')
  qed
qed simp

lemma scrub_row_other: "k \<notin> set text_fields \<Longrightarrow> map_of (scrub_row cd vs row) k = map_of row k"
proof -
  have "k \<notin> set fs \<Longrightarrow> map_of (fold (scrub_field cd vs) fs r) k = map_of r k" for fs r
    by (induction fs arbitrary: r) (auto simp: scrub_field_def update_conv' split: option.splits)
  then show "k \<notin> set text_fields \<Longrightarrow> map_of (scrub_row cd vs row) k = map_of row k" by (simp add: scrub_row_def)
qed

lemma redact_rows_other:
  assumes "redact_rows cd trace = Inr out"
  shows "list_all2 (\<lambda>row r. \<forall>k. k \<notin> set text_fields \<longrightarrow> map_of r k = map_of row k) trace out"
proof -
  have pass: "redact_pass cd tr acc = Inr (tr', acc') \<Longrightarrow> list_all2 (\<lambda>row r. \<forall>k. k \<notin> set text_fields \<longrightarrow> map_of r k = map_of row k) tr tr'"
    for tr acc tr' acc'
  proof (induction tr arbitrary: acc tr')
    case (Cons r tr)
    then obtain r1 a1 tr1 where "redact_fields cd text_fields r acc = Inr (r1, a1)" "redact_pass cd tr a1 = Inr (tr1, acc')" "tr' = r1 # tr1"
      by (auto split: prod.splits)
    then show ?case using Cons.IH redact_fields_other by simp
  qed simp
  obtain trace' vs where p: "redact_pass cd trace [] = Inr (trace', vs)"
    and o: "out = (if vs = [] then trace' else map (scrub_row cd vs) trace')"
    using assms by (auto simp: redact_rows_def)
  show ?thesis using pass [OF p] by (auto simp: o list.rel_map scrub_row_other elim!: list.rel_mono_strong)
qed

text \<open>Redaction keeps the audit trail: the rows stay in number and order, and every field other than the three
  text fields, so every key the trace is joined by, keeps its value.\<close>

theorem redaction_keeps_keys:
  assumes "redact_rows cd trace = Inr out"
  shows "list_all2 (\<lambda>row r. \<forall>k. k \<notin> set text_fields \<longrightarrow> map_of r k = map_of row k) trace out"
  using assms by (rule redact_rows_other)

theorem redaction_keeps_keys_witness:
  "length sample_redacted = length sample_trace \<and> map_of (sample_redacted ! 1) ''step_number'' = Some (PInt 2)"
proof -
  note k = redaction_keeps_keys [OF sample_redacts]
  have "1 < length sample_trace" "''step_number'' \<notin> set text_fields" by (simp_all add: sample_trace_def text_fields_def)
  then have "map_of (sample_redacted ! 1) ''step_number'' = map_of (sample_trace ! 1) ''step_number''"
    using list_all2_nthD [OF k] by blast
  then show ?thesis using list_all2_lengthD [OF k] by (simp add: sample_trace_def)
qed

section \<open>Structured identifiers\<close>

text \<open>No PII key of a value, nor of a JSON text inside it down to the given depth, has anything but a pseudonym.\<close>

inductive masked :: "codec \<Rightarrow> nat \<Rightarrow> pyval \<Rightarrow> bool" for cd where
  masked_dict: "(\<And>k v. (k, v) \<in> set d \<Longrightarrow> (is_pii_key cd k \<and> v \<noteq> PNone \<longrightarrow> (\<exists>u. v = PStr (pseudonym cd u))) \<and>
      (\<not> (is_pii_key cd k \<and> v \<noteq> PNone) \<longrightarrow> masked cd n v)) \<Longrightarrow> masked cd n (PDict d)"
| masked_list: "(\<And>x. x \<in> set xs \<Longrightarrow> masked cd n x) \<Longrightarrow> masked cd n (PList xs)"
| masked_leaf: "\<not> container v \<Longrightarrow> \<forall>s. v \<noteq> PStr s \<Longrightarrow> masked cd n v"
| masked_text: "(\<And>w. cd_loads cd s = Some w \<Longrightarrow> \<not> container w) \<Longrightarrow> masked cd n (PStr s)"
| masked_nested: "masked cd n w \<Longrightarrow> masked cd (Suc n) (PStr (cd_dumps cd w))"

lemma masked_entry:
  assumes "masked cd n (PDict d)" "is_pii_key cd k \<and> v \<noteq> PNone \<longrightarrow> (\<exists>u. v = PStr (pseudonym cd u))"
    and "\<not> (is_pii_key cd k \<and> v \<noteq> PNone) \<longrightarrow> masked cd n v"
  shows "masked cd n (PDict ((k, v) # d))"
proof (rule masked_dict, goal_cases)
  case (1 k' v')
  show ?case
  proof (cases "(k', v') = (k, v)")
    case True
    then show ?thesis using assms(2,3) by simp
  next
    case False
    then have "(k', v') \<in> set d" using 1 by auto
    with assms(1) show ?thesis by (auto elim: masked.cases)
  qed
qed

lemma masked_item:
  assumes "masked cd n (PList xs)" "masked cd n x"
  shows "masked cd n (PList (x # xs))"
proof (rule masked_list)
  fix y assume "y \<in> set (x # xs)"
  with assms show "masked cd n y" by (auto elim: masked.cases)
qed

lemma walk_masked:
  "walk cd n v acc = Inr (v', acc') \<Longrightarrow> masked cd n v'"
  "walk_entries cd n d acc = Inr (d', acc') \<Longrightarrow> masked cd n (PDict d')"
  "walk_items cd n xs acc = Inr (xs', acc') \<Longrightarrow> masked cd n (PList xs')"
proof (induction cd n v acc and cd n d acc and cd n xs acc arbitrary: v' acc' and d' acc' and xs' acc'
    rule: walk_walk_entries_walk_items.induct)
  case (1 cd n d acc)
  then obtain d1 where "walk_entries cd n d acc = Inr (d1, acc')" "v' = PDict d1" by auto
  then show ?case using 1 by simp
next
  case (2 cd n xs acc)
  then obtain xs1 where "walk_items cd n xs acc = Inr (xs1, acc')" "v' = PList xs1" by auto
  then show ?case using 2 by simp
next
  case (3 cd n s acc)
  show ?case
  proof (cases "\<exists>w. cd_loads cd s = Some w \<and> container w")
    case True
    then obtain w where w: "cd_loads cd s = Some w" "container w" by blast
    obtain m v1 acc1 where m: "n = Suc m" "walk cd m w acc = Inr (v1, acc1)" "v' = PStr (cd_dumps cd v1)"
      using "3.prems" w by (cases w) (auto simp: recursion_error_def split: nat.splits)
    have "masked cd m v1"
      using "3.IH"(1) [OF w(1) _ m(1), of _ v1 acc1] "3.IH"(2) [OF w(1) _ m(1), of _ v1 acc1] w(2) m(2) by (cases w) auto
    then show ?thesis using m by (auto intro: masked_nested)
  next
    case False
    then have "v' = PStr s" using "3.prems" by (auto split: option.splits pyval.splits)
    then show ?thesis using False by (auto intro!: masked_text)
  qed
next
  case (9 cd n k v d acc)
  show ?case
  proof (cases "is_pii_key cd k \<and> v \<noteq> PNone")
    case True
    then obtain d1 where d1: "walk_entries cd n d (acc @ [str_val (cd_str cd) v]) = Inr (d1, acc')"
      "d' = (k, PStr (pseudonym cd (str_val (cd_str cd) v))) # d1"
      using "9.prems" by (auto simp: Let_def split: prod.splits)
    show ?thesis using masked_entry "9.IH"(1) [OF True refl d1(1)] True unfolding d1(2) by blast
  next
    case False
    then obtain v1 acc1 d1 where v1: "walk cd n v acc = Inr (v1, acc1)" "walk_entries cd n d acc1 = Inr (d1, acc')" "d' = (k, v1) # d1"
      using "9.prems" by (auto split: prod.splits if_splits)
    have "is_pii_key cd k \<Longrightarrow> v1 = PNone" using False v1(1) by auto
    then show ?thesis
      using masked_entry "9.IH"(2) [OF False v1(1)] "9.IH"(3) [OF False v1(2)] unfolding v1(3) by blast
  qed
next
  case (11 cd n x xs acc)
  then obtain x1 acc1 xs1 where x1: "walk cd n x acc = Inr (x1, acc1)" "walk_items cd n xs acc1 = Inr (xs1, acc')" "xs' = x1 # xs1"
    by (auto split: prod.splits)
  show ?case
    using masked_item "11.IH"(1) [OF x1(1)] "11.IH"(2) [OF x1(2)] unfolding x1(3) by blast
qed (auto intro: masked_dict masked_list masked_leaf)

text \<open>No structured identifier is stored: what is stored for a text field that holds JSON is the serialisation of a
  value in which every value under a PII key, at any depth and inside the JSON texts nested in it, is a
  pseudonym (or null).\<close>

theorem structured_masked:
  assumes "redact_structured cd t acc = Inr (t', acc')" "cd_loads cd t = Some v"
  shows "\<exists>w. t' = cd_dumps cd w \<and> masked cd (cd_depth cd) w"
  using assms walk_masked(1) by (fastforce simp: redact_structured_def)

theorem structured_masked_witness:
  "\<exists>w. ''{}'' = cd_dumps sample_codec w \<and> masked sample_codec 3 w"
proof -
  have "redact_structured sample_codec ''profile'' [] = Inr (''{}'', [''Jane Roe''])" by code_simp
  moreover have "cd_loads sample_codec ''profile'' = Some (PDict [(''full_name'', PStr ''Jane Roe'')])" by (simp add: sample_codec_def)
  ultimately show ?thesis using structured_masked by (fastforce simp: sample_codec_def)
qed

end
