(* ===== verification/Audit_Log.thy ===== *)
theory Audit_Log
  imports Redaction
begin

text \<open>
  \<open>observability/audit_logger.py\<close>: the messages of a run become rows of \<open>FACT_AGENT_TRACES\<close>, which are redacted
  and inserted by one statement, whose projection parses the two JSON columns.  The connection, the execution of the
  statement and the identifiers are parameters; the codec of the redaction also prints the JSON columns and
  holds the \<open>PARSE_JSON\<close> of the warehouse.
\<close>

section \<open>Messages\<close>

datatype message_class = HumanMessage | ToolMessage | AIMessage | OtherMessage

record agent_message =
  am_class :: message_class
  am_name :: "string option"
  am_content :: pyval
  am_calls :: "(string \<times> pyval) list"
  am_usage :: "pydict option"

definition classify_step :: "agent_message \<Rightarrow> string" where
  "classify_step m =
    (case am_class m of
       HumanMessage \<Rightarrow> ''INPUT''
     | ToolMessage \<Rightarrow> ''TOOL_OUTPUT''
     | AIMessage \<Rightarrow> if am_calls m \<noteq> [] then ''TOOL_CALL''
                    else if am_name m = Some ''orchestrator'' then ''HANDOFF'' else ''REASONING''
     | OtherMessage \<Rightarrow> ''OTHER'')"

text \<open>\<open>getattr(msg, "name", None) or default\<close>\<close>

definition name_or :: "string \<Rightarrow> agent_message \<Rightarrow> string" where
  "name_or d m = (case am_name m of None \<Rightarrow> d | Some n \<Rightarrow> if n = [] then d else n)"

definition tokens_used :: "agent_message \<Rightarrow> pyval" where
  "tokens_used m = (case am_usage m of
      Some u \<Rightarrow> if u = [] then PNone else (case map_of u ''total_tokens'' of None \<Rightarrow> PNone | Some v \<Rightarrow> v)
    | None \<Rightarrow> PNone)"

definition trace_columns :: "string list" where
  "trace_columns = [''trace_id'', ''decision_id'', ''step_number'', ''agent_name'', ''step_type'', ''tool_name'',
     ''tool_input'', ''tool_output'', ''reasoning_text'', ''tokens_used'']"

definition variant_trace_columns :: "string list" where
  "variant_trace_columns = [''tool_input'', ''tool_output'']"

definition row_for_message :: "codec \<Rightarrow> string \<Rightarrow> string \<Rightarrow> nat \<Rightarrow> agent_message \<Rightarrow> pydict" where
  "row_for_message cd uuid did n m =
    (let step = classify_step m;
         tool_name = (if step = ''TOOL_CALL'' then PStr (join '', '' (map fst (am_calls m)))
                      else if step = ''TOOL_OUTPUT'' then opt_val (am_name m) else PNone);
         tool_input = (if step = ''TOOL_CALL''
                       then PStr (cd_dumps cd (PList (map (\<lambda>(c, args). PDict [(''name'', PStr c), (''args'', args)]) (am_calls m))))
                       else PNone);
         tool_output = (if step = ''TOOL_OUTPUT''
                        then PStr (cd_dumps cd (PDict [(''content'', PStr (str_val (cd_str cd) (am_content m)))])) else PNone);
         content = (case am_content m of PStr s \<Rightarrow> s | v \<Rightarrow> cd_dumps cd v);
         agent = (if step = ''INPUT'' then name_or ''user'' m else name_or ''single_agent'' m)
     in [(''trace_id'', PStr uuid), (''decision_id'', PStr did), (''step_number'', PInt (int n)), (''agent_name'', PStr agent),
         (''step_type'', PStr step), (''tool_name'', tool_name), (''tool_input'', tool_input), (''tool_output'', tool_output),
         (''reasoning_text'', if step \<in> {''INPUT'', ''REASONING'', ''HANDOFF''} then PStr content else PNone),
         (''tokens_used'', tokens_used m)])"

section \<open>The statement\<close>

definition projection :: "string list \<Rightarrow> string list" where
  "projection cols = map (\<lambda>(i, c). let col = ''column'' @ str_nat (Suc i)
     in if c \<in> set variant_trace_columns then ''PARSE_JSON('' @ col @ '')'' else col) (enumerate 0 cols)"

definition insert_trace_sql :: "string list \<Rightarrow> nat \<Rightarrow> string" where
  "insert_trace_sql cols n =
    ''INSERT INTO DECISIONS.FACT_AGENT_TRACES ('' @ join '', '' cols @ '') SELECT '' @ join '', '' (projection cols) @
    '' FROM VALUES '' @ join '', '' (replicate n (''('' @ join '', '' (replicate (length cols) ''%s'') @ '')''))"

definition row_params :: "string list \<Rightarrow> pydict \<Rightarrow> pyval list" where
  "row_params cols r = map (\<lambda>c. case map_of r c of None \<Rightarrow> PNone | Some v \<Rightarrow> v) cols"

definition insert_params :: "string list \<Rightarrow> pydict list \<Rightarrow> pyval list" where
  "insert_params cols trace = concat (map (row_params cols) trace)"

text \<open>What the statement stores: the parameters dealt out to the columns, a row of values at a time.\<close>

function deal :: "string list \<Rightarrow> pyval list \<Rightarrow> pydict list" where
  "deal cols ps = (if cols = [] \<or> ps = [] then [] else zip cols (take (length cols) ps) # deal cols (drop (length cols) ps))"
  by pat_completeness auto
termination
  by (relation "measure (\<lambda>(cols, ps). length ps)") auto

declare deal.simps [simp del]

text \<open>The projection: \<open>PARSE_JSON\<close> of the two VARIANT columns, NULL where there is nothing; a text that is not JSON
  fails the statement.\<close>

definition project_cell :: "codec \<Rightarrow> string \<times> pyval \<Rightarrow> pyexn + string \<times> pyval" where
  "project_cell cd p =
    (case p of (c, v) \<Rightarrow>
      if c \<in> set variant_trace_columns
      then (case v of PStr t \<Rightarrow> and_then (cd_variant cd t) (\<lambda>w. Inr (c, w)) | _ \<Rightarrow> Inr (c, v))
      else Inr (c, v))"

fun each :: "('a \<Rightarrow> pyexn + 'b) \<Rightarrow> 'a list \<Rightarrow> pyexn + 'b list" where
  "each f [] = Inr []"
| "each f (x # xs) = and_then (f x) (\<lambda>y. and_then (each f xs) (\<lambda>ys. Inr (y # ys)))"

definition projected :: "codec \<Rightarrow> pydict list \<Rightarrow> pyexn + pydict list" where
  "projected cd rows = each (each (project_cell cd)) rows"

section \<open>Writing a trace\<close>

text \<open>The rows committed so far, and how many identifiers were drawn\<close>

record trace_log =
  tl_rows :: "pydict list"
  tl_uuid :: "nat \<Rightarrow> string"
  tl_next :: nat

definition trace_rows :: "codec \<Rightarrow> string \<Rightarrow> agent_message list \<Rightarrow> trace_log \<Rightarrow> pydict list" where
  "trace_rows cd did ms tg = map (\<lambda>(i, m). row_for_message cd (tl_uuid tg (tl_next tg + i)) did i m) (enumerate 0 ms)"

definition write_trace :: "codec \<Rightarrow> pyexn + unit \<Rightarrow> pyexn + unit \<Rightarrow> string \<Rightarrow> agent_message list \<Rightarrow> trace_log \<Rightarrow> (nat, trace_log) out" where
  "write_trace cd conn exec did ms tg =
    (let trace = trace_rows cd did ms tg; tg = tg\<lparr>tl_next := tl_next tg + length ms\<rparr> in
     if trace = [] then (Inr 0, tg)
     else (case redact_rows cd trace of
             Inl e \<Rightarrow> (Inl e, tg)
           | Inr trace \<Rightarrow>
              (case conn of
                 Inl e \<Rightarrow> (Inl e, tg)
               | Inr _ \<Rightarrow>
                  (case exec of
                     Inl e \<Rightarrow> (Inl e, tg)
                   | Inr _ \<Rightarrow>
                      (case projected cd (deal trace_columns (insert_params trace_columns trace)) of
                         Inl e \<Rightarrow> (Inl e, tg)
                       | Inr rows \<Rightarrow> (Inr (length trace), tg\<lparr>tl_rows := tl_rows tg @ rows\<rparr>))))))"

section \<open>What is stored\<close>

lemma deal_params: "cols \<noteq> [] \<Longrightarrow> deal cols (insert_params cols trace) = map (\<lambda>r. zip cols (row_params cols r)) trace"
proof (induction trace)
  case Nil
  then show ?case by (subst deal.simps) (simp add: insert_params_def)
next
  case (Cons r trace)
  have "length (row_params cols r) = length cols" by (simp add: row_params_def)
  then show ?case using Cons by (subst deal.simps) (auto simp: insert_params_def)
qed

lemma map_of_zip_map: "map_of (zip xs (map f xs)) x = (if x \<in> set xs then Some (f x) else None)"
  by (induction xs) auto

lemma stored_value:
  "c \<in> set trace_columns \<Longrightarrow> map_of (zip trace_columns (row_params trace_columns r)) c =
    Some (case map_of r c of None \<Rightarrow> PNone | Some v \<Rightarrow> v)"
  by (simp add: row_params_def map_of_zip_map)

lemma row_keys: "map fst (row_for_message cd uuid did n m) = trace_columns"
  by (simp add: row_for_message_def Let_def trace_columns_def)

lemma trace_rows_nth:
  "i < length ms \<Longrightarrow> trace_rows cd did ms tg ! i = row_for_message cd (tl_uuid tg (tl_next tg + i)) did i (ms ! i)"
  "length (trace_rows cd did ms tg) = length ms"
  by (simp_all add: trace_rows_def nth_enumerate_eq)

lemma each_rows: "each f xs = Inr ys \<Longrightarrow> list_all2 (\<lambda>x y. f x = Inr y) xs ys"
proof (induction xs arbitrary: ys)
  case (Cons x xs)
  then show ?case by (cases "f x"; cases "each f xs") auto
qed simp

lemma project_cell_key: "project_cell cd (c, v) = Inr q \<Longrightarrow> fst q = c"
  by (cases v; cases q) (auto simp: project_cell_def split: if_splits elim!: and_then.elims)

lemma project_row:
  assumes "list_all2 (\<lambda>p q. project_cell cd p = Inr q) al bl"
  shows "map fst bl = map fst al \<and> (map_of al c = Some v \<longrightarrow> (\<exists>w. map_of bl c = Some w \<and> project_cell cd (c, v) = Inr (c, w)))"
  using assms
proof (induction rule: list_all2_induct)
  case (Cons p al q bl)
  obtain k x where p: "p = (k, x)" by (cases p)
  obtain w where q: "q = (k, w)" using project_cell_key [of cd k x q] Cons.hyps(1) p by (cases q) auto
  show ?case using Cons p q by auto
qed simp

text \<open>Cell by cell: a row that is stored against the redacted row it comes from\<close>

definition stored_row :: "codec \<Rightarrow> pydict \<Rightarrow> pydict \<Rightarrow> bool" where
  "stored_row cd r q \<longleftrightarrow> map fst q = trace_columns \<and>
     (\<forall>c\<in>set trace_columns. \<exists>w. map_of q c = Some w \<and>
        project_cell cd (c, case map_of r c of None \<Rightarrow> PNone | Some v \<Rightarrow> v) = Inr (c, w))"

lemma projected_rows:
  assumes "projected cd (map (\<lambda>r. zip trace_columns (row_params trace_columns r)) trace) = Inr new"
  shows "list_all2 (stored_row cd) trace new"
proof -
  have "stored_row cd r q" if "each (project_cell cd) (zip trace_columns (row_params trace_columns r)) = Inr q" for r q
    using project_row [OF each_rows [OF that]] stored_value [of _ r] by (simp add: stored_row_def row_params_def)
  moreover have "list_all2 (\<lambda>r q. each (project_cell cd) (zip trace_columns (row_params trace_columns r)) = Inr q) trace new"
    using each_rows [OF assms [unfolded projected_def]] by (simp add: list_all2_map1)
  ultimately show ?thesis by (auto intro: list_all2_mono)
qed

lemma write_trace_ok:
  assumes "write_trace cd conn exec did ms tg = (Inr n, tg')"
  obtains trace new where "redact_rows cd (trace_rows cd did ms tg) = Inr trace" "n = length ms" "length trace = length ms"
    "tl_rows tg' = tl_rows tg @ new" "list_all2 (stored_row cd) trace new"
proof (cases "ms = []")
  case True
  have "redact_rows cd [] = Inr []" by (simp add: redact_rows_def)
  then show ?thesis using that [of "[]" "[]"] assms True by (simp add: write_trace_def trace_rows_def Let_def)
next
  case False
  then have ne: "trace_rows cd did ms tg \<noteq> []" by (metis length_0_conv trace_rows_nth(2))
  then obtain trace new where t: "redact_rows cd (trace_rows cd did ms tg) = Inr trace" "n = length trace"
    "projected cd (deal trace_columns (insert_params trace_columns trace)) = Inr new" "tl_rows tg' = tl_rows tg @ new"
    using assms by (auto simp: write_trace_def Let_def split: sum.splits)
  moreover have "length trace = length ms"
    using list_all2_lengthD [OF redact_rows_other [OF t(1)]] by (simp add: trace_rows_nth)
  moreover have "trace_columns \<noteq> []" by (simp add: trace_columns_def)
  ultimately show ?thesis using that [of trace new] projected_rows [of cd trace new] by (simp add: deal_params)
qed

lemma plain_cell: "c \<notin> set variant_trace_columns \<Longrightarrow> project_cell cd (c, v) = Inr (c, w) \<Longrightarrow> w = v"
  by (simp add: project_cell_def)

text \<open>C40: The audit trail is complete and ordered: a successful write adds one row per message and nothing else,
  the row of message number i carries the decision, the step number i and the step type of that message, and the
  number reported is the number of messages.\<close>

theorem trace_stored:
  assumes "write_trace cd conn exec did ms tg = (Inr n, tg')"
  shows "\<exists>new. tl_rows tg' = tl_rows tg @ new \<and> n = length ms \<and> length new = length ms \<and>
    (\<forall>i<length ms. map fst (new ! i) = trace_columns \<and>
      map_of (new ! i) ''decision_id'' = Some (PStr did) \<and> map_of (new ! i) ''step_number'' = Some (PInt (int i)) \<and>
      map_of (new ! i) ''step_type'' = Some (PStr (classify_step (ms ! i))))"
proof -
  obtain trace new where t: "redact_rows cd (trace_rows cd did ms tg) = Inr trace" "n = length ms" "length trace = length ms"
    "tl_rows tg' = tl_rows tg @ new" "list_all2 (stored_row cd) trace new"
    using write_trace_ok [OF assms] .
  have "map fst (new ! i) = trace_columns \<and>
      map_of (new ! i) ''decision_id'' = Some (PStr did) \<and> map_of (new ! i) ''step_number'' = Some (PInt (int i)) \<and>
      map_of (new ! i) ''step_type'' = Some (PStr (classify_step (ms ! i)))" if i: "i < length ms" for i
  proof -
    let ?row = "row_for_message cd (tl_uuid tg (tl_next tg + i)) did i (ms ! i)"
    have same: "map_of (trace ! i) c = map_of ?row c" if "c \<notin> set text_fields" for c
      using list_all2_nthD [OF redact_rows_other [OF t(1)], of i] i that by (simp add: trace_rows_nth)
    have st: "stored_row cd (trace ! i) (new ! i)" using list_all2_nthD [OF t(5), of i] i t(3) by simp
    have v: "map_of (new ! i) c = Some (case map_of ?row c of None \<Rightarrow> PNone | Some v \<Rightarrow> v)"
      if "c \<in> {''decision_id'', ''step_number'', ''step_type''}" for c
    proof -
      have c: "c \<in> set trace_columns" "c \<notin> set text_fields" "c \<notin> set variant_trace_columns"
        using that by (auto simp: trace_columns_def text_fields_def variant_trace_columns_def)
      then show ?thesis using st plain_cell [OF c(3)] same [OF c(2)] unfolding stored_row_def by fastforce
    qed
    moreover have "map_of (row_for_message cd u did i m) ''decision_id'' = Some (PStr did)"
      "map_of (row_for_message cd u did i m) ''step_number'' = Some (PInt (int i))"
      "map_of (row_for_message cd u did i m) ''step_type'' = Some (PStr (classify_step m))" for u m
      by (simp_all add: row_for_message_def Let_def)
    ultimately show ?thesis using st by (simp add: stored_row_def)
  qed
  then show ?thesis using t list_all2_lengthD [OF t(5)] by (intro exI [of _ new]) simp
qed









text \<open>The strings of a value, keys included\<close>

fun texts :: "pyval \<Rightarrow> string list" where
  "texts (PStr s) = [s]"
| "texts (PList xs) = concat (map texts xs)"
| "texts (PDict d) = concat (map (\<lambda>(k, v). k # texts v) d)"
| "texts v = []"







text \<open>A write that fails stores nothing.\<close>

lemma write_trace_atomic: "write_trace cd conn exec did ms tg = (Inl e, tg') \<Longrightarrow> tl_rows tg' = tl_rows tg"
  by (auto simp: write_trace_def Let_def split: sum.splits if_splits)

text \<open>The statement and the schema: every column of the INSERT is one of the table, every required column is among
  them, and exactly the two JSON columns are parsed.\<close>

lemma trace_insert_contract:
  "set (map upper trace_columns) \<subseteq> set (case columns ''DECISIONS.FACT_AGENT_TRACES'' of Inr cs \<Rightarrow> cs | Inl _ \<Rightarrow> []) \<and>
   projection trace_columns = [''column1'', ''column2'', ''column3'', ''column4'', ''column5'', ''column6'',
     ''PARSE_JSON(column7)'', ''PARSE_JSON(column8)'', ''column9'', ''column10'']"
  by code_simp

section \<open>An example\<close>

definition audit_codec :: codec where
  "audit_codec = sample_codec\<lparr>cd_dumps :=
     (\<lambda>v. if v = PDict [(''content'', PStr ''profile'')] then ''wrapped'' else ''{}'')\<rparr>"

definition sample_messages :: "agent_message list" where
  "sample_messages =
    [\<lparr>am_class = ToolMessage, am_name = Some ''get_user_history'', am_content = PStr ''profile'', am_calls = [], am_usage = None\<rparr>,
     \<lparr>am_class = AIMessage, am_name = None, am_content = PStr ''Jane Roe is far from home'', am_calls = [], am_usage = None\<rparr>]"

definition sample_log :: trace_log where
  "sample_log = \<lparr>tl_rows = [], tl_uuid = (\<lambda>_. ''u''), tl_next = 0\<rparr>"

definition sample_stored :: "pydict list" where
  "sample_stored =
    [[(''trace_id'', PStr ''u''), (''decision_id'', PStr ''d1''), (''step_number'', PInt 0), (''agent_name'', PStr ''get_user_history''),
      (''step_type'', PStr ''TOOL_OUTPUT''), (''tool_name'', PStr ''get_user_history''), (''tool_input'', PNone),
      (''tool_output'', PDict []), (''reasoning_text'', PNone), (''tokens_used'', PNone)],
     [(''trace_id'', PStr ''u''), (''decision_id'', PStr ''d1''), (''step_number'', PInt 1), (''agent_name'', PStr ''single_agent''),
      (''step_type'', PStr ''REASONING''), (''tool_name'', PNone), (''tool_input'', PNone), (''tool_output'', PNone),
      (''reasoning_text'', PStr ''[REDACTED:0a1b2c] is far from home''), (''tokens_used'', PNone)]]"

lemma sample_write:
  obtains tg where "write_trace audit_codec (Inr ()) (Inr ()) ''d1'' sample_messages sample_log = (Inr 2, tg)" "tl_rows tg = sample_stored"
proof -
  let ?w = "write_trace audit_codec (Inr ()) (Inr ()) ''d1'' sample_messages sample_log"
  have "fst ?w = Inr 2" "tl_rows (snd ?w) = sample_stored" by code_simp+
  then show ?thesis using that by (metis prod.collapse)
qed

theorem trace_stored_witness:
  "length sample_stored = length sample_messages \<and> map_of (sample_stored ! 1) ''step_number'' = Some (PInt 1) \<and>
    map_of (sample_stored ! 1) ''step_type'' = Some (PStr (classify_step (sample_messages ! 1)))"
proof -
  obtain tg where w: "write_trace audit_codec (Inr ()) (Inr ()) ''d1'' sample_messages sample_log = (Inr 2, tg)" "tl_rows tg = sample_stored"
    using sample_write .
  have "tl_rows sample_log = []" "length sample_messages = 2" by (simp_all add: sample_log_def sample_messages_def)
  then show ?thesis using trace_stored [OF w(1)] w(2) by auto
qed


text \<open>A name with a quote is stored after all: in the call of a tool that repeats it, JSON writes the quotes with
  backslashes, so that the second pass does not find the name in the text, and \<open>PARSE_JSON\<close> reads it back.  The
  codec is exact on the values that occur.\<close>

definition quoted_name :: string where
  "quoted_name = ''Al '' @ [CHR 0x22] @ ''Bo'' @ [CHR 0x22] @ '' Roe''"

definition call_text :: "string \<Rightarrow> string" where
  "call_text n = (let q = CHR 0x22; e = [CHR 0x5C, CHR 0x22] in
     ''[{'' @ (q # ''name'') @ (q # '': '') @ (q # n) @ (q # '', '') @ (q # ''args'') @ (q # '': {'') @ (q # ''q'') @ (q # '': '') @
     (q # ''Al '') @ e @ ''Bo'' @ e @ '' Roe'' @ (q # ''}}]''))"

definition call_value :: "string \<Rightarrow> pyval" where
  "call_value n = PList [PDict [(''name'', PStr n), (''args'', PDict [(''q'', PStr quoted_name)])]]"

definition quoting_codec :: codec where
  "quoting_codec = sample_codec\<lparr>
     cd_loads := (\<lambda>t. if t = ''profile'' then Some (PDict [(''full_name'', PStr quoted_name)])
       else if t = ''wrapped'' then Some (PDict [(''content'', PStr ''profile'')])
       else if t = call_text ''search'' then Some (call_value ''search'') else None),
     cd_dumps := (\<lambda>v. if v = PDict [(''content'', PStr ''profile'')] then ''wrapped''
       else if v = call_value ''search'' then call_text ''search''
       else if v = call_value ''[REDACTED:0a1b2c]'' then call_text ''[REDACTED:0a1b2c]'' else ''{}''),
     cd_variant := (\<lambda>t. if t = call_text ''[REDACTED:0a1b2c]'' then Inr (call_value ''[REDACTED:0a1b2c]'') else Inr (PDict [])),
     cd_str := (\<lambda>v. case v of PStr s \<Rightarrow> s | _ \<Rightarrow> [])\<rparr>"

definition quoting_messages :: "agent_message list" where
  "quoting_messages =
    [\<lparr>am_class = ToolMessage, am_name = Some ''get_user_history'', am_content = PStr ''profile'', am_calls = [], am_usage = None\<rparr>,
     \<lparr>am_class = AIMessage, am_name = None, am_content = PStr [],
       am_calls = [(''search'', PDict [(''q'', PStr quoted_name)])], am_usage = None\<rparr>]"

lemma quoted_name_stored:
  "case write_trace quoting_codec (Inr ()) (Inr ()) ''d1'' quoting_messages sample_log of
     (x, tg) \<Rightarrow> x = Inr 2 \<and> map_of (tl_rows tg ! 1) ''tool_input'' = Some (call_value ''[REDACTED:0a1b2c]'') \<and>
       quoted_name \<in> set (texts (call_value ''[REDACTED:0a1b2c]''))"
  by code_simp

end
