(* ===== verification/Metrics.thy ===== *)
theory Metrics
  imports Scoring "HOL-Library.AList"
begin

text \<open>
  \<open>observability/metrics.py\<close>: the scorecard of an evaluation run.  Rates and scores are reals; the scores of
  decided rows are those that passed \<open>validate_decision_record\<close>, so they are numbers in the unit interval.
\<close>

section \<open>Decisions\<close>

datatype elevated = EText string | EList "string list"

record scored =
  sd_decision :: string
  sd_fraud :: bool
  sd_truth :: "string option"
  sd_agent :: "string option"
  sd_elevated :: "elevated option"
  sd_confidence :: "real option"
  sd_judge :: "real option"

definition safe_div :: "real \<Rightarrow> real \<Rightarrow> real option" where
  "safe_div n d = (if d = 0 then None else Some (n / d))"

text \<open>\<open>d.get(key) or default\<close> for a text\<close>

definition or_text :: "string option \<Rightarrow> string \<Rightarrow> string" where
  "or_text v d = (case v of None \<Rightarrow> d | Some s \<Rightarrow> if s = [] then d else s)"

section \<open>Classification\<close>

record confusion_counts =
  cf_tp :: nat
  cf_fp :: nat
  cf_fn :: nat
  cf_tn :: nat

definition count_decision :: "scored \<Rightarrow> confusion_counts \<Rightarrow> confusion_counts" where
  "count_decision d c =
    (if sd_decision d = ''ESCALATE'' then c
     else let blocked = sd_decision d = ''BLOCK''; fraud = sd_fraud d in
       if blocked \<and> fraud then c\<lparr>cf_tp := cf_tp c + 1\<rparr>
       else if blocked \<and> \<not> fraud then c\<lparr>cf_fp := cf_fp c + 1\<rparr>
       else if \<not> blocked \<and> fraud then c\<lparr>cf_fn := cf_fn c + 1\<rparr>
       else c\<lparr>cf_tn := cf_tn c + 1\<rparr>)"

definition confusion :: "scored list \<Rightarrow> confusion_counts" where
  "confusion ds = fold count_decision ds \<lparr>cf_tp = 0, cf_fp = 0, cf_fn = 0, cf_tn = 0\<rparr>"

record classification =
  cl_precision :: "real option"
  cl_recall :: "real option"
  cl_fpr :: "real option"
  cl_f1 :: "real option"
  cl_counts :: confusion_counts

text \<open>A rate that is \<open>None\<close> or zero counts as false.\<close>

definition truthy_rate :: "real option \<Rightarrow> bool" where
  "truthy_rate r = (case r of None \<Rightarrow> False | Some x \<Rightarrow> x \<noteq> 0)"

definition classification_metrics :: "scored list \<Rightarrow> classification" where
  "classification_metrics ds =
    (let c = confusion ds; tp = real (cf_tp c); fp = real (cf_fp c); fn = real (cf_fn c); tn = real (cf_tn c);
         precision = safe_div tp (tp + fp); recall = safe_div tp (tp + fn)
     in \<lparr>cl_precision = precision, cl_recall = recall, cl_fpr = safe_div fp (fp + tn),
         cl_f1 = (if truthy_rate precision \<and> truthy_rate recall
                  then safe_div (2 * the precision * the recall) (the precision + the recall) else None),
         cl_counts = c\<rparr>)"

record escalation =
  es_rate :: "real option"
  es_count :: nat
  es_cost :: real

definition escalation_metrics :: "real \<Rightarrow> scored list \<Rightarrow> escalation" where
  "escalation_metrics cost ds =
    (let esc = length (filter (\<lambda>d. sd_decision d = ''ESCALATE'') ds)
     in \<lparr>es_rate = safe_div (real esc) (real (length ds)), es_count = esc, es_cost = real esc * cost\<rparr>)"

section \<open>Patterns\<close>

definition surfaced_patterns :: "scored \<Rightarrow> string set" where
  "surfaced_patterns d =
    (let surfaced = (case sd_elevated d of
           None \<Rightarrow> []
         | Some (EText raw) \<Rightarrow> map (\<lambda>p. upper (strip p)) (filter (\<lambda>p. strip p \<noteq> []) (split_on CHR '','' raw))
         | Some (EList ps) \<Rightarrow> map (\<lambda>p. upper (strip p)) (filter (\<lambda>p. strip p \<noteq> []) ps));
         primary = upper (strip (or_text (sd_agent d) ''''))
     in if primary \<noteq> [] \<and> primary \<noteq> ''NONE'' then insert primary (set surfaced) else set surfaced)"

record bucket =
  bk_n :: nat
  bk_caught :: nat
  bk_primary :: nat
  bk_detected :: nat
  bk_mislabeled :: nat
  bk_missed :: nat

definition empty_bucket :: bucket where
  "empty_bucket = \<lparr>bk_n = 0, bk_caught = 0, bk_primary = 0, bk_detected = 0, bk_mislabeled = 0, bk_missed = 0\<rparr>"

definition true_pattern :: "scored \<Rightarrow> string" where
  "true_pattern d = upper (strip (or_text (sd_truth d) ''UNKNOWN''))"

definition is_caught :: "scored \<Rightarrow> bool" where
  "is_caught d = (sd_decision d \<in> {''BLOCK'', ''ESCALATE''})"

definition is_primary :: "scored \<Rightarrow> bool" where
  "is_primary d = (upper (strip (or_text (sd_agent d) ''NONE'')) = true_pattern d)"

definition is_detected :: "scored \<Rightarrow> bool" where
  "is_detected d = (true_pattern d \<in> surfaced_patterns d)"

definition count_in :: "scored \<Rightarrow> bucket \<Rightarrow> bucket" where
  "count_in d b =
    (let b = b\<lparr>bk_n := bk_n b + 1\<rparr>;
         b = (if is_caught d then b\<lparr>bk_caught := bk_caught b + 1\<rparr> else b);
         b = (if is_primary d then b\<lparr>bk_primary := bk_primary b + 1\<rparr> else b)
     in if is_detected d
        then let b = b\<lparr>bk_detected := bk_detected b + 1\<rparr>
             in if \<not> is_primary d then b\<lparr>bk_mislabeled := bk_mislabeled b + 1\<rparr> else b
        else b\<lparr>bk_missed := bk_missed b + 1\<rparr>)"

definition bucket_of :: "(string \<times> bucket) list \<Rightarrow> string \<Rightarrow> bucket" where
  "bucket_of bs p = (case map_of bs p of None \<Rightarrow> empty_bucket | Some b \<Rightarrow> b)"

definition count_pattern :: "scored \<Rightarrow> (string \<times> bucket) list \<Rightarrow> (string \<times> bucket) list" where
  "count_pattern d bs =
    (if \<not> sd_fraud d then bs
     else AList.update (true_pattern d) (count_in d (bucket_of bs (true_pattern d))) bs)"

record pattern_rates =
  pr_counts :: bucket
  pr_recall :: "real option"
  pr_id_accuracy :: "real option"
  pr_detection :: "real option"
  pr_mislabeled :: "real option"
  pr_missed :: "real option"

definition rates_of :: "bucket \<Rightarrow> pattern_rates" where
  "rates_of b =
    (let n = real (bk_n b)
     in \<lparr>pr_counts = b, pr_recall = safe_div (real (bk_caught b)) n,
         pr_id_accuracy = safe_div (real (bk_primary b)) n, pr_detection = safe_div (real (bk_detected b)) n,
         pr_mislabeled = safe_div (real (bk_mislabeled b)) n, pr_missed = safe_div (real (bk_missed b)) n\<rparr>)"

definition per_pattern_recall :: "scored list \<Rightarrow> (string \<times> pattern_rates) list" where
  "per_pattern_recall ds = map (\<lambda>(p, b). (p, rates_of b)) (fold count_pattern ds [])"

section \<open>Calibration\<close>

definition fraud_probability :: "scored \<Rightarrow> real option" where
  "fraud_probability d =
    (case sd_confidence d of
       None \<Rightarrow> None
     | Some c \<Rightarrow> if sd_decision d = ''ESCALATE'' then None
                 else Some (if sd_decision d = ''BLOCK'' then c else 1 - c))"

definition calibration_pairs :: "scored list \<Rightarrow> (real \<times> real) list" where
  "calibration_pairs ds =
    List.map_filter (\<lambda>d. map_option (\<lambda>p. (p, if sd_fraud d then 1 else 0)) (fraud_probability d)) ds"

definition round_to :: "nat \<Rightarrow> real \<Rightarrow> real" where
  "round_to n x = of_int (round_half_even (x * 10 ^ n)) / 10 ^ n"

text \<open>\<open>f"{x:.1f}"\<close> of a number that is not negative, and the label of a bin\<close>

definition fixed1 :: "real \<Rightarrow> string" where
  "fixed1 x = (let n = nat (round_half_even (x * 10)) in str_nat (n div 10) @ ''.'' @ str_nat (n mod 10))"

definition bin_label :: "nat \<Rightarrow> nat \<Rightarrow> string" where
  "bin_label bins i = ''['' @ fixed1 (real i / real bins) @ '','' @ fixed1 (real (i + 1) / real bins) @ '')''"

record reliability_row =
  rl_bin :: string
  rl_n :: nat
  rl_predicted :: real
  rl_observed :: real

definition in_bin :: "nat \<Rightarrow> nat \<Rightarrow> (real \<times> real) list \<Rightarrow> (real \<times> real) list" where
  "in_bin bins i ps =
    (let lo = real i / real bins; hi = real (i + 1) / real bins
     in filter (\<lambda>(p, _). lo \<le> p \<and> p < hi \<or> i = bins - 1 \<and> p = hi) ps)"

definition bin_row :: "nat \<Rightarrow> (real \<times> real) list \<Rightarrow> nat \<Rightarrow> reliability_row option" where
  "bin_row bins ps i =
    (let xs = in_bin bins i ps; n = real (length xs)
     in if xs = [] then None
        else Some \<lparr>rl_bin = bin_label bins i, rl_n = length xs,
                   rl_predicted = round_to 3 (sum_list (map fst xs) / n),
                   rl_observed = round_to 3 (sum_list (map snd xs) / n)\<rparr>)"

record calibration_report =
  ca_brier :: "real option"
  ca_n :: nat
  ca_reliability :: "reliability_row list"

definition brier :: "(real \<times> real) list \<Rightarrow> real" where
  "brier ps = sum_list (map (\<lambda>(p, q). (p - q)\<^sup>2) ps) / real (length ps)"

definition calibration :: "nat \<Rightarrow> scored list \<Rightarrow> calibration_report" where
  "calibration bins ds =
    (let ps = calibration_pairs ds
     in if ps = [] then \<lparr>ca_brier = None, ca_n = 0, ca_reliability = []\<rparr>
        else \<lparr>ca_brier = Some (round_to 4 (brier ps)), ca_n = length ps,
              ca_reliability = List.map_filter (bin_row bins ps) [0..<bins]\<rparr>)"

section \<open>The judge against the outcome\<close>

record judge_report =
  ju_right :: "real option"
  ju_wrong :: "real option"
  ju_gap :: "real option"
  ju_n_right :: nat
  ju_n_wrong :: nat

definition judged :: "bool \<Rightarrow> scored list \<Rightarrow> real list" where
  "judged ok ds = List.map_filter (\<lambda>d.
     if sd_decision d = ''ESCALATE'' \<or> ((sd_decision d = ''BLOCK'') = sd_fraud d) \<noteq> ok then None else sd_judge d) ds"

definition judge_outcome_agreement :: "scored list \<Rightarrow> judge_report" where
  "judge_outcome_agreement ds =
    (let right = judged True ds; wrong = judged False ds;
         mr = safe_div (sum_list right) (real (length right)); mw = safe_div (sum_list wrong) (real (length wrong))
     in \<lparr>ju_right = mr, ju_wrong = mw,
         ju_gap = (case (mr, mw) of (Some a, Some b) \<Rightarrow> Some (a - b) | _ \<Rightarrow> None),
         ju_n_right = length right, ju_n_wrong = length wrong\<rparr>)"

record scorecard =
  sc_n :: nat
  sc_classification :: classification
  sc_escalation :: escalation
  sc_patterns :: "(string \<times> pattern_rates) list"
  sc_calibration :: calibration_report
  sc_judge :: judge_report

definition compute_all :: "real \<Rightarrow> scored list \<Rightarrow> scorecard" where
  "compute_all cost ds =
    \<lparr>sc_n = length ds, sc_classification = classification_metrics ds, sc_escalation = escalation_metrics cost ds,
     sc_patterns = per_pattern_recall ds, sc_calibration = calibration 5 ds, sc_judge = judge_outcome_agreement ds\<rparr>"

section \<open>Counts\<close>

abbreviation tally :: "('a \<Rightarrow> bool) \<Rightarrow> 'a list \<Rightarrow> nat" where
  "tally P xs \<equiv> length (filter P xs)"

lemma confusion_fold:
  "fold count_decision ds c = \<lparr>
     cf_tp = cf_tp c + tally (\<lambda>d. sd_decision d = ''BLOCK'' \<and> sd_fraud d) ds,
     cf_fp = cf_fp c + tally (\<lambda>d. sd_decision d = ''BLOCK'' \<and> \<not> sd_fraud d) ds,
     cf_fn = cf_fn c + tally (\<lambda>d. sd_decision d \<notin> {''BLOCK'', ''ESCALATE''} \<and> sd_fraud d) ds,
     cf_tn = cf_tn c + tally (\<lambda>d. sd_decision d \<notin> {''BLOCK'', ''ESCALATE''} \<and> \<not> sd_fraud d) ds\<rparr>"
  by (induction ds arbitrary: c) (auto simp: count_decision_def Let_def)

lemma confusion_counts:
  "cf_tp (confusion ds) = tally (\<lambda>d. sd_decision d = ''BLOCK'' \<and> sd_fraud d) ds"
  "cf_fp (confusion ds) = tally (\<lambda>d. sd_decision d = ''BLOCK'' \<and> \<not> sd_fraud d) ds"
  "cf_fn (confusion ds) = tally (\<lambda>d. sd_decision d \<notin> {''BLOCK'', ''ESCALATE''} \<and> sd_fraud d) ds"
  "cf_tn (confusion ds) = tally (\<lambda>d. sd_decision d \<notin> {''BLOCK'', ''ESCALATE''} \<and> \<not> sd_fraud d) ds"
  by (simp_all add: confusion_def confusion_fold)

lemma confusion_total:
  "cf_tp (confusion ds) + cf_fp (confusion ds) + cf_fn (confusion ds) + cf_tn (confusion ds) + es_count (escalation_metrics cost ds) = length ds"
  unfolding confusion_counts by (induction ds) (auto simp: escalation_metrics_def Let_def)

lemma harmonic:
  fixes tp fp fn :: real
  assumes "0 < tp" "0 \<le> fp" "0 \<le> fn"
  shows "2 * (tp / (tp + fp)) * (tp / (tp + fn)) / (tp / (tp + fp) + tp / (tp + fn)) = 2 * tp / (2 * tp + fp + fn)"
proof -
  define A B where "A = tp + fp" and "B = tp + fn"
  have p: "0 < A" "0 < B" "tp \<noteq> 0" using assms by (simp_all add: A_def B_def)
  have sum: "tp / A + tp / B = tp * (A + B) / (A * B)" using p by (simp add: field_simps)
  have "2 * (tp / A) * (tp / B) / (tp * (A + B) / (A * B)) = (tp * (2 * tp) / (A * B)) / (tp * (A + B) / (A * B))" by simp
  also have "\<dots> = tp * (2 * tp) / (tp * (A + B))" using p by simp
  also have "\<dots> = 2 * tp / (A + B)" using p(3) by (rule mult_divide_mult_cancel_left)
  finally have "2 * (tp / A) * (tp / B) / (tp * (A + B) / (A * B)) = 2 * tp / (A + B)" .
  moreover have "2 * tp + fp + fn = A + B" by (simp add: A_def B_def)
  ultimately show ?thesis unfolding A_def [symmetric] B_def [symmetric] sum by simp
qed

text \<open>The headline scores are what a fraud team takes them for: true and false positives count the blocks,
  false negatives the frauds that were let through, every row is counted once with the escalations apart, and F1
  is two true positives over two true positives plus both kinds of error, undefined only when nothing was
  caught.\<close>

theorem classification_reference:
  fixes ds :: "scored list" and cost :: real
  defines "tp \<equiv> length (filter (\<lambda>d. sd_decision d = ''BLOCK'' \<and> sd_fraud d) ds)"
    and "fp \<equiv> length (filter (\<lambda>d. sd_decision d = ''BLOCK'' \<and> \<not> sd_fraud d) ds)"
    and "fn \<equiv> length (filter (\<lambda>d. sd_decision d \<notin> {''BLOCK'', ''ESCALATE''} \<and> sd_fraud d) ds)"
  shows "cf_tp (cl_counts (classification_metrics ds)) = tp \<and> cf_fp (cl_counts (classification_metrics ds)) = fp \<and>
    cf_fn (cl_counts (classification_metrics ds)) = fn \<and>
    tp + fp + fn + cf_tn (cl_counts (classification_metrics ds)) + es_count (escalation_metrics cost ds) = length ds \<and>
    cl_f1 (classification_metrics ds) = (if tp = 0 then None else Some (2 * real tp / real (2 * tp + fp + fn)))"
proof (intro conjI)
  note c = confusion_counts [of ds, folded tp_def fp_def fn_def]
  show "cf_tp (cl_counts (classification_metrics ds)) = tp" "cf_fp (cl_counts (classification_metrics ds)) = fp"
    "cf_fn (cl_counts (classification_metrics ds)) = fn"
    "tp + fp + fn + cf_tn (cl_counts (classification_metrics ds)) + es_count (escalation_metrics cost ds) = length ds"
    using confusion_total [of ds cost] by (simp_all add: classification_metrics_def Let_def c)
  show "cl_f1 (classification_metrics ds) = (if tp = 0 then None else Some (2 * real tp / real (2 * tp + fp + fn)))"
  proof (cases "tp = 0")
    case True
    then show ?thesis by (simp add: classification_metrics_def Let_def c safe_div_def truthy_rate_def)
  next
    case False
    then have p: "real tp + real fp \<noteq> 0" "real tp + real fn \<noteq> 0" "0 < real tp" by linarith+
    have "real tp / (real tp + real fp) + real tp / (real tp + real fn) \<noteq> 0"
      using p(3) by (smt (verit) divide_pos_pos of_nat_0_le_iff)
    then show ?thesis
      using False p harmonic [of "real tp" "real fp" "real fn"]
      by (simp add: classification_metrics_def Let_def c safe_div_def truthy_rate_def)
  qed
qed

section \<open>Buckets\<close>

lemma bucket_of_update: "bucket_of (AList.update p b bs) q = (if q = p then b else bucket_of bs q)"
  by (simp add: bucket_of_def update_conv')

lemma buckets_fold:
  "bucket_of (fold count_pattern ds bs) p = fold count_in (filter (\<lambda>d. sd_fraud d \<and> true_pattern d = p) ds) (bucket_of bs p)"
  by (induction ds arbitrary: bs) (auto simp: count_pattern_def bucket_of_update)

lemma buckets_keys:
  "distinct (map fst bs) \<Longrightarrow> distinct (map fst (fold count_pattern ds bs)) \<and>
    fst ` set (fold count_pattern ds bs) = fst ` set bs \<union> true_pattern ` {d \<in> set ds. sd_fraud d}"
proof (induction ds arbitrary: bs)
  case (Cons d ds)
  have "distinct (map fst (count_pattern d bs))" using Cons.prems by (simp add: count_pattern_def distinct_update)
  moreover have "fst ` set (count_pattern d bs) = fst ` set bs \<union> (if sd_fraud d then {true_pattern d} else {})"
    by (auto simp: count_pattern_def update_conv' simp flip: dom_map_of_conv_image_fst)
  ultimately show ?case using Cons.IH [of "count_pattern d bs"] by auto
qed simp

lemma bucket_counts:
  "fold count_in ds b = \<lparr>bk_n = bk_n b + length ds, bk_caught = bk_caught b + tally is_caught ds,
     bk_primary = bk_primary b + tally is_primary ds, bk_detected = bk_detected b + tally is_detected ds,
     bk_mislabeled = bk_mislabeled b + tally (\<lambda>d. is_detected d \<and> \<not> is_primary d) ds,
     bk_missed = bk_missed b + tally (\<lambda>d. \<not> is_detected d) ds\<rparr>"
  by (induction ds arbitrary: b) (auto simp: count_in_def Let_def)

lemma primary_detected:
  assumes "is_primary d" "true_pattern d \<noteq> []" "true_pattern d \<noteq> ''NONE''" shows "is_detected d"
proof -
  have "strip ''NONE'' = ''NONE''" "upper ''NONE'' = ''NONE''" by code_simp+
  then obtain a where "sd_agent d = Some a" "a \<noteq> []" "upper (strip a) = true_pattern d"
    using assms(1,3) by (auto simp: is_primary_def or_text_def split: option.splits if_splits)
  then show ?thesis using assms(2,3) by (simp add: is_detected_def surfaced_patterns_def Let_def or_text_def)
qed

lemma count_split: "tally P xs = tally (\<lambda>x. P x \<and> Q x) xs + tally (\<lambda>x. P x \<and> \<not> Q x) xs"
  by (induction xs) auto

lemma per_pattern_keys:
  "distinct (map fst (per_pattern_recall ds))" "fst ` set (per_pattern_recall ds) = true_pattern ` {d \<in> set ds. sd_fraud d}"
proof -
  note k = buckets_keys [of "[]" ds, simplified]
  have m: "map fst (per_pattern_recall ds) = map fst (fold count_pattern ds [])"
    by (simp add: per_pattern_recall_def split_beta comp_def)
  then show "distinct (map fst (per_pattern_recall ds))" using k by simp
  have "fst ` set (per_pattern_recall ds) = fst ` set (fold count_pattern ds [])" using m by (metis list.set_map)
  then show "fst ` set (per_pattern_recall ds) = true_pattern ` {d \<in> set ds. sd_fraud d}" using k by simp
qed

lemma per_pattern_entry:
  assumes "(p, r) \<in> set (per_pattern_recall ds)"
  defines "rows \<equiv> filter (\<lambda>d. sd_fraud d \<and> true_pattern d = p) ds"
  shows "rows \<noteq> []" "r = rates_of (fold count_in rows empty_bucket)"
proof -
  note k = buckets_keys [of "[]" ds, simplified]
  obtain b where b: "(p, b) \<in> set (fold count_pattern ds [])" "r = rates_of b"
    using assms(1) by (auto simp: per_pattern_recall_def)
  have "bucket_of (fold count_pattern ds []) p = b" using b(1) k by (simp add: bucket_of_def)
  moreover have "bucket_of [] p = empty_bucket" by (simp add: bucket_of_def)
  ultimately show "r = rates_of (fold count_in rows empty_bucket)" using buckets_fold [of ds "[]" p] b(2) by (simp add: rows_def)
  have "p \<in> true_pattern ` {d \<in> set ds. sd_fraud d}" using b(1) k by force
  then show "rows \<noteq> []" by (auto simp: rows_def filter_empty_conv)
qed

lemma primary_split:
  assumes "\<forall>d\<in>set rows. true_pattern d = p" "p \<notin> {[], ''NONE''}"
  shows "tally is_primary rows + tally (\<lambda>d. is_detected d \<and> \<not> is_primary d) rows = tally is_detected rows"
proof -
  have "filter is_primary rows = filter (\<lambda>d. is_detected d \<and> is_primary d) rows"
    using primary_detected assms by (intro filter_cong) auto
  then show ?thesis using count_split [of is_detected rows is_primary] by simp
qed

text \<open>The report per pattern accounts for every fraud once: there is one entry for each pattern that some
  fraud row has, its numbers are those of exactly the fraud rows of that pattern, each row is either detected or
  missed, and, for every pattern but the label NONE, the detected rows are those labelled right plus those
  mislabelled.\<close>

theorem per_pattern_accounts:
  "distinct (map fst (per_pattern_recall ds)) \<and>
    fst ` set (per_pattern_recall ds) = true_pattern ` {d \<in> set ds. sd_fraud d} \<and>
    (\<forall>(p, r)\<in>set (per_pattern_recall ds).
      let rows = filter (\<lambda>d. sd_fraud d \<and> true_pattern d = p) ds; b = pr_counts r
      in 0 < bk_n b \<and> bk_n b = length rows \<and> bk_caught b = length (filter is_caught rows) \<and>
         bk_detected b = length (filter is_detected rows) \<and> bk_detected b + bk_missed b = bk_n b \<and>
         pr_detection r = Some (real (bk_detected b) / real (bk_n b)) \<and>
         (p \<notin> {[], ''NONE''} \<longrightarrow> bk_primary b + bk_mislabeled b = bk_detected b))"
proof -
  have "let rows = filter (\<lambda>d. sd_fraud d \<and> true_pattern d = p) ds; b = pr_counts r
      in 0 < bk_n b \<and> bk_n b = length rows \<and> bk_caught b = length (filter is_caught rows) \<and>
         bk_detected b = length (filter is_detected rows) \<and> bk_detected b + bk_missed b = bk_n b \<and>
         pr_detection r = Some (real (bk_detected b) / real (bk_n b)) \<and>
         (p \<notin> {[], ''NONE''} \<longrightarrow> bk_primary b + bk_mislabeled b = bk_detected b)"
    if "(p, r) \<in> set (per_pattern_recall ds)" for p r
  proof -
    define rows where "rows = filter (\<lambda>d. sd_fraud d \<and> true_pattern d = p) ds"
    then have "\<forall>d\<in>set rows. true_pattern d = p" by simp
    from primary_split [OF this] per_pattern_entry [OF that, folded rows_def] show ?thesis
      unfolding rows_def [symmetric]
      by (simp add: Let_def rates_of_def safe_div_def bucket_counts empty_bucket_def sum_length_filter_compl)
  qed
  then show ?thesis using per_pattern_keys by auto
qed

definition sample_fraud :: "string \<Rightarrow> string option \<Rightarrow> elevated option \<Rightarrow> scored" where
  "sample_fraud dec label el = \<lparr>sd_decision = dec, sd_fraud = True, sd_truth = Some ''GEO_JUMP'', sd_agent = label,
     sd_elevated = el, sd_confidence = Some (9 / 10), sd_judge = None\<rparr>"

definition sample_scored :: "scored list" where
  "sample_scored = [sample_fraud ''BLOCK'' (Some ''NEW_DEVICE'') (Some (EText ''new_device, geo_jump'')),
     sample_fraud ''ALLOW'' None None,
     (sample_fraud ''BLOCK'' None None)\<lparr>sd_fraud := False\<rparr>]"

theorem per_pattern_accounts_witness:
  "\<exists>r. (''GEO_JUMP'', r) \<in> set (per_pattern_recall sample_scored) \<and> bk_n (pr_counts r) = 2 \<and> bk_caught (pr_counts r) = 1 \<and>
    bk_detected (pr_counts r) = 1 \<and> bk_missed (pr_counts r) = 1 \<and> bk_primary (pr_counts r) + bk_mislabeled (pr_counts r) = 1"
proof -
  note a = per_pattern_accounts [of sample_scored]
  have tp: "true_pattern (sample_fraud dec l el) = ''GEO_JUMP''" for dec l el
  proof -
    have "upper (strip ''GEO_JUMP'') = ''GEO_JUMP''" by code_simp
    then show ?thesis by (simp add: true_pattern_def sample_fraud_def or_text_def)
  qed
  let ?rows = "[sample_fraud ''BLOCK'' (Some ''NEW_DEVICE'') (Some (EText ''new_device, geo_jump'')), sample_fraud ''ALLOW'' None None]"
  have rows: "filter (\<lambda>d. sd_fraud d \<and> true_pattern d = ''GEO_JUMP'') sample_scored = ?rows"
    by (simp add: sample_scored_def tp) (simp add: sample_fraud_def)
  have "upper (strip '' geo_jump'') = ''GEO_JUMP''" "split_on CHR '','' ''new_device, geo_jump'' = [''new_device'', '' geo_jump'']"
    by code_simp+
  then have d: "is_detected (?rows ! 0)" by (simp add: is_detected_def tp) (auto simp: surfaced_patterns_def sample_fraud_def Let_def image_iff)
  have "strip [] = []" "upper [] = []" by code_simp+
  then have nd: "\<not> is_detected (?rows ! 1)"
    by (simp add: is_detected_def tp) (simp add: surfaced_patterns_def sample_fraud_def or_text_def)
  have c: "is_caught (?rows ! 0)" "\<not> is_caught (?rows ! 1)" by (simp_all add: is_caught_def sample_fraud_def)
  have "sample_fraud ''ALLOW'' None None \<in> {d \<in> set sample_scored. sd_fraud d}" by (simp add: sample_scored_def sample_fraud_def)
  then have "''GEO_JUMP'' \<in> fst ` set (per_pattern_recall sample_scored)" using a tp by (metis (no_types, lifting) image_eqI)
  then obtain r where r: "(''GEO_JUMP'', r) \<in> set (per_pattern_recall sample_scored)" by auto
  from a r rows d nd c show ?thesis by (intro exI [of _ r]) (fastforce simp: Let_def)
qed

section \<open>Bins\<close>

definition bin_of :: "nat \<Rightarrow> real \<Rightarrow> nat" where
  "bin_of bins p = (if p = 1 then bins - 1 else nat \<lfloor>p * real bins\<rfloor>)"

lemma in_bin_iff:
  assumes "0 < bins" "0 \<le> p" "p \<le> 1" "i < bins"
  shows "(real i / real bins \<le> p \<and> p < real (i + 1) / real bins \<or> i = bins - 1 \<and> p = real (i + 1) / real bins) \<longleftrightarrow> i = bin_of bins p"
proof -
  have b: "0 < real bins" using assms(1) by simp
  have "real i / real bins \<le> p \<longleftrightarrow> real i \<le> p * real bins" "p < real (i + 1) / real bins \<longleftrightarrow> p * real bins < 1 + real i"
    using b by (simp_all add: divide_le_eq less_divide_eq)
  then have mid: "real i / real bins \<le> p \<and> p < real (i + 1) / real bins \<longleftrightarrow> \<lfloor>p * real bins\<rfloor> = int i" by linarith
  show ?thesis
  proof (cases "p = 1")
    case True
    have "\<lfloor>p * real bins\<rfloor> \<noteq> int i" using True assms(4) by simp
    moreover have "i = bins - 1 \<Longrightarrow> real (i + 1) / real bins = 1" using assms(1) by (simp add: of_nat_diff)
    ultimately show ?thesis using True mid by (auto simp: bin_of_def)
  next
    case False
    have "i = bins - 1 \<Longrightarrow> p \<noteq> real (i + 1) / real bins" using False assms(1) by (simp add: of_nat_diff)
    moreover have "0 \<le> \<lfloor>p * real bins\<rfloor>" using assms(2) by simp
    ultimately show ?thesis using False mid by (auto simp: bin_of_def)
  qed
qed

lemma bin_of_less:
  assumes "0 < bins" "0 \<le> p" "p \<le> 1" shows "bin_of bins p < bins"
proof (cases "p = 1")
  case False
  then have "p * real bins < real bins" using assms by (simp add: mult_less_cancel_right1)
  then have "\<lfloor>p * real bins\<rfloor> < int bins" by linarith
  then show ?thesis using False assms by (simp add: bin_of_def nat_less_iff)
qed (use assms in \<open>simp add: bin_of_def\<close>)

definition unit_pairs :: "(real \<times> real) list \<Rightarrow> bool" where
  "unit_pairs ps = list_all (\<lambda>(p, q). 0 \<le> p \<and> p \<le> 1 \<and> q \<in> {0, 1}) ps"

lemma sum_one: "sum_list (map (\<lambda>i. if i = k then 1 else 0 :: nat) [0..<n]) = (if k < n then 1 else 0)"
  by (induction n) auto

lemma unit_square:
  fixes p q :: real assumes "0 \<le> p" "p \<le> 1" "q = 0 \<or> q = 1" shows "(p - q)\<^sup>2 \<le> 1"
  using assms by (auto simp: abs_square_le_1)

lemma bins_partition:
  assumes "0 < bins" "unit_pairs ps"
  shows "sum_list (map (\<lambda>i. length (in_bin bins i ps)) [0..<bins]) = length ps"
  using assms(2)
proof (induction ps)
  case (Cons x ps)
  obtain p q where x: "x = (p, q)" by (cases x)
  have p: "0 \<le> p" "p \<le> 1" using Cons.prems by (simp_all add: unit_pairs_def x)
  have "length (in_bin bins i (x # ps)) = (if i = bin_of bins p then 1 else 0) + length (in_bin bins i ps)" if "i < bins" for i
    using in_bin_iff [OF assms(1) p that] by (simp add: in_bin_def Let_def x)
  then have "map (\<lambda>i. length (in_bin bins i (x # ps))) [0..<bins] =
      map (\<lambda>i. (if i = bin_of bins p then 1 else 0) + length (in_bin bins i ps)) [0..<bins]"
    by (intro map_cong) simp_all
  then have "sum_list (map (\<lambda>i. length (in_bin bins i (x # ps))) [0..<bins]) =
      sum_list (map (\<lambda>i. if i = bin_of bins p then 1 else 0) [0..<bins]) + sum_list (map (\<lambda>i. length (in_bin bins i ps)) [0..<bins])"
    by (simp only: sum_list_addf)
  moreover have "sum_list (map (\<lambda>i. if i = bin_of bins p then 1 else 0 :: nat) [0..<bins]) = 1"
    using bin_of_less [OF assms(1) p] by (simp add: sum_one)
  ultimately show ?case using Cons by (simp add: unit_pairs_def)
qed (simp add: in_bin_def)

lemma rows_total:
  "sum_list (map rl_n (List.map_filter (bin_row bins ps) is)) = sum_list (map (\<lambda>i. length (in_bin bins i ps)) is)"
  by (induction "is") (auto simp: bin_row_def Let_def)

lemma brier_unit:
  assumes "unit_pairs ps" "ps \<noteq> []" shows "0 \<le> brier ps" "brier ps \<le> 1"
proof -
  have "\<forall>x\<in>set (map (\<lambda>(p, q). (p - q)\<^sup>2) ps). 0 \<le> x \<and> x \<le> 1"
    using assms(1) by (auto simp: unit_pairs_def list_all_iff intro: unit_square)
  moreover have "0 \<le> sum_list xs \<and> sum_list xs \<le> real (length xs)" if "\<forall>x\<in>set xs. 0 \<le> x \<and> x \<le> 1" for xs :: "real list"
    using that by (induction xs) auto
  ultimately have "0 \<le> sum_list (map (\<lambda>(p, q). (p - q)\<^sup>2) ps)" "sum_list (map (\<lambda>(p, q). (p - q)\<^sup>2) ps) \<le> real (length ps)"
    by (metis, metis length_map)
  then show "0 \<le> brier ps" "brier ps \<le> 1" using assms(2) by (simp_all add: brier_def divide_le_eq)
qed

lemma pairs_unit:
  assumes "\<forall>d\<in>set ds. \<forall>c. sd_confidence d = Some c \<longrightarrow> 0 \<le> c \<and> c \<le> 1"
  shows "unit_pairs (calibration_pairs ds)"
  using assms
  by (induction ds) (auto simp: calibration_pairs_def unit_pairs_def fraud_probability_def split: option.splits)

lemma round_to_unit: "0 \<le> x \<Longrightarrow> x \<le> 1 \<Longrightarrow> 0 \<le> round_to n x \<and> round_to n x \<le> 1"
proof -
  assume x: "0 \<le> x" "x \<le> 1"
  have "round_half_even 0 \<le> round_half_even (x * 10 ^ n)" "round_half_even (x * 10 ^ n) \<le> round_half_even (of_int (10 ^ n))"
    using x by (auto intro!: round_half_even_mono)
  then have "0 \<le> round_half_even (x * 10 ^ n)" "round_half_even (x * 10 ^ n) \<le> 10 ^ n"
    using round_half_even_int [of 0] round_half_even_int [of "10 ^ n"] by simp_all
  then have "0 \<le> real_of_int (round_half_even (x * 10 ^ n))" "real_of_int (round_half_even (x * 10 ^ n)) \<le> 10 ^ n"
    by (simp, metis of_int_le_iff of_int_numeral of_int_power)
  then show ?thesis by (simp add: round_to_def divide_le_eq)
qed

text \<open>The reliability table loses no decision: for confidence scores in the unit interval every decided row
  with a confidence falls into exactly one bin, so the row counts of the table add up to the number of rows
  scored, and the Brier score, rounded, lies between 0 and 1.\<close>

theorem calibration_complete:
  assumes "0 < bins" "\<forall>d\<in>set ds. \<forall>c. sd_confidence d = Some c \<longrightarrow> 0 \<le> c \<and> c \<le> 1"
  shows "sum_list (map rl_n (ca_reliability (calibration bins ds))) = ca_n (calibration bins ds) \<and>
    ca_n (calibration bins ds) = length (filter (\<lambda>d. sd_confidence d \<noteq> None \<and> sd_decision d \<noteq> ''ESCALATE'') ds) \<and>
    (\<forall>b. ca_brier (calibration bins ds) = Some b \<longrightarrow> 0 \<le> b \<and> b \<le> 1)"
proof -
  note u = pairs_unit [OF assms(2)]
  have len: "length (calibration_pairs ds) = length (filter (\<lambda>d. sd_confidence d \<noteq> None \<and> sd_decision d \<noteq> ''ESCALATE'') ds)"
    by (induction ds) (auto simp: calibration_pairs_def fraud_probability_def split: option.splits)
  show ?thesis
  proof (cases "calibration_pairs ds = []")
    case True
    then show ?thesis using len by (simp add: calibration_def)
  next
    case False
    then show ?thesis
      using len rows_total [of bins "calibration_pairs ds" "[0..<bins]"] bins_partition [OF assms(1) u]
        brier_unit [OF u False] round_to_unit by (simp add: calibration_def Let_def)
  qed
qed

theorem calibration_complete_witness:
  "sum_list (map rl_n (ca_reliability (calibration 5 sample_scored))) = 3 \<and> ca_n (calibration 5 sample_scored) = 3"
proof -
  have "\<forall>d\<in>set sample_scored. \<forall>c. sd_confidence d = Some c \<longrightarrow> 0 \<le> c \<and> c \<le> 1"
    by (simp add: sample_scored_def sample_fraud_def)
  from calibration_complete [of 5, OF _ this]
  have "sum_list (map rl_n (ca_reliability (calibration 5 sample_scored))) = ca_n (calibration 5 sample_scored)"
    "ca_n (calibration 5 sample_scored) = length (filter (\<lambda>d. sd_confidence d \<noteq> None \<and> sd_decision d \<noteq> ''ESCALATE'') sample_scored)"
    by simp_all
  moreover have "length (filter (\<lambda>d. sd_confidence d \<noteq> None \<and> sd_decision d \<noteq> ''ESCALATE'') sample_scored) = 3"
    unfolding sample_scored_def sample_fraud_def by (simp del: not_None_eq)
  ultimately show ?thesis by simp
qed

end
