(* ===== verification/Eval_Run.thy ===== *)
theory Eval_Run
  imports Multi_Agent Governance Audit_Log Metrics "HOL-Library.Multiset"
begin

text \<open>
  \<open>observability/eval_runner.py\<close>: a batch of labelled transactions is decided by the team, governed, persisted,
  traced, judged and scored.  The team's model and tools, the judge's model and the parsing of its JSON, the
  clock, the random orders of the sample and the outcomes of the database calls are parameters.
\<close>

section \<open>The sample\<close>

record labelled =
  lb_snapshot :: pyval
  lb_transaction :: pyval
  lb_user :: pyval
  lb_amount :: pyval
  lb_risk :: pyval
  lb_flagged :: bool
  lb_new_device :: bool
  lb_geo :: pyval
  lb_minutes :: pyval
  lb_zscore :: pyval
  lb_velocity :: pyval
  lb_fraud :: bool
  lb_pattern :: "string option"

text \<open>The query: each stratum in a random order, at most half of the size, and the union in a random order\<close>

definition fetch_eval_sample :: "(labelled list \<Rightarrow> labelled list) \<Rightarrow> nat \<Rightarrow> labelled list \<Rightarrow> labelled list" where
  "fetch_eval_sample shuffle n table =
    (let half = max (n div 2) 1;
         fraud = take half (shuffle (filter (\<lambda>r. lb_flagged r \<and> lb_fraud r) table));
         legit = take half (shuffle (filter (\<lambda>r. lb_flagged r \<and> \<not> lb_fraud r) table))
     in shuffle (fraud @ legit))"

section \<open>Scoring one run\<close>

definition outcome_correct :: "string \<Rightarrow> bool \<Rightarrow> bool option" where
  "outcome_correct dec is_fraud = (if dec = ''ESCALATE'' then None else Some ((dec = ''BLOCK'') = is_fraud))"

text \<open>\<open>JudgeVerdict\<close>: the parser gives a number and a text, or nothing for a text that is not such an object.\<close>

record judge =
  jd_invoke :: "nat \<Rightarrow> string \<Rightarrow> pyexn + string"
  jd_parse :: "string \<Rightarrow> (real \<times> string) option"
  jd_str :: "pyval \<Rightarrow> string"

definition text_val :: "string option \<Rightarrow> pyval" where
  "text_val t = opt_val t"

definition patterns_val :: "string list option \<Rightarrow> pyval" where
  "patterns_val ps = (case ps of None \<Rightarrow> PNone | Some xs \<Rightarrow> PList (map PStr xs))"

definition decision_text :: "blackboard \<Rightarrow> string" where
  "decision_text s = (case bb_decision s of None \<Rightarrow> ''None'' | Some v \<Rightarrow> verdict_text v)"

definition judge_prompt :: "judge \<Rightarrow> blackboard \<Rightarrow> string" where
  "judge_prompt j s =
    (let txt = str_val (jd_str j); nl = Report.newline
     in ''Evidence gathered by the team:'' @ nl @
        ''- Feature findings: '' @ txt (text_val (bb_features s)) @ nl @
        ''- Elevated patterns: '' @ txt (patterns_val (bb_patterns s)) @ nl @
        ''- Risk assessment: '' @ or_text (bb_risk s) ''(risk specialist skipped)'' @ nl @
        ''- Policy guidance: '' @ txt (text_val (bb_policy s)) @ nl @ nl @
        ''Final decision: '' @ decision_text s @ '' (confidence '' @
          txt (case bb_confidence s of None \<Rightarrow> PNone | Some c \<Rightarrow> PFloat c) @ '', pattern '' @ txt (text_val (bb_identified s)) @
        '')'' @ nl @ nl @ ''Reasoning to evaluate:'' @ nl @ txt (text_val (bb_reasoning s)))"

text \<open>\<open>str(e).splitlines()[0][:120]\<close>, which both handlers log: an exception without a text has no first line.\<close>

definition index_error :: pyexn where
  "index_error = Exn (OtherExn ''IndexError'') ''list index out of range''"

definition is_line_break :: "char \<Rightarrow> bool" where
  "is_line_break c = (10 \<le> code c \<and> code c \<le> 13 \<or> 28 \<le> code c \<and> code c \<le> 30)"

definition first_line :: "pyexn \<Rightarrow> pyexn + string" where
  "first_line e = (if exn_text e = [] then Inl index_error else Inr (take 120 (takeWhile (\<lambda>c. \<not> is_line_break c) (exn_text e))))"

text \<open>A failure of the judge is a missing verdict, once its first line is logged.  The text of a validation error is
  never empty.\<close>

definition judge_reasoning :: "judge \<Rightarrow> nat \<Rightarrow> blackboard \<Rightarrow> pyexn + (real \<times> string) option" where
  "judge_reasoning j i s =
    (case jd_invoke j i (judge_prompt j s) of
       Inl e \<Rightarrow> and_then (first_line e) (\<lambda>_. Inr None)
     | Inr content \<Rightarrow>
        (case jd_parse j content of
           None \<Rightarrow> Inr None
         | Some (score, notes) \<Rightarrow> Inr (if 0 \<le> score \<and> score \<le> 1 then Some (score, notes) else None)))"

section \<open>The batch\<close>

record score_row =
  ev_correct :: "bool option"
  ev_score :: "real option"
  ev_notes :: string

text \<open>What the database calls of one transaction give, and its latency\<close>

record io =
  io_connect :: "pyexn + unit"
  io_insert :: "pyexn + unit"
  io_trace_connect :: "pyexn + unit"
  io_trace_insert :: "pyexn + unit"
  io_score :: "pyexn + unit"
  io_latency :: int

record 'w eval_env =
  ee_team :: "'w team"
  ee_codec :: codec
  ee_judge :: judge
  ee_show :: "pyfloat option \<Rightarrow> string"
  ee_io :: "nat \<Rightarrow> io"

record 'w eval_state =
  ev_world :: 'w
  ev_hitl :: hitl
  ev_trace :: trace_log
  ev_scores :: "(string \<times> score_row) list"

record eval_result =
  er_decision :: string
  er_pattern :: string
  er_elevated :: "string list option"
  er_truth :: string
  er_fraud :: bool
  er_correct :: "bool option"
  er_confidence :: "pyfloat option"
  er_amount :: pyfloat
  er_judge_score :: "real option"
  er_judge_notes :: string
  er_tier :: tier
  er_latency :: int
  er_id :: string

definition eval_transaction :: "labelled \<Rightarrow> pyexn + pydict \<times> pyfloat" where
  "eval_transaction r =
    and_then (to_float (lb_amount r)) (\<lambda>amount.
    and_then (to_float (lb_risk r)) (\<lambda>risk.
      Inr ([(''transaction_id'', lb_transaction r), (''user_id'', lb_user r), (''amount'', PFloat amount),
        (''merchant_category'', PStr ''UNKNOWN''), (''city'', PStr ''UNKNOWN''), (''country'', PStr ''UNKNOWN''),
        (''risk_score_raw'', PFloat risk), (''is_flagged_for_review'', PBool (lb_flagged r)),
        (''is_new_device'', PBool (lb_new_device r)), (''geo_distance_km'', lb_geo r),
        (''time_since_last_txn_min'', lb_minutes r), (''amount_zscore'', lb_zscore r), (''velocity_15min'', lb_velocity r)],
        amount)))"

definition truth_pattern :: "labelled \<Rightarrow> string" where
  "truth_pattern r = or_text (lb_pattern r) ''NONE''"

text \<open>The entries of the final state that persistence reads\<close>

definition result_fields :: "blackboard \<Rightarrow> pydict" where
  "result_fields s =
    [(''transaction_id'', dict_get (bb_tx s) ''transaction_id'' PNone), (''user_id'', dict_get (bb_tx s) ''user_id'' PNone),
     (''decision'', case bb_decision s of None \<Rightarrow> PNone | Some v \<Rightarrow> PStr (verdict_text v)),
     (''confidence_score'', case bb_confidence s of None \<Rightarrow> PNone | Some c \<Rightarrow> PFloat c),
     (''reasoning_text'', text_val (bb_reasoning s)), (''identified_pattern'', text_val (bb_identified s))]"

text \<open>The messages of the run: the request comes first, every other one carries the name of its agent.\<close>

definition agent_message_of :: "string \<times> string \<Rightarrow> agent_message" where
  "agent_message_of nc = \<lparr>am_class = (if fst nc = ''human'' then HumanMessage else AIMessage),
     am_name = (if fst nc = ''human'' then None else Some (fst nc)), am_content = PStr (snd nc), am_calls = [], am_usage = None\<rparr>"

definition persist_result :: "'w eval_env \<Rightarrow> nat \<Rightarrow> tier \<Rightarrow> labelled \<Rightarrow> blackboard \<Rightarrow> 'w eval_state \<Rightarrow> (string, 'w eval_state) out" where
  "persist_result env i tier r s st =
    (case persist_decision (io_connect (ee_io env i)) (io_insert (ee_io env i)) (result_fields s) (PStr (tier_text tier))
            (io_latency (ee_io env i)) (lb_snapshot r) (ev_hitl st) of
       (x, h) \<Rightarrow> (x, st\<lparr>ev_hitl := h\<rparr>))"

definition trace_result :: "'w eval_env \<Rightarrow> nat \<Rightarrow> string \<Rightarrow> blackboard \<Rightarrow> 'w eval_state \<Rightarrow> (nat, 'w eval_state) out" where
  "trace_result env i did s st =
    (case write_trace (ee_codec env) (io_trace_connect (ee_io env i)) (io_trace_insert (ee_io env i)) did
            (map agent_message_of (bb_messages s)) (ev_trace st) of
       (x, t) \<Rightarrow> (x, st\<lparr>ev_trace := t\<rparr>))"

text \<open>\<open>record_scores\<close>: the UPDATE of the evaluation columns of the decision\<close>

definition record_scores :: "'w eval_env \<Rightarrow> nat \<Rightarrow> string \<Rightarrow> score_row \<Rightarrow> 'w eval_state \<Rightarrow> (unit, 'w eval_state) out" where
  "record_scores env i did sc st =
    (case io_score (ee_io env i) of
       Inl e \<Rightarrow> (Inl e, st)
     | Inr _ \<Rightarrow> (Inr (), st\<lparr>ev_scores := (if did \<in> d_id ` set (h_rows (ev_hitl st)) then AList.update did sc (ev_scores st)
                                         else ev_scores st)\<rparr>))"

definition evaluate_team :: "'w eval_env \<Rightarrow> pydict \<Rightarrow> 'w eval_state \<Rightarrow> (blackboard, 'w eval_state) out" where
  "evaluate_team env tx st =
    (case evaluate (ee_team env) tx (ev_world st) of (x, w) \<Rightarrow> (x, st\<lparr>ev_world := w\<rparr>))"

definition judge_unavailable :: string where
  "judge_unavailable = ''(judge unavailable '' @ em_dash_text @ '' objective outcome recorded)''"

definition verdict_row :: "bool option \<Rightarrow> (real \<times> string) option \<Rightarrow> score_row" where
  "verdict_row correct v = \<lparr>ev_correct = correct, ev_score = map_option fst v,
     ev_notes = (case v of None \<Rightarrow> judge_unavailable | Some (_, notes) \<Rightarrow> notes)\<rparr>"

definition eval_one :: "'w eval_env \<Rightarrow> nat \<Rightarrow> labelled \<Rightarrow> 'w eval_state \<Rightarrow> (eval_result, 'w eval_state) out" where
  "eval_one env i r st =
    (case eval_transaction r of
       Inl e \<Rightarrow> (Inl e, st)
     | Inr (tx, amount) \<Rightarrow>
        seq (evaluate_team env tx st) (\<lambda>s st.
          let tier = fst (assign_tier default_framework (ee_show env) (decision_text s) (bb_confidence s) amount)
          in seq (persist_result env i tier r s st) (\<lambda>did st.
             seq (trace_result env i did s st) (\<lambda>_ st.
             case judge_reasoning (ee_judge env) i s of
               Inl e \<Rightarrow> (Inl e, st)
             | Inr v \<Rightarrow>
               let correct = outcome_correct (decision_text s) (lb_fraud r);
                   sc = verdict_row correct v;
                   pat = or_text (bb_identified s) ''NONE''
               in seq (record_scores env i did sc st) (\<lambda>_ st.
                  (Inr \<lparr>er_decision = decision_text s, er_pattern = pat, er_elevated = bb_patterns s,
                        er_truth = truth_pattern r, er_fraud = lb_fraud r, er_correct = correct,
                        er_confidence = bb_confidence s, er_amount = amount, er_judge_score = ev_score sc,
                        er_judge_notes = ev_notes sc, er_tier = tier, er_latency = io_latency (ee_io env i),
                        er_id = did\<rparr>, st))))))"

text \<open>The loop: the first failure ends it, what was evaluated before is kept.\<close>

fun eval_loop :: "'w eval_env \<Rightarrow> nat \<Rightarrow> labelled list \<Rightarrow> 'w eval_state \<Rightarrow> eval_result list \<times> pyexn option \<times> 'w eval_state" where
  "eval_loop env i [] st = ([], None, st)"
| "eval_loop env i (r # rs) st =
    (case eval_one env i r st of
       (Inl e, st') \<Rightarrow> ([], Some e, st')
     | (Inr x, st') \<Rightarrow> (case eval_loop env (Suc i) rs st' of (xs, ab, st'') \<Rightarrow> (x # xs, ab, st'')))"

text \<open>\<open>run\<close>: the results and the reason of an early stop, unless the handler itself fails\<close>

definition eval_run :: "'w eval_env \<Rightarrow> labelled list \<Rightarrow> 'w eval_state \<Rightarrow> (eval_result list \<times> string option, 'w eval_state) out" where
  "eval_run env sample st =
    (case eval_loop env 1 sample st of
       (xs, None, st') \<Rightarrow> (Inr (xs, None), st')
     | (xs, Some e, st') \<Rightarrow>
        (case first_line e of
           Inl e' \<Rightarrow> (Inl e', st')
         | Inr l \<Rightarrow> (Inr (xs, Some (exn_name (exn_kind_of e) @ '': '' @ l)), st')))"

section \<open>The summary\<close>

text \<open>A result as a row of the scorecard\<close>

definition scored_of :: "eval_result \<Rightarrow> scored" where
  "scored_of x = \<lparr>sd_decision = er_decision x, sd_fraud = er_fraud x, sd_truth = Some (er_truth x), sd_agent = Some (er_pattern x),
     sd_elevated = map_option EList (er_elevated x),
     sd_confidence = (case er_confidence x of Some (Fin c) \<Rightarrow> Some c | _ \<Rightarrow> None), sd_judge = er_judge_score x\<rparr>"

record eval_summary =
  sm_correct :: nat
  sm_decided :: nat
  sm_escalated :: nat
  sm_judged :: nat
  sm_judge_failures :: nat
  sm_mean_judge :: "real option"
  sm_mean_latency :: int
  sm_scorecard :: scorecard

definition eval_summary_of :: "eval_result list \<Rightarrow> eval_summary" where
  "eval_summary_of xs =
    (let decided = filter (\<lambda>x. er_correct x \<noteq> None) xs;
         js = List.map_filter er_judge_score xs
     in \<lparr>sm_correct = length (filter (\<lambda>x. er_correct x = Some True) decided), sm_decided = length decided,
         sm_escalated = length (filter (\<lambda>x. er_correct x = None) xs), sm_judged = length js,
         sm_judge_failures = length xs - length js,
         sm_mean_judge = (if js = [] then None else Some (sum_list js / real (length js))),
         sm_mean_latency = sum_list (map er_latency xs) div int (length xs),
         sm_scorecard = compute_all 1 (map scored_of xs)\<rparr>)"

section \<open>What a run leaves in the database\<close>

definition recorded :: "'w eval_state \<Rightarrow> eval_result \<Rightarrow> bool" where
  "recorded st x =
    ((\<exists>row\<in>set (h_rows (ev_hitl st)). d_id row = er_id x \<and> d_decision row = PStr (er_decision x) \<and>
        d_tier row = PStr (tier_text (er_tier x))) \<and>
     map_of (ev_scores st) (er_id x) =
        Some \<lparr>ev_correct = er_correct x, ev_score = er_judge_score x, ev_notes = er_judge_notes x\<rparr>)"

definition scored_as :: "labelled \<Rightarrow> eval_result \<Rightarrow> bool" where
  "scored_as r x = (er_fraud x = lb_fraud r \<and> er_truth x = truth_pattern r \<and>
     er_correct x = outcome_correct (er_decision x) (lb_fraud r))"

text \<open>How the state may change: rows are only appended, identifiers are drawn, and the scores of the identifiers drawn
  before stay.\<close>

definition grown :: "'w eval_state \<Rightarrow> 'w eval_state \<Rightarrow> bool" where
  "grown st st' =
    (hitl_inv (ev_hitl st') \<and> h_uuid (ev_hitl st') = h_uuid (ev_hitl st) \<and> h_next (ev_hitl st) \<le> h_next (ev_hitl st') \<and>
     (\<exists>more. h_rows (ev_hitl st') = h_rows (ev_hitl st) @ more) \<and>
     (\<forall>n<h_next (ev_hitl st). map_of (ev_scores st') (h_uuid (ev_hitl st) n) = map_of (ev_scores st) (h_uuid (ev_hitl st) n)))"

lemma grown_refl: "hitl_inv (ev_hitl st) \<Longrightarrow> grown st st"
  by (simp add: grown_def)

lemma grown_trans: "grown a b \<Longrightarrow> grown b c \<Longrightarrow> grown a c"
  by (auto simp: grown_def)

lemma grown_same: "ev_hitl st' = ev_hitl st \<Longrightarrow> ev_scores st' = ev_scores st \<Longrightarrow> hitl_inv (ev_hitl st) \<Longrightarrow> grown st st'"
  by (simp add: grown_def)

lemma persist_result_grown:
  assumes "hitl_inv (ev_hitl st)" shows "grown st (snd (persist_result env i t r s st))"
proof -
  let ?c = "io_connect (ee_io env i)" and ?e = "io_insert (ee_io env i)" and ?l = "io_latency (ee_io env i)"
  let ?p = "persist_decision ?c ?e (result_fields s) (PStr (tier_text t)) ?l (lb_snapshot r) (ev_hitl st)"
  have "hitl_inv (snd ?p)" using hitl_inv_step [OF hs_persist assms] .
  moreover have "h_uuid (snd ?p) = h_uuid (ev_hitl st) \<and> h_next (ev_hitl st) \<le> h_next (snd ?p) \<and> (\<exists>more. h_rows (snd ?p) = h_rows (ev_hitl st) @ more)"
    by (cases rule: persist_cases [of ?c ?e "result_fields s" "PStr (tier_text t)" ?l "lb_snapshot r" "ev_hitl st"]) auto
  ultimately show ?thesis by (auto simp: grown_def persist_result_def split: prod.split)
qed

lemma persist_result_ok:
  assumes "persist_result env i t r s st = (Inr did, st')" "hitl_inv (ev_hitl st)"
  obtains row where "did = h_uuid (ev_hitl st) (h_next (ev_hitl st))" "h_rows (ev_hitl st') = h_rows (ev_hitl st) @ [row]"
    "d_id row = did" "d_decision row = PStr (decision_text s)" "d_tier row = PStr (tier_text t)" "ev_scores st' = ev_scores st"
proof -
  let ?c = "io_connect (ee_io env i)" and ?e = "io_insert (ee_io env i)" and ?l = "io_latency (ee_io env i)"
  show ?thesis
  proof (cases rule: persist_cases [of ?c ?e "result_fields s" "PStr (tier_text t)" ?l "lb_snapshot r" "ev_hitl st"])
    case failed
    then show ?thesis using assms(1) by (auto simp: persist_result_def split: prod.splits)
  next
    case (stored row)
    have d: "Inr (d_decision row) = item (result_fields s) ''decision''" "d_id row = h_uuid (ev_hitl st) (h_next (ev_hitl st))"
      "d_tier row = PStr (tier_text t)"
      using insert_row_Inr [OF stored(2)] by auto
    have "d_decision row \<noteq> PNone" using stored(3) by (auto simp: decision_record_accepts)
    then have "d_decision row = PStr (decision_text s)"
      using d(1) by (auto simp: item_def result_fields_def decision_text_def split: option.splits)
    then show ?thesis using that [of row] stored(1) d assms(1) by (auto simp: persist_result_def)
  qed
qed

lemma trace_result_frame:
  "ev_hitl (snd (trace_result env i did s st)) = ev_hitl st" "ev_scores (snd (trace_result env i did s st)) = ev_scores st"
  by (simp_all add: trace_result_def split: prod.split)

lemma evaluate_team_frame:
  "ev_hitl (snd (evaluate_team env tx st)) = ev_hitl st" "ev_scores (snd (evaluate_team env tx st)) = ev_scores st"
  by (simp_all add: evaluate_team_def split: prod.split)

lemma record_scores_ok:
  "record_scores env i did sc st = (Inr (), st') \<Longrightarrow> did \<in> d_id ` set (h_rows (ev_hitl st)) \<Longrightarrow>
    ev_hitl st' = ev_hitl st \<and> ev_scores st' = AList.update did sc (ev_scores st)"
  by (auto simp: record_scores_def split: sum.splits)

lemma record_scores_grown:
  assumes "did = h_uuid (ev_hitl st0) (h_next (ev_hitl st0))" "hitl_inv (ev_hitl st0)" "grown st0 st"
  shows "grown st0 (snd (record_scores env i did sc st))"
proof -
  have "h_uuid (ev_hitl st0) n \<noteq> did" if "n < h_next (ev_hitl st0)" for n
    using assms(1,2) that by (auto simp: hitl_inv_def dest: injD)
  then show ?thesis using assms(3) by (auto simp: record_scores_def grown_def update_conv' split: sum.splits)
qed

lemma eval_one_grown:
  assumes "hitl_inv (ev_hitl st)" shows "grown st (snd (eval_one env i r st))"
proof (cases "eval_transaction r")
  case (Inl e)
  then show ?thesis using grown_refl [OF assms] by (simp add: eval_one_def)
next
  case (Inr p)
  obtain tx amount where p: "p = (tx, amount)" by (cases p)
  obtain a st1 where a: "evaluate_team env tx st = (a, st1)" by fastforce
  have g1: "ev_hitl st1 = ev_hitl st" "ev_scores st1 = ev_scores st" using evaluate_team_frame [of env tx st] a by simp_all
  show ?thesis
  proof (cases a)
    case (Inl e)
    then show ?thesis using a Inr p grown_same [OF g1 assms] by (simp add: eval_one_def)
  next
    case (Inr s)
    note a = a [unfolded this]
    let ?t = "fst (assign_tier default_framework (ee_show env) (decision_text s) (bb_confidence s) amount)"
    obtain b st2 where b: "persist_result env i ?t r s st1 = (b, st2)" by fastforce
    have g2: "grown st st2"
      using grown_trans [OF grown_same [OF g1 assms] persist_result_grown [of st1 env i ?t r s]] b assms g1 by simp
    show ?thesis
    proof (cases b)
      case (Inl e)
      then show ?thesis using a b \<open>eval_transaction r = Inr p\<close> p g2 by (simp add: eval_one_def Let_def)
    next
      case (Inr did)
      note b = b [unfolded this]
      obtain c st3 where c: "trace_result env i did s st2 = (c, st3)" by fastforce
      have f3: "ev_hitl st3 = ev_hitl st2" "ev_scores st3 = ev_scores st2" using trace_result_frame [of env i did s st2] c by simp_all
      then have g3: "grown st st3" using g2 by (simp add: grown_def)
      have did: "did = h_uuid (ev_hitl st) (h_next (ev_hitl st))"
        using persist_result_ok [OF b] assms g1 by metis
      show ?thesis
        using a b c \<open>eval_transaction r = Inr p\<close> p g3 record_scores_grown [OF did assms g3]
        by (cases c; cases "judge_reasoning (ee_judge env) i s")
          (auto simp: eval_one_def Let_def intro!: seq_inv [where I = "grown st"])
    qed
  qed
qed

lemma eval_one_ok:
  assumes "eval_one env i r st = (Inr x, st')" "hitl_inv (ev_hitl st)"
  shows "recorded st' x \<and> scored_as r x \<and> er_id x = h_uuid (ev_hitl st) (h_next (ev_hitl st)) \<and>
    h_next (ev_hitl st) < h_next (ev_hitl st')"
proof -
  obtain tx amount where tx: "eval_transaction r = Inr (tx, amount)" using assms(1) by (auto simp: eval_one_def split: sum.splits)
  obtain s st1 where s: "evaluate_team env tx st = (Inr s, st1)"
    using assms(1) tx by (auto simp: eval_one_def seq_Inr_conv)
  let ?t = "fst (assign_tier default_framework (ee_show env) (decision_text s) (bb_confidence s) amount)"
  obtain did st2 where p: "persist_result env i ?t r s st1 = (Inr did, st2)"
    using assms(1) tx s by (auto simp: eval_one_def seq_Inr_conv Let_def)
  obtain k st3 where t: "trace_result env i did s st2 = (Inr k, st3)"
    using assms(1) tx s p by (auto simp: eval_one_def seq_Inr_conv Let_def)
  obtain v where v: "judge_reasoning (ee_judge env) i s = Inr v"
    using assms(1) tx s p t by (auto simp: eval_one_def Let_def split: sum.splits)
  let ?sc = "verdict_row (outcome_correct (decision_text s) (lb_fraud r)) v"
  have r: "record_scores env i did ?sc st3 = (Inr (), st')"
    and x: "x = \<lparr>er_decision = decision_text s, er_pattern = or_text (bb_identified s) ''NONE'', er_elevated = bb_patterns s,
      er_truth = truth_pattern r, er_fraud = lb_fraud r, er_correct = outcome_correct (decision_text s) (lb_fraud r),
      er_confidence = bb_confidence s, er_amount = amount, er_judge_score = ev_score ?sc, er_judge_notes = ev_notes ?sc,
      er_tier = ?t, er_latency = io_latency (ee_io env i), er_id = did\<rparr>"
    using assms(1) tx s p t v by (auto simp: eval_one_def Let_def seq_Inr_conv)
  have f1: "ev_hitl st1 = ev_hitl st" using evaluate_team_frame [of env tx st] s by simp
  obtain row where row: "did = h_uuid (ev_hitl st) (h_next (ev_hitl st))" "h_rows (ev_hitl st2) = h_rows (ev_hitl st) @ [row]"
    "d_id row = did" "d_decision row = PStr (decision_text s)" "d_tier row = PStr (tier_text ?t)"
    using persist_result_ok [OF p] assms(2) f1 by metis
  have f3: "ev_hitl st3 = ev_hitl st2" using trace_result_frame [of env i did s st2] t by simp
  have sc: "ev_hitl st' = ev_hitl st3" "ev_scores st' = AList.update did ?sc (ev_scores st3)"
    using record_scores_ok [OF r] row f3 by auto
  have "did \<in> h_uuid (ev_hitl st') ` {..<h_next (ev_hitl st')}"
    using eval_one_grown [OF assms(2), of env i r] assms(1) row sc f3 by (auto simp: grown_def hitl_inv_def)
  moreover have "inj (h_uuid (ev_hitl st))" using assms(2) by (simp add: hitl_inv_def)
  moreover have "h_uuid (ev_hitl st') = h_uuid (ev_hitl st)"
    using eval_one_grown [OF assms(2), of env i r] assms(1) by (simp add: grown_def)
  ultimately have "h_next (ev_hitl st) < h_next (ev_hitl st')" using row(1) by (auto dest: injD)
  then show ?thesis using row sc f3
    by (simp add: recorded_def scored_as_def x update_conv') (simp add: verdict_row_def)
qed

lemma recorded_grown:
  assumes "recorded st x" "grown st st'" "er_id x = h_uuid (ev_hitl st) n" "n < h_next (ev_hitl st)"
  shows "recorded st' x"
proof -
  obtain more where "h_rows (ev_hitl st') = h_rows (ev_hitl st) @ more" using assms(2) by (auto simp: grown_def)
  moreover have "map_of (ev_scores st') (er_id x) = map_of (ev_scores st) (er_id x)" using assms(2-4) by (simp add: grown_def)
  ultimately show ?thesis using assms(1) by (auto simp: recorded_def)
qed

lemma eval_loop_recorded:
  "eval_loop env i rs st = (xs, ab, st') \<Longrightarrow> hitl_inv (ev_hitl st) \<Longrightarrow>
    grown st st' \<and> (\<forall>x\<in>set xs. recorded st' x) \<and> length xs \<le> length rs \<and> list_all2 scored_as (take (length xs) rs) xs \<and>
    (ab = None \<longleftrightarrow> length xs = length rs)"
proof (induction rs arbitrary: i st xs)
  case Nil
  then show ?case by (simp add: grown_refl)
next
  case (Cons r rs)
  note g = eval_one_grown [OF Cons.prems(2), of env i r]
  show ?case
  proof (cases "eval_one env i r st")
    case (Pair a st1)
    show ?thesis
    proof (cases a)
      case (Inl e)
      then show ?thesis using Cons.prems(1) Pair g by auto
    next
      case (Inr x)
      with Pair have one: "eval_one env i r st = (Inr x, st1)" by simp
      then obtain ys where ys: "eval_loop env (Suc i) rs st1 = (ys, ab, st')" "xs = x # ys"
        using Cons.prems(1) by (auto split: prod.splits)
      have g1: "grown st st1" using g one by simp
      then have h1: "hitl_inv (ev_hitl st1)" by (simp add: grown_def)
      note IH = Cons.IH [OF ys(1) h1]
      note ok = eval_one_ok [OF one Cons.prems(2)]
      have "er_id x = h_uuid (ev_hitl st1) (h_next (ev_hitl st))" using ok g1 by (simp add: grown_def)
      then have "recorded st' x" using recorded_grown [of st1 x st'] ok IH by blast
      then show ?thesis using IH ok grown_trans [OF g1] ys(2) by auto
    qed
  qed
qed

text \<open>C25: An evaluation keeps its books: whatever the model and the tools answer and wherever the batch stops, the
  results belong to the first records of the sample in order, they are complete exactly when nothing failed, and
  for every result the decision is stored with its tier and carries the outcome and the judge's score of that
  result.\<close>

theorem eval_recorded:
  assumes "eval_run env sample st = (Inr (xs, stopped), st')" "hitl_inv (ev_hitl st)"
  shows "length xs \<le> length sample \<and> (stopped = None \<longleftrightarrow> length xs = length sample) \<and>
    list_all2 (\<lambda>r x. er_fraud x = lb_fraud r \<and> er_correct x = outcome_correct (er_decision x) (lb_fraud r)) (take (length xs) sample) xs \<and>
    list_all (\<lambda>x. \<exists>row\<in>set (h_rows (ev_hitl st')). d_id row = er_id x \<and> d_decision row = PStr (er_decision x) \<and>
        d_tier row = PStr (tier_text (er_tier x)) \<and>
        map_of (ev_scores st') (er_id x) =
          Some \<lparr>ev_correct = er_correct x, ev_score = er_judge_score x, ev_notes = er_judge_notes x\<rparr>) xs"
proof -
  obtain ab where l: "eval_loop env 1 sample st = (xs, ab, st')" "ab = None \<longleftrightarrow> stopped = None"
    using assms(1) by (auto simp: eval_run_def split: prod.splits option.splits sum.splits)
  note r = eval_loop_recorded [OF l(1) assms(2)]
  then have "list_all2 (\<lambda>r x. er_fraud x = lb_fraud r \<and> er_correct x = outcome_correct (er_decision x) (lb_fraud r)) (take (length xs) sample) xs"
    by (auto simp: scored_as_def elim!: list.rel_mono_strong)
  moreover have "list_all (\<lambda>x. \<exists>row\<in>set (h_rows (ev_hitl st')). d_id row = er_id x \<and> d_decision row = PStr (er_decision x) \<and>
        d_tier row = PStr (tier_text (er_tier x)) \<and>
        map_of (ev_scores st') (er_id x) =
          Some \<lparr>ev_correct = er_correct x, ev_score = er_judge_score x, ev_notes = er_judge_notes x\<rparr>) xs"
    using r unfolding recorded_def list_all_iff by blast
  ultimately show ?thesis using r l(2) by blast
qed

section \<open>The judge is never a gate\<close>

text \<open>An exception of the judge always has a text.\<close>

definition spoken :: "judge \<Rightarrow> bool" where
  "spoken j = (\<forall>i p e. jd_invoke j i p = Inl e \<longrightarrow> exn_text e \<noteq> [])"

definition unjudged :: "eval_result \<Rightarrow> eval_result" where
  "unjudged x = x\<lparr>er_judge_score := None, er_judge_notes := []\<rparr>"

definition unscored :: "'w eval_state \<Rightarrow> 'w eval_state" where
  "unscored st = st\<lparr>ev_scores := map (\<lambda>(did, sc). (did, sc\<lparr>ev_score := None, ev_notes := []\<rparr>)) (ev_scores st)\<rparr>"

lemma spoken_verdict: "spoken j \<Longrightarrow> \<exists>v. judge_reasoning j i s = Inr v"
  by (auto simp: judge_reasoning_def spoken_def first_line_def split: sum.split option.split)

lemma unscored_update:
  "map (\<lambda>(d, sc). (d, sc\<lparr>ev_score := None, ev_notes := []\<rparr>)) (AList.update did sc xs) =
    AList.update did (sc\<lparr>ev_score := None, ev_notes := []\<rparr>) (map (\<lambda>(d, sc). (d, sc\<lparr>ev_score := None, ev_notes := []\<rparr>)) xs)"
  by (induction xs) auto

lemma unscored_team:
  "unscored s1 = unscored s2 \<Longrightarrow> fst (evaluate_team env tx s1) = fst (evaluate_team env tx s2) \<and>
    unscored (snd (evaluate_team env tx s1)) = unscored (snd (evaluate_team env tx s2))"
  by (cases s1; cases s2) (auto simp: evaluate_team_def unscored_def split: prod.split)

lemma unscored_persist:
  "unscored s1 = unscored s2 \<Longrightarrow> fst (persist_result env i t r s s1) = fst (persist_result env i t r s s2) \<and>
    unscored (snd (persist_result env i t r s s1)) = unscored (snd (persist_result env i t r s s2))"
  by (cases s1; cases s2) (auto simp: persist_result_def unscored_def split: prod.split)

lemma unscored_trace:
  "unscored s1 = unscored s2 \<Longrightarrow> fst (trace_result env i did s s1) = fst (trace_result env i did s s2) \<and>
    unscored (snd (trace_result env i did s s1)) = unscored (snd (trace_result env i did s s2))"
  by (cases s1; cases s2) (auto simp: trace_result_def unscored_def split: prod.split)

lemma unscored_record:
  assumes "unscored s1 = unscored s2" "ev_correct c1 = ev_correct c2"
  shows "fst (record_scores env i did c1 s1) = fst (record_scores env i did c2 s2) \<and>
    unscored (snd (record_scores env i did c1 s1)) = unscored (snd (record_scores env i did c2 s2))"
proof -
  have "c1\<lparr>ev_score := None, ev_notes := []\<rparr> = c2\<lparr>ev_score := None, ev_notes := []\<rparr>"
    using assms(2) by (cases c1; cases c2) simp
  then show ?thesis
    using assms(1) by (cases s1; cases s2) (auto simp: record_scores_def unscored_def unscored_update split: sum.split)
qed

text \<open>One step of a pair of runs: the first parts agree, the rest does when the continuations do.\<close>

lemma seq_related:
  assumes "fst m1 = fst m2" "unscored (snd m1) = unscored (snd m2)"
    and "\<And>a t1 t2. m1 = (Inr a, t1) \<Longrightarrow> m2 = (Inr a, t2) \<Longrightarrow> unscored t1 = unscored t2 \<Longrightarrow>
      map_sum id unjudged (fst (k1 a t1)) = map_sum id unjudged (fst (k2 a t2)) \<and> unscored (snd (k1 a t1)) = unscored (snd (k2 a t2))"
  shows "map_sum id unjudged (fst (seq m1 k1)) = map_sum id unjudged (fst (seq m2 k2)) \<and>
    unscored (snd (seq m1 k1)) = unscored (snd (seq m2 k2))"
proof (cases m1; cases m2)
  fix x1 t1 x2 t2 assume "m1 = (x1, t1)" "m2 = (x2, t2)"
  then show ?thesis using assms by (cases x1) auto
qed

lemma eval_one_judge:
  assumes "spoken (ee_judge e1)" "spoken j" "e2 = e1\<lparr>ee_judge := j\<rparr>" "unscored s1 = unscored s2"
  shows "map_sum id unjudged (fst (eval_one e1 i r s1)) = map_sum id unjudged (fst (eval_one e2 i r s2)) \<and>
    unscored (snd (eval_one e1 i r s1)) = unscored (snd (eval_one e2 i r s2))"
proof (cases "eval_transaction r")
  case (Inl e)
  then show ?thesis using assms(4) by (simp add: eval_one_def)
next
  case (Inr p)
  obtain tx amount where p: "p = (tx, amount)" by (cases p)
  have team: "evaluate_team e2 = evaluate_team e1" and per: "persist_result e2 = persist_result e1"
    and tra: "trace_result e2 = trace_result e1" and rec: "record_scores e2 = record_scores e1"
    by (simp_all add: fun_eq_iff assms(3) evaluate_team_def persist_result_def trace_result_def record_scores_def)
  have env: "ee_show e2 = ee_show e1" "ee_io e2 = ee_io e1" "ee_judge e2 = j" by (simp_all add: assms(3))
  obtain v1 v2 where v: "judge_reasoning (ee_judge e1) i s = Inr (v1 s)" "judge_reasoning j i s = Inr (v2 s)" for s
    using spoken_verdict [OF assms(1)] spoken_verdict [OF assms(2)] by metis
  show ?thesis
    unfolding eval_one_def Inr p sum.case prod.case team per tra rec env v Let_def
    by (intro seq_related conjI unscored_team [THEN conjunct1] unscored_team [THEN conjunct2]
        unscored_persist [THEN conjunct1] unscored_persist [THEN conjunct2] unscored_trace [THEN conjunct1]
        unscored_trace [THEN conjunct2] unscored_record [THEN conjunct1] unscored_record [THEN conjunct2] assms(4))
      (simp_all add: verdict_row_def unjudged_def)
qed

lemma eval_loop_judge:
  assumes "spoken (ee_judge e1)" "spoken j" "e2 = e1\<lparr>ee_judge := j\<rparr>"
  shows "eval_loop e1 i rs s1 = (xs1, ab1, t1) \<Longrightarrow> eval_loop e2 i rs s2 = (xs2, ab2, t2) \<Longrightarrow> unscored s1 = unscored s2 \<Longrightarrow>
    map unjudged xs1 = map unjudged xs2 \<and> ab1 = ab2 \<and> unscored t1 = unscored t2"
proof (induction rs arbitrary: i s1 s2 xs1 xs2)
  case (Cons r rs)
  obtain a1 u1 a2 u2 where one: "eval_one e1 i r s1 = (a1, u1)" "eval_one e2 i r s2 = (a2, u2)" by fastforce
  have r: "map_sum id unjudged a1 = map_sum id unjudged a2" "unscored u1 = unscored u2"
    using eval_one_judge [OF assms Cons.prems(3), of i r] one by simp_all
  show ?case
  proof (cases a1)
    case (Inl e)
    then have "a2 = Inl e" using r(1) by (cases a2) simp_all
    then show ?thesis using Inl one r Cons.prems by simp
  next
    case (Inr x1)
    then obtain x2 where x2: "a2 = Inr x2" "unjudged x1 = unjudged x2" using r(1) by (cases a2) simp_all
    obtain ys1 where ys1: "eval_loop e1 (Suc i) rs u1 = (ys1, ab1, t1)" "xs1 = x1 # ys1"
      using Cons.prems(1) one Inr by (auto split: prod.splits)
    obtain ys2 where ys2: "eval_loop e2 (Suc i) rs u2 = (ys2, ab2, t2)" "xs2 = x2 # ys2"
      using Cons.prems(2) one x2 by (auto split: prod.splits)
    show ?thesis using Cons.IH [OF ys1(1) ys2(1) r(2)] ys1(2) ys2(2) x2(2) by simp
  qed
qed simp

lemma objective_metrics:
  fixes ds :: "scored list"
  defines "ds' \<equiv> map (\<lambda>d. d\<lparr>sd_judge := None\<rparr>) ds"
  shows "classification_metrics ds' = classification_metrics ds" "escalation_metrics c ds' = escalation_metrics c ds"
    "per_pattern_recall ds' = per_pattern_recall ds" "calibration n ds' = calibration n ds"
proof -
  have "count_decision (d\<lparr>sd_judge := None\<rparr>) = count_decision d" for d by (simp add: count_decision_def fun_eq_iff)
  then show "classification_metrics ds' = classification_metrics ds"
    by (simp add: ds'_def classification_metrics_def confusion_def fold_map comp_def)
  show "escalation_metrics c ds' = escalation_metrics c ds"
    by (simp add: ds'_def escalation_metrics_def filter_map comp_def)
  have p: "true_pattern (d\<lparr>sd_judge := None\<rparr>) = true_pattern d" "surfaced_patterns (d\<lparr>sd_judge := None\<rparr>) = surfaced_patterns d"
    "is_caught (d\<lparr>sd_judge := None\<rparr>) = is_caught d" for d
    by (simp_all add: true_pattern_def surfaced_patterns_def is_caught_def)
  then have q: "is_primary (d\<lparr>sd_judge := None\<rparr>) = is_primary d" "is_detected (d\<lparr>sd_judge := None\<rparr>) = is_detected d" for d
    by (simp_all add: is_primary_def is_detected_def)
  have "count_in (d\<lparr>sd_judge := None\<rparr>) = count_in d" for d by (simp add: count_in_def fun_eq_iff Let_def p q)
  then have "count_pattern (d\<lparr>sd_judge := None\<rparr>) = count_pattern d" for d by (simp add: count_pattern_def fun_eq_iff p)
  then show "per_pattern_recall ds' = per_pattern_recall ds"
    by (simp add: ds'_def per_pattern_recall_def fold_map comp_def)
  have "fraud_probability (d\<lparr>sd_judge := None\<rparr>) = fraud_probability d" for d
    by (simp add: fraud_probability_def split: option.split)
  then have "calibration_pairs ds' = calibration_pairs ds"
    by (simp add: ds'_def calibration_pairs_def List.map_filter_def filter_map comp_def)
  then show "calibration n ds' = calibration n ds" by (simp add: calibration_def)
qed

lemma scored_unjudged: "(scored_of x)\<lparr>sd_judge := None\<rparr> = scored_of (unjudged x)"
  by (simp add: scored_of_def unjudged_def)

text \<open>An exception of the judge without a text does gate: the handler that logs its first line fails, and the
  transaction with it, which stops the batch.\<close>

lemma silent_judge_fails: "jd_invoke j i (judge_prompt j s) = Inl (Exn k []) \<Longrightarrow> judge_reasoning j i s = Inl index_error"
  by (simp add: judge_reasoning_def first_line_def)

text \<open>The judge that gives each silent exception a text\<close>

definition voiced :: "judge \<Rightarrow> judge" where
  "voiced j = j\<lparr>jd_invoke := (\<lambda>i p. case jd_invoke j i p of
     Inl e \<Rightarrow> Inl (if exn_text e = [] then Exn (exn_kind_of e) ''silent'' else e) | Inr content \<Rightarrow> Inr content)\<rparr>"

lemma voiced_spoken: "spoken (voiced j)"
  by (auto simp: spoken_def voiced_def split: sum.splits if_splits)

lemma voiced_reasoning:
  "judge_reasoning (voiced j) i s = judge_reasoning j i s \<or> judge_reasoning j i s = Inl index_error \<and> \<not> spoken j"
proof (cases "jd_invoke j i (judge_prompt j s)")
  case (Inl e)
  then show ?thesis
    by (cases "exn_text e = []") (auto simp: judge_reasoning_def voiced_def judge_prompt_def first_line_def spoken_def)
next
  case (Inr content)
  then show ?thesis by (simp add: judge_reasoning_def voiced_def judge_prompt_def)
qed

lemma seq_alike:
  assumes "\<And>a t. k1 a t = k2 a t \<or> fst (k2 a t) = Inl x \<and> Q"
  shows "seq m k1 = seq m k2 \<or> fst (seq m k2) = Inl x \<and> Q"
proof (cases m)
  case (Pair y t)
  then show ?thesis using assms by (cases y) auto
qed

lemma judge_only:
  "judge_reasoning (voiced j) i s \<noteq> judge_reasoning j i s \<Longrightarrow> judge_reasoning j i s = Inl index_error \<and> \<not> spoken j"
  using voiced_reasoning [of j i s] by auto

lemma eval_one_voiced:
  "eval_one (env\<lparr>ee_judge := voiced j\<rparr>) i r st = eval_one (env\<lparr>ee_judge := j\<rparr>) i r st \<or>
    fst (eval_one (env\<lparr>ee_judge := j\<rparr>) i r st) = Inl index_error \<and> \<not> spoken j"
proof (cases "eval_transaction r")
  case (Inr p)
  obtain tx amount where p: "p = (tx, amount)" by (cases p)
  let ?e1 = "env\<lparr>ee_judge := voiced j\<rparr>" and ?e2 = "env\<lparr>ee_judge := j\<rparr>"
  have same: "evaluate_team ?e1 = evaluate_team ?e2" "persist_result ?e1 = persist_result ?e2" "trace_result ?e1 = trace_result ?e2"
    "record_scores ?e1 = record_scores ?e2" "ee_show ?e1 = ee_show ?e2" "ee_io ?e1 = ee_io ?e2"
    by (simp_all add: fun_eq_iff evaluate_team_def persist_result_def trace_result_def record_scores_def)
  show ?thesis
    unfolding eval_one_def Inr p sum.case prod.case same Let_def
    by (intro seq_alike) (metis (no_types, lifting) judge_only fst_conv sum.case(1) eval_env.select_convs(3) eval_env.surjective eval_env.update_convs(3))
qed (simp add: eval_one_def)

lemma eval_loop_voiced:
  "eval_loop (env\<lparr>ee_judge := voiced j\<rparr>) i rs st = (xs, ab, t) \<Longrightarrow> eval_loop (env\<lparr>ee_judge := j\<rparr>) i rs st = (ys, ab', t') \<Longrightarrow>
    (ys, ab', t') = (xs, ab, t) \<or> \<not> spoken j \<and> ab' = Some index_error \<and> prefix ys xs"
proof (induction rs arbitrary: i st xs ys)
  case (Cons r rs)
  obtain a u where one: "eval_one (env\<lparr>ee_judge := j\<rparr>) i r st = (a, u)" by fastforce
  consider "eval_one (env\<lparr>ee_judge := voiced j\<rparr>) i r st = (a, u)" | "a = Inl index_error" "\<not> spoken j"
    using eval_one_voiced [where env = env and j = j and i = i and r = r and st = st] one by auto
  then show ?case
  proof cases
    case 1
    then show ?thesis
    proof (cases a)
      case (Inr x)
      then obtain xs1 ys1 where "eval_loop (env\<lparr>ee_judge := voiced j\<rparr>) (Suc i) rs u = (xs1, ab, t)" "xs = x # xs1"
        "eval_loop (env\<lparr>ee_judge := j\<rparr>) (Suc i) rs u = (ys1, ab', t')" "ys = x # ys1"
        using 1 one Cons.prems by (auto split: prod.splits)
      then show ?thesis using Cons.IH by auto
    qed (use 1 one Cons.prems in simp)
  qed (use one Cons.prems in simp)
qed simp

text \<open>C15: The judge annotates: replace a judge whose exceptions have a text by any other one.  Either nothing
  changes: the same transactions are evaluated, the batch stops at the same place for the same reason, the results, the
  decisions and the traces are the same but for the judge's score and notes, and so are the classification, the
  escalation, the pattern and the calibration metrics.  Or the other judge raises an exception without a text, the one case
  in which the code lets the judge gate: the handler itself fails and the batch stops there, with what was evaluated
  before.\<close>

theorem judge_never_gates:
  assumes "spoken (ee_judge env)"
    and "eval_run env sample st = (Inr (xs, stopped), st1)" "eval_run (env\<lparr>ee_judge := j\<rparr>) sample st = (out, st2)"
  shows "\<exists>ys. (out = Inr (ys, stopped) \<and> map unjudged ys = map unjudged xs \<and> unscored st2 = unscored st1 \<and>
      sc_classification (compute_all c (map scored_of ys)) = sc_classification (compute_all c (map scored_of xs)) \<and>
      sc_escalation (compute_all c (map scored_of ys)) = sc_escalation (compute_all c (map scored_of xs)) \<and>
      sc_patterns (compute_all c (map scored_of ys)) = sc_patterns (compute_all c (map scored_of xs)) \<and>
      sc_calibration (compute_all c (map scored_of ys)) = sc_calibration (compute_all c (map scored_of xs))) \<or>
    (\<not> spoken j \<and> out = Inr (ys, Some ''IndexError: list index out of range'') \<and> prefix (map unjudged ys) (map unjudged xs))"
proof -
  obtain ab where l: "eval_loop env 1 sample st = (xs, ab, st1)"
    using assms(2) by (auto simp: eval_run_def split: prod.splits option.splits sum.splits)
  obtain zs ab2 t where l2: "eval_loop (env\<lparr>ee_judge := voiced j\<rparr>) 1 sample st = (zs, ab2, t)" by (metis prod_cases3)
  obtain ys ab3 t' where l3: "eval_loop (env\<lparr>ee_judge := j\<rparr>) 1 sample st = (ys, ab3, t')" by (metis prod_cases3)
  have r: "map unjudged xs = map unjudged zs" "ab = ab2" "unscored st1 = unscored t"
    using eval_loop_judge [OF assms(1) voiced_spoken refl l l2] by simp_all
  from eval_loop_voiced [OF l2 l3] show ?thesis
  proof
    assume "(ys, ab3, t') = (zs, ab2, t)"
    then have o: "out = Inr (ys, stopped)" "st2 = t'" and r: "map unjudged xs = map unjudged ys" "unscored st1 = unscored t'"
      using assms(2,3) l l3 r by (auto simp: eval_run_def split: option.splits sum.splits)
    have "map (\<lambda>d. d\<lparr>sd_judge := None\<rparr>) (map scored_of xs) = map scored_of (map unjudged xs)"
      "map (\<lambda>d. d\<lparr>sd_judge := None\<rparr>) (map scored_of ys) = map scored_of (map unjudged ys)"
      by (simp_all add: scored_unjudged)
    then have "map (\<lambda>d. d\<lparr>sd_judge := None\<rparr>) (map scored_of xs) = map (\<lambda>d. d\<lparr>sd_judge := None\<rparr>) (map scored_of ys)"
      using r(1) by simp
    then show ?thesis
      using o r objective_metrics [where ds = "map scored_of xs"] objective_metrics [where ds = "map scored_of ys"]
      by (intro exI [of _ ys] disjI1) (simp add: compute_all_def)
  next
    assume g: "\<not> spoken j \<and> ab3 = Some index_error \<and> prefix ys zs"
    then have "out = Inr (ys, Some ''IndexError: list index out of range'')"
      using assms(3) l3 by (auto simp: eval_run_def index_error_def first_line_def is_line_break_def code_def)
    then show ?thesis using g r(1) by (intro exI [of _ ys] disjI2) (simp add: map_mono_prefix)
  qed
qed

section \<open>The summary agrees with the scorecard\<close>

text \<open>The printed summary and the scorecard tell the same story: the accuracy line counts the true positives and
  the true negatives over all decided rows, and the escalation line counts the rest.\<close>

theorem summary_agrees:
  assumes "eval_run env sample st = (Inr (xs, stopped), st')" "hitl_inv (ev_hitl st)"
  defines "cm \<equiv> cl_counts (sc_classification (sm_scorecard (eval_summary_of xs)))"
  shows "sm_correct (eval_summary_of xs) = cf_tp cm + cf_tn cm \<and>
    sm_decided (eval_summary_of xs) = cf_tp cm + cf_fp cm + cf_fn cm + cf_tn cm \<and>
    sm_escalated (eval_summary_of xs) = es_count (sc_escalation (sm_scorecard (eval_summary_of xs))) \<and>
    sm_decided (eval_summary_of xs) + sm_escalated (eval_summary_of xs) = length xs"
proof -
  obtain ab where l: "eval_loop env 1 sample st = (xs, ab, st')"
    using assms(1) by (auto simp: eval_run_def split: prod.splits option.splits sum.splits)
  have "list_all2 scored_as (take (length xs) sample) xs" using eval_loop_recorded [OF l assms(2)] by blast
  then have c: "\<forall>x\<in>set xs. er_correct x = outcome_correct (er_decision x) (er_fraud x)"
    by (auto simp: scored_as_def list_all2_conv_all_nth in_set_conv_nth)
  have cm: "cm = confusion (map scored_of xs)" by (simp add: cm_def eval_summary_of_def Let_def compute_all_def classification_metrics_def)
  have esc: "er_correct x = None \<longleftrightarrow> er_decision x = ''ESCALATE''" and
    cor: "er_correct x = Some True \<longleftrightarrow> er_decision x \<noteq> ''ESCALATE'' \<and> (er_decision x = ''BLOCK'') = er_fraud x" if "x \<in> set xs" for x
    using c that by (auto simp: outcome_correct_def)
  let ?D = "filter (\<lambda>x. er_correct x \<noteq> None) xs" and ?s = "eval_summary_of xs"
  have parts: "sm_correct ?s = length (filter (\<lambda>x. er_correct x = Some True) ?D)" "sm_decided ?s = length ?D"
    "sm_escalated ?s = tally (\<lambda>x. er_correct x = None) xs"
    "es_count (sc_escalation (sm_scorecard ?s)) = tally (\<lambda>x. er_decision x = ''ESCALATE'') xs"
    by (simp_all add: eval_summary_of_def Let_def compute_all_def escalation_metrics_def scored_of_def filter_map comp_def)
  have counts: "cf_tp cm = tally (\<lambda>x. er_decision x = ''BLOCK'' \<and> er_fraud x) xs"
    "cf_fp cm = tally (\<lambda>x. er_decision x = ''BLOCK'' \<and> \<not> er_fraud x) xs"
    "cf_fn cm = tally (\<lambda>x. er_decision x \<notin> {''BLOCK'', ''ESCALATE''} \<and> er_fraud x) xs"
    "cf_tn cm = tally (\<lambda>x. er_decision x \<notin> {''BLOCK'', ''ESCALATE''} \<and> \<not> er_fraud x) xs"
    by (simp_all add: cm confusion_counts filter_map comp_def scored_of_def)
  have "length (filter (\<lambda>x. er_correct x = Some True) ?D) =
      tally (\<lambda>x. er_decision x = ''BLOCK'' \<and> er_fraud x) xs + tally (\<lambda>x. er_decision x \<notin> {''BLOCK'', ''ESCALATE''} \<and> \<not> er_fraud x) xs"
    using c by (induction xs) (auto simp: outcome_correct_def)
  moreover have "length ?D = tally (\<lambda>x. er_decision x = ''BLOCK'' \<and> er_fraud x) xs + tally (\<lambda>x. er_decision x = ''BLOCK'' \<and> \<not> er_fraud x) xs +
      tally (\<lambda>x. er_decision x \<notin> {''BLOCK'', ''ESCALATE''} \<and> er_fraud x) xs + tally (\<lambda>x. er_decision x \<notin> {''BLOCK'', ''ESCALATE''} \<and> \<not> er_fraud x) xs"
    using esc by (induction xs) auto
  moreover have "filter (\<lambda>x. er_correct x = None) xs = filter (\<lambda>x. er_decision x = ''ESCALATE'') xs"
    using esc by (intro filter_cong) simp_all
  moreover have "length ?D + tally (\<lambda>x. er_correct x = None) xs = length xs"
    using sum_length_filter_compl [of "\<lambda>x. er_correct x = None" xs] by simp
  ultimately show ?thesis unfolding parts counts by presburger
qed

section \<open>An example\<close>

definition mute_judge :: judge where
  "mute_judge = \<lparr>jd_invoke = (\<lambda>_ _. Inl (Exn TimeoutError ''rate limit'')), jd_parse = (\<lambda>_. None), jd_str = (\<lambda>_. ''?'')\<rparr>"

definition kind_judge :: judge where
  "kind_judge = mute_judge\<lparr>jd_invoke := (\<lambda>_ _. Inr ''{}''), jd_parse := (\<lambda>_. Some (1 / 2, ''fine''))\<rparr>"

definition good_io :: io where
  "good_io = \<lparr>io_connect = Inr (), io_insert = Inr (), io_trace_connect = Inr (), io_trace_insert = Inr (), io_score = Inr (), io_latency = 12\<rparr>"

definition sample_env :: "nat eval_env" where
  "sample_env = \<lparr>ee_team = stubborn_team, ee_codec = sample_codec, ee_judge = mute_judge, ee_show = (\<lambda>_. ''0.9''),
     ee_io = (\<lambda>_. good_io)\<rparr>"

definition sample_label :: "bool \<Rightarrow> labelled" where
  "sample_label fraud = \<lparr>lb_snapshot = PNone, lb_transaction = PStr ''t1'', lb_user = PStr ''u1'', lb_amount = PFloat (Fin 100), lb_risk = PFloat (Fin 1),
     lb_flagged = True, lb_new_device = False, lb_geo = PNone, lb_minutes = PNone, lb_zscore = PNone, lb_velocity = PNone,
     lb_fraud = fraud, lb_pattern = None\<rparr>"

definition sample_state :: "nat eval_state" where
  "sample_state = \<lparr>ev_world = 0, ev_hitl = empty_hitl, ev_trace = sample_log, ev_scores = []\<rparr>"

lemma sample_eval_ok: "case fst (eval_run sample_env [sample_label True, sample_label False] sample_state) of
    Inr (xs, stopped) \<Rightarrow> map er_correct xs = [Some True, Some False] \<and> stopped = None | Inl _ \<Rightarrow> False"
  by code_simp

lemma sample_eval:
  obtains xs st' where "eval_run sample_env [sample_label True, sample_label False] sample_state = (Inr (xs, None), st')"
    "map er_correct xs = [Some True, Some False]"
  using sample_eval_ok by (cases "eval_run sample_env [sample_label True, sample_label False] sample_state") (auto split: sum.splits)

lemma sample_state_inv: "hitl_inv (ev_hitl sample_state)"
  by (simp add: sample_state_def empty_hitl_inv)

theorem eval_recorded_witness:
  "\<exists>x y st' row. eval_run sample_env [sample_label True, sample_label False] sample_state = (Inr ([x, y], None), st') \<and>
    er_correct x = Some True \<and> er_correct y = Some False \<and> row \<in> set (h_rows (ev_hitl st')) \<and> d_id row = er_id y \<and>
    d_decision row = PStr (er_decision y)"
proof -
  obtain xs st' where r: "eval_run sample_env [sample_label True, sample_label False] sample_state = (Inr (xs, None), st')"
    "map er_correct xs = [Some True, Some False]" using sample_eval .
  then obtain x y where xs: "xs = [x, y]" by auto
  from eval_recorded [OF r(1) sample_state_inv] r xs show ?thesis by auto
qed

lemma sample_judges: "spoken (ee_judge sample_env)" "spoken kind_judge"
  by (simp_all add: spoken_def sample_env_def mute_judge_def kind_judge_def)

theorem judge_never_gates_witness:
  "\<exists>xs ys st1 st2. eval_run sample_env [sample_label True, sample_label False] sample_state = (Inr (xs, None), st1) \<and>
    eval_run (sample_env\<lparr>ee_judge := kind_judge\<rparr>) [sample_label True, sample_label False] sample_state = (Inr (ys, None), st2) \<and>
    map unjudged ys = map unjudged xs"
proof -
  obtain xs st1 where r: "eval_run sample_env [sample_label True, sample_label False] sample_state = (Inr (xs, None), st1)"
    using sample_eval by metis
  obtain out st2 where o: "eval_run (sample_env\<lparr>ee_judge := kind_judge\<rparr>) [sample_label True, sample_label False] sample_state = (out, st2)"
    by fastforce
  from judge_never_gates [OF sample_judges(1) r o, of 0] sample_judges(2) r o show ?thesis by blast
qed

theorem summary_agrees_witness:
  "\<exists>xs st'. eval_run sample_env [sample_label True, sample_label False] sample_state = (Inr (xs, None), st') \<and>
    sm_decided (eval_summary_of xs) + sm_escalated (eval_summary_of xs) = 2"
proof -
  obtain xs st' where r: "eval_run sample_env [sample_label True, sample_label False] sample_state = (Inr (xs, None), st')"
    "map er_correct xs = [Some True, Some False]" using sample_eval .
  from r(2) have "length xs = 2" by (metis length_Cons length_map list.size(3) numeral_2_eq_2)
  with summary_agrees [OF r(1) sample_state_inv] r(1) show ?thesis by auto
qed

text \<open>The sample is stratified: at most half of it is fraud and at most half of it is legitimate.\<close>

lemma eval_sample_stratified:
  assumes "\<And>xs. mset (shuffle xs) = mset xs"
  shows "let s = fetch_eval_sample shuffle n table; half = max (n div 2) 1
    in length (filter lb_fraud s) = min half (length (filter (\<lambda>r. lb_flagged r \<and> lb_fraud r) table)) \<and>
       length (filter (\<lambda>r. \<not> lb_fraud r) s) = min half (length (filter (\<lambda>r. lb_flagged r \<and> \<not> lb_fraud r) table)) \<and>
       set s \<subseteq> {r \<in> set table. lb_flagged r}"
proof -
  have len: "length (filter P (shuffle xs)) = length (filter P xs)" for P xs using assms by (metis mset_filter size_mset)
  have set: "set (shuffle xs) = set xs" for xs using assms by (metis set_mset_mset)
  have l: "length (shuffle xs) = length xs" for xs using assms by (metis size_mset)
  have all: "filter P (take k (shuffle (filter Q xs))) = (if v then take k (shuffle (filter Q xs)) else [])"
    if "\<And>x. Q x \<Longrightarrow> P x = v" for P Q v k xs
    using that set [of "filter Q xs"] by (cases v) (auto intro!: filter_True filter_False dest!: in_set_takeD)
  show ?thesis
    unfolding fetch_eval_sample_def Let_def len set
    by (auto simp: all [where Q = "\<lambda>r. lb_flagged r \<and> lb_fraud r" and P = lb_fraud and v = True]
        all [where Q = "\<lambda>r. lb_flagged r \<and> \<not> lb_fraud r" and P = lb_fraud and v = False]
        all [where Q = "\<lambda>r. lb_flagged r \<and> lb_fraud r" and P = "\<lambda>r. \<not> lb_fraud r" and v = False]
        all [where Q = "\<lambda>r. lb_flagged r \<and> \<not> lb_fraud r" and P = "\<lambda>r. \<not> lb_fraud r" and v = True] l set dest!: in_set_takeD)
qed

end
