(* ===== verification/Random_Source.thy ===== *)
theory Random_Source
  imports Prelude Scoring "HOL-Library.State_Monad"
begin

text \<open>
  What the data generator takes from outside: the \<open>random\<close> module, \<open>uuid4\<close>, Faker's names and the
  clock.  A \<open>source\<close> answers each request by its number, a \<open>ticker\<close> counts the requests made so far,
  and a drawing computation is a state monad over any record that extends the ticker.  \<open>uniform\<close>,
  \<open>gauss\<close>, \<open>choice\<close>, \<open>choices\<close> and \<open>randint\<close> are the ones of Python's standard library over its three
  primitives: a number of the half-open unit interval, a standard normal deviate, and a natural
  number below a bound.  Moments are microseconds since the epoch, as a \<open>datetime\<close> stores them.
\<close>

record source =
  so_unit :: "nat \<Rightarrow> real"
  so_normal :: "nat \<Rightarrow> real"
  so_below :: "nat \<Rightarrow> nat \<Rightarrow> nat"
  so_uuid :: "nat \<Rightarrow> string"
  so_name :: "nat \<Rightarrow> string"
  so_now :: "nat \<Rightarrow> int"

record ticker =
  tick :: nat

type_synonym ('s, 'a) draw = "('s ticker_scheme, 'a) state"

definition drawn :: "(nat \<Rightarrow> 'a) \<Rightarrow> ('s, 'a) draw" where
  "drawn f = State (\<lambda>s. (f (tick s), s\<lparr>tick := Suc (tick s)\<rparr>))"

text \<open>The documented ranges of the primitives; identifiers never repeat and are never empty.\<close>

definition honest :: "source \<Rightarrow> bool" where
  "honest src \<longleftrightarrow> (\<forall>k. 0 \<le> so_unit src k \<and> so_unit src k < 1) \<and>
     (\<forall>k n. 0 < n \<longrightarrow> so_below src k n < n) \<and> inj (so_uuid src) \<and> (\<forall>k. so_uuid src k \<noteq> [])"

lemma honestD:
  assumes "honest src"
  shows "0 \<le> so_unit src k" "so_unit src k < 1" "0 < n \<Longrightarrow> so_below src k n < n" "inj (so_uuid src)" "so_uuid src k \<noteq> []"
  using assms by (simp_all add: honest_def)

section \<open>The random module\<close>

definition random_unit :: "source \<Rightarrow> ('s, real) draw" where
  "random_unit src = drawn (so_unit src)"

definition uniform :: "source \<Rightarrow> real \<Rightarrow> real \<Rightarrow> ('s, real) draw" where
  "uniform src a b = drawn (\<lambda>k. a + (b - a) * so_unit src k)"

definition gauss :: "source \<Rightarrow> real \<Rightarrow> real \<Rightarrow> ('s, real) draw" where
  "gauss src mu sigma = drawn (\<lambda>k. mu + so_normal src k * sigma)"

definition randint :: "source \<Rightarrow> int \<Rightarrow> int \<Rightarrow> ('s, int) draw" where
  "randint src a b = drawn (\<lambda>k. a + int (so_below src k (nat (b - a + 1))))"

text \<open>\<open>choice\<close> of a list that is not empty; the one call that may meet an empty list is guarded where it stands.\<close>

definition choice :: "source \<Rightarrow> 'a list \<Rightarrow> ('s, 'a) draw" where
  "choice src xs = drawn (\<lambda>k. xs ! so_below src k (length xs))"

text \<open>\<open>choices(population, weights, k=1)\<close>: \<open>bisect\<close> of the scaled draw among all cumulative weights but the last\<close>

fun running :: "real \<Rightarrow> real list \<Rightarrow> real list" where
  "running acc [] = []"
| "running acc (w # ws) = (acc + w) # running (acc + w) ws"

definition weighted_index :: "real list \<Rightarrow> real \<Rightarrow> nat" where
  "weighted_index ws u = length (takeWhile (\<lambda>c. c \<le> u * sum_list ws) (butlast (running 0 ws)))"

definition choices :: "source \<Rightarrow> 'a list \<Rightarrow> real list \<Rightarrow> ('s, 'a) draw" where
  "choices src xs ws = drawn (\<lambda>k. xs ! weighted_index ws (so_unit src k))"

definition uuid4 :: "source \<Rightarrow> ('s, string) draw" where
  "uuid4 src = drawn (so_uuid src)"

definition fake_name :: "source \<Rightarrow> ('s, string) draw" where
  "fake_name src = drawn (so_name src)"

definition utcnow :: "source \<Rightarrow> ('s, int) draw" where
  "utcnow src = drawn (so_now src)"

text \<open>\<open>timedelta(seconds=x)\<close> and \<open>timedelta(days=x)\<close> round to microseconds.\<close>

definition seconds :: "real \<Rightarrow> int" where
  "seconds x = round_half_even (x * 10 ^ 6)"

definition days :: "real \<Rightarrow> int" where
  "days x = round_half_even (x * 86400 * 10 ^ 6)"

section \<open>What a draw can return\<close>

text \<open>\<open>gives P m\<close>: every result of \<open>m\<close> satisfies \<open>P\<close>, whatever was drawn before.\<close>

definition gives :: "('a \<Rightarrow> bool) \<Rightarrow> ('s, 'a) state \<Rightarrow> bool" where
  "gives P m \<longleftrightarrow> (\<forall>s. P (fst (run_state m s)))"

named_theorems draw_rules \<open>what the draws return\<close>

lemma gives_return [simp]: "gives P (State_Monad.return a) \<longleftrightarrow> P a"
  by (simp add: gives_def)

lemma gives_bind [intro]:
  assumes "gives Q m" "\<And>a. Q a \<Longrightarrow> gives P (f a)"
  shows "gives P (m \<bind> f)"
  using assms unfolding gives_def by (auto split: prod.split) (metis fst_conv)

lemma gives_bind_any:
  assumes "\<And>a. gives P (f a)"
  shows "gives P (m \<bind> f)"
  by (rule gives_bind [where Q = "\<lambda>_. True"]) (use assms in \<open>simp_all add: gives_def\<close>)

lemma gives_mono: "gives P m \<Longrightarrow> (\<And>a. P a \<Longrightarrow> Q a) \<Longrightarrow> gives Q m"
  by (simp add: gives_def)

lemma gives_run: "gives P m \<Longrightarrow> run_state m s = (a, s') \<Longrightarrow> P a"
  by (metis gives_def fst_conv)

lemma gives_drawn [simp]: "gives P (drawn f :: ('s, 'a) draw) \<longleftrightarrow> (\<forall>k. P (f k))"
proof
  assume "gives P (drawn f :: ('s, 'a) draw)"
  then have "P (f (tick (ticker.extend \<lparr>tick = k\<rparr> (undefined :: 's))))" for k
    by (auto simp: gives_def drawn_def)
  then show "\<forall>k. P (f k)" by (simp add: ticker.defs)
qed (simp add: gives_def drawn_def)

lemma run_drawn [simp]: "run_state (drawn f) s = (f (tick s), s\<lparr>tick := Suc (tick s)\<rparr>)"
  by (simp add: drawn_def)

lemma unit_scaled:
  assumes "honest src" "a \<le> b"
  shows "a \<le> a + (b - a) * so_unit src k" "a + (b - a) * so_unit src k \<le> b"
proof -
  have u: "0 \<le> so_unit src k" "so_unit src k \<le> 1" using honestD(1,2) [OF assms(1), of k] by simp_all
  show "a \<le> a + (b - a) * so_unit src k" using u assms(2) by simp
  have "(b - a) * so_unit src k \<le> b - a" using u assms(2) by (simp add: mult_left_le)
  then show "a + (b - a) * so_unit src k \<le> b" by simp
qed

lemma uniform_gives [draw_rules]:
  assumes "honest src" "a \<le> b"
  shows "gives (\<lambda>x. a \<le> x \<and> x \<le> b) (uniform src a b)"
  using unit_scaled [OF assms] by (simp add: uniform_def)

lemma randint_gives [draw_rules]:
  assumes "honest src" "a \<le> b"
  shows "gives (\<lambda>x. a \<le> x \<and> x \<le> b) (randint src a b)"
proof -
  have "int (so_below src k (nat (b - a + 1))) < b - a + 1" for k
    using honestD(3) [OF assms(1), of "nat (b - a + 1)" k] assms(2) by linarith
  then show ?thesis by (simp add: randint_def) (metis add.commute add_diff_eq less_diff_eq zle_add1_eq_le diff_add_cancel)
qed

lemma choice_gives [draw_rules]:
  assumes "honest src" "xs \<noteq> []"
  shows "gives (\<lambda>x. x \<in> set xs) (choice src xs)"
  using honestD(3) [OF assms(1)] assms(2) by (simp add: choice_def)

lemma weighted_index_less: "ws \<noteq> [] \<Longrightarrow> weighted_index ws u < length ws"
proof -
  have "length (running acc ws) = length ws" for acc by (induction ws arbitrary: acc) simp_all
  then show "ws \<noteq> [] \<Longrightarrow> weighted_index ws u < length ws"
    unfolding weighted_index_def using length_takeWhile_le [of "\<lambda>c. c \<le> u * sum_list ws" "butlast (running 0 ws)"]
    by (metis One_nat_def Suc_pred length_butlast length_greater_0_conv less_Suc_eq_le)
qed

lemma choices_gives [draw_rules]:
  assumes "ws \<noteq> []" "length ws = length xs"
  shows "gives (\<lambda>x. x \<in> set xs) (choices src xs ws)"
  using weighted_index_less [OF assms(1)] assms(2) by (simp add: choices_def)

lemma uuid4_gives [draw_rules]: "gives (\<lambda>x. x \<in> range (so_uuid src)) (uuid4 src)"
  by (simp add: uuid4_def)

section \<open>Identifiers\<close>

text \<open>\<open>minted src f s xs s'\<close>: the identifiers \<open>f x\<close> of \<open>xs\<close> were issued one after the other between \<open>s\<close> and \<open>s'\<close>.\<close>

definition minted :: "source \<Rightarrow> ('a \<Rightarrow> string) \<Rightarrow> nat \<Rightarrow> 'a list \<Rightarrow> nat \<Rightarrow> bool" where
  "minted src f i xs j \<longleftrightarrow> i \<le> j \<and>
     (\<exists>ks. map f xs = map (so_uuid src) ks \<and> sorted_wrt (<) ks \<and> set ks \<subseteq> {i..<j})"

lemma minted_Nil [simp]: "minted src f i [] j \<longleftrightarrow> i \<le> j"
  by (auto simp: minted_def)

lemma minted_single: "f x = so_uuid src k \<Longrightarrow> i \<le> k \<Longrightarrow> k < j \<Longrightarrow> minted src f i [x] j"
  unfolding minted_def by (intro conjI exI [of _ "[k]"]) simp_all

lemma minted_append:
  assumes "minted src f i xs j" "minted src f j ys k"
  shows "minted src f i (xs @ ys) k"
proof -
  obtain as bs where a: "map f xs = map (so_uuid src) as" "sorted_wrt (<) as" "set as \<subseteq> {i..<j}"
    and b: "map f ys = map (so_uuid src) bs" "sorted_wrt (<) bs" "set bs \<subseteq> {j..<k}"
    and le: "i \<le> j" "j \<le> k" using assms unfolding minted_def by blast
  have "set (as @ bs) \<subseteq> {i..<k}" using a(3) b(3) le by auto
  moreover have "sorted_wrt (<) (as @ bs)" using a(2,3) b(2,3) by (auto simp: sorted_wrt_append dest!: subsetD)
  ultimately show ?thesis using a(1) b(1) le unfolding minted_def by (intro conjI exI [of _ "as @ bs"]) simp_all
qed

lemma minted_Cons: "minted src f i [x] j \<Longrightarrow> minted src f j xs k \<Longrightarrow> minted src f i (x # xs) k"
  using minted_append [of src f i "[x]" j xs k] by simp

lemma minted_weaken: "minted src f i xs j \<Longrightarrow> i' \<le> i \<Longrightarrow> j \<le> j' \<Longrightarrow> minted src f i' xs j'"
  using minted_append [of src f i' "[]" i xs j] minted_append [of src f i' xs j "[]" j'] by simp

lemma minted_distinct:
  assumes "honest src" "minted src f i xs j"
  shows "distinct (map f xs)"
proof -
  obtain ks where "map f xs = map (so_uuid src) ks" "sorted_wrt (<) ks" using assms(2) unfolding minted_def by blast
  moreover have "distinct ks" using calculation(2) by (simp add: strict_sorted_iff)
  ultimately show ?thesis using honestD(4) [OF assms(1)] by (metis distinct_map inj_on_subset subset_UNIV)
qed

lemma minted_le: "minted src f i xs j \<Longrightarrow> i \<le> j"
  by (simp add: minted_def)

end
