(* ===== verification/User_Profiles.thy ===== *)
theory User_Profiles
  imports Random_Source
begin

text \<open>
  \<open>data_generator/config.py\<close> and \<open>data_generator/user_profile_generator.py\<close>: the synthetic users and
  their devices, and the map of users that the transaction generator reads.  Names come from Faker and
  every draw from the source of Random_Source; the theorems say what a generated population looks like.
\<close>

section \<open>Configuration\<close>

record city =
  c_name :: string
  c_country :: string
  c_lat :: real
  c_lon :: real

definition us_cities :: "city list" where
  "us_cities =
    [\<lparr>c_name = ''Boston'', c_country = ''US'', c_lat = 42.3601, c_lon = - 71.0589\<rparr>,
     \<lparr>c_name = ''New York'', c_country = ''US'', c_lat = 40.7128, c_lon = - 74.0060\<rparr>,
     \<lparr>c_name = ''Chicago'', c_country = ''US'', c_lat = 41.8781, c_lon = - 87.6298\<rparr>,
     \<lparr>c_name = ''Los Angeles'', c_country = ''US'', c_lat = 34.0522, c_lon = - 118.2437\<rparr>,
     \<lparr>c_name = ''Miami'', c_country = ''US'', c_lat = 25.7617, c_lon = - 80.1918\<rparr>,
     \<lparr>c_name = ''Seattle'', c_country = ''US'', c_lat = 47.6062, c_lon = - 122.3321\<rparr>,
     \<lparr>c_name = ''Austin'', c_country = ''US'', c_lat = 30.2672, c_lon = - 97.7431\<rparr>,
     \<lparr>c_name = ''Denver'', c_country = ''US'', c_lat = 39.7392, c_lon = - 104.9903\<rparr>,
     \<lparr>c_name = ''Atlanta'', c_country = ''US'', c_lat = 33.7490, c_lon = - 84.3880\<rparr>,
     \<lparr>c_name = ''San Francisco'', c_country = ''US'', c_lat = 37.7749, c_lon = - 122.4194\<rparr>]"

datatype risk_tier = LOW | MEDIUM | HIGH

text \<open>\<open>USER_SPEND_PROFILES\<close>: the ranges of the average, of the deviation and of the daily count.\<close>

record spend_profile =
  sp_avg :: "real \<times> real"
  sp_stddev :: "real \<times> real"
  sp_daily :: "real \<times> real"

fun spend_profile_of :: "risk_tier \<Rightarrow> spend_profile" where
  "spend_profile_of LOW = \<lparr>sp_avg = (15, 45), sp_stddev = (5, 15), sp_daily = (1, 3)\<rparr>"
| "spend_profile_of MEDIUM = \<lparr>sp_avg = (40, 120), sp_stddev = (15, 40), sp_daily = (2, 6)\<rparr>"
| "spend_profile_of HIGH = \<lparr>sp_avg = (100, 400), sp_stddev = (40, 120), sp_daily = (3, 10)\<rparr>"

definition risk_tier_distribution :: "(risk_tier \<times> real) list" where
  "risk_tier_distribution = [(LOW, 50 / 100), (MEDIUM, 35 / 100), (HIGH, 15 / 100)]"

definition num_devices_per_user :: "int \<times> int" where
  "num_devices_per_user = (1, 3)"

section \<open>The tables\<close>

record user_row =
  us_key :: string
  us_id :: string
  us_name :: string
  us_age :: int
  us_city :: string
  us_country :: string
  us_lat :: real
  us_lon :: real
  us_avg :: real
  us_stddev :: real
  us_daily :: real
  us_created :: int
  us_tier :: risk_tier
  us_active :: bool
  us_valid_from :: int
  us_valid_to :: int
  us_current :: bool
  us_updated :: int

record device_row =
  dv_id :: string
  dv_user :: string
  dv_type :: string
  dv_os :: string
  dv_first_seen :: int
  dv_trusted :: bool
  dv_registered :: int

text \<open>\<open>datetime(9999, 12, 31)\<close>\<close>

definition end_of_time :: int where
  "end_of_time = (ymd_ord 9999 12 31 - ymd_ord 1970 1 1) * 86400 * 10 ^ 6"

definition device_types :: "string list" where
  "device_types = [''MOBILE'', ''MOBILE'', ''MOBILE'', ''WEB'', ''TABLET'']"

definition device_os_map :: "string \<Rightarrow> string list" where
  "device_os_map t = (if t = ''WEB'' then [''Windows'', ''macOS'', ''Linux''] else [''iOS'', ''Android''])"

section \<open>Users\<close>

definition pick_risk_tier :: "source \<Rightarrow> ('s, risk_tier) draw" where
  "pick_risk_tier src = choices src (map fst risk_tier_distribution) (map snd risk_tier_distribution)"

definition generate_spend_baseline :: "source \<Rightarrow> risk_tier \<Rightarrow> ('s, real \<times> real \<times> real) draw" where
  "generate_spend_baseline src risk =
    (let p = spend_profile_of risk in do {
       a \<leftarrow> uniform src (fst (sp_avg p)) (snd (sp_avg p));
       d \<leftarrow> uniform src (fst (sp_stddev p)) (snd (sp_stddev p));
       n \<leftarrow> uniform src (fst (sp_daily p)) (snd (sp_daily p));
       State_Monad.return (round_to 2 a, round_to 2 d, round_to 2 n)
     })"

definition random_account_date :: "source \<Rightarrow> ('s, int) draw" where
  "random_account_date src = do {
     days_ago \<leftarrow> randint src 365 1825;
     now \<leftarrow> utcnow src;
     State_Monad.return (now - days (of_int days_ago))
   }"

definition generate_user :: "source \<Rightarrow> ('s, user_row) draw" where
  "generate_user src = do {
     risk \<leftarrow> pick_risk_tier src;
     (avg_amt, stddev_amt, daily_txns) \<leftarrow> generate_spend_baseline src risk;
     home \<leftarrow> choice src us_cities;
     created \<leftarrow> random_account_date src;
     lat_jitter \<leftarrow> uniform src (- 0.05) 0.05;
     lon_jitter \<leftarrow> uniform src (- 0.05) 0.05;
     key \<leftarrow> uuid4 src;
     uid \<leftarrow> uuid4 src;
     name \<leftarrow> fake_name src;
     age \<leftarrow> randint src 21 72;
     now \<leftarrow> utcnow src;
     State_Monad.return \<lparr>us_key = key, us_id = uid, us_name = name, us_age = age,
       us_city = c_name home, us_country = c_country home,
       us_lat = round_to 6 (c_lat home + lat_jitter), us_lon = round_to 6 (c_lon home + lon_jitter),
       us_avg = avg_amt, us_stddev = stddev_amt, us_daily = daily_txns, us_created = created, us_tier = risk,
       us_active = True, us_valid_from = created, us_valid_to = end_of_time, us_current = True, us_updated = now\<rparr>
   }"

fun generate_users :: "source \<Rightarrow> nat \<Rightarrow> ('s, user_row list) draw" where
  "generate_users src 0 = State_Monad.return []"
| "generate_users src (Suc n) = do {
     u \<leftarrow> generate_user src;
     us \<leftarrow> generate_users src n;
     State_Monad.return (u # us)
   }"

section \<open>Devices\<close>

definition generate_device :: "source \<Rightarrow> user_row \<Rightarrow> nat \<Rightarrow> ('s, device_row) draw" where
  "generate_device src user i = do {
     dtype \<leftarrow> choice src device_types;
     os \<leftarrow> choice src (device_os_map dtype);
     offset \<leftarrow> (if i = 0 then State_Monad.return 0 else randint src 30 365);
     did \<leftarrow> uuid4 src;
     trusted \<leftarrow> (if i = 0 then State_Monad.return True else choice src [True, False]);
     State_Monad.return \<lparr>dv_id = did, dv_user = us_id user, dv_type = dtype, dv_os = os,
       dv_first_seen = us_created user + days (of_int offset), dv_trusted = trusted,
       dv_registered = us_created user + days (of_int offset)\<rparr>
   }"

fun devices_from :: "source \<Rightarrow> user_row \<Rightarrow> nat \<Rightarrow> nat \<Rightarrow> ('s, device_row list) draw" where
  "devices_from src user i 0 = State_Monad.return []"
| "devices_from src user i (Suc n) = do {
     d \<leftarrow> generate_device src user i;
     ds \<leftarrow> devices_from src user (Suc i) n;
     State_Monad.return (d # ds)
   }"

fun generate_devices :: "source \<Rightarrow> user_row list \<Rightarrow> ('s, device_row list) draw" where
  "generate_devices src [] = State_Monad.return []"
| "generate_devices src (user # users) = do {
     n \<leftarrow> randint src (fst num_devices_per_user) (snd num_devices_per_user);
     ds \<leftarrow> devices_from src user 0 (nat n);
     rest \<leftarrow> generate_devices src users;
     State_Monad.return (ds @ rest)
   }"

definition generate_profiles :: "source \<Rightarrow> int \<Rightarrow> ('s, user_row list \<times> device_row list) draw" where
  "generate_profiles src num_users = do {
     users \<leftarrow> generate_users src (nat num_users);
     devices \<leftarrow> generate_devices src users;
     State_Monad.return (users, devices)
   }"

section \<open>The user map\<close>

record profile =
  pf_id :: string
  pf_name :: string
  pf_city :: string
  pf_country :: string
  pf_lat :: real
  pf_lon :: real
  pf_avg :: real
  pf_stddev :: real
  pf_daily :: real
  pf_tier :: risk_tier
  pf_devices :: "string list"

text \<open>\<open>setdefault(user_id, []).append(device_id)\<close> for every device row, trusted or not\<close>

definition device_map :: "device_row list \<Rightarrow> (string \<times> string list) list" where
  "device_map ds = fold (\<lambda>d acc. AList.map_default (dv_user d) [dv_id d] (\<lambda>xs. xs @ [dv_id d]) acc) ds []"

definition profile_of :: "(string \<times> string list) list \<Rightarrow> user_row \<Rightarrow> profile" where
  "profile_of dm u = \<lparr>pf_id = us_id u, pf_name = us_name u, pf_city = us_city u, pf_country = us_country u,
     pf_lat = us_lat u, pf_lon = us_lon u, pf_avg = us_avg u, pf_stddev = us_stddev u, pf_daily = us_daily u,
     pf_tier = us_tier u, pf_devices = (case map_of dm (us_id u) of Some xs \<Rightarrow> xs | None \<Rightarrow> [])\<rparr>"

definition save_user_map :: "user_row list \<Rightarrow> device_row list \<Rightarrow> (string \<times> profile) list" where
  "save_user_map users devices =
    fold (\<lambda>u acc. AList.update (us_id u) (profile_of (device_map devices) u) acc) users []"

section \<open>What is generated\<close>

lemma round_to_fixed: "x * 10 ^ n = of_int k \<Longrightarrow> round_to n x = x"
  by (simp add: round_to_def divide_eq_eq)

lemma round_to_between:
  assumes "a \<le> x" "x \<le> b" "a * 10 ^ n = of_int i" "b * 10 ^ n = of_int j"
  shows "a \<le> round_to n x" "round_to n x \<le> b"
  using round_to_mono [OF assms(1), of n] round_to_mono [OF assms(2), of n] round_to_fixed [OF assms(3)] round_to_fixed [OF assms(4)]
  by simp_all

definition in_range :: "real \<times> real \<Rightarrow> real \<Rightarrow> bool" where
  "in_range r x \<longleftrightarrow> fst r \<le> x \<and> x \<le> snd r"

text \<open>A user has the spending of his risk tier and lives near one of the cities.\<close>

definition plausible :: "user_row \<Rightarrow> bool" where
  "plausible u \<longleftrightarrow>
     in_range (sp_avg (spend_profile_of (us_tier u))) (us_avg u) \<and>
     in_range (sp_stddev (spend_profile_of (us_tier u))) (us_stddev u) \<and>
     in_range (sp_daily (spend_profile_of (us_tier u))) (us_daily u) \<and>
     21 \<le> us_age u \<and> us_age u \<le> 72 \<and> us_current u \<and> us_valid_from u = us_created u \<and>
     (\<exists>c\<in>set us_cities. us_city u = c_name c \<and> us_country u = c_country c \<and>
        \<bar>us_lat u - c_lat c\<bar> \<le> 5 / 100 \<and> \<bar>us_lon u - c_lon c\<bar> \<le> 5 / 100)"

definition whole_micro :: "real \<Rightarrow> bool" where
  "whole_micro x \<longleftrightarrow> x * 10 ^ 6 = of_int \<lfloor>x * 10 ^ 6\<rfloor>"

lemma jittered:
  assumes "whole_micro c" "- d \<le> j" "j \<le> d" "d * 10 ^ 6 = of_int k"
  shows "\<bar>round_to 6 (c + j) - c\<bar> \<le> d"
proof -
  obtain i where i: "c * 10 ^ 6 = of_int i" using assms(1) unfolding whole_micro_def by blast
  have lo: "(c - d) * 10 ^ 6 = of_int (i - k)" and hi: "(c + d) * 10 ^ 6 = of_int (i + k)"
    using i assms(4) by (simp_all add: algebra_simps)
  have "c - d \<le> round_to 6 (c + j)" "round_to 6 (c + j) \<le> c + d"
    by (rule round_to_between [OF _ _ lo hi]; use assms(2,3) in simp)+
  then show ?thesis by linarith
qed

lemma us_cities_whole: "list_all (\<lambda>c. whole_micro (c_lat c) \<and> whole_micro (c_lon c)) us_cities"
  by (simp add: us_cities_def whole_micro_def)

lemma cents_in_range:
  assumes "fst r \<le> x" "x \<le> snd r" "fst r * 10 ^ 2 = of_int i" "snd r * 10 ^ 2 = of_int j"
  shows "in_range r (round_to 2 x)"
  using round_to_between [OF assms] by (simp add: in_range_def)

lemma spend_baseline_gives:
  assumes "honest src"
  shows "gives (\<lambda>(a, d, n). in_range (sp_avg (spend_profile_of risk)) a \<and> in_range (sp_stddev (spend_profile_of risk)) d \<and>
     in_range (sp_daily (spend_profile_of risk)) n) (generate_spend_baseline src risk)"
proof -
  have r: "fst (sp_avg (spend_profile_of risk)) \<le> snd (sp_avg (spend_profile_of risk))"
    "fst (sp_stddev (spend_profile_of risk)) \<le> snd (sp_stddev (spend_profile_of risk))"
    "fst (sp_daily (spend_profile_of risk)) \<le> snd (sp_daily (spend_profile_of risk))"
    by (cases risk; simp)+
  have c: "in_range (sp_avg (spend_profile_of risk)) (round_to 2 a)"
    if "fst (sp_avg (spend_profile_of risk)) \<le> a \<and> a \<le> snd (sp_avg (spend_profile_of risk))" for a
    using that by (cases risk)
      (auto intro: cents_in_range [where i = 1500 and j = 4500] cents_in_range [where i = 4000 and j = 12000]
        cents_in_range [where i = 10000 and j = 40000])
  have d: "in_range (sp_stddev (spend_profile_of risk)) (round_to 2 a)"
    if "fst (sp_stddev (spend_profile_of risk)) \<le> a \<and> a \<le> snd (sp_stddev (spend_profile_of risk))" for a
    using that by (cases risk)
      (auto intro: cents_in_range [where i = 500 and j = 1500] cents_in_range [where i = 1500 and j = 4000]
        cents_in_range [where i = 4000 and j = 12000])
  have n: "in_range (sp_daily (spend_profile_of risk)) (round_to 2 a)"
    if "fst (sp_daily (spend_profile_of risk)) \<le> a \<and> a \<le> snd (sp_daily (spend_profile_of risk))" for a
    using that by (cases risk)
      (auto intro: cents_in_range [where i = 100 and j = 300] cents_in_range [where i = 200 and j = 600]
        cents_in_range [where i = 300 and j = 1000])
  show ?thesis
    unfolding generate_spend_baseline_def Let_def
    by (intro gives_bind [OF uniform_gives [OF assms r(1)]] gives_bind [OF uniform_gives [OF assms r(2)]]
        gives_bind [OF uniform_gives [OF assms r(3)]]) (simp add: c d n)
qed

lemma user_plausible:
  assumes "honest src"
  shows "gives plausible (generate_user src)"
proof -
  have home: "plausible \<lparr>us_key = key, us_id = uid, us_name = name, us_age = age,
       us_city = c_name home, us_country = c_country home,
       us_lat = round_to 6 (c_lat home + lat_jitter), us_lon = round_to 6 (c_lon home + lon_jitter),
       us_avg = a, us_stddev = d, us_daily = n, us_created = created, us_tier = risk,
       us_active = True, us_valid_from = created, us_valid_to = end_of_time, us_current = True, us_updated = now\<rparr>"
    if "in_range (sp_avg (spend_profile_of risk)) a" "in_range (sp_stddev (spend_profile_of risk)) d"
      "in_range (sp_daily (spend_profile_of risk)) n" "home \<in> set us_cities" "- 0.05 \<le> lat_jitter \<and> lat_jitter \<le> 0.05"
      "- 0.05 \<le> lon_jitter \<and> lon_jitter \<le> 0.05" "21 \<le> age \<and> age \<le> 72"
    for key uid name age home lat_jitter lon_jitter a d n created risk now
    using that us_cities_whole jittered [of "c_lat home" "5 / 100" lat_jitter 50000] jittered [of "c_lon home" "5 / 100" lon_jitter 50000]
    by (auto simp: plausible_def list_all_iff intro!: bexI [where x = home])
  have jit: "gives (\<lambda>x. - 0.05 \<le> x \<and> x \<le> 0.05) (uniform src (- (1 / 20)) (1 / 20) :: ('s, real) draw)"
    using uniform_gives [OF assms, of "- (1 / 20)" "1 / 20"] by simp
  have age: "gives (\<lambda>x. 21 \<le> x \<and> x \<le> 72) (randint src 21 72 :: ('s, int) draw)"
    by (rule randint_gives [OF assms]) simp
  have city: "gives (\<lambda>c. c \<in> set us_cities) (choice src us_cities :: ('s, city) draw)"
    by (rule choice_gives [OF assms]) (simp add: us_cities_def)
  show ?thesis
    unfolding generate_user_def
    apply (rule gives_bind_any)
    apply (rule gives_bind [OF spend_baseline_gives [OF assms]])
    apply (clarsimp split: prod.splits)
    apply (rule gives_bind [OF city])
    apply (rule gives_bind_any)
    apply (rule gives_bind [OF jit])
    apply (rule gives_bind [OF jit])
    apply (rule gives_bind_any, rule gives_bind_any, rule gives_bind_any)
    apply (rule gives_bind [OF age])
    apply (rule gives_bind_any)
    apply (simp add: home)
    done
qed

lemmas run_draws = random_unit_def uniform_def gauss_def randint_def choice_def choices_def uuid4_def fake_name_def utcnow_def

lemma user_minted:
  assumes "run_state (generate_user src) s = (u, s')"
  shows "minted src us_id (tick s) [u] (tick s')"
  using assms unfolding generate_user_def pick_risk_tier_def generate_spend_baseline_def random_account_date_def run_draws Let_def
  by (auto simp: eval_nat_numeral intro!: minted_single [where k = "tick s + 10"])

lemma users_generated:
  assumes "honest src" "run_state (generate_users src n) s = (us, s')"
  shows "length us = n \<and> list_all plausible us \<and> minted src us_id (tick s) us (tick s')"
  using assms(2)
proof (induction n arbitrary: s us)
  case (Suc n)
  obtain u s1 vs where u: "run_state (generate_user src) s = (u, s1)" "run_state (generate_users src n) s1 = (vs, s')" "us = u # vs"
    using Suc.prems by (auto split: prod.splits)
  show ?case
    using Suc.IH [OF u(2)] gives_run [OF user_plausible [OF assms(1)] u(1)] minted_Cons [OF user_minted [OF u(1)]] u(3) by simp
qed simp

lemma device_minted:
  assumes "run_state (generate_device src user i) s = (d, s')"
  shows "minted src dv_id (tick s) [d] (tick s') \<and> dv_user d = us_id user \<and> (i = 0 \<longrightarrow> dv_trusted d)"
proof (cases "i = 0")
  case True
  then show ?thesis using assms unfolding generate_device_def run_draws
    by (auto simp: eval_nat_numeral intro!: minted_single [where k = "tick s + 2"])
next
  case False
  then show ?thesis using assms unfolding generate_device_def run_draws
    by (auto simp: eval_nat_numeral intro!: minted_single [where k = "tick s + 3"])
qed

lemma devices_minted:
  assumes "run_state (devices_from src user i n) s = (ds, s')"
  shows "minted src dv_id (tick s) ds (tick s') \<and> length ds = n \<and> list_all (\<lambda>d. dv_user d = us_id user) ds \<and>
    (i = 0 \<and> 0 < n \<longrightarrow> dv_trusted (hd ds))"
  using assms
proof (induction n arbitrary: i s ds)
  case (Suc n)
  obtain d s1 es where d: "run_state (generate_device src user i) s = (d, s1)" "run_state (devices_from src user (Suc i) n) s1 = (es, s')"
    "ds = d # es"
    using Suc.prems by (auto split: prod.splits)
  show ?case using Suc.IH [OF d(2)] device_minted [OF d(1)] d(3) by (auto intro: minted_Cons)
qed simp

text \<open>Every user gets between one and three devices, the first of them trusted.\<close>

definition equipped :: "device_row list \<Rightarrow> user_row \<Rightarrow> bool" where
  "equipped ds u \<longleftrightarrow> (let own = filter (\<lambda>d. dv_user d = us_id u) ds in
     1 \<le> length own \<and> length own \<le> 3 \<and> dv_trusted (hd own))"

lemma devices_generated:
  assumes "honest src" "run_state (generate_devices src us) s = (ds, s')" "distinct (map us_id us)"
  shows "minted src dv_id (tick s) ds (tick s') \<and> set (map dv_user ds) \<subseteq> set (map us_id us) \<and> list_all (equipped ds) us"
  using assms(2,3)
proof (induction us arbitrary: s ds)
  case (Cons u us)
  obtain n s1 own s2 rest where r: "run_state (randint src 1 3) s = (n, s1)" "run_state (devices_from src u 0 (nat n)) s1 = (own, s2)"
    "run_state (generate_devices src us) s2 = (rest, s')" "ds = own @ rest"
    using Cons.prems(1) by (auto simp: num_devices_per_user_def split: prod.splits)
  have n: "1 \<le> n" "n \<le> 3"
    using gives_run [OF randint_gives [OF assms(1), of 1 3] r(1)] by simp_all
  have t: "tick s \<le> tick s1" using r(1) by (auto simp: randint_def)
  note own = devices_minted [OF r(2)]
  have IH: "minted src dv_id (tick s2) rest (tick s')" "set (map dv_user rest) \<subseteq> set (map us_id us)" "list_all (equipped rest) us"
    using Cons.IH [OF r(3)] Cons.prems(2) by simp_all
  have o: "filter (\<lambda>d. dv_user d = us_id u) own = own" using own by (simp add: list_all_iff)
  have e: "filter (\<lambda>d. dv_user d = us_id u) rest = []"
  proof -
    have "dv_user d \<in> us_id ` set us" if "d \<in> set rest" for d using IH(2) that by (simp add: image_subset_iff)
    moreover have "us_id u \<notin> us_id ` set us" using Cons.prems(2) by simp
    ultimately show ?thesis unfolding filter_empty_conv by metis
  qed
  have "own \<noteq> []" using own n by auto
  then have "equipped ds u" using o e own n by (simp add: equipped_def r(4) Let_def) linarith
  moreover have "equipped ds v" if "v \<in> set us" for v
  proof -
    have "us_id v \<noteq> us_id u" using Cons.prems(2) that by (metis distinct.simps(2) image_eqI list.set_map list.simps(9))
    then have "filter (\<lambda>d. dv_user d = us_id v) own = []" using own by (auto simp: list_all_iff filter_empty_conv)
    then show ?thesis using IH(3) that by (simp add: equipped_def r(4) list_all_iff)
  qed
  moreover have "minted src dv_id (tick s) ds (tick s')"
    using minted_append [OF _ IH(1)] own r(4) t by (auto intro: minted_weaken)
  ultimately show ?case using IH(2) own r(4) by (auto simp: list_all_iff)
qed simp

text \<open>C35: The synthetic population is what the rest of the platform assumes: as many users as asked for,
  no two with the same identifier, each with the spending range of his risk tier, an adult age, a
  current dimension row and a home within a twentieth of a degree of one of the cities; no two devices
  share an identifier, every device belongs to a user, and every user has one to three devices of which
  the first is trusted.\<close>

theorem population_well_formed:
  assumes "honest src" "run_state (generate_profiles src n) s = ((users, devices), s')"
  shows "length users = nat n \<and> list_all plausible users \<and> distinct (map us_id users) \<and>
    distinct (map dv_id devices) \<and> set (map dv_user devices) \<subseteq> set (map us_id users) \<and> list_all (equipped devices) users"
proof -
  obtain s1 where r: "run_state (generate_users src (nat n)) s = (users, s1)" "run_state (generate_devices src users) s1 = (devices, s')"
    using assms(2) by (auto simp: generate_profiles_def split: prod.splits)
  note u = users_generated [OF assms(1) r(1)]
  have d: "distinct (map us_id users)" using minted_distinct [OF assms(1)] u by blast
  show ?thesis
    using devices_generated [OF assms(1) r(2) d] minted_distinct [OF assms(1)] u d by blast
qed

section \<open>The user map\<close>

lemma map_of_map_default:
  "map_of (AList.map_default k [x] (\<lambda>xs. xs @ [x]) al) u =
    (if k = u then Some ((case map_of al u of Some xs \<Rightarrow> xs | None \<Rightarrow> []) @ [x]) else map_of al u)"
  by (induction al) auto

lemma device_map_lookup:
  "map_of (device_map ds) u =
    (if filter (\<lambda>d. dv_user d = u) ds = [] then None else Some (map dv_id (filter (\<lambda>d. dv_user d = u) ds)))"
proof (induction ds rule: rev_induct)
  case (snoc d ds)
  then show ?case by (auto simp: device_map_def map_of_map_default split: if_splits)
qed (simp add: device_map_def)

lemma updates_keys:
  assumes "distinct (map k xs)" "set (map k xs) \<inter> fst ` set al = {}"
  shows "fold (\<lambda>x. AList.update (k x) (f x)) xs al = al @ map (\<lambda>x. (k x, f x)) xs"
  using assms
proof (induction xs arbitrary: al)
  case (Cons x xs)
  have "k x \<notin> fst ` set al" using Cons.prems(2) by auto
  then show ?case using Cons.IH [of "al @ [(k x, f x)]"] Cons.prems by (auto simp: update_new)
qed simp

text \<open>The map of users that the transaction generator starts from loses nothing of the population:
  it has one entry per user in their order, under the user's identifier, and reading an entry gives
  back the home, the spending and the risk tier of that user together with all his devices in the
  order in which they were registered.\<close>

theorem user_map_complete:
  assumes "distinct (map us_id users)"
  shows "map fst (save_user_map users devices) = map us_id users \<and>
    list_all (\<lambda>u. \<exists>p. map_of (save_user_map users devices) (us_id u) = Some p \<and> pf_id p = us_id u \<and>
        pf_name p = us_name u \<and> pf_city p = us_city u \<and> pf_lat p = us_lat u \<and> pf_lon p = us_lon u \<and>
        pf_avg p = us_avg u \<and> pf_stddev p = us_stddev u \<and> pf_tier p = us_tier u \<and>
        pf_devices p = map dv_id (filter (\<lambda>d. dv_user d = us_id u) devices)) users"
proof -
  have m: "save_user_map users devices = map (\<lambda>u. (us_id u, profile_of (device_map devices) u)) users"
    using updates_keys [of us_id users "[]" "profile_of (device_map devices)"] assms by (simp add: save_user_map_def)
  have "map_of (save_user_map users devices) (us_id u) = Some (profile_of (device_map devices) u)" if "u \<in> set users" for u
  proof -
    have "(us_id u, profile_of (device_map devices) u) \<in> set (save_user_map users devices)" using that by (simp add: m)
    moreover have "distinct (map fst (save_user_map users devices))" using assms by (simp add: m o_def)
    ultimately show ?thesis by simp
  qed
  then show ?thesis by (simp add: m o_def list_all_iff profile_of_def device_map_lookup)
qed

section \<open>A small population\<close>

definition demo_source :: source where
  "demo_source = \<lparr>so_unit = (\<lambda>k. 1 / 2), so_normal = (\<lambda>k. 0), so_below = (\<lambda>k n. k mod n), so_uuid = (\<lambda>k. ''id-'' @ replicate k CHR ''x''),
     so_name = (\<lambda>k. ''Name''), so_now = (\<lambda>k. 1750000000000000 + int k)\<rparr>"

lemma demo_honest: "honest demo_source"
  by (auto simp: honest_def demo_source_def inj_def)

lemma population_well_formed_witness:
  "\<exists>users devices s'. run_state (generate_profiles demo_source 2) \<lparr>tick = 0\<rparr> = ((users, devices), s') \<and>
    length users = 2 \<and> distinct (map dv_id devices)"
proof -
  obtain users devices s' where r: "run_state (generate_profiles demo_source 2) \<lparr>tick = 0\<rparr> = ((users, devices), s')"
    by (metis prod.collapse)
  show ?thesis using population_well_formed [OF demo_honest r] r by auto
qed

lemma user_map_complete_witness:
  "\<exists>users devices s'. run_state (generate_profiles demo_source 2) \<lparr>tick = 0\<rparr> = ((users, devices), s') \<and>
    map fst (save_user_map users devices) = map us_id users \<and> length users = 2"
proof -
  obtain users devices s' where r: "run_state (generate_profiles demo_source 2) \<lparr>tick = 0\<rparr> = ((users, devices), s')"
    by (metis prod.collapse)
  obtain s1 where u: "run_state (generate_users demo_source 2) \<lparr>tick = 0\<rparr> = (users, s1)"
    using r by (auto simp: generate_profiles_def split: prod.splits)
  have "distinct (map us_id users)" "length users = 2"
    using users_generated [OF demo_honest u] minted_distinct [OF demo_honest] by blast+
  then show ?thesis using user_map_complete [of users devices] r by blast
qed

end
