(* ===== verification/Transaction_Stream.thy ===== *)
theory Transaction_Stream
  imports User_Profiles
begin

text \<open>
  \<open>data_generator/transaction_stream_generator.py\<close>: the stream of synthetic transactions, with bursts and
  the other fraud patterns, in real time and as a backfill.  An event is a record with the keys of the
  source's dictionary; its two timestamps are kept as moments where the source formats them.  The
  producer keeps the messages it was handed in order; whether it refuses one is the parameter
  \<open>busy\<close>.  Sleeps, log lines and wall-clock statistics are left out, except for what the geo jump logs.
\<close>

section \<open>Configuration\<close>

definition fraud_rate :: real where "fraud_rate = 15 / 100"
definition burst_transaction_count :: "int \<times> int" where "burst_transaction_count = (8, 10)"
definition impossible_travel_speed_kmh :: real where "impossible_travel_speed_kmh = 900"
definition geo_jump_min_distance_km :: real where "geo_jump_min_distance_km = 5000"

definition card_test_amounts :: "real list" where
  "card_test_amounts = [1, 5, 10, 0.50, 2]"

definition threshold_evasion_amounts :: "real list" where
  "threshold_evasion_amounts = [99.99, 499.99, 999.99, 199.99, 299.99]"

definition amount_anomaly_multiplier :: real where "amount_anomaly_multiplier = 5"
definition new_device_high_amount_multiplier :: real where "new_device_high_amount_multiplier = 3"

definition merchant_categories :: "(string \<times> real) list" where
  "merchant_categories =
    [(''GROCERY'', 0.25), (''RESTAURANT'', 0.20), (''GAS_STATION'', 0.15), (''RETAIL'', 0.15), (''ELECTRONICS'', 0.08),
     (''TRAVEL'', 0.07), (''ENTERTAINMENT'', 0.05), (''PHARMACY'', 0.05)]"

definition backfill_num_transactions :: int where "backfill_num_transactions = 10000000"
definition backfill_kafka_batch_size :: nat where "backfill_kafka_batch_size = 10000"
definition backfill_num_bursts :: int where "backfill_num_bursts = 3000"
definition backfill_recent_window_days :: real where "backfill_recent_window_days = 7"
definition backfill_recent_weight :: real where "backfill_recent_weight = 0.5"

definition international_cities :: "city list" where
  "international_cities =
    [\<lparr>c_name = ''London'', c_country = ''UK'', c_lat = 51.5074, c_lon = - 0.1278\<rparr>,
     \<lparr>c_name = ''Tokyo'', c_country = ''JP'', c_lat = 35.6762, c_lon = 139.6503\<rparr>,
     \<lparr>c_name = ''Dubai'', c_country = ''AE'', c_lat = 25.2048, c_lon = 55.2708\<rparr>,
     \<lparr>c_name = ''Mumbai'', c_country = ''IN'', c_lat = 19.0760, c_lon = 72.8777\<rparr>,
     \<lparr>c_name = ''Sydney'', c_country = ''AU'', c_lat = - 33.8688, c_lon = 151.2093\<rparr>,
     \<lparr>c_name = ''Paris'', c_country = ''FR'', c_lat = 48.8566, c_lon = 2.3522\<rparr>,
     \<lparr>c_name = ''Singapore'', c_country = ''SG'', c_lat = 1.3521, c_lon = 103.8198\<rparr>,
     \<lparr>c_name = ''Shanghai'', c_country = ''CN'', c_lat = 31.2304, c_lon = 121.4737\<rparr>]"

section \<open>Distance and speed\<close>

definition geo_haversine :: "real \<Rightarrow> real \<Rightarrow> real \<Rightarrow> real \<Rightarrow> real" where
  "geo_haversine lat1 lon1 lat2 lon2 =
    (let rad = (\<lambda>x. x * (pi / 180)); dlat = rad lat2 - rad lat1; dlon = rad lon2 - rad lon1;
         a = (sin (dlat / 2))\<^sup>2 + cos (rad lat1) * cos (rad lat2) * (sin (dlon / 2))\<^sup>2
     in 6371 * (2 * arcsin (sqrt a)))"

definition geo_speed_kmh :: "real \<Rightarrow> real \<Rightarrow> pyfloat" where
  "geo_speed_kmh distance_km time_minutes = (if time_minutes \<le> 0 then PInf else Fin (distance_km / (time_minutes / 60)))"

definition is_impossible_travel :: "real \<Rightarrow> real \<Rightarrow> bool" where
  "is_impossible_travel distance_km time_minutes =
    fl_lt (Fin impossible_travel_speed_kmh) (geo_speed_kmh distance_km time_minutes)"

section \<open>Events and the state of the generator\<close>

record event =
  gx_id :: string
  gx_user :: string
  gx_device :: string
  gx_amount :: real
  gx_currency :: string
  gx_merchant :: string
  gx_category :: string
  gx_city :: string
  gx_country :: string
  gx_lat :: real
  gx_lon :: real
  gx_ts :: int
  gx_ingested :: int
  gx_fraud :: bool
  gx_pattern :: "string option"

record place =
  pl_city :: string
  pl_lat :: real
  pl_lon :: real
  pl_ts :: int

record generator = ticker +
  gn_last :: "string \<rightharpoonup> place"
  gn_connected :: bool
  gn_sent :: "(string \<times> event) list"
  gn_total :: nat
  gn_fraud :: nat
  gn_geo_log :: "(real \<times> real) list"

type_synonym 'a gen = "(generator, 'a) state"

section \<open>Merchants and homes\<close>

definition pick_merchant_category :: "source \<Rightarrow> ('s, string) draw" where
  "pick_merchant_category src = choices src (map fst merchant_categories) (map snd merchant_categories)"

definition merchant_map :: "(string \<times> string list) list" where
  "merchant_map =
    [(''GROCERY'', [''Whole Foods'', ''Trader Joe'' @ [CHR 0x27] @ ''s'', ''Stop & Shop'', ''Market Basket'']),
     (''RESTAURANT'', [''Chipotle'', ''Panera Bread'', ''Local Kitchen'', ''Subway'']),
     (''GAS_STATION'', [''Shell'', ''BP'', ''ExxonMobil'', ''Chevron'']),
     (''RETAIL'', [''Target'', ''Walmart'', ''Macy'' @ [CHR 0x27] @ ''s'', ''H&M'']),
     (''ELECTRONICS'', [''Best Buy'', ''Apple Store'', ''Micro Center'', ''B&H Photo'']),
     (''TRAVEL'', [''Delta Airlines'', ''Marriott'', ''Airbnb'', ''United Airlines'']),
     (''ENTERTAINMENT'', [''AMC Theatres'', ''Spotify'', ''Netflix'', ''Ticketmaster'']),
     (''PHARMACY'', [''CVS'', ''Walgreens'', ''Rite Aid'', ''Duane Reade''])]"

definition generate_merchant_name :: "source \<Rightarrow> string \<Rightarrow> ('s, string) draw" where
  "generate_merchant_name src category =
    choice src (case map_of merchant_map category of Some ns \<Rightarrow> ns | None \<Rightarrow> [''Unknown Merchant''])"

definition get_home_city_data :: "source \<Rightarrow> profile \<Rightarrow> ('s, city) draw" where
  "get_home_city_data src user =
    (case find (\<lambda>c. c_name c = pf_city user) us_cities of
       Some c \<Rightarrow> State_Monad.return c
     | None \<Rightarrow> choice src us_cities)"

definition pick_device :: "source \<Rightarrow> profile \<Rightarrow> ('s, string) draw" where
  "pick_device src user = (if pf_devices user \<noteq> [] then choice src (pf_devices user) else uuid4 src)"

definition jitter :: "source \<Rightarrow> real \<Rightarrow> ('s, real) draw" where
  "jitter src x = do { j \<leftarrow> uniform src (- 0.01) 0.01; State_Monad.return (round_to 6 (x + j)) }"

definition update_last_transaction :: "string \<Rightarrow> event \<Rightarrow> unit gen" where
  "update_last_transaction uid t = do {
     s \<leftarrow> State_Monad.get;
     State_Monad.set (s\<lparr>gn_last := (gn_last s)(uid \<mapsto>
       \<lparr>pl_city = gx_city t, pl_lat = gx_lat t, pl_lon = gx_lon t, pl_ts = gx_ts t\<rparr>)\<rparr>)
   }"

section \<open>Normal transactions\<close>

definition normal_city :: "source \<Rightarrow> profile \<Rightarrow> ('s, city) draw" where
  "normal_city src user = do {
     r \<leftarrow> random_unit src;
     if r < 0.80 then get_home_city_data src user else choice src us_cities
   }"

definition generate_normal_transaction :: "source \<Rightarrow> profile \<Rightarrow> event gen" where
  "generate_normal_transaction src user = do {
     raw_amount \<leftarrow> gauss src (pf_avg user) (pf_stddev user);
     city_data \<leftarrow> normal_city src user;
     device_id \<leftarrow> pick_device src user;
     category \<leftarrow> pick_merchant_category src;
     now \<leftarrow> utcnow src;
     tid \<leftarrow> uuid4 src;
     merchant \<leftarrow> generate_merchant_name src category;
     lat \<leftarrow> jitter src (c_lat city_data);
     lon \<leftarrow> jitter src (c_lon city_data);
     let t = \<lparr>gx_id = tid, gx_user = pf_id user, gx_device = device_id, gx_amount = round_to 2 (max 1.50 raw_amount),
       gx_currency = ''USD'', gx_merchant = merchant, gx_category = category, gx_city = c_name city_data,
       gx_country = c_country city_data, gx_lat = lat, gx_lon = lon, gx_ts = now, gx_ingested = now,
       gx_fraud = False, gx_pattern = None\<rparr>;
     update_last_transaction (pf_id user) t;
     State_Monad.return t
   }"

section \<open>Fraud patterns\<close>

definition labelled_as :: "string \<Rightarrow> event \<Rightarrow> event" where
  "labelled_as p t = t\<lparr>gx_fraud := True, gx_pattern := Some p\<rparr>"

fun burst_from :: "source \<Rightarrow> profile \<Rightarrow> nat \<Rightarrow> nat \<Rightarrow> event list gen" where
  "burst_from src user i 0 = State_Monad.return []"
| "burst_from src user i (Suc n) = do {
     t \<leftarrow> generate_normal_transaction src user;
     now \<leftarrow> utcnow src;
     gap \<leftarrow> uniform src 3 12;
     let t = (labelled_as ''VELOCITY_SPIKE'' t)\<lparr>gx_ts := now + seconds (real i * gap)\<rparr>;
     ts \<leftarrow> burst_from src user (Suc i) n;
     State_Monad.return (t # ts)
   }"

definition generate_velocity_spike :: "source \<Rightarrow> profile \<Rightarrow> event list gen" where
  "generate_velocity_spike src user = do {
     n \<leftarrow> randint src (fst burst_transaction_count) (snd burst_transaction_count);
     burst_from src user 0 (nat n)
   }"

definition far_cities :: "profile \<Rightarrow> city list" where
  "far_cities user =
    (let far = filter (\<lambda>c. geo_jump_min_distance_km \<le> geo_haversine (pf_lat user) (pf_lon user) (c_lat c) (c_lon c))
                 international_cities
     in if far = [] then international_cities else far)"

definition log_geo_jump :: "real \<Rightarrow> real \<Rightarrow> unit gen" where
  "log_geo_jump distance minutes = do {
     s \<leftarrow> State_Monad.get;
     State_Monad.set (s\<lparr>gn_geo_log := gn_geo_log s @ [(distance, minutes)]\<rparr>)
   }"

text \<open>The check of the speed only decides which gap is logged.\<close>

definition geo_jump_from :: "source \<Rightarrow> profile \<Rightarrow> place \<Rightarrow> event gen" where
  "geo_jump_from src user prev = do {
     fraud_city \<leftarrow> choice src (far_cities user);
     seen \<leftarrow> utcnow src;
     let minutes = of_int (seen - pl_ts prev) / 10 ^ 6 / 60;
     let distance = geo_haversine (pl_lat prev) (pl_lon prev) (c_lat fraud_city) (c_lon fraud_city);
     let minutes = (if is_impossible_travel distance (max minutes 1) then minutes else 30);
     category \<leftarrow> pick_merchant_category src;
     now \<leftarrow> utcnow src;
     tid \<leftarrow> uuid4 src;
     device_id \<leftarrow> pick_device src user;
     raw_amount \<leftarrow> gauss src (pf_avg user) (pf_stddev user);
     merchant \<leftarrow> generate_merchant_name src category;
     lat \<leftarrow> jitter src (c_lat fraud_city);
     lon \<leftarrow> jitter src (c_lon fraud_city);
     log_geo_jump distance minutes;
     State_Monad.return \<lparr>gx_id = tid, gx_user = pf_id user, gx_device = device_id,
       gx_amount = round_to 2 raw_amount, gx_currency = ''USD'', gx_merchant = merchant, gx_category = category,
       gx_city = c_name fraud_city, gx_country = c_country fraud_city, gx_lat = lat, gx_lon = lon,
       gx_ts = now, gx_ingested = now, gx_fraud = True, gx_pattern = Some ''GEO_JUMP''\<rparr>
   }"

definition generate_geo_jump :: "source \<Rightarrow> profile \<Rightarrow> event option gen" where
  "generate_geo_jump src user = do {
     s \<leftarrow> State_Monad.get;
     case gn_last s (pf_id user) of
       None \<Rightarrow> State_Monad.return None
     | Some prev \<Rightarrow> do { t \<leftarrow> geo_jump_from src user prev; State_Monad.return (Some t) }
   }"

definition generate_new_device_fraud :: "source \<Rightarrow> profile \<Rightarrow> event gen" where
  "generate_new_device_fraud src user = do {
     new_device_id \<leftarrow> uuid4 src;
     multiplier \<leftarrow> uniform src new_device_high_amount_multiplier (new_device_high_amount_multiplier * 2.5);
     now \<leftarrow> utcnow src;
     city_data \<leftarrow> get_home_city_data src user;
     tid \<leftarrow> uuid4 src;
     merchant \<leftarrow> generate_merchant_name src ''ELECTRONICS'';
     lat \<leftarrow> jitter src (c_lat city_data);
     lon \<leftarrow> jitter src (c_lon city_data);
     State_Monad.return \<lparr>gx_id = tid, gx_user = pf_id user, gx_device = new_device_id,
       gx_amount = round_to 2 (pf_avg user * multiplier), gx_currency = ''USD'', gx_merchant = merchant,
       gx_category = ''ELECTRONICS'', gx_city = c_name city_data, gx_country = c_country city_data, gx_lat = lat, gx_lon = lon,
       gx_ts = now, gx_ingested = now, gx_fraud = True, gx_pattern = Some ''NEW_DEVICE''\<rparr>
   }"

text \<open>The three sub-patterns, which the real-time and the backfill generator share\<close>

datatype anomaly = Card_Test | Threshold_Evasion | Zscore

definition anomaly_amount :: "source \<Rightarrow> profile \<Rightarrow> anomaly \<Rightarrow> ('s, real) draw" where
  "anomaly_amount src user kind =
    (case kind of
       Card_Test \<Rightarrow> choice src card_test_amounts
     | Threshold_Evasion \<Rightarrow> choice src threshold_evasion_amounts
     | Zscore \<Rightarrow> do {
         multiplier \<leftarrow> uniform src amount_anomaly_multiplier (amount_anomaly_multiplier * 3);
         State_Monad.return (round_to 2 (pf_avg user * multiplier))
       })"

definition generate_amount_anomaly :: "source \<Rightarrow> profile \<Rightarrow> event gen" where
  "generate_amount_anomaly src user = do {
     kind \<leftarrow> choice src [Card_Test, Threshold_Evasion, Zscore];
     amount \<leftarrow> anomaly_amount src user kind;
     category \<leftarrow> pick_merchant_category src;
     now \<leftarrow> utcnow src;
     city_data \<leftarrow> get_home_city_data src user;
     tid \<leftarrow> uuid4 src;
     device_id \<leftarrow> pick_device src user;
     merchant \<leftarrow> generate_merchant_name src category;
     lat \<leftarrow> jitter src (c_lat city_data);
     lon \<leftarrow> jitter src (c_lon city_data);
     State_Monad.return \<lparr>gx_id = tid, gx_user = pf_id user, gx_device = device_id, gx_amount = amount, gx_currency = ''USD'',
       gx_merchant = merchant, gx_category = category, gx_city = c_name city_data, gx_country = c_country city_data,
       gx_lat = lat, gx_lon = lon, gx_ts = now, gx_ingested = now, gx_fraud = True, gx_pattern = Some ''AMOUNT_ANOMALY''\<rparr>
   }"

section \<open>Producing\<close>

definition index_error :: "pyexn + 'a" where
  "index_error = Inl (Exn (OtherExn ''IndexError'') ''Cannot choose from an empty sequence'')"

definition zero_division :: "pyexn + 'a" where
  "zero_division = Inl (Exn (OtherExn ''ZeroDivisionError'') ''division by zero'')"

text \<open>The producer may refuse a message, here by the number of messages it has taken.\<close>

type_synonym refusals = "nat \<Rightarrow> pyexn option"

definition hand_over :: "refusals \<Rightarrow> event \<Rightarrow> generator \<Rightarrow> (unit, generator) out" where
  "hand_over busy t s =
    (if \<not> gn_connected s then (Inl (Exn RuntimeError ''Not connected. Call connect() first.''), s)
     else case busy (length (gn_sent s)) of
       Some e \<Rightarrow> (Inl e, s)
     | None \<Rightarrow> (Inr (), s\<lparr>gn_sent := gn_sent s @ [(gx_user t, t)]\<rparr>))"

definition produce :: "refusals \<Rightarrow> event \<Rightarrow> generator \<Rightarrow> (unit, generator) out" where
  "produce busy t s =
    seq (hand_over busy t s) (\<lambda>_ s.
      (Inr (), s\<lparr>gn_total := Suc (gn_total s), gn_fraud := (if gx_fraud t then Suc (gn_fraud s) else gn_fraud s)\<rparr>))"

text \<open>\<open>_produce_batch\<close> and \<open>_flush_backfill_batch\<close>: one message after the other, then a flush\<close>

fun produce_batch :: "refusals \<Rightarrow> event list \<Rightarrow> generator \<Rightarrow> (unit, generator) out" where
  "produce_batch busy [] s = (Inr (), s)"
| "produce_batch busy (t # ts) s = seq (produce busy t s) (\<lambda>_ s. produce_batch busy ts s)"

definition connect_generator :: "generator \<Rightarrow> generator" where
  "connect_generator s = s\<lparr>gn_connected := True\<rparr>"

definition new_generator :: generator where
  "new_generator = \<lparr>tick = 0, gn_last = Map.empty, gn_connected = False, gn_sent = [], gn_total = 0, gn_fraud = 0,
     gn_geo_log = []\<rparr>"

text \<open>\<open>random.choice(self._user_ids)\<close> and the profile of that user\<close>

type_synonym user_map = "(string \<times> profile) list"

definition pick_user :: "source \<Rightarrow> user_map \<Rightarrow> generator \<Rightarrow> (profile, generator) out" where
  "pick_user src um s =
    (if um = [] then (index_error, s)
     else case run_state (choice src (map fst um)) s of
       (uid, s) \<Rightarrow> (case map_of um uid of Some u \<Rightarrow> (Inr u, s) | None \<Rightarrow> (Inl (Exn KeyError uid), s)))"

section \<open>Real time\<close>

definition generate_fraud_transaction :: "source \<Rightarrow> profile \<Rightarrow> event list option gen" where
  "generate_fraud_transaction src user = do {
     pattern \<leftarrow> choices src [''VELOCITY_SPIKE'', ''GEO_JUMP'', ''NEW_DEVICE'', ''AMOUNT_ANOMALY''] [0.25, 0.25, 0.25, 0.25];
     if pattern = ''VELOCITY_SPIKE'' then do { ts \<leftarrow> generate_velocity_spike src user; State_Monad.return (Some ts) }
     else if pattern = ''GEO_JUMP'' then do {
       t \<leftarrow> generate_geo_jump src user; State_Monad.return (map_option (\<lambda>t. [t]) t) }
     else if pattern = ''NEW_DEVICE'' then do { t \<leftarrow> generate_new_device_fraud src user; State_Monad.return (Some [t]) }
     else do { t \<leftarrow> generate_amount_anomaly src user; State_Monad.return (Some [t]) }
   }"

text \<open>What one turn of the main loop makes, and the whole turn when no other thread runs\<close>

definition next_events :: "source \<Rightarrow> user_map \<Rightarrow> generator \<Rightarrow> (event list, generator) out" where
  "next_events src um s =
    seq (pick_user src um s) (\<lambda>user s.
      case run_state (random_unit src) s of
        (r, s) \<Rightarrow>
          if r < fraud_rate
          then (case run_state (generate_fraud_transaction src user) s of
                  (Some ts, s) \<Rightarrow> (Inr ts, s)
                | (None, s) \<Rightarrow> (Inr [], s))
          else (case run_state (generate_normal_transaction src user) s of (t, s) \<Rightarrow> (Inr [t], s)))"

definition stream_turn :: "source \<Rightarrow> refusals \<Rightarrow> user_map \<Rightarrow> generator \<Rightarrow> (unit, generator) out" where
  "stream_turn src busy um s = seq (next_events src um s) (\<lambda>ts s. produce_batch busy ts s)"

text \<open>The burst of the injector thread\<close>

definition start_burst :: "source \<Rightarrow> user_map \<Rightarrow> generator \<Rightarrow> (event list, generator) out" where
  "start_burst src um s =
    seq (pick_user src um s) (\<lambda>user s. case run_state (generate_velocity_spike src user) s of (ts, s) \<Rightarrow> (Inr ts, s))"

subsection \<open>Two threads\<close>

text \<open>
  The main loop and the injector share the generator and hold no lock, so that \<open>self._total_produced += 1\<close> is a load
  and a store with the other thread's steps between them.  Where a thread is: it has events to send, and none when it
  is about to make some; it has handed one over; it has loaded or stored a counter; or it has raised.  Making
  events and handing one over are one step each.
\<close>

datatype phase =
    Sending "event list"
  | Sent event "event list"
  | Loaded_Total nat event "event list"
  | Counted event "event list"
  | Loaded_Fraud nat event "event list"
  | Raised pyexn

definition after_total :: "event \<Rightarrow> event list \<Rightarrow> phase" where
  "after_total t ts = (if gx_fraud t then Counted t ts else Sending ts)"

fun thread_step :: "(generator \<Rightarrow> (event list, generator) out) \<Rightarrow> refusals \<Rightarrow> phase \<Rightarrow> generator \<Rightarrow> phase \<times> generator" where
  "thread_step mk busy (Sending []) s = (case mk s of (Inr ts, s') \<Rightarrow> (Sending ts, s') | (Inl e, s') \<Rightarrow> (Raised e, s'))"
| "thread_step mk busy (Sending (t # ts)) s =
    (case hand_over busy t s of (Inr _, s') \<Rightarrow> (Sent t ts, s') | (Inl e, s') \<Rightarrow> (Raised e, s'))"
| "thread_step mk busy (Sent t ts) s = (Loaded_Total (gn_total s) t ts, s)"
| "thread_step mk busy (Loaded_Total n t ts) s = (after_total t ts, s\<lparr>gn_total := Suc n\<rparr>)"
| "thread_step mk busy (Counted t ts) s = (Loaded_Fraud (gn_fraud s) t ts, s)"
| "thread_step mk busy (Loaded_Fraud n t ts) s = (Sending ts, s\<lparr>gn_fraud := Suc n\<rparr>)"
| "thread_step mk busy (Raised e) s = (Raised e, s)"

fun raised :: "phase \<Rightarrow> bool" where
  "raised (Raised e) = True"
| "raised p = False"

text \<open>A step of either thread; the process ends with the main thread, the injector being a daemon.\<close>

type_synonym threads = "phase \<times> phase \<times> generator"

inductive stream_step :: "source \<Rightarrow> refusals \<Rightarrow> user_map \<Rightarrow> threads \<Rightarrow> threads \<Rightarrow> bool"
  for src busy um where
  main: "thread_step (next_events src um) busy p s = (p', s') \<Longrightarrow> \<not> raised p \<Longrightarrow> stream_step src busy um (p, q, s) (p', q, s')"
| injector: "thread_step (start_burst src um) busy q s = (q', s') \<Longrightarrow> \<not> raised p \<Longrightarrow> \<not> raised q \<Longrightarrow>
    stream_step src busy um (p, q, s) (p, q', s')"

text \<open>Both threads are about to store the same counter: one increment will be lost.\<close>

fun colliding :: "phase \<Rightarrow> phase \<Rightarrow> bool" where
  "colliding (Loaded_Total _ _ _) (Loaded_Total _ _ _) = True"
| "colliding (Loaded_Fraud _ _ _) (Loaded_Fraud _ _ _) = True"
| "colliding _ _ = False"

definition orderly_step :: "source \<Rightarrow> refusals \<Rightarrow> user_map \<Rightarrow> threads \<Rightarrow> threads \<Rightarrow> bool" where
  "orderly_step src busy um x y \<longleftrightarrow> stream_step src busy um x y \<and> (case y of (p, q, s) \<Rightarrow> \<not> colliding p q)"

definition both_start :: threads where
  "both_start = (Sending [], Sending [], connect_generator new_generator)"

section \<open>Backfill\<close>

definition random_backfill_timestamp :: "source \<Rightarrow> real \<Rightarrow> ('s, int) draw" where
  "random_backfill_timestamp src days_back = do {
     r \<leftarrow> random_unit src;
     days_offset \<leftarrow> (if r < backfill_recent_weight then uniform src 0 backfill_recent_window_days
                     else uniform src backfill_recent_window_days days_back);
     seconds_offset \<leftarrow> uniform src 0 86400;
     now \<leftarrow> utcnow src;
     State_Monad.return (now - days days_offset - seconds seconds_offset)
   }"

definition generate_normal_transaction_at :: "source \<Rightarrow> profile \<Rightarrow> int \<Rightarrow> event gen" where
  "generate_normal_transaction_at src user stamp = do {
     raw_amount \<leftarrow> gauss src (pf_avg user) (pf_stddev user);
     city_data \<leftarrow> normal_city src user;
     device_id \<leftarrow> pick_device src user;
     category \<leftarrow> pick_merchant_category src;
     tid \<leftarrow> uuid4 src;
     merchant \<leftarrow> generate_merchant_name src category;
     lat \<leftarrow> jitter src (c_lat city_data);
     lon \<leftarrow> jitter src (c_lon city_data);
     now \<leftarrow> utcnow src;
     State_Monad.return \<lparr>gx_id = tid, gx_user = pf_id user, gx_device = device_id, gx_amount = round_to 2 (max 1.50 raw_amount),
       gx_currency = ''USD'', gx_merchant = merchant, gx_category = category, gx_city = c_name city_data,
       gx_country = c_country city_data, gx_lat = lat, gx_lon = lon, gx_ts = stamp, gx_ingested = now,
       gx_fraud = False, gx_pattern = None\<rparr>
   }"

definition generate_backfill_fraud_at :: "source \<Rightarrow> profile \<Rightarrow> int \<Rightarrow> event list gen" where
  "generate_backfill_fraud_at src user stamp = do {
     pattern \<leftarrow> choices src [''GEO_JUMP'', ''NEW_DEVICE'', ''AMOUNT_ANOMALY''] [1, 1, 1];
     base_txn \<leftarrow> generate_normal_transaction_at src user stamp;
     if pattern = ''NEW_DEVICE'' then do {
       multiplier \<leftarrow> uniform src new_device_high_amount_multiplier (new_device_high_amount_multiplier * 2.5);
       device_id \<leftarrow> uuid4 src;
       State_Monad.return [labelled_as ''NEW_DEVICE'' (base_txn\<lparr>gx_device := device_id,
         gx_amount := round_to 2 (pf_avg user * multiplier), gx_category := ''ELECTRONICS''\<rparr>)]
     }
     else if pattern = ''AMOUNT_ANOMALY'' then do {
       kind \<leftarrow> choice src [Card_Test, Threshold_Evasion, Zscore];
       amount \<leftarrow> anomaly_amount src user kind;
       State_Monad.return [labelled_as ''AMOUNT_ANOMALY'' (base_txn\<lparr>gx_amount := amount\<rparr>)]
     }
     else do {
       fraud_city \<leftarrow> choice src (far_cities user);
       lat \<leftarrow> jitter src (c_lat fraud_city);
       lon \<leftarrow> jitter src (c_lon fraud_city);
       State_Monad.return [labelled_as ''GEO_JUMP'' (base_txn\<lparr>gx_city := c_name fraud_city, gx_country := c_country fraud_city,
         gx_lat := lat, gx_lon := lon\<rparr>)]
     }
   }"

fun backfill_burst_from :: "source \<Rightarrow> profile \<Rightarrow> int \<Rightarrow> nat \<Rightarrow> nat \<Rightarrow> event list gen" where
  "backfill_burst_from src user anchor i 0 = State_Monad.return []"
| "backfill_burst_from src user anchor i (Suc n) = do {
     gap \<leftarrow> uniform src 3 12;
     t \<leftarrow> generate_normal_transaction_at src user (anchor + seconds (real i * gap));
     ts \<leftarrow> backfill_burst_from src user anchor (Suc i) n;
     State_Monad.return (labelled_as ''VELOCITY_SPIKE'' t # ts)
   }"

definition generate_backfill_burst_at :: "source \<Rightarrow> profile \<Rightarrow> int \<Rightarrow> event list gen" where
  "generate_backfill_burst_at src user anchor = do {
     n \<leftarrow> randint src (fst burst_transaction_count) (snd burst_transaction_count);
     backfill_burst_from src user anchor 0 (nat n)
   }"

text \<open>The accumulators of \<open>run_backfill\<close>; the progress line divides by the target.\<close>

record backfill =
  bf_produced :: nat
  bf_fraud :: nat
  bf_budget :: nat
  bf_batch :: "event list"

definition flush_full_batch :: "refusals \<Rightarrow> int \<Rightarrow> backfill \<Rightarrow> generator \<Rightarrow> (backfill, generator) out" where
  "flush_full_batch busy target b s =
    (if backfill_kafka_batch_size \<le> length (bf_batch b)
     then seq (produce_batch busy (bf_batch b) s) (\<lambda>_ s.
       if target = 0 then (zero_division, s)
       else (Inr (b\<lparr>bf_produced := bf_produced b + length (bf_batch b), bf_batch := []\<rparr>), s))
     else (Inr b, s))"

fun add_burst :: "refusals \<Rightarrow> int \<Rightarrow> event list \<Rightarrow> backfill \<Rightarrow> generator \<Rightarrow> (backfill, generator) out" where
  "add_burst busy target [] b s = (Inr b, s)"
| "add_burst busy target (t # ts) b s =
    seq (flush_full_batch busy target
          (b\<lparr>bf_batch := bf_batch b @ [t], bf_budget := Suc (bf_budget b), bf_fraud := Suc (bf_fraud b)\<rparr>) s)
      (\<lambda>b s. add_burst busy target ts b s)"

fun backfill_bursts :: "source \<Rightarrow> refusals \<Rightarrow> user_map \<Rightarrow> int \<Rightarrow> real \<Rightarrow> nat \<Rightarrow> backfill \<Rightarrow> generator \<Rightarrow> (backfill, generator) out" where
  "backfill_bursts src busy um target days_back 0 b s = (Inr b, s)"
| "backfill_bursts src busy um target days_back (Suc n) b s =
    seq (pick_user src um s) (\<lambda>user s.
      case run_state (random_backfill_timestamp src days_back) s of
        (anchor, s) \<Rightarrow> (case run_state (generate_backfill_burst_at src user anchor) s of
          (ts, s) \<Rightarrow> seq (add_burst busy target ts b s) (\<lambda>b s. backfill_bursts src busy um target days_back n b s)))"

definition backfill_events :: "source \<Rightarrow> profile \<Rightarrow> int \<Rightarrow> (event list \<times> nat) gen" where
  "backfill_events src user stamp = do {
     r \<leftarrow> random_unit src;
     if r < fraud_rate then do { ts \<leftarrow> generate_backfill_fraud_at src user stamp; State_Monad.return (ts, length ts) }
     else do { t \<leftarrow> generate_normal_transaction_at src user stamp; State_Monad.return ([t], 0) }
   }"

fun backfill_fill :: "source \<Rightarrow> refusals \<Rightarrow> user_map \<Rightarrow> int \<Rightarrow> real \<Rightarrow> nat \<Rightarrow> backfill \<Rightarrow> generator \<Rightarrow> (backfill, generator) out" where
  "backfill_fill src busy um target days_back 0 b s = (Inr b, s)"
| "backfill_fill src busy um target days_back (Suc n) b s =
    seq (pick_user src um s) (\<lambda>user s.
      case run_state (random_backfill_timestamp src days_back) s of
        (stamp, s) \<Rightarrow> (case run_state (backfill_events src user stamp) s of
          ((ts, frauds), s) \<Rightarrow> seq (flush_full_batch busy target
              (b\<lparr>bf_batch := bf_batch b @ ts, bf_fraud := bf_fraud b + frauds\<rparr>) s)
            (\<lambda>b s. backfill_fill src busy um target days_back n b s)))"

text \<open>The last flush, and the two totals that are reported; the share of fraud divides by what was produced.\<close>

definition finish_backfill :: "refusals \<Rightarrow> backfill \<Rightarrow> generator \<Rightarrow> (nat \<times> nat, generator) out" where
  "finish_backfill busy b s =
    seq (produce_batch busy (bf_batch b) s) (\<lambda>_ s.
      let produced = bf_produced b + length (bf_batch b)
      in if produced = 0 then (zero_division, s) else (Inr (produced, bf_fraud b), s))"

definition run_backfill :: "source \<Rightarrow> refusals \<Rightarrow> user_map \<Rightarrow> int \<Rightarrow> real \<Rightarrow> int \<Rightarrow> generator \<Rightarrow> (nat \<times> nat, generator) out" where
  "run_backfill src busy um num_transactions days_back num_bursts s =
    seq (backfill_bursts src busy um num_transactions days_back (nat num_bursts)
          \<lparr>bf_produced = 0, bf_fraud = 0, bf_budget = 0, bf_batch = []\<rparr> s) (\<lambda>b s.
    seq (backfill_fill src busy um num_transactions days_back (nat (num_transactions - int (bf_budget b))) b s) (\<lambda>b s.
      finish_backfill busy b s))"

text \<open>The number of bursts that the command line passes when none is given\<close>

definition scaled_bursts :: "int \<Rightarrow> int" where
  "scaled_bursts num = max 1 (round_half_even (of_int (num * backfill_num_bursts) / of_int backfill_num_transactions))"

end
