(* ===== verification/Stream_Events.thy ===== *)
theory Stream_Events
  imports Transaction_Stream
begin

text \<open>
  What the makers of events have in common, as an interface: each returns events of its user with a
  consistent label and fresh identifiers and leaves what was sent alone.  The accounting of the
  real-time stream under any interleaving of its two threads, and of the backfill, rests on it.
\<close>

section \<open>The interface\<close>

definition quiet :: "generator \<Rightarrow> generator \<Rightarrow> bool" where
  "quiet s s' \<longleftrightarrow> gn_sent s' = gn_sent s \<and> gn_connected s' = gn_connected s \<and> gn_total s' = gn_total s \<and>
     gn_fraud s' = gn_fraud s"

lemma quiet_trans: "quiet s t \<Longrightarrow> quiet t u \<Longrightarrow> quiet s u"
  by (simp add: quiet_def)

definition fraud_labels :: "string set" where
  "fraud_labels = {''VELOCITY_SPIKE'', ''GEO_JUMP'', ''NEW_DEVICE'', ''AMOUNT_ANOMALY''}"

definition sound_event :: "profile \<Rightarrow> event \<Rightarrow> bool" where
  "sound_event user t \<longleftrightarrow> gx_user t = pf_id user \<and> gx_currency t = ''USD'' \<and>
     (case gx_pattern t of None \<Rightarrow> \<not> gx_fraud t | Some p \<Rightarrow> gx_fraud t \<and> p \<in> fraud_labels)"

locale event_maker =
  fixes src :: source and make :: "profile \<Rightarrow> 'x gen" and events :: "'x \<Rightarrow> event list"
  assumes sound: "run_state (make u) s = (x, s') \<Longrightarrow> list_all (sound_event u) (events x)"
    and keeps: "run_state (make u) s = (x, s') \<Longrightarrow> quiet s s'"
    and fresh: "run_state (make u) s = (x, s') \<Longrightarrow> minted src gx_id (tick s) (events x) (tick s')"
begin

lemma later: "run_state (make u) s = (x, s') \<Longrightarrow> tick s \<le> tick s'"
  using fresh by (blast dest: minted_le)

end

section \<open>The makers\<close>

lemmas run_helpers = normal_city_def pick_device_def pick_merchant_category_def generate_merchant_name_def jitter_def
  get_home_city_data_def update_last_transaction_def run_draws

lemma labelled_as_simps [simp]:
  "gx_id (labelled_as p t) = gx_id t" "gx_user (labelled_as p t) = gx_user t" "gx_currency (labelled_as p t) = gx_currency t"
  "gx_fraud (labelled_as p t)" "gx_pattern (labelled_as p t) = Some p" "gx_ts (labelled_as p t) = gx_ts t"
  "gx_amount (labelled_as p t) = gx_amount t" "gx_device (labelled_as p t) = gx_device t"
  by (simp_all add: labelled_as_def)

lemma sound_labelled: "sound_event u t \<Longrightarrow> p \<in> fraud_labels \<Longrightarrow> sound_event u (labelled_as p t)"
  by (simp add: sound_event_def)

lemma sound_event_update [simp]:
  "sound_event u (t\<lparr>gx_ts := x\<rparr>) = sound_event u t" "sound_event u (t\<lparr>gx_amount := a\<rparr>) = sound_event u t"
  "sound_event u (t\<lparr>gx_device := d\<rparr>) = sound_event u t" "sound_event u (t\<lparr>gx_category := c\<rparr>) = sound_event u t"
  "sound_event u (t\<lparr>gx_city := d\<rparr>) = sound_event u t" "sound_event u (t\<lparr>gx_country := c\<rparr>) = sound_event u t"
  "sound_event u (t\<lparr>gx_lat := r\<rparr>) = sound_event u t" "sound_event u (t\<lparr>gx_lon := r\<rparr>) = sound_event u t"
  by (simp_all add: sound_event_def split: option.split)

text \<open>One event: sound, quiet and with an identifier issued meanwhile\<close>

definition made :: "source \<Rightarrow> profile \<Rightarrow> generator \<Rightarrow> event list \<Rightarrow> generator \<Rightarrow> bool" where
  "made src u s ts s' \<longleftrightarrow> quiet s s' \<and> list_all (sound_event u) ts \<and> minted src gx_id (tick s) ts (tick s')"

lemma made_single:
  assumes "quiet s s' \<and> sound_event u t \<and> (\<exists>k. gx_id t = so_uuid src k \<and> tick s \<le> k \<and> k < tick s')"
  shows "made src u s [t] s'"
  using assms by (auto simp: made_def intro: minted_single)

text \<open>A computation that makes no event, and one that makes an event under an identifier issued before\<close>

definition moves :: "'x gen \<Rightarrow> bool" where
  "moves m \<longleftrightarrow> (\<forall>s. quiet s (snd (run_state m s)) \<and> tick s \<le> tick (snd (run_state m s)))"

definition completes :: "profile \<Rightarrow> string \<Rightarrow> event gen \<Rightarrow> bool" where
  "completes u tid m \<longleftrightarrow> moves m \<and> gives (\<lambda>t. gx_id t = tid \<and> sound_event u t) m"

definition issues :: "source \<Rightarrow> profile \<Rightarrow> event gen \<Rightarrow> bool" where
  "issues src u m \<longleftrightarrow> (\<forall>s t s'. run_state m s = (t, s') \<longrightarrow> made src u s [t] s')"

lemma moves_bind [intro]:
  assumes "moves m" "\<And>a. moves (f a)"
  shows "moves (m \<bind> f)"
  unfolding moves_def
proof
  fix s
  obtain a s1 where a: "run_state m s = (a, s1)" by fastforce
  have "quiet s s1" "tick s \<le> tick s1" using assms(1) a by (metis moves_def snd_conv)+
  moreover have "quiet s1 (snd (run_state (f a) s1))" "tick s1 \<le> tick (snd (run_state (f a) s1))"
    using assms(2) [of a] by (simp_all add: moves_def)
  ultimately show "quiet s (snd (run_state (m \<bind> f) s)) \<and> tick s \<le> tick (snd (run_state (m \<bind> f) s))"
    using a by (auto intro: quiet_trans)
qed

lemma moves_drawn [intro]: "moves (drawn f)"
  by (simp add: moves_def quiet_def)

lemma moves_return [intro]: "moves (State_Monad.return a)"
  by (simp add: moves_def quiet_def)

lemma moves_helpers [intro]:
  "moves (random_unit src)" "moves (uniform src a b)" "moves (gauss src a b)" "moves (randint src i j)" "moves (choice src xs)"
  "moves (choices src xs ws)" "moves (uuid4 src)" "moves (utcnow src)" "moves (pick_merchant_category src)"
  "moves (generate_merchant_name src cat)" "moves (jitter src x)" "moves (pick_device src u)" "moves (get_home_city_data src u)"
  "moves (normal_city src u)" "moves (update_last_transaction uid t)" "moves (log_geo_jump d m)"
  unfolding run_helpers
  by (auto simp: moves_def quiet_def log_geo_jump_def split: option.splits)

lemma moves_if [intro]: "moves m \<Longrightarrow> moves n \<Longrightarrow> moves (if c then m else n)"
  by simp

lemma moves_anomaly [intro]: "moves (anomaly_amount src u k)"
  unfolding anomaly_amount_def by (cases k) auto

lemma completes_bind: "moves m \<Longrightarrow> (\<And>a. completes u tid (f a)) \<Longrightarrow> completes u tid (m \<bind> f)"
  unfolding completes_def by (auto intro: gives_bind_any)

lemma completes_return: "gx_id t = tid \<Longrightarrow> sound_event u t \<Longrightarrow> completes u tid (State_Monad.return t)"
  unfolding completes_def by auto

lemma issues_bind:
  assumes "moves m" "\<And>a. issues src u (f a)"
  shows "issues src u (m \<bind> f)"
  unfolding issues_def
proof (intro allI impI)
  fix s t s'
  assume r: "run_state (m \<bind> f) s = (t, s')"
  obtain a s1 where a: "run_state m s = (a, s1)" by fastforce
  then have "made src u s1 [t] s'" using assms(2) [of a] r by (simp add: issues_def)
  moreover have "quiet s s1" "tick s \<le> tick s1" using assms(1) a by (metis moves_def snd_conv)+
  ultimately show "made src u s [t] s'" by (auto simp: made_def intro: quiet_trans minted_weaken)
qed

lemma issues_uuid:
  assumes "\<And>tid. completes u tid (f tid)"
  shows "issues src u (uuid4 src \<bind> f)"
  unfolding issues_def
proof (intro allI impI)
  fix s t s'
  assume r: "run_state (uuid4 src \<bind> f) s = (t, s')"
  let ?tid = "so_uuid src (tick s)" and ?s = "s\<lparr>tick := Suc (tick s)\<rparr>"
  have r: "run_state (f ?tid) ?s = (t, s')" using r by (simp add: uuid4_def)
  have q: "quiet ?s s'" "Suc (tick s) \<le> tick s'" and t: "gx_id t = ?tid" "sound_event u t"
    using assms [of ?tid] r gives_run [OF _ r] by (auto simp: completes_def moves_def dest!: spec [of _ ?s])
  have "quiet s s'" using q(1) by (simp add: quiet_def)
  then show "made src u s [t] s'" using q t by (intro made_single) auto
qed

lemma normal_made:
  assumes "run_state (generate_normal_transaction src u) s = (t, s')"
  shows "made src u s [t] s'"
proof -
  have "issues src u (generate_normal_transaction src u)"
    unfolding generate_normal_transaction_def Let_def
    by (rule issues_bind [OF _ issues_bind [OF _ issues_bind [OF _ issues_bind [OF _ issues_bind [OF _ issues_uuid]]]]])
      (auto intro!: completes_bind completes_return simp: sound_event_def)
  then show ?thesis using assms by (simp add: issues_def)
qed

lemma normal_at_made:
  assumes "run_state (generate_normal_transaction_at src u stamp) s = (t, s')"
  shows "made src u s [t] s'"
proof -
  have "issues src u (generate_normal_transaction_at src u stamp)"
    unfolding generate_normal_transaction_at_def
    by (rule issues_bind [OF _ issues_bind [OF _ issues_bind [OF _ issues_bind [OF _ issues_uuid]]]])
      (auto intro!: completes_bind completes_return simp: sound_event_def)
  then show ?thesis using assms by (simp add: issues_def)
qed

lemma new_device_made:
  assumes "run_state (generate_new_device_fraud src u) s = (t, s')"
  shows "made src u s [t] s'"
proof -
  have "issues src u (generate_new_device_fraud src u)"
    unfolding generate_new_device_fraud_def
    by (rule issues_bind [OF _ issues_bind [OF _ issues_bind [OF _ issues_bind [OF _ issues_uuid]]]])
      (auto intro!: completes_bind completes_return simp: sound_event_def fraud_labels_def)
  then show ?thesis using assms by (simp add: issues_def)
qed

lemma anomaly_made:
  assumes "run_state (generate_amount_anomaly src u) s = (t, s')"
  shows "made src u s [t] s'"
proof -
  have "issues src u (generate_amount_anomaly src u)"
    unfolding generate_amount_anomaly_def
    by (rule issues_bind [OF _ issues_bind [OF _ issues_bind [OF _ issues_bind [OF _ issues_bind [OF _ issues_uuid]]]]])
      (auto intro!: completes_bind completes_return simp: sound_event_def fraud_labels_def)
  then show ?thesis using assms by (simp add: issues_def)
qed

lemma geo_jump_from_made:
  assumes "run_state (geo_jump_from src u prev) s = (t, s')"
  shows "made src u s [t] s'"
proof -
  have "issues src u (geo_jump_from src u prev)"
    unfolding geo_jump_from_def Let_def
    by (rule issues_bind [OF _ issues_bind [OF _ issues_bind [OF _ issues_bind [OF _ issues_uuid]]]])
      (auto intro!: completes_bind completes_return simp: sound_event_def fraud_labels_def)
  then show ?thesis using assms by (simp add: issues_def)
qed

lemma geo_jump_cases:
  assumes "run_state (generate_geo_jump src u) s = (r, s')"
  obtains "r = None" "s' = s" | prev t where "gn_last s (pf_id u) = Some prev" "r = Some t" "run_state (geo_jump_from src u prev) s = (t, s')"
  using assms by (cases "gn_last s (pf_id u)") (auto simp: generate_geo_jump_def split: prod.splits)

lemma geo_jump_made:
  assumes "run_state (generate_geo_jump src u) s = (t, s')"
  shows "made src u s (case t of None \<Rightarrow> [] | Some t \<Rightarrow> [t]) s'"
  using assms by (rule geo_jump_cases) (auto simp: made_def quiet_def dest!: geo_jump_from_made)

lemma made_Nil: "made src u s [] s' \<longleftrightarrow> quiet s s' \<and> tick s \<le> tick s'"
  by (auto simp: made_def)

lemma made_append: "made src u s ts s1 \<Longrightarrow> made src u s1 us s' \<Longrightarrow> made src u s (ts @ us) s'"
  unfolding made_def by (auto intro: quiet_trans minted_append)

lemma made_map:
  assumes "made src u s [t] s'" "gx_id (f t) = gx_id t" "sound_event u t \<Longrightarrow> sound_event u (f t)"
  shows "made src u s [f t] s'"
  using assms by (simp add: made_def minted_def)

text \<open>Draws that make no event only move the ticker.\<close>

lemma made_draws: "quiet s s' \<Longrightarrow> tick s \<le> tick s' \<Longrightarrow> made src u s' ts t \<Longrightarrow> made src u s ts t"
  using made_append [of src u s "[]" s' ts t] by (simp add: made_Nil)

lemma made_then_draws: "made src u s ts s' \<Longrightarrow> quiet s' t \<Longrightarrow> tick s' \<le> tick t \<Longrightarrow> made src u s ts t"
  using made_append [of src u s ts s' "[]" t] by (simp add: made_Nil)

lemma quiet_ticked [simp]: "quiet s (s\<lparr>tick := k\<rparr>)" "quiet (s\<lparr>tick := j\<rparr>) (s\<lparr>tick := k\<rparr>)"
  by (simp_all add: quiet_def)

lemma burst_made:
  assumes "run_state (burst_from src u i n) s = (ts, s')"
  shows "made src u s ts s' \<and> length ts = n \<and> list_all (\<lambda>t. gx_pattern t = Some ''VELOCITY_SPIKE'') ts"
  using assms
proof (induction n arbitrary: i s ts)
  case (Suc n)
  obtain t s1 where t: "run_state (generate_normal_transaction src u) s = (t, s1)" by fastforce
  let ?t = "(labelled_as ''VELOCITY_SPIKE'' t)\<lparr>gx_ts := so_now src (tick s1) +
      seconds (real i * (3 + (12 - 3) * so_unit src (Suc (tick s1))))\<rparr>"
  obtain rest where r: "run_state (burst_from src u (Suc i) n) (s1\<lparr>tick := Suc (Suc (tick s1))\<rparr>) = (rest, s')" "ts = ?t # rest"
    using Suc.prems t by (auto simp: utcnow_def uniform_def Let_def split: prod.splits)
  have one: "made src u s [?t] s1"
    by (rule made_map [OF normal_made [OF t]]) (simp_all add: sound_labelled fraud_labels_def)
  have "made src u s1 rest s'"
    by (rule made_draws [OF quiet_ticked(1) [of s1 "Suc (Suc (tick s1))"]]) (use Suc.IH [OF r(1)] in simp_all)
  then have "made src u s ts s'" using made_append [OF one] r(2) by simp
  then show ?case using Suc.IH [OF r(1)] r(2) by simp
qed (simp add: made_def quiet_def)

lemma backfill_burst_made:
  assumes "run_state (backfill_burst_from src u anchor i n) s = (ts, s')"
  shows "made src u s ts s' \<and> length ts = n \<and> list_all (\<lambda>t. gx_pattern t = Some ''VELOCITY_SPIKE'') ts"
  using assms
proof (induction n arbitrary: i s ts)
  case (Suc n)
  let ?s = "s\<lparr>tick := Suc (tick s)\<rparr>" and ?stamp = "anchor + seconds (real i * (3 + (12 - 3) * so_unit src (tick s)))"
  obtain t s1 where t: "run_state (generate_normal_transaction_at src u ?stamp) ?s = (t, s1)" by fastforce
  obtain rest where r: "run_state (backfill_burst_from src u anchor (Suc i) n) s1 = (rest, s')" "ts = labelled_as ''VELOCITY_SPIKE'' t # rest"
    using Suc.prems t by (auto simp: uniform_def split: prod.splits)
  have "made src u ?s [labelled_as ''VELOCITY_SPIKE'' t] s1"
    by (rule made_map [OF normal_at_made [OF t]]) (simp_all add: sound_labelled fraud_labels_def)
  then have one: "made src u s [labelled_as ''VELOCITY_SPIKE'' t] s1"
    by (rule made_draws [rotated 2]) simp_all
  then have "made src u s ts s'" using made_append [OF one] Suc.IH [OF r(1)] r(2) by fastforce
  then show ?case using Suc.IH [OF r(1)] r(2) by simp
qed (simp add: made_def quiet_def)

lemma spike_made:
  assumes "run_state (generate_velocity_spike src u) s = (ts, s')"
  shows "made src u s ts s'"
proof -
  obtain n where "run_state (burst_from src u 0 n) (s\<lparr>tick := Suc (tick s)\<rparr>) = (ts, s')"
    using assms by (auto simp: generate_velocity_spike_def randint_def)
  then have "made src u (s\<lparr>tick := Suc (tick s)\<rparr>) ts s'" using burst_made by blast
  then show ?thesis by (rule made_draws [rotated 2]) simp_all
qed

lemma backfill_spike_made:
  assumes "run_state (generate_backfill_burst_at src u anchor) s = (ts, s')"
  shows "made src u s ts s'"
proof -
  obtain n where "run_state (backfill_burst_from src u anchor 0 n) (s\<lparr>tick := Suc (tick s)\<rparr>) = (ts, s')"
    using assms by (auto simp: generate_backfill_burst_at_def randint_def)
  then have "made src u (s\<lparr>tick := Suc (tick s)\<rparr>) ts s'" using backfill_burst_made by blast
  then show ?thesis by (rule made_draws [rotated 2]) simp_all
qed

text \<open>A backfilled fraud is a normal transaction at its time, altered and labelled after more draws.\<close>

lemma backfill_fraud_made:
  assumes "run_state (generate_backfill_fraud_at src u stamp) s = (ts, s')"
  shows "made src u s ts s' \<and> length ts = 1 \<and> list_all gx_fraud ts"
proof -
  let ?s = "s\<lparr>tick := Suc (tick s)\<rparr>"
  obtain t s1 where t: "run_state (generate_normal_transaction_at src u stamp) ?s = (t, s1)" by fastforce
  obtain f where f: "ts = [f t]" "quiet s1 s'" "tick s1 \<le> tick s'" "gx_id (f t) = gx_id t"
    "sound_event u t \<longrightarrow> sound_event u (f t)" "gx_fraud (f t)"
    using assms t unfolding generate_backfill_fraud_at_def anomaly_amount_def jitter_def run_draws
    by (auto simp: quiet_def sound_labelled fraud_labels_def split: if_splits anomaly.splits)
  have "made src u ?s [f t] s1" by (rule made_map [OF normal_at_made [OF t]]) (use f in simp_all)
  then have "made src u ?s ts s'" using f(1-3) by (auto intro: made_then_draws)
  then have "made src u s ts s'" by (rule made_draws [rotated 2]) simp_all
  then show ?thesis using f by simp
qed

interpretation normal: event_maker src "generate_normal_transaction src" "\<lambda>t. [t]" for src
  by unfold_locales (use normal_made in \<open>auto simp: made_def\<close>)

interpretation geo: event_maker src "generate_geo_jump src" "\<lambda>t. case t of None \<Rightarrow> [] | Some t \<Rightarrow> [t]" for src
  by unfold_locales (use geo_jump_made in \<open>auto simp: made_def\<close>)

interpretation device: event_maker src "generate_new_device_fraud src" "\<lambda>t. [t]" for src
  by unfold_locales (use new_device_made in \<open>auto simp: made_def\<close>)

interpretation anomaly: event_maker src "generate_amount_anomaly src" "\<lambda>t. [t]" for src
  by unfold_locales (use anomaly_made in \<open>auto simp: made_def\<close>)

interpretation spike: event_maker src "generate_velocity_spike src" "\<lambda>ts. ts" for src
  by unfold_locales (use spike_made in \<open>auto simp: made_def\<close>)

interpretation past: event_maker src "\<lambda>u. generate_normal_transaction_at src u stamp" "\<lambda>t. [t]" for src stamp
  by unfold_locales (use normal_at_made in \<open>auto simp: made_def\<close>)

interpretation past_fraud: event_maker src "\<lambda>u. generate_backfill_fraud_at src u stamp" "\<lambda>ts. ts" for src stamp
  by unfold_locales (use backfill_fraud_made in \<open>auto simp: made_def\<close>)

interpretation past_spike: event_maker src "\<lambda>u. generate_backfill_burst_at src u anchor" "\<lambda>ts. ts" for src anchor
  by unfold_locales (use backfill_spike_made in \<open>auto simp: made_def\<close>)

section \<open>Accounting\<close>

definition frauds :: "event list \<Rightarrow> nat" where
  "frauds ts = length (filter gx_fraud ts)"

definition spikes :: "event list \<Rightarrow> nat" where
  "spikes ts = length (filter (\<lambda>t. gx_pattern t = Some ''VELOCITY_SPIKE'') ts)"

lemma counts_simps [simp]:
  "frauds [] = 0" "frauds (ts @ us) = frauds ts + frauds us" "spikes [] = 0" "spikes (ts @ us) = spikes ts + spikes us"
  by (simp_all add: frauds_def spikes_def)

lemma counts_Cons [simp]:
  "frauds (t # ts) = (if gx_fraud t then Suc (frauds ts) else frauds ts)"
  "spikes (t # ts) = (if gx_pattern t = Some ''VELOCITY_SPIKE'' then Suc (spikes ts) else spikes ts)"
  by (simp_all add: frauds_def spikes_def)

abbreviation sent_events :: "generator \<Rightarrow> event list" where
  "sent_events s \<equiv> map snd (gn_sent s)"

text \<open>The books of the generator, with the events that are made but not sent yet\<close>

definition issued :: "source \<Rightarrow> generator \<Rightarrow> string set" where
  "issued src s = so_uuid src ` {..<tick s}"

definition booked :: "source \<Rightarrow> user_map \<Rightarrow> generator \<Rightarrow> event list \<Rightarrow> bool" where
  "booked src um s ts \<longleftrightarrow> distinct (map gx_id ts) \<and>
     list_all (\<lambda>t. gx_id t \<in> issued src s \<and> (\<exists>u\<in>snd ` set um. sound_event u t)) ts"

definition ledger :: "source \<Rightarrow> user_map \<Rightarrow> event list \<Rightarrow> generator \<Rightarrow> bool" where
  "ledger src um pend s \<longleftrightarrow>
     list_all (\<lambda>(k, t). k = gx_user t) (gn_sent s) \<and> booked src um s (sent_events s @ pend)"

definition account :: "source \<Rightarrow> user_map \<Rightarrow> event list \<Rightarrow> generator \<Rightarrow> bool" where
  "account src um pend s \<longleftrightarrow>
     gn_total s = length (gn_sent s) \<and> gn_fraud s = frauds (sent_events s) \<and> ledger src um pend s"

lemma issued_mono: "tick s \<le> tick s' \<Longrightarrow> issued src s \<subseteq> issued src s'"
  unfolding issued_def by (intro image_mono) auto

lemma minted_issued:
  assumes "minted src gx_id (tick s) ts (tick s')" "t \<in> set ts" "honest src"
  shows "gx_id t \<in> issued src s'" "gx_id t \<notin> issued src s"
proof -
  obtain ks where k: "map gx_id ts = map (so_uuid src) ks" "set ks \<subseteq> {tick s..<tick s'}"
    using assms(1) unfolding minted_def by blast
  then have "gx_id t \<in> so_uuid src ` set ks" using assms(2) by (metis image_eqI list.set_map)
  then obtain k where "gx_id t = so_uuid src k" "tick s \<le> k" "k < tick s'" using k(2) by auto
  then show "gx_id t \<in> issued src s'" "gx_id t \<notin> issued src s"
    using honestD(4) [OF assms(3)] by (auto simp: issued_def dest: injD)
qed

lemma booked_made:
  assumes "honest src" "booked src um s xs" "made src u s ts s'" "u \<in> snd ` set um"
  shows "booked src um s' (xs @ ts)"
proof -
  have m: "minted src gx_id (tick s) ts (tick s')" and g: "list_all (sound_event u) ts" using assms(3) by (simp_all add: made_def)
  have "gx_id x \<noteq> gx_id t" if "x \<in> set xs" "t \<in> set ts" for x t
    using assms(2) that minted_issued(2) [OF m that(2) assms(1)] by (auto simp: booked_def list_all_iff)
  moreover have "list_all (\<lambda>t. gx_id t \<in> issued src s' \<and> (\<exists>u\<in>snd ` set um. sound_event u t)) xs"
    using assms(2) issued_mono [OF minted_le [OF m]] by (auto simp: booked_def list_all_iff)
  moreover have "list_all (\<lambda>t. gx_id t \<in> issued src s' \<and> (\<exists>u\<in>snd ` set um. sound_event u t)) ts"
    using g assms(4) minted_issued(1) [OF m _ assms(1)] by (auto simp: list_all_iff)
  ultimately show ?thesis
    using assms(2) minted_distinct [OF assms(1) m] by (auto simp: booked_def)
qed

lemma booked_later: "booked src um s xs \<Longrightarrow> tick s \<le> tick s' \<Longrightarrow> booked src um s' xs"
  using issued_mono [of s s' src] by (auto simp: booked_def list_all_iff)

lemma ledger_made:
  assumes "honest src" "ledger src um pend s" "made src u s ts s'" "u \<in> snd ` set um"
  shows "ledger src um (pend @ ts) s'"
  using assms(2,3) booked_made [OF assms(1) _ assms(3,4), of "sent_events s @ pend"]
  by (simp add: ledger_def made_def quiet_def)

lemma ledger_draws:
  assumes "ledger src um pend s" "quiet s s'" "tick s \<le> tick s'"
  shows "ledger src um pend s'"
  using assms booked_later by (auto simp: ledger_def quiet_def)

lemma ledger_hand_over:
  assumes "ledger src um (xs @ t # ys) s" "hand_over busy t s = (Inr (), s')"
  shows "ledger src um (xs @ ys) s'" "s' = s\<lparr>gn_sent := gn_sent s @ [(gx_user t, t)]\<rparr>"
proof -
  show s': "s' = s\<lparr>gn_sent := gn_sent s @ [(gx_user t, t)]\<rparr>"
    using assms(2) by (auto simp: hand_over_def split: if_splits option.splits)
  show "ledger src um (xs @ ys) s'"
    using assms(1) by (auto simp: ledger_def s' booked_def issued_def)
qed

lemma ledger_counters [simp]:
  "ledger src um pend (s\<lparr>gn_total := n\<rparr>) = ledger src um pend s" "ledger src um pend (s\<lparr>gn_fraud := n\<rparr>) = ledger src um pend s"
  by (simp_all add: ledger_def booked_def issued_def)

lemma ledger_perm: "ledger src um (pend @ ts) s \<Longrightarrow> ledger src um (ts @ pend) s"
  unfolding ledger_def booked_def by (auto simp: list_all_iff)

lemma account_made:
  assumes "honest src" "account src um pend s" "made src u s ts s'" "u \<in> snd ` set um"
  shows "account src um (pend @ ts) s'"
  using assms(2,3) ledger_made [OF assms(1) _ assms(3,4)] by (simp add: account_def made_def quiet_def)

lemma account_draws:
  assumes "account src um pend s" "quiet s s'" "tick s \<le> tick s'"
  shows "account src um pend s'"
  using assms ledger_draws by (auto simp: account_def quiet_def)

lemma account_produce:
  assumes "account src um (t # pend) s" "produce busy t s = (Inr (), s')"
  shows "account src um pend s'" "gn_sent s' = gn_sent s @ [(gx_user t, t)]"
proof -
  obtain s1 where s1: "hand_over busy t s = (Inr (), s1)"
    "s' = s1\<lparr>gn_total := Suc (gn_total s1), gn_fraud := (if gx_fraud t then Suc (gn_fraud s1) else gn_fraud s1)\<rparr>"
    using assms(2) by (auto simp: produce_def seq_Inr_conv)
  note h = ledger_hand_over [OF _ s1(1), of src um "[]" pend]
  show "account src um pend s'" "gn_sent s' = gn_sent s @ [(gx_user t, t)]"
    using assms(1) h by (auto simp: account_def s1(2))
qed

lemma account_batch:
  assumes "account src um (ts @ pend) s" "produce_batch busy ts s = (Inr (), s')"
  shows "account src um pend s' \<and> sent_events s' = sent_events s @ ts"
  using assms
proof (induction ts arbitrary: s)
  case (Cons t ts)
  obtain s1 where p: "produce busy t s = (Inr (), s1)" "produce_batch busy ts s1 = (Inr (), s')"
    using Cons.prems(2) by (auto simp: seq_Inr_conv)
  show ?case using Cons.IH [OF _ p(2)] account_produce [of src um t "ts @ pend", OF _ p(1)] Cons.prems(1) by simp
qed simp

lemma pick_user_ok:
  assumes "pick_user src um s = (Inr u, s')"
  shows "u \<in> snd ` set um" "quiet s s'" "tick s \<le> tick s'"
  using assms by (auto simp: pick_user_def choice_def quiet_def index_error_def split: if_splits option.splits dest!: map_of_SomeD intro: rev_image_eqI)

section \<open>The real-time stream\<close>

text \<open>What a thread makes at the start of its loop\<close>

definition makes :: "source \<Rightarrow> user_map \<Rightarrow> (generator \<Rightarrow> (event list, generator) out) \<Rightarrow> bool" where
  "makes src um mk \<longleftrightarrow> (\<forall>s r s'. mk s = (r, s') \<longrightarrow> quiet s s' \<and> tick s \<le> tick s' \<and>
     (\<forall>ts. r = Inr ts \<longrightarrow> (\<exists>u\<in>snd ` set um. made src u s ts s')))"

lemma pick_user_fails: "pick_user src um s = (Inl e, s') \<Longrightarrow> quiet s s' \<and> tick s \<le> tick s'"
  by (auto simp: pick_user_def choice_def quiet_def index_error_def split: if_splits option.splits)

lemma fraud_made:
  assumes "run_state (generate_fraud_transaction src u) s = (r, s')"
  shows "made src u s (case r of None \<Rightarrow> [] | Some ts \<Rightarrow> ts) s'"
proof -
  have "made src u (s\<lparr>tick := Suc (tick s)\<rparr>) (case r of None \<Rightarrow> [] | Some ts \<Rightarrow> ts) s'"
    using assms unfolding generate_fraud_transaction_def choices_def
    by (auto split: if_splits prod.splits option.splits dest!: spike_made geo_jump_made new_device_made anomaly_made)
  then show ?thesis by (rule made_draws [rotated 2]) simp_all
qed

lemma made_moves: "made src u s ts s' \<Longrightarrow> quiet s s' \<and> tick s \<le> tick s'"
  by (auto simp: made_def dest: minted_le)

lemma makes_after_pick:
  assumes "\<And>u s. case f u s of (r, s') \<Rightarrow> \<exists>ts. r = Inr ts \<and> made src u s ts s'"
  shows "makes src um (\<lambda>s. seq (pick_user src um s) f)"
  unfolding makes_def
proof (intro allI impI)
  fix s r s'
  assume r: "seq (pick_user src um s) f = (r, s')"
  obtain x s1 where p: "pick_user src um s = (x, s1)" by fastforce
  show "quiet s s' \<and> tick s \<le> tick s' \<and> (\<forall>ts. r = Inr ts \<longrightarrow> (\<exists>u\<in>snd ` set um. made src u s ts s'))"
  proof (cases x)
    case (Inl e)
    then show ?thesis using r p pick_user_fails [of src um s e s1] by auto
  next
    case (Inr u)
    then obtain ts where t: "r = Inr ts" "made src u s1 ts s'"
      using r p assms [of u s1] by (auto simp:  split: prod.splits)
    note k = pick_user_ok [OF p [unfolded Inr]]
    have "made src u s ts s'" by (rule made_draws [OF k(2,3) t(2)])
    then show ?thesis using made_moves [of src u s ts s'] k(1) t(1) by auto
  qed
qed

lemma next_events_makes: "makes src um (next_events src um)"
  unfolding next_events_def
proof (rule makes_after_pick)
  fix u and s :: generator
  let ?s = "s\<lparr>tick := Suc (tick s)\<rparr>"
  have later: "made src u ?s ts s' \<Longrightarrow> made src u s ts s'" for ts s' by (erule made_draws [rotated 2]) simp_all
  obtain r s1 where f: "run_state (generate_fraud_transaction src u) ?s = (r, s1)" by fastforce
  obtain t s2 where n: "run_state (generate_normal_transaction src u) ?s = (t, s2)" by fastforce
  show "case (case run_state (random_unit src) s of (r, s) \<Rightarrow>
      if r < fraud_rate then (case run_state (generate_fraud_transaction src u) s of (Some ts, s) \<Rightarrow> (Inr ts, s) | (None, s) \<Rightarrow> (Inr [], s))
      else (case run_state (generate_normal_transaction src u) s of (t, s) \<Rightarrow> (Inr [t], s))) of
    (r, s') \<Rightarrow> \<exists>ts. r = Inr ts \<and> made src u s ts s'"
    using later [OF fraud_made [OF f]] later [OF normal_made [OF n]] f n by (cases r) (simp_all add: random_unit_def)
qed

lemma start_burst_makes: "makes src um (start_burst src um)"
  unfolding start_burst_def by (rule makes_after_pick) (auto split: prod.splits dest: spike_made)

definition coherent :: "user_map \<Rightarrow> bool" where
  "coherent um \<longleftrightarrow> list_all (\<lambda>(k, u). pf_id u = k) um"

lemma account_start: "account src um [] (connect_generator new_generator)"
  by (simp add: account_def ledger_def booked_def connect_generator_def new_generator_def)

lemma ledger_facts:
  assumes "ledger src um pend s" "coherent um"
  shows "distinct (map gx_id (sent_events s))"
    "list_all (\<lambda>(k, t). gx_user t = k \<and> k \<in> fst ` set um \<and> (gx_fraud t \<longleftrightarrow> gx_pattern t \<noteq> None) \<and>
       set_option (gx_pattern t) \<subseteq> fraud_labels) (gn_sent s)"
proof -
  show "distinct (map gx_id (sent_events s))"
    using assms(1) by (simp_all add: ledger_def booked_def)
  have "gx_user t = k \<and> k \<in> fst ` set um \<and> (gx_fraud t \<longleftrightarrow> gx_pattern t \<noteq> None) \<and> set_option (gx_pattern t) \<subseteq> fraud_labels"
    if "(k, t) \<in> set (gn_sent s)" for k t
  proof -
    have "k = gx_user t" using assms(1) that by (auto simp: ledger_def list_all_iff)
    moreover have "t \<in> set (sent_events s)" using that by (auto intro: rev_image_eqI)
    then have "\<exists>u\<in>snd ` set um. sound_event u t"
      using assms(1) unfolding ledger_def booked_def list_all_iff by (metis UnI1 set_append)
    then obtain j u where "(j, u) \<in> set um" and e: "sound_event u t" by auto
    then have "pf_id u = j" "pf_id u \<in> fst ` set um" using assms(2) by (auto simp: coherent_def list_all_iff intro: rev_image_eqI)
    ultimately show ?thesis using e by (cases "gx_pattern t") (auto simp: sound_event_def)
  qed
  then show "list_all (\<lambda>(k, t). gx_user t = k \<and> k \<in> fst ` set um \<and> (gx_fraud t \<longleftrightarrow> gx_pattern t \<noteq> None) \<and>
       set_option (gx_pattern t) \<subseteq> fraud_labels) (gn_sent s)"
    by (auto simp: list_all_iff)
qed

subsection \<open>What the threads owe\<close>

fun pending :: "phase \<Rightarrow> event list" where
  "pending (Sending ts) = ts"
| "pending (Sent t ts) = ts"
| "pending (Loaded_Total n t ts) = ts"
| "pending (Counted t ts) = ts"
| "pending (Loaded_Fraud n t ts) = ts"
| "pending (Raised e) = []"

text \<open>Increments that a thread has still to make for the message it has handed over, and the values it has loaded\<close>

fun owed :: "phase \<Rightarrow> nat" where
  "owed (Sent t ts) = 1"
| "owed (Loaded_Total n t ts) = 1"
| "owed _ = 0"

fun owed_fraud :: "phase \<Rightarrow> nat" where
  "owed_fraud (Sent t ts) = frauds [t]"
| "owed_fraud (Loaded_Total n t ts) = frauds [t]"
| "owed_fraud (Counted t ts) = 1"
| "owed_fraud (Loaded_Fraud n t ts) = 1"
| "owed_fraud _ = 0"

fun loaded :: "phase \<Rightarrow> nat set" where
  "loaded (Loaded_Total n t ts) = {n}"
| "loaded _ = {}"

fun loaded_fraud :: "phase \<Rightarrow> nat set" where
  "loaded_fraud (Loaded_Fraud n t ts) = {n}"
| "loaded_fraud _ = {}"

definition behind :: "phase \<Rightarrow> phase \<Rightarrow> generator \<Rightarrow> bool" where
  "behind p q s \<longleftrightarrow>
     (\<forall>n\<in>insert (gn_total s) (loaded p \<union> loaded q). n + owed p + owed q \<le> length (gn_sent s)) \<and>
     (\<forall>n\<in>insert (gn_fraud s) (loaded_fraud p \<union> loaded_fraud q). n + owed_fraud p + owed_fraud q \<le> frauds (sent_events s))"

definition square :: "phase \<Rightarrow> phase \<Rightarrow> generator \<Rightarrow> bool" where
  "square p q s \<longleftrightarrow> \<not> colliding p q \<and>
     gn_total s + owed p + owed q = length (gn_sent s) \<and> loaded p \<union> loaded q \<subseteq> {gn_total s} \<and>
     gn_fraud s + owed_fraud p + owed_fraud q = frauds (sent_events s) \<and> loaded_fraud p \<union> loaded_fraud q \<subseteq> {gn_fraud s}"

lemma colliding_sym: "colliding p q = colliding q p"
  by (cases p; cases q) simp_all

lemma behind_sym: "behind p q s = behind q p s"
  by (simp add: behind_def Un_commute ac_simps)

lemma square_sym: "square p q s = square q p s"
  by (simp add: square_def colliding_sym Un_commute ac_simps)

text \<open>One step of a thread, case by case\<close>

lemma thread_cases [consumes 2, case_names made failed handed kept]:
  assumes "thread_step mk busy p s = (p', s')" "makes src um mk"
  obtains u ts where "p = Sending []" "p' = Sending ts" "made src u s ts s'" "u \<in> snd ` set um"
    | e where "p' = Raised e" "quiet s s'" "tick s \<le> tick s'" "owed p = 0" "owed_fraud p = 0"
    | t ts where "p = Sending (t # ts)" "p' = Sent t ts" "hand_over busy t s = (Inr (), s')"
    | "\<And>us. p \<noteq> Sending us" "pending p' = pending p" "gn_sent s' = gn_sent s" "\<And>src um xs. ledger src um xs s \<Longrightarrow> ledger src um xs s'"
proof (cases p)
  case (Sending us)
  show ?thesis
  proof (cases us)
    case Nil
    obtain r s1 where r: "mk s = (r, s1)" by fastforce
    then have m: "quiet s s1 \<and> tick s \<le> tick s1 \<and> (\<forall>ts. r = Inr ts \<longrightarrow> (\<exists>u\<in>snd ` set um. made src u s ts s1))"
      using assms(2) by (simp add: makes_def)
    show ?thesis
    proof (cases r)
      case (Inl e)
      then show ?thesis using assms(1) Sending Nil r m that(2) [of e] by simp
    next
      case (Inr ts)
      then show ?thesis using assms(1) Sending Nil r m that(1) [of ts] by auto
    qed
  next
    case (Cons t ts)
    obtain r s1 where r: "hand_over busy t s = (r, s1)" by fastforce
    show ?thesis
    proof (cases r)
      case (Inl e)
      then have "s1 = s" using r by (auto simp: hand_over_def split: if_splits option.splits)
      then show ?thesis using assms(1) Sending Cons r Inl that(2) [of e] by (simp add: quiet_def)
    next
      case (Inr x)
      then show ?thesis using assms(1) Sending Cons r that(3) [of t ts] by simp
    qed
  qed
next
  case (Raised e)
  then show ?thesis using assms(1) Raised that(2) [of e] by (auto simp: quiet_def)
qed (use assms(1) that(4) in \<open>auto simp: after_total_def split: if_splits\<close>)

lemma ledger_drop: "ledger src um (xs @ ys) s \<Longrightarrow> ledger src um ys s"
  unfolding ledger_def booked_def by auto

lemma thread_ledger:
  assumes "thread_step mk busy p s = (p', s')" "makes src um mk" "honest src" "ledger src um (pending p @ xs) s"
  shows "ledger src um (pending p' @ xs) s'"
  using assms(1,2)
proof (cases rule: thread_cases)
  case (made u ts)
  then show ?thesis using ledger_perm [OF ledger_made [OF assms(3) _ made(3,4)]] assms(4) by simp
next
  case (failed e)
  then show ?thesis using ledger_draws [OF ledger_drop [OF assms(4)]] by simp
next
  case (handed t ts)
  then show ?thesis using ledger_hand_over(1) [OF _ handed(3), of src um "[]"] assms(4) by simp
next
  case kept
  then show ?thesis using assms(4) by simp
qed

lemma thread_quiet:
  assumes "quiet s s'" "owed p = 0" "owed_fraud p = 0" "p' = Sending ts \<or> p' = Raised e"
  shows "behind p q s \<Longrightarrow> behind p' q s'" "square p q s \<Longrightarrow> square p' q s'"
  using assms by (auto simp: behind_def square_def quiet_def)

lemma thread_behind:
  assumes "thread_step mk busy p s = (p', s')" "makes src um mk" "behind p q s"
  shows "behind p' q s'"
proof (cases p)
  case (Sent t ts)
  then show ?thesis using assms by (auto simp: behind_def)
next
  case (Loaded_Total n t ts)
  then show ?thesis using assms by (cases "gx_fraud t") (auto simp: behind_def after_total_def)
next
  case (Counted t ts)
  then show ?thesis using assms by (auto simp: behind_def)
next
  case (Loaded_Fraud n t ts)
  then show ?thesis using assms by (auto simp: behind_def)
next
  case (Sending us)
  from assms(1,2) show ?thesis
  proof (cases rule: thread_cases)
    case (handed t ts)
    then show ?thesis using assms(3) ledger_hand_over(2) by (auto simp: behind_def hand_over_def split: if_splits option.splits)
  next
    case kept
    then show ?thesis using Sending by blast
  next
    case (made u ts)
    have "quiet s s'" "owed p = 0" "owed_fraud p = 0" using made_moves [OF made(3)] made(1) by simp_all
    then show ?thesis using assms(3) made(2) by (intro thread_quiet(1) [of s s' p p' ts]) simp_all
  next
    case (failed e)
    then show ?thesis using assms(3) by (intro thread_quiet(1) [of s s' p p' _ e]) simp_all
  qed
qed (use assms in auto)

lemma thread_square:
  assumes "thread_step mk busy p s = (p', s')" "makes src um mk" "square p q s" "\<not> colliding p' q"
  shows "square p' q s'"
proof (cases p)
  case (Sent t ts)
  then show ?thesis using assms by (auto simp: square_def)
next
  case (Loaded_Total n t ts)
  then have "loaded q = {}" using assms(3) by (cases q) (auto simp: square_def)
  then show ?thesis using assms Loaded_Total by (cases "gx_fraud t") (auto simp: square_def after_total_def)
next
  case (Counted t ts)
  then show ?thesis using assms by (auto simp: square_def)
next
  case (Loaded_Fraud n t ts)
  then have "loaded_fraud q = {}" using assms(3) by (cases q) (auto simp: square_def)
  then show ?thesis using assms Loaded_Fraud by (auto simp: square_def)
next
  case (Sending us)
  from assms(1,2) show ?thesis
  proof (cases rule: thread_cases)
    case (handed t ts)
    then show ?thesis using assms(3,4) by (auto simp: square_def hand_over_def split: if_splits option.splits)
  next
    case kept
    then show ?thesis using Sending by blast
  next
    case (made u ts)
    have "quiet s s'" "owed p = 0" "owed_fraud p = 0" using made_moves [OF made(3)] made(1) by simp_all
    then show ?thesis using assms(3) made(2) by (intro thread_quiet(2) [of s s' p p' ts]) simp_all
  next
    case (failed e)
    then show ?thesis using assms(3) by (intro thread_quiet(2) [of s s' p p' _ e]) simp_all
  qed
qed (use assms in auto)

lemmas makers = next_events_makes start_burst_makes

lemma step_books:
  assumes "stream_step src busy um (p, q, s) (p', q', s')" "honest src"
    and "ledger src um (pending p @ pending q) s" "behind p q s"
  shows "ledger src um (pending p' @ pending q') s' \<and> behind p' q' s'"
  using assms(1)
proof (cases rule: stream_step.cases)
  case main
  then show ?thesis
    using thread_ledger [OF main(2) makers(1) assms(2,3)] thread_behind [OF main(2) makers(1) assms(4)] by simp
next
  case injector
  have "ledger src um (pending q @ pending p) s" "behind q p s" using assms(3,4) by (simp_all add: ledger_perm behind_sym)
  then show ?thesis
    using thread_ledger [OF injector(2) makers(2) assms(2)] thread_behind [OF injector(2) makers(2)] injector(1)
    by (simp add: ledger_perm behind_sym)
qed

lemma step_square:
  assumes "orderly_step src busy um (p, q, s) (p', q', s')" "square p q s"
  shows "square p' q' s'"
proof -
  have st: "stream_step src busy um (p, q, s) (p', q', s')" and c: "\<not> colliding p' q'"
    using assms(1) by (simp_all add: orderly_step_def)
  from st show ?thesis
  proof (cases rule: stream_step.cases)
    case main
    then show ?thesis using thread_square [OF main(2) makers(1) assms(2)] c by simp
  next
    case injector
    then show ?thesis
      using thread_square [OF injector(2) makers(2), of p] c assms(2) square_sym colliding_sym by metis
  qed
qed

lemma run_books:
  assumes "(stream_step src busy um)\<^sup>*\<^sup>* both_start (p, q, s)" "honest src"
  shows "ledger src um (pending p @ pending q) s \<and> behind p q s"
  using assms(1)
proof (induction "(p, q, s)" arbitrary: p q s rule: rtranclp_induct)
  case base
  then show ?case using account_start [of src um] by (auto simp: both_start_def account_def behind_def)
next
  case (step y)
  obtain p1 q1 s1 where y: "y = (p1, q1, s1)" by (cases y)
  show ?case using step_books step.hyps(2,3) assms(2) y by blast
qed

lemma run_square: "(orderly_step src busy um)\<^sup>*\<^sup>* both_start (p, q, s) \<Longrightarrow> square p q s"
proof (induction "(p, q, s)" arbitrary: p q s rule: rtranclp_induct)
  case base
  then show ?case using account_start [of _ "[]"] by (auto simp: both_start_def account_def square_def)
next
  case (step y)
  obtain p1 q1 s1 where y: "y = (p1, q1, s1)" by (cases y)
  show ?case using step_square step.hyps(2,3) y by blast
qed

text \<open>C27: The stream keeps its books under every interleaving of the main loop and the injector, down to the
  single loads and stores of the unlocked counters: the numbers reported as produced and as fraud never exceed the
  messages handed to the producer and those of them that carry the label, every message is keyed by its event's user,
  who is in the user map, an event is labelled exactly when it names one of the four patterns, and no two messages share
  a transaction identifier.  As long as the two threads have not been about to store the same counter at once, both
  numbers are exact, up to the increments that a thread is about to make.\<close>

theorem stream_keeps_books:
  assumes "honest src" "coherent um" "(stream_step src busy um)\<^sup>*\<^sup>* both_start (p, q, s)"
  shows "gn_total s \<le> length (gn_sent s) \<and> gn_fraud s \<le> length (filter gx_fraud (map snd (gn_sent s))) \<and>
    ((orderly_step src busy um)\<^sup>*\<^sup>* both_start (p, q, s) \<longrightarrow>
      gn_total s + owed p + owed q = length (gn_sent s) \<and>
      gn_fraud s + owed_fraud p + owed_fraud q = length (filter gx_fraud (map snd (gn_sent s)))) \<and>
    distinct (map (\<lambda>(k, t). gx_id t) (gn_sent s)) \<and>
    list_all (\<lambda>(k, t). gx_user t = k \<and> k \<in> fst ` set um \<and> (gx_fraud t \<longleftrightarrow> gx_pattern t \<noteq> None) \<and>
      set_option (gx_pattern t) \<subseteq> {''VELOCITY_SPIKE'', ''GEO_JUMP'', ''NEW_DEVICE'', ''AMOUNT_ANOMALY''}) (gn_sent s)"
proof -
  have b: "ledger src um (pending p @ pending q) s" "behind p q s" using run_books [OF assms(3,1)] by simp_all
  note f = ledger_facts [OF b(1) assms(2)]
  have m: "map (\<lambda>(k, t). gx_id t) (gn_sent s) = map gx_id (sent_events s)" by auto
  have "gn_total s \<le> length (gn_sent s)" "gn_fraud s \<le> frauds (sent_events s)" using b(2) by (auto simp: behind_def)
  moreover have "gn_total s + owed p + owed q = length (gn_sent s) \<and> gn_fraud s + owed_fraud p + owed_fraud q = frauds (sent_events s)"
    if "(orderly_step src busy um)\<^sup>*\<^sup>* both_start (p, q, s)" using run_square [OF that] by (simp add: square_def)
  ultimately show ?thesis unfolding m frauds_def using f unfolding fraud_labels_def by blast
qed

text \<open>A turn of the main loop that nothing interrupts is a run of its steps.\<close>

lemma main_orderly:
  assumes "thread_step (next_events src um) busy p s = (p', s')" "\<not> raised p" "\<not> colliding p' q"
  shows "orderly_step src busy um (p, q, s) (p', q, s')"
  using main [OF assms(1,2)] assms(3) by (simp add: orderly_step_def)

lemma produce_runs:
  assumes "produce busy t s = (Inr (), s')"
  shows "(orderly_step src busy um)\<^sup>*\<^sup>* (Sending (t # ts), Sending us, s) (Sending ts, Sending us, s')"
proof -
  let ?R = "(orderly_step src busy um)\<^sup>*\<^sup>*"
  have go: "?R (p, Sending us, s1) z" if "?R (fst (thread_step (next_events src um) busy p s1), Sending us,
      snd (thread_step (next_events src um) busy p s1)) z" "\<not> raised p" for p s1 z
  proof -
    obtain p1 s2 where st: "thread_step (next_events src um) busy p s1 = (p1, s2)" by fastforce
    have "\<not> colliding p1 (Sending us)" by (cases p1) simp_all
    then have "orderly_step src busy um (p, Sending us, s1) (p1, Sending us, s2)" using main_orderly [OF st that(2)] by blast
    then show ?thesis using that(1) st by (simp add: converse_rtranclp_into_rtranclp)
  qed
  obtain s1 where s1: "hand_over busy t s = (Inr (), s1)"
    "s' = s1\<lparr>gn_total := Suc (gn_total s1), gn_fraud := (if gx_fraud t then Suc (gn_fraud s1) else gn_fraud s1)\<rparr>"
    using assms by (auto simp: produce_def seq_Inr_conv)
  show ?thesis
  proof (cases "gx_fraud t")
    case True
    show ?thesis by (rule go, rule go, rule go, rule go, rule go) (simp_all add: s1 after_total_def True)
  next
    case False
    show ?thesis by (rule go, rule go, rule go) (simp_all add: s1 after_total_def False)
  qed
qed

lemma batch_runs:
  "produce_batch busy ts s = (Inr (), s') \<Longrightarrow> (orderly_step src busy um)\<^sup>*\<^sup>* (Sending ts, Sending us, s) (Sending [], Sending us, s')"
proof (induction ts arbitrary: s)
  case (Cons t ts)
  then obtain s1 where "produce busy t s = (Inr (), s1)" "produce_batch busy ts s1 = (Inr (), s')" by (auto simp: seq_Inr_conv)
  then show ?case using Cons.IH [of s1] produce_runs [of busy t s s1 src um ts us] by auto
qed simp

lemma turn_runs:
  assumes "stream_turn src busy um s = (Inr (), s')"
  shows "(orderly_step src busy um)\<^sup>*\<^sup>* (Sending [], Sending us, s) (Sending [], Sending us, s')"
proof -
  obtain ts s1 where s1: "next_events src um s = (Inr ts, s1)" "produce_batch busy ts s1 = (Inr (), s')"
    using assms by (auto simp: stream_turn_def seq_Inr_conv)
  have "orderly_step src busy um (Sending [], Sending us, s) (Sending ts, Sending us, s1)"
    by (rule main_orderly) (simp_all add: s1)
  then show ?thesis using batch_runs [OF s1(2)] by (meson converse_rtranclp_into_rtranclp)
qed

lemma orderly_is_run: "(orderly_step src busy um)\<^sup>*\<^sup>* x y \<Longrightarrow> (stream_step src busy um)\<^sup>*\<^sup>* x y"
  by (erule rtranclp_mono [THEN predicate2D, rotated]) (auto simp: orderly_step_def)

section \<open>The backfill\<close>

definition flow :: "backfill \<Rightarrow> generator \<Rightarrow> event list" where
  "flow b s = sent_events s @ bf_batch b"

text \<open>The accumulators agree with the messages; \<open>ts\<close> are events that are made but not in the batch yet.\<close>

definition on_track :: "source \<Rightarrow> user_map \<Rightarrow> event list \<Rightarrow> backfill \<Rightarrow> generator \<Rightarrow> bool" where
  "on_track src um ts b s \<longleftrightarrow> account src um (bf_batch b @ ts) s \<and> bf_produced b = length (gn_sent s) \<and>
     bf_fraud b = frauds (flow b s)"

lemma flush_full:
  assumes "flush_full_batch busy target b s = (Inr b', s')" "on_track src um ts b s"
  shows "on_track src um ts b' s'" "flow b' s' = flow b s" "bf_budget b' = bf_budget b"
proof -
  have "on_track src um ts b' s' \<and> flow b' s' = flow b s \<and> bf_budget b' = bf_budget b"
  proof (cases "backfill_kafka_batch_size \<le> length (bf_batch b)")
    case False
    then show ?thesis using assms by (simp add: flush_full_batch_def)
  next
    case True
    then have p: "produce_batch busy (bf_batch b) s = (Inr (), s')"
      and b': "b' = b\<lparr>bf_produced := bf_produced b + length (bf_batch b), bf_batch := []\<rparr>"
      using assms(1) by (auto simp: flush_full_batch_def seq_Inr_conv zero_division_def split: if_splits)
    have a: "account src um ts s'" "sent_events s' = sent_events s @ bf_batch b"
      using account_batch [OF _ p, of src um ts] assms(2) by (simp_all add: on_track_def)
    then have "length (gn_sent s') = length (gn_sent s) + length (bf_batch b)"
      by (metis length_append length_map)
    then show ?thesis using a assms(2) by (simp add: on_track_def flow_def b')
  qed
  then show "on_track src um ts b' s'" "flow b' s' = flow b s" "bf_budget b' = bf_budget b" by simp_all
qed

lemma add_burst_track:
  assumes "add_burst busy target ts b s = (Inr b', s')" "on_track src um ts b s" "list_all gx_fraud ts"
  shows "on_track src um [] b' s' \<and> flow b' s' = flow b s @ ts \<and> bf_budget b' = bf_budget b + length ts"
  using assms
proof (induction ts arbitrary: b s)
  case (Cons t ts)
  let ?b = "b\<lparr>bf_batch := bf_batch b @ [t], bf_budget := Suc (bf_budget b), bf_fraud := Suc (bf_fraud b)\<rparr>"
  obtain b1 s1 where f: "flush_full_batch busy target ?b s = (Inr b1, s1)" "add_burst busy target ts b1 s1 = (Inr b', s')"
    using Cons.prems(1) by (auto simp: seq_Inr_conv)
  have "on_track src um ts ?b s" using Cons.prems(2,3) by (simp add: on_track_def flow_def)
  note r = flush_full [OF f(1) this]
  show ?case using Cons.IH [OF f(2) r(1)] r(2,3) Cons.prems(3) by (simp add: flow_def)
qed simp

lemma track_draws: "on_track src um ts b s \<Longrightarrow> quiet s s' \<Longrightarrow> tick s \<le> tick s' \<Longrightarrow> on_track src um ts b s'"
  using account_draws by (auto simp: on_track_def flow_def quiet_def)

lemma track_made:
  assumes "honest src" "on_track src um [] b s" "made src u s ts s'" "u \<in> snd ` set um"
  shows "on_track src um ts b s'" "flow b s' = flow b s"
  using account_made [OF assms(1) _ assms(3,4), of "bf_batch b"] assms(2,3)
  by (simp_all add: on_track_def flow_def made_def quiet_def)

lemma timestamp_moves: "moves (random_backfill_timestamp src d)"
  unfolding random_backfill_timestamp_def by (intro moves_bind moves_if moves_helpers moves_return)

lemma drawn_later:
  assumes "moves m" "run_state m s = (a, s')"
  shows "quiet s s'" "tick s \<le> tick s'"
  using assms by (metis moves_def snd_conv)+

lemma spike_list: "list_all (\<lambda>t. gx_pattern t = Some ''VELOCITY_SPIKE'') ts \<Longrightarrow> spikes ts = length ts"
  by (induction ts) auto

lemma sound_fraud: "list_all (sound_event u) ts \<Longrightarrow> list_all (\<lambda>t. gx_pattern t = Some p) ts \<Longrightarrow> list_all gx_fraud ts"
  by (auto simp: list_all_iff sound_event_def split: option.splits)

lemma backfill_spike_size:
  assumes "honest src" "run_state (generate_backfill_burst_at src u anchor) s = (ts, s')"
  shows "8 \<le> length ts \<and> length ts \<le> 10 \<and> list_all (\<lambda>t. gx_pattern t = Some ''VELOCITY_SPIKE'') ts"
proof -
  obtain n s1 where n: "run_state (randint src 8 10) s = (n, s1)" "run_state (backfill_burst_from src u anchor 0 (nat n)) s1 = (ts, s')"
    using assms(2) by (auto simp: generate_backfill_burst_at_def burst_transaction_count_def split: prod.splits)
  then have "8 \<le> n" "n \<le> 10" using gives_run [OF randint_gives [OF assms(1), of 8 10] n(1)] by simp_all
  then show ?thesis using backfill_burst_made [OF n(2)] by auto
qed

lemma backfill_bursts_track:
  assumes "backfill_bursts src busy um target d n b s = (Inr b', s')" "on_track src um [] b s" "honest src"
  shows "on_track src um [] b' s' \<and> (\<exists>xs. flow b' s' = flow b s @ xs \<and> bf_budget b' = bf_budget b + length xs \<and>
    spikes xs = length xs \<and> 8 * n \<le> length xs \<and> length xs \<le> 10 * n)"
  using assms(1,2)
proof (induction n arbitrary: b s)
  case (Suc n)
  obtain u s1 where u: "pick_user src um s = (Inr u, s1)" using Suc.prems(1) by (auto simp: seq_Inr_conv)
  obtain anchor s2 where a: "run_state (random_backfill_timestamp src d) s1 = (anchor, s2)" by fastforce
  obtain ts s3 where g: "run_state (generate_backfill_burst_at src u anchor) s2 = (ts, s3)" by fastforce
  obtain b1 s4 where r: "add_burst busy target ts b s3 = (Inr b1, s4)" "backfill_bursts src busy um target d n b1 s4 = (Inr b', s')"
    using Suc.prems(1) u a g by (auto simp: seq_Inr_conv)
  note m = backfill_spike_made [OF g] and z = backfill_spike_size [OF assms(3) g]
  have "on_track src um [] b s2"
    using track_draws [OF track_draws [OF Suc.prems(2) pick_user_ok(2,3) [OF u]] drawn_later [OF timestamp_moves a]] .
  note t = track_made [OF assms(3) this m pick_user_ok(1) [OF u]]
  have f: "list_all gx_fraud ts" using sound_fraud m z unfolding made_def by blast
  note ab = add_burst_track [OF r(1) t(1) f]
  obtain xs where x: "flow b' s' = flow b1 s4 @ xs" "bf_budget b' = bf_budget b1 + length xs" "spikes xs = length xs"
    "8 * n \<le> length xs" "length xs \<le> 10 * n" "on_track src um [] b' s'"
    using Suc.IH [OF r(2)] ab by blast
  have same: "flow b s3 = flow b s"
    using t(2) pick_user_ok(2) [OF u] drawn_later(1) [OF timestamp_moves a] by (simp add: flow_def quiet_def)
  show ?case
    using x ab same z spike_list [of ts] by (intro conjI exI [of _ "ts @ xs"]) auto
qed (auto intro: exI [of _ "[]"])

lemma backfill_fraud_pattern:
  assumes "run_state (generate_backfill_fraud_at src u stamp) s = (ts, s')"
  shows "spikes ts = 0"
  using assms unfolding generate_backfill_fraud_at_def
  by (auto split: if_splits prod.splits)

lemma normal_unlabelled:
  assumes "run_state (generate_normal_transaction_at src u stamp) s = (t, s')"
  shows "\<not> gx_fraud t \<and> gx_pattern t = None"
  using assms unfolding generate_normal_transaction_at_def by (auto split: prod.splits)

lemma backfill_events_made:
  assumes "run_state (backfill_events src u stamp) s = ((ts, k), s')"
  shows "made src u s ts s'" "length ts = 1" "k = frauds ts" "spikes ts = 0"
proof -
  let ?s = "s\<lparr>tick := Suc (tick s)\<rparr>"
  have "made src u ?s ts s' \<and> length ts = 1 \<and> k = frauds ts \<and> spikes ts = 0"
  proof (cases "so_unit src (tick s) < fraud_rate")
    case True
    then have g: "run_state (generate_backfill_fraud_at src u stamp) ?s = (ts, s')" "k = length ts"
      using assms by (auto simp: backfill_events_def random_unit_def split: prod.splits)
    have "frauds us = length us" if "list_all gx_fraud us" for us using that by (induction us) auto
    then show ?thesis using backfill_fraud_made [OF g(1)] backfill_fraud_pattern [OF g(1)] g(2) by simp
  next
    case False
    then obtain t where g: "run_state (generate_normal_transaction_at src u stamp) ?s = (t, s')" "ts = [t]" "k = 0"
      using assms by (auto simp: backfill_events_def random_unit_def split: prod.splits)
    then show ?thesis using normal_at_made [OF g(1)] normal_unlabelled [OF g(1)] by simp
  qed
  then show "made src u s ts s'" "length ts = 1" "k = frauds ts" "spikes ts = 0"
    by (auto intro: made_draws [rotated 2])
qed

lemma backfill_fill_track:
  assumes "backfill_fill src busy um target d n b s = (Inr b', s')" "on_track src um [] b s" "honest src"
  shows "on_track src um [] b' s' \<and> (\<exists>xs. flow b' s' = flow b s @ xs \<and> length xs = n \<and> spikes xs = 0)"
  using assms(1,2)
proof (induction n arbitrary: b s)
  case (Suc n)
  obtain u s1 where u: "pick_user src um s = (Inr u, s1)" using Suc.prems(1) by (auto simp: seq_Inr_conv)
  obtain stamp s2 where a: "run_state (random_backfill_timestamp src d) s1 = (stamp, s2)" by fastforce
  obtain ts k s3 where g: "run_state (backfill_events src u stamp) s2 = ((ts, k), s3)" by (metis prod.collapse)
  let ?b = "b\<lparr>bf_batch := bf_batch b @ ts, bf_fraud := bf_fraud b + k\<rparr>"
  obtain b1 s4 where r: "flush_full_batch busy target ?b s3 = (Inr b1, s4)" "backfill_fill src busy um target d n b1 s4 = (Inr b', s')"
    using Suc.prems(1) u a g by (auto simp: seq_Inr_conv)
  have "on_track src um [] b s2"
    using track_draws [OF track_draws [OF Suc.prems(2) pick_user_ok(2,3) [OF u]] drawn_later [OF timestamp_moves a]] .
  note t = track_made [OF assms(3) this backfill_events_made(1) [OF g] pick_user_ok(1) [OF u]]
  have "on_track src um [] ?b s3" using t backfill_events_made(3) [OF g] by (simp add: on_track_def flow_def)
  note f = flush_full [OF r(1) this]
  obtain xs where x: "on_track src um [] b' s'" "flow b' s' = flow b1 s4 @ xs" "length xs = n" "spikes xs = 0"
    using Suc.IH [OF r(2) f(1)] by blast
  have "flow ?b s3 = flow b s @ ts"
    using t(2) pick_user_ok(2) [OF u] drawn_later(1) [OF timestamp_moves a] by (simp add: flow_def quiet_def)
  then show ?case
    using x f(2) backfill_events_made(2,4) [OF g] by (intro conjI exI [of _ "ts @ xs"]) auto
qed (auto intro: exI [of _ "[]"])

lemma backfill_track:
  assumes "honest src" "run_backfill src busy um num d bursts (connect_generator new_generator) = (Inr (p, f), s')"
  obtains xs ys where "account src um [] s'" "sent_events s' = xs @ ys" "spikes xs = length xs" "spikes ys = 0"
    "8 * nat bursts \<le> length xs" "length xs \<le> 10 * nat bursts" "length ys = nat (num - int (length xs))"
    "p = length (gn_sent s')" "f = frauds (sent_events s')"
proof -
  let ?b0 = "\<lparr>bf_produced = 0, bf_fraud = 0, bf_budget = 0, bf_batch = []\<rparr>" and ?s0 = "connect_generator new_generator"
  obtain b1 s1 b2 s2 where r: "backfill_bursts src busy um num d (nat bursts) ?b0 ?s0 = (Inr b1, s1)"
    "backfill_fill src busy um num d (nat (num - int (bf_budget b1))) b1 s1 = (Inr b2, s2)"
    "finish_backfill busy b2 s2 = (Inr (p, f), s')"
    using assms(2) by (auto simp: run_backfill_def seq_Inr_conv)
  have z: "sent_events ?s0 = []" by (simp add: connect_generator_def new_generator_def)
  then have "on_track src um [] ?b0 ?s0" using account_start [of src um] by (simp add: on_track_def flow_def)
  then obtain xs where x: "on_track src um [] b1 s1" "flow b1 s1 = xs" "bf_budget b1 = length xs" "spikes xs = length xs"
    "8 * nat bursts \<le> length xs" "length xs \<le> 10 * nat bursts"
    using backfill_bursts_track [OF r(1) _ assms(1)] z by (auto simp: flow_def)
  obtain ys where y: "on_track src um [] b2 s2" "flow b2 s2 = xs @ ys" "length ys = nat (num - int (length xs))" "spikes ys = 0"
    using backfill_fill_track [OF r(2) x(1) assms(1)] x(2,3) by auto
  have pb: "produce_batch busy (bf_batch b2) s2 = (Inr (), s')" and pf: "p = bf_produced b2 + length (bf_batch b2)" "f = bf_fraud b2"
    using r(3) by (auto simp: finish_backfill_def seq_Inr_conv Let_def zero_division_def split: if_splits)
  have a: "account src um [] s'" "sent_events s' = flow b2 s2"
    using account_batch [OF _ pb, of src um "[]"] y(1) by (simp_all add: on_track_def flow_def)
  have "length (sent_events s') = p" unfolding a(2) pf(1) using y(1) by (simp add: flow_def on_track_def)
  then have "p = length (gn_sent s')" by simp
  then show thesis using that [OF a(1) _ x(4) y(4) x(5,6) y(3)] a(2) y(1,2) pf(2) by (simp add: on_track_def)
qed

text \<open>C28: A backfill that returns has delivered what it was asked for: every event it made has been handed
  to the producer once, the number it reports as produced is the number of messages and is the target
  or, where the bursts alone exceed the target, the size of the bursts; there are eight to ten spike
  events for each requested burst; the number it reports as fraud is the number of labelled messages;
  and no two messages share a transaction identifier.\<close>

theorem backfill_delivers:
  assumes "honest src" "run_backfill src busy um num d bursts (connect_generator new_generator) = (Inr (p, f), s')"
  shows "\<exists>n. n = length (filter (\<lambda>(k, t). gx_pattern t = Some ''VELOCITY_SPIKE'') (gn_sent s')) \<and>
    8 * nat bursts \<le> n \<and> n \<le> 10 * nat bursts \<and> int p = max num (int n) \<and>
    p = length (gn_sent s') \<and> gn_total s' = p \<and>
    f = length (filter (\<lambda>(k, t). gx_fraud t) (gn_sent s')) \<and> gn_fraud s' = f \<and>
    distinct (map (\<lambda>(k, t). gx_id t) (gn_sent s'))"
proof -
  obtain xs ys where r: "account src um [] s'" "sent_events s' = xs @ ys" "spikes xs = length xs" "spikes ys = 0"
    "8 * nat bursts \<le> length xs" "length xs \<le> 10 * nat bursts" "length ys = nat (num - int (length xs))"
    "p = length (gn_sent s')" "f = frauds (sent_events s')"
    using backfill_track [OF assms] .
  have c: "length (filter (\<lambda>(k, t). P t) ms) = length (filter P (map snd ms))" for P and ms :: "(string \<times> event) list"
    by (induction ms) auto
  have "length (filter (\<lambda>(k, t). gx_pattern t = Some ''VELOCITY_SPIKE'') (gn_sent s')) = spikes (sent_events s')"
    by (simp add: c spikes_def)
  moreover have "spikes (sent_events s') = length xs" using r(2-4) by simp
  moreover have "length (filter (\<lambda>(k, t). gx_fraud t) (gn_sent s')) = f" unfolding r(9) by (simp add: c frauds_def)
  moreover have "int p = max num (int (length xs))"
    using r(7,8) arg_cong [OF r(2), of length] by simp
  moreover have "map (\<lambda>(k, t). gx_id t) (gn_sent s') = map gx_id (sent_events s')" by auto
  then have "distinct (map (\<lambda>(k, t). gx_id t) (gn_sent s'))" using r(1) by (simp only: account_def ledger_def booked_def append_Nil2)
  ultimately show ?thesis using r(1,5,6,8,9) by (simp add: account_def)
qed

section \<open>Concrete runs\<close>

definition demo_profile :: profile where
  "demo_profile = \<lparr>pf_id = ''u1'', pf_name = ''N'', pf_city = ''Boston'', pf_country = ''US'', pf_lat = 42.36, pf_lon = - 71.06,
     pf_avg = 40, pf_stddev = 10, pf_daily = 2, pf_tier = LOW, pf_devices = [''d1'', ''d2'']\<rparr>"

definition demo_users :: user_map where
  "demo_users = [(''u1'', demo_profile)]"

lemma demo_pick: "pick_user demo_source demo_users s = (Inr demo_profile, s\<lparr>tick := Suc (tick s)\<rparr>)"
  by (simp add: pick_user_def demo_users_def choice_def demo_source_def)

lemma demo_makes: "\<exists>t s'. next_events demo_source demo_users s = (Inr [t], s') \<and> quiet s s'"
proof -
  let ?s = "s\<lparr>tick := Suc (Suc (tick s))\<rparr>"
  obtain t s1 where t: "run_state (generate_normal_transaction demo_source demo_profile) ?s = (t, s1)" by fastforce
  then have q: "quiet ?s s1" using normal_made [OF t] by (simp add: made_def)
  have "\<not> so_unit demo_source k < fraud_rate" for k by (simp add: demo_source_def fraud_rate_def)
  then show ?thesis using q t by (simp add: next_events_def demo_pick random_unit_def quiet_def)
qed

lemma demo_bursts: "\<exists>t ts s'. start_burst demo_source demo_users s = (Inr (t # ts), s') \<and> quiet s s'"
proof -
  let ?s = "s\<lparr>tick := Suc (tick s)\<rparr>"
  obtain ts s1 where t: "run_state (generate_velocity_spike demo_source demo_profile) ?s = (ts, s1)" by fastforce
  then obtain n s0 where n: "run_state (randint demo_source 8 10) ?s = (n, s0)"
    "run_state (burst_from demo_source demo_profile 0 (nat n)) s0 = (ts, s1)"
    by (auto simp: generate_velocity_spike_def burst_transaction_count_def split: prod.splits)
  have "8 \<le> n" using gives_run [OF randint_gives [OF demo_honest, of 8 10] n(1)] by simp
  then obtain u us where "ts = u # us" using burst_made [OF n(2)] by (cases ts) auto
  then show ?thesis using spike_made [OF t] t by (auto simp: start_burst_def demo_pick made_def quiet_def)
qed

lemma demo_turn:
  assumes "gn_connected s"
  shows "\<exists>s'. stream_turn demo_source (\<lambda>_. None) demo_users s = (Inr (), s') \<and> length (gn_sent s') = Suc (length (gn_sent s)) \<and>
    gn_connected s'"
proof -
  obtain t s1 where "next_events demo_source demo_users s = (Inr [t], s1)" "quiet s s1" using demo_makes by blast
  then show ?thesis using assms by (simp add: stream_turn_def produce_def hand_over_def quiet_def)
qed

lemma stream_keeps_books_witness:
  "\<exists>s. (orderly_step demo_source (\<lambda>_. None) demo_users)\<^sup>*\<^sup>* both_start (Sending [], Sending [], s) \<and>
    length (gn_sent s) = 2 \<and> gn_total s = 2 \<and> distinct (map (\<lambda>(k, t). gx_id t) (gn_sent s))"
proof -
  let ?R = "orderly_step demo_source (\<lambda>_. None) demo_users" and ?s = "connect_generator new_generator"
  obtain s1 s2 where s: "stream_turn demo_source (\<lambda>_. None) demo_users ?s = (Inr (), s1)" "length (gn_sent s1) = 1"
    "stream_turn demo_source (\<lambda>_. None) demo_users s1 = (Inr (), s2)" "length (gn_sent s2) = 2"
    using demo_turn [of ?s] demo_turn by (fastforce simp: connect_generator_def new_generator_def)
  have r: "?R\<^sup>*\<^sup>* both_start (Sending [], Sending [], s2)"
    using turn_runs [OF s(1)] turn_runs [OF s(3)] unfolding both_start_def by (rule rtranclp_trans)
  have "coherent demo_users" by (simp add: coherent_def demo_users_def demo_profile_def)
  from stream_keeps_books [OF demo_honest this orderly_is_run [OF r]] r s(4) show ?thesis by (intro exI [of _ s2]) simp
qed

text \<open>The counters do lose increments: between the main loop's load of the total and its store the injector can
  send a message and count it, and the store of the main loop forgets it.\<close>

lemma increment_lost:
  "\<exists>p q s. (stream_step demo_source (\<lambda>_. None) demo_users)\<^sup>*\<^sup>* both_start (p, q, s) \<and>
    length (gn_sent s) = 2 \<and> gn_total s = 1 \<and> owed p = 0 \<and> owed q = 0"
proof -
  let ?f = "\<lambda>_. None" and ?s = "connect_generator new_generator"
  let ?R = "(stream_step demo_source ?f demo_users)\<^sup>*\<^sup>*"
  have m: "?R (p, q, s) z" if "?R (fst (thread_step (next_events demo_source demo_users) ?f p s), q,
      snd (thread_step (next_events demo_source demo_users) ?f p s)) z" "\<not> raised p" for p q s z
    using main [OF prod.collapse [symmetric] that(2)] that(1) by (rule converse_rtranclp_into_rtranclp)
  have i: "?R (p, q, s) z" if "?R (p, fst (thread_step (start_burst demo_source demo_users) ?f q s),
      snd (thread_step (start_burst demo_source demo_users) ?f q s)) z" "\<not> raised p" "\<not> raised q" for p q s z
    using injector [OF prod.collapse [symmetric] that(2,3)] that(1) by (rule converse_rtranclp_into_rtranclp)
  obtain t s1 where t: "next_events demo_source demo_users ?s = (Inr [t], s1)" "quiet ?s s1" using demo_makes by blast
  then have c: "gn_connected s1" "gn_total s1 = 0" "gn_sent s1 = []" by (simp_all add: quiet_def connect_generator_def new_generator_def)
  let ?s1 = "s1\<lparr>gn_sent := [(gx_user t, t)]\<rparr>"
  obtain u us s2 where u: "start_burst demo_source demo_users ?s1 = (Inr (u # us), s2)" "quiet ?s1 s2" using demo_bursts by blast
  let ?s2 = "s2\<lparr>gn_sent := [(gx_user t, t), (gx_user u, u)]\<rparr>"
  have d: "gn_connected s2" "gn_total s2 = 0" "gn_sent s2 = [(gx_user t, t)]" using u(2) c by (simp_all add: quiet_def)
  have "?R both_start (Loaded_Total 0 t [], after_total u us, ?s2\<lparr>gn_total := 1\<rparr>)"
    unfolding both_start_def
    by (rule m, rule m, rule m, rule i, rule i, rule i, rule i) (simp_all add: t(1) u(1) c d hand_over_def after_total_def)
  moreover have "stream_step demo_source ?f demo_users (Loaded_Total 0 t [], after_total u us, ?s2\<lparr>gn_total := 1\<rparr>)
      (after_total t [], after_total u us, ?s2\<lparr>gn_total := 1\<rparr>)"
    by (rule main) simp_all
  ultimately have "?R both_start (after_total t [], after_total u us, ?s2\<lparr>gn_total := 1\<rparr>)" by (rule rtranclp.rtrancl_into_rtrancl)
  then show ?thesis by (intro exI conjI, assumption) (simp_all add: after_total_def)
qed

lemma demo_fill:
  assumes "gn_connected s" "length (bf_batch b) + n < backfill_kafka_batch_size"
  shows "\<exists>b' s'. backfill_fill demo_source (\<lambda>_. None) demo_users target d n b s = (Inr b', s') \<and> gn_connected s' \<and>
    length (bf_batch b') = length (bf_batch b) + n"
  using assms
proof (induction n arbitrary: b s)
  case (Suc n)
  let ?s = "s\<lparr>tick := Suc (tick s)\<rparr>"
  obtain stamp s2 where a: "run_state (random_backfill_timestamp demo_source d) ?s = (stamp, s2)" by fastforce
  obtain ts k s3 where g: "run_state (backfill_events demo_source demo_profile stamp) s2 = ((ts, k), s3)" by (metis prod.collapse)
  have c: "gn_connected s3"
    using Suc.prems(1) drawn_later(1) [OF timestamp_moves a] backfill_events_made(1) [OF g] by (simp add: quiet_def made_def)
  have "backfill_fill demo_source (\<lambda>_. None) demo_users target d (Suc n) b s =
    backfill_fill demo_source (\<lambda>_. None) demo_users target d n (b\<lparr>bf_batch := bf_batch b @ ts, bf_fraud := bf_fraud b + k\<rparr>) s3"
    using a g backfill_events_made(2) [OF g] Suc.prems(2) by (simp add: demo_pick flush_full_batch_def)
  then show ?case
    using Suc.IH [OF c, of "b\<lparr>bf_batch := bf_batch b @ ts, bf_fraud := bf_fraud b + k\<rparr>"] Suc.prems(2) backfill_events_made(2) [OF g]
    by simp
qed simp

lemma produce_accepts:
  "gn_connected s \<Longrightarrow> \<exists>s'. produce_batch (\<lambda>_. None) ts s = (Inr (), s') \<and> gn_connected s'"
proof (induction ts arbitrary: s)
  case (Cons t ts)
  obtain s1 where "produce (\<lambda>_. None) t s = (Inr (), s1)" "gn_connected s1" using Cons.prems by (simp add: produce_def hand_over_def)
  then show ?case using Cons.IH [of s1] by simp
qed simp

lemma backfill_delivers_witness:
  "\<exists>f s'. run_backfill demo_source (\<lambda>_. None) demo_users 3 30 0 (connect_generator new_generator) = (Inr (3, f), s') \<and>
    length (gn_sent s') = 3 \<and> gn_total s' = 3 \<and> distinct (map (\<lambda>(k, t). gx_id t) (gn_sent s'))"
proof -
  let ?s = "connect_generator new_generator" and ?b = "\<lparr>bf_produced = 0, bf_fraud = 0, bf_budget = 0, bf_batch = []\<rparr>"
  obtain b s1 where b: "backfill_fill demo_source (\<lambda>_. None) demo_users 3 30 3 ?b ?s = (Inr b, s1)" "gn_connected s1"
    "length (bf_batch b) = 3"
    using demo_fill [of ?s ?b 3 3 30] by (auto simp: connect_generator_def backfill_kafka_batch_size_def)
  obtain s2 where s2: "produce_batch (\<lambda>_. None) (bf_batch b) s1 = (Inr (), s2)" using produce_accepts [OF b(2)] by blast
  have "bf_batch b \<noteq> []" using b(3) by auto
  then obtain p where r: "run_backfill demo_source (\<lambda>_. None) demo_users 3 30 0 ?s = (Inr (p, bf_fraud b), s2)"
    using b s2 by (simp add: run_backfill_def finish_backfill_def Let_def)
  from backfill_delivers [OF demo_honest r] have "p = 3" "length (gn_sent s2) = 3" "gn_total s2 = 3"
    "distinct (map (\<lambda>(k, t). gx_id t) (gn_sent s2))" by auto
  then show ?thesis using r by auto
qed

end
