(* ===== verification/Velocity.thy ===== *)
theory Velocity
  imports Feature_Engine
begin

text \<open>
  The two velocity queries: \<open>stream_processing/velocity_engine.py\<close> and the one that
  \<open>feature_engine.py\<close> runs beside its main query.  A message is what \<open>from_json\<close> makes of a Kafka value:
  its fields may be missing.  Spark's windowed count behind a watermark is the parameter \<open>agg\<close>: of the messages read so
  far, in the order they were read, it gives the last count that was emitted for each window.  What is documented of it
  is \<open>counts_windows\<close>: messages less than the delay behind the latest moment read before them are counted, later
  ones may be counted or dropped.  Moments and lengths are microseconds.
\<close>

section \<open>Configuration\<close>

definition minutes :: "int \<Rightarrow> int" where
  "minutes n = n * 60 * 10 ^ 6"

definition primary_window_duration :: int where "primary_window_duration = minutes 15"
definition primary_slide_duration :: int where "primary_slide_duration = minutes 1"

definition watermark_delay :: int where "watermark_delay = minutes 10"

definition velocity_windows :: "(int \<times> int \<times> string) list" where
  "velocity_windows =
    [(minutes 5, minutes 1, ''velocity_5min''), (minutes 15, minutes 1, ''velocity_15min''),
     (minutes 60, minutes 5, ''velocity_1hr''), (minutes (24 * 60), minutes 30, ''velocity_24hr'')]"

section \<open>Messages\<close>

record message =
  ms_id :: "string option"
  ms_user :: "string option"
  ms_ts :: "int option"

text \<open>The rows each engine keeps: the feature engine also asks for the transaction's identifier.\<close>

definition parse_transactions :: "message list \<Rightarrow> message list" where
  "parse_transactions = filter (\<lambda>m. ms_id m \<noteq> None \<and> ms_user m \<noteq> None \<and> ms_ts m \<noteq> None)"

definition read_and_parse :: "message list \<Rightarrow> message list" where
  "read_and_parse = filter (\<lambda>m. ms_user m \<noteq> None \<and> ms_ts m \<noteq> None)"

section \<open>Windows\<close>

text \<open>The messages less than \<open>delay\<close> behind the latest moment read before them\<close>

fun on_time_after :: "int \<Rightarrow> int option \<Rightarrow> message list \<Rightarrow> message list" where
  "on_time_after delay hi [] = []"
| "on_time_after delay hi (m # ms) =
    (case ms_ts m of
       None \<Rightarrow> on_time_after delay hi ms
     | Some t \<Rightarrow>
        (let rest = on_time_after delay (Some (case hi of None \<Rightarrow> t | Some h \<Rightarrow> max h t)) ms
         in if case hi of None \<Rightarrow> True | Some h \<Rightarrow> h - t < delay then m # rest else rest))"

definition on_time :: "int \<Rightarrow> message list \<Rightarrow> message list" where
  "on_time delay = on_time_after delay None"

text \<open>An aggregation answers, for the watermark's delay, a duration and a slide, rows of user, window start and count.\<close>

type_synonym aggregation = "int \<Rightarrow> int \<Rightarrow> int \<Rightarrow> message list \<Rightarrow> (string \<times> int \<times> nat) list"

definition events_in :: "message list \<Rightarrow> string \<Rightarrow> int \<Rightarrow> int \<Rightarrow> message list" where
  "events_in ms u w dur = filter (\<lambda>m. ms_user m = Some u \<and> (case ms_ts m of Some t \<Rightarrow> w \<le> t \<and> t < w + dur | None \<Rightarrow> False)) ms"

definition counts_windows :: "aggregation \<Rightarrow> bool" where
  "counts_windows agg \<longleftrightarrow> (\<forall>delay dur slide ms. 0 < delay \<longrightarrow> 0 < slide \<longrightarrow>
     distinct (map (\<lambda>(u, w, n). (u, w)) (agg delay dur slide ms)) \<and>
     (\<forall>(u, w, n) \<in> set (agg delay dur slide ms). slide dvd w \<and> 0 < n \<and>
        length (events_in (on_time delay ms) u w dur) \<le> n \<and> n \<le> length (events_in ms u w dur)) \<and>
     (\<forall>u w. slide dvd w \<and> events_in (on_time delay ms) u w dur \<noteq> [] \<longrightarrow> (u, w) \<in> (\<lambda>(u, w, n). (u, w)) ` set (agg delay dur slide ms)))"

definition select_row :: "(int \<Rightarrow> string) \<Rightarrow> int \<Rightarrow> string \<times> int \<times> nat \<Rightarrow> velocity_row" where
  "select_row shw dur r = (case r of (u, w, n) \<Rightarrow>
     \<lparr>v_user = u, v_count = int n, v_start = shw w, v_end = shw (w + dur)\<rparr>)"

definition compute_velocity_window :: "aggregation \<Rightarrow> (int \<Rightarrow> string) \<Rightarrow> message list \<Rightarrow> velocity_row list" where
  "compute_velocity_window agg shw parsed_df =
    map (select_row shw primary_window_duration) (agg watermark_delay primary_window_duration primary_slide_duration parsed_df)"

definition engine_compute_velocity :: "aggregation \<Rightarrow> (int \<Rightarrow> string) \<Rightarrow> message list \<Rightarrow> velocity_row list" where
  "engine_compute_velocity agg shw parsed_df =
    map (select_row shw primary_window_duration) (agg watermark_delay primary_window_duration primary_slide_duration parsed_df)"

text \<open>The feature engine's table of all windows: one list of user, window end and count per column\<close>

definition compute_velocity :: "aggregation \<Rightarrow> message list \<Rightarrow> (string \<times> (string \<times> int \<times> nat) list) list" where
  "compute_velocity agg parsed_df =
    map (\<lambda>(dur, slide, col). (col, map (\<lambda>(u, w, n). (u, w + dur, n)) (agg watermark_delay dur slide parsed_df))) velocity_windows"

section \<open>The standalone sink\<close>

text \<open>\<open>VelocityEngine._make_sink\<close>: nothing catches a failing pipeline.\<close>

definition engine_process_batch :: "pyexn option \<Rightarrow> velocity_row list \<Rightarrow> redis \<Rightarrow> (unit, redis) out" where
  "engine_process_batch fault batch r =
    (if batch = [] then (Inr (), r)
     else case fault of
       Some e \<Rightarrow> (Inl e, r)
     | None \<Rightarrow> (Inr (), fold (\<lambda>row r. r(user_key (v_user row) ''velocity'' \<mapsto>
         Json (PDict [(''user_id'', PStr (v_user row)), (''velocity_15min'', PInt (v_count row)),
           (''window_start'', PStr (v_start row)), (''window_end'', PStr (v_end row)),
           (''is_flagged'', PBool (velocity_flag_threshold < v_count row))]))) batch r))"

text \<open>One trigger of each query, from the messages to the store\<close>

definition velocity_engine_trigger :: "aggregation \<Rightarrow> (int \<Rightarrow> string) \<Rightarrow> pyexn option \<Rightarrow> message list \<Rightarrow> redis \<Rightarrow> (unit, redis) out" where
  "velocity_engine_trigger agg shw fault raw r =
    engine_process_batch fault (engine_compute_velocity agg shw (read_and_parse raw)) r"

definition feature_velocity_trigger :: "aggregation \<Rightarrow> (int \<Rightarrow> string) \<Rightarrow> pyexn option \<Rightarrow> message list \<Rightarrow>
    engine_state \<Rightarrow> (unit, engine_state) out" where
  "feature_velocity_trigger agg shw fault raw st =
    process_velocity_batch fault (compute_velocity_window agg shw (parse_transactions raw)) st"

section \<open>Correctness\<close>

lemma engine_batch_eq:
  "engine_process_batch fault batch r =
    (case write_velocity_batch True fault batch velocity_flag_threshold r of (x, r') \<Rightarrow> (case x of Inl e \<Rightarrow> Inl e | Inr _ \<Rightarrow> Inr (), r'))"
  by (simp add: engine_process_batch_def write_velocity_batch_def velocity_payload_def split: option.split)

lemma sink_agrees:
  "(case process_velocity_batch fault batch st of (x, st') \<Rightarrow> (x, es_redis st')) = engine_process_batch fault batch (es_redis st)"
  by (cases "batch = []"; cases fault) (simp_all add: process_velocity_batch_def engine_batch_eq write_velocity_batch_def)

lemma parse_agree: "list_all (\<lambda>m. ms_id m \<noteq> None) raw \<Longrightarrow> parse_transactions raw = read_and_parse raw"
  unfolding parse_transactions_def read_and_parse_def by (induction raw) auto

text \<open>The two velocity queries are one: on messages that all carry a transaction identifier the standalone
  engine and the feature engine leave the same store and raise the same errors, whatever the windowed
  count returns, so that the duplicated code has not drifted apart.\<close>

theorem velocity_queries_agree:
  assumes "list_all (\<lambda>m. ms_id m \<noteq> None) raw"
  shows "(case feature_velocity_trigger agg shw fault raw st of (x, st') \<Rightarrow> (x, es_redis st')) =
      velocity_engine_trigger agg shw fault raw (es_redis st)"
proof -
  have "engine_compute_velocity agg shw ms = compute_velocity_window agg shw ms" for ms
    by (simp only: engine_compute_velocity_def compute_velocity_window_def)
  then show ?thesis
    unfolding feature_velocity_trigger_def velocity_engine_trigger_def parse_agree [OF assms]
    by (simp only: sink_agrees)
qed

lemma velocity_queries_agree_witness:
  "(case feature_velocity_trigger (\<lambda>_ _ _ ms. map (\<lambda>m. (the (ms_user m), the (ms_ts m), 1)) ms) (\<lambda>_. ''w'') None
      [\<lparr>ms_id = Some ''t'', ms_user = Some ''u'', ms_ts = Some 5\<rparr>] fresh_engine of (x, st') \<Rightarrow> (x, es_redis st')) =
    velocity_engine_trigger (\<lambda>_ _ _ ms. map (\<lambda>m. (the (ms_user m), the (ms_ts m), 1)) ms) (\<lambda>_. ''w'') None
      [\<lparr>ms_id = Some ''t'', ms_user = Some ''u'', ms_ts = Some 5\<rparr>] (es_redis fresh_engine)"
  by (rule velocity_queries_agree) simp

text \<open>A message without an identifier is counted by the standalone engine only.\<close>

lemma unidentified_message_counted_once:
  "ms_id m = None \<Longrightarrow> ms_user m \<noteq> None \<Longrightarrow> ms_ts m \<noteq> None \<Longrightarrow> parse_transactions [m] = [] \<and> read_and_parse [m] = [m]"
  by (simp add: parse_transactions_def read_and_parse_def)

lemma counts_windowsD:
  assumes "counts_windows agg" "0 < delay" "0 < slide"
  shows "(u, w, n) \<in> set (agg delay dur slide ms) \<Longrightarrow> length (events_in (on_time delay ms) u w dur) \<le> n"
    and "slide dvd w \<Longrightarrow> events_in (on_time delay ms) u w dur \<noteq> [] \<Longrightarrow>
      (u, w) \<in> (\<lambda>(u, w, n). (u, w)) ` set (agg delay dur slide ms)"
  using assms(1) [unfolded counts_windows_def, rule_format, OF assms(2,3), of dur ms] by blast+

lemma window_row:
  assumes "counts_windows agg" "primary_slide_duration dvd w" "events_in (on_time watermark_delay ms) u w primary_window_duration \<noteq> []"
  shows "\<exists>r\<in>set (compute_velocity_window agg shw ms). v_user r = u \<and>
    int (length (events_in (on_time watermark_delay ms) u w primary_window_duration)) \<le> v_count r"
proof -
  let ?rows = "agg watermark_delay primary_window_duration primary_slide_duration ms"
  have pos: "0 < primary_slide_duration" "0 < watermark_delay" by (simp_all add: primary_slide_duration_def watermark_delay_def minutes_def)
  have "(u, w) \<in> (\<lambda>(u, w, n). (u, w)) ` set ?rows"
    using counts_windowsD(2) [OF assms(1) pos(2) pos(1)] assms(2,3) by blast
  then obtain n where n: "(u, w, n) \<in> set ?rows" by auto
  then have le: "length (events_in (on_time watermark_delay ms) u w primary_window_duration) \<le> n"
    using counts_windowsD(1) [OF assms(1) pos(2) pos(1)] by blast
  have "select_row shw primary_window_duration (u, w, n) \<in> set (compute_velocity_window agg shw ms)"
    using n unfolding compute_velocity_window_def by (simp add: image_iff) (rule bexI [OF _ n], rule refl)
  then show ?thesis using le by (intro bexI) (auto simp: select_row_def)
qed

text \<open>Messages within less than the delay of one another are all on time; late ones need not be.\<close>

lemma on_time_after_close:
  assumes "list_all (\<lambda>m. \<exists>t. ms_ts m = Some t \<and> a \<le> t \<and> t < a + delay) ms" "\<And>h. hi = Some h \<Longrightarrow> h < a + delay"
  shows "on_time_after delay hi ms = ms"
  using assms
proof (induction ms arbitrary: hi)
  case (Cons m ms)
  then obtain t where t: "ms_ts m = Some t" "a \<le> t" "t < a + delay" by auto
  show ?case
  proof (cases hi)
    case None
    then show ?thesis using Cons.IH [of "Some t"] Cons.prems(1) t by (simp add: Let_def)
  next
    case (Some h)
    then have "h < a + delay" using Cons.prems(2) by simp
    then show ?thesis using Cons.IH [of "Some (max h t)"] Cons.prems(1) t Some by (simp add: Let_def)
  qed
qed simp

lemma on_time_close:
  "list_all (\<lambda>m. \<exists>t. ms_ts m = Some t \<and> a \<le> t \<and> t < a + delay) ms \<Longrightarrow> on_time delay ms = ms"
  unfolding on_time_def by (rule on_time_after_close) simp_all

lemma on_time_after_late:
  assumes "list_all (\<lambda>m. \<exists>t. ms_ts m = Some t \<and> t + delay \<le> h) ms" "0 < delay"
  shows "on_time_after delay (Some h) ms = []"
  using assms
proof (induction ms)
  case (Cons m ms)
  then obtain t where t: "ms_ts m = Some t" "t + delay \<le> h" by auto
  then have "max h t = h" using Cons.prems(2) by simp
  then show ?case using Cons t by (simp add: Let_def)
qed simp

lemma on_time_subseq: "subseq (on_time delay ms) ms"
proof -
  have "subseq (on_time_after delay hi ms) ms" for hi
    by (induction delay hi ms rule: on_time_after.induct) (auto simp: Let_def split: option.splits)
  then show ?thesis by (simp add: on_time_def)
qed

text \<open>Any stretch of at most fourteen minutes lies in one window.\<close>

lemma stretch_in_window:
  assumes "list_all (\<lambda>m. ms_user m = Some u \<and> (\<exists>t. ms_ts m = Some t \<and> a \<le> t \<and> t \<le> a + minutes 14)) es"
  shows "\<exists>w. primary_slide_duration dvd w \<and> events_in es u w primary_window_duration = es"
proof -
  let ?w = "a - a mod primary_slide_duration"
  have m: "0 \<le> a mod primary_slide_duration" "a mod primary_slide_duration < minutes 1"
    by (simp_all add: primary_slide_duration_def minutes_def)
  have "primary_slide_duration dvd ?w" by (simp add: minus_mod_eq_mult_div)
  moreover have "events_in es u ?w primary_window_duration = es"
    using assms m by (auto simp: events_in_def filter_id_conv list_all_iff primary_window_duration_def minutes_def)
  ultimately show ?thesis by blast
qed

lemma events_in_mono: "subseq es ms \<Longrightarrow> length (events_in es u w dur) \<le> length (events_in ms u w dur)"
  unfolding events_in_def by (rule list_emb_length [OF subseq_filter])

end
