(* ===== verification/Settings.thy ===== *)
theory Settings
  imports Py_Strings
begin

text \<open>
  \<open>settings.py\<close>: the typed configuration of the platform, read once from the environment, the
  credentials a consumer asks for before it connects, and the warehouse role of each consumer.  The
  environment after \<open>load_dotenv\<close> is a map from names to texts.
\<close>

type_synonym environment = "string \<rightharpoonup> string"

record snowflake_settings =
  sn_account :: "string option"
  sn_user :: "string option"
  sn_password :: "string option"
  sn_database :: string
  sn_warehouse :: string
  sn_pipeline_role :: string
  sn_agent_role :: string
  sn_bi_role :: string
  sn_migration_role :: string
  sn_forbidden :: "string list"

record redis_settings =
  rs_host :: string
  rs_port :: int
  rs_db :: int
  rs_ttl :: int

record weaviate_settings =
  wv_host :: string
  wv_http :: int
  wv_grpc :: int

record llm_settings =
  lm_groq :: "string option"
  lm_model :: string
  lm_langsmith :: "string option"
  lm_project :: string

record settings =
  st_snowflake :: snowflake_settings
  st_redis :: redis_settings
  st_weaviate :: weaviate_settings
  st_llm :: llm_settings

section \<open>Credentials\<close>

definition not_given :: "string option \<Rightarrow> bool" where
  "not_given x = (x = None \<or> x = Some [])"

definition missing_credentials :: "snowflake_settings \<Rightarrow> string list" where
  "missing_credentials s =
    map fst (filter (\<lambda>(k, v). not_given v)
      [(''account'', sn_account s), (''user'', sn_user s), (''password'', sn_password s)])"

text \<open>The text lists the names the way \<open>repr\<close> of a list of strings does.\<close>

definition require_credentials :: "snowflake_settings \<Rightarrow> pyexn + snowflake_settings" where
  "require_credentials s =
    (let missing = missing_credentials s; q = [CHR 0x27] in
     if missing \<noteq> []
     then Inl (Exn RuntimeError (''Missing Snowflake credentials: ['' @ join '', '' (map (\<lambda>k. q @ k @ q) missing) @
       '']. Set them in .env.''))
     else Inr s)"

definition require_groq :: "llm_settings \<Rightarrow> pyexn + string" where
  "require_groq l =
    (case lm_groq l of
       Some k \<Rightarrow> if k \<noteq> [] then Inr k
         else Inl (Exn RuntimeError ''GROQ_API_KEY not set. Add it to your .env before running agents.'')
     | None \<Rightarrow> Inl (Exn RuntimeError ''GROQ_API_KEY not set. Add it to your .env before running agents.''))"

section \<open>Roles\<close>

definition getenv :: "environment \<Rightarrow> string \<Rightarrow> string \<Rightarrow> string" where
  "getenv env name dflt = (case env name of Some v \<Rightarrow> v | None \<Rightarrow> dflt)"

definition bi_connect_role :: "environment \<Rightarrow> settings \<Rightarrow> string" where
  "bi_connect_role env s = getenv env ''BI_SNOWFLAKE_ROLE'' (sn_bi_role (st_snowflake s))"

definition agent_connect_role :: "environment \<Rightarrow> settings \<Rightarrow> string" where
  "agent_connect_role env s = getenv env ''AGENT_SNOWFLAKE_ROLE'' (sn_agent_role (st_snowflake s))"

definition pipeline_connect_role :: "environment \<Rightarrow> settings \<Rightarrow> string" where
  "pipeline_connect_role env s = getenv env ''PIPELINE_SNOWFLAKE_ROLE'' (sn_pipeline_role (st_snowflake s))"

definition migration_connect_role :: "environment \<Rightarrow> settings \<Rightarrow> string" where
  "migration_connect_role env s = getenv env ''MIGRATION_SNOWFLAKE_ROLE'' (sn_migration_role (st_snowflake s))"

section \<open>Loading\<close>

text \<open>\<open>int(raw)\<close> of a variable that is set and not empty\<close>

definition env_int :: "environment \<Rightarrow> string \<Rightarrow> int \<Rightarrow> pyexn + int" where
  "env_int env name dflt =
    (case env name of
       None \<Rightarrow> Inr dflt
     | Some raw \<Rightarrow>
        if raw = [] then Inr dflt
        else (case parse_int raw of
                Some i \<Rightarrow> Inr i
              | None \<Rightarrow> Inl (Exn ValueError (''invalid literal for int() with base 10: '' @ raw))))"

definition default_snowflake :: snowflake_settings where
  "default_snowflake =
    \<lparr>sn_account = None, sn_user = None, sn_password = None, sn_database = ''FRAUD_DETECTION'', sn_warehouse = ''COMPUTE_WH'',
     sn_pipeline_role = ''PIPELINE_ROLE'', sn_agent_role = ''AGENT_ROLE'', sn_bi_role = ''BI_ROLE'',
     sn_migration_role = ''ACCOUNTADMIN'', sn_forbidden = [''ACCOUNTADMIN'', ''ORGADMIN'', ''SECURITYADMIN'', ''SYSADMIN'']\<rparr>"

definition load :: "environment \<Rightarrow> pyexn + settings" where
  "load env =
    (let snow = default_snowflake\<lparr>sn_account := env ''SNOWFLAKE_ACCOUNT'', sn_user := env ''SNOWFLAKE_USER'',
           sn_password := env ''SNOWFLAKE_PASSWORD'', sn_database := getenv env ''SNOWFLAKE_DATABASE'' ''FRAUD_DETECTION'',
           sn_warehouse := getenv env ''SNOWFLAKE_WAREHOUSE'' ''COMPUTE_WH''\<rparr>
     in and_then (env_int env ''REDIS_PORT'' 6379) (\<lambda>port.
        and_then (env_int env ''REDIS_DB'' 0) (\<lambda>db.
        and_then (env_int env ''WEAVIATE_HTTP_PORT'' 8090) (\<lambda>http.
        and_then (env_int env ''WEAVIATE_GRPC_PORT'' 50051) (\<lambda>grpc.
          Inr \<lparr>st_snowflake = snow,
               st_redis = \<lparr>rs_host = getenv env ''REDIS_HOST'' ''localhost'', rs_port = port, rs_db = db, rs_ttl = 86400\<rparr>,
               st_weaviate = \<lparr>wv_host = getenv env ''WEAVIATE_HOST'' ''localhost'', wv_http = http, wv_grpc = grpc\<rparr>,
               st_llm = \<lparr>lm_groq = env ''GROQ_API_KEY'', lm_model = getenv env ''AGENT_LLM_MODEL'' ''openai/gpt-oss-120b'',
                 lm_langsmith = env ''LANGSMITH_API_KEY'',
                 lm_project = getenv env ''LANGSMITH_PROJECT'' ''fraud-decisioning-platform''\<rparr>\<rparr>)))))"

text \<open>\<open>lru_cache(maxsize=1)\<close>: the first successful load is kept; an exception is not cached.\<close>

definition get_settings :: "environment \<Rightarrow> settings option \<Rightarrow> (settings, settings option) out" where
  "get_settings env cache =
    (case cache of
       Some s \<Rightarrow> (Inr s, cache)
     | None \<Rightarrow> (case load env of Inl e \<Rightarrow> (Inl e, None) | Inr s \<Rightarrow> (Inr s, Some s)))"

section \<open>Correctness\<close>

definition readable_port :: "environment \<Rightarrow> string \<Rightarrow> bool" where
  "readable_port env name = (case env name of None \<Rightarrow> True | Some raw \<Rightarrow> raw = [] \<or> parse_int raw \<noteq> None)"

lemma env_int_ok: "(\<exists>i. env_int env name d = Inr i) \<longleftrightarrow> readable_port env name"
  by (auto simp: env_int_def readable_port_def split: option.split)

lemma is_ok_and_then: "is_ok (and_then r k) \<longleftrightarrow> (\<exists>a. r = Inr a \<and> is_ok (k a))"
  by (cases r) simp_all

lemma env_int_default: "env name = None \<Longrightarrow> env_int env name d = Inr d"
  by (simp add: env_int_def)

lemma require_credentials_ok:
  "require_credentials s = Inr s' \<longleftrightarrow>
    s' = s \<and> \<not> not_given (sn_account s) \<and> \<not> not_given (sn_user s) \<and> \<not> not_given (sn_password s)"
  by (auto simp: require_credentials_def missing_credentials_def Let_def)

lemma load_ok: "is_ok (load env) \<longleftrightarrow>
    list_all (readable_port env) [''REDIS_PORT'', ''REDIS_DB'', ''WEAVIATE_HTTP_PORT'', ''WEAVIATE_GRPC_PORT'']"
  by (simp add: load_def Let_def is_ok_and_then env_int_ok)

lemma load_fields:
  assumes "load env = Inr s"
  shows "sn_account (st_snowflake s) = env ''SNOWFLAKE_ACCOUNT''" "sn_user (st_snowflake s) = env ''SNOWFLAKE_USER''"
    "sn_password (st_snowflake s) = env ''SNOWFLAKE_PASSWORD''" "sn_bi_role (st_snowflake s) = ''BI_ROLE''"
    "sn_agent_role (st_snowflake s) = ''AGENT_ROLE''" "sn_pipeline_role (st_snowflake s) = ''PIPELINE_ROLE''"
    "sn_forbidden (st_snowflake s) = sn_forbidden default_snowflake"
  using assms by (auto simp: load_def Let_def default_snowflake_def)

text \<open>Configuration errors show at start-up and nowhere else: loading succeeds exactly when the four
  ports and database numbers are integers where they are set, every later call gets the settings of the
  first successful one whatever the environment has become, a process without an account, a user or a
  password cannot pass the credential check, and no application path connects under an administrative
  role unless the environment names one for it.\<close>

theorem settings_checked:
  assumes "get_settings env None = (r, c)"
  shows "(is_ok r \<longleftrightarrow>
      list_all (readable_port env) [''REDIS_PORT'', ''REDIS_DB'', ''WEAVIATE_HTTP_PORT'', ''WEAVIATE_GRPC_PORT'']) \<and>
    (\<forall>s. r = Inr s \<longrightarrow> get_settings later c = (Inr s, c) \<and>
      (is_ok (require_credentials (st_snowflake s)) \<longleftrightarrow>
        list_all (\<lambda>k. env k \<noteq> None \<and> env k \<noteq> Some []) [''SNOWFLAKE_ACCOUNT'', ''SNOWFLAKE_USER'', ''SNOWFLAKE_PASSWORD'']) \<and>
      (\<forall>(var, role)\<in>set [(''BI_SNOWFLAKE_ROLE'', bi_connect_role), (''AGENT_SNOWFLAKE_ROLE'', agent_connect_role),
          (''PIPELINE_SNOWFLAKE_ROLE'', pipeline_connect_role)].
        role later s \<in> set (sn_forbidden (st_snowflake s)) \<longrightarrow> later var = Some (role later s)))"
proof -
  have r: "r = load env" "\<And>s. r = Inr s \<Longrightarrow> c = Some s"
    using assms by (auto simp: get_settings_def split: sum.splits)
  have roles: "later var = Some (role later s)"
    if "load env = Inr s" "(var, role) \<in> set [(''BI_SNOWFLAKE_ROLE'', bi_connect_role), (''AGENT_SNOWFLAKE_ROLE'', agent_connect_role),
          (''PIPELINE_SNOWFLAKE_ROLE'', pipeline_connect_role)]"
      "role later s \<in> set (sn_forbidden (st_snowflake s))" for s var role
    using that(2,3) load_fields [OF that(1)]
    by (auto simp: bi_connect_role_def agent_connect_role_def pipeline_connect_role_def getenv_def default_snowflake_def
        split: option.splits)
  show ?thesis
    using r load_ok [of env] roles load_fields
    by (auto simp: get_settings_def is_ok_conv require_credentials_ok not_given_def)
qed

definition demo_environment :: environment where
  "demo_environment = [''REDIS_PORT'' \<mapsto> ''6380'', ''SNOWFLAKE_ACCOUNT'' \<mapsto> ''a1'', ''SNOWFLAKE_USER'' \<mapsto> ''u'',
     ''SNOWFLAKE_PASSWORD'' \<mapsto> ''p'']"

lemma settings_checked_witness:
  "is_ok (fst (get_settings demo_environment None)) \<and>
   map_option (rs_port \<circ> st_redis) (snd (get_settings demo_environment None)) = Some 6380"
proof -
  obtain r c where g: "get_settings demo_environment None = (r, c)" by fastforce
  have "is_ok r" using settings_checked [OF g, of "Map.empty"]
    by (auto simp: readable_port_def demo_environment_def parse_int_def strip_def lstrip_def rstrip_def is_space_def is_digit_def code_def)
  moreover have "env_int demo_environment ''REDIS_PORT'' 6379 = Inr 6380" by code_simp
  ultimately show ?thesis using g by (auto simp: get_settings_def load_def Let_def is_ok_conv split: sum.splits)
qed

text \<open>The list of administrative roles is consulted by nobody: an override is taken as it stands.\<close>

lemma admin_override_accepted:
  "env ''BI_SNOWFLAKE_ROLE'' = Some ''ACCOUNTADMIN'' \<Longrightarrow> bi_connect_role env s = ''ACCOUNTADMIN''"
  by (simp add: bi_connect_role_def getenv_def)

section \<open>The switch of the tracer\<close>

text \<open>\<open>observability/langsmith_config.py\<close>: the tracer reads the environment at call time; both families of variables
  are set together.  The key and the default project are those the configuration read when it was imported.\<close>

definition langsmith_project :: "environment \<Rightarrow> string" where
  "langsmith_project env = getenv env ''LANGSMITH_PROJECT'' ''fraud-decisioning-platform''"

definition configure_langsmith :: "environment \<Rightarrow> string option \<Rightarrow> environment \<Rightarrow> bool \<times> environment" where
  "configure_langsmith imported project_name env =
    (case imported ''LANGSMITH_API_KEY'' of
       None \<Rightarrow> (False, env)
     | Some key \<Rightarrow>
        if key = [] then (False, env)
        else let project = (case project_name of None \<Rightarrow> langsmith_project imported
                            | Some p \<Rightarrow> if p = [] then langsmith_project imported else p)
             in (True, env(''LANGSMITH_TRACING'' \<mapsto> ''true'', ''LANGCHAIN_TRACING_V2'' \<mapsto> ''true'',
                   ''LANGSMITH_API_KEY'' \<mapsto> key, ''LANGCHAIN_API_KEY'' \<mapsto> key,
                   ''LANGSMITH_PROJECT'' \<mapsto> project, ''LANGCHAIN_PROJECT'' \<mapsto> project)))"

text \<open>Without a key nothing is touched; with one, the project is the one asked for, or the configured one.\<close>

lemma langsmith_without_key:
  "imported ''LANGSMITH_API_KEY'' = None \<or> imported ''LANGSMITH_API_KEY'' = Some [] \<Longrightarrow> configure_langsmith imported pn env = (False, env)"
  by (auto simp: configure_langsmith_def)

lemma langsmith_with_key:
  assumes "imported ''LANGSMITH_API_KEY'' = Some key" "key \<noteq> []"
  shows "fst (configure_langsmith imported pn env)"
    "snd (configure_langsmith imported (Some p) env) ''LANGCHAIN_PROJECT'' = Some (if p = [] then langsmith_project imported else p)"
    "n \<notin> {''LANGSMITH_TRACING'', ''LANGCHAIN_TRACING_V2'', ''LANGSMITH_API_KEY'', ''LANGCHAIN_API_KEY'', ''LANGSMITH_PROJECT'', ''LANGCHAIN_PROJECT''}
      \<Longrightarrow> snd (configure_langsmith imported pn env) n = env n"
  using assms by (simp_all add: configure_langsmith_def Let_def)

end
