(* ===== verification/Seeding.thy ===== *)
theory Seeding
  imports User_Profiles Settings
begin

text \<open>
  \<open>data_generator/snowflake_writer.py\<close> and the seeding of the dimension tables by
  \<open>user_profile_generator.py\<close>.  A \<open>warehouse\<close> is the tables with the session of the writer; whether a
  call to the connector fails is an argument.  A statement that fails stores nothing.
\<close>

section \<open>The writer\<close>

datatype session = No_Session | Closed | Open bool   \<comment> \<open>an open session, and whether its secondary roles are off\<close>

record writer =
  sw_session :: session
  sw_role :: string

record tables =
  wh_users :: "user_row list"
  wh_devices :: "device_row list"
  wh_transactions :: "pydict list"

record call_faults =
  cf_connect :: "pyexn option"
  cf_secondary :: "pyexn option"
  cf_count :: "pyexn option"
  cf_users :: "pyexn option"
  cf_devices :: "pyexn option"
  cf_transactions :: "pyexn option"

type_synonym 'a writing = "('a, writer \<times> tables) out"

text \<open>\<open>role or settings.pipeline_connect_role()\<close>\<close>

definition new_writer :: "environment \<Rightarrow> settings \<Rightarrow> string option \<Rightarrow> writer" where
  "new_writer env s role =
    \<lparr>sw_session = No_Session,
     sw_role = (case role of Some r \<Rightarrow> if r \<noteq> [] then r else pipeline_connect_role env s
                | None \<Rightarrow> pipeline_connect_role env s)\<rparr>"

text \<open>The session is kept before it is confined: a failure of the second statement leaves it open.\<close>

definition connect :: "settings \<Rightarrow> call_faults \<Rightarrow> writer \<Rightarrow> (unit, writer) out" where
  "connect s cf w =
    (case sw_session w of
       Open _ \<Rightarrow> (Inr (), w)
     | _ \<Rightarrow>
        (case require_credentials (st_snowflake s) of
           Inl e \<Rightarrow> (Inl e, w)
         | Inr _ \<Rightarrow>
            (case cf_connect cf of
               Some e \<Rightarrow> (Inl e, w)
             | None \<Rightarrow>
                (case cf_secondary cf of
                   Some e \<Rightarrow> (Inl e, w\<lparr>sw_session := Open False\<rparr>)
                 | None \<Rightarrow> (Inr (), w\<lparr>sw_session := Open True\<rparr>)))))"

definition close_writer :: "writer \<Rightarrow> writer" where
  "close_writer w = (case sw_session w of Open _ \<Rightarrow> w\<lparr>sw_session := Closed\<rparr> | _ \<Rightarrow> w)"

definition get_cursor :: "writer \<Rightarrow> pyexn + unit" where
  "get_cursor w =
    (case sw_session w of
       Open _ \<Rightarrow> Inr ()
     | _ \<Rightarrow> Inl (Exn RuntimeError ''Not connected. Call connect() or use as context manager.''))"

text \<open>A statement on a cursor: refused without a session, raising what the connector raises.\<close>

definition on_cursor :: "pyexn option \<Rightarrow> 'a \<Rightarrow> (tables \<Rightarrow> tables) \<Rightarrow> writer \<times> tables \<Rightarrow> 'a writing" where
  "on_cursor fault result upd wt =
    (case get_cursor (fst wt) of
       Inl e \<Rightarrow> (Inl e, wt)
     | Inr _ \<Rightarrow> (case fault of Some e \<Rightarrow> (Inl e, wt) | None \<Rightarrow> (Inr result, (fst wt, upd (snd wt)))))"

definition write_users :: "call_faults \<Rightarrow> user_row list \<Rightarrow> writer \<times> tables \<Rightarrow> nat writing" where
  "write_users cf users = on_cursor (cf_users cf) (length users) (\<lambda>t. t\<lparr>wh_users := wh_users t @ users\<rparr>)"

definition write_devices :: "call_faults \<Rightarrow> device_row list \<Rightarrow> writer \<times> tables \<Rightarrow> nat writing" where
  "write_devices cf devices = on_cursor (cf_devices cf) (length devices) (\<lambda>t. t\<lparr>wh_devices := wh_devices t @ devices\<rparr>)"

definition write_transactions :: "call_faults \<Rightarrow> pydict list \<Rightarrow> writer \<times> tables \<Rightarrow> nat writing" where
  "write_transactions cf txns =
    on_cursor (cf_transactions cf) (length txns) (\<lambda>t. t\<lparr>wh_transactions := wh_transactions t @ txns\<rparr>)"

definition check_users_exist :: "call_faults \<Rightarrow> writer \<times> tables \<Rightarrow> nat writing" where
  "check_users_exist cf wt = on_cursor (cf_count cf) (length (filter us_current (wh_users (snd wt)))) id wt"

section \<open>Seeding\<close>

text \<open>The \<open>with\<close> block: when entering raises nothing is closed, otherwise the writer is closed at the end.\<close>

definition write_to_snowflake :: "environment \<Rightarrow> settings \<Rightarrow> call_faults \<Rightarrow> user_row list \<Rightarrow> device_row list \<Rightarrow> tables \<Rightarrow> unit writing" where
  "write_to_snowflake env s cf users devices t =
    (case connect s cf (new_writer env s None) of
       (Inl e, w) \<Rightarrow> (Inl e, (w, t))
     | (Inr _, w) \<Rightarrow>
        (case seq (check_users_exist cf (w, t)) (\<lambda>existing wt.
                if 0 < existing then (Inr (), wt)
                else seq (write_users cf users wt) (\<lambda>_ wt.
                     seq (write_devices cf devices wt) (\<lambda>_ wt. (Inr (), wt)))) of
           (r, wt) \<Rightarrow> (r, (close_writer (fst wt), snd wt))))"

text \<open>The whole pipeline: the map of users is saved before the warehouse is written.\<close>

definition run_profiles :: "environment \<Rightarrow> settings \<Rightarrow> source \<Rightarrow> call_faults \<Rightarrow> int \<Rightarrow> tables \<Rightarrow>
    's ticker_scheme \<Rightarrow> (string \<times> profile) list \<times> unit writing \<times> 's ticker_scheme" where
  "run_profiles env s src cf num_users t k =
    (case run_state (generate_profiles src num_users) k of
       ((users, devices), k) \<Rightarrow> (save_user_map users devices, write_to_snowflake env s cf users devices t, k))"

section \<open>Correctness\<close>

definition seeded :: "tables \<Rightarrow> bool" where
  "seeded t \<longleftrightarrow> list_ex us_current (wh_users t)"

lemma seeded_count: "0 < length (filter us_current (wh_users t)) \<longleftrightarrow> seeded t"
  by (auto simp: seeded_def list_ex_iff filter_empty_conv)

lemma connect_cases:
  "(\<exists>e. connect s cf (new_writer env s None) = (Inl e, w)) \<or>
    connect s cf (new_writer env s None) = (Inr (), (new_writer env s None)\<lparr>sw_session := Open True\<rparr>)"
  if "connect s cf (new_writer env s None) = (r, w)"
  using that by (auto simp: connect_def new_writer_def split: sum.splits option.splits)

text \<open>What a run of the seeding can leave behind, by how it ended\<close>

lemma seed_cases:
  assumes "write_to_snowflake env s cf users devices t = (r, w, t')"
  shows "r = Inr () \<Longrightarrow> sw_session w = Closed \<and>
      t' = (if seeded t then t else t\<lparr>wh_users := wh_users t @ users, wh_devices := wh_devices t @ devices\<rparr>)"
    and "r = Inl e \<Longrightarrow> t' = t \<or> \<not> seeded t \<and> t' = t\<lparr>wh_users := wh_users t @ users\<rparr> \<and> cf_devices cf = Some e"
proof -
  obtain x v where c: "connect s cf (new_writer env s None) = (x, v)" by fastforce
  let ?o = "(new_writer env s None)\<lparr>sw_session := Open True\<rparr>"
  have all: "(r = Inr () \<longrightarrow> sw_session w = Closed \<and>
      t' = (if seeded t then t else t\<lparr>wh_users := wh_users t @ users, wh_devices := wh_devices t @ devices\<rparr>)) \<and>
    (r = Inl e \<longrightarrow> t' = t \<or> \<not> seeded t \<and> t' = t\<lparr>wh_users := wh_users t @ users\<rparr> \<and> cf_devices cf = Some e)"
  proof (cases "connect s cf (new_writer env s None) = (Inr (), ?o)")
    case False
    then show ?thesis using connect_cases [OF c] c assms by (auto simp: write_to_snowflake_def)
  next
    case True
    have o: "sw_session ?o = Open True" by simp
    show ?thesis using assms True o seeded_count [of t]
      by (cases "cf_count cf"; cases "seeded t"; cases "cf_users cf"; cases "cf_devices cf")
        (auto simp: write_to_snowflake_def check_users_exist_def write_users_def write_devices_def on_cursor_def get_cursor_def
          close_writer_def)
  qed
  show "r = Inr () \<Longrightarrow> sw_session w = Closed \<and>
      t' = (if seeded t then t else t\<lparr>wh_users := wh_users t @ users, wh_devices := wh_devices t @ devices\<rparr>)"
    and "r = Inl e \<Longrightarrow> t' = t \<or> \<not> seeded t \<and> t' = t\<lparr>wh_users := wh_users t @ users\<rparr> \<and> cf_devices cf = Some e"
    using all by simp_all
qed

lemma seeded_frozen:
  assumes "seeded t"
  shows "snd (snd (write_to_snowflake env s cf users devices t)) = t"
proof -
  obtain r w t' where w: "write_to_snowflake env s cf users devices t = (r, w, t')" by (metis prod.collapse)
  show ?thesis
  proof (cases r)
    case (Inl e)
    then show ?thesis using seed_cases(2) [OF w Inl] assms w by auto
  next
    case (Inr u)
    then show ?thesis using seed_cases(1) [OF w] assms w by auto
  qed
qed

text \<open>Seeding happens once and is all or nothing up to one point: a run that returns has closed its
  session and has either added every user and every device or found current users and added nothing;
  a run that raises has added nothing, or the users without their devices, and the latter only when
  the insertion of the devices itself failed.  Once a current user is stored, no later run, whatever
  it generated and however its calls fail, changes the tables.\<close>

theorem seeding_once:
  assumes "write_to_snowflake env s cf users devices t = (r, w, t')"
  shows "(r = Inr () \<longrightarrow> sw_session w = Closed \<and>
      t' = (if seeded t then t else t\<lparr>wh_users := wh_users t @ users, wh_devices := wh_devices t @ devices\<rparr>)) \<and>
    (r = Inl e \<longrightarrow> t' = t \<or> t' = t\<lparr>wh_users := wh_users t @ users\<rparr> \<and> cf_devices cf = Some e) \<and>
    (seeded t' \<longrightarrow> snd (snd (write_to_snowflake env2 s2 cf2 users2 devices2 t')) = t')"
  using seed_cases [OF assms] seeded_frozen by blast

text \<open>When the insertion of the devices fails, no later run can add them.\<close>

lemma half_seeded_for_good:
  assumes "write_to_snowflake env s cf users devices t = (Inl e, w, t')" "wh_users t' \<noteq> wh_users t" "list_ex us_current users"
  shows "wh_devices (snd (snd (write_to_snowflake env2 s2 cf2 users2 devices2 t'))) = wh_devices t"
proof -
  have t': "t' = t\<lparr>wh_users := wh_users t @ users\<rparr>" using seed_cases(2) [OF assms(1)] assms(2) by auto
  then have "seeded t'" using assms(3) by (simp add: seeded_def list_ex_iff bex_Un)
  then show ?thesis using seeded_frozen t' by simp
qed

text \<open>A failure of the confining statement leaves a session open, and the next call takes it as it is.\<close>

lemma unconfined_session_kept:
  assumes "cf_connect cf = None" "cf_secondary cf = Some e" "require_credentials (st_snowflake s) = Inr x"
  shows "\<exists>w. connect s cf (new_writer env s role) = (Inl e, w) \<and> sw_session w = Open False \<and>
    connect s cf2 w = (Inr (), w) \<and> get_cursor w = Inr ()"
  using assms by (simp add: connect_def new_writer_def get_cursor_def)

definition no_faults :: call_faults where
  "no_faults = \<lparr>cf_connect = None, cf_secondary = None, cf_count = None, cf_users = None, cf_devices = None, cf_transactions = None\<rparr>"

definition demo_user :: user_row where
  "demo_user = \<lparr>us_key = ''k'', us_id = ''u1'', us_name = ''N'', us_age = 30, us_city = ''Boston'', us_country = ''US'',
     us_lat = 42.36, us_lon = - 71.06, us_avg = 40, us_stddev = 10, us_daily = 2, us_created = 0, us_tier = LOW, us_active = True,
     us_valid_from = 0, us_valid_to = end_of_time, us_current = True, us_updated = 1\<rparr>"

definition empty_tables :: tables where
  "empty_tables = \<lparr>wh_users = [], wh_devices = [], wh_transactions = []\<rparr>"

lemma seeding_once_witness:
  "\<exists>s w t'. load demo_environment = Inr s \<and>
    write_to_snowflake demo_environment s no_faults [demo_user] [] empty_tables = (Inr (), w, t') \<and> wh_users t' = [demo_user] \<and>
    snd (snd (write_to_snowflake demo_environment s no_faults [demo_user, demo_user] [] t')) = t'"
proof -
  obtain s where s: "load demo_environment = Inr s"
    using load_ok [of demo_environment]
    by (auto simp: is_ok_conv readable_port_def demo_environment_def parse_int_def strip_def lstrip_def rstrip_def is_space_def is_digit_def code_def)
  obtain r w t' where w: "write_to_snowflake demo_environment s no_faults [demo_user] [] empty_tables = (r, w, t')" by (metis prod.collapse)
  have c: "require_credentials (st_snowflake s) = Inr (st_snowflake s)"
    using load_fields [OF s] by (simp add: require_credentials_ok not_given_def demo_environment_def)
  have r: "r = Inr ()" using w c
    by (auto simp: write_to_snowflake_def connect_def new_writer_def no_faults_def check_users_exist_def write_users_def
        write_devices_def on_cursor_def get_cursor_def empty_tables_def)
  have t': "t' = empty_tables\<lparr>wh_users := [demo_user]\<rparr>"
    using seed_cases(1) [OF w r] by (simp add: empty_tables_def seeded_def)
  then have "seeded t'" by (simp add: seeded_def demo_user_def)
  then have "snd (snd (write_to_snowflake demo_environment s no_faults [demo_user, demo_user] [] t')) = t'"
    using seeding_once [OF w] by blast
  then show ?thesis using s w t' unfolding r by (intro exI [of _ s] exI [of _ w] exI [of _ t']) (simp add: empty_tables_def)
qed

end
