(* ===== verification/Fraud_Signals.thy ===== *)
theory Fraud_Signals
  imports Stream_Events Velocity Seeding
begin

text \<open>
  From the generator to the scoring: the header of \<open>transaction_stream_generator.py\<close> promises that a fraud
  signal is real and not just a label.  The theorems follow an event through the velocity query and
  the feature row: bursts, geo jumps and z-score anomalies are flagged for review.  The
  transport is \<open>json.dumps\<close> and \<open>from_json\<close> over the transaction schema; the formatting and parsing of a
  moment is the parameter \<open>clock\<close>, and the precision of the float columns is left out.
\<close>

section \<open>Transport\<close>

definition as_message :: "event \<Rightarrow> message" where
  "as_message t = \<lparr>ms_id = Some (gx_id t), ms_user = Some (gx_user t), ms_ts = Some (gx_ts t)\<rparr>"

definition received :: "(int \<Rightarrow> datetime) \<Rightarrow> event \<Rightarrow> txn" where
  "received clock t =
    \<lparr>tx_id = PStr (gx_id t), tx_user = gx_user t, tx_device = Some (gx_device t), tx_amount = Some (Fin (gx_amount t)),
     tx_city = PStr (gx_city t), tx_country = PStr (gx_country t), tx_lat = Some (Fin (gx_lat t)),
     tx_lon = Some (Fin (gx_lon t)), tx_ts = Some (Moment (clock (gx_ts t))), tx_synthetic = PBool (gx_fraud t),
     tx_pattern = (case gx_pattern t of None \<Rightarrow> PNone | Some p \<Rightarrow> PStr p)\<rparr>"

section \<open>What raises the flag\<close>

lemma velocity_flags:
  assumes "build_feature_row env default_config baseline last_loc v devices uid now validate row = Inr fd" "5 \<le> v"
  shows "map_of fd ''is_flagged_for_review'' = Some (PBool True)"
  using assms(1)
proof (rule build_feature_rowE)
  fix z vf
  assume "arith (PInt v) = Inr vf" and fd: "fd = row_fields default_config baseline row (geo_of env last_loc row) v devices uid now
       (dict_get baseline ''avg_transaction_amt'' (PFloat (Fin 50)))
       (dict_get baseline ''stddev_transaction_amt'' (PFloat (Fin 20))) (case tx_amount row of None \<Rightarrow> Fin 0 | Some a \<Rightarrow> a) z
       (signals_of vf z (g_distance (geo_of env last_loc row)) (is_new_device (tx_device row) devices))"
  then have "vf = Fin (of_int v)" by (blast dest: arith_int)
  then show ?thesis unfolding fd row_field using assms(2)
    by (simp add: flag_decision_def default_config_def signals_of_def velocity_max_normal_def min_def)
qed

lemma amount_flags:
  assumes "build_feature_row env default_config baseline last_loc v devices uid now validate row = Inr fd"
    and "tx_amount row = Some (Fin a)" "0 < sd" "2.85 * sd \<le> \<bar>a - avg\<bar>"
    and "dict_get baseline ''avg_transaction_amt'' (PFloat (Fin 50)) = PFloat (Fin avg)"
    and "dict_get baseline ''stddev_transaction_amt'' (PFloat (Fin 20)) = PFloat (Fin sd)"
  shows "map_of fd ''is_flagged_for_review'' = Some (PBool True)"
  using assms(1)
proof (rule build_feature_rowE)
  fix z vf
  assume z: "zscore_of (dict_get baseline ''avg_transaction_amt'' (PFloat (Fin 50)))
      (dict_get baseline ''stddev_transaction_amt'' (PFloat (Fin 20))) (case tx_amount row of None \<Rightarrow> Fin 0 | Some a \<Rightarrow> a) = Inr z"
    and fd: "fd = row_fields default_config baseline row (geo_of env last_loc row) v devices uid now
       (dict_get baseline ''avg_transaction_amt'' (PFloat (Fin 50)))
       (dict_get baseline ''stddev_transaction_amt'' (PFloat (Fin 20))) (case tx_amount row of None \<Rightarrow> Fin 0 | Some a \<Rightarrow> a) z
       (signals_of vf z (g_distance (geo_of env last_loc row)) (is_new_device (tx_device row) devices))"
  have "z = Fin ((a - avg) / sd)" using z assms(2,3,5,6) by (simp add: zscore_of_def arith_def fl_sub_def)
  then have "s_amount (signals_of vf z g d) = Fin (min (\<bar>a - avg\<bar> / sd / 3) 1)" for g d
    using assms(3) by (simp add: signals_of_def zscore_max_normal_def abs_divide)
  moreover have "0.95 \<le> min (\<bar>a - avg\<bar> / sd / 3) 1" using assms(3,4) by (simp add: field_simps)
  ultimately have "fl_le (Fin (sc_hard_amount default_config)) (s_amount (signals_of vf z g d))" for g d
    by (simp add: default_config_def)
  then show ?thesis unfolding fd row_field by (simp add: flag_decision_def)
qed

lemma geo_flags:
  assumes "build_feature_row env default_config baseline last_loc v devices uid now validate row = Inr fd"
    and "geo_triggered (geo_of env last_loc row)"
  shows "map_of fd ''is_flagged_for_review'' = Some (PBool True)" "map_of fd ''suspect_location'' = Some (PBool True)"
  using assms(1) by (rule build_feature_rowE, use assms(2) in \<open>simp add: row_field flag_decision_def\<close>)+

section \<open>Bursts\<close>

lemma backfill_burst_times:
  assumes "honest src" "run_state (backfill_burst_from src u anchor i n) s = (ts, s')"
  shows "list_all (\<lambda>t. anchor \<le> gx_ts t \<and> gx_ts t \<le> anchor + 12000000 * int (i + n)) ts"
  using assms(2)
proof (induction n arbitrary: i s ts)
  case (Suc n)
  let ?s = "s\<lparr>tick := Suc (tick s)\<rparr>" and ?gap = "3 + (12 - 3) * so_unit src (tick s)"
  obtain t s1 where t: "run_state (generate_normal_transaction_at src u (anchor + seconds (real i * ?gap))) ?s = (t, s1)" by fastforce
  obtain rest where r: "run_state (backfill_burst_from src u anchor (Suc i) n) s1 = (rest, s')" "ts = labelled_as ''VELOCITY_SPIKE'' t # rest"
    using Suc.prems t by (auto simp: uniform_def split: prod.splits)
  have g: "3 \<le> ?gap" "?gap \<le> 12" using unit_scaled [OF assms(1), of 3 12] by simp_all
  have ts: "gx_ts t = anchor + seconds (real i * ?gap)"
    using t unfolding generate_normal_transaction_at_def by (auto split: prod.splits)
  have "real i * ?gap * 10 ^ 6 \<le> real i * 12 * 10 ^ 6"
    using g(2) by (intro mult_right_mono mult_left_mono) simp_all
  then have "seconds (real i * ?gap) \<le> round_half_even (of_int (12000000 * int i))"
    unfolding seconds_def by (intro round_half_even_mono) simp
  moreover have "round_half_even (of_int 0) \<le> seconds (real i * ?gap)"
    unfolding seconds_def using g(1) by (intro round_half_even_mono) simp
  ultimately have "anchor \<le> gx_ts t" "gx_ts t \<le> anchor + 12000000 * int i" unfolding round_half_even_int ts by simp_all
  then show ?case using Suc.IH [OF r(1)] r(2) by (auto simp: list_all_iff)
qed simp

lemma burst_size_times:
  assumes "honest src" "run_state (generate_backfill_burst_at src u anchor) s = (ts, s')"
  shows "list_all (\<lambda>t. gx_user t = pf_id u \<and> anchor \<le> gx_ts t \<and> gx_ts t \<le> anchor + 12000000 * 10) ts"
proof -
  obtain n s1 where n: "run_state (randint src 8 10) s = (n, s1)" "run_state (backfill_burst_from src u anchor 0 (nat n)) s1 = (ts, s')"
    using assms(2) by (auto simp: generate_backfill_burst_at_def burst_transaction_count_def split: prod.splits)
  have "8 \<le> n" "n \<le> 10" using gives_run [OF randint_gives [OF assms(1), of 8 10] n(1)] by simp_all
  then show ?thesis
    using backfill_burst_times [OF assms(1) n(2)] backfill_spike_made [OF assms(2)]
    by (auto simp: list_all_iff made_def sound_event_def)
qed

lemma burst_window:
  assumes "honest src" "run_state (generate_backfill_burst_at src u anchor) s = (ts, s')"
    and "counts_windows agg" "subseq (map as_message ts) (on_time watermark_delay msgs)"
  shows "\<exists>r\<in>set (compute_velocity_window agg shw msgs). v_user r = pf_id u \<and> 8 \<le> v_count r"
proof -
  have "list_all (\<lambda>m. ms_user m = Some (pf_id u) \<and> (\<exists>t. ms_ts m = Some t \<and> anchor \<le> t \<and> t \<le> anchor + minutes 14)) (map as_message ts)"
    using burst_size_times [OF assms(1,2)] by (auto simp: list_all_iff as_message_def minutes_def)
  then obtain w where w: "primary_slide_duration dvd w"
    "events_in (map as_message ts) (pf_id u) w primary_window_duration = map as_message ts"
    using stretch_in_window by blast
  have "8 \<le> length (events_in (on_time watermark_delay msgs) (pf_id u) w primary_window_duration)"
    using events_in_mono [OF assms(4), of "pf_id u" w primary_window_duration] w(2) backfill_spike_size [OF assms(1,2)] by simp
  moreover from this have "events_in (on_time watermark_delay msgs) (pf_id u) w primary_window_duration \<noteq> []" by auto
  ultimately show ?thesis using window_row [OF assms(3) w(1), of msgs "pf_id u" shw] by force
qed

text \<open>C6: A burst is a velocity spike and not only labelled as one.  If the events of a backfilled burst are read on time,
  that is before the query has read a moment ten minutes or more ahead of them, then whatever else is on the topic
  at least eight transactions of the user are counted in one fifteen-minute window, the row of that window is above the
  threshold of the velocity query, and every transaction that is scored with that count is flagged for review.  Nothing is
  claimed of a late burst: the watermark lets Spark drop it (\<open>late_burst_may_vanish\<close>).\<close>

theorem burst_is_flagged:
  assumes "honest src" "run_state (generate_backfill_burst_at src u anchor) s = (ts, s')"
    and "counts_windows agg" "subseq (map as_message ts) (on_time watermark_delay msgs)"
  shows "\<exists>r\<in>set (compute_velocity_window agg shw msgs). v_user r = pf_id u \<and> 8 \<le> v_count r \<and>
    map_of (velocity_payload velocity_flag_threshold r) ''is_flagged'' = Some (PBool True) \<and>
    (\<forall>env baseline last_loc devices uid now validate row fd.
      build_feature_row env default_config baseline last_loc (v_count r) devices uid now validate row = Inr fd \<longrightarrow>
      map_of fd ''is_flagged_for_review'' = Some (PBool True))"
proof -
  obtain r where r: "r \<in> set (compute_velocity_window agg shw msgs)" "v_user r = pf_id u" "8 \<le> v_count r"
    using burst_window [OF assms, of shw] by blast
  then have "map_of (velocity_payload velocity_flag_threshold r) ''is_flagged'' = Some (PBool True)" "5 \<le> v_count r"
    by (simp_all add: velocity_payload_def velocity_flag_threshold_def)
  then show ?thesis using r velocity_flags by blast
qed

section \<open>Places\<close>

text \<open>The generator and the feature engine measure the same distance: on real positions the two
  implementations of the haversine formula return the same number.\<close>

theorem distances_agree:
  "haversine_distance (PFloat (Fin lat1)) (PFloat (Fin lon1)) (PFloat (Fin lat2)) (PFloat (Fin lon2)) =
    Inr (Some (Fin (geo_haversine lat1 lon1 lat2 lon2)))"
  by (simp add: haversine_finite km_between_def geo_haversine_def hav_def Let_def)

lemma geo_haversine_km: "geo_haversine a b c d = km_between a b c d"
  by (simp add: km_between_def geo_haversine_def hav_def Let_def)

lemma sin_half:
  assumes "pi / 6 \<le> x" "x \<le> 5 * pi / 6"
  shows "1 / 2 \<le> sin x"
proof (cases "x \<le> pi / 2")
  case True
  then show ?thesis using sin_monotone_2pi_le [of "pi / 6" x] assms by (simp add: sin_30)
next
  case False
  then show ?thesis using sin_monotone_2pi_le [of "pi / 6" "pi - x"] assms by (simp add: sin_30)
qed

lemma sin_three_quarters:
  assumes "pi / 3 \<le> x" "x \<le> 2 * pi / 3"
  shows "3 / 4 \<le> (sin x)\<^sup>2"
proof -
  have "sqrt 3 / 2 \<le> sin x"
  proof (cases "x \<le> pi / 2")
    case True
    then show ?thesis using sin_monotone_2pi_le [of "pi / 3" x] assms by (simp add: sin_60)
  next
    case False
    then show ?thesis using sin_monotone_2pi_le [of "pi / 3" "pi - x"] assms by (simp add: sin_60)
  qed
  then have "(sqrt 3 / 2)\<^sup>2 \<le> (sin x)\<^sup>2" by (intro power_mono) simp_all
  then show ?thesis by (simp add: power_divide)
qed

lemma cos_half:
  assumes "\<bar>lat\<bar> \<le> 60"
  shows "1 / 2 \<le> cos (lat * (pi / 180))"
proof -
  have "\<bar>lat * (pi / 180)\<bar> \<le> pi / 3" using assms by (simp add: abs_mult field_simps)
  then have "cos (pi / 3) \<le> cos \<bar>lat * (pi / 180)\<bar>" by (intro cos_monotone_0_pi_le) simp_all
  then show ?thesis unfolding cos_abs_real cos_60 .
qed

lemma arcsin_ge:
  assumes "0 \<le> x" "x \<le> (1 :: real)"
  shows "x \<le> arcsin x"
proof -
  have "arcsin (sin x) \<le> arcsin x"
    using sin_x_le_x [OF assms(1)] assms by (intro arcsin_le_arcsin) auto
  moreover have "arcsin (sin x) = x"
    using assms pi_ge_two by (intro arcsin_sin) linarith+
  ultimately show ?thesis by simp
qed

lemma km_at_least:
  assumes "\<bar>lat1\<bar> \<le> 60" "\<bar>lat2\<bar> \<le> 60" "4 * r\<^sup>2 \<le> (sin ((lon2 - lon1) * (pi / 180) / 2))\<^sup>2" "0 \<le> r"
  shows "12742 * r \<le> km_between lat1 lon1 lat2 lon2"
proof -
  let ?h = "hav (lat1 * (pi / 180)) (lon1 * (pi / 180)) (lat2 * (pi / 180)) (lon2 * (pi / 180))"
  let ?s = "(sin ((lon2 - lon1) * (pi / 180) / 2))\<^sup>2"
  have "1 / 2 * (1 / 2) \<le> cos (lat1 * (pi / 180)) * cos (lat2 * (pi / 180))"
    by (rule mult_mono) (use cos_half assms in \<open>auto intro: order_trans [of 0 "1/2"]\<close>)
  then have c: "1 / 4 * ?s \<le> cos (lat1 * (pi / 180)) * cos (lat2 * (pi / 180)) * ?s" by (intro mult_right_mono) simp_all
  have "?h = (sin ((lat2 * (pi / 180) - lat1 * (pi / 180)) / 2))\<^sup>2 + cos (lat1 * (pi / 180)) * cos (lat2 * (pi / 180)) * ?s"
    unfolding hav_def by (simp only: left_diff_distrib)
  then have "r\<^sup>2 \<le> ?h" using assms(3) c zero_le_power2 [of "sin ((lat2 * (pi / 180) - lat1 * (pi / 180)) / 2)"] by linarith
  then have "r \<le> sqrt ?h" using assms(4) by (simp add: real_le_rsqrt)
  moreover have "sqrt ?h \<le> arcsin (sqrt ?h)" using hav_bounds by (intro arcsin_ge) simp_all
  ultimately show ?thesis unfolding km_between_def by simp
qed

text \<open>Places of the continental United States, and of the cities abroad\<close>

definition us_point :: "real \<Rightarrow> real \<Rightarrow> bool" where
  "us_point lat lon \<longleftrightarrow> 25 \<le> lat \<and> lat \<le> 49 \<and> - 124 \<le> lon \<and> lon \<le> - 70"

definition abroad :: "real \<Rightarrow> real \<Rightarrow> bool" where
  "abroad lat lon \<longleftrightarrow> \<bar>lat\<bar> \<le> 60 \<and> - 1 \<le> lon \<and> lon \<le> 153"

lemma half_degrees: "a \<le> b \<Longrightarrow> a * (pi / 180) / 2 \<le> b * (pi / 180) / 2"
  by (intro divide_right_mono mult_right_mono) simp_all

lemma us_to_abroad:
  assumes "us_point lat1 lon1" "abroad lat2 lon2"
  shows "3000 \<le> km_between lat1 lon1 lat2 lon2"
proof -
  have "1 / 2 \<le> sin ((lon2 - lon1) * (pi / 180) / 2)"
    using half_degrees [of 60 "lon2 - lon1"] half_degrees [of "lon2 - lon1" 300] assms
    by (intro sin_half) (simp_all add: us_point_def abroad_def)
  then have "(1 / 2)\<^sup>2 \<le> (sin ((lon2 - lon1) * (pi / 180) / 2))\<^sup>2" by (intro power_mono) simp_all
  then have "12742 * (1 / 4) \<le> km_between lat1 lon1 lat2 lon2"
    by (intro km_at_least) (use assms in \<open>auto simp: us_point_def abroad_def power2_eq_square\<close>)
  then show ?thesis by simp
qed

lemma us_to_singapore:
  assumes "us_point lat lon"
  shows "5000 \<le> km_between lat lon 1.3521 103.8198"
proof -
  have "3 / 4 \<le> (sin ((103.8198 - lon) * (pi / 180) / 2))\<^sup>2"
    using half_degrees [of 120 "103.8198 - lon"] half_degrees [of "103.8198 - lon" 240] assms
    by (intro sin_three_quarters) (simp_all add: us_point_def)
  then have "12742 * (4 / 10) \<le> km_between lat lon 1.3521 103.8198"
    by (intro km_at_least) (use assms in \<open>auto simp: us_point_def power2_eq_square\<close>)
  then show ?thesis by simp
qed

lemma mem_nonempty: "x \<in> set xs \<Longrightarrow> xs \<noteq> []"
  by auto

lemma far_cities_far:
  assumes "us_point (pf_lat u) (pf_lon u)" "c \<in> set (far_cities u)"
  shows "c \<in> set international_cities" "5000 \<le> geo_haversine (pf_lat u) (pf_lon u) (c_lat c) (c_lon c)"
proof -
  let ?far = "filter (\<lambda>c. geo_jump_min_distance_km \<le> geo_haversine (pf_lat u) (pf_lon u) (c_lat c) (c_lon c)) international_cities"
  have "\<lparr>c_name = ''Singapore'', c_country = ''SG'', c_lat = 1.3521, c_lon = 103.8198\<rparr> \<in> set ?far"
    unfolding set_filter mem_Collect_eq geo_haversine_km geo_jump_min_distance_km_def
    using us_to_singapore [OF assms(1)] by (simp add: international_cities_def)
  then have "?far \<noteq> []" by (rule mem_nonempty)
  then have "c \<in> set ?far" using assms(2) by (simp add: far_cities_def Let_def)
  then show "c \<in> set international_cities" "5000 \<le> geo_haversine (pf_lat u) (pf_lon u) (c_lat c) (c_lon c)"
    by (simp_all add: geo_jump_min_distance_km_def)
qed

section \<open>Geo jumps\<close>

lemma jitter_gives:
  assumes "honest src" "whole_micro x"
  shows "gives (\<lambda>r. \<bar>r - x\<bar> \<le> 1 / 100) (jitter src x)"
  unfolding jitter_def
proof (rule gives_bind)
  show "gives (\<lambda>j. - (1 / 100) \<le> j \<and> j \<le> 1 / 100) (uniform src (- 0.01) 0.01)"
    using uniform_gives [OF assms(1), of "- (1 / 100)" "1 / 100"] by simp
  show "gives (\<lambda>r. \<bar>r - x\<bar> \<le> 1 / 100) (State_Monad.return (round_to 6 (x + a)))" if "- (1 / 100) \<le> a \<and> a \<le> 1 / 100" for a
    using jittered [OF assms(2), of "1 / 100" a 10000] that by simp
qed

text \<open>An event near a city of the list\<close>

definition near_city :: "city list \<Rightarrow> event \<Rightarrow> bool" where
  "near_city cs t \<longleftrightarrow> (\<exists>c\<in>set cs. gx_city t = c_name c \<and> \<bar>gx_lat t - c_lat c\<bar> \<le> 1 / 100 \<and> \<bar>gx_lon t - c_lon c\<bar> \<le> 1 / 100)"

lemma international_whole: "list_all (\<lambda>c. whole_micro (c_lat c) \<and> whole_micro (c_lon c)) international_cities"
  by (simp add: international_cities_def whole_micro_def)

lemma international_box:
  "list_all (\<lambda>c. - 59 \<le> c_lat c \<and> c_lat c \<le> 59 \<and> - 99 / 100 \<le> c_lon c \<and> c_lon c \<le> 152 \<and>
     1 / 100 < \<bar>c_lat c\<bar> \<and> 1 / 100 < \<bar>c_lon c\<bar>) international_cities"
  by (simp add: international_cities_def)

lemma us_box:
  "list_all (\<lambda>c. 25.1 \<le> c_lat c \<and> c_lat c \<le> 48.9 \<and> - 123.9 \<le> c_lon c \<and> c_lon c \<le> - 70.1) us_cities"
  by (simp add: us_cities_def)

lemma near_abroad:
  assumes "near_city international_cities t"
  shows "abroad (gx_lat t) (gx_lon t)" "gx_lat t \<noteq> 0" "gx_lon t \<noteq> 0"
proof -
  obtain c where c: "c \<in> set international_cities" "\<bar>gx_lat t - c_lat c\<bar> \<le> 1 / 100" "\<bar>gx_lon t - c_lon c\<bar> \<le> 1 / 100"
    using assms by (auto simp: near_city_def)
  have b: "- 59 \<le> c_lat c" "c_lat c \<le> 59" "- 99 / 100 \<le> c_lon c" "c_lon c \<le> 152" "1 / 100 < \<bar>c_lat c\<bar>" "1 / 100 < \<bar>c_lon c\<bar>"
    using international_box c(1) by (simp_all add: list_all_iff)
  show "abroad (gx_lat t) (gx_lon t)" "gx_lat t \<noteq> 0" "gx_lon t \<noteq> 0"
    using c(2,3) b unfolding abroad_def by linarith+
qed

lemma near_us:
  assumes "near_city us_cities t"
  shows "us_point (gx_lat t) (gx_lon t)"
proof -
  obtain c where c: "c \<in> set us_cities" "\<bar>gx_lat t - c_lat c\<bar> \<le> 1 / 100" "\<bar>gx_lon t - c_lon c\<bar> \<le> 1 / 100"
    using assms by (auto simp: near_city_def)
  have "25.1 \<le> c_lat c" "c_lat c \<le> 48.9" "- 123.9 \<le> c_lon c" "c_lon c \<le> - 70.1"
    using us_box c(1) by (simp_all add: list_all_iff)
  then show ?thesis using c(2,3) unfolding us_point_def by linarith
qed

lemma far_cities_sub: "set (far_cities u) \<subseteq> set international_cities" "far_cities u \<noteq> []"
  by (auto simp: far_cities_def Let_def) (simp add: international_cities_def)

lemma jump_place:
  assumes "honest src"
  shows "gives (near_city (far_cities u)) (geo_jump_from src u prev)"
proof -
  have j: "gives (\<lambda>r. \<bar>r - c_lat c\<bar> \<le> 1 / 100) (jitter src (c_lat c))" "gives (\<lambda>r. \<bar>r - c_lon c\<bar> \<le> 1 / 100) (jitter src (c_lon c))"
    if "c \<in> set (far_cities u)" for c
    using jitter_gives [OF assms] international_whole far_cities_sub(1) that by (auto simp: list_all_iff dest!: subsetD)
  show ?thesis
    unfolding geo_jump_from_def Let_def
    apply (rule gives_bind [OF choice_gives [OF assms far_cities_sub(2)]])
    apply (rule gives_bind_any, rule gives_bind_any, rule gives_bind_any, rule gives_bind_any, rule gives_bind_any,
        rule gives_bind_any, rule gives_bind_any)
    apply (rule gives_bind [OF j(1)], assumption, rule gives_bind [OF j(2)], assumption)
    apply (rule gives_bind_any)
    apply (auto simp: near_city_def)
    done
qed

lemma jump_near_far_city:
  assumes "honest src" "run_state (generate_geo_jump src u) s = (Some t, s')"
  shows "near_city (far_cities u) t"
  using assms(2) by (rule geo_jump_cases) (auto dest: gives_run [OF jump_place [OF assms(1)]])

lemma geo_of_finite:
  assumes "map_of loc ''lat'' = Some (PFloat (Fin lat))" "map_of loc ''lon'' = Some (PFloat (Fin lon))"
    and "tx_lat row = Some (Fin a)" "a \<noteq> 0" "tx_lon row = Some (Fin b)" "b \<noteq> 0"
    and "case minutes_since env (dict_get loc ''ts'' PNone) (tx_ts row) of None \<Rightarrow> True | Some m \<Rightarrow> 0 < m"
  shows "g_distance (geo_of env (PDict loc) row) = Some (Fin (km_between lat lon a b))"
proof -
  have "loc \<noteq> []" using assms(1) by auto
  then show ?thesis
    using assms by (auto simp: geo_of_def fl_truthy_def index_key_def item_def haversine_finite as_dict_def Let_def split: option.splits)
qed

text \<open>C5: A geo jump is impossible travel and not only labelled as one: it lies within a hundredth of a degree
  of a city abroad that is at least 5000 km from the user's home, and whenever the user's stored
  location is in the United States and earlier than the jump, the feature engine finds at least 3000 km
  between the two, suspects the location, which keeps it out of the user's location key, and flags the
  transaction, however much time has passed.\<close>

theorem geo_jump_is_flagged:
  assumes "honest src" "us_point (pf_lat u) (pf_lon u)" "run_state (generate_geo_jump src u) s = (Some t, s')"
    and "map_of loc ''lat'' = Some (PFloat (Fin lat))" "map_of loc ''lon'' = Some (PFloat (Fin lon))" "us_point lat lon"
    and "case minutes_since env (dict_get loc ''ts'' PNone) (tx_ts (received clock t)) of None \<Rightarrow> True | Some m \<Rightarrow> 0 < m"
    and "build_feature_row env default_config baseline (PDict loc) v devices uid now validate (received clock t) = Inr fd"
  shows "(\<exists>c\<in>set international_cities. gx_city t = c_name c \<and> \<bar>gx_lat t - c_lat c\<bar> \<le> 1 / 100 \<and> \<bar>gx_lon t - c_lon c\<bar> \<le> 1 / 100 \<and>
      5000 \<le> geo_haversine (pf_lat u) (pf_lon u) (c_lat c) (c_lon c)) \<and>
    3000 \<le> geo_haversine lat lon (gx_lat t) (gx_lon t) \<and>
    map_of fd ''is_flagged_for_review'' = Some (PBool True) \<and> map_of fd ''suspect_location'' = Some (PBool True)"
proof -
  have n: "near_city (far_cities u) t" using jump_near_far_city [OF assms(1,3)] .
  then have i: "near_city international_cities t" using far_cities_sub(1) [of u] by (auto simp: near_city_def)
  have far: "3000 \<le> km_between lat lon (gx_lat t) (gx_lon t)" using us_to_abroad [OF assms(6) near_abroad(1) [OF i]] .
  have "g_distance (geo_of env (PDict loc) (received clock t)) = Some (Fin (km_between lat lon (gx_lat t) (gx_lon t)))"
    by (rule geo_of_finite [OF assms(4,5) _ near_abroad(2) [OF i] _ near_abroad(3) [OF i] assms(7)]) (simp_all add: received_def)
  then have "geo_triggered (geo_of env (PDict loc) (received clock t))"
    using far by (simp add: geo_triggered_def geo_hard_rule_def geo_min_jump_km_def)
  note f = geo_flags [OF assms(8) this]
  show ?thesis using n far f far_cities_far [OF assms(2)] unfolding near_city_def geo_haversine_km by blast
qed

text \<open>The two ways in which a user comes to be in the United States: his home, and his normal transactions\<close>

lemma home_in_us:
  assumes "plausible u"
  shows "us_point (us_lat u) (us_lon u)"
proof -
  obtain c where c: "c \<in> set us_cities" "\<bar>us_lat u - c_lat c\<bar> \<le> 5 / 100" "\<bar>us_lon u - c_lon c\<bar> \<le> 5 / 100"
    using assms by (auto simp: plausible_def)
  have "25.1 \<le> c_lat c" "c_lat c \<le> 48.9" "- 123.9 \<le> c_lon c" "c_lon c \<le> - 70.1"
    using us_box c(1) by (simp_all add: list_all_iff)
  then show ?thesis using c(2,3) unfolding us_point_def by linarith
qed

lemma home_city_gives:
  assumes "honest src"
  shows "gives (\<lambda>c. c \<in> set us_cities) (get_home_city_data src u)"
proof -
  have "gives (\<lambda>c. c \<in> set us_cities) (choice src us_cities)" by (rule choice_gives [OF assms]) (simp add: us_cities_def)
  then show ?thesis by (auto simp: get_home_city_data_def find_Some_iff split: option.split)
qed

lemma normal_city_gives:
  assumes "honest src"
  shows "gives (\<lambda>c. c \<in> set us_cities) (normal_city src u)"
proof -
  have "gives (\<lambda>c. c \<in> set us_cities) (choice src us_cities)" by (rule choice_gives [OF assms]) (simp add: us_cities_def)
  then show ?thesis using home_city_gives [OF assms]
    by (auto simp: normal_city_def intro!: gives_bind_any)
qed

lemma normal_event_in_us:
  assumes "honest src" "run_state (generate_normal_transaction src u) s = (t, s')"
  shows "us_point (gx_lat t) (gx_lon t)"
proof -
  have j: "gives (\<lambda>r. \<bar>r - c_lat c\<bar> \<le> 1 / 100) (jitter src (c_lat c))" "gives (\<lambda>r. \<bar>r - c_lon c\<bar> \<le> 1 / 100) (jitter src (c_lon c))"
    if "c \<in> set us_cities" for c
    using jitter_gives [OF assms(1)] us_cities_whole that by (auto simp: list_all_iff)
  have "gives (near_city us_cities) (generate_normal_transaction src u)"
    unfolding generate_normal_transaction_def Let_def
    apply (rule gives_bind_any)
    apply (rule gives_bind [OF normal_city_gives [OF assms(1)]])
    apply (rule gives_bind_any, rule gives_bind_any, rule gives_bind_any, rule gives_bind_any, rule gives_bind_any)
    apply (rule gives_bind [OF j(1)], assumption, rule gives_bind [OF j(2)], assumption)
    apply (rule gives_bind_any)
    apply (auto simp: near_city_def)
    done
  from near_us [OF gives_run [OF this assms(2)]] show ?thesis .
qed

section \<open>Amounts\<close>

lemma round_to_near: "x - 1 / 100 \<le> round_to 2 x" "round_to 2 x \<le> x + 1 / 100"
proof -
  have "\<lfloor>x * 10 ^ 2\<rfloor> \<le> round_half_even (x * 10 ^ 2)" "round_half_even (x * 10 ^ 2) \<le> \<lfloor>x * 10 ^ 2\<rfloor> + 1"
    by (rule round_bounds)+
  then have "x * 10 ^ 2 - 1 \<le> of_int (round_half_even (x * 10 ^ 2))" "of_int (round_half_even (x * 10 ^ 2)) \<le> x * 10 ^ 2 + 1"
    by linarith+
  then show "x - 1 / 100 \<le> round_to 2 x" "round_to 2 x \<le> x + 1 / 100" by (simp_all add: round_to_def)
qed

lemma multiple_gives:
  assumes "honest src" "0 \<le> avg" "lo \<le> hi"
  shows "gives (\<lambda>a. avg * lo - 1 / 100 \<le> a \<and> a \<le> avg * hi + 1 / 100)
    (do { m \<leftarrow> uniform src lo hi; State_Monad.return (round_to 2 (avg * m)) })"
proof (rule gives_bind [OF uniform_gives [OF assms(1,3)]])
  fix m
  assume "lo \<le> m \<and> m \<le> hi"
  then have "avg * lo \<le> avg * m" "avg * m \<le> avg * hi" using assms(2) by (simp_all add: mult_left_mono)
  then show "gives (\<lambda>a. avg * lo - 1 / 100 \<le> a \<and> a \<le> avg * hi + 1 / 100) (State_Monad.return (round_to 2 (avg * m)))"
    using round_to_near [of "avg * m"] by simp
qed

lemma plausible_spread:
  assumes "plausible u"
  shows "0 < us_stddev u" "0 < us_avg u" "2.85 * us_stddev u \<le> 4 * us_avg u - 1 / 100"
  using assms by (cases "us_tier u"; simp add: plausible_def in_range_def)+

text \<open>A z-score anomaly is one: for every generated user the amount that the third sub-pattern of the
  amount anomaly draws lies at least 2.85 of the user's deviations above his mean, so every transaction
  with that amount is flagged when the engine scores it against the user's own baseline, in each of the
  three risk tiers and after rounding to cents.\<close>

theorem zscore_anomaly_is_flagged:
  assumes "honest src" "plausible usr" "run_state (anomaly_amount src (profile_of dm usr) Zscore) s = (a, s')"
    and "dict_get baseline ''avg_transaction_amt'' (PFloat (Fin 50)) = PFloat (Fin (us_avg usr))"
    and "dict_get baseline ''stddev_transaction_amt'' (PFloat (Fin 20)) = PFloat (Fin (us_stddev usr))"
    and "tx_amount row = Some (Fin a)"
    and "build_feature_row env default_config baseline last_loc v devices uid now validate row = Inr fd"
  shows "2.85 * us_stddev usr \<le> a - us_avg usr \<and> map_of fd ''is_flagged_for_review'' = Some (PBool True)"
proof -
  note u = plausible_spread [OF assms(2)]
  have "gives (\<lambda>a. us_avg usr * 5 - 1 / 100 \<le> a \<and> a \<le> us_avg usr * 15 + 1 / 100) (anomaly_amount src (profile_of dm usr) Zscore)"
    using multiple_gives [OF assms(1), of "us_avg usr" 5 15] u(2) by (simp add: anomaly_amount_def profile_of_def amount_anomaly_multiplier_def)
  from gives_run [OF this assms(3)] have "us_avg usr * 5 - 1 / 100 \<le> a" by simp
  then have z: "2.85 * us_stddev usr \<le> a - us_avg usr" using u(3) by linarith
  then have "2.85 * us_stddev usr \<le> \<bar>a - us_avg usr\<bar>" by linarith
  then show ?thesis using z amount_flags [OF assms(7,6) u(1) _ assms(4,5)] by blast
qed

section \<open>Devices\<close>

lemma new_device_facts:
  assumes "honest src" "0 \<le> pf_avg u"
  shows "gives (\<lambda>t. gx_device t \<in> range (so_uuid src) \<and> pf_avg u * 3 - 1 / 100 \<le> gx_amount t \<and> gx_amount t \<le> pf_avg u * 7.5 + 1 / 100)
    (generate_new_device_fraud src u)"
proof -
  have m: "pf_avg u * 3 - 1 / 100 \<le> round_to 2 (pf_avg u * m)" "round_to 2 (pf_avg u * m) \<le> pf_avg u * 7.5 + 1 / 100"
    if "3 \<le> m \<and> m \<le> 7.5" for m
  proof -
    have "pf_avg u * 3 \<le> pf_avg u * m" "pf_avg u * m \<le> pf_avg u * 7.5"
      using mult_left_mono [of 3 m "pf_avg u"] mult_left_mono [of m "7.5" "pf_avg u"] that assms(2) by simp_all
    then show "pf_avg u * 3 - 1 / 100 \<le> round_to 2 (pf_avg u * m)" "round_to 2 (pf_avg u * m) \<le> pf_avg u * 7.5 + 1 / 100"
      using round_to_near [of "pf_avg u * m"] by linarith+
  qed
  have w: "gives (\<lambda>m. 3 \<le> m \<and> m \<le> 7.5) (uniform src new_device_high_amount_multiplier (new_device_high_amount_multiplier * 2.5))"
    using uniform_gives [OF assms(1), of 3 "15 / 2"] by (simp add: new_device_high_amount_multiplier_def)
  show ?thesis
    unfolding generate_new_device_fraud_def
    apply (rule gives_bind [OF uuid4_gives])
    apply (rule gives_bind [OF w])
    apply (rule gives_bind_any, rule gives_bind_any, rule gives_bind_any, rule gives_bind_any, rule gives_bind_any, rule gives_bind_any)
    apply (use m in auto)
    done
qed

text \<open>A new-device fraud comes from a device that nobody has seen and spends three to seven and a half times
  the user's mean: as identifiers are never issued twice, its device is neither in the user's map entry
  nor among the trusted devices of the engine, which marks the row as a new device.\<close>

theorem new_device_is_new:
  assumes "honest src" "0 \<le> pf_avg u" "run_state (generate_new_device_fraud src u) s = (t, s')"
    and "set (pf_devices u) \<inter> range (so_uuid src) = {}" "set devices \<inter> range (so_uuid src) = {}"
    and "build_feature_row env cfg baseline last_loc v devices uid now validate (received clock t) = Inr fd"
  shows "gx_device t \<notin> set (pf_devices u) \<and> map_of fd ''is_new_device'' = Some (PBool True) \<and>
    pf_avg u * 3 - 1 / 100 \<le> gx_amount t \<and> gx_amount t \<le> pf_avg u * 7.5 + 1 / 100 \<and> gx_pattern t = Some ''NEW_DEVICE''"
proof -
  have t: "gx_device t \<in> range (so_uuid src)" "pf_avg u * 3 - 1 / 100 \<le> gx_amount t" "gx_amount t \<le> pf_avg u * 7.5 + 1 / 100"
    using gives_run [OF new_device_facts [OF assms(1,2)] assms(3)] by simp_all
  have "gx_pattern t = Some ''NEW_DEVICE''"
    using assms(3) unfolding generate_new_device_fraud_def by (auto split: prod.splits)
  moreover have "gx_device t \<notin> set (pf_devices u)" "gx_device t \<notin> set devices" using t(1) assms(4,5) by blast+
  moreover have "gx_device t \<noteq> []" using t(1) honestD(5) [OF assms(1)] by (metis imageE)
  ultimately have "gx_device t \<notin> set (pf_devices u)" "is_new_device (tx_device (received clock t)) devices" "gx_pattern t = Some ''NEW_DEVICE''"
    by (simp_all add: is_new_device_def received_def)
  moreover have "map_of fd ''is_new_device'' = Some (PBool (is_new_device (tx_device (received clock t)) devices))"
    using assms(6) by (rule build_feature_rowE) (simp add: row_fields_def)
  ultimately show ?thesis using t by simp
qed

text \<open>The user map lists every device of a user, the engine only the trusted ones, so a normal transaction can
  come from a device that the engine takes for a new one.\<close>

lemma untrusted_device_looks_new:
  assumes "d \<in> set ds" "dv_user d = us_id u" "\<not> dv_trusted d" "dv_id d \<noteq> []" "distinct (map dv_id ds)"
  shows "dv_id d \<in> set (pf_devices (profile_of (device_map ds) u)) \<and>
    is_new_device (Some (dv_id d)) (map dv_id (filter (\<lambda>e. dv_user e = us_id u \<and> dv_trusted e) ds))"
proof -
  have f: "filter (\<lambda>d. dv_user d = us_id u) ds \<noteq> []" using assms(1,2) by (auto simp: filter_empty_conv)
  have "e = d" if "e \<in> set ds" "dv_id e = dv_id d" for e
    using distinct_map assms(1,5) that by (metis inj_onD)
  then have "dv_id d \<notin> dv_id ` set (filter (\<lambda>e. dv_user e = us_id u \<and> dv_trusted e) ds)" using assms(3) by auto
  then show ?thesis using assms(1,2,4) f by (auto simp: profile_of_def device_map_lookup is_new_device_def)
qed

section \<open>Concrete signals\<close>

lemma unflagged_row:
  assumes "tx_amount row = Some (Fin a)" "0 < sd"
    and "dict_get baseline ''avg_transaction_amt'' (PFloat (Fin 50)) = PFloat (Fin avg)"
    and "dict_get baseline ''stddev_transaction_amt'' (PFloat (Fin 20)) = PFloat (Fin sd)"
    and "\<bar>a - avg\<bar> / sd < 2.85"
  shows "\<exists>fd. build_feature_row env default_config baseline PNone 1 devices uid now False row = Inr fd \<and>
    map_of fd ''is_flagged_for_review'' = Some (PBool False)"
proof -
  let ?z = "Fin ((a - avg) / sd)" and ?n = "is_new_device (tx_device row) devices"
  let ?s = "signals_of (Fin 1) ?z None ?n"
  let ?fd = "row_fields default_config baseline row no_geo 1 devices uid now (PFloat (Fin avg)) (PFloat (Fin sd)) (Fin a) ?z ?s"
  have g: "geo_of env PNone row = no_geo" by (simp add: geo_of_def)
  have "build_feature_row env default_config baseline PNone 1 devices uid now False row = Inr ?fd"
    using assms(1-4) by (simp add: build_feature_row_def Let_def g zscore_of_def arith_small arith_def [of "PFloat f" for f] fl_sub_def no_geo_def)
  moreover have "flag_decision default_config ?s no_geo = False"
  proof -
    obtain q where qd: "q = min (\<bar>a - avg\<bar> / sd / 3) 1" by blast
    have s: "?s = \<lparr>s_v15 = Fin (1 / 5), s_amount = Fin q, s_geo = Fin 0, s_device = Fin (if ?n then 1 else 0)\<rparr>"
      using assms(2) by (simp add: qd signals_of_def velocity_max_normal_def zscore_max_normal_def fl_truthy_def geo_max_normal_km_def abs_divide)
    have q: "q < 0.95" "0 \<le> q" using assms(2,5) by (simp_all add: qd min_def field_simps)
    let ?w = "weighted risk_weights (1 / 5) q 0 (if ?n then 1 else 0)"
    have "?w \<le> 0.5" using q by (simp add: weighted_def risk_weights_def)
    then have "min ?w 1 \<le> 0.5" by simp
    then have "round_to 4 (min ?w 1) \<le> round_to 4 0.5" by (rule round_to_mono)
    also have "round_to 4 0.5 = (0.5 :: real)" by (rule round_to_fixed [where k = 5000]) simp
    finally have r: "round_to 4 (min ?w 1) \<le> 0.5" .
    have "score_signals ?s default_config = Fin (round_to 4 (min ?w 1))"
      unfolding s by (simp add: score_signals_def risk_score_Fin default_config_def)
    then show ?thesis using r q unfolding s
      by (simp add: flag_decision_def default_config_def geo_triggered_def geo_hard_rule_def no_geo_def not_le)
  qed
  ultimately show ?thesis by (auto simp: row_field)
qed

text \<open>A labelled card test that is not flagged, and a labelled new device that is not\<close>

definition low_baseline :: pydict where
  "low_baseline = [(''avg_transaction_amt'', PFloat (Fin 15)), (''stddev_transaction_amt'', PFloat (Fin 15))]"

lemma card_test_unflagged:
  "1 \<in> set card_test_amounts \<and>
   (\<exists>fd. build_feature_row env default_config low_baseline PNone 1 devices uid now False (demo_txn\<lparr>tx_amount := Some (Fin 1)\<rparr>) = Inr fd \<and>
      map_of fd ''is_flagged_for_review'' = Some (PBool False))"
  using unflagged_row [where row = "demo_txn\<lparr>tx_amount := Some (Fin 1)\<rparr>" and a = 1 and sd = 15 and avg = 15 and baseline = low_baseline]
  by (simp add: card_test_amounts_def low_baseline_def dict_get_def)

lemma new_device_unflagged:
  "\<exists>fd. build_feature_row env default_config low_baseline PNone 1 [''d1''] uid now False (demo_txn\<lparr>tx_amount := Some (Fin (15 * 3))\<rparr>) = Inr fd \<and>
      map_of fd ''is_flagged_for_review'' = Some (PBool False)"
  using unflagged_row [where row = "demo_txn\<lparr>tx_amount := Some (Fin 45)\<rparr>" and a = 45 and sd = 15 and avg = 15 and baseline = low_baseline]
  by (simp add: low_baseline_def dict_get_def)

text \<open>Two windowed counts that do what is documented: one drops every late message, one drops none\<close>

definition window_starts :: "int \<Rightarrow> int \<Rightarrow> int \<Rightarrow> int list" where
  "window_starts dur slide t =
    filter (\<lambda>w. w \<le> t \<and> t < w + dur) (map (\<lambda>i. t - t mod slide - int i * slide) [0..<Suc (nat (dur div slide))])"

definition window_rows :: "int \<Rightarrow> int \<Rightarrow> message list \<Rightarrow> (string \<times> int \<times> nat) list" where
  "window_rows dur slide ms = remdups (concat (map (\<lambda>m. case (ms_user m, ms_ts m) of
      (Some u, Some t) \<Rightarrow> map (\<lambda>w. (u, w, length (events_in ms u w dur))) (window_starts dur slide t) | _ \<Rightarrow> []) ms))"

definition demo_agg :: aggregation where
  "demo_agg delay dur slide ms = window_rows dur slide ms"

definition dropping_agg :: aggregation where
  "dropping_agg delay dur slide ms = window_rows dur slide (on_time delay ms)"

lemma window_starts_set:
  assumes "0 < slide"
  shows "set (window_starts dur slide t) = {w. slide dvd w \<and> w \<le> t \<and> t < w + dur}"
proof -
  have "(\<exists>i<Suc (nat (dur div slide)). w = t - t mod slide - int i * slide) \<longleftrightarrow> slide dvd w" if w: "w \<le> t" "t < w + dur" for w
  proof
    assume "slide dvd w"
    then obtain k where k: "w = slide * k" by auto
    have t: "t - t mod slide = slide * (t div slide)" by (simp add: minus_mod_eq_mult_div)
    have "slide * k div slide \<le> t div slide" using w(1) k assms by (intro zdiv_mono1) simp_all
    then have lo: "k \<le> t div slide" using assms by simp
    have "slide * (t div slide - k) \<le> dur" using w(2) k t pos_mod_sign [OF assms, of t] by (simp add: right_diff_distrib)
    then have "slide * (t div slide - k) div slide \<le> dur div slide" using assms by (intro zdiv_mono1) simp_all
    then have "t div slide - k \<le> dur div slide" using assms by simp
    then show "\<exists>i<Suc (nat (dur div slide)). w = t - t mod slide - int i * slide"
      using lo k t by (intro exI [of _ "nat (t div slide - k)"]) (simp add: nat_le_eq_zle less_Suc_eq_le algebra_simps)
  qed (auto simp: minus_mod_eq_mult_div)
  then show ?thesis unfolding window_starts_def set_filter set_map set_upt by (auto simp: image_iff Bex_def atLeast0LessThan)
qed

lemma events_in_nonempty:
  "events_in ms u w dur = [] \<longleftrightarrow> \<not> (\<exists>m\<in>set ms. \<exists>t. ms_user m = Some u \<and> ms_ts m = Some t \<and> w \<le> t \<and> t < w + dur)"
  by (auto simp: events_in_def filter_empty_conv split: option.splits)

lemma window_rows_set:
  assumes "0 < slide"
  shows "set (window_rows dur slide ms) = {(u, w, n). slide dvd w \<and> n = length (events_in ms u w dur) \<and> 0 < n}"
proof -
  have e: "set (window_rows dur slide ms) =
    {(u, w, length (events_in ms u w dur)) |u w. \<exists>m\<in>set ms. \<exists>t. ms_user m = Some u \<and> ms_ts m = Some t \<and> w \<in> set (window_starts dur slide t)}"
    unfolding window_rows_def by (auto split: option.splits) (blast | force)+
  show ?thesis unfolding e by (auto simp: window_starts_set [OF assms] events_in_nonempty) blast
qed

lemma window_rows_distinct: "0 < slide \<Longrightarrow> distinct (map (\<lambda>(u, w, n). (u, w)) (window_rows dur slide ms))"
  by (rule distinct_map [THEN iffD2], intro conjI, simp add: window_rows_def) (auto simp: window_rows_set inj_on_def)

lemma aggs_count: "counts_windows demo_agg" "counts_windows dropping_agg"
proof -
  have m: "length (events_in (on_time delay ms) u w dur) \<le> length (events_in ms u w dur)" for delay ms u w dur
    by (rule events_in_mono) (rule on_time_subseq)
  have p: "events_in (on_time delay ms) u w dur \<noteq> [] \<Longrightarrow> events_in ms u w dur \<noteq> []" for delay ms u w dur
    using m [of delay ms u w dur] by auto
  show "counts_windows demo_agg"
    unfolding counts_windows_def demo_agg_def by (auto simp: window_rows_distinct window_rows_set m dest: p) (force dest: p)
  show "counts_windows dropping_agg"
    unfolding counts_windows_def dropping_agg_def by (auto simp: window_rows_distinct window_rows_set m) force
qed

text \<open>A burst that is read after a moment ten minutes ahead of it may leave no row at all.\<close>

lemma late_burst_may_vanish:
  assumes "list_all (\<lambda>t. gx_user t = u \<and> gx_ts t + watermark_delay \<le> h) ts" "v \<noteq> u"
  shows "\<exists>agg. counts_windows agg \<and>
    u \<notin> v_user ` set (compute_velocity_window agg shw (\<lparr>ms_id = Some i, ms_user = Some v, ms_ts = Some h\<rparr> # map as_message ts))"
proof (intro exI conjI)
  let ?m = "\<lparr>ms_id = Some i, ms_user = Some v, ms_ts = Some h\<rparr>"
  have d: "0 < watermark_delay" "0 < primary_slide_duration" by (simp_all add: watermark_delay_def primary_slide_duration_def minutes_def)
  have "on_time_after watermark_delay (Some h) (map as_message ts) = []"
    by (rule on_time_after_late) (use assms(1) d(1) in \<open>auto simp: list_all_iff as_message_def\<close>)
  then have "on_time watermark_delay (?m # map as_message ts) = [?m]" by (simp add: on_time_def)
  then show "u \<notin> v_user ` set (compute_velocity_window dropping_agg shw (?m # map as_message ts))"
    using assms(2) by (auto simp: compute_velocity_window_def dropping_agg_def window_rows_set [OF d(2)] select_row_def events_in_def)
qed (rule aggs_count)

lemma burst_is_flagged_witness:
  "\<exists>ts s' r. run_state (generate_backfill_burst_at demo_source demo_profile 0) new_generator = (ts, s') \<and>
    r \<in> set (compute_velocity_window demo_agg (\<lambda>_. ''w'') (map as_message ts)) \<and> v_user r = ''u1'' \<and> 8 \<le> v_count r \<and>
    map_of (velocity_payload velocity_flag_threshold r) ''is_flagged'' = Some (PBool True)"
proof -
  obtain ts s' where r: "run_state (generate_backfill_burst_at demo_source demo_profile 0) new_generator = (ts, s')" by fastforce
  have "on_time watermark_delay (map as_message ts) = map as_message ts"
    by (rule on_time_close [of 0]) (use burst_size_times [OF demo_honest r] in \<open>auto simp: list_all_iff as_message_def watermark_delay_def minutes_def\<close>)
  then show ?thesis
    using burst_is_flagged [OF demo_honest r aggs_count(1), of "map as_message ts" "\<lambda>_. ''w''"] r
    by (auto simp: demo_profile_def)
qed

lemma received_amount: "tx_amount (received clock t) = Some (Fin (gx_amount t))"
  by (simp add: received_def)

lemma built_small:
  assumes "tx_amount row = Some (Fin a)"
  shows "is_ok (build_feature_row env cfg [] last_loc 1 devices uid now False row)"
  using assms by (simp add: build_feature_row_def Let_def zscore_of_def dict_get_def arith_small arith_def [of "PFloat f" for f] fl_sub_def)

lemma geo_jump_is_flagged_witness:
  "\<exists>t s' fd. run_state (generate_geo_jump demo_source demo_profile)
      (new_generator\<lparr>gn_last := [''u1'' \<mapsto> \<lparr>pl_city = ''Boston'', pl_lat = 42.36, pl_lon = - 71.06, pl_ts = 0\<rparr>]\<rparr>) = (Some t, s') \<and>
    build_feature_row demo_env default_config [] (PDict [(''lat'', PFloat (Fin 42.36)), (''lon'', PFloat (Fin (- 71.06)))]) 1 [] ''s'' ''now'' False
      (received (\<lambda>_. \<lparr>year = 2025, month = 6, day = 1, hour = 12, minute = 0, second = 0, microsecond = 0, utcoffset = None\<rparr>) t) = Inr fd \<and>
    map_of fd ''is_flagged_for_review'' = Some (PBool True) \<and> map_of fd ''suspect_location'' = Some (PBool True)"
proof -
  let ?s = "new_generator\<lparr>gn_last := [''u1'' \<mapsto> \<lparr>pl_city = ''Boston'', pl_lat = 42.36, pl_lon = - 71.06, pl_ts = 0\<rparr>]\<rparr>"
  let ?clock = "\<lambda>_. \<lparr>year = 2025, month = 6, day = 1, hour = 12, minute = 0, second = 0, microsecond = 0, utcoffset = None\<rparr>"
  let ?loc = "[(''lat'', PFloat (Fin 42.36)), (''lon'', PFloat (Fin (- 71.06)))]"
  obtain t s' where r: "run_state (generate_geo_jump demo_source demo_profile) ?s = (Some t, s')"
    by (cases "run_state (geo_jump_from demo_source demo_profile \<lparr>pl_city = ''Boston'', pl_lat = 42.36, pl_lon = - 71.06, pl_ts = 0\<rparr>) ?s")
      (auto simp: generate_geo_jump_def demo_profile_def)
  obtain fd where fd: "build_feature_row demo_env default_config [] (PDict ?loc) 1 [] ''s'' ''now'' False (received ?clock t) = Inr fd"
    using built_small [OF received_amount] unfolding is_ok_conv by blast
  have "us_point (pf_lat demo_profile) (pf_lon demo_profile)" "us_point 42.36 (- 71.06)" by (simp_all add: us_point_def demo_profile_def)
  moreover have "minutes_since demo_env (dict_get ?loc ''ts'' PNone) (tx_ts (received ?clock t)) = None"
    by (simp add: minutes_since_def dict_get_def)
  ultimately show ?thesis
    using geo_jump_is_flagged [OF demo_honest _ r, where loc = ?loc and lat = "42.36" and lon = "- 71.06" and env = demo_env and clock = ?clock] r fd by auto
qed

lemma demo_user_plausible: "plausible demo_user"
  by (simp add: plausible_def demo_user_def in_range_def us_cities_def)

lemma zscore_anomaly_is_flagged_witness:
  "\<exists>a s' fd. run_state (anomaly_amount demo_source (profile_of [] demo_user) Zscore) \<lparr>tick = 0\<rparr> = (a, s') \<and> 68.5 \<le> a \<and>
    build_feature_row demo_env default_config [(''avg_transaction_amt'', PFloat (Fin 40)), (''stddev_transaction_amt'', PFloat (Fin 10))]
      PNone 1 [] ''s'' ''now'' False (demo_txn\<lparr>tx_amount := Some (Fin a)\<rparr>) = Inr fd \<and>
    map_of fd ''is_flagged_for_review'' = Some (PBool True)"
proof -
  let ?b = "[(''avg_transaction_amt'', PFloat (Fin 40)), (''stddev_transaction_amt'', PFloat (Fin 10))]"
  obtain a s' where r: "run_state (anomaly_amount demo_source (profile_of [] demo_user) Zscore) \<lparr>tick = 0\<rparr> = (a, s')" by fastforce
  have "is_ok (build_feature_row demo_env default_config ?b PNone 1 [] ''s'' ''now'' False (demo_txn\<lparr>tx_amount := Some (Fin a)\<rparr>))"
    by (simp add: build_feature_row_def Let_def zscore_of_def dict_get_def arith_small arith_def [of "PFloat f" for f] fl_sub_def)
  then obtain fd where fd: "build_feature_row demo_env default_config ?b PNone 1 [] ''s'' ''now'' False (demo_txn\<lparr>tx_amount := Some (Fin a)\<rparr>) = Inr fd"
    unfolding is_ok_conv by blast
  have "us_avg demo_user = 40" "us_stddev demo_user = 10" by (simp_all add: demo_user_def)
  then have "28.5 \<le> a - 40 \<and> map_of fd ''is_flagged_for_review'' = Some (PBool True)"
    using zscore_anomaly_is_flagged [OF demo_honest demo_user_plausible r _ _ _ fd] by (simp add: dict_get_def)
  then show ?thesis using r fd by (intro exI [of _ a] exI [of _ s'] exI [of _ fd]) simp
qed

lemma new_device_is_new_witness:
  "\<exists>t s' fd. run_state (generate_new_device_fraud demo_source demo_profile) new_generator = (t, s') \<and>
    build_feature_row demo_env default_config [] PNone 1 [''d1''] ''s'' ''now'' False
      (received (\<lambda>_. \<lparr>year = 2025, month = 6, day = 1, hour = 12, minute = 0, second = 0, microsecond = 0, utcoffset = None\<rparr>) t) = Inr fd \<and>
    map_of fd ''is_new_device'' = Some (PBool True) \<and> 119 \<le> gx_amount t"
proof -
  let ?clock = "\<lambda>_. \<lparr>year = 2025, month = 6, day = 1, hour = 12, minute = 0, second = 0, microsecond = 0, utcoffset = None\<rparr>"
  obtain t s' where r: "run_state (generate_new_device_fraud demo_source demo_profile) new_generator = (t, s')" by fastforce
  obtain fd where fd: "build_feature_row demo_env default_config [] PNone 1 [''d1''] ''s'' ''now'' False (received ?clock t) = Inr fd"
    using built_small [OF received_amount] unfolding is_ok_conv by blast
  have d: "set (pf_devices demo_profile) \<inter> range (so_uuid demo_source) = {}" "set [''d1''] \<inter> range (so_uuid demo_source) = {}"
    "pf_avg demo_profile = 40"
    by (auto simp: demo_profile_def demo_source_def)
  show ?thesis using new_device_is_new [OF demo_honest _ r d(1,2) fd] r fd d(3) by auto
qed

end
