(* ===== verification/Startup.thy ===== *)
theory Startup
  imports Fraud_Signals
begin

text \<open>
  The start of the feature engine over the seeded dimension tables: the two queries of
  \<open>FraudFeatureEngine._load_user_baselines\<close> (\<open>stream_processing/feature_engine.py\<close>) with the life of their
  session.  The columns are floats and texts, so a row comes back as it was written.  What the engine
  knows of a user after its start is compared with the map the transaction generator started from.
\<close>

section \<open>The two queries\<close>

fun tier_name :: "risk_tier \<Rightarrow> string" where
  "tier_name LOW = ''LOW''"
| "tier_name MEDIUM = ''MEDIUM''"
| "tier_name HIGH = ''HIGH''"

text \<open>\<open>dict(zip(cols, row))\<close> of a current row, and the rows of trusted devices\<close>

definition dim_user :: "user_row \<Rightarrow> pydict" where
  "dim_user u =
    [(''user_id'', PStr (us_id u)), (''surrogate_key'', PStr (us_key u)), (''avg_transaction_amt'', PFloat (Fin (us_avg u))),
     (''stddev_transaction_amt'', PFloat (Fin (us_stddev u))), (''home_latitude'', PFloat (Fin (us_lat u))),
     (''home_longitude'', PFloat (Fin (us_lon u))), (''home_city'', PStr (us_city u)), (''risk_tier'', PStr (tier_name (us_tier u)))]"

definition select_users :: "tables \<Rightarrow> pydict list" where
  "select_users t = map dim_user (filter us_current (wh_users t))"

definition select_trusted :: "tables \<Rightarrow> (string \<times> string) list" where
  "select_trusted t = map (\<lambda>d. (dv_user d, dv_id d)) (filter dv_trusted (wh_devices t))"

record read_faults =
  rf_connect :: "pyexn option"
  rf_secondary :: "pyexn option"
  rf_users :: "pyexn option"
  rf_devices :: "pyexn option"

definition raising :: "pyexn option \<Rightarrow> pyexn + 'a \<Rightarrow> pyexn + 'a" where
  "raising fault x = (case fault of Some e \<Rightarrow> Inl e | None \<Rightarrow> x)"

text \<open>The confining statement stands before the \<open>try\<close>: only from there on is the session closed in any case.\<close>

definition load_user_baselines :: "read_faults \<Rightarrow> tables \<Rightarrow> ((string \<times> pydict) list \<times> (string \<times> string list) list, session) out" where
  "load_user_baselines rf t =
    (case rf_connect rf of
       Some e \<Rightarrow> (Inl e, No_Session)
     | None \<Rightarrow>
        (case rf_secondary rf of
           Some e \<Rightarrow> (Inl e, Open False)
         | None \<Rightarrow>
            (and_then (raising (rf_users rf) (load_baselines (select_users t) [])) (\<lambda>bs.
             and_then (raising (rf_devices rf) (Inr (load_devices (select_trusted t)))) (\<lambda>ds. Inr (bs, ds))), Closed)))"

definition no_read_faults :: read_faults where
  "no_read_faults = \<lparr>rf_connect = None, rf_secondary = None, rf_users = None, rf_devices = None\<rparr>"

text \<open>The session of a failed confinement is never closed.\<close>

lemma start_leaks_session:
  "rf_connect rf = None \<Longrightarrow> rf_secondary rf = Some e \<Longrightarrow> load_user_baselines rf t = (Inl e, Open False)"
  by (simp add: load_user_baselines_def)

section \<open>What the engine knows\<close>

definition baseline_row :: "user_row \<Rightarrow> pydict" where
  "baseline_row u =
    [(''surrogate_key'', PStr (us_key u)), (''avg_transaction_amt'', PFloat (Fin (us_avg u))),
     (''stddev_transaction_amt'', PFloat (Fin (us_stddev u))), (''home_latitude'', PFloat (Fin (us_lat u))),
     (''home_longitude'', PFloat (Fin (us_lon u))), (''home_city'', PStr (us_city u)), (''risk_tier'', PStr (tier_name (us_tier u)))]"

lemma float_or_zero: "float_or (PFloat (Fin x)) (PInt 0) = Inr (PFloat (Fin x))"
  by (simp add: float_or_def max_double_bound_def)

lemma float_or_nonzero: "x \<noteq> 0 \<Longrightarrow> float_or (PFloat (Fin x)) d = Inr (PFloat (Fin x))"
  by (simp add: float_or_def)

lemma baseline_dim_user:
  assumes "us_stddev u \<noteq> 0"
  shows "baseline_of (dim_user u) = Inr (us_id u, baseline_row u)"
  by (simp add: baseline_of_def dim_user_def baseline_row_def item_def float_or_zero float_or_nonzero [OF assms])

lemma load_baselines_rows:
  assumes "list_all (\<lambda>u. us_stddev u \<noteq> 0) us"
  shows "load_baselines (map dim_user us) acc = Inr (fold (\<lambda>u. AList.update (us_id u) (baseline_row u)) us acc)"
  using assms by (induction us arbitrary: acc) (simp_all add: baseline_dim_user)

lemma map_of_insert_default:
  "map_of (AList.map_default k [x] (List.insert x) al) u =
    (if k = u then Some (case map_of al u of Some xs \<Rightarrow> List.insert x xs | None \<Rightarrow> [x]) else map_of al u)"
  by (induction al) auto

lemma load_devices_lookup:
  "(case map_of (load_devices ps) u of Some xs \<Rightarrow> set xs | None \<Rightarrow> {}) = {d. (u, d) \<in> set ps} \<and>
    (map_of (load_devices ps) u = None \<longrightarrow> (\<forall>d. (u, d) \<notin> set ps))"
proof (induction ps rule: rev_induct)
  case (snoc p ps)
  then show ?case
    by (cases p) (auto simp: load_devices_def map_of_insert_default split: option.splits if_splits)
qed (simp add: load_devices_def)

lemma load_devices_some:
  assumes "(u, d) \<in> set ps"
  shows "\<exists>own. map_of (load_devices ps) u = Some own \<and> set own = {d. (u, d) \<in> set ps}"
  using load_devices_lookup [of ps u] assms by (auto split: option.splits)

text \<open>A start over a warehouse that holds exactly one generated population\<close>

lemma start_over_population:
  assumes "list_all plausible users" "distinct (map us_id users)" "wh_users t = users" "wh_devices t = devices"
  shows "load_user_baselines no_read_faults t =
    (Inr (map (\<lambda>u. (us_id u, baseline_row u)) users, load_devices (select_trusted t)), Closed)"
proof -
  have "us_stddev u \<noteq> 0" if "plausible u" for u using plausible_spread(1) [OF that] by simp
  then have sd: "list_all (\<lambda>u. us_stddev u \<noteq> 0) users" using assms(1) by (auto simp: list_all_iff)
  have "filter us_current users = users" using assms(1) by (auto simp: list_all_iff plausible_def)
  then have "load_baselines (select_users t) [] = Inr (map (\<lambda>u. (us_id u, baseline_row u)) users)"
    using load_baselines_rows [OF sd, of "[]"] updates_keys [of us_id users "[]" baseline_row] assms(2,3)
    by (simp add: select_users_def)
  then show ?thesis by (simp add: load_user_baselines_def no_read_faults_def raising_def)
qed

text \<open>The entry of one user, against the rows of the device table\<close>

definition same_user :: "device_row list \<Rightarrow> (string \<times> pydict) list \<Rightarrow> (string \<times> string list) list \<Rightarrow> string \<times> profile \<Rightarrow> bool" where
  "same_user rows bs ds e = (case e of (uid, p) \<Rightarrow>
     (case map_of bs uid of
        None \<Rightarrow> False
      | Some b \<Rightarrow>
          map_of b ''avg_transaction_amt'' = Some (PFloat (Fin (pf_avg p))) \<and>
          map_of b ''stddev_transaction_amt'' = Some (PFloat (Fin (pf_stddev p))) \<and>
          map_of b ''home_latitude'' = Some (PFloat (Fin (pf_lat p))) \<and>
          map_of b ''home_longitude'' = Some (PFloat (Fin (pf_lon p)))) \<and>
     (case map_of ds uid of
        None \<Rightarrow> False
      | Some own \<Rightarrow> pf_devices p \<noteq> [] \<and> hd (pf_devices p) \<in> set own \<and>
          set (pf_devices p) = dv_id ` set (filter (\<lambda>d. dv_user d = uid) rows) \<and>
          set own = dv_id ` set (filter (\<lambda>d. dv_user d = uid \<and> dv_trusted d) rows)))"

lemma map_of_rows:
  assumes "distinct (map us_id users)" "u \<in> set users"
  shows "map_of (map (\<lambda>u. (us_id u, f u)) users) (us_id u) = Some (f u)"
proof -
  have "(us_id u, f u) \<in> set (map (\<lambda>u. (us_id u, f u)) users)" using assms(2) by auto
  moreover have "distinct (map fst (map (\<lambda>u. (us_id u, f u)) users))" using assms(1) by (simp add: o_def)
  ultimately show ?thesis by simp
qed

lemma user_map_rows:
  "distinct (map us_id users) \<Longrightarrow> save_user_map users devices = map (\<lambda>u. (us_id u, profile_of (device_map devices) u)) users"
  using updates_keys [of us_id users "[]" "profile_of (device_map devices)"] by (simp add: save_user_map_def)

lemma in_select_trusted:
  "(u, x) \<in> set (select_trusted t) \<longleftrightarrow> (\<exists>d\<in>set (wh_devices t). dv_trusted d \<and> dv_user d = u \<and> x = dv_id d)"
  by (force simp: select_trusted_def)

lemma trusted_set:
  "{d. (us_id u, d) \<in> set (select_trusted t)} = dv_id ` set (filter (\<lambda>d. dv_user d = us_id u \<and> dv_trusted d) (wh_devices t))"
  by (auto simp: in_select_trusted)

lemma same_after_start:
  assumes "distinct (map us_id users)" "list_all (equipped devices) users" "wh_devices t = devices"
  shows "list_all (same_user devices (map (\<lambda>u. (us_id u, baseline_row u)) users) (load_devices (select_trusted t))) (save_user_map users devices)"
proof -
  have "same_user devices (map (\<lambda>u. (us_id u, baseline_row u)) users) (load_devices (select_trusted t)) (us_id u, profile_of (device_map devices) u)"
    if u: "u \<in> set users" for u
  proof -
    let ?own = "filter (\<lambda>d. dv_user d = us_id u) devices"
    have e: "?own \<noteq> []" "dv_trusted (hd ?own)" using assms(2) u by (auto simp: list_all_iff equipped_def Let_def)
    then have h: "hd ?own \<in> set devices \<and> dv_user (hd ?own) = us_id u" using hd_in_set [OF e(1)] by auto
    then have "(us_id u, dv_id (hd ?own)) \<in> set (select_trusted t)" using e(2) unfolding in_select_trusted assms(3) by blast
    from load_devices_some [OF this] obtain own where own: "map_of (load_devices (select_trusted t)) (us_id u) = Some own"
      "set own = {d. (us_id u, d) \<in> set (select_trusted t)}" by blast
    have "dv_id (hd ?own) \<in> set own" using own(2) \<open>(us_id u, dv_id (hd ?own)) \<in> set (select_trusted t)\<close> by simp
    moreover have "set own = dv_id ` set (filter (\<lambda>d. dv_user d = us_id u \<and> dv_trusted d) devices)"
      unfolding own(2) trusted_set assms(3) ..
    moreover have "pf_devices (profile_of (device_map devices) u) = map dv_id ?own"
      using e(1) by (simp add: profile_of_def device_map_lookup)
    ultimately show ?thesis
      using own(1) e(1) map_of_rows [OF assms(1) u, of baseline_row]
      by (simp add: same_user_def baseline_row_def profile_of_def hd_map)
  qed
  then show ?thesis by (simp add: user_map_rows [OF assms(1)] list_all_iff)
qed

text \<open>What a run of the seeding over an empty warehouse leaves, and the start over it\<close>

lemma seeded_start:
  assumes "honest src" "run_profiles env s src cf n empty_tables k = (um, (Inr (), w, t), k')"
  obtains users devices where "list_all plausible users" "distinct (map us_id users)" "list_all (equipped devices) users"
    "length users = nat n" "um = save_user_map users devices" "wh_users t = users" "wh_devices t = devices"
    "set (map dv_id devices) \<subseteq> range (so_uuid src)"
proof -
  obtain users devices k1 where g: "run_state (generate_profiles src n) k = ((users, devices), k1)" by (metis prod.collapse)
  then have w: "write_to_snowflake env s cf users devices empty_tables = (Inr (), w, t)" and um: "um = save_user_map users devices"
    using assms(2) by (simp_all add: run_profiles_def)
  obtain s1 where r: "run_state (generate_users src (nat n)) k = (users, s1)" "run_state (generate_devices src users) s1 = (devices, k1)"
    using g by (auto simp: generate_profiles_def split: prod.splits)
  note u = users_generated [OF assms(1) r(1)]
  have d: "distinct (map us_id users)" using minted_distinct [OF assms(1)] u by blast
  have dev: "minted src dv_id (tick s1) devices (tick k1)" "list_all (equipped devices) users"
    using devices_generated [OF assms(1) r(2) d] by simp_all
  have "set (map dv_id devices) \<subseteq> range (so_uuid src)"
  proof -
    obtain ks where "map dv_id devices = map (so_uuid src) ks" using dev(1) unfolding minted_def by blast
    then show ?thesis by (metis image_set subset_UNIV image_mono)
  qed
  moreover have "wh_users t = users" "wh_devices t = devices"
    using seed_cases(1) [OF w] by (simp_all add: empty_tables_def seeded_def)
  ultimately show ?thesis using that u d dev(2) um by blast
qed

section \<open>The generator and the engine\<close>

text \<open>C29: The generator and the feature engine start from the same population: after a run of the seeding over
  an empty warehouse the engine's start succeeds, closes its session and knows exactly the users of the
  saved map, each with the mean, the deviation and the home that the generator draws from.  The map lists for a user
  exactly that user's rows of the device table, and the engine trusts exactly those of them that are marked as
  trusted, among them the first one.\<close>

theorem engine_knows_population:
  assumes "honest src" "run_profiles env s src cf n empty_tables k = (um, (Inr (), w, t), k')"
  shows "\<exists>bs ds. load_user_baselines no_read_faults t = (Inr (bs, ds), Closed) \<and>
    map fst bs = map fst um \<and> distinct (map fst um) \<and> length um = nat n \<and> list_all (same_user (wh_devices t) bs ds) um"
proof -
  obtain users devices where p: "list_all plausible users" "distinct (map us_id users)" "list_all (equipped devices) users"
    "length users = nat n" "um = save_user_map users devices" "wh_users t = users" "wh_devices t = devices"
    using seeded_start [OF assms] by blast
  show ?thesis
    using start_over_population [OF p(1,2,6,7)] same_after_start [OF p(2,3,7)] p(2,4) unfolding p(5,7)
    by (auto simp: user_map_rows o_def)
qed

lemma new_device_user:
  assumes "run_state (generate_new_device_fraud src p) s = (t, s')"
  shows "gx_user t = pf_id p"
  using assms unfolding generate_new_device_fraud_def by (auto split: prod.splits)

text \<open>The entry of the saved map and what the engine scores that user's transactions with\<close>

lemma started_user:
  assumes "honest src" "run_profiles env s src cf n empty_tables k = (um, (Inr (), w, t), k')"
    and "load_user_baselines no_read_faults t = (Inr (bs, ds), sess)" "(uid, p) \<in> set um"
  obtains u dm own where "plausible u" "us_id u = uid" "p = profile_of dm u" "map_of bs uid = Some (baseline_row u)"
    "map_of ds uid = Some own" "set own \<subseteq> range (so_uuid src)" "set (pf_devices p) \<subseteq> range (so_uuid src)"
proof -
  obtain users devices where p: "list_all plausible users" "distinct (map us_id users)" "list_all (equipped devices) users"
    "um = save_user_map users devices" "wh_users t = users" "wh_devices t = devices" "set (map dv_id devices) \<subseteq> range (so_uuid src)"
    using seeded_start [OF assms(1,2)] by blast
  have b: "bs = map (\<lambda>u. (us_id u, baseline_row u)) users" "ds = load_devices (select_trusted t)"
    using start_over_population [OF p(1,2,5,6)] assms(3) by simp_all
  obtain u where u: "u \<in> set users" "uid = us_id u" "p = profile_of (device_map devices) u"
    using assms(4) unfolding p(4) user_map_rows [OF p(2)] by auto
  have "same_user devices bs ds (uid, p)" using same_after_start [OF p(2,3,6)] assms(4) unfolding b p(4) list_all_iff by blast
  then obtain own where own: "map_of ds uid = Some own" "set own \<subseteq> set (pf_devices p)"
    by (auto simp: same_user_def split: option.splits)
  have "set (pf_devices p) \<subseteq> dv_id ` set devices" unfolding u(3) by (auto simp: profile_of_def device_map_lookup)
  then have "set (pf_devices p) \<subseteq> range (so_uuid src)" using p(7) by auto
  moreover have "plausible u" using p(1) u(1) by (auto simp: list_all_iff)
  moreover have "map_of bs uid = Some (baseline_row u)" using map_of_rows [OF p(2) u(1), of baseline_row] unfolding b u(2) .
  ultimately show ?thesis using that own u by blast
qed

text \<open>C18: The pipeline from the seeding to the flag catches what the generator plants: over a freshly seeded
  warehouse, for every user of the saved map, every row the engine builds for a transaction with the amount of a
  z-score anomaly is flagged for review, and every row it builds for a new-device fraud is marked as coming from a
  new device, as long as the generator issues no identifier that the seeding has issued.\<close>

theorem seeded_engine_catches:
  assumes "honest src" "honest gen" "range (so_uuid gen) \<inter> range (so_uuid src) = {}"
    and "run_profiles env s src cf n empty_tables k = (um, (Inr (), w, t), k')"
    and "load_user_baselines no_read_faults t = (Inr (ee_baselines eng, ee_devices eng), sess)"
    and "ec_scoring (ee_config eng) = default_config" "(uid, p) \<in> set um"
  shows "(run_state (anomaly_amount gen p Zscore) g = (a, g1) \<and> tx_user row = uid \<and> tx_amount row = Some (Fin a) \<and>
      feature_of eng f locs vels (row, sid) = Inr fd \<longrightarrow> map_of fd ''is_flagged_for_review'' = Some (PBool True)) \<and>
    (run_state (generate_new_device_fraud gen p) g = (x, g2) \<and> feature_of eng f locs vels (received clock x, sid) = Inr fd \<longrightarrow>
      map_of fd ''is_new_device'' = Some (PBool True))"
proof -
  obtain u dm own where u: "plausible u" "us_id u = uid" "p = profile_of dm u" "map_of (ee_baselines eng) uid = Some (baseline_row u)"
    "map_of (ee_devices eng) uid = Some own" "set own \<subseteq> range (so_uuid src)" "set (pf_devices p) \<subseteq> range (so_uuid src)"
    using started_user [OF assms(1,4,5,7)] by blast
  have b: "dict_get (baseline_row u) ''avg_transaction_amt'' (PFloat (Fin 50)) = PFloat (Fin (us_avg u))"
    "dict_get (baseline_row u) ''stddev_transaction_amt'' (PFloat (Fin 20)) = PFloat (Fin (us_stddev u))"
    by (simp_all add: dict_get_def baseline_row_def)
  have "map_of fd ''is_flagged_for_review'' = Some (PBool True)"
    if "run_state (anomaly_amount gen p Zscore) g = (a, g1)" "tx_user row = uid" "tx_amount row = Some (Fin a)"
      "feature_of eng f locs vels (row, sid) = Inr fd"
  proof -
    have r: "run_state (anomaly_amount gen (profile_of dm u) Zscore) g = (a, g1)" using that(1) unfolding u(3) .
    show ?thesis
      using zscore_anomaly_is_flagged [OF assms(2) u(1) r b that(3)] that(2,4) u(4) assms(6) by (simp add: feature_of_def)
  qed
  moreover have "map_of fd ''is_new_device'' = Some (PBool True)"
    if "run_state (generate_new_device_fraud gen p) g = (x, g2)" "feature_of eng f locs vels (received clock x, sid) = Inr fd"
  proof -
    have "0 \<le> pf_avg p" using plausible_spread(2) [OF u(1)] u(3) by (simp add: profile_of_def)
    moreover have "set (pf_devices p) \<inter> range (so_uuid gen) = {}" "set own \<inter> range (so_uuid gen) = {}" using u(6,7) assms(3) by blast+
    moreover have "tx_user (received clock x) = uid" using new_device_user [OF that(1)] u(2,3) by (simp add: received_def profile_of_def)
    ultimately show ?thesis
      using new_device_is_new [OF assms(2) _ that(1)] that(2) u(5) by (simp add: feature_of_def)
  qed
  ultimately show ?thesis by blast
qed

section \<open>A seeded platform\<close>

lemma validate_row_ok:
  assumes "z = Fin z'" "score_signals s cfg = Fin r" "0 \<le> r" "r \<le> 1" "0 \<le> a"
    and "tx_pattern row \<in> PStr ` {''VELOCITY_SPIKE'', ''GEO_JUMP'', ''NEW_DEVICE'', ''AMOUNT_ANOMALY''}"
  shows "validate_feature_row (row_fields cfg b row g v devs uid now avg sd (Fin a) z s) = Inr ()"
  using assms
  by (auto simp: validate_feature_row_def item_def row_field validate_amount_ok validate_probability_ok check_zscore_ok
      identified_pattern_ok unit_interval_Fin fl_round_Fin simp del: fl_round.simps)

lemma score_unit:
  assumes "0 \<le> a" "a \<le> 1" "0 \<le> d" "d \<le> 1"
  shows "\<exists>r. compute_risk_score (Fin 0) (Fin a) (Fin 0) (Fin d) risk_weights = Fin r \<and> 0 \<le> r \<and> r \<le> 1"
proof -
  have w: "0 \<le> min (weighted risk_weights 0 a 0 d) 1" "min (weighted risk_weights 0 a 0 d) 1 \<le> 1"
    using assms by (simp_all add: weighted_def risk_weights_def)
  show ?thesis
    using round_to_between [OF w, of 4 0 10000] by (simp add: risk_score_Fin)
qed

lemma built_valid:
  assumes "tx_amount row = Some (Fin a)" "0 \<le> a" "0 < sd"
    and "dict_get baseline ''avg_transaction_amt'' (PFloat (Fin 50)) = PFloat (Fin avg)"
    and "dict_get baseline ''stddev_transaction_amt'' (PFloat (Fin 20)) = PFloat (Fin sd)"
    and "tx_pattern row \<in> PStr ` {''VELOCITY_SPIKE'', ''GEO_JUMP'', ''NEW_DEVICE'', ''AMOUNT_ANOMALY''}"
  shows "is_ok (build_feature_row env default_config baseline PNone 0 devices uid now True row)"
proof -
  let ?z = "(a - avg) / sd" and ?n = "is_new_device (tx_device row) devices"
  have g: "geo_of env PNone row = no_geo" by (simp add: geo_of_def)
  obtain r where r: "score_signals (signals_of (Fin 0) (Fin ?z) None ?n) default_config = Fin r" "0 \<le> r" "r \<le> 1"
  proof -
    have "\<exists>r. score_signals (signals_of (Fin 0) (Fin ?z) None ?n) default_config = Fin r \<and> 0 \<le> r \<and> r \<le> 1"
      using score_unit [of "min (\<bar>?z\<bar> / zscore_max_normal) 1" 1] score_unit [of "min (\<bar>?z\<bar> / zscore_max_normal) 1" 0]
      by (cases ?n) (simp_all add: score_signals_def signals_of_def default_config_def velocity_max_normal_def geo_max_normal_km_def
          zscore_max_normal_def fl_truthy_def)
    then show thesis using that by blast
  qed
  have "validate_feature_row (row_fields default_config baseline row no_geo 0 devices uid now (PFloat (Fin avg)) (PFloat (Fin sd)) (Fin a)
      (Fin ?z) (signals_of (Fin 0) (Fin ?z) None ?n)) = Inr ()"
    by (rule validate_row_ok [OF refl r assms(2,6)])
  then show ?thesis
    using assms g arith_small [of 0]
    by (simp add: build_feature_row_def Let_def zscore_of_def arith_def [of "PFloat f" for f] fl_sub_def no_geo_def)
qed

lemma anomaly_positive:
  assumes "honest src" "plausible u" "run_state (anomaly_amount src (profile_of dm u) Zscore) s = (a, s')"
  shows "0 \<le> a"
proof -
  have avg: "15 \<le> us_avg u" using assms(2) by (cases "us_tier u") (simp_all add: plausible_def in_range_def)
  then have "gives (\<lambda>a. us_avg u * 5 - 1 / 100 \<le> a \<and> a \<le> us_avg u * 15 + 1 / 100) (anomaly_amount src (profile_of dm u) Zscore)"
    using multiple_gives [OF assms(1), of "us_avg u" 5 15] by (simp add: anomaly_amount_def profile_of_def amount_anomaly_multiplier_def)
  from gives_run [OF this assms(3)] have "us_avg u * 5 - 1 / 100 \<le> a" by simp
  then show ?thesis using avg by linarith
qed

lemma seeds_empty:
  assumes "require_credentials (st_snowflake s) = Inr x"
  shows "\<exists>w t. write_to_snowflake env s no_faults users devices empty_tables = (Inr (), w, t)"
  using assms
  by (simp add: write_to_snowflake_def connect_def new_writer_def no_faults_def check_users_exist_def write_users_def write_devices_def
      on_cursor_def get_cursor_def empty_tables_def)

lemma demo_seeding:
  "\<exists>s um w t k'. load demo_environment = Inr s \<and>
    run_profiles demo_environment s demo_source no_faults 2 empty_tables \<lparr>tick = 0\<rparr> = (um, (Inr (), w, t), k')"
proof -
  obtain s where s: "load demo_environment = Inr s"
    using load_ok [of demo_environment]
    by (auto simp: is_ok_conv readable_port_def demo_environment_def parse_int_def strip_def lstrip_def rstrip_def is_space_def is_digit_def code_def)
  have "require_credentials (st_snowflake s) = Inr (st_snowflake s)"
    using load_fields [OF s] by (simp add: require_credentials_ok not_given_def demo_environment_def)
  note w = seeds_empty [OF this, of demo_environment]
  obtain users devices k where "run_state (generate_profiles demo_source 2) \<lparr>tick = 0\<rparr> = ((users, devices), k)" by (metis prod.collapse)
  then show ?thesis using s w [of users devices] by (auto simp: run_profiles_def)
qed

lemma engine_knows_population_witness:
  "\<exists>s um w t k' bs ds. run_profiles demo_environment s demo_source no_faults 2 empty_tables \<lparr>tick = 0\<rparr> = (um, (Inr (), w, t), k') \<and>
    load_user_baselines no_read_faults t = (Inr (bs, ds), Closed) \<and> map fst bs = map fst um \<and> length um = 2"
proof -
  obtain s um w t k' where r: "run_profiles demo_environment s demo_source no_faults 2 empty_tables \<lparr>tick = 0\<rparr> = (um, (Inr (), w, t), k')"
    using demo_seeding by blast
  obtain bs ds where "load_user_baselines no_read_faults t = (Inr (bs, ds), Closed)" "map fst bs = map fst um" "length um = nat 2"
    using engine_knows_population [OF demo_honest r] by blast
  then show ?thesis using r by (intro exI conjI) simp_all
qed

definition demo_gen :: source where
  "demo_gen = demo_source\<lparr>so_uuid := (\<lambda>k. ''gen-'' @ replicate k CHR ''x'')\<rparr>"

lemma demo_gen_honest: "honest demo_gen" "range (so_uuid demo_gen) \<inter> range (so_uuid demo_source) = {}"
  by (auto simp: honest_def demo_gen_def demo_source_def inj_def)

definition started_engine :: "(string \<times> pydict) list \<Rightarrow> (string \<times> string list) list \<Rightarrow> engine_env" where
  "started_engine bs ds = demo_engine\<lparr>ee_baselines := bs, ee_devices := ds\<rparr>"

lemma demo_engine_scores:
  assumes "map_of bs (tx_user row) = Some (baseline_row u)" "plausible u" "tx_amount row = Some (Fin a)" "0 \<le> a"
    and "tx_pattern row \<in> PStr ` {''VELOCITY_SPIKE'', ''GEO_JUMP'', ''NEW_DEVICE'', ''AMOUNT_ANOMALY''}"
  shows "is_ok (feature_of (started_engine bs ds) demo_faults Map.empty [] (row, demo_draws))"
proof -
  have "dict_get (baseline_row u) ''avg_transaction_amt'' (PFloat (Fin 50)) = PFloat (Fin (us_avg u))"
    "dict_get (baseline_row u) ''stddev_transaction_amt'' (PFloat (Fin 20)) = PFloat (Fin (us_stddev u))"
    by (simp_all add: dict_get_def baseline_row_def)
  from built_valid [OF assms(3,4) plausible_spread(1) [OF assms(2)] this assms(5)]
  show ?thesis using assms(1) by (simp add: feature_of_def started_engine_def demo_engine_def production_config_def)
qed

lemma seeded_engine_catches_witness:
  "\<exists>s um w t k' bs ds uid p a g1 row fd. run_profiles demo_environment s demo_source no_faults 2 empty_tables \<lparr>tick = 0\<rparr> = (um, (Inr (), w, t), k') \<and>
    load_user_baselines no_read_faults t = (Inr (bs, ds), Closed) \<and> (uid, p) \<in> set um \<and>
    run_state (anomaly_amount demo_gen p Zscore) new_generator = (a, g1) \<and> tx_user row = uid \<and> tx_amount row = Some (Fin a) \<and>
    feature_of (started_engine bs ds) demo_faults Map.empty [] (row, demo_draws) = Inr fd \<and>
    map_of fd ''is_flagged_for_review'' = Some (PBool True)"
proof -
  obtain s um w t k' where r: "run_profiles demo_environment s demo_source no_faults 2 empty_tables \<lparr>tick = 0\<rparr> = (um, (Inr (), w, t), k')"
    using demo_seeding by blast
  obtain users devices where p: "list_all plausible users" "distinct (map us_id users)" "length users = nat 2"
    "um = save_user_map users devices" "wh_users t = users" "wh_devices t = devices"
    using seeded_start [OF demo_honest r] by metis
  obtain bs ds where l: "load_user_baselines no_read_faults t = (Inr (bs, ds), Closed)"
    using start_over_population [OF p(1,2,5,6)] by blast
  obtain uid pr where e: "(uid, pr) \<in> set um" using p(3) unfolding p(4) user_map_rows [OF p(2)] by (cases users) auto
  obtain u dm where u: "plausible u" "us_id u = uid" "pr = profile_of dm u" "map_of bs uid = Some (baseline_row u)"
    using started_user [OF demo_honest r l e] by metis
  obtain a g1 where a: "run_state (anomaly_amount demo_gen pr Zscore) new_generator = (a, g1)" by fastforce
  have pos: "0 \<le> a" using anomaly_positive [OF demo_gen_honest(1) u(1)] a unfolding u(3) by blast
  let ?row = "demo_txn\<lparr>tx_user := uid, tx_amount := Some (Fin a), tx_pattern := PStr ''AMOUNT_ANOMALY''\<rparr>"
  have row: "tx_user ?row = uid" "tx_amount ?row = Some (Fin a)" "tx_pattern ?row = PStr ''AMOUNT_ANOMALY''" by simp_all
  obtain fd where fd: "feature_of (started_engine bs ds) demo_faults Map.empty [] (?row, demo_draws) = Inr fd"
    using demo_engine_scores [of bs ?row u a ds] u(1,4) pos unfolding is_ok_conv row by auto
  have l': "load_user_baselines no_read_faults t = (Inr (ee_baselines (started_engine bs ds), ee_devices (started_engine bs ds)), Closed)"
    and c: "ec_scoring (ee_config (started_engine bs ds)) = default_config"
    using l by (simp_all add: started_engine_def demo_engine_def production_config_def)
  have "map_of fd ''is_flagged_for_review'' = Some (PBool True)"
    using seeded_engine_catches [OF demo_honest demo_gen_honest r l' c e, where row = ?row and a = a and fd = fd] a row fd by blast
  then show ?thesis using r l e a row fd by blast
qed

end
