(* ===== verification/Chunker.thy ===== *)
theory Chunker
  imports Py_Strings
begin

text \<open>
  \<open>retrieval/chunker.py\<close> and \<open>retrieval/ingest.py\<close>: policy documents are cut at their H2 headings into
  chunks that fit the embedding model, and a collection is rebuilt from them.  The two regular expressions are
  written out as matchers, with the backtracking of their white space.  The embedder and the objects that the
  vector store rejects are parameters.
\<close>

section \<open>Headings\<close>

definition chunk_max_words :: nat where
  "chunk_max_words = 180"

definition newline :: char where
  "newline = CHR 0x0A"

text \<open>\<open>\s+(.+)$\<close> on the text after the hashes: the group and what follows the match.  The white space takes all it
  can, line breaks included; when nothing is left for the group, it gives back up to its last character that is
  not a line break.\<close>

definition heading_group :: "string \<Rightarrow> (string \<times> string) option" where
  "heading_group s =
    (let ws = takeWhile is_space s; rest = dropWhile is_space s in
     if ws = [] then None
     else if rest \<noteq> [] then Some (takeWhile (\<lambda>c. c \<noteq> newline) rest, dropWhile (\<lambda>c. c \<noteq> newline) rest)
     else (case dropWhile (\<lambda>c. c = newline) (rev ws) of
             c # d # _ \<Rightarrow> Some ([c], takeWhile (\<lambda>c. c = newline) (rev ws))
           | _ \<Rightarrow> None))"

definition heading_at :: "string \<Rightarrow> string \<Rightarrow> (string \<times> string) option" where
  "heading_at hashes s = (if prefix hashes s then heading_group (drop (length hashes) s) else None)"

text \<open>The first match at the start of a line: the text before it, its group and the text after it.\<close>

fun find_heading :: "string \<Rightarrow> bool \<Rightarrow> string \<Rightarrow> (string \<times> string \<times> string) option" where
  "find_heading hashes bol [] = None"
| "find_heading hashes bol (c # cs) =
    (case (if bol then heading_at hashes (c # cs) else None) of
       Some (g, rest) \<Rightarrow> Some ([], g, rest)
     | None \<Rightarrow> map_option (\<lambda>(before, g, rest). (c # before, g, rest)) (find_heading hashes (c = newline) cs))"

lemma heading_group_length: "heading_group s = Some (g, rest) \<Longrightarrow> length rest < length s"
proof -
  assume g: "heading_group s = Some (g, rest)"
  have s: "length s = length (takeWhile is_space s) + length (dropWhile is_space s)"
    by (metis length_append takeWhile_dropWhile_id)
  have le: "length (dropWhile P t) \<le> length t" "length (takeWhile P t) \<le> length t" for P and t :: string
    by (rule length_dropWhile_le, rule length_takeWhile_le)
  show ?thesis
  proof (cases "dropWhile is_space s = []")
    case True
    define r where "r = rev (takeWhile is_space s)"
    from g True obtain c d ds where r: "dropWhile (\<lambda>c. c = newline) r = c # d # ds" "rest = takeWhile (\<lambda>c. c = newline) r"
      by (auto simp: heading_group_def Let_def r_def split: if_splits list.splits)
    have "length r = length rest + length (c # d # ds)" unfolding r(2) r(1) [symmetric] by (metis length_append takeWhile_dropWhile_id)
    then show ?thesis using s by (simp add: r_def)
  next
    case False
    then have "takeWhile is_space s \<noteq> []" "rest = dropWhile (\<lambda>c. c \<noteq> newline) (dropWhile is_space s)"
      using g by (auto simp: heading_group_def Let_def split: if_splits)
    then show ?thesis using s le(1) [of "\<lambda>c. c \<noteq> newline" "dropWhile is_space s"] by (cases "takeWhile is_space s") auto
  qed
qed

lemma find_heading_length: "find_heading hashes bol s = Some (before, g, rest) \<Longrightarrow> length rest < length s"
proof (induction hashes bol s arbitrary: before rule: find_heading.induct)
  case (2 hashes bol c cs)
  show ?case
  proof (cases "if bol then heading_at hashes (c # cs) else None")
    case None
    then obtain b' where "find_heading hashes (c = newline) cs = Some (b', g, rest)" using "2.prems" by auto
    then show ?thesis using "2.IH" [OF None] by fastforce
  next
    case (Some m)
    then have "heading_group (drop (length hashes) (c # cs)) = Some (g, rest)"
      using "2.prems" by (auto simp: heading_at_def split: if_splits)
    from heading_group_length [OF this] show ?thesis by simp
  qed
qed simp

definition extract_title :: "string \<Rightarrow> string option" where
  "extract_title s = map_option (\<lambda>(_, g, _). strip g) (find_heading ''#'' True s)"

text \<open>The sections that start with the heading named last\<close>

function sections_from :: "string \<Rightarrow> string \<Rightarrow> (string \<times> string) list" where
  "sections_from name s =
    (case find_heading ''##'' False s of
       None \<Rightarrow> [(strip name, strip s)]
     | Some (body, g, rest) \<Rightarrow> (strip name, strip body) # sections_from g rest)"
  by pat_completeness auto
termination
  by (relation "measure (\<lambda>(name, s). length s)") (auto dest: find_heading_length)

declare sections_from.simps [simp del]

definition split_by_h2 :: "string \<Rightarrow> (string \<times> string) list" where
  "split_by_h2 s = (case find_heading ''##'' True s of None \<Rightarrow> [] | Some (_, g, rest) \<Rightarrow> sections_from g rest)"

text \<open>The text with its title heading taken out\<close>

definition without_title :: "string \<Rightarrow> string" where
  "without_title s = (case find_heading ''#'' True s of None \<Rightarrow> s | Some (before, _, rest) \<Rightarrow> before @ rest)"

section \<open>Chunks of a section\<close>

record chunk =
  ck_pattern :: string
  ck_section :: string
  ck_text :: string
  ck_source_file :: string
  ck_document_type :: string
  ck_word_count :: nat

definition context_prefix :: "string \<Rightarrow> string" where
  "context_prefix pattern = ''Fraud Pattern: '' @ pattern @ [newline, newline]"

definition heading_text :: "string \<Rightarrow> string \<Rightarrow> string" where
  "heading_text pattern name = context_prefix pattern @ ''## '' @ name @ [newline]"

definition word_count :: "string \<Rightarrow> nat" where
  "word_count s = length (split_ws s)"

definition finalize_subchunk :: "string \<Rightarrow> string \<Rightarrow> string list \<Rightarrow> string \<Rightarrow> string \<Rightarrow> chunk" where
  "finalize_subchunk pattern name paras file doctype =
    (let t = heading_text pattern name @ join [newline, newline] paras
     in \<lparr>ck_pattern = pattern, ck_section = name, ck_text = t, ck_source_file = file, ck_document_type = doctype,
         ck_word_count = word_count t\<rparr>)"

text \<open>\<open>s.split(two line breaks)\<close>\<close>

fun split_blank :: "string \<Rightarrow> string list" where
  "split_blank [] = [[]]"
| "split_blank [c] = [[c]]"
| "split_blank (c # d # cs) =
    (if c = newline \<and> d = newline then [] # split_blank cs
     else (case split_blank (d # cs) of p # ps \<Rightarrow> (c # p) # ps | [] \<Rightarrow> [[c]]))"

definition paragraphs_of :: "string \<Rightarrow> string list" where
  "paragraphs_of body = filter (\<lambda>p. p \<noteq> []) (map strip (split_blank body))"

text \<open>The slices \<open>words[i:i + n]\<close> for \<open>i\<close> in steps of \<open>n > 0\<close>\<close>

function slices :: "nat \<Rightarrow> 'a list \<Rightarrow> 'a list list" where
  "slices n ws = (if n = 0 \<or> ws = [] then [] else take n ws # slices n (drop n ws))"
  by pat_completeness auto
termination
  by (relation "measure (\<lambda>(n, ws). length ws)") auto

declare slices.simps [simp del]

text \<open>The pieces of one paragraph.  \<open>range\<close> raises at step 0 and is empty at a negative step.\<close>

definition split_paragraph :: "int \<Rightarrow> string \<Rightarrow> pyexn + string list" where
  "split_paragraph budget para =
    (let ws = split_ws para in
     if int (length ws) \<le> budget then Inr [para]
     else if budget = 0 then Inl (Exn ValueError ''range() arg 3 must not be zero'')
     else if budget < 0 then Inr []
     else Inr (map (join '' '') (slices (nat budget) ws)))"

fun split_oversized_paragraphs :: "int \<Rightarrow> string list \<Rightarrow> pyexn + string list" where
  "split_oversized_paragraphs budget [] = Inr []"
| "split_oversized_paragraphs budget (para # paras) =
    and_then (split_paragraph budget para) (\<lambda>pieces.
    and_then (split_oversized_paragraphs budget paras) (\<lambda>ps. Inr (pieces @ ps)))"

text \<open>The loop over the paragraphs, with the current group and its number of words\<close>

fun group_paragraphs :: "int \<Rightarrow> string list \<Rightarrow> nat \<Rightarrow> string list \<Rightarrow> string list list" where
  "group_paragraphs budget grp n [] = (if grp = [] then [] else [grp])"
| "group_paragraphs budget grp n (para # paras) =
    (if int (n + word_count para) > budget \<and> grp \<noteq> []
     then grp # group_paragraphs budget [para] (word_count para) paras
     else group_paragraphs budget (grp @ [para]) (n + word_count para) paras)"

definition effective_budget :: "string \<Rightarrow> string \<Rightarrow> int" where
  "effective_budget pattern name = int chunk_max_words - int (word_count (heading_text pattern name))"

definition build_chunks :: "string \<Rightarrow> string \<Rightarrow> string \<Rightarrow> string \<Rightarrow> string \<Rightarrow> pyexn + chunk list" where
  "build_chunks pattern name body file doctype =
    (let full = heading_text pattern name @ body; n = word_count full; budget = effective_budget pattern name in
     if n \<le> chunk_max_words
     then Inr [\<lparr>ck_pattern = pattern, ck_section = name, ck_text = full, ck_source_file = file,
                ck_document_type = doctype, ck_word_count = n\<rparr>]
     else and_then (split_oversized_paragraphs budget (paragraphs_of body)) (\<lambda>paras.
            Inr (map (\<lambda>g. finalize_subchunk pattern name g file doctype) (group_paragraphs budget [] 0 paras))))"

section \<open>Documents\<close>

fun build_sections :: "string \<Rightarrow> (string \<times> string) list \<Rightarrow> string \<Rightarrow> string \<Rightarrow> pyexn + chunk list" where
  "build_sections pattern [] file doctype = Inr []"
| "build_sections pattern ((name, body) # secs) file doctype =
    and_then (build_chunks pattern name body file doctype) (\<lambda>cs.
    and_then (build_sections pattern secs file doctype) (\<lambda>ds. Inr (cs @ ds)))"

definition no_title :: "string \<Rightarrow> pyexn" where
  "no_title file = Exn ValueError (file @ '': no H1 title found -- every policy/case-study doc must start with '' @
     [CHR 0x27] @ ''# PATTERN_NAME'' @ [CHR 0x27])"

definition chunk_document :: "string \<Rightarrow> string \<Rightarrow> string \<Rightarrow> pyexn + chunk list" where
  "chunk_document md file doctype =
    (case extract_title md of
       None \<Rightarrow> Inl (no_title file)
     | Some pattern \<Rightarrow>
        if pattern = [] then Inl (no_title file)
        else let secs = split_by_h2 md;
                 secs = (if secs = [] then [(''Full Document'', strip (without_title md))] else secs)
             in build_sections pattern secs file doctype)"

text \<open>\<open>load_documents\<close>: the files of a directory, name and text, in the order of their names.\<close>

fun load_documents :: "(string \<times> string) list \<Rightarrow> string \<Rightarrow> pyexn + chunk list" where
  "load_documents [] doctype = Inr []"
| "load_documents ((file, md) # docs) doctype =
    and_then (chunk_document md file doctype) (\<lambda>cs.
    and_then (load_documents docs doctype) (\<lambda>ds. Inr (cs @ ds)))"

section \<open>Words\<close>

lemma split_ws_Nil [simp]: "split_ws [] = []"
  by (simp add: split_ws_def)

lemma split_ws_append:
  assumes "is_space c" shows "split_ws (a @ c # b) = split_ws a @ split_ws b"
proof -
  have "split_ws_aux (a @ c # b) w = split_ws_aux a w @ split_ws_aux b []" for w
    using assms by (induction a arbitrary: w) auto
  then show ?thesis by (simp add: split_ws_def)
qed

lemma newline_space [simp]: "is_space newline" "is_space CHR '' ''"
  by (simp_all add: is_space_def newline_def code_def)

lemma split_ws_Cons [simp]: "is_space c \<Longrightarrow> split_ws (c # b) = split_ws b"
  using split_ws_append [of c "[]" b] by simp

lemma split_ws_snoc [simp]: "is_space c \<Longrightarrow> split_ws (a @ [c]) = split_ws a"
  using split_ws_append [of c a "[]"] by simp

lemma split_ws_spaces [simp]: "list_all is_space w \<Longrightarrow> split_ws (w @ s) = split_ws s"
  by (induction w) auto

lemma split_ws_lstrip: "split_ws (dropWhile is_space s) = split_ws s"
  by (induction s) auto

lemma split_ws_rstrip: "split_ws (rstrip s) = split_ws s"
proof (induction s rule: rev_induct)
  case (snoc c s)
  then show ?case by (cases "is_space c") (simp_all add: rstrip_def)
qed (simp add: rstrip_def)

lemma split_ws_strip [simp]: "split_ws (strip s) = split_ws s"
  by (simp add: strip_def lstrip_def split_ws_rstrip split_ws_lstrip)

lemma split_ws_word: "ws_word w \<Longrightarrow> split_ws w = [w]"
proof -
  assume w: "ws_word w"
  have "list_all (\<lambda>c. \<not> is_space c) v \<Longrightarrow> split_ws_aux v u = (if rev u @ v = [] then [] else [rev u @ v])" for u v
    by (induction v arbitrary: u) auto
  then show ?thesis using w by (auto simp: split_ws_def ws_word_def)
qed

lemma split_ws_join:
  assumes "sep \<noteq> []" "list_all is_space sep" shows "split_ws (join sep ps) = concat (map split_ws ps)"
  using assms
proof (induction sep ps rule: join.induct)
  case (3 sep p q ps)
  obtain c sep' where sep: "sep = c # sep'" using 3(2) by (cases sep) auto
  then have "split_ws (p @ sep @ join sep (q # ps)) = split_ws p @ split_ws (join sep (q # ps))"
    using 3(3) by (simp add: split_ws_append)
  then show ?case using 3 by simp
qed auto

lemma join_split_blank: "join [newline, newline] (split_blank s) = s"
proof (induction s rule: split_blank.induct)
  case (3 c d cs)
  have ne: "split_blank t \<noteq> []" for t by (induction t rule: split_blank.induct) (auto split: list.splits)
  show ?case
  proof (cases "c = newline \<and> d = newline")
    case True
    then show ?thesis using "3.IH"(1) ne [of cs] by (cases "split_blank cs") auto
  next
    case False
    obtain p ps where p: "split_blank (d # cs) = p # ps" using ne [of "d # cs"] by (cases "split_blank (d # cs)") auto
    then show ?thesis using "3.IH"(2) [OF False] False by (cases ps) auto
  qed
qed auto

lemma concat_nonempty: "concat (map split_ws (filter (\<lambda>p. p \<noteq> []) ps)) = concat (map split_ws ps)"
  by (induction ps) auto

lemma paragraphs_words: "concat (map split_ws (paragraphs_of body)) = split_ws body"
proof -
  have "concat (map split_ws (split_blank body)) = split_ws (join [newline, newline] (split_blank body))"
    by (rule split_ws_join [symmetric]) simp_all
  then show ?thesis by (simp add: paragraphs_of_def concat_nonempty join_split_blank comp_def)
qed

lemma slices_concat: "0 < n \<Longrightarrow> concat (slices n ws) = ws"
proof (induction n ws rule: slices.induct)
  case (1 n ws)
  then show ?case by (subst slices.simps) auto
qed

lemma slices_length: "x \<in> set (slices n ws) \<Longrightarrow> length x \<le> n"
proof (induction n ws rule: slices.induct)
  case (1 n ws)
  then show ?case by (subst (asm) (2) slices.simps) (auto split: if_splits)
qed

lemma slices_sub: "x \<in> set (slices n ws) \<Longrightarrow> set x \<subseteq> set ws"
proof (induction n ws rule: slices.induct)
  case (1 n ws)
  then show ?case by (subst (asm) (2) slices.simps) (auto split: if_splits dest: in_set_takeD in_set_dropD)
qed

lemma join_words: "list_all ws_word ws \<Longrightarrow> split_ws (join '' '' ws) = ws"
  by (subst split_ws_join) (induction ws; simp add: split_ws_word)+

section \<open>Words of a chunk\<close>

lemma heading_words: "split_ws (heading_text pattern name @ s) = split_ws (heading_text pattern name) @ split_ws s"
proof -
  define h where "h = context_prefix pattern @ ''## '' @ name"
  have "heading_text pattern name @ s = h @ newline # s" "heading_text pattern name = h @ [newline]"
    by (simp_all add: heading_text_def h_def)
  then show ?thesis by (simp add: split_ws_append)
qed

lemma split_paragraph_fits:
  "split_paragraph budget para = Inr ps \<Longrightarrow> p \<in> set ps \<Longrightarrow> int (word_count p) \<le> budget"
proof -
  assume "split_paragraph budget para = Inr ps" "p \<in> set ps"
  then consider "p = para" "int (word_count para) \<le> budget"
    | x where "0 < budget" "p = join '' '' x" "x \<in> set (slices (nat budget) (split_ws para))"
    by (auto simp: split_paragraph_def Let_def word_count_def split: if_splits)
  then show ?thesis
  proof cases
    case 2
    have "list_all ws_word x" using slices_sub [OF 2(3)] split_ws_words [of para] by (auto simp: list_all_iff)
    then have "word_count p = length x" by (simp add: 2(2) word_count_def join_words)
    then show ?thesis using slices_length [OF 2(3)] 2(1) by linarith
  qed simp
qed

lemma split_paragraph_words:
  "0 < budget \<Longrightarrow> \<exists>ps. split_paragraph budget para = Inr ps \<and> concat (map split_ws ps) = split_ws para"
proof -
  assume b: "0 < budget"
  have "map (split_ws \<circ> join '' '') (slices n (split_ws para)) = slices n (split_ws para)" for n
  proof (rule map_idI)
    fix x assume "x \<in> set (slices n (split_ws para))"
    then have "list_all ws_word x" using slices_sub split_ws_words [of para] by (fastforce simp: list_all_iff)
    then show "(split_ws \<circ> join '' '') x = x" by (simp add: join_words)
  qed
  then show ?thesis using b by (simp add: split_paragraph_def Let_def slices_concat)
qed

lemma oversized_fits:
  "split_oversized_paragraphs budget paras = Inr ps \<Longrightarrow> p \<in> set ps \<Longrightarrow> int (word_count p) \<le> budget"
  by (induction paras arbitrary: ps) (auto dest: split_paragraph_fits)

lemma oversized_words:
  "0 < budget \<Longrightarrow> \<exists>ps. split_oversized_paragraphs budget paras = Inr ps \<and> concat (map split_ws ps) = concat (map split_ws paras)"
proof (induction paras)
  case (Cons para paras)
  then show ?case using split_paragraph_words [of budget para] by fastforce
qed simp

lemma group_concat: "concat (group_paragraphs budget grp n paras) = grp @ paras"
  by (induction budget grp n paras rule: group_paragraphs.induct) auto

definition group_words :: "string list \<Rightarrow> nat" where
  "group_words grp = sum_list (map word_count grp)"

lemma group_fits:
  "g \<in> set (group_paragraphs budget grp n paras) \<Longrightarrow> n = group_words grp \<Longrightarrow> grp = [] \<or> int n \<le> budget \<Longrightarrow>
    \<forall>p\<in>set paras. int (word_count p) \<le> budget \<Longrightarrow> int (group_words g) \<le> budget"
proof (induction budget grp n paras rule: group_paragraphs.induct)
  case (2 budget grp n para paras)
  show ?case
  proof (cases "int (n + word_count para) > budget \<and> grp \<noteq> []")
    case True
    then have "g = grp \<or> g \<in> set (group_paragraphs budget [para] (word_count para) paras)" using "2.prems"(1) by simp
    then show ?thesis
    proof
      assume "g = grp"
      then show ?thesis using "2.prems"(2,3) True by simp
    next
      assume g: "g \<in> set (group_paragraphs budget [para] (word_count para) paras)"
      show ?thesis by (rule "2.IH"(1) [OF True g]) (use "2.prems"(4) in \<open>simp_all add: group_words_def\<close>)
    qed
  next
    case False
    have "g \<in> set (group_paragraphs budget (grp @ [para]) (n + word_count para) paras)"
      using "2.prems"(1) unfolding group_paragraphs.simps if_not_P [OF False] .
    moreover have "int (n + word_count para) \<le> budget" using False "2.prems"(2,4) by (auto simp: group_words_def)
    ultimately show ?thesis using "2.IH"(2) [OF False] "2.prems"(2,4) by (simp add: group_words_def)
  qed
qed (auto split: if_splits)

lemma finalize_words:
  "ck_text (finalize_subchunk pattern name g file doctype) = heading_text pattern name @ join [newline, newline] g"
  "ck_word_count (finalize_subchunk pattern name g file doctype) = word_count (heading_text pattern name) + group_words g"
proof -
  have "word_count (join [newline, newline] g) = group_words g"
    by (simp add: word_count_def [abs_def] split_ws_join group_words_def length_concat comp_def)
  then show "ck_word_count (finalize_subchunk pattern name g file doctype) = word_count (heading_text pattern name) + group_words g"
    by (simp add: finalize_subchunk_def Let_def word_count_def heading_words)
qed (simp add: finalize_subchunk_def Let_def)

lemma build_chunks_fits:
  assumes "build_chunks pattern name body file doctype = Inr cs" "c \<in> set cs"
  shows "ck_word_count c = word_count (ck_text c) \<and> ck_word_count c \<le> chunk_max_words"
proof (cases "word_count (heading_text pattern name @ body) \<le> chunk_max_words")
  case False
  then obtain paras g where p: "split_oversized_paragraphs (effective_budget pattern name) (paragraphs_of body) = Inr paras"
    and g: "g \<in> set (group_paragraphs (effective_budget pattern name) [] 0 paras)"
    and c: "c = finalize_subchunk pattern name g file doctype"
    using assms by (auto simp: build_chunks_def Let_def)
  have "int (group_words g) \<le> effective_budget pattern name"
    by (rule group_fits [OF g]) (use oversized_fits [OF p] in \<open>auto simp: group_words_def\<close>)
  then have "ck_word_count c \<le> chunk_max_words" by (simp add: c finalize_words effective_budget_def)
  then show ?thesis by (simp add: c finalize_subchunk_def Let_def)
qed (use assms in \<open>auto simp: build_chunks_def Let_def\<close>)

lemma build_sections_fits:
  "build_sections pattern secs file doctype = Inr cs \<Longrightarrow> c \<in> set cs \<Longrightarrow>
    ck_word_count c = word_count (ck_text c) \<and> ck_word_count c \<le> chunk_max_words"
proof (induction secs arbitrary: cs)
  case (Cons sec secs)
  obtain name body where "sec = (name, body)" by (cases sec)
  then show ?case using Cons build_chunks_fits by fastforce
qed simp

text \<open>The words of a chunk after the prefix and the heading that every chunk carries\<close>

definition body_words :: "chunk \<Rightarrow> string list" where
  "body_words c = drop (word_count (heading_text (ck_pattern c) (ck_section c))) (split_ws (ck_text c))"

lemma build_chunks_words:
  assumes "0 < effective_budget pattern name"
  shows "\<exists>cs. build_chunks pattern name body file doctype = Inr cs \<and> concat (map body_words cs) = split_ws body \<and>
    (\<forall>c\<in>set cs. ck_pattern c = pattern \<and> ck_section c = name \<and> prefix (heading_text pattern name) (ck_text c))"
proof (cases "word_count (heading_text pattern name @ body) \<le> chunk_max_words")
  case True
  then show ?thesis by (simp add: build_chunks_def Let_def body_words_def heading_words word_count_def)
next
  case False
  let ?gs = "group_paragraphs (effective_budget pattern name) [] 0" and ?f = "\<lambda>g. finalize_subchunk pattern name g file doctype"
  obtain ps where ps: "split_oversized_paragraphs (effective_budget pattern name) (paragraphs_of body) = Inr ps"
    "concat (map split_ws ps) = split_ws body"
    using oversized_words [OF assms, of "paragraphs_of body"] paragraphs_words by metis
  have "body_words (?f g) = concat (map split_ws g)" for g
    by (simp add: body_words_def finalize_words heading_words word_count_def split_ws_join) (simp add: finalize_subchunk_def Let_def)
  moreover have "concat (map (\<lambda>g. concat (map split_ws g)) gs) = concat (map split_ws (concat gs))" for gs
    by (induction gs) auto
  ultimately have "concat (map body_words (map ?f (?gs ps))) = concat (map split_ws (concat (?gs ps)))"
    by (simp add: comp_def)
  then show ?thesis using False ps by (simp add: build_chunks_def Let_def group_concat finalize_words) (simp add: finalize_subchunk_def Let_def)
qed

section \<open>Words of a document\<close>

lemma drop_line: "dropWhile (\<lambda>c. c \<noteq> newline) s = [] \<or> (\<exists>r. dropWhile (\<lambda>c. c \<noteq> newline) s = newline # r)"
  by (induction s) auto

lemma heading_group_split:
  assumes "heading_group s = Some (g, rest)"
  shows "\<exists>w. s = w @ g @ rest \<and> w \<noteq> [] \<and> list_all is_space w \<and> (rest = [] \<or> (\<exists>r. rest = newline # r))"
proof (cases "dropWhile is_space s = []")
  case False
  let ?rest = "dropWhile is_space s"
  have "s = takeWhile is_space s @ ?rest" "?rest = takeWhile (\<lambda>c. c \<noteq> newline) ?rest @ dropWhile (\<lambda>c. c \<noteq> newline) ?rest"
    by simp_all
  moreover have "takeWhile is_space s \<noteq> []" "g = takeWhile (\<lambda>c. c \<noteq> newline) ?rest" "rest = dropWhile (\<lambda>c. c \<noteq> newline) ?rest"
    using assms False by (auto simp: heading_group_def Let_def split: if_splits)
  moreover have "list_all is_space (takeWhile is_space s)" by (auto simp: list_all_iff dest: set_takeWhileD)
  moreover have "rest = [] \<or> (\<exists>r. rest = newline # r)"
    unfolding calculation(5) by (rule drop_line)
  ultimately show ?thesis by metis
next
  case True
  then have ws: "takeWhile is_space s = s" "list_all is_space s" by (auto simp: dropWhile_eq_Nil_conv takeWhile_eq_all_conv list_all_iff)
  obtain c d ds where r: "dropWhile (\<lambda>c. c = newline) (rev s) = c # d # ds" "g = [c]" "rest = takeWhile (\<lambda>c. c = newline) (rev s)"
    using assms True ws(1) by (auto simp: heading_group_def Let_def split: if_splits list.splits)
  have "rev s = rest @ dropWhile (\<lambda>c. c = newline) (rev s)" by (simp add: r(3))
  then have "rev s = rest @ c # d # ds" unfolding r(1) .
  then have "s = rev (rest @ c # d # ds)" by (metis rev_rev_ident)
  then have s: "s = rev (d # ds) @ [c] @ rev rest" by simp
  have "\<forall>x\<in>set rest. x = newline" by (auto simp: r(3) dest: set_takeWhileD)
  then have rest: "rest = replicate (length rest) newline" by (simp add: replicate_length_same)
  then have "rev rest = rest" by (metis rev_replicate)
  moreover have "rest = [] \<or> (\<exists>r. rest = newline # r)" using rest by (cases "length rest") auto
  ultimately show ?thesis using s ws(2) r(2) by (intro exI [of _ "rev (d # ds)"]) (auto simp: list_all_iff)
qed

lemma find_heading_split:
  "find_heading hashes bol s = Some (before, g, rest) \<Longrightarrow>
    \<exists>w. s = before @ hashes @ w @ g @ rest \<and> w \<noteq> [] \<and> list_all is_space w \<and> (rest = [] \<or> (\<exists>r. rest = newline # r)) \<and>
      (before = [] \<and> bol \<or> (\<exists>b. before = b @ [newline]))"
proof (induction hashes bol s arbitrary: before rule: find_heading.induct)
  case (2 hashes bol c cs)
  show ?case
  proof (cases "if bol then heading_at hashes (c # cs) else None")
    case None
    then obtain b' where b': "find_heading hashes (c = newline) cs = Some (b', g, rest)" "before = c # b'" using "2.prems" by auto
    show ?thesis using "2.IH" [OF None b'(1)] b'(2) by auto
  next
    case (Some m)
    then have "heading_group (drop (length hashes) (c # cs)) = Some (g, rest)" "prefix hashes (c # cs)" bol "before = []"
      using "2.prems" by (auto simp: heading_at_def split: if_splits)
    then show ?thesis using heading_group_split by (metis append_Nil append_eq_conv_conj prefix_def)
  qed
qed simp

lemma find_heading_words:
  assumes "find_heading hashes bol s = Some (before, g, rest)" "ws_word hashes"
  shows "split_ws s = split_ws before @ hashes # split_ws g @ split_ws rest"
proof -
  obtain w where w: "s = before @ hashes @ w @ g @ rest" "w \<noteq> []" "list_all is_space w"
    "rest = [] \<or> (\<exists>r. rest = newline # r)" "before = [] \<or> (\<exists>b. before = b @ [newline])"
    using find_heading_split [OF assms(1)] by blast
  obtain c w' where c: "w = c # w'" "is_space c" "list_all is_space w'" using w(2,3) by (cases w) auto
  have "split_ws (g @ rest) = split_ws g @ split_ws rest" using w(4) by (auto simp: split_ws_append)
  then have h: "split_ws (hashes @ w @ g @ rest) = hashes # split_ws g @ split_ws rest"
    using c assms(2) by (simp add: split_ws_append split_ws_word)
  from w(5) show ?thesis
  proof
    assume "\<exists>b. before = b @ [newline]"
    then obtain b where "before = b @ [newline]" by blast
    then show ?thesis using h by (simp add: w(1) split_ws_append)
  qed (use h w(1) in simp)
qed

lemma hashes_word [simp]: "ws_word ''##''" "ws_word ''#''"
  by (simp_all add: ws_word_def is_space_def code_def)

lemma sections_words:
  "concat (map (\<lambda>(n, b). ''##'' # split_ws n @ split_ws b) (sections_from name s)) = ''##'' # split_ws name @ split_ws s"
proof (induction name s rule: sections_from.induct)
  case (1 name s)
  show ?case
  proof (cases "find_heading ''##'' False s")
    case None
    then show ?thesis by (subst sections_from.simps) simp
  next
    case (Some m)
    obtain body g rest where m: "m = (body, g, rest)" by (cases m)
    note IH = "1.IH" [OF Some [unfolded m] refl refl]
    show ?thesis using IH find_heading_words [OF Some [unfolded m]] by (subst sections_from.simps) (simp add: Some m)
  qed
qed

lemma build_sections_words:
  "list_all (\<lambda>(name, _). 0 < effective_budget pattern name) secs \<Longrightarrow>
    \<exists>cs. build_sections pattern secs file doctype = Inr cs \<and>
      concat (map body_words cs) = concat (map (\<lambda>sec. split_ws (snd sec)) secs)"
proof (induction secs)
  case (Cons sec secs)
  obtain name body where sec: "sec = (name, body)" by (cases sec)
  then obtain cs where "build_chunks pattern name body file doctype = Inr cs" "concat (map body_words cs) = split_ws body"
    using build_chunks_words Cons.prems by fastforce
  moreover obtain ds where "build_sections pattern secs file doctype = Inr ds" "concat (map body_words ds) = concat (map (\<lambda>sec. split_ws (snd sec)) secs)"
    using Cons by auto
  ultimately show ?case using sec by simp
qed simp

text \<open>The text before the first heading of level 2, which no section contains\<close>

definition preamble :: "string \<Rightarrow> string" where
  "preamble md = (case find_heading ''##'' True md of None \<Rightarrow> md | Some (before, _, _) \<Rightarrow> before)"

lemma document_words:
  "split_ws md = split_ws (preamble md) @ concat (map (\<lambda>(n, b). ''##'' # split_ws n @ split_ws b) (split_by_h2 md))"
proof (cases "find_heading ''##'' True md")
  case (Some m)
  obtain before g rest where m: "m = (before, g, rest)" by (cases m)
  show ?thesis
    using find_heading_words [OF Some [unfolded m]] by (simp add: preamble_def split_by_h2_def Some m sections_words)
qed (simp add: preamble_def split_by_h2_def)

lemma chunk_document_fits:
  assumes "chunk_document md file doctype = Inr cs" "c \<in> set cs"
  shows "ck_word_count c = length (split_ws (ck_text c)) \<and> ck_word_count c \<le> 180"
proof -
  obtain pattern secs where "build_sections pattern secs file doctype = Inr cs"
    using assms(1) by (auto simp: chunk_document_def Let_def simp del: build_sections.simps split: option.splits if_splits)
  from build_sections_fits [OF this assms(2)] show ?thesis by (simp add: word_count_def chunk_max_words_def)
qed

text \<open>C26: No chunk exceeds the limit: whatever the document, every chunk that comes out has at most 180 words, the
  prefix and heading included, and its recorded word count is that of its text.\<close>

theorem chunk_bounded:
  assumes "chunk_document md file doctype = Inr cs"
  shows "\<forall>c\<in>set cs. ck_word_count c = length (split_ws (ck_text c)) \<and> ck_word_count c \<le> 180"
  using chunk_document_fits [OF assms] by blast

text \<open>C17: No words are lost by cutting: in a document with a title and sections whose headings leave room for a body,
  the bodies of the chunks, one after the other, hold exactly the words of the bodies of the sections, and the
  sections hold every word of the document from the first heading of level 2 on.\<close>

theorem chunks_complete:
  assumes "extract_title md = Some pattern" "pattern \<noteq> []" "split_by_h2 md = secs" "secs \<noteq> []"
    and "\<forall>(name, body)\<in>set secs. word_count (heading_text pattern name) < 180"
  shows "\<exists>cs. chunk_document md file doctype = Inr cs \<and>
    concat (map body_words cs) = concat (map (\<lambda>(name, body). split_ws body) secs) \<and>
    split_ws md = split_ws (preamble md) @ concat (map (\<lambda>(name, body). ''##'' # split_ws name @ split_ws body) secs)"
proof -
  have "list_all (\<lambda>(name, _). 0 < effective_budget pattern name) secs"
    using assms(5) by (auto simp: list_all_iff effective_budget_def chunk_max_words_def)
  then have "\<exists>cs. build_sections pattern secs file doctype = Inr cs \<and>
      concat (map body_words cs) = concat (map (\<lambda>sec. split_ws (snd sec)) secs)"
    by (rule build_sections_words)
  then obtain cs where "build_sections pattern secs file doctype = Inr cs"
    "concat (map body_words cs) = concat (map (\<lambda>(name, body). split_ws body) secs)"
    unfolding split_beta by blast
  then show ?thesis using assms(1-4) document_words [of md] by (simp add: chunk_document_def)
qed

definition sample_document :: string where
  "sample_document = ''# GEO_JUMP'' @ [newline, newline] @ ''## Threshold'' @ [newline] @ ''Over 500 km.'' @ [newline, newline] @
     ''##  Response'' @ [newline] @ ''Escalate to an analyst.''"

definition sample_sections :: "(string \<times> string) list" where
  "sample_sections = [(''Threshold'', ''Over 500 km.''), (''Response'', ''Escalate to an analyst.'')]"

lemma sample_split: "extract_title sample_document = Some ''GEO_JUMP''" "split_by_h2 sample_document = sample_sections"
  by code_simp+

theorem chunk_bounded_witness:
  "\<exists>c. chunk_document sample_document ''geo.md'' ''POLICY'' = Inr [c, c\<lparr>ck_section := ''Response'',
      ck_text := heading_text ''GEO_JUMP'' ''Response'' @ ''Escalate to an analyst.'', ck_word_count := 9\<rparr>] \<and>
    ck_word_count c = length (split_ws (ck_text c)) \<and> ck_word_count c \<le> 180"
proof -
  let ?c = "\<lparr>ck_pattern = ''GEO_JUMP'', ck_section = ''Threshold'',
      ck_text = heading_text ''GEO_JUMP'' ''Threshold'' @ ''Over 500 km.'', ck_source_file = ''geo.md'',
      ck_document_type = ''POLICY'', ck_word_count = 8\<rparr>"
  have "chunk_document sample_document ''geo.md'' ''POLICY'' = Inr [?c, ?c\<lparr>ck_section := ''Response'',
      ck_text := heading_text ''GEO_JUMP'' ''Response'' @ ''Escalate to an analyst.'', ck_word_count := 9\<rparr>]"
    by code_simp
  from this chunk_bounded [OF this] show ?thesis by (intro exI [of _ ?c]) simp
qed

theorem chunks_complete_witness:
  "\<exists>cs. chunk_document sample_document ''geo.md'' ''POLICY'' = Inr cs \<and>
    concat (map body_words cs) = [''Over'', ''500'', ''km.'', ''Escalate'', ''to'', ''an'', ''analyst.'']"
proof -
  have b: "\<forall>(name, body)\<in>set sample_sections. word_count (heading_text ''GEO_JUMP'' name) < 180" by code_simp
  have w: "concat (map (\<lambda>(name, body). split_ws body) sample_sections) =
      [''Over'', ''500'', ''km.'', ''Escalate'', ''to'', ''an'', ''analyst.'']" by code_simp
  have "sample_sections \<noteq> []" by (simp add: sample_sections_def)
  from chunks_complete [OF sample_split(1) _ sample_split(2) this b] w show ?thesis by auto
qed

text \<open>A heading that alone exceeds the limit makes the section vanish without an error.\<close>

lemma overlong_heading_drops_section:
  assumes "effective_budget pattern name < 0"
  shows "build_chunks pattern name body file doctype = Inr []"
proof -
  have "split_oversized_paragraphs (effective_budget pattern name) ps = Inr []" for ps
    using assms by (induction ps) (auto simp: split_paragraph_def Let_def)
  moreover have "chunk_max_words < word_count (heading_text pattern name @ body)"
    using assms by (simp add: effective_budget_def word_count_def heading_words)
  ultimately show ?thesis by (simp add: build_chunks_def Let_def)
qed

section \<open>The knowledge base\<close>

text \<open>\<open>FraudKnowledgeBase\<close> in \<open>retrieval/weaviate_client.py\<close>: the objects of the collection, when it exists.  The
  objects that the server refuses, its readiness and its error for a missing collection are parameters.\<close>

type_synonym 'v kbase = "(chunk \<times> 'v) list option"

record 'v weaviate =
  wv_ready :: bool
  wv_refuses :: "chunk \<Rightarrow> 'v \<Rightarrow> bool"
  wv_missing :: pyexn

definition kb_connect :: "'v weaviate \<Rightarrow> pyexn + unit" where
  "kb_connect wv = (if wv_ready wv then Inr ()
     else Inl (Exn RuntimeError ''Weaviate connection established but server not ready''))"

definition create_schema :: "'v kbase \<Rightarrow> 'v kbase" where
  "create_schema kb = (case kb of None \<Rightarrow> Some [] | Some objs \<Rightarrow> Some objs)"

definition clear_collection :: "'v kbase \<Rightarrow> 'v kbase" where
  "clear_collection kb = create_schema (case kb of None \<Rightarrow> kb | Some _ \<Rightarrow> None)"

definition upsert_chunks :: "'v weaviate \<Rightarrow> chunk list \<Rightarrow> 'v list \<Rightarrow> 'v kbase \<Rightarrow> (nat, 'v kbase) out" where
  "upsert_chunks wv cs vs kb =
    (if length cs \<noteq> length vs
     then (Inl (Exn ValueError (''chunks ('' @ str_nat (length cs) @ '') and vectors ('' @ str_nat (length vs) @
             '') length mismatch '' @ [CHR 0xE2, CHR 0x80, CHR 0x94] @ '' cannot upsert'')), kb)
     else (case kb of
             None \<Rightarrow> (Inl (wv_missing wv), kb)
           | Some objs \<Rightarrow>
              let sent = zip cs vs; failed = filter (\<lambda>(c, v). wv_refuses wv c v) sent
              in (Inr (length sent - length failed), Some (objs @ filter (\<lambda>(c, v). \<not> wv_refuses wv c v) sent))))"

text \<open>\<open>main\<close> of \<open>ingest.py\<close>: the number of stored chunks, or nothing when there was no chunk to store\<close>

definition ingest :: "'v weaviate \<Rightarrow> (string list \<Rightarrow> pyexn + 'v list) \<Rightarrow> (string \<times> string) list \<Rightarrow> (string \<times> string) list
    \<Rightarrow> 'v kbase \<Rightarrow> (nat option, 'v kbase) out" where
  "ingest wv embed_batch policies cases kb =
    (case load_documents policies ''POLICY'' of
       Inl e \<Rightarrow> (Inl e, kb)
     | Inr ps \<Rightarrow>
        (case load_documents cases ''CASE_STUDY'' of
           Inl e \<Rightarrow> (Inl e, kb)
         | Inr qs \<Rightarrow>
            let cs = ps @ qs in
            if cs = [] then (Inr None, kb)
            else (case embed_batch (map ck_text cs) of
                    Inl e \<Rightarrow> (Inl e, kb)
                  | Inr vs \<Rightarrow>
                     (case kb_connect wv of
                        Inl e \<Rightarrow> (Inl e, kb)
                      | Inr _ \<Rightarrow> seq (upsert_chunks wv cs vs (clear_collection kb)) (\<lambda>n kb. (Inr (Some n), kb))))))"

lemma load_documents_fits:
  "load_documents docs doctype = Inr cs \<Longrightarrow> c \<in> set cs \<Longrightarrow>
    ck_word_count c = length (split_ws (ck_text c)) \<and> ck_word_count c \<le> 180"
proof (induction docs arbitrary: cs)
  case (Cons d docs)
  obtain f md where "d = (f, md)" by (cases d)
  then obtain xs ys where "chunk_document md f doctype = Inr xs" "load_documents docs doctype = Inr ys" "cs = xs @ ys"
    using Cons.prems(1) by auto
  then show ?case using Cons.IH Cons.prems(2) chunk_document_fits by fastforce
qed simp

text \<open>Ingestion replaces the knowledge base: when it succeeds, the collection holds exactly the new chunks with their
  vectors in the order of the documents, less those the server refused, nothing of an earlier ingestion is left,
  the number reported is the number stored, and every stored text is within the word limit.\<close>

theorem ingest_replaces:
  assumes "ingest wv embed_batch policies cases kb = (Inr (Some n), kb')"
  shows "\<exists>ps qs vs objs. load_documents policies ''POLICY'' = Inr ps \<and> load_documents cases ''CASE_STUDY'' = Inr qs \<and>
    embed_batch (map ck_text (ps @ qs)) = Inr vs \<and> length vs = length (ps @ qs) \<and>
    kb' = Some objs \<and> objs = filter (\<lambda>(c, v). \<not> wv_refuses wv c v) (zip (ps @ qs) vs) \<and> n = length objs \<and>
    (\<forall>(c, v)\<in>set objs. length (split_ws (ck_text c)) \<le> 180)"
proof -
  obtain ps qs where l: "load_documents policies ''POLICY'' = Inr ps" "load_documents cases ''CASE_STUDY'' = Inr qs"
    using assms by (auto simp: ingest_def split: sum.splits)
  have ne: "ps @ qs \<noteq> []" using assms l by (auto simp: ingest_def)
  then obtain vs where vs: "embed_batch (map ck_text (ps @ qs)) = Inr vs" "kb_connect wv = Inr ()"
    using assms l by (auto simp: ingest_def Let_def split: sum.splits)
  have cl: "clear_collection kb = Some []" by (simp add: clear_collection_def create_schema_def split: option.splits)
  have u: "upsert_chunks wv (ps @ qs) vs (Some []) = (Inr n, kb')"
    using assms l vs ne by (auto simp: ingest_def Let_def cl seq_Inr_conv simp del: append_is_Nil_conv)
  let ?objs = "filter (\<lambda>(c, v). \<not> wv_refuses wv c v) (zip (ps @ qs) vs)"
  have len: "length vs = length (ps @ qs)" using u by (auto simp: upsert_chunks_def split: if_splits)
  have "length (zip (ps @ qs) vs) - length (filter (\<lambda>(c, v). wv_refuses wv c v) (zip (ps @ qs) vs)) = length ?objs"
    using sum_length_filter_compl [of "\<lambda>(c, v). wv_refuses wv c v" "zip (ps @ qs) vs"]
    by (simp add: case_prod_unfold)
  then have n: "kb' = Some ?objs" "n = length ?objs" using u len by (auto simp: upsert_chunks_def Let_def)
  have "\<forall>(c, v)\<in>set ?objs. length (split_ws (ck_text c)) \<le> 180"
  proof clarify
    fix c v assume "(c, v) \<in> set ?objs"
    then have "c \<in> set ps \<or> c \<in> set qs" by (auto dest: set_zip_leftD)
    then show "length (split_ws (ck_text c)) \<le> 180" using load_documents_fits l by metis
  qed
  then show ?thesis using l vs len n by blast
qed

text \<open>A failure before the collection is cleared leaves the previous knowledge base in place.\<close>

lemma ingest_failure_keeps:
  assumes "ingest wv embed_batch policies cases kb = (Inl e, kb')" "\<And>ts vs. embed_batch ts = Inr vs \<Longrightarrow> length vs = length ts"
  shows "kb' = kb"
proof -
  have cl: "clear_collection kb = Some []" by (simp add: clear_collection_def create_schema_def split: option.splits)
  show ?thesis
    using assms by (auto simp: ingest_def Let_def cl upsert_chunks_def split: sum.splits if_splits)
qed

definition sample_chunk :: chunk where
  "sample_chunk = \<lparr>ck_pattern = ''GEO_JUMP'', ck_section = ''Threshold'',
     ck_text = heading_text ''GEO_JUMP'' ''Threshold'' @ ''Over 500 km.'', ck_source_file = ''geo.md'',
     ck_document_type = ''POLICY'', ck_word_count = 8\<rparr>"

definition sample_server :: "nat weaviate" where
  "sample_server = \<lparr>wv_ready = True, wv_refuses = (\<lambda>c v. v = 1), wv_missing = Exn KeyError ''no collection''\<rparr>"

lemma sample_ingest:
  "ingest sample_server (\<lambda>ts. Inr [0..<length ts]) [(''geo.md'', sample_document)] [] (Some [(sample_chunk, 7)]) =
    (Inr (Some 1), Some [(sample_chunk, 0)])"
  by code_simp

theorem ingest_replaces_witness:
  "\<exists>objs. ingest sample_server (\<lambda>ts. Inr [0..<length ts]) [(''geo.md'', sample_document)] [] (Some [(sample_chunk, 7)]) =
      (Inr (Some 1), Some objs) \<and> objs = [(sample_chunk, 0)] \<and> 1 = length objs"
  using ingest_replaces [OF sample_ingest] sample_ingest by auto

end
