(* ===== verification/Retrieval.thy ===== *)
theory Retrieval
  imports Chunker Single_Agent
begin

text \<open>
  The reading side of the knowledge base: \<open>retrieval/embedder.py\<close>, the hybrid query of
  \<open>retrieval/weaviate_client.py\<close> and the policy tool of \<open>agents/single_agent/tools.py\<close> over them.  The
  sentence model and the store's fusion of keyword and vector scores are parameters; what the store is
  documented to answer is \<open>serves\<close>.
\<close>

section \<open>The embedder\<close>

record 'v embedder =
  em_tokens :: "string \<Rightarrow> nat"
  em_max_seq_length :: nat
  em_encode :: "string \<Rightarrow> 'v"

definition check_truncation_risk :: "'v embedder \<Rightarrow> string \<Rightarrow> bool" where
  "check_truncation_risk em txt = (em_max_seq_length em < em_tokens em txt)"

text \<open>The vectors, and the positions of the texts that are warned about\<close>

definition embed_batch :: "'v embedder \<Rightarrow> string list \<Rightarrow> 'v list \<times> nat list" where
  "embed_batch em texts =
    (map (em_encode em) texts, map fst (filter (\<lambda>(i, t). check_truncation_risk em t) (enumerate 0 texts)))"

definition embed_query :: "'v embedder \<Rightarrow> string \<Rightarrow> 'v \<times> bool" where
  "embed_query em q = (em_encode em q, check_truncation_risk em q)"

section \<open>The hybrid query\<close>

definition hybrid_search_alpha :: real where "hybrid_search_alpha = 0.5"
definition hybrid_search_default_limit :: nat where "hybrid_search_default_limit = 5"

record 'v query =
  qy_text :: string
  qy_vector :: 'v
  qy_alpha :: real
  qy_limit :: nat
  qy_pattern :: "string option"

text \<open>The store: its error for a missing collection, its equality on the text property, and its ranking\<close>

record 'v search_server =
  ss_missing :: pyexn
  ss_equal :: "string \<Rightarrow> string \<Rightarrow> bool"
  ss_hybrid :: "'v query \<Rightarrow> (chunk \<times> 'v) list \<Rightarrow> (chunk \<times> real) list"

definition serves :: "'v search_server \<Rightarrow> bool" where
  "serves ss \<longleftrightarrow> (\<forall>q objs. length (ss_hybrid ss q objs) \<le> qy_limit q \<and>
     (\<forall>(c, s)\<in>set (ss_hybrid ss q objs). c \<in> fst ` set objs \<and>
       (case qy_pattern q of None \<Rightarrow> True | Some p \<Rightarrow> ss_equal ss p (ck_pattern c))))"

text \<open>A result: what the policy tool reads of it, and the two fields it leaves\<close>

record stored_hit = search_hit +
  sh_source_file :: string
  sh_document_type :: string

definition hit_of :: "chunk \<times> real \<Rightarrow> stored_hit" where
  "hit_of r = \<lparr>sh_pattern = ck_pattern (fst r), sh_section = ck_section (fst r), sh_score = snd r, sh_text = ck_text (fst r),
     sh_source_file = ck_source_file (fst r), sh_document_type = ck_document_type (fst r)\<rparr>"

definition hybrid_search :: "'v search_server \<Rightarrow> 'v kbase \<Rightarrow> string \<Rightarrow> 'v \<Rightarrow> real \<Rightarrow> nat \<Rightarrow> string option \<Rightarrow> pyexn + stored_hit list" where
  "hybrid_search ss kb query_text query_vector alpha limit pattern_filter =
    (case kb of
       None \<Rightarrow> Inl (ss_missing ss)
     | Some objs \<Rightarrow>
        Inr (map hit_of (ss_hybrid ss
          \<lparr>qy_text = query_text, qy_vector = query_vector, qy_alpha = alpha, qy_limit = limit,
           qy_pattern = (if pattern_filter = Some [] then None else pattern_filter)\<rparr> objs)))"

text \<open>The tool over this search\<close>

definition policy_tool :: "'v search_server \<Rightarrow> 'v embedder \<Rightarrow> 'v kbase \<Rightarrow> string \<Rightarrow> string option \<Rightarrow> pyexn + string" where
  "policy_tool ss em kb question fraud_pattern =
    and_then (hybrid_search ss kb question (fst (embed_query em question)) hybrid_search_alpha 3 fraud_pattern) (\<lambda>hits.
      Inr (get_policy_context (\<lambda>q. fst (embed_query em q)) (\<lambda>_ _ _ _. map search_hit.truncate hits) question fraud_pattern))"

section \<open>Correctness\<close>

text \<open>No risky text goes unnoticed, and nothing else is warned about.\<close>

lemma embed_batch_warns:
  "set (snd (embed_batch em texts)) = {i. i < length texts \<and> em_max_seq_length em < em_tokens em (texts ! i)}"
  by (force simp: embed_batch_def in_set_enumerate_eq check_truncation_risk_def)

lemma embed_batch_vectors: "fst (embed_batch em texts) = map (em_encode em) texts"
  by (simp add: embed_batch_def)

lemma ingested_objects:
  assumes "ingest wv embedding policies cases kb = (Inr (Some n), kb')"
  shows "\<exists>ps qs objs. load_documents policies ''POLICY'' = Inr ps \<and> load_documents cases ''CASE_STUDY'' = Inr qs \<and> kb' = Some objs \<and>
    fst ` set objs \<subseteq> set (ps @ qs)"
proof -
  obtain ps qs where l: "load_documents policies ''POLICY'' = Inr ps" "load_documents cases ''CASE_STUDY'' = Inr qs"
    using assms by (auto simp: ingest_def split: sum.splits)
  have cl: "clear_collection kb = Some []" by (simp add: clear_collection_def create_schema_def split: option.splits)
  have ne: "ps @ qs \<noteq> []" using assms l by (auto simp: ingest_def)
  then obtain vs where "upsert_chunks wv (ps @ qs) vs (Some []) = (Inr n, kb')"
    using assms l by (auto simp: ingest_def Let_def cl seq_Inr_conv simp del: append_is_Nil_conv split: sum.splits)
  then have "kb' = Some (filter (\<lambda>(c, v). \<not> wv_refuses wv c v) (zip (ps @ qs) vs))"
    by (auto simp: upsert_chunks_def Let_def split: if_splits)
  moreover have "fst ` set (filter (\<lambda>(c, v). \<not> wv_refuses wv c v) (zip (ps @ qs) vs)) \<subseteq> set (ps @ qs)"
    by (auto dest: set_zip_leftD)
  ultimately show ?thesis using l by blast
qed

lemma hybrid_search_hits:
  assumes "serves ss" "hybrid_search ss (Some objs) q v a l pf = Inr hits"
  shows "length hits \<le> l" "h \<in> set hits \<Longrightarrow> \<exists>c\<in>fst ` set objs. sh_text h = ck_text c \<and> sh_section h = ck_section c \<and>
    sh_pattern h = ck_pattern c \<and> (case pf of None \<Rightarrow> True | Some p \<Rightarrow> p = [] \<or> ss_equal ss p (ck_pattern c))"
proof -
  let ?q = "\<lparr>qy_text = q, qy_vector = v, qy_alpha = a, qy_limit = l, qy_pattern = (if pf = Some [] then None else pf)\<rparr>"
  have s: "length (ss_hybrid ss ?q objs) \<le> l" "\<forall>(c, s)\<in>set (ss_hybrid ss ?q objs). c \<in> fst ` set objs \<and>
      (case qy_pattern ?q of None \<Rightarrow> True | Some p \<Rightarrow> ss_equal ss p (ck_pattern c))"
    using spec [OF spec [OF assms(1) [unfolded serves_def], of ?q], of objs] by simp_all
  have hits: "hits = map hit_of (ss_hybrid ss ?q objs)" using assms(2) by (simp add: hybrid_search_def)
  then show "length hits \<le> l" using s(1) by simp
  assume "h \<in> set hits"
  then obtain c sc where c: "(c, sc) \<in> set (ss_hybrid ss ?q objs)" "h = hit_of (c, sc)" unfolding hits by auto
  then have "c \<in> fst ` set objs" "case qy_pattern ?q of None \<Rightarrow> True | Some p \<Rightarrow> ss_equal ss p (ck_pattern c)" using s(2) by auto
  then show "\<exists>c\<in>fst ` set objs. sh_text h = ck_text c \<and> sh_section h = ck_section c \<and>
    sh_pattern h = ck_pattern c \<and> (case pf of None \<Rightarrow> True | Some p \<Rightarrow> p = [] \<or> ss_equal ss p (ck_pattern c))"
    using c(2) by (intro bexI [of _ c]) (auto simp: hit_of_def split: option.splits if_splits)
qed

text \<open>C16: The guidance an agent gets is the policy as it was ingested: over a knowledge base that an ingestion has
  left, the answer of the policy tool is at most three excerpts, and each is, with its pattern and its section, one
  whole chunk of the ingested documents, of at most 180 words and of the pattern that was asked for; nothing of an earlier
  version of the documents and no other text is in it.\<close>

theorem guidance_is_policy:
  assumes "ingest wv embedding policies cases kb = (Inr (Some n), kb')" "serves ss"
    and "policy_tool ss em kb' question pattern = Inr answer"
  shows "\<exists>ps qs hits. load_documents policies ''POLICY'' = Inr ps \<and> load_documents cases ''CASE_STUDY'' = Inr qs \<and> length hits \<le> 3 \<and>
    answer = (if hits = [] then ''No relevant policy guidance found.''
      else join (Report.newline @ Report.newline @ ''---'' @ Report.newline @ Report.newline) (map format_hit hits)) \<and>
    (\<forall>h\<in>set hits. \<exists>c\<in>set (ps @ qs). sh_text h = ck_text c \<and> sh_section h = ck_section c \<and> sh_pattern h = ck_pattern c \<and>
      length (split_ws (ck_text c)) \<le> 180 \<and> (case pattern of None \<Rightarrow> True | Some p \<Rightarrow> p = [] \<or> ss_equal ss p (ck_pattern c)))"
proof -
  obtain ps qs objs where i: "load_documents policies ''POLICY'' = Inr ps" "load_documents cases ''CASE_STUDY'' = Inr qs" "kb' = Some objs"
    "fst ` set objs \<subseteq> set (ps @ qs)" using ingested_objects [OF assms(1)] by blast
  obtain stored where h: "hybrid_search ss (Some objs) question (em_encode em question) hybrid_search_alpha 3 pattern = Inr stored"
    "answer = get_policy_context (\<lambda>q. em_encode em q) (\<lambda>_ _ _ _. map search_hit.truncate stored) question pattern"
    using assms(3) unfolding i(3) by (auto simp: policy_tool_def embed_query_def)
  define hits where "hits = map search_hit.truncate stored"
  have short: "length (split_ws (ck_text c)) \<le> 180" if "c \<in> set (ps @ qs)" for c
    using that load_documents_fits [OF i(1), of c] load_documents_fits [OF i(2), of c] by auto
  have "\<exists>c\<in>set (ps @ qs). sh_text h = ck_text c \<and> sh_section h = ck_section c \<and> sh_pattern h = ck_pattern c \<and>
      length (split_ws (ck_text c)) \<le> 180 \<and> (case pattern of None \<Rightarrow> True | Some p \<Rightarrow> p = [] \<or> ss_equal ss p (ck_pattern c))"
    if "h \<in> set hits" for h
  proof -
    from that obtain f where f: "f \<in> set stored" "h = search_hit.truncate f" by (auto simp: hits_def)
    have t: "sh_text h = sh_text f" "sh_section h = sh_section f" "sh_pattern h = sh_pattern f"
      by (simp_all add: f(2) search_hit.truncate_def)
    show ?thesis unfolding t using hybrid_search_hits(2) [OF assms(2) h(1) f(1)] i(4) short by (meson subsetD)
  qed
  moreover have "length hits \<le> 3" using hybrid_search_hits(1) [OF assms(2) h(1)] by (simp add: hits_def)
  moreover have "answer = (if hits = [] then ''No relevant policy guidance found.''
      else join (Report.newline @ Report.newline @ ''---'' @ Report.newline @ Report.newline) (map format_hit hits))"
    unfolding h(2) get_policy_context_def Let_def hits_def ..
  ultimately show ?thesis using i(1,2) by blast
qed

section \<open>A small server\<close>

definition sample_search :: "nat search_server" where
  "sample_search = \<lparr>ss_missing = Exn KeyError ''no collection'', ss_equal = (=),
     ss_hybrid = (\<lambda>q objs. map (\<lambda>(c, v). (c, 1 / 2)) (take (qy_limit q)
       (filter (\<lambda>(c, v). case qy_pattern q of None \<Rightarrow> True | Some p \<Rightarrow> p = ck_pattern c) objs)))\<rparr>"

lemma sample_serves: "serves sample_search"
  by (auto simp: serves_def sample_search_def split: option.splits dest!: in_set_takeD) force+

definition sample_embedder :: "nat embedder" where
  "sample_embedder = \<lparr>em_tokens = length, em_max_seq_length = 256, em_encode = (\<lambda>_. 0)\<rparr>"

lemma guidance_is_policy_witness:
  "\<exists>answer hits. policy_tool sample_search sample_embedder (Some [(sample_chunk, 0)]) ''travel'' (Some ''GEO_JUMP'') = Inr answer \<and>
    length hits \<le> 3 \<and> hits \<noteq> [] \<and>
    answer = join (Report.newline @ Report.newline @ ''---'' @ Report.newline @ Report.newline) (map format_hit hits)"
proof -
  have "hybrid_search sample_search (Some [(sample_chunk, 0)]) ''travel'' 0 hybrid_search_alpha 3 (Some ''GEO_JUMP'') = Inr [hit_of (sample_chunk, 1 / 2)]"
    by (simp add: hybrid_search_def sample_search_def sample_chunk_def)
  then have t: "policy_tool sample_search sample_embedder (Some [(sample_chunk, 0)]) ''travel'' (Some ''GEO_JUMP'') =
      Inr (format_hit (search_hit.truncate (hit_of (sample_chunk, 1 / 2))))"
    by (simp add: policy_tool_def embed_query_def sample_embedder_def get_policy_context_def)
  obtain hits where h: "length hits \<le> 3" "format_hit (search_hit.truncate (hit_of (sample_chunk, 1 / 2))) = (if hits = [] then ''No relevant policy guidance found.''
      else join (Report.newline @ Report.newline @ ''---'' @ Report.newline @ Report.newline) (map format_hit hits))"
    using guidance_is_policy [OF sample_ingest sample_serves t] by blast
  have "hits \<noteq> []" using h(2) by (auto simp: format_hit_def)
  then show ?thesis using h t by auto
qed

end
