(* ===== verification/Demo_Run.thy ===== *)
theory Demo_Run
  imports Delivery
begin

text \<open>
  \<open>workflow_engine/run_demo.py --mock\<close>: the event demonstration of the workflow engine, with its registry of three tools
  and its canned planner, composed of the operations of the other theories the way the script calls them.  What it
  prints is its result here: the two runs and the final store.  pydantic is the parameter \<open>v\<close>, the dump of a plan
  \<open>dumps\<close>.
  The scheduled demonstration is in Scheduled_Demo.
\<close>

section \<open>The mock stack\<close>

definition valid_instruction :: string where
  "valid_instruction = ''After every payment capture, if the user has 2 or more BLOCK decisions in the last 24 hours, send a Slack message with their recent history.''"

definition refusal_instruction :: string where
  "refusal_instruction = ''Delete all BLOCK decisions from last week.''"

definition mock_count_args :: schema where
  "mock_count_args = [req ''user_id'' TStr, req ''decision'' TStr,
     \<lparr>f_name = ''hours'', f_annotation = TInt, f_default = Some (PInt 24), f_ge = None, f_le = None\<rparr>]"

definition mock_user_args :: schema where
  "mock_user_args = [req ''user_id'' TStr]"

definition mock_slack_args :: schema where
  "mock_slack_args = [req ''channel'' TStr, req ''text'' TStr]"

definition mock_count :: "string \<Rightarrow> pyval" where
  "mock_count uid = PDict [(''count'', PInt (if contains (lower uid) ''safe'' then 1 else 3)), (''user_id'', PStr uid)]"

definition mock_summary :: "string \<Rightarrow> string" where
  "mock_summary uid = ''user '' @ uid @ '': 3 BLOCKs, home NYC, HIGH tier''"

definition mock_specs :: "tool_env \<Rightarrow> store tool_spec list" where
  "mock_specs env =
    [tool ''count_recent_decisions'' ''deterministically count decisions'' mock_count_args ANALYZE
       (pure_tool (\<lambda>d. with_str d ''user_id'' (\<lambda>u. with_str d ''decision'' (\<lambda>_. Inr (mock_count u))))) True,
     tool ''get_user_history'' ''user baseline history'' mock_user_args READ_DATA
       (pure_tool (\<lambda>d. with_str d ''user_id'' (\<lambda>u. Inr (PDict [(''summary'', PStr (mock_summary u))])))) True,
     tool ''slack_send_message'' ''send slack'' mock_slack_args NOTIFY (slack_tool env) False]"

definition mock_registry :: "tool_env \<Rightarrow> store registry" where
  "mock_registry env = map (\<lambda>s. (t_name s, s)) (mock_specs env)"

definition refusal_plan :: workflow_plan where
  "refusal_plan = \<lparr>pl_goal = ''delete decisions'', pl_trigger = None, pl_schedule = None, pl_steps = [], pl_needs_clarification = True,
     pl_clarification_question = Some (''No tool can delete or modify decisions '' @ em_dash @
       '' all registered tools are read-only or notify-only.'')\<rparr>"

definition count_step :: plan_step where
  "count_step = \<lparr>ps_number = 1, ps_tool = ''count_recent_decisions'',
     ps_args = [(''user_id'', PStr ''$trigger.user_id''), (''decision'', PStr ''BLOCK''), (''hours'', PInt 24)],
     ps_rationale = ''deterministic countable condition'', ps_when = None\<rparr>"

definition history_step :: plan_step where
  "history_step = \<lparr>ps_number = 2, ps_tool = ''get_user_history'', ps_args = [(''user_id'', PStr ''$trigger.user_id'')],
     ps_rationale = ''gather context only if the condition holds'', ps_when = Some ''$step_1.count >= 2''\<rparr>"

definition send_step :: plan_step where
  "send_step = \<lparr>ps_number = 3, ps_tool = ''slack_send_message'',
     ps_args = [(''channel'', PStr ''#fraud-ops''), (''text'', PStr ''$step_2.summary'')],
     ps_rationale = ''notify only if the condition holds'', ps_when = Some ''$step_1.count >= 2''\<rparr>"

definition canned_plan :: workflow_plan where
  "canned_plan = \<lparr>pl_goal = ''notify fraud-ops when a user has repeat BLOCKs'', pl_trigger = Some ''payment.captured'',
     pl_schedule = None, pl_steps = [count_step, history_step, send_step], pl_needs_clarification = False,
     pl_clarification_question = None\<rparr>"

definition canned_llm :: llm where
  "canned_llm txt = Inr (if contains (lower txt) ''delete'' then refusal_plan else canned_plan)"

section \<open>The flow\<close>

text \<open>The two runs of a feasible plan: at the threshold, then, after the workflow is armed again, below it\<close>

definition demo_runs :: "validator \<Rightarrow> store registry \<Rightarrow> string \<Rightarrow> workflow_plan \<Rightarrow> bool \<Rightarrow> string \<Rightarrow> store \<Rightarrow> (run_result list, store) out" where
  "demo_runs v reg wid plan approval uid st =
    seq (transition wid FEASIBLE st) (\<lambda>_ st.
    seq (if approval then seq (transition wid AWAITING_APPROVAL st) (\<lambda>_ st. transition wid READY st)
         else transition wid READY st) (\<lambda>_ st.
    seq (execute v reg wid plan (Some [(''user_id'', PStr uid)]) None st) (\<lambda>first st.
    seq (transition wid READY st) (\<lambda>_ st.
    seq (execute v reg wid plan (Some [(''user_id'', PStr (''safe-'' @ uid))]) None st) (\<lambda>second st.
      (Inr [first, second], st))))))"

definition run_demo :: "validator \<Rightarrow> (string \<Rightarrow> bool) \<Rightarrow> (pydict \<Rightarrow> string) \<Rightarrow> (workflow_plan \<Rightarrow> string) \<Rightarrow> tool_env \<Rightarrow> string \<Rightarrow> store
    \<Rightarrow> (string \<times> string \<times> run_result list, store) out" where
  "run_demo v zone_ok pystr dumps env uid st =
    seq (create_workflow (Some uid) valid_instruction None None SUBMITTED st) (\<lambda>wid st.
    seq (transition wid PLANNED st) (\<lambda>_ st.
    seq (make_plan canned_llm (mock_registry env) pystr valid_instruction None, st) (\<lambda>plan st.
    let st = set_plan wid (dumps plan) st; report = check_plan zone_ok v (mock_registry env) plan in
    seq (if fr_ok report then demo_runs v (mock_registry env) wid plan (fr_requires_approval report) uid st else (Inr [], st)) (\<lambda>rs st.
    seq (create_workflow (Some uid) refusal_instruction None None SUBMITTED st) (\<lambda>wid2 st.
    seq (transition wid2 PLANNED st) (\<lambda>_ st.
    seq (make_plan canned_llm (mock_registry env) pystr refusal_instruction None, st) (\<lambda>plan2 st.
    seq (transition wid2 (if \<not> fr_ok (check_plan zone_ok v (mock_registry env) plan2) then REJECTED else FEASIBLE) st) (\<lambda>_ st.
      (Inr (wid, wid2, rs), st)))))))))"

section \<open>The registry\<close>

lemma mock_names: "map t_name (mock_specs env) = [''count_recent_decisions'', ''get_user_history'', ''slack_send_message'']"
  by (simp add: mock_specs_def tool_def)

lemma mock_registered: "register_all (mock_specs env) [] = Inr (mock_registry env)"
  unfolding mock_registry_def by (subst register_all_append) (simp_all add: mock_names)

lemma get_mock_tools:
  "get_tool (mock_registry env) ''count_recent_decisions'' = Some (mock_specs env ! 0)"
  "get_tool (mock_registry env) ''get_user_history'' = Some (mock_specs env ! 1)"
  "get_tool (mock_registry env) ''slack_send_message'' = Some (mock_specs env ! 2)"
  by (simp_all add: get_tool_def mock_registry_def mock_specs_def tool_def)

lemma mock_quiet:
  assumes "get_tool (mock_registry env) n = Some s"
  shows "workflows (snd (t_execute s a st)) = workflows st \<and> runs (snd (t_execute s a st)) = runs st"
proof -
  have "s \<in> set (mock_specs env)" using assms by (auto simp: get_tool_def mock_registry_def dest: map_of_SomeD)
  then consider "snd (t_execute s a st) = st" | "t_execute s = slack_tool env"
    by (auto simp: mock_specs_def tool_def pure_tool_def)
  then show ?thesis using slack_tool_store [of env a st] by cases (auto simp: write_outbox_frame)
qed

interpretation mock: quiet_registry "mock_registry env" for env
  by unfold_locales (rule mock_quiet)

lemma mock_validates:
  assumes "keeps_complete v"
  shows "v mock_count_args [(''user_id'', PStr u), (''decision'', PStr x), (''hours'', PInt h)] =
      Inr [(''user_id'', PStr u), (''decision'', PStr x), (''hours'', PInt h)]"
    and "v mock_user_args [(''user_id'', PStr u)] = Inr [(''user_id'', PStr u)]"
    and "v mock_slack_args [(''channel'', PStr c), (''text'', PStr t)] = Inr [(''channel'', PStr c), (''text'', PStr t)]"
  by (rule assms [unfolded keeps_complete_def, rule_format],
      simp add: well_typed_def mock_count_args_def mock_user_args_def mock_slack_args_def req_def)+

lemma demo_refs:
  "match_REF_RE ''$trigger.user_id'' = Some \<lparr>ref_base = TriggerRef, ref_field = Some ''user_id''\<rparr>"
  "match_REF_RE ''$step_2.summary'' = Some \<lparr>ref_base = StepRef 2, ref_field = Some ''summary''\<rparr>"
  "match_REF_RE ''$step_1.count'' = Some \<lparr>ref_base = StepRef 1, ref_field = Some ''count''\<rparr>"
  by code_simp+

lemma demo_guard: "parse_condition ''$step_1.count >= 2'' = Inr \<lparr>c_ref = ''$step_1.count'', c_op = Ge, c_literal = PInt 2\<rparr>"
  by code_simp

lemma canned_feasible:
  assumes "keeps_complete v"
  shows "check_plan zone_ok v (mock_registry env) canned_plan = \<lparr>fr_ok = True, fr_errors = [], fr_requires_approval = False\<rparr>"
  using mock_validates [OF assms]
  by (simp add: check_plan_def canned_plan_def plan_errors_def max_plan_steps_def check_step_def count_step_def history_step_def
      send_step_def get_mock_tools step_requires_approval_def)
    (simp add: mock_specs_def tool_def mock_count_args_def mock_user_args_def mock_slack_args_def req_def check_ref_def check_when_def
      demo_refs demo_guard allowed_tool_categories_def READ_DATA_def ANALYZE_def NOTIFY_def)

lemma refusal_infeasible: "\<not> fr_ok (check_plan zone_ok v reg refusal_plan)"
  by (simp add: check_plan_def refusal_plan_def)

lemma canned_answers:
  "make_plan canned_llm (mock_registry env) pystr valid_instruction None = Inr canned_plan"
  "make_plan canned_llm (mock_registry env) pystr refusal_instruction None = Inr refusal_plan"
proof -
  have l: "listing_for_prompt (mock_registry env) = listing_for_prompt (mock_registry demo_tools)"
    by (simp add: listing_for_prompt_def all_tools_def mock_registry_def mock_specs_def tool_def)
  have "\<not> contains (lower (plan_prompt (mock_registry demo_tools) pystr valid_instruction None)) ''delete''"
    unfolding plan_prompt_def by code_simp
  moreover have "contains (lower (plan_prompt (mock_registry demo_tools) pystr refusal_instruction None)) ''delete''"
    unfolding plan_prompt_def by code_simp
  ultimately show "make_plan canned_llm (mock_registry env) pystr valid_instruction None = Inr canned_plan"
    "make_plan canned_llm (mock_registry env) pystr refusal_instruction None = Inr refusal_plan"
    using l by (simp_all add: make_plan_def canned_llm_def plan_prompt_def)
qed

section \<open>The steps\<close>

abbreviation event_of :: "string \<Rightarrow> pydict" where
  "event_of uid \<equiv> [(''user_id'', PStr uid)]"

lemma guard_value:
  assumes "res 1 = Some (PDict [(''count'', PInt n), (''user_id'', PStr uid)])" "n = 1 \<or> n = 3"
  shows "eval_guard ''$step_1.count >= 2'' tr res = Inr (n = 3)"
proof -
  have "(2 :: real) ^ 970 * 3 < 2 ^ 970 * (2 ^ 54 - 1)" by (intro mult_strict_left_mono) simp_all
  also have "\<dots> = max_double_bound" by (simp add: max_double_bound_def right_diff_distrib flip: power_add)
  finally have "max_double_bound > 3" by (smt (verit) one_le_power)
  then show ?thesis
    using assms by (auto simp: eval_guard_def demo_guard resolve_value_def resolve_ref_def demo_refs compare_def py_op_def)
qed

lemma count_runs:
  assumes "keeps_complete v" "x_skipped xs = []"
  shows "run_step v (mock_registry env) rid (event_of uid) count_step xs =
    Go (done_step rid count_step [(''user_id'', PStr uid), (''decision'', PStr ''BLOCK''), (''hours'', PInt 24)] (mock_count uid) xs)"
  using mock_validates(1) [OF assms(1)] assms(2)
  by (simp add: run_step_def blocked_by_def has_when_def count_step_def dispatch_step_def resolve_value_def resolve_ref_def demo_refs
      execute_tool_def get_mock_tools)
    (simp add: mock_specs_def tool_def pure_tool_def with_str_def)

lemma history_runs:
  assumes "keeps_complete v" "x_skipped xs = []" "x_results xs 1 = Some (PDict [(''count'', PInt 3), (''user_id'', PStr uid)])"
  shows "run_step v (mock_registry env) rid (event_of uid) history_step xs =
    Go (done_step rid history_step [(''user_id'', PStr uid)] (PDict [(''summary'', PStr (mock_summary uid))]) xs)"
  using mock_validates(2) [OF assms(1)] assms(2) guard_value [of "x_results xs" 3, OF assms(3)]
  by (simp add: run_step_def blocked_by_def has_when_def when_text_def history_step_def dispatch_step_def resolve_value_def resolve_ref_def
      demo_refs execute_tool_def get_mock_tools)
    (simp add: mock_specs_def tool_def pure_tool_def with_str_def)

lemma history_skipped:
  assumes "x_skipped xs = []" "x_results xs 1 = Some (PDict [(''count'', PInt 1), (''user_id'', PStr uid)])"
  shows "run_step v reg rid tr history_step xs = Go (skip_step rid history_step ''guard false: $step_1.count >= 2'' xs)"
  using assms(1) guard_value [of "x_results xs" 1, OF assms(2)]
  by (simp add: run_step_def blocked_by_def has_when_def when_text_def history_step_def)

lemma send_refs: "referenced_steps send_step = [2, 1]"
  by (simp add: referenced_steps_def send_step_def arg_refs_def ref_steps_def demo_refs when_refs_def has_when_def when_text_def demo_guard)

lemma send_skipped:
  assumes "x_skipped xs = [2]"
  shows "\<exists>reason. run_step v reg rid tr send_step xs = Go (skip_step rid send_step reason xs)"
  unfolding run_step_def using assms by (auto simp: blocked_by_def send_refs intro!: exI)

lemma send_runs:
  assumes "keeps_complete v" "x_skipped xs = []" "x_results xs 1 = Some (PDict [(''count'', PInt 3), (''user_id'', PStr uid)])"
    and "x_results xs 2 = Some (PDict [(''summary'', PStr txt)])"
    and "slack_send write_outbox (te_url env) (te_post env) ''#fraud-ops'' txt (x_store xs) = (Inr res, st)"
  shows "run_step v (mock_registry env) rid tr send_step xs =
    Go (done_step rid send_step [(''channel'', PStr ''#fraud-ops''), (''text'', PStr txt)] res (xs\<lparr>x_store := st\<rparr>))"
  using mock_validates(3) [OF assms(1)] assms(2,4,5) guard_value [of "x_results xs" 3, OF assms(3)]
  by (simp add: run_step_def blocked_by_def has_when_def when_text_def send_step_def dispatch_step_def resolve_value_def resolve_ref_def
      demo_refs execute_tool_def get_mock_tools)
    (simp add: mock_specs_def tool_def slack_tool_def with_str_def)

lemma demo_numbers: "ps_number count_step = 1" "ps_number history_step = 2" "ps_number send_step = 3"
  by (simp_all add: count_step_def history_step_def send_step_def)

text \<open>The run of the canned plan for one user\<close>

definition demo_message :: "string \<Rightarrow> string \<times> pydict" where
  "demo_message uid = (''slack'', slack_payload ''#fraud-ops'' (mock_summary uid))"

lemma canned_sorted: "sort_key ps_number (pl_steps canned_plan) = pl_steps canned_plan"
  by (simp add: canned_plan_def demo_numbers)

lemma steps_below:
  assumes "keeps_complete v" "contains (lower uid) ''safe''"
  shows "completes v (mock_registry env) (event_of uid) canned_plan (statuses [''ok'', ''skipped'', ''skipped'']) []"
  unfolding completes_def canned_sorted statuses_def
proof (intro allI impI)
  fix rid st
  assume io: "in_order st"
  let ?x1 = "done_step rid count_step [(''user_id'', PStr uid), (''decision'', PStr ''BLOCK''), (''hours'', PInt 24)] (mock_count uid) (exec_start st)"
  let ?x2 = "skip_step rid history_step ''guard false: $step_1.count >= 2'' ?x1"
  have 1: "run_step v (mock_registry env) rid (event_of uid) count_step (exec_start st) = Go ?x1"
    by (rule count_runs [OF assms(1)]) (simp add: exec_start_def)
  have 2: "run_step v (mock_registry env) rid (event_of uid) history_step ?x1 = Go ?x2"
    by (rule history_skipped [where uid = uid]) (simp_all add: done_fields exec_start_def demo_numbers mock_count_def assms(2))
  have "x_skipped ?x2 = [2]" by (simp add: skip_fields done_fields exec_start_def demo_numbers)
  from send_skipped [OF this] obtain reason where
    "run_step v (mock_registry env) rid (event_of uid) send_step ?x2 = Go (skip_step rid send_step reason ?x2)" by blast
  then show "\<exists>xs. run_steps v (mock_registry env) rid (event_of uid) (pl_steps canned_plan) (exec_start st) = Go xs \<and>
      map oc_status (x_outcomes xs) = [''ok'', ''skipped'', ''skipped''] \<and>
      outbox_contents (x_store xs) = outbox_contents st @ [] \<and> in_order (x_store xs)"
    using 1 2 by (simp add: canned_plan_def skip_fields done_fields checkpoint_frame)
      (simp add: exec_start_def in_order_keeps io)
qed

lemma steps_above:
  assumes "keeps_complete v" "\<not> contains (lower uid) ''safe''"
  shows "completes v (mock_registry env) (event_of uid) canned_plan (statuses [''ok'', ''ok'', ''ok'']) [demo_message uid]"
  unfolding completes_def canned_sorted statuses_def
proof (intro allI impI)
  fix rid st
  assume io: "in_order st"
  let ?x1 = "done_step rid count_step [(''user_id'', PStr uid), (''decision'', PStr ''BLOCK''), (''hours'', PInt 24)] (mock_count uid) (exec_start st)"
  let ?x2 = "done_step rid history_step [(''user_id'', PStr uid)] (PDict [(''summary'', PStr (mock_summary uid))]) ?x1"
  let ?w = "write_outbox ''slack'' (slack_payload ''#fraud-ops'' (mock_summary uid)) (x_store ?x2)"
  have 1: "run_step v (mock_registry env) rid (event_of uid) count_step (exec_start st) = Go ?x1"
    by (rule count_runs [OF assms(1)]) (simp add: exec_start_def)
  have 2: "run_step v (mock_registry env) rid (event_of uid) history_step ?x1 = Go ?x2"
    by (rule history_runs [OF assms(1)]) (simp_all add: done_fields exec_start_def demo_numbers mock_count_def assms(2))
  have "in_order (x_store ?x2)" by (simp add: done_fields exec_start_def in_order_keeps io)
  then obtain i where "fst ?w = Inr i" using write_outbox_ok unfolding in_order_def by blast
  moreover define y where "y = snd ?w"
  ultimately have w: "?w = (Inr i, y)" by (simp only: prod_eq_iff fst_conv snd_conv)
  then obtain res where s: "slack_send write_outbox (te_url env) (te_post env) ''#fraud-ops'' (mock_summary uid) (x_store ?x2) = (Inr res, y)"
    using slack_sends [OF w] by blast
  have 3: "run_step v (mock_registry env) rid (event_of uid) send_step ?x2 =
      Go (done_step rid send_step [(''channel'', PStr ''#fraud-ops''), (''text'', PStr (mock_summary uid))] res (?x2\<lparr>x_store := y\<rparr>))"
    by (rule send_runs [OF assms(1) _ _ _ s, where uid = uid]) (simp_all add: done_fields exec_start_def demo_numbers mock_count_def assms(2))
  have o: "outbox_contents y = outbox_contents st @ [demo_message uid]"
    using write_outbox_appends [OF w] by (simp add: done_fields checkpoint_frame demo_message_def) (simp add: exec_start_def)
  have io': "in_order y" unfolding y_def by (intro in_order_keeps) (simp add: done_fields exec_start_def in_order_keeps io)
  have r: "run_steps v (mock_registry env) rid (event_of uid) (pl_steps canned_plan) (exec_start st) =
      Go (done_step rid send_step [(''channel'', PStr ''#fraud-ops''), (''text'', PStr (mock_summary uid))] res (?x2\<lparr>x_store := y\<rparr>))"
    by (simp only: canned_plan_def workflow_plan.simps run_steps.simps 1 2 3 flow.simps)
  show "\<exists>xs. run_steps v (mock_registry env) rid (event_of uid) (pl_steps canned_plan) (exec_start st) = Go xs \<and>
      map oc_status (x_outcomes xs) = [''ok'', ''ok'', ''ok''] \<and>
      outbox_contents (x_store xs) = outbox_contents st @ [demo_message uid] \<and> in_order (x_store xs)"
    by (rule exI, rule conjI, rule r)
      (simp add: done_fields checkpoint_frame o in_order_keeps io', simp add: exec_start_def done_fields)
qed

lemma demo_executes:
  assumes "completes v (mock_registry env) (event_of uid) canned_plan (statuses ss) ms" "in_order st" "state_of st wid = Some READY"
  shows "\<exists>rr st'. execute v (mock_registry env) wid canned_plan (Some (event_of uid)) None st = (Inr rr, st') \<and>
    rr_status rr = ''COMPLETED'' \<and> map oc_status (rr_steps rr) = ss \<and> state_of st' = (state_of st)(wid \<mapsto> COMPLETED) \<and>
    outbox_contents st' = outbox_contents st @ ms \<and> in_order st'"
  using mock.ready_executes [of v env "Some (event_of uid)" canned_plan "statuses ss" ms st wid None] assms by (simp add: key_taken_def statuses_def)

section \<open>The demonstration\<close>

lemma safe_id: "contains (lower (''safe-'' @ uid)) ''safe''"
proof -
  have "lower (''safe-'' @ uid) = ''safe-'' @ lower uid" unfolding lower_def map_append by (rule arg_cong2 [where f = append]) code_simp+
  then show ?thesis by (simp add: contains_iff_sublist sublist_Cons_right)
qed

lemma demo_runs_twice:
  assumes "keeps_complete v" "\<not> contains (lower uid) ''safe''" "in_order st" "state_of st wid = Some PLANNED"
  shows "\<exists>r1 r2 st'. demo_runs v (mock_registry env) wid canned_plan False uid st = (Inr [r1, r2], st') \<and>
    rr_status r1 = ''COMPLETED'' \<and> map oc_status (rr_steps r1) = [''ok'', ''ok'', ''ok''] \<and>
    rr_status r2 = ''COMPLETED'' \<and> map oc_status (rr_steps r2) = [''ok'', ''skipped'', ''skipped''] \<and>
    state_of st' = (state_of st)(wid \<mapsto> COMPLETED) \<and> outbox_contents st' = outbox_contents st @ [demo_message uid] \<and> in_order st'"
proof -
  obtain s1 where s1: "transition wid FEASIBLE st = (Inr (), s1)" "state_of s1 = (state_of st)(wid \<mapsto> FEASIBLE)"
    "outbox_contents s1 = outbox_contents st" "in_order s1"
    using moves [of st wid PLANNED FEASIBLE] assms(3,4) by (auto simp: can_transition_def)
  obtain s2 where s2: "transition wid READY s1 = (Inr (), s2)" "state_of s2 = (state_of st)(wid \<mapsto> READY)"
    "outbox_contents s2 = outbox_contents st" "in_order s2"
    using moves [of s1 wid FEASIBLE READY] s1 by (auto simp: can_transition_def)
  obtain r1 s3 where s3: "execute v (mock_registry env) wid canned_plan (Some (event_of uid)) None s2 = (Inr r1, s3)"
    "rr_status r1 = ''COMPLETED''" "map oc_status (rr_steps r1) = [''ok'', ''ok'', ''ok'']"
    "state_of s3 = (state_of st)(wid \<mapsto> COMPLETED)" "outbox_contents s3 = outbox_contents st @ [demo_message uid]" "in_order s3"
    using demo_executes [OF steps_above [OF assms(1,2), of env] s2(4), of wid] s2 by auto
  obtain s4 where s4: "transition wid READY s3 = (Inr (), s4)" "state_of s4 = (state_of st)(wid \<mapsto> READY)"
    "outbox_contents s4 = outbox_contents st @ [demo_message uid]" "in_order s4"
    using moves [of s3 wid COMPLETED READY] s3 by (auto simp: can_transition_def)
  obtain r2 s5 where s5: "execute v (mock_registry env) wid canned_plan (Some (event_of (''safe-'' @ uid))) None s4 = (Inr r2, s5)"
    "rr_status r2 = ''COMPLETED''" "map oc_status (rr_steps r2) = [''ok'', ''skipped'', ''skipped'']"
    "state_of s5 = (state_of st)(wid \<mapsto> COMPLETED)" "outbox_contents s5 = outbox_contents st @ [demo_message uid]" "in_order s5"
    using demo_executes [OF steps_below [OF assms(1) safe_id [of uid], of env] s4(4), of wid] s4 by auto
  show ?thesis using s1(1) s2(1) s3 s4(1) s5 by (simp add: demo_runs_def)
qed

lemma find_snoc: "find P (xs @ [x]) = (case find P xs of Some y \<Rightarrow> Some y | None \<Rightarrow> if P x then Some x else None)"
  by (induction xs) auto

lemma creates:
  assumes "in_order st"
  shows "\<exists>wid st'. create_workflow u i t p s st = (Inr wid, st') \<and> state_of st wid = None \<and> state_of st' = (state_of st)(wid \<mapsto> s) \<and>
    outbox_contents st' = outbox_contents st \<and> in_order st'"
proof -
  define wid where "wid = ids st (next_id st)"
  have fresh: "wid \<notin> w_id ` set (workflows st)" unfolding wid_def
    using fresh_id [of st] assms by (auto simp: in_order_def used_ids_def)
  have n: "state_of st wid = None" using fresh by (simp add: state_of_def get_workflow_None)
  have "fst (create_workflow u i t p s st) = Inr wid" using fresh by (simp add: create_workflow_def new_id_def now_iso_def wid_def)
  moreover have "state_of (snd (create_workflow u i t p s st)) = (state_of st)(wid \<mapsto> s)"
  proof (rule ext)
    fix w
    show "state_of (snd (create_workflow u i t p s st)) w = ((state_of st)(wid \<mapsto> s)) w"
      using fresh n by (cases "w = wid")
        (auto simp: create_workflow_def new_id_def now_iso_def state_of_def get_workflow_def find_snoc fresh_row_def wid_def
          split: option.split)
  qed
  ultimately show ?thesis
    using n bookkeeping_outbox(5) [of u i t p s st] in_order_keeps(7) [OF assms, of u i t p s]
    by (cases "create_workflow u i t p s st") simp
qed

text \<open>C37: The demonstration of the engine, end to end on an empty database.  For any user whose name does not contain 'safe', any
  Slack webhook (present or not, answering or not) and a pydantic that returns a complete dictionary as it is: the valid
  instruction is planned, accepted and run twice; the first run executes its three steps and sends exactly one message,
  the second, for the user below the threshold, counts and then skips both guarded steps and sends nothing; the
  instruction to delete is refused.  Nothing else reaches the outbox.\<close>

theorem demo_sends_once:
  assumes "keeps_complete v" "inj i" "\<not> contains (lower uid) ''safe''"
  shows "\<exists>wid wid2 r1 r2 st. run_demo v zone_ok pystr dumps env uid (empty_store i c) = (Inr (wid, wid2, [r1, r2]), st) \<and>
    map oc_status (rr_steps r1) = [''ok'', ''ok'', ''ok''] \<and> map oc_status (rr_steps r2) = [''ok'', ''skipped'', ''skipped''] \<and>
    outbox_contents st = [demo_message uid] \<and> state_of st wid = Some COMPLETED \<and> state_of st wid2 = Some REJECTED"
proof -
  let ?st = "empty_store i c"
  have e: "in_order ?st" "outbox_contents ?st = []" using assms(2) store_inv_empty by (simp_all add: in_order_def empty_store_def outbox_contents_def)
  obtain wid s1 where s1: "create_workflow (Some uid) valid_instruction None None SUBMITTED ?st = (Inr wid, s1)"
    "state_of s1 wid = Some SUBMITTED" "outbox_contents s1 = []" "in_order s1"
    using creates [OF e(1)] e(2) by (metis fun_upd_same)
  obtain s2 where s2: "transition wid PLANNED s1 = (Inr (), s2)" "state_of s2 wid = Some PLANNED" "outbox_contents s2 = []" "in_order s2"
    using moves [of s1 wid SUBMITTED PLANNED] s1 by (auto simp: can_transition_def)
  let ?s3 = "set_plan wid (dumps canned_plan) s2"
  have s3: "state_of ?s3 wid = Some PLANNED" "outbox_contents ?s3 = []" "in_order ?s3"
    using s2 by (simp_all add: set_plan_state bookkeeping_outbox in_order_keeps)
  obtain r1 r2 s4 where s4: "demo_runs v (mock_registry env) wid canned_plan False uid ?s3 = (Inr [r1, r2], s4)"
    "map oc_status (rr_steps r1) = [''ok'', ''ok'', ''ok'']" "map oc_status (rr_steps r2) = [''ok'', ''skipped'', ''skipped'']"
    "state_of s4 wid = Some COMPLETED" "outbox_contents s4 = [demo_message uid]" "in_order s4"
    using demo_runs_twice [OF assms(1,3) s3(3,1), of env] s3(2) by auto
  obtain wid2 s5 where s5: "create_workflow (Some uid) refusal_instruction None None SUBMITTED s4 = (Inr wid2, s5)" "state_of s4 wid2 = None"
    "state_of s5 = (state_of s4)(wid2 \<mapsto> SUBMITTED)" "outbox_contents s5 = [demo_message uid]" "in_order s5"
    using creates [OF s4(6)] s4(5) by metis
  have ne: "wid \<noteq> wid2" using s4(4) s5(2) by auto
  obtain s6 where s6: "transition wid2 PLANNED s5 = (Inr (), s6)" "state_of s6 = (state_of s5)(wid2 \<mapsto> PLANNED)"
    "outbox_contents s6 = [demo_message uid]"
    using moves [of s5 wid2 SUBMITTED PLANNED] s5 by (auto simp: can_transition_def)
  obtain s7 where s7: "transition wid2 REJECTED s6 = (Inr (), s7)" "state_of s7 = (state_of s6)(wid2 \<mapsto> REJECTED)"
    "outbox_contents s7 = [demo_message uid]"
    using moves [of s6 wid2 PLANNED REJECTED] s6 by (auto simp: can_transition_def)
  have "run_demo v zone_ok pystr dumps env uid ?st = (Inr (wid, wid2, [r1, r2]), s7)"
    using s1(1) s2(1) s4(1) s5(1) s6(1) s7(1) refusal_infeasible [of zone_ok v "mock_registry env"]
    by (simp add: run_demo_def canned_answers canned_feasible [OF assms(1)])
  then show ?thesis using s4(2-4) s5(3) s6(2) s7(2,3) ne by auto
qed

theorem demo_sends_once_witness:
  "\<exists>wid wid2 r1 r2 st. run_demo strict_validator (\<lambda>_. True) (\<lambda>_. []) (\<lambda>_. []) demo_tools ''u1''
      (empty_store (\<lambda>n. replicate n (CHR ''x'')) (\<lambda>_. [])) = (Inr (wid, wid2, [r1, r2]), st) \<and>
    map oc_status (rr_steps r1) = [''ok'', ''ok'', ''ok''] \<and> map oc_status (rr_steps r2) = [''ok'', ''skipped'', ''skipped''] \<and>
    outbox_contents st = [demo_message ''u1''] \<and> state_of st wid = Some COMPLETED \<and> state_of st wid2 = Some REJECTED"
proof (rule demo_sends_once)
  show "keeps_complete strict_validator" by (rule strict_keeps_complete)
  show "inj (\<lambda>n. replicate n (CHR ''x''))" by (rule injI) (metis length_replicate)
  show "\<not> contains (lower ''u1'') ''safe''" by code_simp
qed

end
