(* ===== verification/Scheduled_Demo.thy ===== *)
theory Scheduled_Demo
  imports Demo_Run
begin

text \<open>
  \<open>workflow_engine/run_demo.py --mock --scheduled\<close>: the demonstration of a scheduled report, with its registry over a fake
  warehouse connection, its canned planner and the simulated trigger.  The SQL guard, the reading of ISO dates and the
  webhook are those of \<open>tool_env\<close>, pydantic and the codecs those of \<open>sched_env\<close>.  What the script prints is its result,
  with the exceptions the printing may raise.
\<close>

section \<open>The mock stack\<close>

definition scheduled_instruction :: string where
  "scheduled_instruction = ''Every day at 10 PM, send #fraud-ops a report showing total reviewed transactions, BLOCK count, ESCALATE count, fraud rate, and top fraud pattern.''"

definition scheduled_refusal :: string where
  "scheduled_refusal = ''Every day at 10 PM delete yesterday's BLOCK decisions and email me the result.''"

definition fake_columns :: "string list" where
  "fake_columns = [''transactions_reviewed'', ''block_count'', ''escalate_count'', ''allow_count'', ''fraud_rate'', ''top_fraud_pattern'']"

definition fake_row :: "pyval list" where
  "fake_row = [PInt 4820, PInt 102, PInt 25, PInt 4693, PFloat (Fin (263 / 10000)), PStr ''VELOCITY_SPIKE'']"

definition fake_conn :: db_conn where
  "fake_conn = \<lparr>db_open = Inr (), db_run = (\<lambda>_. Inr (fake_columns, [PList fake_row]))\<rparr>"

text \<open>A name that is not in the catalogue is taken for the statement itself.\<close>

definition mock_report :: "tool_env \<Rightarrow> string \<Rightarrow> pyval \<Rightarrow> pyval \<Rightarrow> pyexn + pyval" where
  "mock_report env report ws we =
    (let sql = (case map_of report_catalog report of Some (_, s) \<Rightarrow> s | None \<Rightarrow> report)
     in and_then (fst (run_validated_report (te_gate env) fake_conn (te_fromiso env) sql ws we [])) (\<lambda>d. Inr (PDict d)))"

definition mock_report_specs :: "tool_env \<Rightarrow> store tool_spec list" where
  "mock_report_specs env =
    [tool ''run_report_query'' ''run a named parameterized report'' report_run_args READ_DATA
       (pure_tool (\<lambda>d. with_str d ''report'' (\<lambda>r. mock_report env r (get_key d ''window_start'') (get_key d ''window_end'')))) True,
     tool ''format_report'' ''format a report'' format_report_args ANALYZE
       (pure_tool (\<lambda>d. with_str d ''title'' (\<lambda>t. with_dict d ''data'' (\<lambda>x.
          and_then (format_report (te_str env) (te_now env) t x) (\<lambda>r. Inr (PDict r)))))) True,
     tool ''slack_send_message'' ''send slack'' mock_slack_args NOTIFY (slack_tool env) False]"

definition mock_report_registry :: "tool_env \<Rightarrow> store registry" where
  "mock_report_registry env = map (\<lambda>s. (t_name s, s)) (mock_report_specs env)"

definition scheduled_refusal_plan :: workflow_plan where
  "scheduled_refusal_plan = \<lparr>pl_goal = ''delete BLOCK decisions'', pl_trigger = None, pl_schedule = None, pl_steps = [],
     pl_needs_clarification = True,
     pl_clarification_question = Some (''No tool can delete or modify decisions '' @ em_dash @
       '' every registered tool is read-only or notify-only.'')\<rparr>"

definition nightly_schedule :: planned_schedule where
  "nightly_schedule = \<lparr>p_frequency = Some ''daily'', p_hour = Some 22, p_minute = 0, p_day_of_week = None,
     p_timezone = Some ''America/New_York''\<rparr>"

definition run_report_step :: plan_step where
  "run_report_step = \<lparr>ps_number = 1, ps_tool = ''run_report_query'',
     ps_args = [(''report'', PStr ''fraud_performance''), (''window_start'', PStr ''$trigger.window_start''),
       (''window_end'', PStr ''$trigger.window_end'')],
     ps_rationale = ''run the validated fraud report for the day's window'', ps_when = None\<rparr>"

definition format_report_step :: plan_step where
  "format_report_step = \<lparr>ps_number = 2, ps_tool = ''format_report'',
     ps_args = [(''title'', PStr ''Daily Fraud Operations Report''), (''data'', PStr ''$step_1'')],
     ps_rationale = ''turn rows into a readable report (never raw tuples)'', ps_when = None\<rparr>"

definition slack_report_step :: plan_step where
  "slack_report_step = \<lparr>ps_number = 3, ps_tool = ''slack_send_message'',
     ps_args = [(''channel'', PStr ''#fraud-ops''), (''text'', PStr ''$step_2.slack_text'')],
     ps_rationale = ''deliver the compact report to Slack'', ps_when = None\<rparr>"

definition scheduled_plan :: workflow_plan where
  "scheduled_plan = \<lparr>pl_goal = ''daily fraud performance report to #fraud-ops'', pl_trigger = None,
     pl_schedule = Some nightly_schedule, pl_steps = [run_report_step, format_report_step, slack_report_step],
     pl_needs_clarification = False, pl_clarification_question = None\<rparr>"

definition canned_report_llm :: llm where
  "canned_report_llm message = Inr (if contains (lower message) ''delete'' then scheduled_refusal_plan else scheduled_plan)"

section \<open>The flow\<close>

text \<open>\<open>Schedule(**plan.schedule.model_dump())\<close>\<close>

definition interpreted :: "(string \<Rightarrow> bool) \<Rightarrow> workflow_plan \<Rightarrow> pyexn + schedule" where
  "interpreted zone_ok plan =
    (case pl_schedule plan of
       None \<Rightarrow> Inl (Exn (OtherExn ''AttributeError'') ''NoneType object has no attribute model_dump'')
     | Some p \<Rightarrow>
        (case make_schedule zone_ok p of
           Inl (loc, msg) \<Rightarrow> Inl (Exn ValidationError (loc @ '' '' @ msg))
         | Inr sc \<Rightarrow> Inr sc))"

text \<open>\<open>result.steps[n].result[k]\<close>\<close>

definition step_field :: "run_result \<Rightarrow> nat \<Rightarrow> string \<Rightarrow> pyexn + pyval" where
  "step_field rr n k =
    (if length (rr_steps rr) \<le> n then Inl (Exn (OtherExn ''IndexError'') ''list index out of range'')
     else case oc_result (rr_steps rr ! n) of
            PDict d \<Rightarrow> (case map_of d k of Some x \<Rightarrow> Inr x | None \<Rightarrow> Inl (Exn KeyError k))
          | _ \<Rightarrow> Inl (Exn TypeError ''the result of the step has no such key''))"

text \<open>The executed statement and the text of the message, as they are printed\<close>

definition shown_report :: "run_result option \<Rightarrow> pyexn + pyval \<times> string" where
  "shown_report result =
    (case result of
       None \<Rightarrow> Inl (Exn (OtherExn ''AttributeError'') ''NoneType object has no attribute status'')
     | Some rr \<Rightarrow>
        and_then (step_field rr 0 ''sql'') (\<lambda>q. and_then (step_field rr 1 ''slack_text'') (\<lambda>t.
          case t of PStr s \<Rightarrow> Inr (q, s)
          | _ \<Rightarrow> Inl (Exn (OtherExn ''AttributeError'') ''object has no attribute splitlines''))))"

definition trigger_at :: datetime where
  "trigger_at = \<lparr>year = 2026, month = 8, day = 20, hour = 22, minute = 0, second = 0, microsecond = 0, utcoffset = Some 0\<rparr>"

definition quoted :: "string \<Rightarrow> string" where
  "quoted s = [CHR 0x22] @ s @ [CHR 0x22]"

definition slack_target_json :: string where
  "slack_target_json = ''{'' @ quoted ''connector'' @ '':'' @ quoted ''slack'' @ '','' @ quoted ''channel'' @ '':'' @ quoted ''#fraud-ops'' @ ''}''"

record fired_demo =
  fd_next :: "string option"
  fd_report :: "pyval \<times> string"
  fd_again :: "run_result option"

text \<open>Registered with a runtime that was never started, then triggered by hand, twice in one period\<close>

definition fire_demo :: "sched_env \<Rightarrow> store registry \<Rightarrow> string \<Rightarrow> schedule \<Rightarrow> store \<Rightarrow> (fired_demo, store) out" where
  "fire_demo senv reg wid sc st =
    seq (let r = schedule_workflow senv wid sc \<lparr>rt_store = st, rt_jobs = None\<rparr> in (fst r, rt_store (snd r))) (\<lambda>next_run st.
    seq (fire senv reg wid ''daily'' trigger_at st) (\<lambda>result st.
    seq (shown_report result, st) (\<lambda>shown st.
    seq (fire senv reg wid ''daily'' (trigger_at\<lparr>minute := 3\<rparr>) st) (\<lambda>again st.
      (Inr \<lparr>fd_next = next_run, fd_report = shown, fd_again = again\<rparr>, st)))))"

definition run_scheduled :: "sched_env \<Rightarrow> (string \<Rightarrow> bool) \<Rightarrow> (pydict \<Rightarrow> string) \<Rightarrow> tool_env \<Rightarrow> store
    \<Rightarrow> (string \<times> (fired_demo \<times> string) option, store) out" where
  "run_scheduled senv zone_ok pystr env st =
    (let reg = mock_report_registry env; v = e_validate senv in
    seq (create_workflow (Some ''analyst'') scheduled_instruction None None SUBMITTED st) (\<lambda>wid st.
    seq (transition wid PLANNED st) (\<lambda>_ st.
    seq (make_plan canned_report_llm reg pystr scheduled_instruction None, st) (\<lambda>plan st.
    let st = set_plan wid (e_dump_plan senv plan) st in
    seq (interpreted zone_ok plan, st) (\<lambda>sc st.
    if \<not> fr_ok (check_plan zone_ok v reg plan)
    then seq (transition wid REJECTED st) (\<lambda>_ st. (Inr (wid, None), st))
    else
      seq (transition wid FEASIBLE st) (\<lambda>_ st.
      seq (set_schedule wid (e_dump_schedule senv sc) (Some slack_target_json) None st) (\<lambda>_ st.
      seq (transition wid READY st) (\<lambda>_ st.
      seq (fire_demo senv reg wid sc st) (\<lambda>shown st.
      seq (create_workflow (Some ''analyst'') scheduled_refusal None None SUBMITTED st) (\<lambda>wid2 st.
      seq (transition wid2 PLANNED st) (\<lambda>_ st.
      seq (make_plan canned_report_llm reg pystr scheduled_refusal None, st) (\<lambda>plan2 st.
      seq (transition wid2 (if \<not> fr_ok (check_plan zone_ok v reg plan2) then REJECTED else FEASIBLE) st) (\<lambda>_ st.
        (Inr (wid, Some (shown, wid2)), st))))))))))))))"

section \<open>The registry\<close>

lemma get_report_tools:
  "get_tool (mock_report_registry env) ''run_report_query'' = Some (mock_report_specs env ! 0)"
  "get_tool (mock_report_registry env) ''format_report'' = Some (mock_report_specs env ! Suc 0)"
  "get_tool (mock_report_registry env) ''slack_send_message'' = Some (mock_report_specs env ! 2)"
  by (simp_all add: get_tool_def mock_report_registry_def mock_report_specs_def tool_def)

lemma report_registered: "register_all (mock_report_specs env) [] = Inr (mock_report_registry env)"
  unfolding mock_report_registry_def by (subst register_all_append) (simp_all add: mock_report_specs_def tool_def)

lemma report_quiet:
  assumes "get_tool (mock_report_registry env) n = Some s"
  shows "workflows (snd (t_execute s a st)) = workflows st \<and> runs (snd (t_execute s a st)) = runs st"
proof -
  have "s \<in> set (mock_report_specs env)" using assms by (auto simp: get_tool_def mock_report_registry_def dest: map_of_SomeD)
  then consider "snd (t_execute s a st) = st" | "t_execute s = slack_tool env"
    by (auto simp: mock_report_specs_def tool_def pure_tool_def)
  then show ?thesis using slack_tool_store [of env a st] by cases (auto simp: write_outbox_frame)
qed

interpretation mock_reports: quiet_registry "mock_report_registry env" for env
  by unfold_locales (rule report_quiet)

lemma slack_ref: "match_REF_RE ''$step_2.slack_text'' = Some \<lparr>ref_base = StepRef 2, ref_field = Some ''slack_text''\<rparr>"
  by code_simp

definition nightly :: schedule where
  "nightly = \<lparr>sc_frequency = Daily, sc_minute = 0, sc_hour = Some 22, sc_day_of_week = None, sc_timezone = ''America/New_York''\<rparr>"

lemma nightly_interpreted:
  assumes "zone_ok ''America/New_York''"
  shows "make_schedule zone_ok nightly_schedule = Inr nightly"
proof -
  have "strip ''America/New_York'' \<noteq> []" by code_simp
  then show ?thesis
    using assms by (simp add: nightly_def make_schedule_def nightly_schedule_def check_frequency.simps check_hour.simps check_dow.simps check_tz.simps
        parse_freq_def check_range_def tz_must_be_valid_def fields_required_by_frequency_def)
qed

lemma scheduled_feasible:
  assumes "keeps_complete v" "zone_ok ''America/New_York''"
  shows "check_plan zone_ok v (mock_report_registry env) scheduled_plan = \<lparr>fr_ok = True, fr_errors = [], fr_requires_approval = False\<rparr>"
proof -
  have "check_schedule zone_ok nightly_schedule = []" using nightly_interpreted [of zone_ok, OF assms(2)] by (simp add: check_schedule_Nil)
  then show ?thesis
    using report_args_kept [OF assms(1)] mock_validates(3) [OF assms(1)]
    by (simp add: check_plan_def scheduled_plan_def plan_errors_def max_plan_steps_def check_step_def run_report_step_def format_report_step_def
        slack_report_step_def get_report_tools step_requires_approval_def)
      (simp add: mock_report_specs_def tool_def report_run_args_def format_report_args_def mock_slack_args_def req_def check_ref_def check_when_def
        promotion_refs slack_ref allowed_tool_categories_def READ_DATA_def ANALYZE_def NOTIFY_def)
qed

lemma scheduled_answers:
  "make_plan canned_report_llm (mock_report_registry env) pystr scheduled_instruction None = Inr scheduled_plan"
  "make_plan canned_report_llm (mock_report_registry env) pystr scheduled_refusal None = Inr scheduled_refusal_plan"
proof -
  have l: "listing_for_prompt (mock_report_registry env) = listing_for_prompt (mock_report_registry demo_tools)"
    by (simp add: listing_for_prompt_def all_tools_def mock_report_registry_def mock_report_specs_def tool_def)
  have "\<not> contains (lower (plan_prompt (mock_report_registry demo_tools) pystr scheduled_instruction None)) ''delete''"
    unfolding plan_prompt_def by code_simp
  moreover have "contains (lower (plan_prompt (mock_report_registry demo_tools) pystr scheduled_refusal None)) ''delete''"
    unfolding plan_prompt_def by code_simp
  ultimately show "make_plan canned_report_llm (mock_report_registry env) pystr scheduled_instruction None = Inr scheduled_plan"
    "make_plan canned_report_llm (mock_report_registry env) pystr scheduled_refusal None = Inr scheduled_refusal_plan"
    using l by (simp_all add: make_plan_def canned_report_llm_def plan_prompt_def)
qed

section \<open>A workflow on its way to its first run\<close>

text \<open>What the trigger reads of the row, and a store in which nothing has run yet\<close>

definition run_columns :: "store \<Rightarrow> string \<Rightarrow> (string option \<times> string \<times> sqlval) option" where
  "run_columns st wid = map_option (\<lambda>r. (w_plan_json r, w_trigger_type r, w_schedule_paused r)) (get_workflow wid st)"

definition prepared :: "store \<Rightarrow> string \<Rightarrow> workflow_state \<Rightarrow> string option \<times> string \<times> sqlval \<Rightarrow> bool" where
  "prepared st wid s cs = (in_order st \<and> state_of st wid = Some s \<and> run_columns st wid = Some cs \<and> runs st = [] \<and> outbox_contents st = [])"

lemma run_columns_frame:
  "run_columns (snd (transition w to st)) wid = run_columns st wid"
  "run_columns (set_plan w p st) w = map_option (\<lambda>(_, t, z). (Some p, t, z)) (run_columns st w)"
  "run_columns (snd (set_field w ''trigger_type'' (SText t) st)) w = map_option (\<lambda>(p, _, z). (p, t, z)) (run_columns st w)"
  "c \<notin> {''trigger_type'', ''schedule_paused''} \<Longrightarrow> run_columns (snd (set_field w c x st)) wid = run_columns st wid"
proof -
  show "run_columns (snd (transition w to st)) wid = run_columns st wid"
    by (cases "get_workflow wid st") (simp_all add: run_columns_def transition_def update_wf_get split: option.split sum.split)
  show "run_columns (set_plan w p st) w = map_option (\<lambda>(_, t, z). (Some p, t, z)) (run_columns st w)"
    by (cases "get_workflow w st") (simp_all add: run_columns_def set_plan_def update_wf_get)
  have i: "w_id (set_col c v r) = w_id r" for c v r by (simp add: set_col_def split: option.split)
  show "run_columns (snd (set_field w ''trigger_type'' (SText t) st)) w = map_option (\<lambda>(p, _, z). (p, t, z)) (run_columns st w)"
    by (cases "get_workflow w st") (simp_all add: run_columns_def set_field_def set_allowed_def update_wf_get i, simp_all add: set_col_def)
  assume "c \<notin> {''trigger_type'', ''schedule_paused''}"
  then show "run_columns (snd (set_field w c x st)) wid = run_columns st wid"
    by (cases "get_workflow wid st") (simp_all add: run_columns_def set_field_def not_null_def update_wf_get i, simp add: set_col_def)
qed

lemma prepared_transition:
  assumes "prepared st wid s cs" "can_transition s to"
  shows "\<exists>st'. transition wid to st = (Inr (), st') \<and> prepared st' wid to cs"
  using moves [of st wid s to] assms run_columns_frame(1) [of wid to st wid] transition_tables [of wid to st] by (auto simp: prepared_def)

lemma prepared_field:
  assumes "prepared st wid s cs" "c \<in> set set_allowed" "c \<notin> {''trigger_type'', ''schedule_paused''}"
  shows "\<exists>st'. set_field wid c x st = (Inr (), st') \<and> prepared st' wid s cs"
  using set_field_ok [of c x st wid] assms run_columns_frame(4) [of c wid x st wid] set_field_tables [of wid c x st]
  by (auto simp: prepared_def not_null_def)

lemma prepared_plan: "prepared st wid s (p, t, z) \<Longrightarrow> prepared (set_plan wid q st) wid s (Some q, t, z)"
  by (simp add: prepared_def in_order_keeps set_plan_state run_columns_frame bookkeeping_outbox) (simp add: set_plan_def update_wf_tables)

lemma prepared_schedule:
  assumes "prepared st wid s (p, t, z)"
  shows "\<exists>st'. set_schedule wid sj (Some d) None st = (Inr (), st') \<and> prepared st' wid s (p, ''schedule'', z)"
proof -
  obtain s1 where s1: "set_field wid ''trigger_type'' (SText ''schedule'') st = (Inr (), s1)" "prepared s1 wid s (p, ''schedule'', z)"
    using set_field_ok [of "''trigger_type''" "SText ''schedule''" st wid] assms run_columns_frame(3) [of wid "''schedule''" st]
      set_field_tables [of wid "''trigger_type''" "SText ''schedule''" st] by (auto simp: prepared_def set_allowed_def)
  obtain s2 where s2: "set_field wid ''schedule_json'' (SText sj) s1 = (Inr (), s2)" "prepared s2 wid s (p, ''schedule'', z)"
    using prepared_field [OF s1(2), of "''schedule_json''"] by (auto simp: set_allowed_def)
  obtain s3 where s3: "set_field wid ''destination_json'' (SText d) s2 = (Inr (), s3)" "prepared s3 wid s (p, ''schedule'', z)"
    using prepared_field [OF s2(2), of "''destination_json''"] by (auto simp: set_allowed_def)
  show ?thesis using s1(1) s2(1) s3 by (simp add: set_schedule_def)
qed

lemma prepared_register:
  assumes "prepared st wid s cs" "is_ok (e_next_fire senv sc)"
  shows "\<exists>nx st'. schedule_workflow senv wid sc \<lparr>rt_store = st, rt_jobs = None\<rparr> = (Inr nx, \<lparr>rt_store = st', rt_jobs = None\<rparr>) \<and> prepared st' wid s cs"
proof -
  obtain t where t: "e_next_fire senv sc = Inr t" using assms(2) by (auto simp: is_ok_conv)
  obtain s1 where s1: "set_field wid ''next_run_at'' (sql_opt t) st = (Inr (), s1)" "prepared s1 wid s cs"
    using prepared_field [OF assms(1), of "''next_run_at''"] by (auto simp: set_allowed_def)
  then obtain r where "get_workflow wid s1 = Some r" by (auto simp: prepared_def state_of_def)
  then show ?thesis using s1 t
    by (simp add: schedule_workflow_def register_job_def lift_store_def set_next_run_def add_job_def)
qed

lemma prepared_create:
  assumes "in_order st" "runs st = []" "outbox_contents st = []"
  shows "\<exists>wid st'. create_workflow u i t p s st = (Inr wid, st') \<and> prepared st' wid s (p, ''manual'', SInt 0)"
proof -
  obtain wid st' where c: "create_workflow u i t p s st = (Inr wid, st')" "state_of st wid = None" "state_of st' = (state_of st)(wid \<mapsto> s)"
    "outbox_contents st' = outbox_contents st" "in_order st'"
    using creates [OF assms(1)] by blast
  have "get_workflow wid st = None" using c(2) by (simp add: state_of_def)
  then have "run_columns st' wid = Some (p, ''manual'', SInt 0)" "runs st' = runs st" using c(1)
    by (auto simp: run_columns_def create_workflow_def new_id_def now_iso_def get_workflow_def find_snoc fresh_row_def split: if_splits)
  then show ?thesis using c assms by (auto simp: prepared_def)
qed

lemma prepared_due:
  assumes "prepared st wid READY (Some j, ''schedule'', SInt 0)" "j \<noteq> []" "e_load_plan senv j = Inr plan"
  shows "due senv wid plan st" "\<not> run_exists_for_key wid k st"
  using assms by (auto simp: prepared_def run_columns_def state_of_def due_def may_fire_def run_exists_for_key_def split: option.splits)

section \<open>The run of the canned plan\<close>

definition demo_report :: "tool_env \<Rightarrow> string \<Rightarrow> pyexn + report_result" where
  "demo_report env q = build_report (te_str env) (te_now env) ''Daily Fraud Operations Report'' (report_data q fake_columns [fake_row])"

lemma mock_report_answers:
  assumes "te_gate env catalog_sql = Inr t0" "substitute_window (te_fromiso env) catalog_sql (PStr ws) (PStr we) = Inr s1" "te_gate env s1 = Inr q"
  shows "mock_report env ''fraud_performance'' (PStr ws) (PStr we) = Inr (PDict (report_data q fake_columns [fake_row]))"
  using assms by (simp add: mock_report_def report_catalog_def run_validated_report_def report_data_def fake_conn_def)

lemma mock_report_bodies:
  "t_execute (mock_report_specs env ! 0) = pure_tool (\<lambda>d. with_str d ''report'' (\<lambda>r. mock_report env r (get_key d ''window_start'') (get_key d ''window_end'')))"
  "t_execute (mock_report_specs env ! Suc 0) = pure_tool (\<lambda>d. with_str d ''title'' (\<lambda>t. with_dict d ''data'' (\<lambda>x.
     and_then (format_report (te_str env) (te_now env) t x) (\<lambda>r. Inr (PDict r)))))"
  "t_execute (mock_report_specs env ! Suc (Suc 0)) = slack_tool env"
  "t_schema (mock_report_specs env ! 0) = report_run_args" "t_schema (mock_report_specs env ! Suc 0) = format_report_args"
  "t_schema (mock_report_specs env ! Suc (Suc 0)) = mock_slack_args"
  by (simp_all add: mock_report_specs_def tool_def)

lemma scheduled_completes:
  assumes "keeps_complete v" "mock_report env ''fraud_performance'' (PStr ws) (PStr we) = Inr (PDict (report_data q fake_columns [fake_row]))"
  shows "\<exists>rep out. demo_report env q = Inr rep \<and> map_of out ''slack_text'' = Some (PStr (render_slack rep)) \<and>
    completes v (mock_report_registry env) (window_event ws we fired) scheduled_plan (piped (PDict (report_data q fake_columns [fake_row])) (PDict out))
      [(''slack'', slack_payload ''#fraud-ops'' (render_slack rep))]"
proof -
  let ?data = "report_data q fake_columns [fake_row]"
  obtain rep out where rep: "demo_report env q = Inr rep" "map_of out ''slack_text'' = Some (PStr (render_slack rep))"
    and out: "format_report (te_str env) (te_now env) ''Daily Fraud Operations Report'' ?data = Inr out"
    using report_formats [of "te_str env" "te_now env" "''Daily Fraud Operations Report''" q fake_columns "[fake_row]"]
    unfolding demo_report_def by blast
  have srt: "sort_key ps_number (pl_steps scheduled_plan) = [run_report_step, format_report_step, slack_report_step]"
    by (simp add: scheduled_plan_def run_report_step_def format_report_step_def slack_report_step_def)
  have "completes v (mock_report_registry env) (window_event ws we fired) scheduled_plan (piped (PDict ?data) (PDict out))
      [(''slack'', slack_payload ''#fraud-ops'' (render_slack rep))]"
  proof (rule pipeline_completes [OF srt])
    show "get_tool (mock_report_registry env) (ps_tool run_report_step) = Some (mock_report_specs env ! 0)"
      "get_tool (mock_report_registry env) (ps_tool format_report_step) = Some (mock_report_specs env ! Suc 0)"
      "get_tool (mock_report_registry env) (ps_tool slack_report_step) = Some (mock_report_specs env ! Suc (Suc 0))"
      by (simp_all add: get_report_tools run_report_step_def format_report_step_def slack_report_step_def numeral_2_eq_2)
    show "resolve_args (ps_args run_report_step) (window_event ws we fired) Map.empty =
        Inr [(''report'', PStr ''fraud_performance''), (''window_start'', PStr ws), (''window_end'', PStr we)]"
      by (simp add: run_report_step_def resolve_value_def resolve_ref_def promotion_refs)
    show "resolve_args (ps_args format_report_step) (window_event ws we fired) [1 \<mapsto> PDict ?data] =
        Inr [(''title'', PStr ''Daily Fraud Operations Report''), (''data'', PDict ?data)]"
      by (simp add: format_report_step_def resolve_value_def resolve_ref_def promotion_refs)
    show "resolve_args (ps_args slack_report_step) (window_event ws we fired) [1 \<mapsto> PDict ?data, 2 \<mapsto> PDict out] =
        Inr [(''channel'', PStr ''#fraud-ops''), (''text'', PStr (render_slack rep))]"
      using rep(2) by (simp add: slack_report_step_def resolve_value_def resolve_ref_def slack_ref)
  qed (use assms(2) out in \<open>simp_all add: run_report_step_def format_report_step_def slack_report_step_def mock_report_bodies
      report_args_kept [OF assms(1)] mock_validates(3) [OF assms(1)] pure_tool_def with_str_def with_dict_def get_key_def slack_tool_def slack_sends\<close>)
  then show ?thesis using rep by blast
qed

lemma shown_of_piped:
  assumes "piped (PDict (report_data q cols rows)) (PDict out) (rr_steps rr)" "map_of out ''slack_text'' = Some (PStr t)"
  shows "shown_report (Some rr) = Inr (PStr q, t)"
proof -
  obtain o1 o2 o3 where "rr_steps rr = [o1, o2, o3]" using assms(1) by (auto simp: piped_def Cons_eq_map_conv)
  then show ?thesis using assms by (simp add: piped_def shown_report_def step_field_def report_data_def)
qed

section \<open>The demonstration\<close>

lemma trigger_window: "compute_window ''daily'' trigger_at = Inr (''2026-08-19T22:00:00'', ''2026-08-20T22:00:00'')"
  by code_simp

lemma trigger_period: "run_key ''daily'' (trigger_at\<lparr>minute := 3\<rparr>) = run_key ''daily'' trigger_at"
  by code_simp

lemma demo_fires:
  assumes "keeps_complete (e_validate senv)" "is_ok (e_next_fire senv sc)" "e_load_plan senv j = Inr scheduled_plan" "j \<noteq> []"
    and "mock_report env ''fraud_performance'' (PStr ''2026-08-19T22:00:00'') (PStr ''2026-08-20T22:00:00'') =
      Inr (PDict (report_data q fake_columns [fake_row]))"
    and "prepared st wid READY (Some j, ''schedule'', SInt 0)"
  shows "\<exists>nx rep st'. demo_report env q = Inr rep \<and>
    fire_demo senv (mock_report_registry env) wid sc st =
      (Inr \<lparr>fd_next = nx, fd_report = (PStr q, render_slack rep), fd_again = None\<rparr>, st') \<and>
    state_of st' wid = Some COMPLETED \<and> in_order st' \<and> outbox_contents st' = [(''slack'', slack_payload ''#fraud-ops'' (render_slack rep))]"
proof -
  obtain rep out where rep: "demo_report env q = Inr rep" "map_of out ''slack_text'' = Some (PStr (render_slack rep))"
    and run: "completes (e_validate senv) (mock_report_registry env)
      (window_event ''2026-08-19T22:00:00'' ''2026-08-20T22:00:00'' (isoformat trigger_at)) scheduled_plan
      (piped (PDict (report_data q fake_columns [fake_row])) (PDict out)) [(''slack'', slack_payload ''#fraud-ops'' (render_slack rep))]"
    using scheduled_completes [OF assms(1,5)] by blast
  obtain nx s1 where s1: "schedule_workflow senv wid sc \<lparr>rt_store = st, rt_jobs = None\<rparr> = (Inr nx, \<lparr>rt_store = s1, rt_jobs = None\<rparr>)"
    "prepared s1 wid READY (Some j, ''schedule'', SInt 0)"
    using prepared_register [OF assms(6,2)] by blast
  have io: "in_order s1" "outbox_contents s1 = []" using s1(2) by (simp_all add: prepared_def)
  obtain rr s2 where s2: "fire senv (mock_report_registry env) wid ''daily'' trigger_at s1 = (Inr (Some rr), s2)"
    "piped (PDict (report_data q fake_columns [fake_row])) (PDict out) (rr_steps rr)" "state_of s2 = (state_of s1)(wid \<mapsto> COMPLETED)"
    "outbox_contents s2 = outbox_contents s1 @ [(''slack'', slack_payload ''#fraud-ops'' (render_slack rep))]" "in_order s2"
    using mock_reports.due_fires [OF run io(1) prepared_due(1) [OF s1(2) assms(4,3)] prepared_due(2) [OF s1(2) assms(4,3)] trigger_window] by auto
  have s3: "fire senv (mock_report_registry env) wid ''daily'' (trigger_at\<lparr>minute := 3\<rparr>) s2 = (Inr None, s2)"
    by (rule mock_reports.fire_once [OF s2(1) rtranclp.rtrancl_refl trigger_period])
  show ?thesis
    using rep(1) s1(1) s2(1,3-5) s3 io(2) shown_of_piped [OF s2(2) rep(2)] by (simp add: fire_demo_def Let_def)
qed

lemma scheduled_refusal_infeasible: "\<not> fr_ok (check_plan zone_ok v reg scheduled_refusal_plan)"
  by (simp add: check_plan_def scheduled_refusal_plan_def)

text \<open>C36: The demonstration of a scheduled report, end to end on an empty database.  Let the guard accept the report's template
  and its text with the window of the trigger filled in, the plan survive its trip through JSON, the zone exist and the
  cron trigger have an answer for 10 PM, and pydantic return a complete dictionary as it is.  Then the canned plan is
  accepted, registered and triggered: the statement printed is the one the guard returned for the window of that day, the
  outbox holds exactly one message, to #fraud-ops, whose text is the compact form printed, the second trigger in the
  period sends nothing, and the request to delete decisions is refused.\<close>

theorem scheduled_demo_delivers:
  assumes "keeps_complete (e_validate senv)" "inj i" "zone_ok ''America/New_York''" "is_ok (e_next_fire senv nightly)"
    and "e_load_plan senv (e_dump_plan senv scheduled_plan) = Inr scheduled_plan" "e_dump_plan senv scheduled_plan \<noteq> []"
    and "te_gate env catalog_sql = Inr t0" "te_gate env s1 = Inr q"
    and "substitute_window (te_fromiso env) catalog_sql (PStr ''2026-08-19T22:00:00'') (PStr ''2026-08-20T22:00:00'') = Inr s1"
  shows "\<exists>wid wid2 nx rep st. demo_report env q = Inr rep \<and>
    run_scheduled senv zone_ok pystr env (empty_store i c) =
      (Inr (wid, Some (\<lparr>fd_next = nx, fd_report = (PStr q, render_slack rep), fd_again = None\<rparr>, wid2)), st) \<and>
    outbox_contents st = [(''slack'', slack_payload ''#fraud-ops'' (render_slack rep))] \<and>
    state_of st wid = Some COMPLETED \<and> state_of st wid2 = Some REJECTED"
proof -
  let ?st = "empty_store i c" and ?reg = "mock_report_registry env"
  let ?msg = "\<lambda>rep. [(''slack'', slack_payload ''#fraud-ops'' (render_slack rep))]"
  have e: "in_order ?st" "outbox_contents ?st = []" "runs ?st = []"
    using assms(2) store_inv_empty by (simp_all add: in_order_def empty_store_def outbox_contents_def)
  obtain wid a1 where a1: "create_workflow (Some ''analyst'') scheduled_instruction None None SUBMITTED ?st = (Inr wid, a1)"
    "prepared a1 wid SUBMITTED (None, ''manual'', SInt 0)" using prepared_create [OF e(1,3,2)] by blast
  obtain a2 where a2: "transition wid PLANNED a1 = (Inr (), a2)" "prepared a2 wid PLANNED (None, ''manual'', SInt 0)"
    using prepared_transition [OF a1(2), of PLANNED] by (auto simp: can_transition_def)
  let ?j = "e_dump_plan senv scheduled_plan"
  obtain a3 where a3: "transition wid FEASIBLE (set_plan wid ?j a2) = (Inr (), a3)" "prepared a3 wid FEASIBLE (Some ?j, ''manual'', SInt 0)"
    using prepared_transition [OF prepared_plan [OF a2(2)], of FEASIBLE] by (auto simp: can_transition_def)
  obtain a4 where a4: "set_schedule wid (e_dump_schedule senv nightly) (Some slack_target_json) None a3 = (Inr (), a4)"
    "prepared a4 wid FEASIBLE (Some ?j, ''schedule'', SInt 0)" using prepared_schedule [OF a3(2)] by blast
  obtain a5 where a5: "transition wid READY a4 = (Inr (), a5)" "prepared a5 wid READY (Some ?j, ''schedule'', SInt 0)"
    using prepared_transition [OF a4(2), of READY] by (auto simp: can_transition_def)
  obtain nx rep a6 where a6: "demo_report env q = Inr rep" "fire_demo senv ?reg wid nightly a5 =
      (Inr \<lparr>fd_next = nx, fd_report = (PStr q, render_slack rep), fd_again = None\<rparr>, a6)"
    "state_of a6 wid = Some COMPLETED" "in_order a6" "outbox_contents a6 = ?msg rep"
    using demo_fires [OF assms(1,4,5,6) mock_report_answers [OF assms(7,9,8)] a5(2)] by blast
  obtain wid2 a7 where a7: "create_workflow (Some ''analyst'') scheduled_refusal None None SUBMITTED a6 = (Inr wid2, a7)" "state_of a6 wid2 = None"
    "state_of a7 = (state_of a6)(wid2 \<mapsto> SUBMITTED)" "outbox_contents a7 = ?msg rep" "in_order a7"
    using creates [OF a6(4)] a6(5) by metis
  have ne: "wid \<noteq> wid2" using a6(3) a7(2) by auto
  obtain a8 where a8: "transition wid2 PLANNED a7 = (Inr (), a8)" "state_of a8 = (state_of a7)(wid2 \<mapsto> PLANNED)" "outbox_contents a8 = ?msg rep"
    using moves [of a7 wid2 SUBMITTED PLANNED] a7 by (auto simp: can_transition_def)
  obtain a9 where a9: "transition wid2 REJECTED a8 = (Inr (), a9)" "state_of a9 = (state_of a8)(wid2 \<mapsto> REJECTED)" "outbox_contents a9 = ?msg rep"
    using moves [of a8 wid2 PLANNED REJECTED] a8 by (auto simp: can_transition_def)
  have "interpreted zone_ok scheduled_plan = Inr nightly"
    using nightly_interpreted [of zone_ok, OF assms(3)] by (simp add: interpreted_def scheduled_plan_def)
  then have "run_scheduled senv zone_ok pystr env ?st =
      (Inr (wid, Some (\<lparr>fd_next = nx, fd_report = (PStr q, render_slack rep), fd_again = None\<rparr>, wid2)), a9)"
    using a1(1) a2(1) a3(1) a4(1) a5(1) a6(2) a7(1) a8(1) a9(1) scheduled_refusal_infeasible [of zone_ok "e_validate senv" ?reg]
    by (simp add: run_scheduled_def Let_def scheduled_answers scheduled_feasible [of _ zone_ok, OF assms(1,3)])
  then show ?thesis using a6(1,3) a7(3) a8(2) a9(2,3) ne by auto
qed

definition scheduled_env :: sched_env where
  "scheduled_env = demo_env\<lparr>e_validate := strict_validator, e_load_plan := (\<lambda>_. Inr scheduled_plan)\<rparr>"

theorem scheduled_demo_delivers_witness:
  "\<exists>wid wid2 nx rep st q. demo_report nightly_tools q = Inr rep \<and>
    run_scheduled scheduled_env (\<lambda>_. True) (\<lambda>_. []) nightly_tools (empty_store (\<lambda>n. replicate n (CHR ''x'')) (\<lambda>_. [])) =
      (Inr (wid, Some (\<lparr>fd_next = nx, fd_report = (PStr q, render_slack rep), fd_again = None\<rparr>, wid2)), st) \<and>
    outbox_contents st = [(''slack'', slack_payload ''#fraud-ops'' (render_slack rep))]"
proof -
  obtain s1 where s1: "substitute_window (te_fromiso nightly_tools) catalog_sql (PStr ''2026-08-19T22:00:00'') (PStr ''2026-08-20T22:00:00'') = Inr s1"
    using nightly_binds [of leap_fire catalog_sql "CHR ''2''" "''026-08-19T22:00:00''" "CHR ''2''" "''026-08-20T22:00:00''"]
    by (auto simp: nightly_tools_def)
  have "keeps_complete (e_validate scheduled_env)" by (simp add: scheduled_env_def strict_keeps_complete)
  moreover have "inj (\<lambda>n. replicate n (CHR ''x''))" by (rule injI) (metis length_replicate)
  moreover have "is_ok (e_next_fire scheduled_env nightly)" "e_load_plan scheduled_env (e_dump_plan scheduled_env scheduled_plan) = Inr scheduled_plan"
    "e_dump_plan scheduled_env scheduled_plan \<noteq> []" "te_gate nightly_tools x = Inr x" for x
    by (simp_all add: scheduled_env_def demo_env_def is_ok_conv nightly_tools_def demo_tools_def)
  ultimately show ?thesis
    using scheduled_demo_delivers [of scheduled_env "\<lambda>n. replicate n (CHR ''x'')" "\<lambda>_. True" nightly_tools catalog_sql s1 s1 "\<lambda>_. []" "\<lambda>_. []"] s1
    by blast
qed

end
