(* ===== verification/Spec2Isabelle.thy ===== *)
theory Spec2Isabelle
  imports Tools_Bridge Pages Report Governance Db_Tools Resilience Feature_Engine Multi_Agent Single_Agent Eval_Run Startup
    Retrieval Scheduled_Demo
begin

text \<open>
  Verification of the agentic fraud decisioning platform (\<open>src/fraud_platform\<close>).

  \<^bold>\<open>The program.\<close>  A generator seeds the dimension tables and streams synthetic transactions, some of them
  planted frauds, to Kafka.  The feature engine turns every micro-batch into validated feature rows for an online store
  (Redis) and an offline one (S3, Snowflake).  A team of agents (feature, risk, policy, decision) reads the features and
  the policy knowledge base and proposes ALLOW, BLOCK or ESCALATE; the governance tiers decide which decisions a human
  has to review; an evaluation runner persists, traces (redacted), judges and scores them.  Beside that, analysts ask
  questions over a guarded, least-privilege SQL path, and the workflow engine plans automations from English, checks
  them in code, waits for approval where a tool asks for it, and executes them on request, on events or on a schedule.

  \<^bold>\<open>Conventions.\<close>  A Python exception is a value (class and text): an operation that may raise returns
  \<open>pyexn + 'a\<close>, one that also has an effect the sum together with the new state, so that what was written before a
  raise stays written (\<open>seq\<close> in Prelude).  Objects with state are records that are passed and returned.  Python
  values are the datatype \<open>pyval\<close>, a dictionary an association list in insertion order, a string the list of its
  bytes.  Integers are unbounded as in Python.  Floats are exact reals with NaN and the two infinities; an overflow of
  \<open>float(int)\<close> is kept, rounding is not, and the 32-bit columns of the transaction schema are exact as well.
  Letter case, digits and white space are those of ASCII.

  \<^bold>\<open>Parameters.\<close>  Code that is not under \<open>src/\<close> is an argument of the definitions that use it: pydantic
  (\<open>validator\<close>, the codecs in \<open>sched_env\<close>), the SQL parser (\<open>sql_lib\<close>), language models, the sentence
  model, the vector store, Spark's windowed count, the database connections, the clock, random numbers and
  identifiers.  They may answer anything and may raise.  A hypothesis about one is a definition with a name and states its
  documented behaviour: \<open>counts_windows\<close> (Spark counts
  every message that is not late for the watermark; a late one it may count or drop), \<open>names_unique\<close> (no two
  flushes have the same second and the same eight letters of uuid4), \<open>reads_plainly\<close> (PARSE_JSON takes a character
  outside an escape for itself), \<open>honest\<close> (random numbers stay in their
  range, identifiers are fresh), \<open>serves\<close> (a search returns at most \<open>limit\<close> stored objects that pass the filter),
  \<open>keeps_complete\<close> (pydantic returns a complete dictionary of the declared types as it is), \<open>inj (ids st)\<close>
  (uuid4 does not repeat).  Every theorem with such a hypothesis has a witness over a concrete instance.

  \<^bold>\<open>Shared theories.\<close>
  \<^item> Prelude, Py_Strings: values, errors, results, the string routines of the standard library, the collections
    \<open>store_simps\<close> and \<open>inv_intros\<close>.
  \<^item> Datetime: ordinals, ISO weeks and texts, used by the scheduler, the catalogue and the scoring.
  \<^item> Random_Source: the \<open>random\<close> module over three primitives, as a state monad; its rules are \<open>draw_rules\<close>.

  \<^bold>\<open>Workflow engine\<close> (\<open>workflow_engine/\<close>).
  \<^item> Workflow_State (state.py): the transition table and the five tables of the store.  Every operation keeps
    \<open>store_inv\<close>; the locale \<open>guarded_machine\<close> states what a guarded state machine promises and gives the
    approval gate and the absorbing states, for workflows here and for reviews in Governance.
  \<^item> Registry, Conditions, Planner, Schedule, Feasibility (registry.py, conditions.py, planner.py, schedule.py,
    feasibility.py): the tool catalogue, the guard language with its matchers, plans and the lazily built planner, the
    validated schedule, and the check of a plan, equivalent to a declarative predicate.
  \<^item> Executor, Scheduler (executor.py, scheduler.py): a run step by step with its checkpoints, windows and keys
    of a fire, arming, reload and catch-up.  The locale \<open>quiet_registry\<close> is what the executor relies on in the tools;
    it is interpreted on the default registry and on the demonstration's.
  \<^item> Connectors, Report, Promotion, Reports_Catalog, Tools_Bridge (connectors.py, report.py, promotion.py,
    reports_catalog.py, tools_bridge.py): the tools themselves and the registry that is built from them.  The locale
    \<open>outbox_writer\<close> is the contract of the injected writer.
  \<^item> Api (api.py): every route as a function of its request and the store.  The locale \<open>served\<close> carries an
    invariant of the store through all routes, interpreted for the approval gate, for vetted templates and for \<open>store_inv\<close>.
  \<^item> Pages (the two streamlit_app.py, chart_renderer.py): the pages as steps of a session.  What they do to the
    store is what the routes do, but for three cases that are theorems of their own, and the invariants carried by \<open>served\<close> hold in every session.
  \<^item> Delivery: runs that complete over a quiet registry, fires that complete, and the chain from a promoted report that is
    due to the one message at its destination, through promotion, scheduler, executor, tools, report and connectors.
  \<^item> Demo_Run, Scheduled_Demo (run_demo.py): the two demonstrations, an event and a scheduled report, end to end over all
    of the above.

  \<^bold>\<open>SQL path\<close> (\<open>bi_dashboard/\<close>).  Sql_Guard: the guard over the parsed statement, the confinement of the
  session, the question-to-query agent.  Clients rest on the locale \<open>sql_gate\<close>; what a statement may read is
  \<open>vetted\<close>.

  \<^bold>\<open>Data path\<close> (\<open>data_generator/\<close>, \<open>stream_processing/\<close>, \<open>settings.py\<close>).
  \<^item> Settings, User_Profiles, Seeding (settings.py, user_profile_generator.py, snowflake_writer.py): configuration,
    the population, and the guarded seeding of the dimension tables.
  \<^item> Transaction_Stream, Stream_Events (transaction_stream_generator.py): the makers of events, the main loop and
    the burst thread as a step relation of any interleaving, down to the separate load and store of every unlocked
    \<open>+=\<close> (the making of the events of a turn is one step: it touches no counter, only the
    random source and the last transaction of a user, which nothing but the geo jump's log line reads), the backfill.  The locale \<open>event_maker\<close> is what all makers
    share; the accounts of the stream rest on it.
  \<^item> Scoring, Feature_Engine, Velocity (scoring.py, feature_engine.py, velocity_engine.py, window_config.py): the
    feature row, the sinks with their buffers and failures (locale \<open>feature_sink\<close>, for staged and direct writes), the
    micro-batch, the velocity queries.
  \<^item> Startup (feature_engine.py): what the engine knows after its start over the seeded tables.
  \<^item> Fraud_Signals: the pieces put together: what the generator plants is what the scoring flags.

  \<^bold>\<open>Decision path\<close> (\<open>agents/\<close>, \<open>governance/\<close>, \<open>db/\<close>, \<open>retrieval/\<close>, \<open>common/\<close>).
  \<^item> Validators, Db_Tools (schema_contract.py, validators.py, migrate.py, replay.py): the contract at the write
    boundary, migrations, the MERGE as text and as what it does.
  \<^item> Governance (policy_framework.py, hitl_handler.py): tiers, the review queue as a step relation, final verdicts.
  \<^item> Multi_Agent, Single_Agent (multi_agent, single_agent): the blackboard, the router and its guardrails, the
    tools, the bounded reason-and-act loop.
  \<^item> Chunker, Retrieval (chunker.py, ingest.py, weaviate_client.py, embedder.py): documents to chunks to a collection, and
    the search the policy tool answers from.
  \<^item> Resilience (resilience.py): retry and circuit breaker, refining an abstract breaker.

  \<^bold>\<open>Observability\<close> (\<open>observability/\<close>).  Redaction, Audit_Log, Metrics, Eval_Run (redaction.py, audit_logger.py,
  metrics.py, eval_runner.py): the two passes that take identifiers out of a trace, the trace rows and their
  insertion, the scorecard, and the batch that puts team, governance, persistence, judge and scores together.

  \<^bold>\<open>What the theorems show.\<close>  Authority: nothing runs before its approval, a refused plan never runs, only vetted
  statements reach the database, at most the capped number of rows comes back, and an operation that is refused leaves
  the store as it was.  Delivery: a run returns and records what it did, stops at its first failure, is made at most once
  per period; rows reach their store exactly once whatever calls fail; the accounts of the stream never exceed what was
  sent, and agree with it when no increment was lost.
  Detection: planted frauds are flagged from the seeding to the row, and a suspect location never becomes the stored
  one.  Judgement: no decision without evidence, no silent tier for an unsafe one, a verdict is final, a judge
  changes nothing but its own score unless its exception has no text.  Privacy: no identifier that JSON writes as itself
  survives in a stored trace.  Knowledge: chunks hold every word
  within the model's limit, and guidance is the ingested policy.

  \<^bold>\<open>Bounds.\<close>  No definition runs on fuel.  The loop of the team, the reason-and-act loop, the cut of a document and
  the slices of a paragraph are functions with a termination proof; the measures are the caps of the code (the
  guardrails of the router, eight reasoning steps) and the text that is left.  The loops of the executor, the scheduler
  and the generator are structural.  The one bound that is an argument is the depth to which redaction follows JSON
  texts nested in JSON texts, Python's recursion limit: its guarantee is for every depth up to it.

  \<^bold>\<open>Not modelled.\<close>  The layout of the pages, the demonstrations of the agents and of governance,
  \<open>retrieval/query_test.py\<close>; Spark sessions, the Kafka source, the bookkeeping of watermarks and key expiry, which live in their servers;
  log lines, prints, wall-clock latencies, sleeps and the fixed texts of system prompts; the construction of clients and connection caching
  where it has no effect on the results.
\<close>

end
